(* ===== verification/Prelude.thy ===== *)
theory Prelude
  imports Main "HOL-Library.Word" "HOL-Library.Monad_Syntax"
begin

text \<open>
  Shared vocabulary of the development: the machine types of the C++ sources
  (\<^verbatim>\<open>modelclock_t\<close>, \<^verbatim>\<open>uintptr_t\<close>, \<^verbatim>\<open>uint64_t\<close>), object identities that stand for
  pointers, the fact collections the component theories add to, and generic lemmas on
  lists and words.
\<close>

unbundle bit_operations_syntax

section \<open>Machine types\<close>

text \<open>
  \<^verbatim>\<open>typedef unsigned int modelclock_t\<close> and \<^verbatim>\<open>uint\<close> are 32 bits wide, addresses
  (\<^verbatim>\<open>void *\<close>, \<^verbatim>\<open>uintptr_t\<close>) and values are 64 bits wide.  Thread ids are small
  non-negative ints and index arrays, so they are natural numbers.  A pointer to a
  \<^verbatim>\<open>ModelAction\<close> or to a \<^verbatim>\<open>ModelExecution\<close> is an object number.
\<close>

type_synonym u8 = "8 word"
type_synonym u16 = "16 word"
type_synonym u32 = "32 word"
type_synonym u64 = "64 word"
type_synonym modelclock = "32 word"
type_synonym addr = "64 word"
type_synonym tid = nat
type_synonym aid = nat
type_synonym eid = nat

section \<open>Fact collections\<close>

named_theorems frame_simps \<open>fields an operation leaves unchanged\<close>
named_theorems shape_simps \<open>lengths and sizes of updated structures\<close>

section \<open>Lists\<close>

text \<open>Growing an array with zero-filled slots, as the resize loops of the sources do.\<close>

definition grow :: "'a \<Rightarrow> nat \<Rightarrow> 'a list \<Rightarrow> 'a list" where
  "grow z n xs = xs @ replicate (n - length xs) z"

lemma length_grow [simp, shape_simps]: "length (grow z n xs) = max n (length xs)"
  by (simp add: grow_def)

lemma grow_nth:
  "i < max n (length xs) \<Longrightarrow> grow z n xs ! i = (if i < length xs then xs ! i else z)"
  by (auto simp: grow_def nth_append)

lemma grow_id [simp]: "n \<le> length xs \<Longrightarrow> grow z n xs = xs"
  by (simp add: grow_def)

text \<open>Reading an array with a default, and the pointwise view of an update.\<close>

definition nth_or :: "'a \<Rightarrow> 'a list \<Rightarrow> nat \<Rightarrow> 'a" where
  "nth_or z xs i = (if i < length xs then xs ! i else z)"

lemma nth_or_grow [simp]: "nth_or z (grow z n xs) i = nth_or z xs i"
  by (auto simp: nth_or_def grow_def nth_append)

lemma nth_or_update:
  "j < length xs \<Longrightarrow> nth_or z (xs[j := v]) i = (if i = j then v else nth_or z xs i)"
  by (auto simp: nth_or_def)

lemma nth_or_Nil [simp]: "nth_or z [] i = z"
  by (simp add: nth_or_def)

text \<open>An element of a list is smaller than the list, for recursion through a chosen child.\<close>

lemma size_nth_less [termination_simp]: "i < length xs \<Longrightarrow> f (xs ! i) < Suc (size_list f xs)"
proof (induction xs arbitrary: i)
  case Nil
  then show ?case by simp
next
  case (Cons x xs)
  show ?case
  proof (cases i)
    case 0
    then show ?thesis by simp
  next
    case (Suc j)
    with Cons have "f (xs ! j) < Suc (size_list f xs)" by simp
    with Suc show ?thesis by simp
  qed
qed

text \<open>A loop that rewrites slot \<open>i\<close> by a function of slot \<open>i\<close> only, for each index.\<close>

lemma fold_update_index:
  fixes f :: "nat \<Rightarrow> 'a \<Rightarrow> 'a"
  assumes "n \<le> length xs"
  shows "fold (\<lambda>i ys. ys[i := f i (ys ! i)]) [0..<n] xs
       = map (\<lambda>i. if i < n then f i (xs ! i) else xs ! i) [0..<length xs]"
  using assms
proof (induction n)
  case 0
  then show ?case by (simp add: map_nth)
next
  case (Suc n)
  then show ?case
    by (auto intro!: nth_equalityI simp: nth_list_update)
qed

text \<open>How an update of one element changes the number of elements with a property.\<close>

lemma filter_update_length:
  "p < length xs \<Longrightarrow> length (filter P (xs[p := x])) + (if P (xs ! p) then 1 else 0)
    = length (filter P xs) + (if P x then 1 else 0)"
proof (induction xs arbitrary: p)
  case (Cons y ys)
  then show ?case by (cases p) auto
qed simp

end
