(* ===== verification/Clock_Vector.thy ===== *)
theory Clock_Vector
  imports Prelude
begin

text \<open>
  \<^verbatim>\<open>Model/clockvector.{h,cc}\<close>: vector clocks.  A \<^verbatim>\<open>ClockVector\<close> is an array of
  \<^verbatim>\<open>modelclock_t\<close> with its length; clocks of threads past the end read as 0.  The
  lemmas show that \<open>merge\<close> is the pointwise maximum, that its result reports a change
  exactly when a clock grew, and that \<open>minmerge\<close> is the pointwise minimum on the
  threads of the argument.
\<close>

record clock_vector =
  clock :: "modelclock list"
  num_threads :: nat

definition cv_wf :: "clock_vector \<Rightarrow> bool" where
  "cv_wf cv \<longleftrightarrow> length (clock cv) = num_threads cv"

section \<open>Operations\<close>

text \<open>The constructor; the action contributes its thread id and its sequence number.\<close>

definition cv_new :: "clock_vector option \<Rightarrow> (tid \<times> modelclock) option \<Rightarrow> clock_vector" where
  "cv_new parent act =
     (let n0 = (case act of Some (t, _) \<Rightarrow> Suc t | None \<Rightarrow> 0);
          n = (case parent of Some p \<Rightarrow> (if num_threads p > n0 then num_threads p else n0)
               | None \<Rightarrow> n0);
          c0 = replicate n 0;
          c1 = (case parent of
                  Some p \<Rightarrow> take (num_threads p) (clock p) @ drop (num_threads p) c0
                | None \<Rightarrow> c0);
          c2 = (case act of Some (t, s) \<Rightarrow> c1[t := s] | None \<Rightarrow> c1)
      in \<lparr>clock = c2, num_threads = n\<rparr>)"

text \<open>The reallocation shared by \<open>merge\<close> and \<open>minmerge\<close>: new slots are 0.\<close>

definition cv_extend :: "clock_vector \<Rightarrow> nat \<Rightarrow> clock_vector" where
  "cv_extend this n =
     (if n > num_threads this
      then this\<lparr>clock := grow 0 n (clock this), num_threads := n\<rparr> else this)"

definition cv_merge :: "clock_vector \<Rightarrow> clock_vector \<Rightarrow> clock_vector \<times> bool" where
  "cv_merge this cv =
     (let ext = cv_extend this (num_threads cv);
          (c, changed) = fold (\<lambda>i (c, changed).
             if clock cv ! i > c ! i then (c[i := clock cv ! i], True) else (c, changed))
             [0..<num_threads cv] (clock ext, False)
      in (ext\<lparr>clock := c\<rparr>, changed))"

definition cv_minmerge :: "clock_vector \<Rightarrow> clock_vector \<Rightarrow> clock_vector \<times> bool" where
  "cv_minmerge this cv =
     (let ext = cv_extend this (num_threads cv);
          (c, changed) = fold (\<lambda>i (c, changed).
             if clock cv ! i < c ! i then (c[i := clock cv ! i], True) else (c, changed))
             [0..<num_threads cv] (clock ext, False)
      in (ext\<lparr>clock := c\<rparr>, changed))"

definition cv_setClock :: "clock_vector \<Rightarrow> tid \<Rightarrow> modelclock \<Rightarrow> clock_vector" where
  "cv_setClock this t m =
     (let ext = (if t \<ge> num_threads this
                 then this\<lparr>clock := grow 0 (Suc t) (clock this), num_threads := Suc t\<rparr>
                 else this)
      in ext\<lparr>clock := (clock ext)[t := m]\<rparr>)"

definition cv_synchronized_since :: "clock_vector \<Rightarrow> tid \<Rightarrow> modelclock \<Rightarrow> bool" where
  "cv_synchronized_since this t s =
     (if t < num_threads this then s \<le> clock this ! t else False)"

definition cv_getClock :: "clock_vector \<Rightarrow> tid \<Rightarrow> modelclock" where
  "cv_getClock this t = (if t < num_threads this then clock this ! t else 0)"

section \<open>Lemmas\<close>

lemma cv_getClock_nth_or: "cv_wf cv \<Longrightarrow> cv_getClock cv t = nth_or 0 (clock cv) t"
  by (simp add: cv_getClock_def cv_wf_def nth_or_def)

lemma cv_extend_wf: "cv_wf cv \<Longrightarrow> cv_wf (cv_extend cv n)"
  by (simp add: cv_extend_def cv_wf_def)

lemma cv_extend_num [simp]: "num_threads (cv_extend cv n) = max n (num_threads cv)"
  by (simp add: cv_extend_def)

lemma cv_extend_getClock: "cv_wf cv \<Longrightarrow> cv_getClock (cv_extend cv n) t = cv_getClock cv t"
  by (simp add: cv_getClock_nth_or cv_extend_wf)
     (auto simp: cv_extend_def cv_wf_def)

lemma cv_wf_getClock_ge: "cv_wf cv \<Longrightarrow> num_threads cv \<le> t \<Longrightarrow> cv_getClock cv t = 0"
  by (simp add: cv_getClock_def)

text \<open>
  Both merge loops pick, in each slot of the argument, one of two values by a test on
  that slot alone; \<open>pick_loop\<close> is their common form.
\<close>

definition pick_loop :: "(modelclock \<Rightarrow> modelclock \<Rightarrow> bool) \<Rightarrow> modelclock list \<Rightarrow> nat \<Rightarrow>
    modelclock list \<times> bool \<Rightarrow> modelclock list \<times> bool" where
  "pick_loop better d n st = fold (\<lambda>i (c, changed).
     if better (d ! i) (c ! i) then (c[i := d ! i], True) else (c, changed)) [0..<n] st"

lemma pick_loop_Suc:
  "pick_loop better d (Suc n) st =
     (case pick_loop better d n st of (c, ch) \<Rightarrow>
        if better (d ! n) (c ! n) then (c[n := d ! n], True) else (c, ch))"
  by (simp add: pick_loop_def)

lemma pick_loop_result:
  assumes "n \<le> length c"
  shows "length (fst (pick_loop better d n (c, False))) = length c"
    and "i < length c \<Longrightarrow> fst (pick_loop better d n (c, False)) ! i =
           (if i < n \<and> better (d ! i) (c ! i) then d ! i else c ! i)"
    and "snd (pick_loop better d n (c, False)) \<longleftrightarrow> (\<exists>i<n. better (d ! i) (c ! i))"
proof -
  have "length (fst (pick_loop better d n (c, False))) = length c \<and>
    (\<forall>i<length c. fst (pick_loop better d n (c, False)) ! i =
       (if i < n \<and> better (d ! i) (c ! i) then d ! i else c ! i)) \<and>
    (snd (pick_loop better d n (c, False)) \<longleftrightarrow> (\<exists>i<n. better (d ! i) (c ! i)))"
    using assms
  proof (induction n)
    case 0
    then show ?case by (simp add: pick_loop_def)
  next
    case (Suc n)
    obtain e ch where e: "pick_loop better d n (c, False) = (e, ch)" by fastforce
    from Suc e show ?case
      by (auto simp: pick_loop_Suc nth_list_update less_Suc_eq)
  qed
  then show "length (fst (pick_loop better d n (c, False))) = length c"
    and "i < length c \<Longrightarrow> fst (pick_loop better d n (c, False)) ! i =
           (if i < n \<and> better (d ! i) (c ! i) then d ! i else c ! i)"
    and "snd (pick_loop better d n (c, False)) \<longleftrightarrow> (\<exists>i<n. better (d ! i) (c ! i))"
    by auto
qed

lemma cv_merge_pick:
  "cv_merge this cv = (let ext = cv_extend this (num_threads cv);
      r = pick_loop (\<lambda>x y. x > y) (clock cv) (num_threads cv) (clock ext, False)
    in (ext\<lparr>clock := fst r\<rparr>, snd r))"
  by (simp add: cv_merge_def pick_loop_def Let_def split_beta)

lemma cv_minmerge_pick:
  "cv_minmerge this cv = (let ext = cv_extend this (num_threads cv);
      r = pick_loop (\<lambda>x y. x < y) (clock cv) (num_threads cv) (clock ext, False)
    in (ext\<lparr>clock := fst r\<rparr>, snd r))"
  by (simp add: cv_minmerge_def pick_loop_def Let_def split_beta)

lemma cv_extend_length:
  "cv_wf cv \<Longrightarrow> length (clock (cv_extend cv n)) = max n (num_threads cv)"
  using cv_extend_wf [of cv n] by (simp add: cv_wf_def)

lemma cv_extend_nth:
  "cv_wf cv \<Longrightarrow> i < max n (num_threads cv) \<Longrightarrow> clock (cv_extend cv n) ! i = cv_getClock cv i"
  using cv_extend_getClock [of cv n i] by (simp add: cv_getClock_def)

lemma cv_merge_num [simp]:
  "num_threads (fst (cv_merge a b)) = max (num_threads b) (num_threads a)"
  by (simp add: cv_merge_pick Let_def)

lemma cv_merge_wf: "cv_wf a \<Longrightarrow> cv_wf (fst (cv_merge a b))"
  by (simp add: cv_merge_pick cv_wf_def Let_def pick_loop_result(1) cv_extend_length [unfolded cv_wf_def])

lemma cv_minmerge_wf: "cv_wf a \<Longrightarrow> cv_wf (fst (cv_minmerge a b))"
  by (simp add: cv_minmerge_pick cv_wf_def Let_def pick_loop_result(1) cv_extend_length [unfolded cv_wf_def])

lemma cv_merge_get:
  assumes "cv_wf a" "cv_wf b"
  shows "cv_getClock (fst (cv_merge a b)) t = max (cv_getClock a t) (cv_getClock b t)"
  using assms
  by (auto simp: cv_merge_pick Let_def cv_getClock_def pick_loop_result(2) cv_extend_length
      cv_extend_nth max_def not_less)

lemma cv_merge_changed:
  assumes "cv_wf a" "cv_wf b"
  shows "snd (cv_merge a b) \<longleftrightarrow> (\<exists>t. cv_getClock a t < cv_getClock b t)"
proof -
  have "snd (cv_merge a b) \<longleftrightarrow> (\<exists>t<num_threads b. cv_getClock a t < clock b ! t)"
    using assms
    by (auto simp: cv_merge_pick Let_def pick_loop_result(3) cv_extend_length cv_extend_nth)
  also have "\<dots> \<longleftrightarrow> (\<exists>t. cv_getClock a t < cv_getClock b t)"
    by (auto simp: cv_getClock_def [of b])
  finally show ?thesis .
qed

lemma cv_minmerge_get:
  assumes "cv_wf a" "cv_wf b"
  shows "cv_getClock (fst (cv_minmerge a b)) t =
    (if t < num_threads b then min (cv_getClock a t) (cv_getClock b t) else cv_getClock a t)"
  using assms
  by (auto simp: cv_minmerge_pick Let_def cv_getClock_def pick_loop_result(2) cv_extend_length
      cv_extend_nth min_def not_less)

lemma cv_setClock_wf: "cv_wf a \<Longrightarrow> cv_wf (cv_setClock a t m)"
  by (simp add: cv_setClock_def cv_wf_def Let_def)

lemma cv_setClock_get:
  assumes "cv_wf a"
  shows "cv_getClock (cv_setClock a t m) u = (if u = t then m else cv_getClock a u)"
proof -
  have "cv_wf (cv_setClock a t m)" using assms by (rule cv_setClock_wf)
  then show ?thesis using assms
    by (simp add: cv_getClock_nth_or)
       (auto simp: cv_setClock_def Let_def cv_wf_def nth_or_update)
qed

lemma cv_new_wf:
  "(\<And>p. parent = Some p \<Longrightarrow> cv_wf p) \<Longrightarrow> cv_wf (cv_new parent act)"
  by (auto simp: cv_new_def cv_wf_def Let_def simp del: replicate_Suc
      split: option.splits prod.splits)

lemma cv_new_get:
  assumes "\<And>p. parent = Some p \<Longrightarrow> cv_wf p"
  shows "cv_getClock (cv_new parent act) t =
    (case act of Some (u, s) \<Rightarrow> (if t = u then s else
        (case parent of Some p \<Rightarrow> cv_getClock p t | None \<Rightarrow> 0))
     | None \<Rightarrow> (case parent of Some p \<Rightarrow> cv_getClock p t | None \<Rightarrow> 0))"
  using assms
  by (auto simp: cv_new_def cv_wf_def cv_getClock_def Let_def nth_append nth_list_update
      simp del: replicate_Suc split: option.splits prod.splits)

lemma cv_sync_getClock:
  "cv_wf cv \<Longrightarrow> s \<noteq> 0 \<Longrightarrow> cv_synchronized_since cv t s \<longleftrightarrow> s \<le> cv_getClock cv t"
  by (auto simp: cv_synchronized_since_def cv_getClock_def)

section \<open>Interface: clocks joined by pointwise maximum\<close>

text \<open>
  What the clients of the clock vectors (the actions' happens-before test, the race
  detector and the persistency-race analysis) rely on.
\<close>

locale clock_join =
  fixes get :: "'c \<Rightarrow> nat \<Rightarrow> 'a::linorder"
    and join :: "'c \<Rightarrow> 'c \<Rightarrow> 'c"
    and invar :: "'c \<Rightarrow> bool"
  assumes invar_join: "invar a \<Longrightarrow> invar b \<Longrightarrow> invar (join a b)"
    and get_join: "invar a \<Longrightarrow> invar b \<Longrightarrow> get (join a b) t = max (get a t) (get b t)"
begin

lemma join_upper: "invar a \<Longrightarrow> invar b \<Longrightarrow> get a t \<le> get (join a b) t \<and> get b t \<le> get (join a b) t"
  by (simp add: get_join)

lemma join_least:
  "invar a \<Longrightarrow> invar b \<Longrightarrow> (\<And>t. get a t \<le> get c t) \<Longrightarrow> (\<And>t. get b t \<le> get c t) \<Longrightarrow>
   get (join a b) t \<le> get c t"
  by (simp add: get_join)

lemma join_comm: "invar a \<Longrightarrow> invar b \<Longrightarrow> get (join a b) t = get (join b a) t"
  by (simp add: get_join max.commute)

lemma join_assoc:
  "invar a \<Longrightarrow> invar b \<Longrightarrow> invar c \<Longrightarrow> get (join (join a b) c) t = get (join a (join b c)) t"
  by (simp add: get_join invar_join max.assoc)

lemma join_idem: "invar a \<Longrightarrow> get (join a a) t = get a t"
  by (simp add: get_join)

lemma invar_fold_join: "invar a \<Longrightarrow> (\<forall>b \<in> set bs. invar b) \<Longrightarrow> invar (fold (\<lambda>b c. join c b) bs a)"
  by (induction bs arbitrary: a) (auto simp: invar_join)

lemma get_fold_join:
  "invar a \<Longrightarrow> (\<forall>b \<in> set bs. invar b) \<Longrightarrow>
   get (fold (\<lambda>b c. join c b) bs a) t = Max (set (map (\<lambda>b. get b t) (a # bs)))"
proof (induction bs arbitrary: a)
  case Nil
  then show ?case by simp
next
  case (Cons b bs)
  have "get (fold (\<lambda>b c. join c b) bs (join a b)) t
      = Max (set (map (\<lambda>b. get b t) (join a b # bs)))"
    using Cons.prems by (intro Cons.IH) (auto simp: invar_join)
  then show ?case using Cons.prems
    by (cases "bs = []") (simp_all add: get_join max.assoc)
qed

end

interpretation cv: clock_join cv_getClock "\<lambda>a b. fst (cv_merge a b)" cv_wf
  by unfold_locales (simp_all add: cv_merge_wf cv_merge_get)

text \<open>
  merging two clock vectors yields their least upper bound, clock by clock, and the
  returned flag says whether some clock of the receiver grew.
\<close>

theorem clock_merge_lub:
  assumes "cv_wf a" "cv_wf b"
  shows "cv_wf (fst (cv_merge a b)) \<and>
    (\<forall>t. cv_getClock (fst (cv_merge a b)) t = max (cv_getClock a t) (cv_getClock b t)) \<and>
    (snd (cv_merge a b) \<longleftrightarrow> (\<exists>t. cv_getClock a t < cv_getClock b t)) \<and>
    (\<forall>c. (\<forall>t. cv_getClock a t \<le> cv_getClock c t) \<longrightarrow> (\<forall>t. cv_getClock b t \<le> cv_getClock c t) \<longrightarrow>
      (\<forall>t. cv_getClock (fst (cv_merge a b)) t \<le> cv_getClock c t))"
  using assms cv.join_least [of a b]
  by (simp add: cv.get_join cv.invar_join cv_merge_changed)

theorem clock_merge_lub_witness:
  "cv_wf \<lparr>clock = [3, 1], num_threads = 2\<rparr> \<and> cv_wf \<lparr>clock = [2, 5, 4], num_threads = 3\<rparr> \<and>
   snd (cv_merge \<lparr>clock = [3, 1], num_threads = 2\<rparr> \<lparr>clock = [2, 5, 4], num_threads = 3\<rparr>)"
proof -
  have w: "cv_wf \<lparr>clock = [3, 1], num_threads = 2\<rparr>" "cv_wf \<lparr>clock = [2, 5, 4], num_threads = 3\<rparr>"
    by (simp_all add: cv_wf_def)
  have "\<exists>t. cv_getClock \<lparr>clock = [3, 1], num_threads = 2\<rparr> t
          < cv_getClock \<lparr>clock = [2, 5, 4], num_threads = 3\<rparr> t"
    by (rule exI [of _ 1]) (simp add: cv_getClock_def)
  with w clock_merge_lub [OF w] show ?thesis by blast
qed

end
