(* ===== verification/Race_Shadow.thy ===== *)
theory Race_Shadow
  imports Clock_Vector
begin

text \<open>
  \<^verbatim>\<open>Model/datarace.{h,cc}\<close>, the data: the shadow table of the race detector, the compact
  64-bit record, the expanded \<^verbatim>\<open>RaceRecord\<close>, and the conversions between them.  A shadow
  entry holds either a word or the pointer to a record that only this entry owns, so an
  entry is a \<open>shadow_cell\<close>.  The lemmas show that the encoding loses nothing within its
  field widths and that both forms denote the same access history.
\<close>

section \<open>The compact record\<close>

definition THREADMASK :: u64 where "THREADMASK = 0x3f"
definition READMASK :: u64 where "READMASK = 0x1ffffff"
definition WRITEMASK :: u64 where "WRITEMASK = READMASK"
definition ATOMICMASK :: u64 where "ATOMICMASK = push_bit 63 1"
definition NONATOMICMASK :: u64 where "NONATOMICMASK = NOT (push_bit 63 1)"
definition INVALIDSHADOWVAL :: u64 where "INVALIDSHADOWVAL = 2"
definition MAXTHREADID :: nat where "MAXTHREADID = 0x3f - 1"
definition MAXREADVECTOR :: modelclock where "MAXREADVECTOR = 0x1ffffff - 1"
definition MAXWRITEVECTOR :: modelclock where "MAXWRITEVECTOR = 0x1ffffff - 1"

definition ISSHORTRECORD :: "u64 \<Rightarrow> bool" where
  "ISSHORTRECORD x \<longleftrightarrow> x AND 1 \<noteq> 0"

definition RDTHREADID :: "u64 \<Rightarrow> tid" where
  "RDTHREADID x = unat (drop_bit 1 x AND THREADMASK)"

definition READVECTOR :: "u64 \<Rightarrow> modelclock" where
  "READVECTOR x = ucast (drop_bit 7 x AND READMASK)"

definition WRTHREADID :: "u64 \<Rightarrow> tid" where
  "WRTHREADID x = unat (drop_bit 32 x AND THREADMASK)"

definition WRITEVECTOR :: "u64 \<Rightarrow> modelclock" where
  "WRITEVECTOR x = ucast (drop_bit 38 x AND WRITEMASK)"

text \<open>The read clock is shifted in 32 bits, the write fields in 64.\<close>

definition ENCODEOP :: "tid \<Rightarrow> modelclock \<Rightarrow> tid \<Rightarrow> modelclock \<Rightarrow> u64" where
  "ENCODEOP rdthread rdtime wrthread wrtime =
     1 OR push_bit 1 (of_nat rdthread) OR ucast (push_bit 7 rdtime) OR
     push_bit 32 (of_nat wrthread) OR push_bit 38 (ucast wrtime)"

lemma masks: "THREADMASK = mask 6" "READMASK = mask 25" "WRITEMASK = mask 25"
  by (simp_all add: THREADMASK_def READMASK_def WRITEMASK_def mask_eq_exp_minus_1)

lemma small_nat_bits: "(t::nat) < 2 ^ k \<Longrightarrow> k \<le> n \<Longrightarrow> \<not> bit t n"
  by (metis bit_take_bit_iff not_le take_bit_nat_eq_self)

lemma small_word_bits: "(c::'a::len word) < 2 ^ k \<Longrightarrow> k \<le> n \<Longrightarrow> \<not> bit c n"
  by (metis bit_take_bit_iff less_mask_eq not_le take_bit_eq_mask)

lemma bit_ENCODEOP:
  "bit (ENCODEOP rt rc wt wc) n \<longleftrightarrow> n < 64 \<and> (n = 0 \<or> 1 \<le> n \<and> bit rt (n - 1) \<or>
     7 \<le> n \<and> n < 32 \<and> bit rc (n - 7) \<or> 32 \<le> n \<and> bit wt (n - 32) \<or>
     38 \<le> n \<and> bit wc (n - 38))"
  by (simp only: ENCODEOP_def bit_or_iff bit_push_bit_iff bit_ucast_iff bit_1_iff bit_of_nat_iff
      possible_bit_word) (auto simp: bit_simps)

lemma bit_field: "bit (drop_bit k (x::u64) AND mask m) n \<longleftrightarrow> n < m \<and> bit x (k + n)"
  by (auto simp: bit_and_iff bit_drop_bit_eq bit_mask_iff ac_simps dest: bit_imp_le_length)

lemma encode_fields:
  assumes "rt < 64" "wt < 64" "rc < 0x2000000" "wc < 0x2000000"
  shows "RDTHREADID (ENCODEOP rt rc wt wc) = rt"
    and "READVECTOR (ENCODEOP rt rc wt wc) = rc"
    and "WRTHREADID (ENCODEOP rt rc wt wc) = wt"
    and "WRITEVECTOR (ENCODEOP rt rc wt wc) = wc"
proof -
  have r: "\<And>n. 6 \<le> n \<Longrightarrow> \<not> bit rt n" and w: "\<And>n. 6 \<le> n \<Longrightarrow> \<not> bit wt n"
    using assms(1,2) small_nat_bits [of _ 6] by auto
  have c: "\<And>n. 25 \<le> n \<Longrightarrow> \<not> bit rc n" and d: "\<And>n. 25 \<le> n \<Longrightarrow> \<not> bit wc n"
    using assms(3,4) small_word_bits [of _ 25] by auto
  have r': "bit rt n \<Longrightarrow> n < 6" and w': "bit wt n \<Longrightarrow> n < 6"
    and c': "bit rc n \<Longrightarrow> n < 25" and d': "bit wc n \<Longrightarrow> n < 25" for n
    using r [of n] w [of n] c [of n] d [of n] by (auto simp: not_le [symmetric])
  have "drop_bit 1 (ENCODEOP rt rc wt wc) AND THREADMASK = of_nat rt"
    by (rule bit_word_eqI)
       (use r in \<open>auto simp: masks bit_field bit_ENCODEOP bit_of_nat_iff simp del: One_nat_def dest: r'\<close>)
  then show "RDTHREADID (ENCODEOP rt rc wt wc) = rt"
    using assms(1) by (simp add: RDTHREADID_def unat_of_nat)
  show "READVECTOR (ENCODEOP rt rc wt wc) = rc"
    unfolding READVECTOR_def
    by (rule bit_word_eqI) (use r c in \<open>auto simp: masks bit_field bit_ENCODEOP bit_ucast_iff dest: c'\<close>)
  have "drop_bit 32 (ENCODEOP rt rc wt wc) AND THREADMASK = of_nat wt"
    by (rule bit_word_eqI) (use r w in \<open>auto simp: masks bit_field bit_ENCODEOP bit_of_nat_iff simp del: One_nat_def dest: w'\<close>)
  then show "WRTHREADID (ENCODEOP rt rc wt wc) = wt"
    using assms(2) by (simp add: WRTHREADID_def unat_of_nat)
  show "WRITEVECTOR (ENCODEOP rt rc wt wc) = wc"
    unfolding WRITEVECTOR_def
    by (rule bit_word_eqI) (use r w c d in \<open>auto simp: masks bit_field bit_ENCODEOP bit_ucast_iff dest: d'\<close>)
qed

lemma encode_short: "ISSHORTRECORD (ENCODEOP rt rc wt wc)"
proof -
  have "bit (ENCODEOP rt rc wt wc AND 1) 0" by (simp only: bit_and_iff bit_ENCODEOP bit_1_iff) simp
  then show ?thesis by (auto simp: ISSHORTRECORD_def)
qed

lemma bit_ATOMICMASK: "bit ATOMICMASK n \<longleftrightarrow> n = 63"
  unfolding ATOMICMASK_def bit_push_bit_iff bit_1_iff possible_bit_word by auto

lemma ATOMICMASK_nonzero: "ATOMICMASK \<noteq> 0"
  by (metis bit_0_eq bit_ATOMICMASK bot_apply bot_bool_def)

lemma encode_not_atomic:
  assumes "rt < 64" "wt < 64" "wc < 0x2000000"
  shows "ENCODEOP rt rc wt wc AND ATOMICMASK = 0"
proof (rule bit_word_eqI)
  fix n
  have "\<not> bit wc 25" "\<not> bit wt 31" "\<not> bit rt 62"
    using assms small_nat_bits [of _ 6] small_word_bits [of wc 25] by auto
  then show "bit (ENCODEOP rt rc wt wc AND ATOMICMASK) n \<longleftrightarrow> bit (0::u64) n"
    by (auto simp: bit_and_iff bit_ENCODEOP bit_ATOMICMASK)
qed

text \<open>The atomic flag is bit 63, outside every field.\<close>

lemma atomic_flag_fields:
  "RDTHREADID (x OR ATOMICMASK) = RDTHREADID x"
  "READVECTOR (x OR ATOMICMASK) = READVECTOR x"
  "WRTHREADID (x OR ATOMICMASK) = WRTHREADID x"
  "WRITEVECTOR (x OR ATOMICMASK) = WRITEVECTOR x"
proof -
  have f: "drop_bit k (x OR ATOMICMASK) AND mask m = drop_bit k x AND mask m" if "k + m \<le> 63" for k m
    by (rule bit_word_eqI, simp only: bit_field bit_or_iff bit_ATOMICMASK) (use that in auto)
  show "RDTHREADID (x OR ATOMICMASK) = RDTHREADID x"
    "READVECTOR (x OR ATOMICMASK) = READVECTOR x"
    "WRTHREADID (x OR ATOMICMASK) = WRTHREADID x"
    "WRITEVECTOR (x OR ATOMICMASK) = WRITEVECTOR x"
    unfolding RDTHREADID_def READVECTOR_def WRTHREADID_def WRITEVECTOR_def masks
    by (simp_all only: f)
qed

lemma atomic_flag_set: "(x OR ATOMICMASK) AND ATOMICMASK \<noteq> 0"
proof -
  have "bit ((x OR ATOMICMASK) AND ATOMICMASK) 63"
    by (simp add: bit_and_iff bit_or_iff bit_ATOMICMASK)
  then show ?thesis by auto
qed

lemma atomic_flag_short: "ISSHORTRECORD (x OR ATOMICMASK) \<longleftrightarrow> ISSHORTRECORD x"
proof -
  have "(x OR ATOMICMASK) AND 1 = x AND 1"
    by (rule bit_word_eqI) (auto simp: bit_and_iff bit_or_iff bit_ATOMICMASK bit_1_iff)
  then show ?thesis by (simp add: ISSHORTRECORD_def)
qed

section \<open>The expanded record\<close>

text \<open>
  \<^verbatim>\<open>readClock\<close> and \<^verbatim>\<open>thread\<close> are two arrays of equal capacity (\<open>[]\<close> is the
  \<^verbatim>\<open>NULL\<close> pointer of a fresh record), of which the first \<^verbatim>\<open>numReads\<close> slots are in use.
\<close>

record race_record =
  rr_readClock :: "modelclock list"
  rr_thread :: "tid list"
  rr_numReads :: nat
  rr_isAtomic :: bool
  rr_writeThread :: tid
  rr_writeClock :: modelclock

definition INITCAPACITY :: nat where "INITCAPACITY = 4"

datatype shadow_cell = Short u64 | Full race_record

text \<open>
  Memory safety of a record: the arrays have equal capacity, hold the reads in use, and
  the capacity of a record with reads is a power of two of at least \<^verbatim>\<open>INITCAPACITY\<close>,
  which is what the growth test of the read check relies on.
\<close>

definition record_ok :: "race_record \<Rightarrow> bool" where
  "record_ok r \<longleftrightarrow> length (rr_readClock r) = length (rr_thread r) \<and>
     (0 < rr_numReads r \<longrightarrow> rr_numReads r \<le> length (rr_thread r) \<and>
        (\<exists>k. length (rr_thread r) = INITCAPACITY * 2 ^ k))"

definition cell_ok :: "shadow_cell \<Rightarrow> bool" where
  "cell_ok c = (case c of Full r \<Rightarrow> record_ok r | Short w \<Rightarrow> w = 0 \<or> ISSHORTRECORD w)"

text \<open>\<^verbatim>\<open>expandRecord\<close>; \<^verbatim>\<open>model_malloc\<close>'s uninitialised slots are 0 here.\<close>

definition expandRecord :: "u64 \<Rightarrow> race_record" where
  "expandRecord shadowval =
     (let readClock = READVECTOR shadowval;
          readThread = RDTHREADID shadowval;
          r0 = \<lparr>rr_readClock = [], rr_thread = [], rr_numReads = 0, rr_isAtomic = False,
                rr_writeThread = WRTHREADID shadowval, rr_writeClock = WRITEVECTOR shadowval\<rparr>;
          r1 = (if readClock \<noteq> 0
                then r0\<lparr>rr_thread := (replicate INITCAPACITY 0)[0 := readThread],
                        rr_readClock := (replicate INITCAPACITY 0)[0 := readClock],
                        rr_numReads := 1\<rparr>
                else r0)
      in if shadowval AND ATOMICMASK \<noteq> 0 then r1\<lparr>rr_isAtomic := True\<rparr> else r1)"

section \<open>Access histories\<close>

text \<open>
  What an entry denotes: the reads since the last write, the last write and whether it
  was atomic.  A clock of 0 stands for no access.
\<close>

record history =
  hist_reads :: "(tid \<times> modelclock) list"
  hist_write :: "tid \<times> modelclock"
  hist_atomic :: bool

definition record_reads :: "race_record \<Rightarrow> (tid \<times> modelclock) list" where
  "record_reads r = zip (take (rr_numReads r) (rr_thread r)) (take (rr_numReads r) (rr_readClock r))"

definition real_reads :: "(tid \<times> modelclock) list \<Rightarrow> (tid \<times> modelclock) list" where
  "real_reads rs = filter (\<lambda>(t, c). c \<noteq> 0) rs"

definition history_of :: "shadow_cell \<Rightarrow> history" where
  "history_of c = (case c of
     Short w \<Rightarrow> \<lparr>hist_reads = real_reads [(RDTHREADID w, READVECTOR w)],
                hist_write = (WRTHREADID w, WRITEVECTOR w),
                hist_atomic = (w AND ATOMICMASK \<noteq> 0)\<rparr>
   | Full r \<Rightarrow> \<lparr>hist_reads = real_reads (record_reads r),
               hist_write = (rr_writeThread r, rr_writeClock r),
               hist_atomic = rr_isAtomic r\<rparr>)"

lemma expandRecord_history: "history_of (Full (expandRecord w)) = history_of (Short w)"
  by (simp add: history_of_def expandRecord_def Let_def record_reads_def real_reads_def
      INITCAPACITY_def numeral_eq_Suc)

lemma expandRecord_ok: "record_ok (expandRecord w)"
proof -
  have "\<exists>k. (4::nat) = 4 * 2 ^ k" by (rule exI [of _ 0]) simp
  then show ?thesis by (simp add: record_ok_def expandRecord_def Let_def INITCAPACITY_def)
qed

text \<open>
  C13: the compact record keeps what is packed into it: for thread ids of 6 bits and clocks
  of 25 bits, the low bit marks it as a compact record, the atomic flag is clear, and every
  field reads back; setting the atomic flag changes no field.
\<close>

theorem encode_roundtrip:
  assumes "rt < 64" "wt < 64" "rc < 0x2000000" "wc < 0x2000000"
  shows "ISSHORTRECORD (ENCODEOP rt rc wt wc) \<and>
    history_of (Short (ENCODEOP rt rc wt wc)) =
      \<lparr>hist_reads = real_reads [(rt, rc)], hist_write = (wt, wc), hist_atomic = False\<rparr> \<and>
    history_of (Short (ENCODEOP rt rc wt wc OR ATOMICMASK)) =
      \<lparr>hist_reads = real_reads [(rt, rc)], hist_write = (wt, wc), hist_atomic = True\<rparr>"
  using assms
  by (simp add: history_of_def encode_short encode_fields encode_not_atomic atomic_flag_fields
      atomic_flag_set ATOMICMASK_nonzero)

theorem encode_roundtrip_witness:
  "history_of (Short (ENCODEOP 62 0x1fffffe 5 0x1234567)) =
     \<lparr>hist_reads = [(62, 0x1fffffe)], hist_write = (5, 0x1234567), hist_atomic = False\<rparr>"
  using encode_roundtrip [of 62 5 "0x1fffffe" "0x1234567"] by (simp add: real_reads_def)

section \<open>The shadow table\<close>

text \<open>
  The three-level table: two directories indexed by bits 32 to 47 and 16 to 31 of the
  address, a base table indexed by bits 0 to 15.  Tables are allocated zeroed on first
  use, so an entry of a missing table reads as 0.
\<close>

definition MASK16BIT :: u64 where "MASK16BIT = 0xffff"

definition lookup_slot :: "addr \<Rightarrow> u64 \<times> u64 \<times> u64" where
  "lookup_slot address =
     (drop_bit 32 address AND MASK16BIT, drop_bit 16 address AND MASK16BIT, address AND MASK16BIT)"

definition CHECKBOUNDARY :: "addr \<Rightarrow> u64 \<Rightarrow> bool" where
  "CHECKBOUNDARY location bits \<longleftrightarrow> (location AND MASK16BIT) + bits \<le> MASK16BIT"

end
