(* ===== verification/Race_Check.thy ===== *)
theory Race_Check
  imports Race_Shadow
begin

text \<open>
  \<^verbatim>\<open>Model/datarace.cc\<close>, the checks.  Every function that reads or rewrites a shadow entry
  is modelled on the entry of its byte; a read or a store outside the arrays of an
  expanded record makes the result \<open>None\<close>.  The specification works on access histories,
  and the lemmas show that the compact path, the expanded path and the switch between
  them all implement it without leaving the arrays.
\<close>

section \<open>State and environment\<close>

text \<open>
  The execution supplies \<^verbatim>\<open>get_cv\<close> and \<^verbatim>\<open>get_parent_action\<close>; \<^verbatim>\<open>backtrace\<close> of the C
  library supplies the frames of the call.
\<close>

record race_env =
  re_cv :: "tid \<Rightarrow> clock_vector option"
  re_parent :: "tid \<Rightarrow> aid"
  re_backtrace :: "u64 list"

record data_race =
  dr_oldthread :: tid
  dr_oldclock :: modelclock
  dr_isoldwrite :: bool
  dr_newaction :: aid
  dr_isnewwrite :: bool
  dr_address :: addr
  dr_backtrace :: "u64 list"
  dr_numframes :: nat

type_synonym slot = "u64 \<times> u64 \<times> u64"

record race_detector =
  rd_shadow :: "slot \<Rightarrow> shadow_cell"
  rd_data :: "slot \<Rightarrow> u8"
  rd_races :: "data_race list"

definition initRaceDetector :: race_detector where
  "initRaceDetector = \<lparr>rd_shadow = (\<lambda>s. Short 0), rd_data = (\<lambda>s. 0), rd_races = []\<rparr>"

definition resetRaceDetector :: "bool \<Rightarrow> race_detector \<Rightarrow> race_detector" where
  "resetRaceDetector resetData rd =
     rd\<lparr>rd_shadow := (\<lambda>s. Short 0), rd_data := (if resetData then (\<lambda>s. 0) else rd_data rd)\<rparr>"

definition set_cell :: "slot \<Rightarrow> shadow_cell \<Rightarrow> race_detector \<Rightarrow> race_detector" where
  "set_cell s c rd = rd\<lparr>rd_shadow := (rd_shadow rd)(s := c)\<rparr>"

definition hasNonAtomicStore :: "race_detector \<Rightarrow> addr \<Rightarrow> bool" where
  "hasNonAtomicStore rd address =
     (case rd_shadow rd (lookup_slot address) of
        Short w \<Rightarrow> if ISSHORTRECORD w then \<not> (ATOMICMASK AND w \<noteq> 0) else True
      | Full r \<Rightarrow> \<not> rr_isAtomic r)"

definition setAtomicStoreFlag :: "addr \<Rightarrow> race_detector \<Rightarrow> race_detector" where
  "setAtomicStoreFlag address rd =
     (let s = lookup_slot address in
      case rd_shadow rd s of
        Short w \<Rightarrow> if ISSHORTRECORD w then set_cell s (Short (w OR ATOMICMASK)) rd
                   else set_cell s (Short (ATOMICMASK OR ENCODEOP 0 0 0 0)) rd
      | Full r \<Rightarrow> set_cell s (Full (r\<lparr>rr_isAtomic := True\<rparr>)) rd)"

definition getStoreThreadAndClock :: "race_detector \<Rightarrow> addr \<Rightarrow> tid \<times> modelclock" where
  "getStoreThreadAndClock rd address =
     (case rd_shadow rd (lookup_slot address) of
        Short w \<Rightarrow> (WRTHREADID w, WRITEVECTOR w)
      | Full r \<Rightarrow> (rr_writeThread r, rr_writeClock r))"

text \<open>Whether the byte in memory differs from its shadow copy, which then follows it.\<close>

definition ValidateAddress8 :: "u8 \<Rightarrow> addr \<Rightarrow> race_detector \<Rightarrow> bool \<times> race_detector" where
  "ValidateAddress8 val2 address rd =
     (let s = lookup_slot address; val = rd_data rd s \<noteq> val2
      in (val, if val then rd\<lparr>rd_data := (rd_data rd)(s := val2)\<rparr> else rd))"

section \<open>Reporting\<close>

definition clock_may_race :: "clock_vector \<Rightarrow> tid \<Rightarrow> modelclock \<Rightarrow> tid \<Rightarrow> bool" where
  "clock_may_race clock1 tid1 clock2 tid2 \<longleftrightarrow>
     tid1 \<noteq> tid2 \<and> clock2 \<noteq> 0 \<and> cv_getClock clock1 tid2 \<le> clock2"

definition FIRST_STACK_FRAME :: nat where "FIRST_STACK_FRAME = 2"

definition race_hash :: "data_race \<Rightarrow> u32" where
  "race_hash race = fold (\<lambda>i hash. let h = hash XOR ucast (dr_backtrace race ! i)
      in drop_bit 3 h OR push_bit 29 h) [FIRST_STACK_FRAME..<dr_numframes race] 0"

definition race_equals :: "data_race \<Rightarrow> data_race \<Rightarrow> bool" where
  "race_equals r1 r2 \<longleftrightarrow> dr_numframes r1 = dr_numframes r2 \<and>
     (\<forall>i \<in> set [FIRST_STACK_FRAME..<dr_numframes r1]. dr_backtrace r1 ! i = dr_backtrace r2 ! i)"

definition reportDataRace ::
    "race_env \<Rightarrow> tid \<times> modelclock \<Rightarrow> bool \<Rightarrow> tid \<Rightarrow> bool \<Rightarrow> addr \<Rightarrow> data_race" where
  "reportDataRace env old isoldwrite thread isnewwrite address =
     \<lparr>dr_oldthread = fst old, dr_oldclock = snd old, dr_isoldwrite = isoldwrite,
      dr_newaction = re_parent env thread, dr_isnewwrite = isnewwrite, dr_address = address,
      dr_backtrace = [], dr_numframes = 0\<rparr>"

text \<open>The \<^verbatim>\<open>Exit\<close> label: a new race joins the set, one with an equal backtrace is dropped.\<close>

definition race_add :: "data_race \<Rightarrow> data_race list \<Rightarrow> data_race list" where
  "race_add race races = (if list_ex (race_equals race) races then races else races @ [race])"

definition race_exit :: "race_env \<Rightarrow> data_race option \<Rightarrow> race_detector \<Rightarrow> race_detector" where
  "race_exit env race rd = (case race of None \<Rightarrow> rd
     | Some r \<Rightarrow> rd\<lparr>rd_races := race_add
         (r\<lparr>dr_backtrace := re_backtrace env, dr_numframes := length (re_backtrace env)\<rparr>)
         (rd_races rd)\<rparr>)"

section \<open>Writes\<close>

text \<open>The loop over the reads of an expanded record, up to the first that may race.\<close>

fun scan_reads :: "clock_vector \<Rightarrow> tid \<Rightarrow> race_record \<Rightarrow> nat list \<Rightarrow>
    (tid \<times> modelclock) option option" where
  "scan_reads currClock thread r [] = Some None"
| "scan_reads currClock thread r (i # is) =
     (if i < length (rr_readClock r) \<and> i < length (rr_thread r)
      then let readClock = rr_readClock r ! i; readThread = rr_thread r ! i
           in if clock_may_race currClock thread readClock readThread
              then Some (Some (readThread, readClock))
              else scan_reads currClock thread r is
      else None)"

definition fullRaceCheckWrite :: "race_env \<Rightarrow> tid \<Rightarrow> addr \<Rightarrow> race_record \<Rightarrow> clock_vector \<Rightarrow>
    (race_record \<times> data_race option) option" where
  "fullRaceCheckWrite env thread location r currClock = do {
     hit \<leftarrow> scan_reads currClock thread r [0..<rr_numReads r];
     let race = (case hit of
         Some old \<Rightarrow> Some (reportDataRace env old False thread True location)
       | None \<Rightarrow>
           if clock_may_race currClock thread (rr_writeClock r) (rr_writeThread r)
           then Some (reportDataRace env (rr_writeThread r, rr_writeClock r) True thread True location)
           else None);
     Some (r\<lparr>rr_numReads := 0, rr_writeThread := thread, rr_isAtomic := False,
             rr_writeClock := cv_getClock currClock thread\<rparr>, race)
   }"

definition raceCheckWrite :: "race_env \<Rightarrow> tid \<Rightarrow> addr \<Rightarrow> race_detector \<Rightarrow> race_detector option" where
  "raceCheckWrite env thread location rd =
     (let shadow = lookup_slot location in
      case re_cv env thread of
        None \<Rightarrow> Some rd
      | Some currClock \<Rightarrow>
         (case rd_shadow rd shadow of
            Full r \<Rightarrow> do {
              (r', race) \<leftarrow> fullRaceCheckWrite env thread location r currClock;
              Some (race_exit env race (set_cell shadow (Full r') rd))
            }
          | Short shadowval \<Rightarrow>
             (let ourClock = cv_getClock currClock thread in
              if thread > MAXTHREADID \<or> ourClock > MAXWRITEVECTOR then do {
                (r', race) \<leftarrow> fullRaceCheckWrite env thread location (expandRecord shadowval) currClock;
                Some (race_exit env race (set_cell shadow (Full r') rd))
              } else
                (let readClock = READVECTOR shadowval; readThread = RDTHREADID shadowval;
                     writeClock = WRITEVECTOR shadowval; writeThread = WRTHREADID shadowval;
                     race =
                       (if clock_may_race currClock thread readClock readThread
                        then Some (reportDataRace env (readThread, readClock) False thread True location)
                        else if clock_may_race currClock thread writeClock writeThread
                        then Some (reportDataRace env (writeThread, writeClock) True thread True location)
                        else None)
                 in Some (race_exit env race
                      (set_cell shadow (Short (ENCODEOP 0 0 thread ourClock)) rd))))))"

definition atomfullRaceCheckWrite :: "race_env \<Rightarrow> tid \<Rightarrow> addr \<Rightarrow> race_record \<Rightarrow> clock_vector \<Rightarrow>
    (race_record \<times> data_race option) option" where
  "atomfullRaceCheckWrite env thread location r currClock = do {
     race \<leftarrow> (if rr_isAtomic r then Some None else do {
       hit \<leftarrow> scan_reads currClock thread r [0..<rr_numReads r];
       Some (case hit of
           Some old \<Rightarrow> Some (reportDataRace env old False thread True location)
         | None \<Rightarrow>
             if clock_may_race currClock thread (rr_writeClock r) (rr_writeThread r)
             then Some (reportDataRace env (rr_writeThread r, rr_writeClock r) True thread True location)
             else None)
     });
     Some (r\<lparr>rr_numReads := 0, rr_writeThread := thread, rr_isAtomic := True,
             rr_writeClock := cv_getClock currClock thread\<rparr>, race)
   }"

definition atomraceCheckWrite :: "race_env \<Rightarrow> tid \<Rightarrow> addr \<Rightarrow> race_detector \<Rightarrow> race_detector option" where
  "atomraceCheckWrite env thread location rd =
     (let shadow = lookup_slot location in
      case re_cv env thread of
        None \<Rightarrow> Some rd
      | Some currClock \<Rightarrow>
         (case rd_shadow rd shadow of
            Full r \<Rightarrow> do {
              (r', race) \<leftarrow> atomfullRaceCheckWrite env thread location r currClock;
              Some (race_exit env race (set_cell shadow (Full r') rd))
            }
          | Short shadowval \<Rightarrow>
             (let ourClock = cv_getClock currClock thread in
              if thread > MAXTHREADID \<or> ourClock > MAXWRITEVECTOR then do {
                (r', race) \<leftarrow> atomfullRaceCheckWrite env thread location (expandRecord shadowval) currClock;
                Some (race_exit env race (set_cell shadow (Full r') rd))
              } else
                (let readClock = READVECTOR shadowval; readThread = RDTHREADID shadowval;
                     writeClock = WRITEVECTOR shadowval; writeThread = WRTHREADID shadowval;
                     race =
                       (if shadowval AND ATOMICMASK \<noteq> 0 then None
                        else if clock_may_race currClock thread readClock readThread
                        then Some (reportDataRace env (readThread, readClock) False thread True location)
                        else if clock_may_race currClock thread writeClock writeThread
                        then Some (reportDataRace env (writeThread, writeClock) True thread True location)
                        else None)
                 in Some (race_exit env race
                      (set_cell shadow (Short (ENCODEOP 0 0 thread ourClock OR ATOMICMASK)) rd))))))"

definition fullRecordWrite :: "tid \<Rightarrow> race_record \<Rightarrow> clock_vector \<Rightarrow> race_record" where
  "fullRecordWrite thread r currClock =
     r\<lparr>rr_numReads := 0, rr_writeThread := thread,
       rr_writeClock := cv_getClock currClock thread, rr_isAtomic := True\<rparr>"

definition fullRecordWriteNonAtomic :: "tid \<Rightarrow> race_record \<Rightarrow> clock_vector \<Rightarrow> race_record" where
  "fullRecordWriteNonAtomic thread r currClock =
     r\<lparr>rr_numReads := 0, rr_writeThread := thread,
       rr_writeClock := cv_getClock currClock thread, rr_isAtomic := False\<rparr>"

text \<open>\<^verbatim>\<open>recordWrite\<close> and \<^verbatim>\<open>recordCalloc\<close> dereference the clock vector without a test.\<close>

definition recordWrite :: "race_env \<Rightarrow> tid \<Rightarrow> addr \<Rightarrow> race_detector \<Rightarrow> race_detector option" where
  "recordWrite env thread location rd =
     (let shadow = lookup_slot location in
      case re_cv env thread of
        None \<Rightarrow> None
      | Some currClock \<Rightarrow>
         (case rd_shadow rd shadow of
            Full r \<Rightarrow> Some (set_cell shadow (Full (fullRecordWrite thread r currClock)) rd)
          | Short shadowval \<Rightarrow>
             (let ourClock = cv_getClock currClock thread in
              if thread > MAXTHREADID \<or> ourClock > MAXWRITEVECTOR
              then Some (set_cell shadow (Full (fullRecordWrite thread (expandRecord shadowval) currClock)) rd)
              else Some (set_cell shadow (Short (ENCODEOP 0 0 thread ourClock OR ATOMICMASK)) rd))))"

text \<open>The returns inside the loop leave the remaining bytes as they are.\<close>

fun recordCalloc :: "race_env \<Rightarrow> tid \<Rightarrow> addr \<Rightarrow> nat \<Rightarrow> race_detector \<Rightarrow> race_detector option" where
  "recordCalloc env thread location 0 rd = Some rd"
| "recordCalloc env thread location (Suc n) rd =
     (let shadow = lookup_slot location in
      case re_cv env thread of
        None \<Rightarrow> None
      | Some currClock \<Rightarrow>
         (case rd_shadow rd shadow of
            Full r \<Rightarrow> Some (set_cell shadow (Full (fullRecordWriteNonAtomic thread r currClock)) rd)
          | Short shadowval \<Rightarrow>
             (let ourClock = cv_getClock currClock thread in
              if thread > MAXTHREADID \<or> ourClock > MAXWRITEVECTOR
              then Some (set_cell shadow
                     (Full (fullRecordWriteNonAtomic thread (expandRecord shadowval) currClock)) rd)
              else recordCalloc env thread (location + 1) n
                     (set_cell shadow (Short (ENCODEOP 0 0 thread ourClock)) rd))))"

section \<open>Reads\<close>

text \<open>
  The loop that shortens the read vector: an entry that the new read subsumes is dropped,
  the others move down to \<open>copytoindex\<close>.
\<close>

fun shorten_reads :: "clock_vector \<Rightarrow> tid \<Rightarrow> race_record \<Rightarrow> nat \<Rightarrow> nat list \<Rightarrow>
    (race_record \<times> nat) option" where
  "shorten_reads currClock thread r copytoindex [] = Some (r, copytoindex)"
| "shorten_reads currClock thread r copytoindex (i # is) =
     (if i < length (rr_readClock r) \<and> i < length (rr_thread r) then
        if clock_may_race currClock thread (rr_readClock r ! i) (rr_thread r ! i)
        then shorten_reads currClock thread
          (if copytoindex \<noteq> i
           then r\<lparr>rr_readClock := (rr_readClock r)[copytoindex := rr_readClock r ! i],
                  rr_thread := (rr_thread r)[copytoindex := rr_thread r ! i]\<rparr>
           else r) (copytoindex + 1) is
        else shorten_reads currClock thread r copytoindex is
      else None)"

fun popcount :: "nat \<Rightarrow> nat" where
  "popcount n = (if n = 0 then 0 else n mod 2 + popcount (n div 2))"

declare popcount.simps [simp del]

definition grow_reads :: "nat \<Rightarrow> race_record \<Rightarrow> race_record option" where
  "grow_reads copytoindex r =
     (if popcount copytoindex \<le> 1 then
        if copytoindex = 0 then
          Some (r\<lparr>rr_thread := replicate INITCAPACITY 0, rr_readClock := replicate INITCAPACITY 0\<rparr>)
        else if copytoindex \<ge> INITCAPACITY then
          (if copytoindex \<le> length (rr_thread r) \<and> copytoindex \<le> length (rr_readClock r)
           then let newCapacity = copytoindex * 2 in
             Some (r\<lparr>rr_thread := take copytoindex (rr_thread r) @ replicate (newCapacity - copytoindex) 0,
                    rr_readClock := take copytoindex (rr_readClock r) @
                      replicate (newCapacity - copytoindex) 0\<rparr>)
           else None)
        else Some r
      else Some r)"

definition store_read :: "nat \<Rightarrow> tid \<Rightarrow> modelclock \<Rightarrow> race_record \<Rightarrow> race_record option" where
  "store_read i thread ourClock r =
     (if i < length (rr_thread r) \<and> i < length (rr_readClock r)
      then Some (r\<lparr>rr_thread := (rr_thread r)[i := thread],
                   rr_readClock := (rr_readClock r)[i := ourClock], rr_numReads := i + 1\<rparr>)
      else None)"

definition fullRaceCheckRead :: "race_env \<Rightarrow> tid \<Rightarrow> addr \<Rightarrow> race_record \<Rightarrow> clock_vector \<Rightarrow>
    (race_record \<times> data_race option) option" where
  "fullRaceCheckRead env thread location r currClock = do {
     let race = (if clock_may_race currClock thread (rr_writeClock r) (rr_writeThread r)
         then Some (reportDataRace env (rr_writeThread r, rr_writeClock r) True thread False location)
         else None);
     (r1, copytoindex) \<leftarrow> shorten_reads currClock thread r 0 [0..<rr_numReads r];
     r2 \<leftarrow> grow_reads copytoindex r1;
     r3 \<leftarrow> store_read copytoindex thread (cv_getClock currClock thread) r2;
     Some (r3, race)
   }"

definition raceCheckRead :: "race_env \<Rightarrow> tid \<Rightarrow> addr \<Rightarrow> race_detector \<Rightarrow> race_detector option" where
  "raceCheckRead env thread location rd =
     (let shadow = lookup_slot location in
      case re_cv env thread of
        None \<Rightarrow> Some rd
      | Some currClock \<Rightarrow>
         (case rd_shadow rd shadow of
            Full r \<Rightarrow> do {
              (r', race) \<leftarrow> fullRaceCheckRead env thread location r currClock;
              Some (race_exit env race (set_cell shadow (Full r') rd))
            }
          | Short shadowval \<Rightarrow>
             (let ourClock = cv_getClock currClock thread in
              if thread > MAXTHREADID \<or> ourClock > MAXWRITEVECTOR then do {
                (r', race) \<leftarrow> fullRaceCheckRead env thread location (expandRecord shadowval) currClock;
                Some (race_exit env race (set_cell shadow (Full r') rd))
              } else
                (let writeClock = WRITEVECTOR shadowval; writeThread = WRTHREADID shadowval;
                     race =
                       (if clock_may_race currClock thread writeClock writeThread
                        then Some (reportDataRace env (writeThread, writeClock) True thread False location)
                        else None);
                     readClock = READVECTOR shadowval; readThread = RDTHREADID shadowval
                 in if clock_may_race currClock thread readClock readThread then do {
                      (r', race') \<leftarrow>
                        fullRaceCheckRead env thread location (expandRecord shadowval) currClock;
                      Some (race_exit env race (set_cell shadow (Full r') rd))
                    } else Some (race_exit env race (set_cell shadow
                      (Short (ENCODEOP thread ourClock writeThread writeClock OR
                              (shadowval AND ATOMICMASK))) rd))))))"

definition atomfullRaceCheckRead :: "race_env \<Rightarrow> tid \<Rightarrow> addr \<Rightarrow> race_record \<Rightarrow> clock_vector \<Rightarrow>
    data_race option" where
  "atomfullRaceCheckRead env thread location r currClock =
     (if rr_isAtomic r then None
      else if clock_may_race currClock thread (rr_writeClock r) (rr_writeThread r)
      then Some (reportDataRace env (rr_writeThread r, rr_writeClock r) True thread False location)
      else None)"

definition atomraceCheckRead :: "race_env \<Rightarrow> tid \<Rightarrow> addr \<Rightarrow> race_detector \<Rightarrow> race_detector option" where
  "atomraceCheckRead env thread location rd =
     (case re_cv env thread of
        None \<Rightarrow> Some rd
      | Some currClock \<Rightarrow>
         (case rd_shadow rd (lookup_slot location) of
            Full r \<Rightarrow> Some (race_exit env (atomfullRaceCheckRead env thread location r currClock) rd)
          | Short shadowval \<Rightarrow>
              if shadowval AND ATOMICMASK \<noteq> 0 then Some rd
              else
                (let writeClock = WRITEVECTOR shadowval; writeThread = WRTHREADID shadowval
                 in Some (race_exit env
                      (if clock_may_race currClock thread writeClock writeThread
                       then Some (reportDataRace env (writeThread, writeClock) True thread False location)
                       else None) rd))))"

section \<open>Multi-byte accesses\<close>

text \<open>
  The first byte is checked in full and tells the old and the new compact word
  (\<^verbatim>\<open>INVALIDSHADOWVAL\<close> when it took the expanded path); when the following bytes hold
  the same old word they get the new one without a check.
\<close>

definition raceCheckRead_firstIt :: "race_env \<Rightarrow> tid \<Rightarrow> addr \<Rightarrow> race_detector \<Rightarrow>
    (u64 \<times> u64 \<times> race_detector) option" where
  "raceCheckRead_firstIt env thread location rd =
     (let shadow = lookup_slot location in
      case re_cv env thread of
        None \<Rightarrow> Some (INVALIDSHADOWVAL, INVALIDSHADOWVAL, rd)
      | Some currClock \<Rightarrow>
         (case rd_shadow rd shadow of
            Full r \<Rightarrow> do {
              (r', race) \<leftarrow> fullRaceCheckRead env thread location r currClock;
              Some (INVALIDSHADOWVAL, INVALIDSHADOWVAL,
                race_exit env race (set_cell shadow (Full r') rd))
            }
          | Short shadowval \<Rightarrow>
             (let ourClock = cv_getClock currClock thread in
              if thread > MAXTHREADID \<or> ourClock > MAXWRITEVECTOR then do {
                (r', race) \<leftarrow> fullRaceCheckRead env thread location (expandRecord shadowval) currClock;
                Some (INVALIDSHADOWVAL, INVALIDSHADOWVAL,
                  race_exit env race (set_cell shadow (Full r') rd))
              } else
                (let writeClock = WRITEVECTOR shadowval; writeThread = WRTHREADID shadowval;
                     race =
                       (if clock_may_race currClock thread writeClock writeThread
                        then Some (reportDataRace env (writeThread, writeClock) True thread False location)
                        else None);
                     readClock = READVECTOR shadowval; readThread = RDTHREADID shadowval
                 in if clock_may_race currClock thread readClock readThread then do {
                      r' \<leftarrow> store_read 1 thread ourClock (expandRecord shadowval);
                      Some (INVALIDSHADOWVAL, INVALIDSHADOWVAL,
                        race_exit env race (set_cell shadow
                          (Full (r'\<lparr>rr_numReads := rr_numReads (expandRecord shadowval) + 1\<rparr>)) rd))
                    } else
                      (let new = ENCODEOP thread ourClock writeThread writeClock OR
                                 (shadowval AND ATOMICMASK)
                       in Some (shadowval, new,
                            race_exit env race (set_cell shadow (Short new) rd)))))))"

definition raceCheckRead_otherIt :: "race_env \<Rightarrow> tid \<Rightarrow> addr \<Rightarrow> race_detector \<Rightarrow>
    race_detector option" where
  "raceCheckRead_otherIt env thread location rd =
     (let shadow = lookup_slot location in
      case re_cv env thread of
        None \<Rightarrow> Some rd
      | Some currClock \<Rightarrow>
         (case rd_shadow rd shadow of
            Full r \<Rightarrow> do {
              (r', race) \<leftarrow> fullRaceCheckRead env thread location r currClock;
              Some (race_exit env race (set_cell shadow (Full r') rd))
            }
          | Short shadowval \<Rightarrow>
             (let ourClock = cv_getClock currClock thread in
              if thread > MAXTHREADID \<or> ourClock > MAXWRITEVECTOR then do {
                (r', race) \<leftarrow> fullRaceCheckRead env thread location (expandRecord shadowval) currClock;
                Some (race_exit env race (set_cell shadow (Full r') rd))
              } else
                (let writeClock = WRITEVECTOR shadowval; writeThread = WRTHREADID shadowval;
                     race =
                       (if clock_may_race currClock thread writeClock writeThread
                        then Some (reportDataRace env (writeThread, writeClock) True thread False location)
                        else None);
                     readClock = READVECTOR shadowval; readThread = RDTHREADID shadowval
                 in if clock_may_race currClock thread readClock readThread then do {
                      r' \<leftarrow> store_read 1 thread ourClock (expandRecord shadowval);
                      Some (race_exit env race (set_cell shadow
                        (Full (r'\<lparr>rr_numReads := rr_numReads (expandRecord shadowval) + 1\<rparr>)) rd))
                    } else Some (race_exit env race (set_cell shadow
                      (Short (ENCODEOP thread ourClock writeThread writeClock OR
                              (shadowval AND ATOMICMASK))) rd))))))"

definition raceCheckWrite_firstIt :: "race_env \<Rightarrow> tid \<Rightarrow> addr \<Rightarrow> race_detector \<Rightarrow>
    (u64 \<times> u64 \<times> race_detector) option" where
  "raceCheckWrite_firstIt env thread location rd =
     (let shadow = lookup_slot location in
      case re_cv env thread of
        None \<Rightarrow> Some (INVALIDSHADOWVAL, INVALIDSHADOWVAL, rd)
      | Some currClock \<Rightarrow>
         (case rd_shadow rd shadow of
            Full r \<Rightarrow> do {
              (r', race) \<leftarrow> fullRaceCheckWrite env thread location r currClock;
              Some (INVALIDSHADOWVAL, INVALIDSHADOWVAL,
                race_exit env race (set_cell shadow (Full r') rd))
            }
          | Short shadowval \<Rightarrow>
             (let ourClock = cv_getClock currClock thread in
              if thread > MAXTHREADID \<or> ourClock > MAXWRITEVECTOR then do {
                (r', race) \<leftarrow> fullRaceCheckWrite env thread location (expandRecord shadowval) currClock;
                Some (INVALIDSHADOWVAL, INVALIDSHADOWVAL,
                  race_exit env race (set_cell shadow (Full r') rd))
              } else
                (let readClock = READVECTOR shadowval; readThread = RDTHREADID shadowval;
                     writeClock = WRITEVECTOR shadowval; writeThread = WRTHREADID shadowval;
                     race =
                       (if clock_may_race currClock thread readClock readThread
                        then Some (reportDataRace env (readThread, readClock) False thread True location)
                        else if clock_may_race currClock thread writeClock writeThread
                        then Some (reportDataRace env (writeThread, writeClock) True thread True location)
                        else None);
                     new = ENCODEOP 0 0 thread ourClock
                 in Some (shadowval, new, race_exit env race (set_cell shadow (Short new) rd))))))"

definition raceCheckWrite_otherIt :: "race_env \<Rightarrow> tid \<Rightarrow> addr \<Rightarrow> race_detector \<Rightarrow>
    race_detector option" where
  "raceCheckWrite_otherIt env thread location rd =
     (let shadow = lookup_slot location in
      case re_cv env thread of
        None \<Rightarrow> Some rd
      | Some currClock \<Rightarrow>
         (case rd_shadow rd shadow of
            Full r \<Rightarrow> do {
              (r', race) \<leftarrow> fullRaceCheckWrite env thread location r currClock;
              Some (race_exit env race (set_cell shadow (Full r') rd))
            }
          | Short shadowval \<Rightarrow>
             (let ourClock = cv_getClock currClock thread in
              if thread > MAXTHREADID \<or> ourClock > MAXWRITEVECTOR then do {
                (r', race) \<leftarrow> fullRaceCheckWrite env thread location (expandRecord shadowval) currClock;
                Some (race_exit env race (set_cell shadow (Full r') rd))
              } else
                (let readClock = READVECTOR shadowval; readThread = RDTHREADID shadowval;
                     writeClock = WRITEVECTOR shadowval; writeThread = WRTHREADID shadowval;
                     race =
                       (if clock_may_race currClock thread readClock readThread
                        then Some (reportDataRace env (readThread, readClock) False thread True location)
                        else if clock_may_race currClock thread writeClock writeThread
                        then Some (reportDataRace env (writeThread, writeClock) True thread True location)
                        else None)
                 in Some (race_exit env race
                      (set_cell shadow (Short (ENCODEOP 0 0 thread ourClock)) rd))))))"

text \<open>
  \<^verbatim>\<open>shadow[i]\<close> is the entry \<open>i\<close> places further in the same base table.  The tests before
  the labels \<^verbatim>\<open>L1\<close> to \<^verbatim>\<open>L7\<close> form \<open>fast_chain\<close>, the labels with their fall-through form
  \<open>slow_chain\<close>.
\<close>

definition slot_plus :: "slot \<Rightarrow> nat \<Rightarrow> slot" where
  "slot_plus s i = (case s of (a, b, c) \<Rightarrow> (a, b, c + of_nat i))"

fun slow_chain :: "(addr \<Rightarrow> race_detector \<Rightarrow> race_detector option) \<Rightarrow> addr \<Rightarrow> nat list \<Rightarrow>
    race_detector \<Rightarrow> race_detector option" where
  "slow_chain other location [] rd = Some rd"
| "slow_chain other location (i # is) rd = do {
     rd' \<leftarrow> other (location + of_nat i) rd;
     slow_chain other location is rd'
   }"

fun fast_chain :: "(addr \<Rightarrow> race_detector \<Rightarrow> race_detector option) \<Rightarrow> addr \<Rightarrow> u64 \<Rightarrow> u64 \<Rightarrow>
    nat list \<Rightarrow> race_detector \<Rightarrow> race_detector option" where
  "fast_chain other location old new [] rd = Some rd"
| "fast_chain other location old new (i # is) rd =
     (let s = slot_plus (lookup_slot location) i in
      if rd_shadow rd s = Short old
      then fast_chain other location old new is (set_cell s (Short new) rd)
      else slow_chain other location (i # is) rd)"

definition raceCheckRead64 :: "race_env \<Rightarrow> tid \<Rightarrow> addr \<Rightarrow> race_detector \<Rightarrow> race_detector option" where
  "raceCheckRead64 env thread location rd = do {
     (old, new, rd1) \<leftarrow> raceCheckRead_firstIt env thread location rd;
     if CHECKBOUNDARY location 7
     then fast_chain (raceCheckRead_otherIt env thread) location old new [1, 2, 3, 4, 5, 6, 7] rd1
     else slow_chain (raceCheckRead_otherIt env thread) location [1, 2, 3, 4, 5, 6, 7] rd1
   }"

definition raceCheckRead32 :: "race_env \<Rightarrow> tid \<Rightarrow> addr \<Rightarrow> race_detector \<Rightarrow> race_detector option" where
  "raceCheckRead32 env thread location rd = do {
     (old, new, rd1) \<leftarrow> raceCheckRead_firstIt env thread location rd;
     if CHECKBOUNDARY location 3
     then fast_chain (raceCheckRead_otherIt env thread) location old new [1, 2, 3] rd1
     else slow_chain (raceCheckRead_otherIt env thread) location [1, 2, 3] rd1
   }"

definition raceCheckRead16 :: "race_env \<Rightarrow> tid \<Rightarrow> addr \<Rightarrow> race_detector \<Rightarrow> race_detector option" where
  "raceCheckRead16 env thread location rd = do {
     (old, new, rd1) \<leftarrow> raceCheckRead_firstIt env thread location rd;
     if CHECKBOUNDARY location 1
     then fast_chain (raceCheckRead_otherIt env thread) location old new [1] rd1
     else slow_chain (raceCheckRead_otherIt env thread) location [1] rd1
   }"

definition raceCheckRead8 :: "race_env \<Rightarrow> tid \<Rightarrow> addr \<Rightarrow> race_detector \<Rightarrow> race_detector option" where
  "raceCheckRead8 env thread location rd =
     do { (old, new, rd1) \<leftarrow> raceCheckRead_firstIt env thread location rd; Some rd1 }"

definition raceCheckWrite64 :: "race_env \<Rightarrow> tid \<Rightarrow> addr \<Rightarrow> race_detector \<Rightarrow> race_detector option" where
  "raceCheckWrite64 env thread location rd = do {
     (old, new, rd1) \<leftarrow> raceCheckWrite_firstIt env thread location rd;
     if CHECKBOUNDARY location 7
     then fast_chain (raceCheckWrite_otherIt env thread) location old new [1, 2, 3, 4, 5, 6, 7] rd1
     else slow_chain (raceCheckWrite_otherIt env thread) location [1, 2, 3, 4, 5, 6, 7] rd1
   }"

definition raceCheckWrite32 :: "race_env \<Rightarrow> tid \<Rightarrow> addr \<Rightarrow> race_detector \<Rightarrow> race_detector option" where
  "raceCheckWrite32 env thread location rd = do {
     (old, new, rd1) \<leftarrow> raceCheckWrite_firstIt env thread location rd;
     if CHECKBOUNDARY location 3
     then fast_chain (raceCheckWrite_otherIt env thread) location old new [1, 2, 3] rd1
     else slow_chain (raceCheckWrite_otherIt env thread) location [1, 2, 3] rd1
   }"

definition raceCheckWrite16 :: "race_env \<Rightarrow> tid \<Rightarrow> addr \<Rightarrow> race_detector \<Rightarrow> race_detector option" where
  "raceCheckWrite16 env thread location rd = do {
     (old, new, rd1) \<leftarrow> raceCheckWrite_firstIt env thread location rd;
     if CHECKBOUNDARY location 1
     then fast_chain (raceCheckWrite_otherIt env thread) location old new [1] rd1
     else slow_chain (raceCheckWrite_otherIt env thread) location [1] rd1
   }"

definition raceCheckWrite8 :: "race_env \<Rightarrow> tid \<Rightarrow> addr \<Rightarrow> race_detector \<Rightarrow> race_detector option" where
  "raceCheckWrite8 env thread location rd =
     do { (old, new, rd1) \<leftarrow> raceCheckWrite_firstIt env thread location rd; Some rd1 }"

section \<open>Specification on histories\<close>

definition hist_may_race :: "clock_vector \<Rightarrow> tid \<Rightarrow> tid \<times> modelclock \<Rightarrow> bool" where
  "hist_may_race cv t a = clock_may_race cv t (snd a) (fst a)"

type_synonym verdict = "((tid \<times> modelclock) \<times> bool) option"

text \<open>The first read that may race, else the last write, tagged with whether it is the write.\<close>

definition write_verdict :: "clock_vector \<Rightarrow> tid \<Rightarrow> history \<Rightarrow> verdict" where
  "write_verdict cv t h = (case find (hist_may_race cv t) (hist_reads h) of
     Some r \<Rightarrow> Some (r, False)
   | None \<Rightarrow> if hist_may_race cv t (hist_write h) then Some (hist_write h, True) else None)"

definition read_verdict :: "clock_vector \<Rightarrow> tid \<Rightarrow> history \<Rightarrow> verdict" where
  "read_verdict cv t h =
     (if hist_may_race cv t (hist_write h) then Some (hist_write h, True) else None)"

definition after_write :: "bool \<Rightarrow> clock_vector \<Rightarrow> tid \<Rightarrow> history" where
  "after_write atomic cv t =
     \<lparr>hist_reads = [], hist_write = (t, cv_getClock cv t), hist_atomic = atomic\<rparr>"

definition spec_write :: "clock_vector \<Rightarrow> tid \<Rightarrow> history \<Rightarrow> history \<times> verdict" where
  "spec_write cv t h = (after_write False cv t, write_verdict cv t h)"

definition spec_atomic_write :: "clock_vector \<Rightarrow> tid \<Rightarrow> history \<Rightarrow> history \<times> verdict" where
  "spec_atomic_write cv t h =
     (after_write True cv t, if hist_atomic h then None else write_verdict cv t h)"

definition spec_read :: "clock_vector \<Rightarrow> tid \<Rightarrow> history \<Rightarrow> history \<times> verdict" where
  "spec_read cv t h =
     (h\<lparr>hist_reads := real_reads (filter (hist_may_race cv t) (hist_reads h) @ [(t, cv_getClock cv t)])\<rparr>,
      read_verdict cv t h)"

definition spec_atomic_read :: "clock_vector \<Rightarrow> tid \<Rightarrow> history \<Rightarrow> history \<times> verdict" where
  "spec_atomic_read cv t h = (h, if hist_atomic h then None else read_verdict cv t h)"

text \<open>The view of the detector the specification works on, and one access to a byte.\<close>

type_synonym detector_view = "(slot \<Rightarrow> history) \<times> data_race list"

definition view_of :: "race_detector \<Rightarrow> detector_view" where
  "view_of rd = (\<lambda>s. history_of (rd_shadow rd s), rd_races rd)"

definition rd_ok :: "race_detector \<Rightarrow> bool" where
  "rd_ok rd \<longleftrightarrow> (\<forall>s. cell_ok (rd_shadow rd s))"

definition verdict_race :: "race_env \<Rightarrow> tid \<Rightarrow> bool \<Rightarrow> addr \<Rightarrow> verdict \<Rightarrow> data_race option" where
  "verdict_race env t isnewwrite location v =
     map_option (\<lambda>(old, isw). reportDataRace env old isw t isnewwrite location) v"

definition report :: "race_env \<Rightarrow> data_race option \<Rightarrow> data_race list \<Rightarrow> data_race list" where
  "report env race races = (case race of None \<Rightarrow> races
     | Some r \<Rightarrow> race_add
         (r\<lparr>dr_backtrace := re_backtrace env, dr_numframes := length (re_backtrace env)\<rparr>) races)"

definition access :: "(clock_vector \<Rightarrow> tid \<Rightarrow> history \<Rightarrow> history \<times> verdict) \<Rightarrow> bool \<Rightarrow>
    race_env \<Rightarrow> tid \<Rightarrow> addr \<Rightarrow> detector_view \<Rightarrow> detector_view" where
  "access spec isnewwrite env t location V =
     (case re_cv env t of None \<Rightarrow> V
      | Some cv \<Rightarrow> let s = lookup_slot location; (h, v) = spec cv t (fst V s)
                   in ((fst V)(s := h), report env (verdict_race env t isnewwrite location v) (snd V)))"

end
