(* ===== verification/Race_Lemmas.thy ===== *)
theory Race_Lemmas
  imports Race_Check
begin

text \<open>
  The race detector implements its specification: every check, from any well-formed
  detector, stays inside the arrays of the expanded records, keeps the detector
  well-formed and changes the histories and the set of reported races exactly as the
  specification says, on the compact and on the expanded path.
\<close>

section \<open>Loops over an expanded record\<close>

definition read_at :: "race_record \<Rightarrow> nat \<Rightarrow> tid \<times> modelclock" where
  "read_at r i = (rr_thread r ! i, rr_readClock r ! i)"

lemma record_reads_map:
  "record_ok r \<Longrightarrow> record_reads r = map (read_at r) [0..<rr_numReads r]"
  by (cases "rr_numReads r = 0")
     (auto simp: record_reads_def record_ok_def read_at_def intro!: nth_equalityI)

lemma find_filter: "(\<And>x. P x \<Longrightarrow> Q x) \<Longrightarrow> find P (filter Q xs) = find P xs"
  by (induction xs) auto

lemma filter_find: "(\<And>x. P x \<Longrightarrow> Q x) \<Longrightarrow> filter P (filter Q xs) = filter P xs"
  by (induction xs) auto

lemma may_race_real: "hist_may_race cv t a \<Longrightarrow> (\<lambda>(t, c). c \<noteq> 0) a"
  by (cases a) (simp add: hist_may_race_def clock_may_race_def)

lemma find_real [simp]: "find (hist_may_race cv t) (real_reads rs) = find (hist_may_race cv t) rs"
  unfolding real_reads_def by (rule find_filter) (rule may_race_real)

lemma filter_real [simp]: "filter (hist_may_race cv t) (real_reads rs) = filter (hist_may_race cv t) rs"
  unfolding real_reads_def by (rule filter_find) (rule may_race_real)

lemma real_filter: "real_reads (filter (hist_may_race cv t) rs @ xs) =
    filter (hist_may_race cv t) rs @ real_reads xs"
proof -
  have "filter (\<lambda>(t, c). c \<noteq> 0) (filter (hist_may_race cv t) rs) = filter (hist_may_race cv t) rs"
    by (rule filter_True) (auto simp: hist_may_race_def clock_may_race_def)
  then show ?thesis by (simp add: real_reads_def)
qed

lemma scan_reads_find:
  assumes "length (rr_readClock r) = length (rr_thread r)" "\<forall>i \<in> set is. i < length (rr_thread r)"
  shows "scan_reads cv t r is = Some (find (hist_may_race cv t) (map (read_at r) is))"
  using assms(2) by (induction "is") (auto simp: assms(1) Let_def hist_may_race_def read_at_def)

lemma record_ok_bound:
  "record_ok r \<Longrightarrow> length (rr_readClock r) = length (rr_thread r)"
  "record_ok r \<Longrightarrow> i < rr_numReads r \<Longrightarrow> i < length (rr_thread r)"
  by (auto simp: record_ok_def)

lemma history_of_Full:
  "hist_reads (history_of (Full r)) = real_reads (record_reads r)"
  "hist_write (history_of (Full r)) = (rr_writeThread r, rr_writeClock r)"
  "hist_atomic (history_of (Full r)) = rr_isAtomic r"
  by (simp_all add: history_of_def)

lemma history_of_Short:
  "hist_reads (history_of (Short w)) = real_reads [(RDTHREADID w, READVECTOR w)]"
  "hist_write (history_of (Short w)) = (WRTHREADID w, WRITEVECTOR w)"
  "hist_atomic (history_of (Short w)) = (w AND ATOMICMASK \<noteq> 0)"
  by (simp_all add: history_of_def)

lemma scan_reads_history:
  "record_ok r \<Longrightarrow> scan_reads cv t r [0..<rr_numReads r]
     = Some (find (hist_may_race cv t) (hist_reads (history_of (Full r))))"
  by (subst scan_reads_find) (auto simp: record_ok_bound history_of_Full record_reads_map)

lemma fullRaceCheckWrite_spec:
  assumes "record_ok r"
  shows "\<exists>r'. fullRaceCheckWrite env t l r cv =
      Some (r', verdict_race env t True l (snd (spec_write cv t (history_of (Full r))))) \<and>
    record_ok r' \<and> history_of (Full r') = fst (spec_write cv t (history_of (Full r)))"
  using assms
  by (auto simp: fullRaceCheckWrite_def scan_reads_history spec_write_def write_verdict_def
      verdict_race_def history_of_Full after_write_def hist_may_race_def record_ok_def
      history_of_def record_reads_def real_reads_def split: option.splits)

lemma atomfullRaceCheckWrite_spec:
  assumes "record_ok r"
  shows "\<exists>r'. atomfullRaceCheckWrite env t l r cv =
      Some (r', verdict_race env t True l (snd (spec_atomic_write cv t (history_of (Full r))))) \<and>
    record_ok r' \<and> history_of (Full r') = fst (spec_atomic_write cv t (history_of (Full r)))"
  using assms
  by (auto simp: atomfullRaceCheckWrite_def scan_reads_history spec_atomic_write_def write_verdict_def
      verdict_race_def history_of_Full after_write_def hist_may_race_def record_ok_def
      history_of_def record_reads_def real_reads_def split: option.splits)

section \<open>Compaction and growth of the read vector\<close>

lemma popcount_0 [simp]: "popcount 0 = 0"
  by (simp add: popcount.simps)

lemma popcount_double [simp]: "popcount (2 * n) = popcount n"
  by (simp add: popcount.simps [of "2 * n"])

lemma popcount_pos: "0 < n \<Longrightarrow> 0 < popcount n"
proof (induction n rule: popcount.induct)
  case (1 n)
  then show ?case
    by (cases "n mod 2 = 0") (auto simp: popcount.simps [of n])
qed

lemma popcount_power [simp]: "popcount (2 ^ k) = 1"
proof (induction k)
  case 0
  show ?case by (subst popcount.simps) simp
next
  case (Suc k)
  then show ?case by simp
qed

lemma popcount_le_1: "0 < n \<Longrightarrow> popcount n \<le> 1 \<Longrightarrow> \<exists>k. n = 2 ^ k"
proof (induction n rule: popcount.induct)
  case (1 n)
  show ?case
  proof (cases "n mod 2 = 0")
    case True
    with 1 have "\<exists>k. n div 2 = 2 ^ k" by (auto simp: popcount.simps [of n])
    then obtain k where "n div 2 = 2 ^ k" ..
    with True have "n = 2 ^ Suc k" by (metis mod_0_imp_dvd dvd_mult_div_cancel power_Suc)
    then show ?thesis ..
  next
    case False
    with 1 have "popcount (n div 2) = 0" by (auto simp: popcount.simps [of n])
    then have "n div 2 = 0" using popcount_pos [of "n div 2"] by auto
    with 1(2) have "n = 2 ^ 0" by simp
    then show ?thesis ..
  qed
qed

text \<open>Which fields of a record a read check leaves alone.\<close>

definition same_write :: "race_record \<Rightarrow> race_record \<Rightarrow> bool" where
  "same_write r r' \<longleftrightarrow> rr_writeThread r' = rr_writeThread r \<and> rr_writeClock r' = rr_writeClock r \<and>
     rr_isAtomic r' = rr_isAtomic r"

lemma shorten_reads_spec:
  assumes "c \<le> i" "i \<le> n" "n \<le> length (rr_thread r)"
    "length (rr_readClock r) = length (rr_thread r)"
  shows "\<exists>r' c'. shorten_reads cv t r c [i..<n] = Some (r', c') \<and> c' \<le> n \<and> same_write r r' \<and>
    length (rr_thread r') = length (rr_thread r) \<and>
    length (rr_readClock r') = length (rr_readClock r) \<and>
    map (read_at r') [0..<c'] =
      map (read_at r) [0..<c] @ filter (hist_may_race cv t) (map (read_at r) [i..<n])"
  using assms
proof (induction "n - i" arbitrary: i c r)
  case 0
  then show ?case by (simp add: same_write_def)
next
  case (Suc d)
  then have i: "i < n" and step: "[i..<n] = i # [Suc i..<n]" by (auto simp: upt_conv_Cons)
  show ?case
  proof (cases "hist_may_race cv t (read_at r i)")
    case False
    have "\<exists>r' c'. shorten_reads cv t r c [Suc i..<n] = Some (r', c') \<and> c' \<le> n \<and> same_write r r' \<and>
        length (rr_thread r') = length (rr_thread r) \<and>
        length (rr_readClock r') = length (rr_readClock r) \<and>
        map (read_at r') [0..<c'] =
          map (read_at r) [0..<c] @ filter (hist_may_race cv t) (map (read_at r) [Suc i..<n])"
      using Suc.prems i by (intro Suc.hyps(1)) (use Suc.hyps(2) in auto)
    with False i Suc.prems show ?thesis
      by (auto simp: step hist_may_race_def read_at_def)
  next
    case True
    define q where "q = (if c \<noteq> i
      then r\<lparr>rr_readClock := (rr_readClock r)[c := rr_readClock r ! i],
             rr_thread := (rr_thread r)[c := rr_thread r ! i]\<rparr> else r)"
    have q: "length (rr_thread q) = length (rr_thread r)" "same_write r q"
      "length (rr_readClock q) = length (rr_thread r)"
      "\<And>j. Suc i \<le> j \<Longrightarrow> read_at q j = read_at r j"
      "\<And>j. j < c \<Longrightarrow> read_at q j = read_at r j" "read_at q c = read_at r i"
      using Suc.prems i by (auto simp: q_def read_at_def same_write_def)
    have "\<exists>r' c'. shorten_reads cv t q (Suc c) [Suc i..<n] = Some (r', c') \<and> c' \<le> n \<and>
        same_write q r' \<and> length (rr_thread r') = length (rr_thread q) \<and>
        length (rr_readClock r') = length (rr_readClock q) \<and>
        map (read_at r') [0..<c'] =
          map (read_at q) [0..<Suc c] @ filter (hist_may_race cv t) (map (read_at q) [Suc i..<n])"
      using Suc.prems i q(1-3) by (intro Suc.hyps(1)) (use Suc.hyps(2) in auto)
    moreover have "shorten_reads cv t r c [i..<n] = shorten_reads cv t q (Suc c) [Suc i..<n]"
      using True i Suc.prems by (simp add: step q_def hist_may_race_def read_at_def)
    moreover have "map (read_at q) [Suc i..<n] = map (read_at r) [Suc i..<n]"
      by (rule map_cong) (use q(4) in auto)
    moreover have "map (read_at q) [0..<Suc c] = map (read_at r) [0..<c] @ [read_at r i]"
      using q(5,6) by auto
    ultimately show ?thesis using True q(1-3) Suc.prems(4) by (auto simp: step same_write_def)
  qed
qed

lemma grow_reads_spec:
  assumes "c \<le> length (rr_thread r)" "length (rr_readClock r) = length (rr_thread r)"
    "c = 0 \<or> (\<exists>k. length (rr_thread r) = INITCAPACITY * 2 ^ k)"
  shows "\<exists>r'. grow_reads c r = Some r' \<and> same_write r r' \<and> c < length (rr_thread r') \<and>
    length (rr_readClock r') = length (rr_thread r') \<and>
    (\<exists>k. length (rr_thread r') = INITCAPACITY * 2 ^ k) \<and>
    map (read_at r') [0..<c] = map (read_at r) [0..<c]"
proof -
  consider "c = 0" | "0 < c" "popcount c \<le> 1" "c \<ge> 4" | "0 < c" "popcount c \<le> 1" "c < 4"
    | "0 < c" "popcount c > 1" by linarith
  then show ?thesis
  proof cases
    case 1
    then show ?thesis
      by (auto simp: grow_reads_def same_write_def INITCAPACITY_def intro: exI [of _ 0])
  next
    case 2
    then obtain k where k: "c = 2 ^ k" using popcount_le_1 by blast
    with 2 have "2 ^ 2 \<le> (2::nat) ^ k" by simp
    then have "2 \<le> k" by (subst (asm) power_increasing_iff) auto
    then have "c * 2 = 4 * 2 ^ (k - 1)"
      using k by (cases k; cases "k - 1") (auto simp: numeral_eq_Suc)
    then have "\<exists>j. c * 2 = INITCAPACITY * 2 ^ j" by (auto simp: INITCAPACITY_def)
    with 2 assms show ?thesis
      by (auto simp: grow_reads_def same_write_def INITCAPACITY_def Let_def read_at_def nth_append)
  next
    case 3
    with assms obtain j where "length (rr_thread r) = 4 * 2 ^ j" by (auto simp: INITCAPACITY_def)
    moreover have "4 \<le> 4 * (2::nat) ^ j" by simp
    ultimately have "c < length (rr_thread r)" using 3 by linarith
    with 3 assms show ?thesis by (auto simp: grow_reads_def same_write_def INITCAPACITY_def)
  next
    case 4
    with assms obtain j where j: "length (rr_thread r) = INITCAPACITY * 2 ^ j" by auto
    then have "length (rr_thread r) = 2 ^ (j + 2)" by (simp add: INITCAPACITY_def power_add)
    then have "popcount (length (rr_thread r)) = 1" by (simp only: popcount_power)
    with 4 have "c \<noteq> length (rr_thread r)" by auto
    with 4 assms j show ?thesis by (auto simp: grow_reads_def same_write_def)
  qed
qed

lemma store_read_spec:
  assumes "c < length (rr_thread r)" "length (rr_readClock r) = length (rr_thread r)"
    "\<exists>k. length (rr_thread r) = INITCAPACITY * 2 ^ k"
  shows "\<exists>r'. store_read c t clk r = Some r' \<and> record_ok r' \<and> same_write r r' \<and>
    record_reads r' = map (read_at r) [0..<c] @ [(t, clk)]"
proof -
  define q where "q = r\<lparr>rr_thread := (rr_thread r)[c := t],
                   rr_readClock := (rr_readClock r)[c := clk], rr_numReads := c + 1\<rparr>"
  have ok: "record_ok q" using assms by (auto simp: record_ok_def q_def)
  then have "record_reads q = map (read_at q) [0..<Suc c]"
    by (simp add: record_reads_map) (simp add: q_def)
  also have "\<dots> = map (read_at r) [0..<c] @ [(t, clk)]"
    using assms by (auto simp: q_def read_at_def)
  finally show ?thesis using assms ok by (auto simp: store_read_def q_def same_write_def)
qed

lemma fullRaceCheckRead_spec:
  assumes "record_ok r"
  shows "\<exists>r'. fullRaceCheckRead env t l r cv =
      Some (r', verdict_race env t False l (snd (spec_read cv t (history_of (Full r))))) \<and>
    record_ok r' \<and> history_of (Full r') = fst (spec_read cv t (history_of (Full r)))"
proof -
  let ?n = "rr_numReads r"
  have "\<exists>r1 c. shorten_reads cv t r 0 [0..<?n] = Some (r1, c) \<and> c \<le> ?n \<and> same_write r r1 \<and>
    length (rr_thread r1) = length (rr_thread r) \<and>
    length (rr_readClock r1) = length (rr_readClock r) \<and>
    map (read_at r1) [0..<c] =
      map (read_at r) [0..<0] @ filter (hist_may_race cv t) (map (read_at r) [0..<?n])"
    using assms by (intro shorten_reads_spec) (auto simp: record_ok_def)
  then obtain r1 c where r1: "shorten_reads cv t r 0 [0..<?n] = Some (r1, c)" "c \<le> ?n"
    "same_write r r1" "length (rr_thread r1) = length (rr_thread r)"
    "length (rr_readClock r1) = length (rr_readClock r)"
    "map (read_at r1) [0..<c] = filter (hist_may_race cv t) (record_reads r)"
    using assms by (auto simp: record_reads_map)
  have "\<exists>r2. grow_reads c r1 = Some r2 \<and> same_write r1 r2 \<and> c < length (rr_thread r2) \<and>
    length (rr_readClock r2) = length (rr_thread r2) \<and>
    (\<exists>k. length (rr_thread r2) = INITCAPACITY * 2 ^ k) \<and>
    map (read_at r2) [0..<c] = map (read_at r1) [0..<c]"
    using assms r1 by (intro grow_reads_spec) (auto simp: record_ok_def)
  then obtain r2 where r2: "grow_reads c r1 = Some r2" "same_write r1 r2" "c < length (rr_thread r2)"
    "length (rr_readClock r2) = length (rr_thread r2)"
    "\<exists>k. length (rr_thread r2) = INITCAPACITY * 2 ^ k"
    "map (read_at r2) [0..<c] = map (read_at r1) [0..<c]" by blast
  obtain r3 where r3: "store_read c t (cv_getClock cv t) r2 = Some r3" "record_ok r3"
    "same_write r2 r3" "record_reads r3 = map (read_at r2) [0..<c] @ [(t, cv_getClock cv t)]"
    using store_read_spec [OF r2(3-5)] by blast
  have "history_of (Full r3) = fst (spec_read cv t (history_of (Full r)))"
    using r1(3,6) r2(2,6) r3(3,4)
    by (simp add: history_of_def spec_read_def same_write_def real_filter)
  moreover have "fullRaceCheckRead env t l r cv =
      Some (r3, verdict_race env t False l (snd (spec_read cv t (history_of (Full r)))))"
    using r1(1) r2(1) r3(1)
    by (simp add: fullRaceCheckRead_def spec_read_def read_verdict_def verdict_race_def
        history_of_Full hist_may_race_def)
  ultimately show ?thesis using r3(2) by blast
qed

section \<open>The compact path\<close>

lemma field_bounds: "WRTHREADID w < 64" "RDTHREADID w < 64" "WRITEVECTOR w < 0x2000000"
    "READVECTOR w < 0x2000000"
proof -
  have t: "unat (x AND mask 6) < 64" for x :: u64
    using and_mask_less' [of 6 x] by (simp add: word_less_nat_alt)
  show "WRTHREADID w < 64" "RDTHREADID w < 64"
    unfolding WRTHREADID_def RDTHREADID_def masks by (rule t)+
  have c: "(ucast (x AND mask 25) :: modelclock) < 0x2000000" for x :: u64
  proof -
    have "x AND mask 25 < 2 ^ 25" by (rule and_mask_less') simp
    then have "unat (x AND mask 25) < 2 ^ 25" by (simp add: word_less_nat_alt)
    moreover have "unat (ucast (x AND mask 25) :: modelclock) = take_bit 32 (unat (x AND mask 25))"
      by (simp add: unsigned_ucast_eq)
    ultimately have "unat (ucast (x AND mask 25) :: modelclock) < 2 ^ 25"
      by (metis le_less_trans take_bit_nat_less_eq_self)
    then show ?thesis by (simp add: word_less_nat_alt)
  qed
  show "WRITEVECTOR w < 0x2000000" "READVECTOR w < 0x2000000"
    unfolding WRITEVECTOR_def READVECTOR_def masks by (rule c)+
qed

lemma within_fields:
  "\<not> MAXTHREADID < t \<Longrightarrow> t < 64"
  "\<not> MAXWRITEVECTOR < c \<Longrightarrow> c < 0x2000000"
proof -
  show "\<not> MAXTHREADID < t \<Longrightarrow> t < 64" by (simp add: MAXTHREADID_def)
  assume "\<not> MAXWRITEVECTOR < c"
  then have "c \<le> 0x1fffffe" by (simp add: MAXWRITEVECTOR_def)
  also have "(0x1fffffe :: modelclock) < 0x2000000" by simp
  finally show "c < 0x2000000" .
qed

lemma and_atomic: "w AND ATOMICMASK = (if w AND ATOMICMASK \<noteq> 0 then ATOMICMASK else 0)"
proof (cases "bit w 63")
  case True
  then have "w AND ATOMICMASK = ATOMICMASK"
    by (intro bit_word_eqI) (auto simp: bit_and_iff bit_ATOMICMASK)
  then show ?thesis by simp
next
  case False
  then have "w AND ATOMICMASK = 0"
    by (intro bit_word_eqI) (auto simp: bit_and_iff bit_ATOMICMASK)
  then show ?thesis by simp
qed

lemma history_encode:
  assumes "rt < 64" "wt < 64" "rc < 0x2000000" "wc < 0x2000000"
  shows "history_of (Short (ENCODEOP rt rc wt wc OR (w AND ATOMICMASK))) =
      \<lparr>hist_reads = real_reads [(rt, rc)], hist_write = (wt, wc), hist_atomic = (w AND ATOMICMASK \<noteq> 0)\<rparr>"
    "history_of (Short (ENCODEOP rt rc wt wc)) =
      \<lparr>hist_reads = real_reads [(rt, rc)], hist_write = (wt, wc), hist_atomic = False\<rparr>"
    "history_of (Short (ENCODEOP rt rc wt wc OR ATOMICMASK)) =
      \<lparr>hist_reads = real_reads [(rt, rc)], hist_write = (wt, wc), hist_atomic = True\<rparr>"
  using assms and_atomic [of w]
  by (auto simp: history_of_def encode_short encode_fields encode_not_atomic atomic_flag_fields
      atomic_flag_set ATOMICMASK_nonzero split: if_splits)

lemma cell_ok_encode:
  "cell_ok (Short (ENCODEOP rt rc wt wc))" "cell_ok (Short (ENCODEOP rt rc wt wc OR ATOMICMASK))"
  "cell_ok (Short (ENCODEOP rt rc wt wc OR (w AND ATOMICMASK)))"
  using and_atomic [of w] by (auto simp: cell_ok_def encode_short atomic_flag_short split: if_splits)

lemma history_expand: "history_of (Full (expandRecord w)) = history_of (Short w)"
  by (rule expandRecord_history)

text \<open>The second reader of a byte: the compact record expands to both reads.\<close>

lemma second_reader:
  assumes "READVECTOR w \<noteq> 0"
  shows "\<exists>r'. store_read 1 t clk (expandRecord w) = Some r' \<and>
    r'\<lparr>rr_numReads := rr_numReads (expandRecord w) + 1\<rparr> = r' \<and> record_ok r' \<and>
    history_of (Full r') = (history_of (Short w))
      \<lparr>hist_reads := real_reads [(RDTHREADID w, READVECTOR w), (t, clk)]\<rparr>"
proof -
  have n: "rr_numReads (expandRecord w) = 1" "length (rr_thread (expandRecord w)) = 4"
    "length (rr_readClock (expandRecord w)) = 4" "read_at (expandRecord w) 0 = (RDTHREADID w, READVECTOR w)"
    using assms by (auto simp: expandRecord_def Let_def read_at_def INITCAPACITY_def)
  have four: "\<exists>k. (4::nat) = INITCAPACITY * 2 ^ k"
    by (rule exI [of _ 0]) (simp add: INITCAPACITY_def)
  obtain r' where r': "store_read 1 t clk (expandRecord w) = Some r'" "record_ok r'"
    "same_write (expandRecord w) r'"
    "record_reads r' = map (read_at (expandRecord w)) [0..<1] @ [(t, clk)]"
    using store_read_spec [of 1 "expandRecord w" t clk] n four by auto
  have "rr_numReads r' = 2" using r'(1) by (auto simp: store_read_def split: if_splits)
  then have "r'\<lparr>rr_numReads := rr_numReads (expandRecord w) + 1\<rparr> = r'" using n(1) by simp
  moreover have "history_of (Full r') = (history_of (Short w))
      \<lparr>hist_reads := real_reads [(RDTHREADID w, READVECTOR w), (t, clk)]\<rparr>"
    using r'(3,4) n(4) history_expand [of w, symmetric]
    by (simp add: history_of_def same_write_def)
  ultimately show ?thesis using r' by blast
qed

section \<open>Refinement of a checked access\<close>

lemma view_of_simps:
  "fst (view_of rd) s = history_of (rd_shadow rd s)" "snd (view_of rd) = rd_races rd"
  by (simp_all add: view_of_def)

lemma view_exit:
  "view_of (race_exit env race (set_cell s c rd)) =
     ((fst (view_of rd))(s := history_of c), report env race (rd_races rd))"
  by (auto simp: view_of_def race_exit_def set_cell_def report_def split: option.split)

lemma ok_exit: "rd_ok rd \<Longrightarrow> cell_ok c \<Longrightarrow> rd_ok (race_exit env race (set_cell s c rd))"
  by (auto simp: rd_ok_def race_exit_def set_cell_def split: option.split)

lemma view_exit_only: "view_of (race_exit env race rd) = (fst (view_of rd), report env race (rd_races rd))"
  by (auto simp: view_of_def race_exit_def report_def split: option.split)

lemma ok_exit_only: "rd_ok rd \<Longrightarrow> rd_ok (race_exit env race rd)"
  by (auto simp: rd_ok_def race_exit_def split: option.split)

lemma ok_cell_full: "rd_ok rd \<Longrightarrow> rd_shadow rd s = Full r \<Longrightarrow> record_ok r"
  by (metis cell_ok_def rd_ok_def shadow_cell.simps(6))

text \<open>What it takes for a check of one byte to implement a specified access.\<close>

definition implements :: "(race_env \<Rightarrow> tid \<Rightarrow> addr \<Rightarrow> race_detector \<Rightarrow> race_detector option) \<Rightarrow>
    (clock_vector \<Rightarrow> tid \<Rightarrow> history \<Rightarrow> history \<times> verdict) \<Rightarrow> bool \<Rightarrow>
    race_env \<Rightarrow> tid \<Rightarrow> addr \<Rightarrow> race_detector \<Rightarrow> bool" where
  "implements check spec isw env t l rd \<longleftrightarrow>
     (case check env t l rd of None \<Rightarrow> False
      | Some rd' \<Rightarrow> rd_ok rd' \<and> view_of rd' = access spec isw env t l (view_of rd))"

lemma access_Some:
  "re_cv env t = Some cv \<Longrightarrow> access spec isw env t l V =
     ((fst V)(lookup_slot l := fst (spec cv t (fst V (lookup_slot l)))),
      report env (verdict_race env t isw l (snd (spec cv t (fst V (lookup_slot l))))) (snd V))"
  by (simp add: access_def Let_def split: prod.split)

lemma spec_write_short:
  "snd (spec_write cv t (history_of (Short w))) =
     (if clock_may_race cv t (READVECTOR w) (RDTHREADID w) then Some ((RDTHREADID w, READVECTOR w), False)
      else if clock_may_race cv t (WRITEVECTOR w) (WRTHREADID w)
      then Some ((WRTHREADID w, WRITEVECTOR w), True) else None)"
  by (simp add: spec_write_def write_verdict_def history_of_Short hist_may_race_def)

lemma spec_read_short:
  "snd (spec_read cv t (history_of (Short w))) =
     (if clock_may_race cv t (WRITEVECTOR w) (WRTHREADID w)
      then Some ((WRTHREADID w, WRITEVECTOR w), True) else None)"
  by (simp add: spec_read_def read_verdict_def history_of_Short hist_may_race_def)

lemma spec_read_short_history:
  "fst (spec_read cv t (history_of (Short w))) = (history_of (Short w))\<lparr>hist_reads :=
     real_reads ((if clock_may_race cv t (READVECTOR w) (RDTHREADID w)
        then [(RDTHREADID w, READVECTOR w)] else []) @ [(t, cv_getClock cv t)])\<rparr>"
  by (simp add: spec_read_def history_of_Short hist_may_race_def)

lemma verdict_race_if:
  "verdict_race env t isw l (if b then v else v') =
     (if b then verdict_race env t isw l v else verdict_race env t isw l v')"
  "verdict_race env t isw l (Some (old, w)) = Some (reportDataRace env old w t isw l)"
  "verdict_race env t isw l None = None"
  by (simp_all add: verdict_race_def)

lemma raceCheckWrite_implements:
  assumes "rd_ok rd"
  shows "implements raceCheckWrite spec_write True env t l rd"
proof (cases "re_cv env t")
  case None
  with assms show ?thesis by (simp add: implements_def raceCheckWrite_def access_def)
next
  case (Some cv)
  note cv = this
  show ?thesis
  proof (cases "rd_shadow rd (lookup_slot l)")
    case (Full r)
    from fullRaceCheckWrite_spec [OF ok_cell_full [OF assms Full], of env t l cv]
    show ?thesis using assms
      by (auto simp: implements_def raceCheckWrite_def cv Full access_Some view_exit
          view_of_simps ok_exit cell_ok_def)
  next
    case (Short w)
    show ?thesis
    proof (cases "MAXTHREADID < t \<or> MAXWRITEVECTOR < cv_getClock cv t")
      case True
      from fullRaceCheckWrite_spec [OF expandRecord_ok, of env t l w cv]
      show ?thesis using assms True
        by (auto simp: implements_def raceCheckWrite_def cv Short access_Some view_exit Let_def
            view_of_simps ok_exit cell_ok_def history_expand)
    next
      case False
      then show ?thesis using assms
        by (simp add: implements_def raceCheckWrite_def cv Short access_Some view_exit Let_def
            view_of_simps ok_exit cell_ok_encode spec_write_short verdict_race_if history_encode
            within_fields) (simp add: spec_write_def after_write_def real_reads_def)
    qed
  qed
qed

lemma raceCheckWrite_otherIt_eq: "raceCheckWrite_otherIt = raceCheckWrite"
  by (intro ext) (simp only: raceCheckWrite_otherIt_def raceCheckWrite_def)

lemma spec_atomic_write_short:
  "snd (spec_atomic_write cv t (history_of (Short w))) =
     (if w AND ATOMICMASK \<noteq> 0 then None else snd (spec_write cv t (history_of (Short w))))"
  by (simp add: spec_atomic_write_def spec_write_def history_of_Short)

lemma atomraceCheckWrite_implements:
  assumes "rd_ok rd"
  shows "implements atomraceCheckWrite spec_atomic_write True env t l rd"
proof (cases "re_cv env t")
  case None
  with assms show ?thesis by (simp add: implements_def atomraceCheckWrite_def access_def)
next
  case (Some cv)
  note cv = this
  show ?thesis
  proof (cases "rd_shadow rd (lookup_slot l)")
    case (Full r)
    from atomfullRaceCheckWrite_spec [OF ok_cell_full [OF assms Full], of env t l cv]
    show ?thesis using assms
      by (auto simp: implements_def atomraceCheckWrite_def cv Full access_Some view_exit
          view_of_simps ok_exit cell_ok_def)
  next
    case (Short w)
    show ?thesis
    proof (cases "MAXTHREADID < t \<or> MAXWRITEVECTOR < cv_getClock cv t")
      case True
      from atomfullRaceCheckWrite_spec [OF expandRecord_ok, of env t l w cv]
      show ?thesis using assms True
        by (auto simp: implements_def atomraceCheckWrite_def cv Short access_Some view_exit Let_def
            view_of_simps ok_exit cell_ok_def history_expand)
    next
      case False
      then show ?thesis using assms
        by (simp add: implements_def atomraceCheckWrite_def cv Short access_Some view_exit Let_def
            view_of_simps ok_exit cell_ok_encode spec_atomic_write_short spec_write_short
            verdict_race_if history_encode within_fields)
           (simp add: spec_atomic_write_def after_write_def real_reads_def)
    qed
  qed
qed

lemma may_race_clock: "clock_may_race cv t c u \<Longrightarrow> c \<noteq> 0"
  by (simp add: clock_may_race_def)

lemma compact_read_history:
  assumes "\<not> MAXTHREADID < t" "\<not> MAXWRITEVECTOR < cv_getClock cv t"
    "\<not> clock_may_race cv t (READVECTOR w) (RDTHREADID w)"
  shows "history_of (Short (ENCODEOP t (cv_getClock cv t) (WRTHREADID w) (WRITEVECTOR w) OR
      (w AND ATOMICMASK))) = fst (spec_read cv t (history_of (Short w)))"
  unfolding spec_read_short_history using assms
  by (subst history_encode) (simp_all add: field_bounds within_fields history_of_Short history_of_def)

lemma raceCheckRead_implements:
  assumes "rd_ok rd"
  shows "implements raceCheckRead spec_read False env t l rd"
proof (cases "re_cv env t")
  case None
  with assms show ?thesis by (simp add: implements_def raceCheckRead_def access_def)
next
  case (Some cv)
  note cv = this
  show ?thesis
  proof (cases "rd_shadow rd (lookup_slot l)")
    case (Full r)
    from fullRaceCheckRead_spec [OF ok_cell_full [OF assms Full], of env t l cv]
    show ?thesis using assms
      by (auto simp: implements_def raceCheckRead_def cv Full access_Some view_exit
          view_of_simps ok_exit cell_ok_def)
  next
    case (Short w)
    from fullRaceCheckRead_spec [OF expandRecord_ok, of env t l w cv]
    obtain r' where r': "fullRaceCheckRead env t l (expandRecord w) cv =
        Some (r', verdict_race env t False l (snd (spec_read cv t (history_of (Short w)))))"
      "record_ok r'" "history_of (Full r') = fst (spec_read cv t (history_of (Short w)))"
      by (auto simp: history_expand)
    show ?thesis
    proof (cases "MAXTHREADID < t \<or> MAXWRITEVECTOR < cv_getClock cv t")
      case True
      show ?thesis using assms True r'
        by (auto simp: implements_def raceCheckRead_def cv Short access_Some view_exit Let_def
            view_of_simps ok_exit cell_ok_def)
    next
      case False
      show ?thesis
      proof (cases "clock_may_race cv t (READVECTOR w) (RDTHREADID w)")
        case True
        with False r' assms show ?thesis
          by (simp add: implements_def raceCheckRead_def cv Short access_Some view_exit Let_def
              view_of_simps ok_exit cell_ok_def spec_read_short verdict_race_if)
      next
        case noread: False
        have "history_of (Short (ENCODEOP t (cv_getClock cv t) (WRTHREADID w) (WRITEVECTOR w) OR
            (w AND ATOMICMASK))) = fst (spec_read cv t (history_of (Short w)))"
          using False noread by (intro compact_read_history) auto
        with False noread assms show ?thesis
          by (simp add: implements_def raceCheckRead_def cv Short access_Some view_exit Let_def
              view_of_simps ok_exit cell_ok_encode spec_read_short verdict_race_if)
      qed
    qed
  qed
qed

lemma firstIt_read_otherIt:
  "map_option (snd \<circ> snd) (raceCheckRead_firstIt env t l rd) = raceCheckRead_otherIt env t l rd"
  by (auto simp: raceCheckRead_firstIt_def raceCheckRead_otherIt_def Let_def
      split: option.split shadow_cell.split if_split bind_split)

lemma firstIt_write_otherIt:
  "map_option (snd \<circ> snd) (raceCheckWrite_firstIt env t l rd) = raceCheckWrite_otherIt env t l rd"
  by (auto simp: raceCheckWrite_firstIt_def raceCheckWrite_otherIt_def Let_def
      split: option.split shadow_cell.split if_split bind_split)

lemma raceCheckRead_otherIt_implements:
  assumes "rd_ok rd"
  shows "implements raceCheckRead_otherIt spec_read False env t l rd"
proof (cases "re_cv env t")
  case None
  with assms show ?thesis by (simp add: implements_def raceCheckRead_otherIt_def access_def)
next
  case (Some cv)
  note cv = this
  show ?thesis
  proof (cases "\<exists>w. rd_shadow rd (lookup_slot l) = Short w \<and> \<not> MAXTHREADID < t \<and>
      \<not> MAXWRITEVECTOR < cv_getClock cv t \<and> clock_may_race cv t (READVECTOR w) (RDTHREADID w)")
    case False
    then have "raceCheckRead_otherIt env t l rd = raceCheckRead env t l rd"
      by (auto simp: raceCheckRead_otherIt_def raceCheckRead_def cv Let_def split: shadow_cell.split)
    with raceCheckRead_implements [OF assms, of env t l] show ?thesis
      by (simp add: implements_def)
  next
    case True
    then obtain w where Short: "rd_shadow rd (lookup_slot l) = Short w" and
      small: "\<not> MAXTHREADID < t" "\<not> MAXWRITEVECTOR < cv_getClock cv t" and
      race: "clock_may_race cv t (READVECTOR w) (RDTHREADID w)" by blast
    obtain r' where r': "store_read 1 t (cv_getClock cv t) (expandRecord w) = Some r'"
      "r'\<lparr>rr_numReads := rr_numReads (expandRecord w) + 1\<rparr> = r'" "record_ok r'"
      "history_of (Full r') = (history_of (Short w))
         \<lparr>hist_reads := real_reads [(RDTHREADID w, READVECTOR w), (t, cv_getClock cv t)]\<rparr>"
      using second_reader [OF may_race_clock [OF race], of t "cv_getClock cv t"] by blast
    have "history_of (Full r') = fst (spec_read cv t (history_of (Short w)))"
      unfolding spec_read_short_history r'(4) using race by simp
    then show ?thesis using small race r'(1-3) assms
      by (simp add: implements_def raceCheckRead_otherIt_def cv Short access_Some view_exit Let_def
          view_of_simps ok_exit cell_ok_def spec_read_short verdict_race_if)
  qed
qed

lemma atomraceCheckRead_implements:
  assumes "rd_ok rd"
  shows "implements atomraceCheckRead spec_atomic_read False env t l rd"
proof (cases "re_cv env t")
  case None
  with assms show ?thesis by (simp add: implements_def atomraceCheckRead_def access_def)
next
  case (Some cv)
  have same: "f(s := f s) = f" for f :: "slot \<Rightarrow> history" and s by simp
  from assms Some show ?thesis
    by (cases "rd_shadow rd (lookup_slot l)")
       (auto simp: implements_def atomraceCheckRead_def access_Some view_exit_only ok_exit_only
        view_of_simps spec_atomic_read_def read_verdict_def history_of_Short history_of_Full
        hist_may_race_def verdict_race_if atomfullRaceCheckRead_def Let_def fun_upd_idem_iff
        report_def prod_eq_iff)
qed

text \<open>\<^verbatim>\<open>recordWrite\<close>, an atomic store that is not checked, dereferences the clock vector.\<close>

definition spec_record_write :: "clock_vector \<Rightarrow> tid \<Rightarrow> history \<Rightarrow> history \<times> verdict" where
  "spec_record_write cv t h = (after_write True cv t, None)"

lemma recordWrite_implements:
  assumes "rd_ok rd" "re_cv env t \<noteq> None"
  shows "implements recordWrite spec_record_write True env t l rd"
proof -
  from assms(2) obtain cv where cv: "re_cv env t = Some cv" by auto
  have up: "view_of (set_cell s c rd) = ((fst (view_of rd))(s := history_of c), rd_races rd)"
    "rd_ok (set_cell s c rd)" if "cell_ok c" for s c
    using assms(1) that by (auto simp: view_of_def set_cell_def rd_ok_def)
  have full: "record_ok (fullRecordWrite t r cv)"
    "history_of (Full (fullRecordWrite t r cv)) = after_write True cv t" if "record_ok r" for r
    using that by (auto simp: fullRecordWrite_def record_ok_def history_of_def record_reads_def
        real_reads_def after_write_def)
  have "cell_ok (rd_shadow rd (lookup_slot l))" using assms(1) unfolding rd_ok_def by blast
  then show ?thesis using full [OF expandRecord_ok]
    by (auto simp: implements_def recordWrite_def cv access_Some spec_record_write_def up full
        cell_ok_def [of "Full _"] cell_ok_encode report_def verdict_race_def view_of_simps Let_def
        history_encode within_fields after_write_def real_reads_def split: shadow_cell.split)
qed

section \<open>Neighbouring shadow entries\<close>

lemma low_part_add:
  fixes l :: u64
  assumes "(l AND MASK16BIT) + of_nat k \<le> MASK16BIT" "i \<le> k" "k < 2 ^ 16"
  shows "(l AND MASK16BIT) + of_nat i < 2 ^ 16"
proof -
  have low: "unat (l AND MASK16BIT) < 2 ^ 16"
    using and_mask_less' [of 16 l] by (simp add: MASK16BIT_def mask_eq_exp_minus_1 word_less_nat_alt)
  have k: "unat (of_nat j :: u64) = j" if "j \<le> k" for j
    using assms(3) that by (simp add: unat_of_nat)
  have no_wrap: "unat ((l AND MASK16BIT) + of_nat j) = unat (l AND MASK16BIT) + j" if "j \<le> k" for j
    using low k [OF that] that assms(3) by (subst unat_add_lem [THEN iffD1]) auto
  have "unat (l AND MASK16BIT) + k \<le> 0xffff"
    using assms(1) no_wrap [of k] by (simp add: word_le_nat_alt MASK16BIT_def)
  then show ?thesis using no_wrap [of i] assms(2) by (simp add: word_less_nat_alt)
qed

lemma lookup_slot_neighbour:
  assumes "CHECKBOUNDARY l (of_nat k)" "i \<le> k" "k < 2 ^ 16"
  shows "lookup_slot (l + of_nat i) = slot_plus (lookup_slot l) i"
proof -
  define s where "s = (l AND MASK16BIT) + of_nat i"
  have m: "MASK16BIT = mask 16" by (simp add: MASK16BIT_def mask_eq_exp_minus_1)
  have "s < 2 ^ 16"
    unfolding s_def by (rule low_part_add [OF _ assms(2,3)]) (use assms(1) in \<open>simp add: CHECKBOUNDARY_def\<close>)
  then have s: "\<And>n. 16 \<le> n \<Longrightarrow> \<not> bit s n" by (rule small_word_bits)
  have "(l AND NOT MASK16BIT) + (l AND MASK16BIT) = (l AND NOT MASK16BIT) OR (l AND MASK16BIT)"
    by (rule disjunctive_add_eq_or, rule bit_word_eqI) (auto simp: bit_and_iff bit_not_iff)
  also have "\<dots> = l" by (rule bit_word_eqI) (auto simp: bit_and_iff bit_or_iff bit_not_iff)
  finally have "l = (l AND NOT MASK16BIT) + (l AND MASK16BIT)" by (rule sym)
  then have "l + of_nat i = (l AND NOT MASK16BIT) + s" by (simp add: s_def add.assoc)
  also have "\<dots> = (l AND NOT MASK16BIT) OR s"
  proof (rule disjunctive_add_eq_or)
    show "(l AND NOT MASK16BIT) AND s = 0"
      by (rule bit_word_eqI) (use s in \<open>auto simp: m bit_and_iff bit_not_iff bit_mask_iff not_less\<close>)
  qed
  finally have split: "l + of_nat i = (l AND NOT MASK16BIT) OR s" .
  have bits: "bit (l + of_nat i) n \<longleftrightarrow> (if n < 16 then bit s n else bit l n)" if "n < 64" for n
    unfolding split using s [of n] that
    by (auto simp: m bit_and_iff bit_or_iff bit_not_iff bit_mask_iff)
  have "drop_bit 32 (l + of_nat i) AND MASK16BIT = drop_bit 32 l AND MASK16BIT"
    "drop_bit 16 (l + of_nat i) AND MASK16BIT = drop_bit 16 l AND MASK16BIT"
    by (rule bit_word_eqI; simp only: m bit_field; auto simp: bits)+
  moreover have "(l + of_nat i) AND MASK16BIT = s"
    by (rule bit_word_eqI) (use s in \<open>auto simp: m bit_and_iff bit_mask_iff bits not_less\<close>)
  ultimately show ?thesis by (simp add: lookup_slot_def slot_plus_def s_def)
qed

section \<open>Multi-byte accesses are accesses to each byte\<close>

text \<open>All reports of one call carry the same backtrace, so after the first the rest are dropped.\<close>

lemma report_again:
  "report env (verdict_race env t isw l' v) (report env (verdict_race env t isw l v) R) =
   report env (verdict_race env t isw l v) R"
  by (cases v)
     (auto simp: report_def verdict_race_def race_add_def race_equals_def reportDataRace_def
       list_ex_iff)

locale byte_check =
  fixes check :: "race_env \<Rightarrow> tid \<Rightarrow> addr \<Rightarrow> race_detector \<Rightarrow> race_detector option"
    and spec :: "clock_vector \<Rightarrow> tid \<Rightarrow> history \<Rightarrow> history \<times> verdict"
    and isw :: bool
  assumes check_implements: "rd_ok rd \<Longrightarrow> implements check spec isw env t l rd"
begin

definition accesses :: "race_env \<Rightarrow> tid \<Rightarrow> addr \<Rightarrow> nat list \<Rightarrow> detector_view \<Rightarrow> detector_view" where
  "accesses env t l is V = fold (\<lambda>i. access spec isw env t (l + of_nat i)) is V"

lemma checkE:
  assumes "rd_ok rd"
  obtains rd' where "check env t l rd = Some rd'" "rd_ok rd'"
    "view_of rd' = access spec isw env t l (view_of rd)"
  using check_implements [OF assms, of env t l] by (auto simp: implements_def split: option.splits)

lemma slow_chain_implements:
  "rd_ok rd \<Longrightarrow> \<exists>rd'. slow_chain (check env t) l is rd = Some rd' \<and> rd_ok rd' \<and>
     view_of rd' = accesses env t l is (view_of rd)"
proof (induction "is" arbitrary: rd)
  case Nil
  then show ?case by (simp add: accesses_def)
next
  case (Cons i "is")
  obtain rd1 where rd1: "check env t (l + of_nat i) rd = Some rd1" "rd_ok rd1"
    "view_of rd1 = access spec isw env t (l + of_nat i) (view_of rd)"
    using Cons.prems by (rule checkE)
  from Cons.IH [OF rd1(2)] rd1 show ?case by (auto simp: accesses_def)
qed

end

text \<open>
  A word-sized check extends a byte check with its first iteration, which hands out either
  \<^verbatim>\<open>INVALIDSHADOWVAL\<close> or the old word of the first byte and the word it became.
\<close>

locale word_check = byte_check +
  fixes first :: "race_env \<Rightarrow> tid \<Rightarrow> addr \<Rightarrow> race_detector \<Rightarrow> (u64 \<times> u64 \<times> race_detector) option"
  assumes first_check: "map_option (snd \<circ> snd) (first env t l rd) = check env t l rd"
    and first_words: "rd_ok rd \<Longrightarrow> first env t l rd = Some (old, new, rd') \<Longrightarrow>
      old = INVALIDSHADOWVAL \<or>
      (\<exists>cv. re_cv env t = Some cv \<and> rd_shadow rd (lookup_slot l) = Short old \<and> cell_ok (Short new) \<and>
        fst (spec cv t (history_of (Short old))) = history_of (Short new))"
begin

lemma fast_step:
  assumes "re_cv env t = Some cv" "rd_shadow rd s = Short old"
    "fst (spec cv t (history_of (Short old))) = history_of (Short new)"
    "report env (verdict_race env t isw l (snd (spec cv t (history_of (Short old))))) (rd_races rd) = rd_races rd"
    "lookup_slot l = s"
  shows "view_of (set_cell s (Short new) rd) = access spec isw env t l (view_of rd)"
  using assms by (auto simp: access_Some [OF assms(1)] view_of_def set_cell_def)

lemma fast_chain_implements:
  assumes "re_cv env t = Some cv" "cell_ok (Short new)" "rd_ok rd"
    "fst (spec cv t (history_of (Short old))) = history_of (Short new)"
    "\<And>l. report env (verdict_race env t isw l (snd (spec cv t (history_of (Short old)))))
       (rd_races rd) = rd_races rd"
    "\<forall>i \<in> set is. lookup_slot (l + of_nat i) = slot_plus (lookup_slot l) i"
  shows "\<exists>rd'. fast_chain (check env t) l old new is rd = Some rd' \<and> rd_ok rd' \<and>
     view_of rd' = accesses env t l is (view_of rd)"
  using assms(3,5,6)
proof (induction "is" arbitrary: rd)
  case Nil
  then show ?case by (simp add: accesses_def)
next
  case (Cons i "is")
  let ?s = "slot_plus (lookup_slot l) i"
  show ?case
  proof (cases "rd_shadow rd ?s = Short old")
    case False
    with slow_chain_implements [OF Cons.prems(1), of env t l "i # is"] show ?thesis by simp
  next
    case True
    let ?rd = "set_cell ?s (Short new) rd"
    have ok: "rd_ok ?rd" using Cons.prems(1) assms(2) by (auto simp: rd_ok_def set_cell_def)
    have races: "rd_races ?rd = rd_races rd" by (simp add: set_cell_def)
    have "\<exists>rd'. fast_chain (check env t) l old new is ?rd = Some rd' \<and> rd_ok rd' \<and>
       view_of rd' = accesses env t l is (view_of ?rd)"
      by (rule Cons.IH [OF ok]) (use Cons.prems races in auto)
    moreover have "view_of ?rd = access spec isw env t (l + of_nat i) (view_of rd)"
      by (rule fast_step [OF assms(1) True assms(4)]) (use Cons.prems in auto)
    ultimately show ?thesis using True by (simp add: accesses_def)
  qed
qed

lemma word_check_implements:
  assumes "rd_ok rd" "CHECKBOUNDARY l (of_nat k)" "k < 2 ^ 16" "\<forall>i \<in> set is. i \<le> k"
    "first env t l rd = Some (old, new, rd1)"
  shows "\<exists>rd'. fast_chain (check env t) l old new is rd1 = Some rd' \<and> rd_ok rd' \<and>
     view_of rd' = accesses env t l (0 # is) (view_of rd)"
proof -
  have "check env t l rd = Some rd1" using first_check [of env t l rd] assms(5) by simp
  then have rd1: "rd_ok rd1" "view_of rd1 = access spec isw env t l (view_of rd)"
    using checkE [OF assms(1), of env t l] by auto
  have slots: "\<forall>i \<in> set is. lookup_slot (l + of_nat i) = slot_plus (lookup_slot l) i"
    using assms(2-4) lookup_slot_neighbour by blast
  have "\<exists>rd'. fast_chain (check env t) l old new is rd1 = Some rd' \<and> rd_ok rd' \<and>
     view_of rd' = accesses env t l is (view_of rd1)"
    using first_words [OF assms(1,5)]
  proof
    assume old: "old = INVALIDSHADOWVAL"
    have "\<not> cell_ok (Short old)" by (simp add: old cell_ok_def INVALIDSHADOWVAL_def ISSHORTRECORD_def)
    then have "rd_shadow rd1 s \<noteq> Short old" for s using rd1(1) unfolding rd_ok_def by metis
    then have "fast_chain (check env t) l old new is rd1 = slow_chain (check env t) l is rd1"
      by (cases "is") auto
    with slow_chain_implements [OF rd1(1)] show ?thesis by simp
  next
    assume "\<exists>cv. re_cv env t = Some cv \<and> rd_shadow rd (lookup_slot l) = Short old \<and>
      cell_ok (Short new) \<and> fst (spec cv t (history_of (Short old))) = history_of (Short new)"
    then obtain cv where cv: "re_cv env t = Some cv" "rd_shadow rd (lookup_slot l) = Short old"
      "cell_ok (Short new)" "fst (spec cv t (history_of (Short old))) = history_of (Short new)" by blast
    have "rd_races rd1 = report env (verdict_race env t isw l (snd (spec cv t (history_of (Short old)))))
        (rd_races rd)"
      using rd1(2) by (simp add: access_Some [OF cv(1)] view_of_def cv(2))
    then show ?thesis by (intro fast_chain_implements [OF cv(1,3) rd1(1) cv(4)])
      (simp_all add: report_again slots)
  qed
  then show ?thesis by (simp add: accesses_def rd1(2))
qed

lemma word_check_slow:
  assumes "rd_ok rd" "first env t l rd = Some (old, new, rd1)"
  shows "\<exists>rd'. slow_chain (check env t) l is rd1 = Some rd' \<and> rd_ok rd' \<and>
     view_of rd' = accesses env t l (0 # is) (view_of rd)"
proof -
  have "check env t l rd = Some rd1" using first_check [of env t l rd] assms(2) by simp
  then have rd1: "rd_ok rd1" "view_of rd1 = access spec isw env t l (view_of rd)"
    using checkE [OF assms(1), of env t l] by auto
  from slow_chain_implements [OF rd1(1), of env t l "is"] rd1(2) show ?thesis
    by (simp add: accesses_def)
qed

lemma firstE:
  assumes "rd_ok rd"
  obtains old new rd1 where "first env t l rd = Some (old, new, rd1)"
  using first_check [of env t l rd] checkE [OF assms, of env t l] by (cases "first env t l rd") auto

lemma word_access:
  assumes "rd_ok rd" "k < 2 ^ 16" "\<forall>i \<in> set ks. i \<le> k"
  shows "\<exists>rd'. (case first env t l rd of None \<Rightarrow> None | Some (old, new, rd1) \<Rightarrow>
      if CHECKBOUNDARY l (of_nat k) then fast_chain (check env t) l old new ks rd1
      else slow_chain (check env t) l ks rd1) = Some rd' \<and> rd_ok rd' \<and>
     view_of rd' = accesses env t l (0 # ks) (view_of rd)"
proof -
  obtain old new rd1 where f: "first env t l rd = Some (old, new, rd1)" using assms(1) by (rule firstE)
  then show ?thesis
    using word_check_implements [OF assms(1) _ assms(2,3) f] word_check_slow [OF assms(1) f]
    by (simp add: f)
qed

end

end
