(* ===== verification/Race_Detector.thy ===== *)
theory Race_Detector
  imports Race_Lemmas
begin

text \<open>
  The properties of the race detector: each check implements its specification, the word
  checks are checks of each byte, forgetting subsumed reads loses no race, and the
  behaviour of \<^verbatim>\<open>recordCalloc\<close>.
\<close>

section \<open>Interpretations\<close>

lemma write_first_words:
  assumes "raceCheckWrite_firstIt env t l rd = Some (old, new, rd')"
  shows "old = INVALIDSHADOWVAL \<or>
      (\<exists>cv. re_cv env t = Some cv \<and> rd_shadow rd (lookup_slot l) = Short old \<and> cell_ok (Short new) \<and>
        fst (spec_write cv t (history_of (Short old))) = history_of (Short new))"
  using assms
  by (auto simp: raceCheckWrite_firstIt_def Let_def cell_ok_encode history_encode within_fields
      spec_write_def after_write_def real_reads_def
      split: option.splits shadow_cell.splits if_splits bind_splits)

lemma read_first_words:
  assumes "raceCheckRead_firstIt env t l rd = Some (old, new, rd')"
  shows "old = INVALIDSHADOWVAL \<or>
      (\<exists>cv. re_cv env t = Some cv \<and> rd_shadow rd (lookup_slot l) = Short old \<and> cell_ok (Short new) \<and>
        fst (spec_read cv t (history_of (Short old))) = history_of (Short new))"
  using assms
  by (auto simp: raceCheckRead_firstIt_def Let_def cell_ok_encode compact_read_history
      split: option.splits shadow_cell.splits if_splits bind_splits)

interpretation plain_write: byte_check raceCheckWrite spec_write True
  by unfold_locales (rule raceCheckWrite_implements)

interpretation plain_read: byte_check raceCheckRead spec_read False
  by unfold_locales (rule raceCheckRead_implements)

interpretation atomic_write: byte_check atomraceCheckWrite spec_atomic_write True
  by unfold_locales (rule atomraceCheckWrite_implements)

interpretation atomic_read: byte_check atomraceCheckRead spec_atomic_read False
  by unfold_locales (rule atomraceCheckRead_implements)

interpretation word_write: word_check raceCheckWrite_otherIt spec_write True raceCheckWrite_firstIt
  by unfold_locales
     (simp_all add: raceCheckWrite_otherIt_eq raceCheckWrite_implements write_first_words
       firstIt_write_otherIt)

interpretation word_read: word_check raceCheckRead_otherIt spec_read False raceCheckRead_firstIt
  by unfold_locales
     (simp_all add: raceCheckRead_otherIt_implements read_first_words firstIt_read_otherIt)

lemma initRaceDetector_ok: "rd_ok initRaceDetector"
  by (simp add: rd_ok_def initRaceDetector_def cell_ok_def)

lemma resetRaceDetector_ok: "rd_ok (resetRaceDetector b rd)"
  by (simp add: rd_ok_def resetRaceDetector_def cell_ok_def)

section \<open>Properties\<close>

text \<open>
  C11: from any well-formed detector, each of the four single-byte checks stays inside the
  arrays of the expanded record, keeps the detector well-formed, and changes the access
  history of its byte and the reported races as specified: a write races with the first
  unordered read, else with the last write; a read races with the last write, and joins
  the reads it does not subsume; an atomic access does not race with an atomic store.
\<close>

theorem race_checks_refine:
  assumes "rd_ok rd"
  shows "implements raceCheckWrite spec_write True env t l rd \<and>
    implements raceCheckRead spec_read False env t l rd \<and>
    implements atomraceCheckWrite spec_atomic_write True env t l rd \<and>
    implements atomraceCheckRead spec_atomic_read False env t l rd"
  using plain_write.check_implements [OF assms] plain_read.check_implements [OF assms]
    atomic_write.check_implements [OF assms] atomic_read.check_implements [OF assms] by blast

definition two_thread_env :: race_env where
  "two_thread_env = \<lparr>re_cv = (\<lambda>t. Some \<lparr>clock = [if t = 0 then 7 else 0, if t = 0 then 0 else 9],
     num_threads = 2\<rparr>), re_parent = (\<lambda>t. t), re_backtrace = [1, 2, 3]\<rparr>"

theorem race_checks_refine_witness:
  "rd_ok initRaceDetector \<and> implements raceCheckWrite spec_write True two_thread_env 1 64 initRaceDetector"
  using race_checks_refine [OF initRaceDetector_ok, of two_thread_env 1 64] initRaceDetector_ok by blast

text \<open>
  C12: the 2, 4 and 8 byte checks, with their shortcut over equal shadow words, end with the
  histories and the reported races of a check of each byte in turn.
\<close>

theorem word_checks_are_byte_checks:
  assumes "rd_ok rd"
  shows "(\<exists>rd'. raceCheckRead64 env t l rd = Some rd' \<and> rd_ok rd' \<and> view_of rd' =
      fold (\<lambda>i. access spec_read False env t (l + of_nat i)) [0..<8] (view_of rd)) \<and>
    (\<exists>rd'. raceCheckRead32 env t l rd = Some rd' \<and> rd_ok rd' \<and> view_of rd' =
      fold (\<lambda>i. access spec_read False env t (l + of_nat i)) [0..<4] (view_of rd)) \<and>
    (\<exists>rd'. raceCheckRead16 env t l rd = Some rd' \<and> rd_ok rd' \<and> view_of rd' =
      fold (\<lambda>i. access spec_read False env t (l + of_nat i)) [0..<2] (view_of rd)) \<and>
    (\<exists>rd'. raceCheckWrite64 env t l rd = Some rd' \<and> rd_ok rd' \<and> view_of rd' =
      fold (\<lambda>i. access spec_write True env t (l + of_nat i)) [0..<8] (view_of rd)) \<and>
    (\<exists>rd'. raceCheckWrite32 env t l rd = Some rd' \<and> rd_ok rd' \<and> view_of rd' =
      fold (\<lambda>i. access spec_write True env t (l + of_nat i)) [0..<4] (view_of rd)) \<and>
    (\<exists>rd'. raceCheckWrite16 env t l rd = Some rd' \<and> rd_ok rd' \<and> view_of rd' =
      fold (\<lambda>i. access spec_write True env t (l + of_nat i)) [0..<2] (view_of rd))"
proof -
  have ix: "[0..<8] = 0 # [1, 2, 3, 4, 5, 6, 7::nat]" "[0..<4] = 0 # [1, 2, 3::nat]"
    "[0..<2] = 0 # [1::nat]"
    by (simp_all add: upt_conv_Cons)
  have lift: "(do { (a, b, c) \<leftarrow> x; f a b c }) =
      (case x of None \<Rightarrow> None | Some (a, b, c) \<Rightarrow> f a b c)"
    for x :: "('a \<times> 'b \<times> 'c) option" and f :: "'a \<Rightarrow> 'b \<Rightarrow> 'c \<Rightarrow> 'd option"
    by (cases x) auto
  note r = word_read.word_access [OF assms, unfolded word_read.accesses_def, where env = env and t = t and l = l]
  note w = word_write.word_access [OF assms, unfolded word_write.accesses_def, where env = env and t = t and l = l]
  show ?thesis
    unfolding ix raceCheckRead64_def raceCheckRead32_def raceCheckRead16_def raceCheckWrite64_def
      raceCheckWrite32_def raceCheckWrite16_def lift
    using r [where k = 7 and ks = "[1, 2, 3, 4, 5, 6, 7]", unfolded of_nat_numeral of_nat_1] r [where k = 3 and ks = "[1, 2, 3]", unfolded of_nat_numeral of_nat_1] r [where k = 1 and ks = "[1]", unfolded of_nat_numeral of_nat_1]
      w [where k = 7 and ks = "[1, 2, 3, 4, 5, 6, 7]", unfolded of_nat_numeral of_nat_1] w [where k = 3 and ks = "[1, 2, 3]", unfolded of_nat_numeral of_nat_1] w [where k = 1 and ks = "[1]", unfolded of_nat_numeral of_nat_1]
    by (intro conjI) simp_all
qed

theorem word_checks_are_byte_checks_witness:
  "\<exists>rd'. raceCheckRead64 two_thread_env 0 0x7ffffffc initRaceDetector = Some rd' \<and> rd_ok rd'"
  using word_checks_are_byte_checks [OF initRaceDetector_ok, of two_thread_env 0 "0x7ffffffc"] by blast

section \<open>Subsumed reads\<close>

text \<open>
  \<open>cv_le\<close> compares clock vectors; two accesses are consistent when the first, if the same
  thread made it or the second has seen its clock, has contributed its whole vector.
\<close>

definition cv_le :: "clock_vector \<Rightarrow> clock_vector \<Rightarrow> bool" where
  "cv_le a b \<longleftrightarrow> (\<forall>u \<in> set [0..<num_threads a]. cv_getClock a u \<le> cv_getClock b u)"

definition hb_consistent :: "tid \<times> clock_vector \<Rightarrow> tid \<times> clock_vector \<Rightarrow> bool" where
  "hb_consistent a b \<longleftrightarrow>
     (fst a = fst b \<or> cv_getClock (snd a) (fst a) < cv_getClock (snd b) (fst a) \<longrightarrow> cv_le (snd a) (snd b))"

definition stamp :: "tid \<times> clock_vector \<Rightarrow> tid \<times> modelclock" where
  "stamp a = (fst a, cv_getClock (snd a) (fst a))"

definition read_all :: "(tid \<times> clock_vector) list \<Rightarrow> history \<Rightarrow> history" where
  "read_all as h = fold (\<lambda>a h. fst (spec_read (snd a) (fst a) h)) as h"

lemma cv_le_get: "cv_le a b \<Longrightarrow> cv_getClock a u \<le> cv_getClock b u"
  by (cases "u < num_threads a") (auto simp: cv_le_def cv_getClock_def)

definition covered :: "tid \<times> clock_vector \<Rightarrow> tid \<times> clock_vector \<Rightarrow> bool" where
  "covered a b \<longleftrightarrow> cv_le (snd a) (snd b) \<and>
     (fst a = fst b \<or> cv_getClock (snd a) (fst a) < cv_getClock (snd b) (fst a))"

lemma cv_le_trans: "cv_le a b \<Longrightarrow> cv_le b c \<Longrightarrow> cv_le a c"
  unfolding cv_le_def [of a c] by (auto intro: order_trans [OF cv_le_get cv_le_get])

lemma covered_trans: "covered a b \<Longrightarrow> covered b c \<Longrightarrow> covered a c"
  unfolding covered_def
  by (auto intro: cv_le_trans le_less_trans [OF cv_le_get] less_le_trans [OF _ cv_le_get])

lemma covered_no_race:
  assumes "covered a b" "hb_consistent b w" "\<not> hist_may_race (snd w) (fst w) (stamp b)"
    "cv_getClock (snd b) (fst b) \<noteq> 0"
  shows "\<not> hist_may_race (snd w) (fst w) (stamp a)"
proof -
  from assms(3,4) have "fst b = fst w \<or> cv_getClock (snd b) (fst b) < cv_getClock (snd w) (fst b)"
    by (auto simp: hist_may_race_def clock_may_race_def stamp_def)
  then have "covered b w" using assms(2) by (auto simp: hb_consistent_def covered_def)
  with assms(1) have "covered a w" by (rule covered_trans)
  then show ?thesis by (auto simp: covered_def hist_may_race_def clock_may_race_def stamp_def)
qed

lemma read_all_snoc:
  "hist_reads (read_all (as @ [a]) h) = real_reads
     (filter (hist_may_race (snd a) (fst a)) (hist_reads (read_all as h)) @ [stamp a])"
  by (simp add: read_all_def spec_read_def stamp_def)

lemma read_all_kept:
  assumes "hist_reads h = []" "sorted_wrt hb_consistent as"
    "\<forall>a \<in> set as. cv_getClock (snd a) (fst a) \<noteq> 0"
  shows "(\<forall>s \<in> set (hist_reads (read_all as h)). \<exists>b \<in> set as. s = stamp b) \<and>
    (\<forall>a \<in> set as. \<exists>b \<in> set as. stamp b \<in> set (hist_reads (read_all as h)) \<and> (a = b \<or> covered a b))"
  using assms(2,3)
proof (induction as rule: rev_induct)
  case Nil
  then show ?case using assms(1) by (simp add: read_all_def)
next
  case (snoc x as)
  let ?H = "hist_reads (read_all as h)"
  have IH: "\<forall>s \<in> set ?H. \<exists>b \<in> set as. s = stamp b"
    "\<forall>a \<in> set as. \<exists>b \<in> set as. stamp b \<in> set ?H \<and> (a = b \<or> covered a b)"
    using snoc by (auto simp: sorted_wrt_append)
  have new: "set (hist_reads (read_all (as @ [x]) h)) =
      insert (stamp x) {s \<in> set ?H. hist_may_race (snd x) (fst x) s}"
    using snoc.prems(2) by (auto simp: read_all_snoc real_filter) (auto simp: real_reads_def stamp_def)
  have "\<exists>b \<in> set (as @ [x]). stamp b \<in> set (hist_reads (read_all (as @ [x]) h)) \<and> (a = b \<or> covered a b)"
    if a: "a \<in> set as" for a
  proof -
    from IH(2) a obtain b where b: "b \<in> set as" "stamp b \<in> set ?H" "a = b \<or> covered a b" by blast
    show ?thesis
    proof (cases "hist_may_race (snd x) (fst x) (stamp b)")
      case True
      with b new show ?thesis by auto
    next
      case False
      have "hb_consistent b x" using snoc.prems(1) b(1) by (auto simp: sorted_wrt_append)
      moreover have "fst b = fst x \<or> cv_getClock (snd b) (fst b) < cv_getClock (snd x) (fst b)"
        using False snoc.prems(2) b(1)
        by (auto simp: hist_may_race_def clock_may_race_def stamp_def)
      ultimately have "covered b x" by (auto simp: hb_consistent_def covered_def)
      with b(3) have "covered a x" using covered_trans by blast
      with new show ?thesis by auto
    qed
  qed
  with IH(1) new show ?case by auto
qed

text \<open>
  forgetting the reads a later read subsumes loses no race and invents none: after any
  happens-before consistent sequence of reads since the last write, a write races with
  one of the kept reads exactly when it races with one of all the reads made.
\<close>

theorem subsumption_loses_no_race:
  assumes "hist_reads h = []" "sorted_wrt hb_consistent (as @ [w])"
    "\<forall>a \<in> set as. cv_getClock (snd a) (fst a) \<noteq> 0"
  shows "list_ex (hist_may_race (snd w) (fst w)) (hist_reads (read_all as h)) \<longleftrightarrow>
    list_ex (\<lambda>a. hist_may_race (snd w) (fst w) (stamp a)) as"
proof -
  have ord: "sorted_wrt hb_consistent as" "\<forall>a \<in> set as. hb_consistent a w"
    using assms(2) by (auto simp: sorted_wrt_append)
  note kept = read_all_kept [OF assms(1) ord(1) assms(3)]
  show ?thesis
  proof
    assume "list_ex (hist_may_race (snd w) (fst w)) (hist_reads (read_all as h))"
    then obtain s where "s \<in> set (hist_reads (read_all as h))" "hist_may_race (snd w) (fst w) s"
      by (auto simp: list_ex_iff)
    moreover from this kept obtain b where "b \<in> set as" "s = stamp b" by blast
    ultimately show "list_ex (\<lambda>a. hist_may_race (snd w) (fst w) (stamp a)) as"
      by (auto simp: list_ex_iff)
  next
    assume "list_ex (\<lambda>a. hist_may_race (snd w) (fst w) (stamp a)) as"
    then obtain a where a: "a \<in> set as" "hist_may_race (snd w) (fst w) (stamp a)"
      by (auto simp: list_ex_iff)
    with kept obtain b where b: "b \<in> set as" "stamp b \<in> set (hist_reads (read_all as h))"
      "a = b \<or> covered a b" by blast
    have "hist_may_race (snd w) (fst w) (stamp b)"
      using a b ord(2) assms(3) covered_no_race by blast
    with b(2) show "list_ex (hist_may_race (snd w) (fst w)) (hist_reads (read_all as h))"
      by (auto simp: list_ex_iff)
  qed
qed

theorem subsumption_loses_no_race_witness:
  "let h = \<lparr>hist_reads = [], hist_write = (0, 0), hist_atomic = False\<rparr>;
       as = [(0, \<lparr>clock = [3, 0], num_threads = 2\<rparr>), (1, \<lparr>clock = [4, 6], num_threads = 2\<rparr>)];
       w = (2, \<lparr>clock = [3, 0, 9], num_threads = 3\<rparr>)
   in hist_reads (read_all as h) = [(1, 6)] \<and>
      list_ex (hist_may_race (snd w) (fst w)) (hist_reads (read_all as h))"
  using subsumption_loses_no_race [of "\<lparr>hist_reads = [], hist_write = (0, 0), hist_atomic = False\<rparr>"
      "[(0, \<lparr>clock = [3, 0], num_threads = 2\<rparr>), (1, \<lparr>clock = [4, 6], num_threads = 2\<rparr>)]"
      "(2, \<lparr>clock = [3, 0, 9], num_threads = 3\<rparr>)"]
  by (simp add: Let_def hb_consistent_def cv_le_def cv_getClock_def read_all_def spec_read_def
      real_reads_def hist_may_race_def clock_may_race_def stamp_def nth_Cons')

section \<open>Calloc\<close>

text \<open>The bytes of a block of at most \<open>2 ^ 48\<close> bytes have entries of their own.\<close>

lemma offset_mod_inj:
  fixes a i j q :: nat
  assumes "(a + i) mod q = (a + j) mod q" "i < q" "j < q"
  shows "i = j"
proof -
  have le: "i' = j'" if "i' \<le> j'" "(a + j') mod q = (a + i') mod q" "j' < q" for i' j'
  proof -
    have "q dvd j' - i'" using mod_eq_dvd_iff_nat [of "a + i'" "a + j'" q] that(1,2) by simp
    moreover have "j' - i' < q" using that(3) by simp
    ultimately have "\<not> 0 < j' - i'" using nat_dvd_not_less by blast
    with that(1) show ?thesis by simp
  qed
  from le [of i j] le [of j i] assms show ?thesis by (cases "i \<le> j") simp_all
qed

lemma lookup_slot_apart:
  assumes "i < 2 ^ 48" "j < 2 ^ 48" "lookup_slot (l + of_nat i) = lookup_slot (l + of_nat j)"
  shows "i = j"
proof -
  have m: "MASK16BIT = mask 16" by (simp add: MASK16BIT_def mask_eq_exp_minus_1)
  have "take_bit 48 (l + of_nat i) = take_bit 48 (l + of_nat j)"
  proof (rule bit_word_eqI)
    fix b
    have "bit (drop_bit k (l + of_nat i) AND mask 16) b' = bit (drop_bit k (l + of_nat j) AND mask 16) b'" if "k \<in> {0, 16, 32}" for k b'
      using assms(3) that by (auto simp: lookup_slot_def m)
    from this [of 0 b] this [of 16 "b - 16"] this [of 32 "b - 32"]
    show "bit (take_bit 48 (l + of_nat i)) b = bit (take_bit 48 (l + of_nat j)) b"
      unfolding bit_field by (cases "b < 16"; cases "b < 32") (auto simp: bit_take_bit_iff)
  qed
  then have "unat (take_bit 48 (l + of_nat i)) = unat (take_bit 48 (l + of_nat j))" by simp
  then have "(unat l + i) mod 2 ^ 48 = (unat l + j) mod 2 ^ 48"
    by (simp add: unsigned_take_bit_eq take_bit_eq_mod unat_word_ariths unsigned_of_nat mod_mod_cancel mod_simps)
  then show ?thesis by (rule offset_mod_inj [OF _ assms(1,2)])
qed

text \<open>What the first \<open>k\<close> turns of the loop leave, as long as the entries stay compact.\<close>

definition block_slots :: "addr \<Rightarrow> nat \<Rightarrow> slot set" where
  "block_slots l k = (\<lambda>i. lookup_slot (l + of_nat i)) ` {..<k}"

definition marked :: "addr \<Rightarrow> nat \<Rightarrow> shadow_cell \<Rightarrow> race_detector \<Rightarrow> race_detector" where
  "marked l k c rd = rd\<lparr>rd_shadow := (\<lambda>s. if s \<in> block_slots l k then c else rd_shadow rd s)\<rparr>"

lemma marked_0: "marked l 0 c rd = rd"
  by (simp add: marked_def block_slots_def)

lemma marked_Suc: "set_cell (lookup_slot (l + of_nat k)) c (marked l k c rd) = marked l (Suc k) c rd"
  by (auto simp: marked_def set_cell_def block_slots_def lessThan_Suc fun_eq_iff)

lemma later_slot:
  assumes "k \<le> i" "i < 2 ^ 48"
  shows "lookup_slot (l + of_nat i) \<notin> block_slots l k"
proof
  assume "lookup_slot (l + of_nat i) \<in> block_slots l k"
  then obtain j where "j < k" "lookup_slot (l + of_nat i) = lookup_slot (l + of_nat j)" by (auto simp: block_slots_def)
  with lookup_slot_apart [of i j l] assms show False by simp
qed

lemma recordCalloc_prefix:
  assumes "re_cv env t = Some cv" "t \<le> MAXTHREADID" "cv_getClock cv t \<le> MAXWRITEVECTOR"
    "k < 2 ^ 48" "\<forall>i < k. \<exists>w. rd_shadow rd (lookup_slot (l + of_nat i)) = Short w"
  shows "recordCalloc env t l (k + m) rd =
    recordCalloc env t (l + of_nat k) m (marked l k (Short (ENCODEOP 0 0 t (cv_getClock cv t))) rd)"
  using assms(4,5)
proof (induction k arbitrary: m)
  case (Suc k)
  let ?c = "Short (ENCODEOP 0 0 t (cv_getClock cv t))"
  obtain w where "rd_shadow rd (lookup_slot (l + of_nat k)) = Short w" using Suc.prems(2) by blast
  then have "rd_shadow (marked l k ?c rd) (lookup_slot (l + of_nat k)) = Short w"
    using later_slot [of k k l] Suc.prems(1) by (simp add: marked_def)
  then have "recordCalloc env t (l + of_nat k) (Suc m) (marked l k ?c rd) =
      recordCalloc env t (l + of_nat k + 1) m (marked l (Suc k) ?c rd)"
    using assms(1-3) by (simp add: marked_Suc not_less [symmetric] del: of_nat_Suc)
  moreover have "recordCalloc env t l (k + Suc m) rd = recordCalloc env t (l + of_nat k) (Suc m) (marked l k ?c rd)"
    using Suc.prems by (intro Suc.IH) auto
  ultimately show ?case by (simp add: add_ac)
qed (simp add: marked_0)

text \<open>
  C27: \<^verbatim>\<open>recordCalloc\<close> records the bytes of its block as written by a non-atomic write of the
  calling thread up to the first byte whose entry is an expanded record or becomes one, because
  the thread or its clock does not fit into a compact one, and stops there: that byte is still
  recorded, every later byte of the block and every other entry stay as they were.
\<close>

theorem recordCalloc_stops_at_full_record:
  assumes "re_cv env t = Some cv" "k < n" "n \<le> 2 ^ 48"
    "\<forall>i < k. \<exists>w. rd_shadow rd (lookup_slot (l + of_nat i)) = Short w"
    "0 < k \<longrightarrow> t \<le> MAXTHREADID \<and> cv_getClock cv t \<le> MAXWRITEVECTOR"
    "(\<exists>r. rd_shadow rd (lookup_slot (l + of_nat k)) = Full r) \<or> MAXTHREADID < t \<or> MAXWRITEVECTOR < cv_getClock cv t"
  shows "\<exists>rd'. recordCalloc env t l n rd = Some rd' \<and>
    (\<forall>i \<le> k. history_of (rd_shadow rd' (lookup_slot (l + of_nat i))) =
       \<lparr>hist_reads = [], hist_write = (t, cv_getClock cv t), hist_atomic = False\<rparr>) \<and>
    (\<forall>i. k < i \<and> i < n \<longrightarrow> rd_shadow rd' (lookup_slot (l + of_nat i)) = rd_shadow rd (lookup_slot (l + of_nat i))) \<and>
    (\<forall>s. (\<forall>i < n. s \<noteq> lookup_slot (l + of_nat i)) \<longrightarrow> rd_shadow rd' s = rd_shadow rd s) \<and>
    rd_data rd' = rd_data rd \<and> rd_races rd' = rd_races rd"
proof -
  define s where "s = lookup_slot (l + of_nat k)"
  define c where "c = Short (ENCODEOP 0 0 t (cv_getClock cv t))"
  define r where "r = (case rd_shadow rd s of Full r \<Rightarrow> r | Short w \<Rightarrow> expandRecord w)"
  let ?rd = "marked l k c rd"
  define rd' where "rd' = set_cell s (Full (fullRecordWriteNonAtomic t r cv)) ?rd"
  have k48: "k < 2 ^ 48" using assms(2,3) by simp
  have start: "recordCalloc env t l n rd = recordCalloc env t (l + of_nat k) (Suc (n - Suc k)) ?rd"
  proof (cases "0 < k")
    case True
    with recordCalloc_prefix [OF assms(1) _ _ k48 assms(4), of "Suc (n - Suc k)"] assms(2,5) show ?thesis by (simp add: c_def)
  next
    case False
    with assms(2) show ?thesis by (simp add: marked_0)
  qed
  have here: "rd_shadow ?rd s = rd_shadow rd s" using later_slot [of k k l] k48 by (simp add: marked_def s_def)
  have run: "recordCalloc env t l n rd = Some rd'"
    unfolding start using assms(1,6) here
    by (cases "rd_shadow rd s") (auto simp: rd'_def r_def s_def)
  have cells: "rd_shadow rd' u = (if u = s then Full (fullRecordWriteNonAtomic t r cv)
      else if u \<in> block_slots l k then c else rd_shadow rd u)" for u
    by (simp add: rd'_def set_cell_def marked_def)
  have full: "history_of (Full (fullRecordWriteNonAtomic t r cv)) =
      \<lparr>hist_reads = [], hist_write = (t, cv_getClock cv t), hist_atomic = False\<rparr>"
    by (simp add: history_of_def fullRecordWriteNonAtomic_def record_reads_def real_reads_def)
  have compact: "history_of c = \<lparr>hist_reads = [], hist_write = (t, cv_getClock cv t), hist_atomic = False\<rparr>" if "0 < k"
  proof -
    have "t < 64" "cv_getClock cv t < 0x2000000"
      using that assms(5) by (simp_all add: MAXTHREADID_def MAXWRITEVECTOR_def word_le_nat_alt word_less_nat_alt)
    then show ?thesis
      by (simp add: c_def history_of_def encode_fields encode_not_atomic real_reads_def)
  qed
  have "history_of (rd_shadow rd' (lookup_slot (l + of_nat i))) =
      \<lparr>hist_reads = [], hist_write = (t, cv_getClock cv t), hist_atomic = False\<rparr>" if "i \<le> k" for i
    using that full compact by (cases "i = k") (auto simp: cells s_def block_slots_def)
  moreover have "rd_shadow rd' (lookup_slot (l + of_nat i)) = rd_shadow rd (lookup_slot (l + of_nat i))" if "k < i" "i < n" for i
    using that assms(3) later_slot [of k i l] lookup_slot_apart [of i k l] by (auto simp: cells s_def)
  moreover have "rd_shadow rd' u = rd_shadow rd u" if "\<forall>i < n. u \<noteq> lookup_slot (l + of_nat i)" for u
  proof -
    have "u \<noteq> s" "u \<notin> block_slots l k" using that assms(2) unfolding s_def block_slots_def by (auto dest: less_trans)
    then show ?thesis by (simp add: cells)
  qed
  moreover have "rd_data rd' = rd_data rd" "rd_races rd' = rd_races rd" by (simp_all add: rd'_def set_cell_def marked_def)
  ultimately show ?thesis using run by blast
qed

theorem recordCalloc_stops_at_full_record_witness:
  "let rd = set_cell (0, 0, 10) (Full (expandRecord 1)) initRaceDetector
   in \<exists>rd'. recordCalloc two_thread_env 0 8 4 rd = Some rd' \<and>
     hist_write (history_of (rd_shadow rd' (0, 0, 9))) = (0, 7) \<and>
     hist_write (history_of (rd_shadow rd' (0, 0, 10))) = (0, 7) \<and> rd_shadow rd' (0, 0, 11) = Short 0"
proof -
  let ?rd = "set_cell (0, 0, 10) (Full (expandRecord 1)) initRaceDetector"
  let ?cv = "\<lparr>clock = [7, 0], num_threads = 2\<rparr>"
  have s: "lookup_slot (8 + of_nat 0) = (0, 0, 8)" "lookup_slot (8 + of_nat 1) = (0, 0, 9)" "lookup_slot (8 + of_nat 2) = (0, 0, 10)"
    "lookup_slot (8 + of_nat 3) = (0, 0, 11)"
    by (simp_all add: lookup_slot_def MASK16BIT_def)
  have clk: "cv_getClock ?cv 0 = 7" by (simp add: cv_getClock_def)
  have "re_cv two_thread_env 0 = Some ?cv" "(2 :: nat) < 4" "(4 :: nat) \<le> 2 ^ 48" by (simp_all add: two_thread_env_def)
  note start = recordCalloc_stops_at_full_record [OF this, of ?rd 8]
  have p1: "\<forall>i < 2. \<exists>w. rd_shadow ?rd (lookup_slot (8 + of_nat i)) = Short w"
    using s by (auto simp: less_2_cases_iff set_cell_def initRaceDetector_def)
  have p2: "(0 :: nat) < 2 \<longrightarrow> 0 \<le> MAXTHREADID \<and> cv_getClock ?cv 0 \<le> MAXWRITEVECTOR"
    by (simp add: clk MAXWRITEVECTOR_def)
  have p3: "(\<exists>r. rd_shadow ?rd (lookup_slot (8 + of_nat 2)) = Full r) \<or> MAXTHREADID < 0 \<or> MAXWRITEVECTOR < cv_getClock ?cv 0"
    unfolding s by (simp add: set_cell_def)
  from start [OF p1 p2 p3] obtain rd' where rd': "recordCalloc two_thread_env 0 8 4 ?rd = Some rd'"
    "\<forall>i \<le> 2. history_of (rd_shadow rd' (lookup_slot (8 + of_nat i))) =
       \<lparr>hist_reads = [], hist_write = (0, cv_getClock ?cv 0), hist_atomic = False\<rparr>"
    "\<forall>i. 2 < i \<and> i < 4 \<longrightarrow> rd_shadow rd' (lookup_slot (8 + of_nat i)) = rd_shadow ?rd (lookup_slot (8 + of_nat i))"
    by blast
  from rd'(2) [rule_format, of 1] rd'(2) [rule_format, of 2] rd'(3) [rule_format, of 3] rd'(1) show ?thesis
    unfolding s clk by (simp add: Let_def set_cell_def initRaceDetector_def)
qed

end
