(* ===== verification/Actions.thy ===== *)
theory Actions
  imports Clock_Vector
begin

text \<open>
  \<^verbatim>\<open>Model/action.{h,cc}\<close> and \<^verbatim>\<open>Model/memoryorder.h\<close>: one action of a thread.  A
  \<^verbatim>\<open>ModelAction\<close> is a record; pointers to other actions are object numbers
  (\<^verbatim>\<open>NULL\<close> is \<open>None\<close>) and the owned clock vector is held by value.  The two unions of
  the class are kept as unions: \<^verbatim>\<open>lastcommittedWrite\<close> and \<^verbatim>\<open>last_clflush\<close> are the low
  32 bits of the 64-bit fields \<^verbatim>\<open>time\<close> and \<^verbatim>\<open>value\<close> (the target is little-endian).
  Fields a constructor leaves uninitialised are 0 or \<open>None\<close> here.  The lemmas classify
  the action kinds and relate the happens-before test to the clock vectors.
\<close>

section \<open>Kinds and memory orders\<close>

datatype action_type =
    THREAD_CREATE | THREAD_START | THREAD_YIELD | THREAD_JOIN | THREAD_FINISH
  | THREAD_FINISHALL | THREADONLY_FINISH | THREAD_SLEEP | ACTION_EXIT
  | PTHREAD_CREATE | PTHREAD_JOIN
  | NONATOMIC_WRITE | NONATOMIC_READ
  | ATOMIC_INIT | ATOMIC_WRITE | ATOMIC_RMWR | ATOMIC_CAS_FAILED | ATOMIC_RMW | ATOMIC_READ
  | ACTION_CLFLUSH | ACTION_CLFLUSHOPT | CACHE_MFENCE | CACHE_SFENCE
  | ATOMIC_LOCK | ATOMIC_TRYLOCK | ATOMIC_UNLOCK
  | ATOMIC_NOTIFY_ONE | ATOMIC_NOTIFY_ALL | ATOMIC_WAIT | ATOMIC_TIMEDWAIT
  | ATOMIC_ANNOTATION | ATOMIC_NOP

datatype memory_order =
    memory_order_relaxed | memory_order_consume | memory_order_acquire
  | memory_order_release | memory_order_acq_rel | memory_order_seq_cst

definition VALUE_NONE :: u64 where "VALUE_NONE = 0xdeadbeef"
definition VALUE_TRYSUCCESS :: u64 where "VALUE_TRYSUCCESS = 1"
definition VALUE_TRYFAILED :: u64 where "VALUE_TRYFAILED = 0"
definition ACTION_INITIAL_CLOCK :: modelclock where "ACTION_INITIAL_CLOCK = 0"

record model_action =
  act_location :: addr
  act_position :: "string option"
  act_lastwrite :: "aid option"
  act_time :: u64
  act_cv :: "clock_vector option"
  act_value :: u64
  act_read_value :: u64
  act_type :: action_type
  act_order :: memory_order
  act_tid :: tid
  act_seq :: modelclock
  act_size :: nat
  act_thread_operand :: "tid option"

section \<open>Constructors\<close>

text \<open>
  The thread of the action (the given one, else the running one) is the argument \<open>t\<close>.
  The constructors that take a location assert that it is not \<^verbatim>\<open>NULL\<close>; a failed
  assertion is \<open>None\<close>.
\<close>

definition action_at :: "action_type \<Rightarrow> memory_order \<Rightarrow> addr \<Rightarrow> u64 \<Rightarrow> tid \<Rightarrow> nat \<Rightarrow>
    model_action option" where
  "action_at ty mo loc v t sz =
     (if loc = 0 \<and> ty \<noteq> ATOMIC_NOP then None else
      Some \<lparr>act_location = loc, act_position = None, act_lastwrite = None, act_time = 0,
        act_cv = None, act_value = v, act_read_value = VALUE_NONE, act_type = ty,
        act_order = mo, act_tid = t, act_seq = ACTION_INITIAL_CLOCK, act_size = sz,
        act_thread_operand = None\<rparr>)"

definition action_fence :: "action_type \<Rightarrow> tid \<Rightarrow> model_action" where
  "action_fence ty t =
     \<lparr>act_location = 0, act_position = None, act_lastwrite = None, act_time = 0,
      act_cv = None, act_value = 0, act_read_value = VALUE_NONE, act_type = ty,
      act_order = memory_order_seq_cst, act_tid = t, act_seq = ACTION_INITIAL_CLOCK,
      act_size = 0, act_thread_operand = None\<rparr>"

definition action_sized :: "action_type \<Rightarrow> string \<Rightarrow> memory_order \<Rightarrow> addr \<Rightarrow> u64 \<Rightarrow> tid \<Rightarrow>
    nat \<Rightarrow> model_action option" where
  "action_sized ty pos mo loc v t sz =
     (if loc = 0 then None else
      Some \<lparr>act_location = loc, act_position = Some pos, act_lastwrite = None, act_time = 0,
        act_cv = None, act_value = v, act_read_value = VALUE_NONE, act_type = ty,
        act_order = mo, act_tid = t, act_seq = ACTION_INITIAL_CLOCK, act_size = sz,
        act_thread_operand = None\<rparr>)"

definition action_positioned :: "action_type \<Rightarrow> string \<Rightarrow> memory_order \<Rightarrow> addr \<Rightarrow> u64 \<Rightarrow>
    tid \<Rightarrow> model_action option" where
  "action_positioned ty pos mo loc v t =
     (if loc = 0 then None else
      Some \<lparr>act_location = loc, act_position = Some pos, act_lastwrite = None, act_time = 0,
        act_cv = None, act_value = v, act_read_value = VALUE_NONE, act_type = ty,
        act_order = mo, act_tid = t, act_seq = ACTION_INITIAL_CLOCK, act_size = 0,
        act_thread_operand = None\<rparr>)"

definition action_sleep :: "action_type \<Rightarrow> memory_order \<Rightarrow> u64 \<Rightarrow> u64 \<Rightarrow> tid \<Rightarrow> model_action" where
  "action_sleep ty mo v tm t =
     \<lparr>act_location = 0, act_position = None, act_lastwrite = None, act_time = tm,
      act_cv = None, act_value = v, act_read_value = 0, act_type = ty,
      act_order = mo, act_tid = t, act_seq = ACTION_INITIAL_CLOCK,
      act_size = 0, act_thread_operand = None\<rparr>"

section \<open>The unions\<close>

definition low32 :: "u64 \<Rightarrow> u32" where
  "low32 w = ucast w"

definition set_low32 :: "u64 \<Rightarrow> u32 \<Rightarrow> u64" where
  "set_low32 w c = (w AND NOT (mask 32)) OR ucast c"

definition get_last_write :: "model_action \<Rightarrow> modelclock" where
  "get_last_write a = low32 (act_time a)"

definition setLastWrites :: "model_action \<Rightarrow> modelclock \<Rightarrow> aid option \<Rightarrow> model_action" where
  "setLastWrites a mlastcommittedWrite w =
     a\<lparr>act_time := set_low32 (act_time a) mlastcommittedWrite, act_lastwrite := w\<rparr>"

definition get_last_clflush :: "model_action \<Rightarrow> modelclock" where
  "get_last_clflush a = low32 (act_value a)"

definition set_last_clflush :: "model_action \<Rightarrow> modelclock \<Rightarrow> model_action" where
  "set_last_clflush a c = a\<lparr>act_value := set_low32 (act_value a) c\<rparr>"

lemma low32_set_low32 [simp]: "low32 (set_low32 w c) = c"
  unfolding low32_def set_low32_def
  by (rule bit_word_eqI)
     (auto simp: bit_simps)

lemma low32_VALUE_NONE: "low32 VALUE_NONE = 0xdeadbeef"
  by (simp add: low32_def VALUE_NONE_def)

lemma get_last_clflush_set [simp]: "get_last_clflush (set_last_clflush a c) = c"
  by (simp add: get_last_clflush_def set_last_clflush_def)

lemma get_last_write_set [simp]: "get_last_write (setLastWrites a c w) = c"
  by (simp add: get_last_write_def setLastWrites_def)

section \<open>Sequence numbers\<close>

definition get_seq_number :: "model_action \<Rightarrow> modelclock" where
  "get_seq_number a = act_seq a"

text \<open>\<^verbatim>\<open>set_seq_number\<close> asserts that no number has been given yet.\<close>

definition set_seq_number :: "model_action \<Rightarrow> modelclock \<Rightarrow> model_action option" where
  "set_seq_number a num =
     (if act_seq a \<noteq> ACTION_INITIAL_CLOCK then None else
      Some (a\<lparr>act_seq := num,
              act_cv := map_option (\<lambda>cv. cv_setClock cv (act_tid a) num) (act_cv a)\<rparr>))"

definition reset_seq_number :: "model_action \<Rightarrow> model_action" where
  "reset_seq_number a = a\<lparr>act_seq := 0\<rparr>"

definition copy_from_new :: "model_action \<Rightarrow> model_action \<Rightarrow> model_action" where
  "copy_from_new a newaction = a\<lparr>act_seq := act_seq newaction\<rparr>"

definition is_executed :: "model_action \<Rightarrow> bool" where
  "is_executed a \<longleftrightarrow> act_seq a \<noteq> ACTION_INITIAL_CLOCK"

section \<open>Classification\<close>

definition is_thread_start :: "model_action \<Rightarrow> bool" where
  "is_thread_start a \<longleftrightarrow> act_type a = THREAD_START"

definition is_thread_join :: "model_action \<Rightarrow> bool" where
  "is_thread_join a \<longleftrightarrow> act_type a = THREAD_JOIN \<or> act_type a = PTHREAD_JOIN"

definition is_mutex_op :: "model_action \<Rightarrow> bool" where
  "is_mutex_op a \<longleftrightarrow> act_type a = ATOMIC_LOCK \<or> act_type a = ATOMIC_TRYLOCK \<or>
     act_type a = ATOMIC_UNLOCK \<or> act_type a = ATOMIC_WAIT \<or> act_type a = ATOMIC_TIMEDWAIT \<or>
     act_type a = ATOMIC_NOTIFY_ONE \<or> act_type a = ATOMIC_NOTIFY_ALL"

definition is_lock :: "model_action \<Rightarrow> bool" where
  "is_lock a \<longleftrightarrow> act_type a = ATOMIC_LOCK"

definition is_sleep :: "model_action \<Rightarrow> bool" where
  "is_sleep a \<longleftrightarrow> act_type a = THREAD_SLEEP"

definition is_wait :: "model_action \<Rightarrow> bool" where
  "is_wait a \<longleftrightarrow> act_type a = ATOMIC_WAIT \<or> act_type a = ATOMIC_TIMEDWAIT"

definition is_exit :: "model_action \<Rightarrow> bool" where
  "is_exit a \<longleftrightarrow> act_type a = ACTION_EXIT"

definition is_notify :: "model_action \<Rightarrow> bool" where
  "is_notify a \<longleftrightarrow> act_type a = ATOMIC_NOTIFY_ONE \<or> act_type a = ATOMIC_NOTIFY_ALL"

definition is_notify_one :: "model_action \<Rightarrow> bool" where
  "is_notify_one a \<longleftrightarrow> act_type a = ATOMIC_NOTIFY_ONE"

definition is_unlock :: "model_action \<Rightarrow> bool" where
  "is_unlock a \<longleftrightarrow> act_type a = ATOMIC_UNLOCK"

definition is_trylock :: "model_action \<Rightarrow> bool" where
  "is_trylock a \<longleftrightarrow> act_type a = ATOMIC_TRYLOCK"

definition is_success_lock :: "model_action \<Rightarrow> bool" where
  "is_success_lock a \<longleftrightarrow> act_type a = ATOMIC_LOCK \<or>
     (act_type a = ATOMIC_TRYLOCK \<and> act_value a = VALUE_TRYSUCCESS)"

definition is_failed_trylock :: "model_action \<Rightarrow> bool" where
  "is_failed_trylock a \<longleftrightarrow> act_type a = ATOMIC_TRYLOCK \<and> act_value a = VALUE_TRYFAILED"

definition is_read :: "model_action \<Rightarrow> bool" where
  "is_read a \<longleftrightarrow> act_type a = ATOMIC_READ \<or> act_type a = NONATOMIC_READ \<or>
     act_type a = ATOMIC_RMWR \<or> act_type a = ATOMIC_RMW"

definition is_write :: "model_action \<Rightarrow> bool" where
  "is_write a \<longleftrightarrow> act_type a = ATOMIC_WRITE \<or> act_type a = ATOMIC_RMW \<or>
     act_type a = ATOMIC_INIT \<or> act_type a = NONATOMIC_WRITE"

definition is_atomic_write :: "model_action \<Rightarrow> bool" where
  "is_atomic_write a \<longleftrightarrow> act_type a = ATOMIC_WRITE \<or> act_type a = ATOMIC_RMW \<or>
     act_type a = ATOMIC_INIT"

definition is_nonatomic_write :: "model_action \<Rightarrow> bool" where
  "is_nonatomic_write a \<longleftrightarrow> act_type a = NONATOMIC_WRITE"

definition is_cache_op :: "model_action \<Rightarrow> bool" where
  "is_cache_op a \<longleftrightarrow> act_type a = ACTION_CLFLUSH \<or> act_type a = ACTION_CLFLUSHOPT"

definition is_seqcst :: "model_action \<Rightarrow> bool" where
  "is_seqcst a \<longleftrightarrow> act_order a = memory_order_seq_cst"

definition is_fence :: "model_action \<Rightarrow> bool" where
  "is_fence a = (if is_write a \<and> is_seqcst a then True else
     (case act_type a of
        ATOMIC_RMW \<Rightarrow> True | CACHE_MFENCE \<Rightarrow> True | ATOMIC_CAS_FAILED \<Rightarrow> True
      | PTHREAD_CREATE \<Rightarrow> True | PTHREAD_JOIN \<Rightarrow> True | THREAD_CREATE \<Rightarrow> True
      | THREAD_JOIN \<Rightarrow> True | ATOMIC_LOCK \<Rightarrow> True | ATOMIC_TRYLOCK \<Rightarrow> True
      | ATOMIC_UNLOCK \<Rightarrow> True | ATOMIC_NOTIFY_ONE \<Rightarrow> True | ATOMIC_NOTIFY_ALL \<Rightarrow> True
      | ATOMIC_WAIT \<Rightarrow> True | ATOMIC_TIMEDWAIT \<Rightarrow> True
      | _ \<Rightarrow> False))"

definition is_mfence :: "model_action \<Rightarrow> bool" where
  "is_mfence a \<longleftrightarrow> act_type a = CACHE_MFENCE"

definition is_sfence :: "model_action \<Rightarrow> bool" where
  "is_sfence a \<longleftrightarrow> act_type a = CACHE_SFENCE"

definition is_clflush :: "model_action \<Rightarrow> bool" where
  "is_clflush a \<longleftrightarrow> act_type a = ACTION_CLFLUSH"

definition is_locked_operation :: "model_action \<Rightarrow> bool" where
  "is_locked_operation a =
     (case act_type a of
        PTHREAD_CREATE \<Rightarrow> True | PTHREAD_JOIN \<Rightarrow> True | THREAD_CREATE \<Rightarrow> True
      | THREAD_JOIN \<Rightarrow> True | ATOMIC_LOCK \<Rightarrow> True | ATOMIC_TRYLOCK \<Rightarrow> True
      | ATOMIC_UNLOCK \<Rightarrow> True | ATOMIC_NOTIFY_ONE \<Rightarrow> True | ATOMIC_NOTIFY_ALL \<Rightarrow> True
      | ATOMIC_WAIT \<Rightarrow> True | ATOMIC_TIMEDWAIT \<Rightarrow> True
      | _ \<Rightarrow> False)"

definition is_create :: "model_action \<Rightarrow> bool" where
  "is_create a \<longleftrightarrow> act_type a = THREAD_CREATE \<or> act_type a = PTHREAD_CREATE"

definition is_yield :: "model_action \<Rightarrow> bool" where
  "is_yield a \<longleftrightarrow> act_type a = THREAD_YIELD"

definition is_rmw_read :: "model_action \<Rightarrow> bool" where
  "is_rmw_read a \<longleftrightarrow> act_type a = ATOMIC_RMWR"

definition is_rmw_cas_fail :: "model_action \<Rightarrow> bool" where
  "is_rmw_cas_fail a \<longleftrightarrow> act_type a = ATOMIC_CAS_FAILED"

definition is_rmw :: "model_action \<Rightarrow> bool" where
  "is_rmw a \<longleftrightarrow> act_type a = ATOMIC_RMW"

definition is_initialization :: "model_action \<Rightarrow> bool" where
  "is_initialization a \<longleftrightarrow> act_type a = ATOMIC_INIT"

definition is_annotation :: "model_action \<Rightarrow> bool" where
  "is_annotation a \<longleftrightarrow> act_type a = ATOMIC_ANNOTATION"

lemmas kind_defs = is_thread_start_def is_thread_join_def is_mutex_op_def is_lock_def is_sleep_def
  is_wait_def is_exit_def is_notify_def is_notify_one_def is_unlock_def is_trylock_def
  is_read_def is_write_def is_atomic_write_def is_nonatomic_write_def is_cache_op_def
  is_mfence_def is_sfence_def is_clflush_def is_locked_operation_def is_create_def is_yield_def
  is_rmw_read_def is_rmw_cas_fail_def is_rmw_def is_initialization_def is_annotation_def

section \<open>Relations between actions\<close>

definition same_var :: "model_action \<Rightarrow> model_action \<Rightarrow> bool" where
  "same_var this act =
     (if (is_wait act \<or> is_wait this) \<and>
         (if is_wait act \<and> is_wait this then act_value this = act_value act
          else if is_wait this then act_value this = act_location act
          else if is_wait act then act_location this = act_value act
          else False)
      then True
      else act_location this = act_location act)"

definition same_thread :: "model_action \<Rightarrow> model_action \<Rightarrow> bool" where
  "same_thread this act \<longleftrightarrow> act_tid this = act_tid act"

definition copy_typeandorder :: "model_action \<Rightarrow> model_action \<Rightarrow> model_action" where
  "copy_typeandorder this act = this\<lparr>act_type := act_type act, act_order := act_order act\<rparr>"

text \<open>
  The operand of a join is the thread whose object the location points to; \<open>thread_at\<close>
  reads that pointer.
\<close>

definition get_thread_operand :: "(addr \<Rightarrow> tid option) \<Rightarrow> model_action \<Rightarrow> tid option" where
  "get_thread_operand thread_at a =
     (if act_type a = THREAD_CREATE then act_thread_operand a
      else if act_type a = PTHREAD_CREATE then act_thread_operand a
      else if act_type a = THREAD_JOIN then thread_at (act_location a)
      else if act_type a = PTHREAD_JOIN then thread_at (act_location a)
      else None)"

definition process_rmw :: "model_action \<Rightarrow> model_action \<Rightarrow> model_action" where
  "process_rmw this act =
     (let t = this\<lparr>act_order := act_order act\<rparr>
      in if is_rmw_cas_fail act then t\<lparr>act_type := ATOMIC_READ\<rparr>
         else if is_rmw act then t\<lparr>act_type := ATOMIC_RMW, act_value := act_value act\<rparr>
         else t)"

definition could_synchronize_with :: "model_action \<Rightarrow> model_action \<Rightarrow> bool" where
  "could_synchronize_with this act =
     (if same_thread this act then False
      else if is_write this \<or> is_write act then True
      else if (is_lock this \<or> is_trylock this) \<and> (is_unlock act \<or> is_wait act) then True
      else if is_trylock this \<and> is_success_lock act then True
      else if is_unlock this \<and> (is_trylock act \<or> is_lock act) then True
      else if is_trylock this \<and> (is_unlock act \<or> is_wait act) then True
      else if is_notify this \<and> is_wait act then True
      else if is_wait this \<and> is_notify act then True
      else False)"

definition is_conflicting_lock :: "model_action \<Rightarrow> model_action \<Rightarrow> bool" where
  "is_conflicting_lock this act =
     (if same_thread this act then False
      else if is_success_lock act then True
      else if is_unlock act \<and> is_trylock this \<and> act_value this = VALUE_TRYSUCCESS then True
      else if is_wait act \<and> is_trylock this \<and> act_value this = VALUE_TRYSUCCESS then True
      else False)"

section \<open>Clock vectors of actions\<close>

text \<open>
  \<^verbatim>\<open>merge_cv(const ModelAction *parent)\<close>; the second branch calls
  \<^verbatim>\<open>ClockVector::merge\<close>, which asserts that its argument is not \<^verbatim>\<open>NULL\<close>.
\<close>

definition merge_cv_parent :: "model_action \<Rightarrow> model_action option \<Rightarrow> model_action option" where
  "merge_cv_parent this parent =
     (case act_cv this of
        None \<Rightarrow>
          Some (this\<lparr>act_cv := Some (cv_new (Option.bind parent act_cv)
                                        (Some (act_tid this, act_seq this)))\<rparr>)
      | Some cv \<Rightarrow>
          (case parent of
             None \<Rightarrow> Some this
           | Some p \<Rightarrow> (case act_cv p of
                 None \<Rightarrow> None
               | Some pcv \<Rightarrow> Some (this\<lparr>act_cv := Some (fst (cv_merge cv pcv))\<rparr>))))"

definition merge_cv :: "model_action \<Rightarrow> clock_vector \<Rightarrow> model_action" where
  "merge_cv this mcv =
     (case act_cv this of
        Some cv \<Rightarrow> this\<lparr>act_cv := Some (fst (cv_merge cv mcv))\<rparr>
      | None \<Rightarrow> this\<lparr>act_cv := Some (cv_new (Some mcv) None)\<rparr>)"

definition set_try_lock :: "model_action \<Rightarrow> bool \<Rightarrow> model_action" where
  "set_try_lock this obtainedlock =
     this\<lparr>act_value := (if obtainedlock then VALUE_TRYSUCCESS else VALUE_TRYFAILED)\<rparr>"

definition get_write_value :: "model_action \<Rightarrow> u64 option" where
  "get_write_value a = (if is_write a then Some (act_value a) else None)"

text \<open>
  \<^verbatim>\<open>synchronize_with\<close> refuses to inherit from a later action; both actions must carry
  a clock vector.
\<close>

definition synchronize_with :: "model_action \<Rightarrow> model_action \<Rightarrow> (model_action \<times> bool) option" where
  "synchronize_with this act =
     (if get_seq_number this < get_seq_number act then Some (this, False)
      else (case (act_cv this, act_cv act) of
          (Some cv, Some acv) \<Rightarrow> Some (this\<lparr>act_cv := Some (fst (cv_merge cv acv))\<rparr>, True)
        | _ \<Rightarrow> None))"

definition has_synchronized_with :: "model_action \<Rightarrow> model_action \<Rightarrow> bool" where
  "has_synchronized_with this act =
     (case act_cv this of
        Some cv \<Rightarrow> cv_synchronized_since cv (act_tid act) (act_seq act) | None \<Rightarrow> False)"

definition happens_before :: "model_action \<Rightarrow> model_action \<Rightarrow> bool" where
  "happens_before this act =
     (case act_cv act of
        Some cv \<Rightarrow> cv_synchronized_since cv (act_tid this) (act_seq this) | None \<Rightarrow> False)"

text \<open>The mutex of a lock, trylock, unlock or wait; \<^verbatim>\<open>NULL\<close> is \<open>None\<close>.\<close>

text \<open>The null pointer is \<open>None\<close>: every caller dereferences the result.\<close>

definition get_mutex :: "model_action \<Rightarrow> addr option" where
  "get_mutex a =
     (if is_trylock a \<or> is_lock a \<or> is_unlock a then Some (act_location a)
      else if is_wait a \<and> act_value a \<noteq> 0 then Some (act_value a)
      else None)"

end
