(* ===== verification/Node_Stack.thy ===== *)
theory Node_Stack
  imports Prelude
begin

text \<open>
  \<^verbatim>\<open>Model/nodestack.{h,cc}\<close>: the stack of decisions that drives backtracking.  Each
  \<^verbatim>\<open>Node\<close> is one decision with its number of choices and the choice in force; a run of
  the program consumes the nodes in order and the stack remembers the deepest node with a
  choice left.  A pointer to a node is its index in \<^verbatim>\<open>node_list\<close>: nodes are added and
  removed at the end only.  The main result is that repeated runs visit every outcome of
  a decision tree exactly once, in order, and that a replay repeats the previous run.
\<close>

section \<open>Nodes\<close>

record node =
  read_from_idx :: nat
  rf_size :: nat

definition new_node :: "nat \<Rightarrow> node" where
  "new_node mrf_size = \<lparr>read_from_idx = 0, rf_size = mrf_size\<rparr>"

text \<open>
  In random mode the choice is a random number below the size; \<open>rnd\<close> is \<open>None\<close> when
  random execution is off and the value \<^verbatim>\<open>random()\<close> returned otherwise.
\<close>

definition get_choice :: "nat option \<Rightarrow> node \<Rightarrow> nat" where
  "get_choice rnd n = (case rnd of Some r \<Rightarrow> r mod rf_size n | None \<Rightarrow> read_from_idx n)"

definition get_read_from_size :: "node \<Rightarrow> nat" where
  "get_read_from_size n = rf_size n"

definition has_more_choices :: "bool \<Rightarrow> node \<Rightarrow> bool" where
  "has_more_choices random_enabled n =
     (if random_enabled then False else read_from_idx n + 1 < rf_size n)"

definition increment_read_from :: "node \<Rightarrow> node" where
  "increment_read_from n = n\<lparr>read_from_idx := read_from_idx n + 1\<rparr>"

section \<open>The stack\<close>

record node_stack =
  node_list :: "node list"
  last_backtrack :: "nat option"
  curr_backtrack :: "nat option"
  head_idx :: int

definition NodeStack :: node_stack where
  "NodeStack = \<lparr>node_list = [], last_backtrack = None, curr_backtrack = None, head_idx = -1\<rparr>"

definition set_Last_backtrack :: "node_stack \<Rightarrow> nat \<Rightarrow> node_stack" where
  "set_Last_backtrack ns n = ns\<lparr>last_backtrack := Some n\<rparr>"

definition repeat_prev_execution :: "node_stack \<Rightarrow> node_stack" where
  "repeat_prev_execution ns = ns\<lparr>curr_backtrack := None\<rparr>"

definition has_another_execution :: "node_stack \<Rightarrow> bool" where
  "has_another_execution ns \<longleftrightarrow> last_backtrack ns \<noteq> None"

definition pop_restofstack :: "node_stack \<Rightarrow> nat \<Rightarrow> node_stack" where
  "pop_restofstack ns numAhead =
     ns\<lparr>node_list := take (nat (head_idx ns + int numAhead)) (node_list ns)\<rparr>"

definition reset_execution :: "node_stack \<Rightarrow> node_stack" where
  "reset_execution ns =
     ns\<lparr>curr_backtrack := last_backtrack ns, last_backtrack := None, head_idx := -1\<rparr>"

definition full_reset :: "node_stack \<Rightarrow> node_stack" where
  "full_reset ns = reset_execution (ns\<lparr>node_list := []\<rparr>)"

definition get_head :: "node_stack \<Rightarrow> nat option" where
  "get_head ns = (if node_list ns = [] \<or> head_idx ns < 0 then None else Some (nat (head_idx ns)))"

definition get_next :: "node_stack \<Rightarrow> nat option \<times> node_stack" where
  "get_next ns =
     (if node_list ns = [] then (None, ns)
      else if nat (head_idx ns + 1) = length (node_list ns) then (None, ns)
      else (Some (nat (head_idx ns + 1)), ns\<lparr>head_idx := head_idx ns + 1\<rparr>))"

definition create_node :: "node_stack \<Rightarrow> nat \<Rightarrow> nat \<times> node_stack" where
  "create_node ns numchoices =
     (length (node_list ns),
      ns\<lparr>node_list := node_list ns @ [new_node numchoices], head_idx := head_idx ns + 1\<rparr>)"

text \<open>
  \<^verbatim>\<open>explore_next\<close> returns the next node; the assertion that a replayed node has the
  announced number of choices is the \<open>None\<close> case.
\<close>

definition explore_next :: "bool \<Rightarrow> node_stack \<Rightarrow> nat \<Rightarrow> (nat \<times> node_stack) option" where
  "explore_next random_enabled ns numchoices =
     (let (nxt, ns1) = get_next ns;
          r = (case nxt of
                 None \<Rightarrow> Some (create_node ns1 numchoices)
               | Some n \<Rightarrow>
                   (if numchoices \<noteq> get_read_from_size (node_list ns1 ! n) then None
                    else if curr_backtrack ns1 = Some n
                    then let ns2 = ns1\<lparr>node_list :=
                               (node_list ns1)[n := increment_read_from (node_list ns1 ! n)]\<rparr>;
                             ns3 = pop_restofstack ns2 1
                         in Some (n, ns3\<lparr>curr_backtrack := None\<rparr>)
                    else Some (n, ns1)))
      in map_option (\<lambda>(n, ns4).
           (n, if has_more_choices random_enabled (node_list ns4 ! n)
               then ns4\<lparr>last_backtrack := Some n\<rparr> else ns4)) r)"

text \<open>The choice a decision point of the program takes from the node it was given.\<close>

definition take_choice :: "node_stack \<Rightarrow> nat \<Rightarrow> (nat \<times> node_stack) option" where
  "take_choice ns numchoices =
     map_option (\<lambda>(n, ns'). (get_choice None (node_list ns' ! n), ns'))
       (explore_next False ns numchoices)"

section \<open>Specification: decision trees\<close>

text \<open>
  The deterministic program under test, seen from its decisions: at each decision it
  announces how many choices it has and continues with the chosen one.
\<close>

datatype 'a dtree = Outcome 'a | Decide "'a dtree list"

primrec dtree_ok :: "'a dtree \<Rightarrow> bool" where
  "dtree_ok (Outcome x) = True"
| "dtree_ok (Decide ts) = (ts \<noteq> [] \<and> list_all (\<lambda>b. b) (map dtree_ok ts))"

primrec outcomes :: "'a dtree \<Rightarrow> 'a list" where
  "outcomes (Outcome x) = [x]"
| "outcomes (Decide ts) = concat (map outcomes ts)"

text \<open>One run of the program against the stack, and the checker's loop over runs.\<close>

fun run :: "'a dtree \<Rightarrow> node_stack \<Rightarrow> ('a \<times> node_stack) option" where
  "run (Outcome x) ns = Some (x, ns)"
| "run (Decide ts) ns =
     (case take_choice ns (length ts) of
        None \<Rightarrow> None
      | Some (c, ns') \<Rightarrow> if c < length ts then run (ts ! c) ns' else None)"

fun explore :: "nat \<Rightarrow> 'a dtree \<Rightarrow> node_stack \<Rightarrow> 'a list option" where
  "explore 0 t ns = None"
| "explore (Suc fuel) t ns =
     (case run t ns of
        None \<Rightarrow> None
      | Some (x, ns') \<Rightarrow>
          (if has_another_execution ns'
           then map_option (Cons x) (explore fuel t (reset_execution ns'))
           else Some [x]))"

section \<open>Paths\<close>

text \<open>
  The content of the stack as a path of the tree: the choice and the number of choices
  of each decision.
\<close>

definition path_nodes :: "(nat \<times> nat) list \<Rightarrow> node list" where
  "path_nodes p = map (\<lambda>(c, s). \<lparr>read_from_idx = c, rf_size = s\<rparr>) p"

fun on_path :: "'a dtree \<Rightarrow> (nat \<times> nat) list \<Rightarrow> bool" where
  "on_path (Outcome x) p = (p = [])"
| "on_path (Decide ts) [] = False"
| "on_path (Decide ts) ((c, s) # p) = (s = length ts \<and> c < length ts \<and> on_path (ts ! c) p)"

fun outcome_at :: "'a dtree \<Rightarrow> (nat \<times> nat) list \<Rightarrow> 'a" where
  "outcome_at (Outcome x) p = x"
| "outcome_at (Decide ts) ((c, s) # p) = outcome_at (ts ! c) p"

function first_path :: "'a dtree \<Rightarrow> (nat \<times> nat) list" where
  "first_path (Outcome x) = []"
| "first_path (Decide []) = []"
| "first_path (Decide (t # ts)) = (0, Suc (length ts)) # first_path t"
  by pat_completeness auto
termination by (relation "measure size") auto

fun next_path :: "'a dtree \<Rightarrow> (nat \<times> nat) list \<Rightarrow> (nat \<times> nat) list option" where
  "next_path (Outcome x) p = None"
| "next_path (Decide ts) [] = None"
| "next_path (Decide ts) ((c, s) # p) =
     (case next_path (ts ! c) p of
        Some q \<Rightarrow> Some ((c, s) # q)
      | None \<Rightarrow> if Suc c < s then Some ((Suc c, s) # first_path (ts ! Suc c)) else None)"

fun last_more :: "(nat \<times> nat) list \<Rightarrow> nat option" where
  "last_more [] = None"
| "last_more ((c, s) # p) =
     (case last_more p of Some k \<Rightarrow> Some (Suc k) | None \<Rightarrow> if Suc c < s then Some 0 else None)"

fun remaining :: "'a dtree \<Rightarrow> (nat \<times> nat) list \<Rightarrow> 'a list" where
  "remaining (Outcome x) p = [x]"
| "remaining (Decide ts) [] = []"
| "remaining (Decide ts) ((c, s) # p) =
     remaining (ts ! c) p @ concat (map outcomes (drop (Suc c) ts))"

lemma dtree_ok_Decide: "dtree_ok (Decide ts) \<longleftrightarrow> ts \<noteq> [] \<and> (\<forall>t\<in>set ts. dtree_ok t)"
  by (simp add: list_all_iff)

declare dtree_ok.simps(2) [simp del] dtree_ok_Decide [simp]

lemma dtree_ok_nth: "dtree_ok (Decide ts) \<Longrightarrow> c < length ts \<Longrightarrow> dtree_ok (ts ! c)"
  by simp

lemma first_path_Decide:
  "ts \<noteq> [] \<Longrightarrow> first_path (Decide ts) = (0, length ts) # first_path (ts ! 0)"
  by (cases ts) simp_all

lemma on_path_first: "dtree_ok t \<Longrightarrow> on_path t (first_path t)"
  by (induction t) (simp_all add: first_path_Decide)

lemma remaining_first: "dtree_ok t \<Longrightarrow> remaining t (first_path t) = outcomes t"
proof (induction t)
  case (Outcome x)
  then show ?case by simp
next
  case (Decide ts)
  then obtain u us where ts: "ts = u # us" by (cases ts) auto
  with Decide show ?case by (simp add: first_path_Decide)
qed

lemma on_path_next: "dtree_ok t \<Longrightarrow> on_path t p \<Longrightarrow> next_path t p = Some q \<Longrightarrow> on_path t q"
  by (induction t p arbitrary: q rule: next_path.induct)
     (auto simp: on_path_first split: option.splits if_splits)

lemma next_path_last_more: "on_path t p \<Longrightarrow> next_path t p = None \<longleftrightarrow> last_more p = None"
  by (induction t p rule: next_path.induct) (auto split: option.splits)

lemma remaining_step:
  "dtree_ok t \<Longrightarrow> on_path t p \<Longrightarrow>
   remaining t p = outcome_at t p # (case next_path t p of None \<Rightarrow> [] | Some q \<Rightarrow> remaining t q)"
proof (induction t p rule: next_path.induct)
  case (3 ts c s p)
  then have c: "s = length ts" "c < length ts" and IH:
    "remaining (ts ! c) p = outcome_at (ts ! c) p #
       (case next_path (ts ! c) p of None \<Rightarrow> [] | Some q \<Rightarrow> remaining (ts ! c) q)"
    by auto
  have "concat (map outcomes (drop (Suc c) ts)) =
      (if Suc c < length ts
       then remaining (ts ! Suc c) (first_path (ts ! Suc c)) @ concat (map outcomes (drop (Suc (Suc c)) ts))
       else [])"
    using "3.prems"(1) by (simp add: remaining_first Cons_nth_drop_Suc [symmetric])
  with IH c show ?case by (simp split: option.splits)
qed auto

section \<open>A run against a stack\<close>

text \<open>
  \<open>holds ns pre p\<close>: the run has consumed the nodes \<open>pre\<close>, and the nodes of the path
  \<open>p\<close> are still ahead.
\<close>

definition holds :: "node_stack \<Rightarrow> node list \<Rightarrow> (nat \<times> nat) list \<Rightarrow> bool" where
  "holds ns pre p \<longleftrightarrow> node_list ns = pre @ path_nodes p \<and> head_idx ns = int (length pre) - 1"

definition advance :: "nat option \<Rightarrow> nat \<Rightarrow> (nat \<times> nat) list \<Rightarrow> nat option" where
  "advance old h p = (case last_more p of Some k \<Rightarrow> Some (h + k) | None \<Rightarrow> old)"

lemma path_nodes_simps [simp]:
  "path_nodes [] = []"
  "path_nodes ((c, s) # p) = \<lparr>read_from_idx = c, rf_size = s\<rparr> # path_nodes p"
  by (simp_all add: path_nodes_def)

lemma advance_Cons:
  "advance old h ((c, s) # p) = advance (if Suc c < s then Some h else old) (Suc h) p"
  by (auto simp: advance_def split: option.splits)

lemma take_choice_fresh:
  assumes "holds ns pre []" "n > 0"
  shows "take_choice ns n = Some (0,
    \<lparr>node_list = pre @ [new_node n], last_backtrack = (if 1 < n then Some (length pre) else last_backtrack ns),
     curr_backtrack = curr_backtrack ns, head_idx = int (length pre)\<rparr>)"
  using assms
  by (auto simp: take_choice_def explore_next_def get_next_def create_node_def holds_def
      has_more_choices_def get_choice_def new_node_def Let_def)

lemma take_choice_replay:
  assumes "holds ns pre ((c, s) # p)" "curr_backtrack ns \<noteq> Some (length pre)"
  shows "take_choice ns s = Some (c,
    \<lparr>node_list = node_list ns, last_backtrack = (if Suc c < s then Some (length pre) else last_backtrack ns),
     curr_backtrack = curr_backtrack ns, head_idx = int (length pre)\<rparr>)"
  using assms
  by (auto simp: take_choice_def explore_next_def get_next_def holds_def get_read_from_size_def
      has_more_choices_def get_choice_def Let_def nth_append)

lemma take_choice_backtrack:
  assumes "holds ns pre ((c, s) # p)" "curr_backtrack ns = Some (length pre)"
  shows "take_choice ns s = Some (Suc c,
    \<lparr>node_list = pre @ [\<lparr>read_from_idx = Suc c, rf_size = s\<rparr>],
     last_backtrack = (if Suc (Suc c) < s then Some (length pre) else last_backtrack ns),
     curr_backtrack = None, head_idx = int (length pre)\<rparr>)"
  using assms
  by (auto simp: take_choice_def explore_next_def get_next_def holds_def get_read_from_size_def
      has_more_choices_def get_choice_def increment_read_from_def pop_restofstack_def Let_def
      nth_append list_update_append nat_add_distrib)

text \<open>With no node ahead the run takes the first path and records it.\<close>

lemma run_fresh:
  assumes "dtree_ok t" "holds ns pre []" "curr_backtrack ns = None"
  shows "\<exists>ns'. run t ns = Some (outcome_at t (first_path t), ns') \<and>
     holds ns' (pre @ path_nodes (first_path t)) [] \<and> curr_backtrack ns' = None \<and>
     last_backtrack ns' = advance (last_backtrack ns) (length pre) (first_path t)"
  using assms
proof (induction t arbitrary: ns pre)
  case (Outcome x)
  then show ?case by (simp add: advance_def)
next
  case (Decide ts)
  let ?n = "length ts" and ?pre = "pre @ [new_node (length ts)]"
  from Decide.prems have n: "?n > 0" and u: "ts ! 0 \<in> set ts" by auto
  obtain ns1 where ns1: "take_choice ns ?n = Some (0, ns1)" "holds ns1 ?pre []"
      "curr_backtrack ns1 = None"
      "last_backtrack ns1 = (if 1 < ?n then Some (length pre) else last_backtrack ns)"
    by (rule that [OF take_choice_fresh [OF Decide.prems(2) n]])
       (use Decide.prems(3) in \<open>simp_all add: holds_def\<close>)
  from Decide.IH [OF u _ ns1(2,3)] Decide.prems(1) u obtain ns' where
    "run (ts ! 0) ns1 = Some (outcome_at (ts ! 0) (first_path (ts ! 0)), ns')"
    "holds ns' (?pre @ path_nodes (first_path (ts ! 0))) []" "curr_backtrack ns' = None"
    "last_backtrack ns' = advance (last_backtrack ns1) (length ?pre) (first_path (ts ! 0))"
    by auto
  with ns1 n show ?case
    by (simp add: first_path_Decide new_node_def advance_Cons)
qed

text \<open>With a recorded path and no backtracking point ahead the run repeats the path.\<close>

lemma run_replay:
  assumes "on_path t p" "holds ns pre p" "curr_backtrack ns = None"
  shows "\<exists>ns'. run t ns = Some (outcome_at t p, ns') \<and>
     holds ns' (pre @ path_nodes p) [] \<and> curr_backtrack ns' = None \<and>
     last_backtrack ns' = advance (last_backtrack ns) (length pre) p"
  using assms
proof (induction t p arbitrary: ns pre rule: on_path.induct)
  case (1 x p)
  then show ?case by (simp add: advance_def)
next
  case (2 ts)
  then show ?case by simp
next
  case (3 ts c s p)
  let ?pre = "pre @ [\<lparr>read_from_idx = c, rf_size = s\<rparr>]"
  from "3.prems" have s: "s = length ts" "c < length ts" "on_path (ts ! c) p" by auto
  obtain ns1 where ns1: "take_choice ns s = Some (c, ns1)" "holds ns1 ?pre p"
      "curr_backtrack ns1 = None"
      "last_backtrack ns1 = (if Suc c < s then Some (length pre) else last_backtrack ns)"
    by (rule that [OF take_choice_replay [OF "3.prems"(2)]])
       (use "3.prems"(2,3) in \<open>simp_all add: holds_def\<close>)
  from "3.IH" [OF s(3) ns1(2,3)] obtain ns' where
    "run (ts ! c) ns1 = Some (outcome_at (ts ! c) p, ns')"
    "holds ns' (?pre @ path_nodes p) []" "curr_backtrack ns' = None"
    "last_backtrack ns' = advance (last_backtrack ns1) (length ?pre) p"
    by auto
  with ns1 s show ?case by (simp add: advance_Cons)
qed

text \<open>With the deepest open node as backtracking point the run takes the next path.\<close>

lemma run_next:
  assumes "dtree_ok t" "on_path t p" "holds ns pre p" "last_more p = Some k"
    "curr_backtrack ns = Some (length pre + k)"
  shows "\<exists>q ns'. next_path t p = Some q \<and> run t ns = Some (outcome_at t q, ns') \<and>
     holds ns' (pre @ path_nodes q) [] \<and> curr_backtrack ns' = None \<and>
     last_backtrack ns' = advance (last_backtrack ns) (length pre) q"
  using assms
proof (induction t p arbitrary: ns pre k rule: on_path.induct)
  case (1 x p)
  then show ?case by simp
next
  case (2 ts)
  then show ?case by simp
next
  case (3 ts c s p)
  from "3.prems" have s: "s = length ts" "c < length ts" "on_path (ts ! c) p"
    and ok: "dtree_ok (ts ! c)" by auto
  show ?case
  proof (cases "last_more p")
    case (Some j)
    with "3.prems" have k: "k = Suc j" by simp
    let ?pre = "pre @ [\<lparr>read_from_idx = c, rf_size = s\<rparr>]"
    obtain ns1 where ns1: "take_choice ns s = Some (c, ns1)" "holds ns1 ?pre p"
        "curr_backtrack ns1 = Some (length ?pre + j)"
        "last_backtrack ns1 = (if Suc c < s then Some (length pre) else last_backtrack ns)"
      by (rule that [OF take_choice_replay [OF "3.prems"(3)]])
         (use "3.prems"(3,5) k in \<open>simp_all add: holds_def\<close>)
    from "3.IH" [OF ok s(3) ns1(2) Some ns1(3)] obtain q ns' where
      "next_path (ts ! c) p = Some q" "run (ts ! c) ns1 = Some (outcome_at (ts ! c) q, ns')"
      "holds ns' (?pre @ path_nodes q) []" "curr_backtrack ns' = None"
      "last_backtrack ns' = advance (last_backtrack ns1) (length ?pre) q"
      by auto
    with ns1 s show ?thesis by (simp add: advance_Cons)
  next
    case None
    with "3.prems" have k: "k = 0" "Suc c < s" by (auto split: if_splits)
    let ?pre = "pre @ [\<lparr>read_from_idx = Suc c, rf_size = s\<rparr>]"
    obtain ns1 where ns1: "take_choice ns s = Some (Suc c, ns1)" "holds ns1 ?pre []"
        "curr_backtrack ns1 = None"
        "last_backtrack ns1 = (if Suc (Suc c) < s then Some (length pre) else last_backtrack ns)"
      by (rule that [OF take_choice_backtrack [OF "3.prems"(3)]])
         (use "3.prems"(5) k in \<open>simp_all add: holds_def\<close>)
    have "dtree_ok (ts ! Suc c)" using "3.prems"(1) k s by simp
    from run_fresh [OF this ns1(2,3)] obtain ns' where
      "run (ts ! Suc c) ns1 = Some (outcome_at (ts ! Suc c) (first_path (ts ! Suc c)), ns')"
      "holds ns' (?pre @ path_nodes (first_path (ts ! Suc c))) []" "curr_backtrack ns' = None"
      "last_backtrack ns' = advance (last_backtrack ns1) (length ?pre) (first_path (ts ! Suc c))"
      by auto
    moreover have "next_path (ts ! c) p = None"
      using None s(3) by (simp add: next_path_last_more)
    ultimately show ?thesis using ns1 s k by (simp add: advance_Cons)
  qed
qed

section \<open>Exhaustive exploration\<close>

text \<open>The stack after a run along \<open>p\<close>: the path, and its deepest open node.\<close>

definition explored :: "node_stack \<Rightarrow> (nat \<times> nat) list \<Rightarrow> bool" where
  "explored ns p \<longleftrightarrow> node_list ns = path_nodes p \<and> curr_backtrack ns = None \<and>
     last_backtrack ns = last_more p"

lemma holds_reset: "explored ns p \<Longrightarrow> holds (reset_execution ns) [] p"
  by (simp add: explored_def holds_def reset_execution_def)

lemma explored_intro:
  "holds ns (path_nodes p) [] \<Longrightarrow> curr_backtrack ns = None \<Longrightarrow>
   last_backtrack ns = advance None 0 p \<Longrightarrow> explored ns p"
  by (simp add: explored_def holds_def advance_def split: option.splits)

lemma run_after_reset:
  assumes "dtree_ok t" "on_path t p" "explored ns p" "last_more p = Some k"
  shows "\<exists>q ns'. next_path t p = Some q \<and>
    run t (reset_execution ns) = Some (outcome_at t q, ns') \<and> explored ns' q"
proof -
  have "curr_backtrack (reset_execution ns) = Some (length [] + k)"
    "last_backtrack (reset_execution ns) = None"
    using assms(3,4) by (simp_all add: reset_execution_def explored_def)
  with run_next [OF assms(1,2) holds_reset [OF assms(3)] assms(4)] show ?thesis
    by (auto intro: explored_intro)
qed

lemma explore_from:
  assumes "dtree_ok t" "on_path t q" "run t ns = Some (outcome_at t q, ns')" "explored ns' q"
    "length (remaining t q) \<le> fuel"
  shows "explore fuel t ns = Some (remaining t q)"
  using assms
proof (induction fuel arbitrary: ns ns' q)
  case 0
  with remaining_step [OF 0(1,2)] show ?case by simp
next
  case (Suc fuel)
  note step = remaining_step [OF Suc.prems(1,2)]
  show ?case
  proof (cases "last_more q")
    case None
    then have "next_path t q = None" using Suc.prems(2) by (simp add: next_path_last_more)
    with None Suc.prems(3,4) step show ?thesis
      by (simp add: explored_def has_another_execution_def)
  next
    case (Some k)
    from run_after_reset [OF Suc.prems(1,2,4) Some] obtain r ns'' where r:
      "next_path t q = Some r" "run t (reset_execution ns') = Some (outcome_at t r, ns'')"
      "explored ns'' r" by blast
    have "explore fuel t (reset_execution ns') = Some (remaining t r)"
      using Suc.prems(1,5) on_path_next [OF Suc.prems(1,2) r(1)] r step
      by (intro Suc.IH) auto
    with Suc.prems(3,4) Some r(1) step show ?thesis
      by (simp add: explored_def has_another_execution_def)
  qed
qed

lemma explored_first:
  assumes "dtree_ok t"
  shows "\<exists>ns'. run t NodeStack = Some (outcome_at t (first_path t), ns') \<and>
    explored ns' (first_path t)"
proof -
  have "holds NodeStack [] []" "curr_backtrack NodeStack = None" "last_backtrack NodeStack = None"
    by (simp_all add: NodeStack_def holds_def)
  with run_fresh [OF assms, of NodeStack "[]"] show ?thesis
    by (auto intro: explored_intro)
qed

text \<open>
  C1: starting from an empty stack, resetting the stack after each run until no open
  decision is left, the checker's runs yield every outcome of the program's decision tree
  exactly once, in the order of the choices; as many runs as outcomes suffice.
\<close>

theorem explore_exhaustive:
  assumes "dtree_ok t" "length (outcomes t) \<le> fuel"
  shows "explore fuel t NodeStack = Some (outcomes t)"
  using explored_first [OF assms(1)] assms
    explore_from [OF assms(1) on_path_first [OF assms(1)]]
  by (auto simp: remaining_first)

theorem explore_exhaustive_witness:
  "explore 4 (Decide [Outcome ''a'', Decide [Outcome ''b'', Outcome ''c''], Outcome ''d'']) NodeStack
   = Some [''a'', ''b'', ''c'', ''d'']"
  using explore_exhaustive [of "Decide [Outcome ''a'', Decide [Outcome ''b'', Outcome ''c''], Outcome ''d'']" 4]
  by simp

text \<open>
  The stacks the checker reaches: after a first run, after a run on to the next outcome,
  and after a replay of the last run.
\<close>

inductive visited :: "'a dtree \<Rightarrow> 'a \<Rightarrow> node_stack \<Rightarrow> bool" for t where
  visit_first: "run t NodeStack = Some (x, ns) \<Longrightarrow> visited t x ns"
| visit_next: "visited t x ns \<Longrightarrow> has_another_execution ns \<Longrightarrow>
    run t (reset_execution ns) = Some (y, ns') \<Longrightarrow> visited t y ns'"
| visit_replay: "visited t x ns \<Longrightarrow>
    run t (repeat_prev_execution (reset_execution ns)) = Some (y, ns') \<Longrightarrow> visited t y ns'"

lemma run_repeat:
  assumes "on_path t p" "explored ns p"
  shows "\<exists>ns'. run t (repeat_prev_execution (reset_execution ns)) = Some (outcome_at t p, ns') \<and>
    explored ns' p"
proof -
  let ?r = "repeat_prev_execution (reset_execution ns)"
  have r: "holds ?r [] p" "curr_backtrack ?r = None" "last_backtrack ?r = None"
    using assms(2) by (simp_all add: explored_def holds_def reset_execution_def repeat_prev_execution_def)
  from run_replay [OF assms(1) r(1,2)] r(3) show ?thesis by (auto intro: explored_intro)
qed

lemma visited_explored:
  assumes "visited t x ns" "dtree_ok t"
  shows "\<exists>p. on_path t p \<and> explored ns p \<and> x = outcome_at t p"
  using assms
proof (induction rule: visited.induct)
  case (visit_first x ns)
  then show ?case using explored_first [of t] on_path_first [of t] by auto
next
  case (visit_next x ns y ns')
  then obtain p where p: "on_path t p" "explored ns p" by auto
  with visit_next.hyps(2) obtain k where "last_more p = Some k"
    by (auto simp: explored_def has_another_execution_def)
  with visit_next p run_after_reset [of t p ns k] on_path_next [of t p] show ?case by auto
next
  case (visit_replay x ns y ns')
  then obtain p where "on_path t p" "explored ns p" by auto
  with visit_replay.hyps run_repeat show ?case by fastforce
qed

text \<open>
  in every stack the checker reaches, resetting it and cancelling the backtracking
  point makes the next run repeat the last one: the same outcome, the same decisions on
  the stack and the same open decision.
\<close>

theorem replay_repeats_run:
  assumes "dtree_ok t" "visited t x ns"
  shows "\<exists>ns'. run t (repeat_prev_execution (reset_execution ns)) = Some (x, ns') \<and>
    node_list ns' = node_list ns \<and> last_backtrack ns' = last_backtrack ns"
  using visited_explored [OF assms(2,1)] run_repeat by (fastforce simp: explored_def)

theorem replay_repeats_run_witness:
  "\<exists>ns ns'. visited (Decide [Outcome (7::nat), Outcome 8]) 7 ns \<and>
    run (Decide [Outcome (7::nat), Outcome 8]) (repeat_prev_execution (reset_execution ns)) = Some (7, ns')"
proof -
  let ?t = "Decide [Outcome (7::nat), Outcome 8]"
  obtain ns where "visited ?t 7 ns"
    using explored_first [of ?t] visit_first [of ?t]
    by (simp del: run.simps add: numeral_2_eq_2) blast
  with replay_repeats_run [of ?t 7 ns] show ?thesis by auto
qed

end
