(* ===== verification/Machine.thy ===== *)
theory Machine
  imports Actions Node_Stack Race_Check
begin

text \<open>
  The state of the checker: threads with their store and flush buffers
  (\<^verbatim>\<open>Scheduler/threads-model.h\<close>, \<^verbatim>\<open>Model/threadmemory.h\<close>), cache lines
  (\<^verbatim>\<open>Model/cacheline.h\<close>, \<^verbatim>\<open>Model/range.h\<close>), executions (\<^verbatim>\<open>Model/execution.h\<close>), the
  scheduler (\<^verbatim>\<open>Scheduler/schedule.h\<close>) and the checker itself (\<^verbatim>\<open>Model/model.h\<close>).  Actions
  live in a heap and are shared by reference; executions are numbered in the order they
  are made, so that a past execution can still be narrowed by a later read.  A step is a
  function from the state to an optional result with a new state, \<open>None\<close> being a failed
  \<^verbatim>\<open>ASSERT\<close> or a use of \<^verbatim>\<open>NULL\<close>.
\<close>

section \<open>Cache lines\<close>

definition CACHELINESIZE :: u64 where "CACHELINESIZE = 64"

definition getCacheID :: "addr \<Rightarrow> addr" where
  "getCacheID address = address AND NOT (CACHELINESIZE - 1)"

definition alignAddress :: "addr \<Rightarrow> addr" where
  "alignAddress addr = addr AND NOT 7"

text \<open>
  The line was written back at some point of the range: everything up to \<^verbatim>\<open>beginR\<close> has
  been, nothing after \<^verbatim>\<open>endR\<close> was; an \<^verbatim>\<open>endR\<close> of 0 is no bound.  The fields
  \<^verbatim>\<open>lastWrite\<close> and \<^verbatim>\<open>lastCacheOp\<close> of the class are never read.
\<close>

record cache_line =
  cl_beginR :: modelclock
  cl_endR :: modelclock

definition CacheLine :: cache_line where
  "CacheLine = \<lparr>cl_beginR = 0, cl_endR = 0\<rparr>"

section \<open>Threads\<close>

record thread_memory =
  tm_storeBuffer :: "aid list"
  tm_obj_to_last_write :: "addr \<Rightarrow> aid option"
  tm_flushBuffer :: "aid list"
  tm_lastsfence :: "aid option"
  tm_flushcount :: int

definition ThreadMemory :: thread_memory where
  "ThreadMemory = \<lparr>tm_storeBuffer = [], tm_obj_to_last_write = (\<lambda>_. None), tm_flushBuffer = [],
     tm_lastsfence = None, tm_flushcount = 0\<rparr>"

datatype thread_state =
    THREAD_CREATED | THREAD_RUNNING | THREAD_READY | THREAD_BLOCKED | THREAD_COMPLETED | THREAD_FREED

record thread_obj =
  th_parent :: "tid option"
  th_creation :: "aid option"
  th_pending :: "aid option"
  th_id :: tid
  th_state :: thread_state
  th_last_action_val :: u64
  th_memory :: thread_memory
  th_model_thread :: bool
  th_wakeup_state :: bool

text \<open>The constructor of the model's own thread, and that of a user thread.\<close>

definition ModelThread :: "tid \<Rightarrow> thread_obj" where
  "ModelThread t = \<lparr>th_parent = None, th_creation = None, th_pending = None, th_id = t,
     th_state = THREAD_READY, th_last_action_val = 0, th_memory = ThreadMemory,
     th_model_thread = True, th_wakeup_state = False\<rparr>"

definition UserThread :: "tid \<Rightarrow> tid option \<Rightarrow> thread_obj" where
  "UserThread t parent = \<lparr>th_parent = parent, th_creation = None, th_pending = None, th_id = t,
     th_state = THREAD_CREATED, th_last_action_val = VALUE_NONE, th_memory = ThreadMemory,
     th_model_thread = False, th_wakeup_state = False\<rparr>"

definition is_complete :: "thread_obj \<Rightarrow> bool" where
  "is_complete th \<longleftrightarrow> th_state th = THREAD_COMPLETED \<or> th_state th = THREAD_FREED"

definition is_blocked :: "thread_obj \<Rightarrow> bool" where
  "is_blocked th \<longleftrightarrow> th_state th = THREAD_BLOCKED"

definition is_freed :: "thread_obj \<Rightarrow> bool" where
  "is_freed th \<longleftrightarrow> th_state th = THREAD_FREED"

text \<open>\<^verbatim>\<open>Thread::set_state\<close> refuses to revive a completed thread; \<^verbatim>\<open>complete\<close> asserts it is not one.\<close>

definition set_state :: "thread_state \<Rightarrow> thread_obj \<Rightarrow> thread_obj option" where
  "set_state st th =
     (if st = THREAD_COMPLETED \<or> th_state th \<noteq> THREAD_COMPLETED then Some (th\<lparr>th_state := st\<rparr>)
      else None)"

definition complete :: "thread_obj \<Rightarrow> thread_obj option" where
  "complete th = (if is_complete th then None else Some (th\<lparr>th_state := THREAD_COMPLETED\<rparr>))"

definition freeResources :: "thread_obj \<Rightarrow> thread_obj" where
  "freeResources th = th\<lparr>th_state := THREAD_FREED\<rparr>"

section \<open>Mutexes, the scheduler, parameters\<close>

record mutex_state =
  ms_locked :: "tid option"
  ms_alloc_tid :: tid
  ms_alloc_clock :: modelclock
  ms_recursive :: bool
  ms_lock_count :: int

datatype enabled_type = THREAD_DISABLED | THREAD_ENABLED | THREAD_SLEEP_SET

record scheduler =
  sch_enabled :: "enabled_type list"
  sch_curr_thread_index :: nat
  sch_current :: "tid option"

definition Scheduler :: scheduler where
  "Scheduler = \<lparr>sch_enabled = [], sch_curr_thread_index = 0, sch_current = None\<rparr>"

record model_params =
  p_firstCrash :: modelclock
  p_storebufferthreshold :: u32
  p_evictmax :: nat
  p_numcrashes :: nat
  p_enableCrash :: bool
  p_enablePersistrace :: bool
  p_randomExecution :: int

section \<open>Executions\<close>

record execution =
  ex_thread_map :: "thread_obj option list"
  ex_pthread_map :: "tid option list"
  ex_pthread_counter :: u32
  ex_storebufferusage :: u32
  ex_action_trace :: "aid list"
  ex_obj_map :: "addr \<Rightarrow> aid list option"
  ex_condvar_waiters_map :: "addr \<Rightarrow> aid list option"
  ex_obj_wr_map :: "addr \<Rightarrow> aid list option"
  ex_thrd_last_action :: "aid option list"
  ex_obj_to_cacheline :: "addr \<Rightarrow> cache_line option"
  ex_next_thread_id :: nat
  ex_used_sequence_numbers :: modelclock
  ex_bugs :: "string list"
  ex_warnings :: "string list"
  ex_asserted :: bool
  ex_isfinished :: bool
  ex_hasCrashed :: bool
  ex_noWriteSinceCrashCheck :: bool
  ex_enableCrash :: bool

text \<open>One byte of a read: the execution and the write it reads from, or an open slot.\<close>

type_synonym write_slot = "(eid \<times> aid) option"
type_synonym write_vec = "write_slot list"

text \<open>
  Calls of the installed analyses, in order, with the action as it is at the call.
\<close>

datatype event =
    EvictStore eid aid model_action
  | EvictFlush eid aid model_action
  | Fence eid aid model_action
  | MayReadFrom model_action "write_vec list"
  | ReadFrom model_action write_vec
  | Crash eid
  | PersistExecution eid
  | FreeExecution eid

section \<open>The checker\<close>

text \<open>
  \<open>ck_found\<close> stands for the successive probes of the hash sets of write vectors, whose
  outcome depends on the addresses of the vectors' contents; \<open>ck_random\<close> and
  \<open>ck_clock\<close> are the results of successive calls of \<^verbatim>\<open>random\<close> and \<^verbatim>\<open>clock_gettime\<close>;
  \<open>ck_thread_at\<close> is the thread whose object the allocator put at an address.
\<close>

record checker =
  ck_acts :: "model_action list"
  ck_execs :: "execution list"
  ck_cur :: eid
  ck_orig :: eid
  ck_prev :: "(eid \<times> node_stack) list"
  ck_nodestack :: node_stack
  ck_replaystack :: "node_stack list"
  ck_params :: model_params
  ck_execution_number :: nat
  ck_numcrashes :: nat
  ck_max_execution_seq_num :: modelclock
  ck_nextCrashPoint :: modelclock
  ck_sched :: scheduler
  ck_mutexes :: "addr \<Rightarrow> mutex_state"
  ck_mem :: "addr \<Rightarrow> u8"
  ck_pmem :: "(addr \<times> u64) option \<times> (addr \<times> u64) option"
  ck_regionID :: "addr option list"
  ck_races :: race_detector
  ck_events :: "event list"
  ck_found :: "nat \<Rightarrow> write_vec \<Rightarrow> write_vec list \<Rightarrow> bool"
  ck_found_pos :: nat
  ck_thread_at :: "addr \<Rightarrow> tid option"
  ck_random :: "nat \<Rightarrow> nat"
  ck_random_pos :: nat
  ck_clock :: "nat \<Rightarrow> u64"
  ck_clock_pos :: nat
  ck_curr_thread_num :: nat
  ck_chosen_thread :: "tid option"
  ck_thread_chosen :: bool

definition act :: "checker \<Rightarrow> aid \<Rightarrow> model_action" where
  "act s a = ck_acts s ! a"

definition upd_act :: "aid \<Rightarrow> (model_action \<Rightarrow> model_action) \<Rightarrow> checker \<Rightarrow> checker" where
  "upd_act a f s = s\<lparr>ck_acts := (ck_acts s)[a := f (act s a)]\<rparr>"

definition new_action :: "model_action \<Rightarrow> checker \<Rightarrow> aid \<times> checker" where
  "new_action m s = (length (ck_acts s), s\<lparr>ck_acts := ck_acts s @ [m]\<rparr>)"

definition exec_of :: "checker \<Rightarrow> eid \<Rightarrow> execution" where
  "exec_of s e = ck_execs s ! e"

definition cur_exec :: "checker \<Rightarrow> execution" where
  "cur_exec s = exec_of s (ck_cur s)"

definition upd_exec :: "eid \<Rightarrow> (execution \<Rightarrow> execution) \<Rightarrow> checker \<Rightarrow> checker" where
  "upd_exec e f s = s\<lparr>ck_execs := (ck_execs s)[e := f (exec_of s e)]\<rparr>"

definition upd_cur :: "(execution \<Rightarrow> execution) \<Rightarrow> checker \<Rightarrow> checker" where
  "upd_cur f s = upd_exec (ck_cur s) f s"

definition emit :: "event \<Rightarrow> checker \<Rightarrow> checker" where
  "emit ev s = s\<lparr>ck_events := ck_events s @ [ev]\<rparr>"

text \<open>\<^verbatim>\<open>ModelExecution::get_thread\<close>: \<^verbatim>\<open>NULL\<close> outside the map.\<close>

definition get_thread :: "checker \<Rightarrow> tid \<Rightarrow> thread_obj option" where
  "get_thread s t =
     (if t < length (ex_thread_map (cur_exec s)) then ex_thread_map (cur_exec s) ! t else None)"

definition put_thread :: "tid \<Rightarrow> thread_obj \<Rightarrow> checker \<Rightarrow> checker" where
  "put_thread t th s = upd_cur (\<lambda>x. x\<lparr>ex_thread_map := (ex_thread_map x)[t := Some th]\<rparr>) s"

definition upd_thread :: "tid \<Rightarrow> (thread_obj \<Rightarrow> thread_obj) \<Rightarrow> checker \<Rightarrow> checker option" where
  "upd_thread t f s = do { th \<leftarrow> get_thread s t; Some (put_thread t (f th) s) }"

definition thread_memory_of :: "checker \<Rightarrow> tid \<Rightarrow> thread_memory option" where
  "thread_memory_of s t = map_option th_memory (get_thread s t)"

definition upd_memory :: "tid \<Rightarrow> (thread_memory \<Rightarrow> thread_memory) \<Rightarrow> checker \<Rightarrow> checker option" where
  "upd_memory t f s = upd_thread t (\<lambda>th. th\<lparr>th_memory := f (th_memory th)\<rparr>) s"

definition get_num_threads :: "checker \<Rightarrow> nat" where
  "get_num_threads s = ex_next_thread_id (cur_exec s)"

definition get_next_id :: "checker \<Rightarrow> tid \<times> checker" where
  "get_next_id s = (ex_next_thread_id (cur_exec s),
     upd_cur (\<lambda>x. x\<lparr>ex_next_thread_id := ex_next_thread_id x + 1\<rparr>) s)"

definition get_next_seq_num :: "checker \<Rightarrow> modelclock \<times> checker" where
  "get_next_seq_num s = (let n = ex_used_sequence_numbers (cur_exec s) + 1
     in (n, upd_cur (\<lambda>x. x\<lparr>ex_used_sequence_numbers := n\<rparr>) s))"

definition get_curr_seq_num :: "checker \<Rightarrow> modelclock" where
  "get_curr_seq_num s = ex_used_sequence_numbers (cur_exec s)"

definition updateStoreBuffer :: "u32 \<Rightarrow> checker \<Rightarrow> checker" where
  "updateStoreBuffer delta s =
     upd_cur (\<lambda>x. x\<lparr>ex_storebufferusage := ex_storebufferusage x + delta\<rparr>) s"

definition next_random :: "checker \<Rightarrow> nat \<times> checker" where
  "next_random s = (ck_random s (ck_random_pos s), s\<lparr>ck_random_pos := ck_random_pos s + 1\<rparr>)"

text \<open>The text of a message is not needed; bugs and warnings are counted by their text.\<close>

definition assert_bug :: "string \<Rightarrow> checker \<Rightarrow> checker" where
  "assert_bug msg s = upd_cur (\<lambda>x. x\<lparr>ex_bugs := ex_bugs x @ [msg], ex_asserted := True\<rparr>) s"

definition have_bug_reports :: "checker \<Rightarrow> bool" where
  "have_bug_reports s \<longleftrightarrow> ex_bugs (cur_exec s) \<noteq> []"

definition has_asserted :: "checker \<Rightarrow> bool" where
  "has_asserted s \<longleftrightarrow> ex_asserted (cur_exec s)"

definition setFinished :: "checker \<Rightarrow> checker" where
  "setFinished s = upd_cur (\<lambda>x. x\<lparr>ex_isfinished := True\<rparr>) s"

text \<open>\<^verbatim>\<open>pmem_is_pmem\<close>: the persistent region or the region a client registered.\<close>

definition in_region :: "(addr \<times> u64) option \<Rightarrow> addr \<Rightarrow> bool" where
  "in_region r a = (case r of None \<Rightarrow> False | Some (base, sz) \<Rightarrow> a \<ge> base \<and> a < base + sz)"

definition pmem_is_pmem :: "checker \<Rightarrow> addr \<Rightarrow> bool" where
  "pmem_is_pmem s a \<longleftrightarrow> in_region (fst (ck_pmem s)) a \<or> in_region (snd (ck_pmem s)) a"

text \<open>
  The trace: \<^verbatim>\<open>actionlist::addAction\<close> places an action after every action whose sequence
  number is not larger.
\<close>

fun insert_trace :: "(aid \<Rightarrow> modelclock) \<Rightarrow> aid \<Rightarrow> aid list \<Rightarrow> aid list" where
  "insert_trace clk a [] = [a]"
| "insert_trace clk a (b # bs) = (if clk b \<le> clk a then b # insert_trace clk a bs else a # b # bs)"

definition addAction :: "eid \<Rightarrow> aid \<Rightarrow> checker \<Rightarrow> checker" where
  "addAction e a s = upd_exec e (\<lambda>x. x\<lparr>ex_action_trace :=
     insert_trace (\<lambda>b. get_seq_number (act s b)) a (ex_action_trace x)\<rparr>) s"

end
