(* ===== verification/Store_Buffer.thy ===== *)
theory Store_Buffer
  imports Machine
begin

text \<open>
  \<^verbatim>\<open>Model/threadmemory.cc\<close> and the part of \<^verbatim>\<open>Model/execution.cc\<close> it calls: how stores,
  flushes and fences leave the store buffer and the flush buffer of a thread, how a flush
  moves the persisted point of its cache line, and where a crash may be injected.
\<close>

section \<open>Scheduler primitives\<close>

definition set_enabled :: "tid \<Rightarrow> enabled_type \<Rightarrow> scheduler \<Rightarrow> scheduler" where
  "set_enabled t e sch =
     sch\<lparr>sch_enabled := (grow THREAD_DISABLED (t + 1) (sch_enabled sch))[t := e]\<rparr>"

definition is_enabled :: "scheduler \<Rightarrow> tid \<Rightarrow> bool" where
  "is_enabled sch t =
     (if t \<ge> length (sch_enabled sch) then False else sch_enabled sch ! t \<noteq> THREAD_DISABLED)"

definition get_enabled :: "scheduler \<Rightarrow> tid \<Rightarrow> enabled_type option" where
  "get_enabled sch t = (if t < length (sch_enabled sch) then Some (sch_enabled sch ! t) else None)"

definition upd_sched :: "(scheduler \<Rightarrow> scheduler) \<Rightarrow> checker \<Rightarrow> checker" where
  "upd_sched f s = s\<lparr>ck_sched := f (ck_sched s)\<rparr>"

definition add_sleep :: "tid \<Rightarrow> checker \<Rightarrow> checker" where
  "add_sleep t s = upd_sched (set_enabled t THREAD_SLEEP_SET) s"

definition remove_sleep :: "tid \<Rightarrow> checker \<Rightarrow> checker" where
  "remove_sleep t s = upd_sched (set_enabled t THREAD_ENABLED) s"

section \<open>Waking sleepers\<close>

definition shouldWake :: "model_action \<Rightarrow> checker \<Rightarrow> bool \<times> checker" where
  "shouldWake sl s =
     (act_time sl + act_value sl < ck_clock s (ck_clock_pos s), s\<lparr>ck_clock_pos := ck_clock_pos s + 1\<rparr>)"

definition should_wake_up :: "model_action \<Rightarrow> thread_obj \<Rightarrow> checker \<Rightarrow> (bool \<times> checker) option" where
  "should_wake_up cur thread s =
     (if is_rmw_read cur then Some (False, s)
      else (case th_pending thread of
          None \<Rightarrow> None
        | Some p \<Rightarrow>
            (let asleep = act s p in
             if could_synchronize_with asleep cur then Some (True, s)
             else if is_sleep asleep then
               (let (wake, s') = shouldWake asleep s in Some (wake, s'))
             else Some (False, s))))"

fun wake_up_loop :: "aid \<Rightarrow> tid list \<Rightarrow> checker \<Rightarrow> checker option" where
  "wake_up_loop cur [] s = Some s"
| "wake_up_loop cur (i # is) s = do {
     thr \<leftarrow> get_thread s i;
     e \<leftarrow> get_enabled (ck_sched s) i;
     if e = THREAD_SLEEP_SET then do {
       (wake, s1) \<leftarrow> should_wake_up (act s cur) thr s;
       if wake then do {
         let s2 = remove_sleep i s1;
         p \<leftarrow> th_pending thr;
         let s3 = (if is_sleep (act s2 p) then put_thread i (thr\<lparr>th_wakeup_state := True\<rparr>) s2 else s2);
         wake_up_loop cur is s3
       } else wake_up_loop cur is s1
     } else wake_up_loop cur is s
   }"

definition wake_up_sleeping_actions :: "aid \<Rightarrow> checker \<Rightarrow> checker option" where
  "wake_up_sleeping_actions cur s = wake_up_loop cur [0..<get_num_threads s] s"

section \<open>Bookkeeping of an action\<close>

definition initialize_curr_action :: "aid \<Rightarrow> checker \<Rightarrow> checker option" where
  "initialize_curr_action cur s = do {
     let (n, s1) = get_next_seq_num s;
     m \<leftarrow> set_seq_number (act s1 cur) n;
     Some (addAction (ck_cur s1) cur (upd_act cur (\<lambda>_. m) s1))
   }"

definition push_list :: "addr \<Rightarrow> aid \<Rightarrow> (addr \<Rightarrow> aid list option) \<Rightarrow> (addr \<Rightarrow> aid list option)" where
  "push_list loc a m = m(loc := Some ((case m loc of None \<Rightarrow> [] | Some xs \<Rightarrow> xs) @ [a]))"

definition set_last_action :: "tid \<Rightarrow> aid \<Rightarrow> execution \<Rightarrow> execution option" where
  "set_last_action t a x =
     (let last = (if length (ex_thrd_last_action x) \<le> t
                  then grow None (ex_next_thread_id x) (ex_thrd_last_action x)
                  else ex_thrd_last_action x)
      in if t < length last then Some (x\<lparr>ex_thrd_last_action := last[t := Some a]\<rparr>) else None)"

definition update_thread_local_data :: "aid \<Rightarrow> checker \<Rightarrow> checker option" where
  "update_thread_local_data a s = do {
     let m = act s a;
     let x1 = (if is_unlock m
               then (cur_exec s)\<lparr>ex_obj_map := push_list (act_location m) a (ex_obj_map (cur_exec s))\<rparr>
               else cur_exec s);
     x2 \<leftarrow> set_last_action (act_tid m) a x1;
     let x3 = (if is_wait m then x2\<lparr>ex_obj_map := push_list (act_value m) a (ex_obj_map x2)\<rparr> else x2);
     Some (upd_cur (\<lambda>_. x3) s)
   }"

text \<open>An evicted operation becomes visible: it gets its number and its place in the trace.\<close>

definition remove_action_from_store_buffer :: "aid \<Rightarrow> checker \<Rightarrow> checker option" where
  "remove_action_from_store_buffer a s =
     (if is_write (act s a) \<or> is_cache_op (act s a) \<or> is_sfence (act s a) then do {
        s1 \<leftarrow> initialize_curr_action a s;
        s2 \<leftarrow> update_thread_local_data a s1;
        wake_up_sleeping_actions a s2
      } else None)"

section \<open>Crash points\<close>

definition isRandomExecutionEnabled :: "checker \<Rightarrow> bool" where
  "isRandomExecutionEnabled s \<longleftrightarrow> p_randomExecution (ck_params s) \<noteq> -1"

definition explore :: "nat \<Rightarrow> checker \<Rightarrow> (nat \<times> checker) option" where
  "explore numchoices s = do {
     (n, ns) \<leftarrow> explore_next (isRandomExecutionEnabled s) (ck_nodestack s) numchoices;
     Some (n, s\<lparr>ck_nodestack := ns\<rparr>)
   }"

definition node_choice :: "nat \<Rightarrow> checker \<Rightarrow> nat \<times> checker" where
  "node_choice n s =
     (let nd = node_list (ck_nodestack s) ! n in
      if isRandomExecutionEnabled s
      then (let (r, s1) = next_random s in (get_choice (Some r) nd, s1))
      else (get_choice None nd, s))"

definition crash_excluded :: "checker \<Rightarrow> bool" where
  "crash_excluded s =
     (let notRandomCrash = isRandomExecutionEnabled s \<and>
            (get_curr_seq_num s \<le> ck_nextCrashPoint s \<or>
             int (ck_execution_number s) \<ge> p_randomExecution (ck_params s) mod 2 ^ 32)
      in ck_numcrashes s \<ge> p_numcrashes (ck_params s) \<or> ex_noWriteSinceCrashCheck (cur_exec s) \<or>
         \<not> ex_enableCrash (cur_exec s) \<or> get_curr_seq_num s < p_firstCrash (ck_params s) \<or>
         notRandomCrash)"

definition shouldInsertCrash :: "checker \<Rightarrow> (bool \<times> checker) option" where
  "shouldInsertCrash s =
     (if crash_excluded s then Some (False, s)
      else do {
        (node, s1) \<leftarrow> explore 2 s;
        let insertRandomCrash = isRandomExecutionEnabled s1 \<and> get_curr_seq_num s1 > ck_nextCrashPoint s1;
        let s2 = (if insertRandomCrash
                  then s1\<lparr>ck_nodestack := set_Last_backtrack (ck_nodestack s1) node\<rparr> else s1);
        let (choice, s3) = node_choice node s2;
        if choice = 0 \<or> insertRandomCrash
        then Some (True, upd_cur (\<lambda>x. x\<lparr>ex_hasCrashed := True\<rparr>) s3)
        else Some (False, upd_cur (\<lambda>x. x\<lparr>ex_noWriteSinceCrashCheck := True\<rparr>) s3)
      })"

definition injectCrash :: "checker \<Rightarrow> checker" where
  "injectCrash s =
     (if ck_numcrashes s \<ge> p_numcrashes (ck_params s) \<or> get_curr_seq_num s < p_firstCrash (ck_params s)
      then s else upd_cur (\<lambda>x. x\<lparr>ex_hasCrashed := True\<rparr>) s)"

section \<open>Flushing a cache line\<close>

definition getCacheLine :: "eid \<Rightarrow> addr \<Rightarrow> checker \<Rightarrow> cache_line \<times> checker" where
  "getCacheLine e address s =
     (case ex_obj_to_cacheline (exec_of s e) (getCacheID address) of
        Some cl \<Rightarrow> (cl, s)
      | None \<Rightarrow> (CacheLine, upd_exec e (\<lambda>x. x\<lparr>ex_obj_to_cacheline :=
                   (ex_obj_to_cacheline x)(getCacheID address := Some CacheLine)\<rparr>) s))"

definition put_cache_line :: "eid \<Rightarrow> addr \<Rightarrow> cache_line \<Rightarrow> checker \<Rightarrow> checker" where
  "put_cache_line e address cl s = upd_exec e (\<lambda>x. x\<lparr>ex_obj_to_cacheline :=
     (ex_obj_to_cacheline x)(getCacheID address := Some cl)\<rparr>) s"

definition persistCacheLine :: "(aid \<Rightarrow> modelclock) \<Rightarrow> model_action \<Rightarrow> cache_line \<Rightarrow> cache_line" where
  "persistCacheLine clk clflush cl =
     (if is_clflush clflush then cl\<lparr>cl_beginR := get_seq_number clflush\<rparr>
      else
        (let lastcommittedWrite = get_last_write clflush;
             e0 = get_last_clflush clflush;
             e1 = (case act_lastwrite clflush of
                 None \<Rightarrow> e0 | Some w \<Rightarrow> if clk w > e0 then clk w else e0);
             e2 = (if lastcommittedWrite > e1 then lastcommittedWrite else e1);
             currstart = cl_beginR cl
         in if currstart < e2 then cl\<lparr>cl_beginR := e2\<rparr> else cl))"

definition evictCacheOp :: "aid \<Rightarrow> checker \<Rightarrow> (bool \<times> checker) option" where
  "evictCacheOp cacheop s = do {
     (crash, s1) \<leftarrow> shouldInsertCrash s;
     if crash then Some (True, s1)
     else do {
       s2 \<leftarrow> remove_action_from_store_buffer cacheop s1;
       let loc = act_location (act s2 cacheop);
       let (cl, s3) = getCacheLine (ck_cur s2) loc s2;
       let s4 = put_cache_line (ck_cur s3) loc
                  (persistCacheLine (\<lambda>w. get_seq_number (act s3 w)) (act s3 cacheop) cl) s3;
       Some (False, emit (EvictFlush (ck_cur s4) cacheop (act s4 cacheop)) s4)
     }
   }"

section \<open>The list of writes of a word\<close>

definition act_bot :: "model_action \<Rightarrow> addr" where
  "act_bot w = act_location w"

definition act_top :: "model_action \<Rightarrow> addr" where
  "act_top w = act_location w + of_nat (act_size w)"

definition trunc_value :: "nat \<Rightarrow> u64 \<Rightarrow> u64" where
  "trunc_value wsize v =
     (if wsize = 1 then v AND 0xff else if wsize = 2 then v AND 0xffff
      else if wsize = 4 then v AND 0xffffffff else v)"

text \<open>
  Backwards to the last overlapping write: when that write covers the new one and wrote
  the same bytes, the new write changes nothing and is dropped.
\<close>

fun subsumed :: "(aid \<Rightarrow> model_action) \<Rightarrow> model_action \<Rightarrow> aid list \<Rightarrow> bool" where
  "subsumed heap write [] = False"
| "subsumed heap write (o' # older) =
     (let oldwrite = heap o'; wbot = act_bot write; wtop = act_top write;
          owbot = act_bot oldwrite; owtop = act_top oldwrite in
      if is_write oldwrite then
        if wbot \<ge> owtop \<or> owbot \<ge> wtop then subsumed heap write older
        else owbot \<le> wbot \<and> owtop \<ge> wtop \<and>
          trunc_value (act_size write) (drop_bit (unat (wbot - owbot) * 8) (act_value oldwrite))
            = act_value write
      else subsumed heap write older)"

definition add_write_to_lists :: "eid \<Rightarrow> aid \<Rightarrow> checker \<Rightarrow> bool \<times> checker" where
  "add_write_to_lists e write s =
     (let alignaddress = alignAddress (act_location (act s write));
          lst = ex_obj_wr_map (exec_of s e) alignaddress in
      if (case lst of None \<Rightarrow> False | Some xs \<Rightarrow> subsumed (act s) (act s write) (rev xs))
      then (False, s)
      else (True, upd_exec e (\<lambda>x. x\<lparr>ex_obj_wr_map := push_list alignaddress write (ex_obj_wr_map x),
                                    ex_noWriteSinceCrashCheck := False\<rparr>) s))"

section \<open>Leaving the buffers\<close>

definition evictWrite :: "aid \<Rightarrow> checker \<Rightarrow> (bool \<times> checker) option" where
  "evictWrite writeop s = do {
     s1 \<leftarrow> remove_action_from_store_buffer writeop s;
     Some (add_write_to_lists (ck_cur s1) writeop s1)
   }"

definition evictFlushOpt :: "tid \<Rightarrow> aid \<Rightarrow> checker \<Rightarrow> checker option" where
  "evictFlushOpt t flushopt s = do {
     tm \<leftarrow> thread_memory_of s t;
     let s1 = (case tm_lastsfence tm of
         None \<Rightarrow> s
       | Some f \<Rightarrow> upd_act flushopt (\<lambda>m. set_last_clflush m (get_seq_number (act s f))) s);
     upd_memory t (\<lambda>tm. tm\<lparr>tm_flushBuffer := tm_flushBuffer tm @ [flushopt]\<rparr>) s1
   }"

definition dec_flushcount :: "tid \<Rightarrow> checker \<Rightarrow> checker option" where
  "dec_flushcount t s = upd_memory t (\<lambda>tm. tm\<lparr>tm_flushcount := tm_flushcount tm - 1\<rparr>) s"

text \<open>
  The loop pops one flush per round; the evicted flush is gone from the buffer even when
  a crash is injected at it.  The buffer does not grow meanwhile, so its length bounds it.
\<close>

primrec flush_loop :: "nat \<Rightarrow> tid \<Rightarrow> checker \<Rightarrow> (bool \<times> checker) option" where
  "flush_loop 0 t s = Some (False, s)"
| "flush_loop (Suc n) t s = do {
     tm \<leftarrow> thread_memory_of s t;
     (case tm_flushBuffer tm of
        [] \<Rightarrow> Some (False, s)
      | cur # rest \<Rightarrow> do {
          s1 \<leftarrow> upd_memory t (\<lambda>tm. tm\<lparr>tm_flushBuffer := rest\<rparr>) s;
          (crash, s2) \<leftarrow> evictCacheOp cur s1;
          if crash then Some (True, s2)
          else do { s3 \<leftarrow> dec_flushcount t s2; flush_loop n t s3 }
        })
   }"

definition emptyFlushBuffer :: "tid \<Rightarrow> checker \<Rightarrow> (bool \<times> checker) option" where
  "emptyFlushBuffer t s = do {
     tm \<leftarrow> thread_memory_of s t;
     flush_loop (length (tm_flushBuffer tm)) t s
   }"

definition evictOpFromStoreBuffer :: "tid \<Rightarrow> aid \<Rightarrow> checker \<Rightarrow> (bool \<times> checker) option" where
  "evictOpFromStoreBuffer t a s =
     (let evicted = (\<lambda>ignoreOp s'. Some (False,
            if ignoreOp then s' else emit (EvictStore (ck_cur s') a (act s' a)) s')) in
      if is_write (act s a) then do {
        (applyWrite, s1) \<leftarrow> evictWrite a s;
        evicted (\<not> applyWrite) s1
      } else if is_sfence (act s a) then do {
        (crash, s1) \<leftarrow> emptyFlushBuffer t s;
        if crash then Some (True, s1)
        else do {
          s2 \<leftarrow> upd_memory t (\<lambda>tm. tm\<lparr>tm_lastsfence := Some a\<rparr>) s1;
          s3 \<leftarrow> remove_action_from_store_buffer a s2;
          evicted False (emit (Fence (ck_cur s3) a (act s3 a)) s3)
        }
      } else if is_cache_op (act s a) then
        (if is_clflush (act s a) then do {
           (crash, s1) \<leftarrow> evictCacheOp a s;
           if crash then Some (True, s1)
           else do { s2 \<leftarrow> dec_flushcount t s1; evicted False s2 }
         } else do { s1 \<leftarrow> evictFlushOpt t a s; evicted False s1 })
      else None)"

definition popFromStoreBuffer :: "tid \<Rightarrow> checker \<Rightarrow> (bool \<times> checker) option" where
  "popFromStoreBuffer t s = do {
     tm \<leftarrow> thread_memory_of s t;
     (case tm_storeBuffer tm of
        [] \<Rightarrow> Some (False, s)
      | head # rest \<Rightarrow> do {
          s1 \<leftarrow> upd_memory t (\<lambda>tm. tm\<lparr>tm_storeBuffer := rest\<rparr>) s;
          evictOpFromStoreBuffer t head (updateStoreBuffer (-1) s1)
        })
   }"

text \<open>The usage counter is settled once, by the number of operations taken out.\<close>

primrec store_loop :: "nat \<Rightarrow> u32 \<Rightarrow> tid \<Rightarrow> checker \<Rightarrow> (bool \<times> checker) option" where
  "store_loop 0 count t s = Some (False, updateStoreBuffer (- count) s)"
| "store_loop (Suc n) count t s = do {
     tm \<leftarrow> thread_memory_of s t;
     (case tm_storeBuffer tm of
        [] \<Rightarrow> Some (False, updateStoreBuffer (- count) s)
      | cur # rest \<Rightarrow> do {
          s1 \<leftarrow> upd_memory t (\<lambda>tm. tm\<lparr>tm_storeBuffer := rest\<rparr>) s;
          (crash, s2) \<leftarrow> evictOpFromStoreBuffer t cur s1;
          if crash then Some (True, updateStoreBuffer (- (count + 1)) s2)
          else store_loop n (count + 1) t s2
        })
   }"

definition emptyStoreBuffer :: "tid \<Rightarrow> checker \<Rightarrow> (bool \<times> checker) option" where
  "emptyStoreBuffer t s = do {
     tm \<leftarrow> thread_memory_of s t;
     store_loop (length (tm_storeBuffer tm)) 0 t s
   }"

definition covers_byte :: "model_action \<Rightarrow> addr \<Rightarrow> bool" where
  "covers_byte w a \<longleftrightarrow> a \<ge> act_bot w \<and> a < act_top w"

text \<open>
  \<^verbatim>\<open>emptyWrites\<close>: everything up to the last buffered write of the byte is evicted; a crash
  leaves the rest and reports no flush.
\<close>

fun last_index :: "('a \<Rightarrow> bool) \<Rightarrow> 'a list \<Rightarrow> nat option" where
  "last_index P [] = None"
| "last_index P (x # xs) =
     (case last_index P xs of Some i \<Rightarrow> Some (Suc i) | None \<Rightarrow> if P x then Some 0 else None)"

primrec empty_writes_loop :: "nat \<Rightarrow> tid \<Rightarrow> checker \<Rightarrow> (bool \<times> checker) option" where
  "empty_writes_loop 0 t s = Some (True, s)"
| "empty_writes_loop (Suc n) t s = do {
     tm \<leftarrow> thread_memory_of s t;
     (case tm_storeBuffer tm of
        [] \<Rightarrow> Some (False, s)
      | cur # rest \<Rightarrow> do {
          s1 \<leftarrow> upd_memory t (\<lambda>tm. tm\<lparr>tm_storeBuffer := rest\<rparr>) s;
          (crash, s2) \<leftarrow> evictOpFromStoreBuffer t cur s1;
          if crash then Some (False, s2)
          else empty_writes_loop n t (updateStoreBuffer (-1) s2)
        })
   }"

definition emptyWrites :: "tid \<Rightarrow> addr \<Rightarrow> checker \<Rightarrow> (bool \<times> checker) option" where
  "emptyWrites t address s = do {
     tm \<leftarrow> thread_memory_of s t;
     (case last_index (\<lambda>a. is_write (act s a) \<and> covers_byte (act s a) address) (tm_storeBuffer tm) of
        None \<Rightarrow> Some (False, s)
      | Some i \<Rightarrow> empty_writes_loop (Suc i) t s)
   }"

definition hasPendingFlushes :: "thread_memory \<Rightarrow> bool" where
  "hasPendingFlushes tm \<longleftrightarrow> tm_flushcount tm \<noteq> 0"

definition freeActions :: "tid \<Rightarrow> checker \<Rightarrow> checker option" where
  "freeActions t s = do {
     tm \<leftarrow> thread_memory_of s t;
     let s1 = updateStoreBuffer (- of_nat (length (tm_storeBuffer tm))) s;
     upd_memory t (\<lambda>tm. tm\<lparr>tm_storeBuffer := [], tm_flushBuffer := [], tm_flushcount := 0\<rparr>) s1
   }"

section \<open>Entering the store buffer\<close>

definition addCacheOp :: "tid \<Rightarrow> aid \<Rightarrow> checker \<Rightarrow> checker option" where
  "addCacheOp t a s = do {
     tm \<leftarrow> thread_memory_of s t;
     let cid = getCacheID (act_location (act s a));
     let lastWrite = tm_obj_to_last_write tm cid;
     let s1 = upd_act a (\<lambda>m. setLastWrites m (get_curr_seq_num s) lastWrite) s;
     s2 \<leftarrow> upd_memory t (\<lambda>tm. tm\<lparr>tm_storeBuffer := tm_storeBuffer tm @ [a],
             tm_obj_to_last_write := (if is_clflush (act s a)
               then (tm_obj_to_last_write tm)(cid := Some a) else tm_obj_to_last_write tm),
             tm_flushcount := tm_flushcount tm + 1\<rparr>) s1;
     Some (updateStoreBuffer 1 s2)
   }"

definition addOp :: "tid \<Rightarrow> aid \<Rightarrow> checker \<Rightarrow> checker option" where
  "addOp t a s = do {
     s1 \<leftarrow> upd_memory t (\<lambda>tm. tm\<lparr>tm_storeBuffer := tm_storeBuffer tm @ [a]\<rparr>) s;
     Some (updateStoreBuffer 1 s1)
   }"

definition addWrite :: "tid \<Rightarrow> aid \<Rightarrow> checker \<Rightarrow> checker option" where
  "addWrite t w s = do {
     s1 \<leftarrow> upd_memory t (\<lambda>tm. tm\<lparr>tm_storeBuffer := tm_storeBuffer tm @ [w],
             tm_obj_to_last_write :=
               (tm_obj_to_last_write tm)(getCacheID (act_location (act s w)) := Some w)\<rparr>) s;
     Some (updateStoreBuffer 1 s1)
   }"

end
