(* ===== verification/Store_Lemmas.thy ===== *)
theory Store_Lemmas
  imports Store_Buffer "HOL-Library.Sublist"
begin

text \<open>
  What the store-buffer operations change and what they leave alone: numbering, buffers,
  cache lines and the lists of writes.
\<close>

section \<open>Projections of the elementary updates\<close>

text \<open>The current execution exists, and so does the action worked on.\<close>

definition valid :: "checker \<Rightarrow> bool" where
  "valid s \<longleftrightarrow> ck_cur s < length (ck_execs s)"

definition used :: "checker \<Rightarrow> modelclock" where
  "used s = ex_used_sequence_numbers (cur_exec s)"

lemma acts_frame [frame_simps]:
  "ck_acts (upd_exec e f s) = ck_acts s" "ck_acts (upd_cur f s) = ck_acts s"
  "ck_acts (emit ev s) = ck_acts s" "ck_acts (put_thread t th s) = ck_acts s"
  "ck_acts (upd_sched g s) = ck_acts s" "ck_acts (addAction e a s) = ck_acts s"
  "ck_acts (updateStoreBuffer d s) = ck_acts s" "ck_acts (put_cache_line e l cl s) = ck_acts s"
  "ck_acts (remove_sleep t s) = ck_acts s" "ck_acts (add_sleep t s) = ck_acts s"
  by (simp_all add: upd_exec_def upd_cur_def emit_def put_thread_def upd_sched_def addAction_def
      updateStoreBuffer_def put_cache_line_def remove_sleep_def add_sleep_def)

lemma act_frame [frame_simps]:
  "act (upd_exec e f s) = act s" "act (upd_cur f s) = act s" "act (emit ev s) = act s"
  "act (put_thread t th s) = act s" "act (upd_sched g s) = act s" "act (addAction e a s) = act s"
  "act (updateStoreBuffer d s) = act s" "act (put_cache_line e l cl s) = act s"
  "act (remove_sleep t s) = act s" "act (add_sleep t s) = act s"
  by (simp_all add: act_def fun_eq_iff acts_frame)

lemma cur_frame [frame_simps]:
  "ck_cur (upd_exec e f s) = ck_cur s" "ck_cur (upd_cur f s) = ck_cur s"
  "ck_cur (emit ev s) = ck_cur s" "ck_cur (put_thread t th s) = ck_cur s"
  "ck_cur (upd_sched g s) = ck_cur s" "ck_cur (addAction e a s) = ck_cur s"
  "ck_cur (updateStoreBuffer d s) = ck_cur s" "ck_cur (put_cache_line e l cl s) = ck_cur s"
  "ck_cur (remove_sleep t s) = ck_cur s" "ck_cur (add_sleep t s) = ck_cur s"
  "ck_cur (upd_act a g' s) = ck_cur s"
  by (simp_all add: upd_exec_def upd_cur_def emit_def put_thread_def upd_sched_def addAction_def
      updateStoreBuffer_def put_cache_line_def remove_sleep_def add_sleep_def upd_act_def)

lemma execs_frame [frame_simps]:
  "length (ck_execs (upd_exec e f s)) = length (ck_execs s)"
  "length (ck_execs (upd_cur f s)) = length (ck_execs s)"
  "ck_execs (emit ev s) = ck_execs s" "length (ck_execs (put_thread t th s)) = length (ck_execs s)"
  "ck_execs (upd_sched g s) = ck_execs s" "length (ck_execs (addAction e a s)) = length (ck_execs s)"
  "length (ck_execs (updateStoreBuffer d s)) = length (ck_execs s)"
  "length (ck_execs (put_cache_line e l cl s)) = length (ck_execs s)"
  "ck_execs (remove_sleep t s) = ck_execs s" "ck_execs (add_sleep t s) = ck_execs s"
  "ck_execs (upd_act a g' s) = ck_execs s"
  by (simp_all add: upd_exec_def upd_cur_def emit_def put_thread_def upd_sched_def addAction_def
      updateStoreBuffer_def put_cache_line_def remove_sleep_def add_sleep_def upd_act_def)

lemma valid_frame [frame_simps]:
  "valid (upd_exec e f s) = valid s" "valid (upd_cur f s) = valid s" "valid (emit ev s) = valid s"
  "valid (put_thread t th s) = valid s" "valid (upd_sched g s) = valid s"
  "valid (addAction e a s) = valid s" "valid (updateStoreBuffer d s) = valid s"
  "valid (put_cache_line e l cl s) = valid s" "valid (remove_sleep t s) = valid s"
  "valid (add_sleep t s) = valid s" "valid (upd_act a g' s) = valid s"
  by (simp_all add: valid_def frame_simps)

lemma act_upd_act: "a < length (ck_acts s) \<Longrightarrow> act (upd_act a f s) b = (if b = a then f (act s a) else act s b)"
  by (auto simp: act_def upd_act_def)

lemma length_acts_upd_act [frame_simps]: "length (ck_acts (upd_act a f s)) = length (ck_acts s)"
  by (simp add: upd_act_def)

lemma exec_of_upd_exec: "e < length (ck_execs s) \<Longrightarrow>
    exec_of (upd_exec e f s) e' = (if e' = e then f (exec_of s e) else exec_of s e')"
  by (auto simp: exec_of_def upd_exec_def)

lemma exec_of_frame [frame_simps]:
  "exec_of (emit ev s) = exec_of s" "exec_of (upd_sched g s) = exec_of s"
  "exec_of (remove_sleep t s) = exec_of s" "exec_of (add_sleep t s) = exec_of s"
  "exec_of (upd_act a g' s) = exec_of s"
  by (simp_all add: exec_of_def fun_eq_iff frame_simps)

lemma cur_exec_frame [frame_simps]:
  "cur_exec (emit ev s) = cur_exec s" "cur_exec (upd_sched g s) = cur_exec s"
  "cur_exec (remove_sleep t s) = cur_exec s" "cur_exec (add_sleep t s) = cur_exec s"
  "cur_exec (upd_act a g' s) = cur_exec s"
  by (simp_all add: cur_exec_def frame_simps)

lemma cur_exec_upd_cur [frame_simps]: "valid s \<Longrightarrow> cur_exec (upd_cur f s) = f (cur_exec s)"
  by (simp add: cur_exec_def upd_cur_def exec_of_upd_exec valid_def frame_simps)

lemma cur_exec_upd_exec [frame_simps]: "valid s \<Longrightarrow> cur_exec (upd_exec (ck_cur s) f s) = f (cur_exec s)"
  by (simp add: cur_exec_def exec_of_upd_exec valid_def frame_simps)

lemma get_thread_frame [frame_simps]:
  "get_thread (emit ev s) = get_thread s" "get_thread (upd_sched g s) = get_thread s"
  "get_thread (remove_sleep t s) = get_thread s" "get_thread (add_sleep t s) = get_thread s"
  "get_thread (upd_act a g' s) = get_thread s"
  by (simp_all add: get_thread_def fun_eq_iff frame_simps)

lemma get_thread_upd_cur:
  "valid s \<Longrightarrow> ex_thread_map (f (cur_exec s)) = ex_thread_map (cur_exec s) \<Longrightarrow>
   get_thread (upd_cur f s) = get_thread s"
  by (simp add: get_thread_def fun_eq_iff frame_simps)

lemma get_thread_put [frame_simps]:
  "valid s \<Longrightarrow> get_thread s t \<noteq> None \<Longrightarrow>
   get_thread (put_thread t th s) u = (if u = t then Some th else get_thread s u)"
  by (auto simp: get_thread_def put_thread_def frame_simps split: if_splits)

section \<open>The part of the state the sleepers do not touch\<close>

text \<open>
  Waking a sleeper only changes the scheduler, the wake-up flags and the position in the
  clock; everything else is kept.
\<close>

definition quiet :: "checker \<Rightarrow> checker \<Rightarrow> bool" where
  "quiet s s' \<longleftrightarrow> ck_acts s' = ck_acts s \<and> ck_cur s' = ck_cur s \<and>
     length (ck_execs s') = length (ck_execs s) \<and>
     (\<forall>e. e \<noteq> ck_cur s \<longrightarrow> exec_of s' e = exec_of s e) \<and>
     (\<forall>t. thread_memory_of s' t = thread_memory_of s t) \<and>
     (\<forall>tm. (cur_exec s')\<lparr>ex_thread_map := tm\<rparr> = (cur_exec s)\<lparr>ex_thread_map := tm\<rparr>) \<and>
     ck_nodestack s' = ck_nodestack s \<and> ck_params s' = ck_params s \<and> ck_mem s' = ck_mem s \<and>
     ck_numcrashes s' = ck_numcrashes s \<and> ck_races s' = ck_races s \<and> ck_events s' = ck_events s"

lemma quiet_refl [simp, intro]: "quiet s s"
  by (simp add: quiet_def)

lemma quiet_trans: "quiet a b \<Longrightarrow> quiet b c \<Longrightarrow> quiet a c"
  by (simp add: quiet_def)

lemma quiet_sched [intro]: "quiet s (upd_sched f s)" "quiet s (remove_sleep t s)"
  by (auto simp: quiet_def frame_simps thread_memory_of_def)
     (simp_all add: upd_sched_def remove_sleep_def)

lemma quiet_clock [intro]: "quiet s (s\<lparr>ck_clock_pos := n\<rparr>)"
  by (simp add: quiet_def thread_memory_of_def get_thread_def cur_exec_def exec_of_def)

lemma quiet_put_thread:
  assumes "valid s" "get_thread s t = Some th" "th_memory th' = th_memory th"
  shows "quiet s (put_thread t th' s)"
proof -
  have "thread_memory_of (put_thread t th' s) u = thread_memory_of s u" for u
    using assms by (simp add: thread_memory_of_def frame_simps)
  moreover have "(cur_exec (put_thread t th' s))\<lparr>ex_thread_map := tm\<rparr> = (cur_exec s)\<lparr>ex_thread_map := tm\<rparr>"
    for tm
    using assms(1) by (simp add: put_thread_def frame_simps)
  moreover have "exec_of (put_thread t th' s) e = exec_of s e" if "e \<noteq> ck_cur s" for e
    using assms(1) that by (simp add: put_thread_def upd_cur_def exec_of_upd_exec valid_def)
  ultimately show ?thesis
    by (simp add: quiet_def frame_simps)
       (simp add: put_thread_def upd_cur_def upd_exec_def)
qed

lemma quiet_valid: "quiet s s' \<Longrightarrow> valid s' = valid s"
  by (simp add: quiet_def valid_def)

lemma quiet_fields:
  assumes "quiet s s'"
  shows "act s' = act s" "used s' = used s" "ex_obj_wr_map (cur_exec s') = ex_obj_wr_map (cur_exec s)"
    "ex_obj_to_cacheline (cur_exec s') = ex_obj_to_cacheline (cur_exec s)"
    "ex_action_trace (cur_exec s') = ex_action_trace (cur_exec s)"
    "ex_next_thread_id (cur_exec s') = ex_next_thread_id (cur_exec s)"
    "ex_noWriteSinceCrashCheck (cur_exec s') = ex_noWriteSinceCrashCheck (cur_exec s)"
    "ex_hasCrashed (cur_exec s') = ex_hasCrashed (cur_exec s)"
    "ex_storebufferusage (cur_exec s') = ex_storebufferusage (cur_exec s)"
    "ex_thrd_last_action (cur_exec s') = ex_thrd_last_action (cur_exec s)"
proof -
  have x: "(cur_exec s')\<lparr>ex_thread_map := []\<rparr> = (cur_exec s)\<lparr>ex_thread_map := []\<rparr>"
    using assms by (simp add: quiet_def)
  show "act s' = act s" using assms by (simp add: quiet_def act_def fun_eq_iff)
  show "used s' = used s" "ex_obj_wr_map (cur_exec s') = ex_obj_wr_map (cur_exec s)"
    "ex_obj_to_cacheline (cur_exec s') = ex_obj_to_cacheline (cur_exec s)"
    "ex_action_trace (cur_exec s') = ex_action_trace (cur_exec s)"
    "ex_next_thread_id (cur_exec s') = ex_next_thread_id (cur_exec s)"
    "ex_noWriteSinceCrashCheck (cur_exec s') = ex_noWriteSinceCrashCheck (cur_exec s)"
    "ex_hasCrashed (cur_exec s') = ex_hasCrashed (cur_exec s)"
    "ex_storebufferusage (cur_exec s') = ex_storebufferusage (cur_exec s)"
    "ex_thrd_last_action (cur_exec s') = ex_thrd_last_action (cur_exec s)"
    using x by (cases "cur_exec s"; cases "cur_exec s'"; simp add: used_def)+
qed

lemma should_wake_up_quiet:
  "should_wake_up c th s = Some (w, s') \<Longrightarrow> quiet s s'"
  by (auto simp: should_wake_up_def shouldWake_def Let_def split: if_splits option.splits)

lemma wake_up_loop_quiet:
  "wake_up_loop c is s = Some s' \<Longrightarrow> valid s \<Longrightarrow> quiet s s'"
proof (induction "is" arbitrary: s)
  case Nil
  then show ?case by simp
next
  case (Cons i "is")
  from Cons.prems(1) obtain thr e where th: "get_thread s i = Some thr"
    and e: "get_enabled (ck_sched s) i = Some e"
    by (auto simp: bind_eq_Some_conv)
  show ?case
  proof (cases "e = THREAD_SLEEP_SET")
    case False
    with Cons th e show ?thesis by auto
  next
    case True
    with Cons.prems th e obtain w s1 where s1: "should_wake_up (act s c) thr s = Some (w, s1)"
      by (auto simp: bind_eq_Some_conv)
    have q1: "quiet s s1" using s1 by (rule should_wake_up_quiet)
    have v1: "valid s1" using q1 Cons.prems(2) by (simp add: quiet_valid)
    show ?thesis
    proof (cases w)
      case False
      with Cons.prems True th e s1 have "wake_up_loop c is s1 = Some s'" by simp
      with Cons.IH v1 q1 quiet_trans show ?thesis by blast
    next
      case w: True
      let ?s2 = "remove_sleep i s1"
      from Cons.prems True th e s1 w obtain p where p: "th_pending thr = Some p"
        by (auto simp: bind_eq_Some_conv Let_def)
      define s3 where "s3 = (if is_sleep (act ?s2 p) then put_thread i (thr\<lparr>th_wakeup_state := True\<rparr>) ?s2
        else ?s2)"
      have rest: "wake_up_loop c is s3 = Some s'"
        using Cons.prems True th e s1 w p by (simp add: s3_def Let_def)
      have q2: "quiet s ?s2" using q1 quiet_sched(2) quiet_trans by blast
      have same: "get_thread s1 i = Some thr"
        using s1 th by (auto simp: should_wake_up_def shouldWake_def get_thread_def cur_exec_def
            exec_of_def Let_def split: if_splits option.splits)
      have "quiet ?s2 s3"
        unfolding s3_def using same v1
        by (auto intro!: quiet_put_thread simp: frame_simps)
      with q2 have q3: "quiet s s3" using quiet_trans by blast
      then have "valid s3" using Cons.prems(2) by (simp add: quiet_valid)
      with Cons.IH rest q3 quiet_trans show ?thesis by blast
    qed
  qed
qed

lemma wake_up_quiet: "wake_up_sleeping_actions c s = Some s' \<Longrightarrow> valid s \<Longrightarrow> quiet s s'"
  unfolding wake_up_sleeping_actions_def by (rule wake_up_loop_quiet)

section \<open>Numbering an evicted operation\<close>

definition stamped :: "modelclock \<Rightarrow> model_action \<Rightarrow> model_action" where
  "stamped n m = m\<lparr>act_seq := n, act_cv := map_option (\<lambda>cv. cv_setClock cv (act_tid m) n) (act_cv m)\<rparr>"

lemma stamped_fields [simp]:
  "act_seq (stamped n m) = n" "act_location (stamped n m) = act_location m"
  "act_type (stamped n m) = act_type m" "act_size (stamped n m) = act_size m"
  "act_value (stamped n m) = act_value m" "act_tid (stamped n m) = act_tid m"
  "act_lastwrite (stamped n m) = act_lastwrite m" "act_time (stamped n m) = act_time m"
  "act_order (stamped n m) = act_order m"
  by (simp_all add: stamped_def)

lemma stamped_kinds [simp]:
  "is_write (stamped n m) = is_write m" "is_cache_op (stamped n m) = is_cache_op m"
  "is_clflush (stamped n m) = is_clflush m" "is_sfence (stamped n m) = is_sfence m"
  "get_last_clflush (stamped n m) = get_last_clflush m" "get_last_write (stamped n m) = get_last_write m"
  "get_seq_number (stamped n m) = n"
  by (simp_all add: kind_defs get_last_clflush_def get_last_write_def get_seq_number_def)

text \<open>Everything but the number, the trace, the last actions and the sleepers is kept.\<close>

definition keeps :: "checker \<Rightarrow> checker \<Rightarrow> bool" where
  "keeps s s' \<longleftrightarrow> ck_cur s' = ck_cur s \<and> length (ck_execs s') = length (ck_execs s) \<and>
     length (ck_acts s') = length (ck_acts s) \<and>
     (\<forall>e. e \<noteq> ck_cur s \<longrightarrow> exec_of s' e = exec_of s e) \<and>
     (\<forall>t. thread_memory_of s' t = thread_memory_of s t) \<and>
     ex_obj_wr_map (cur_exec s') = ex_obj_wr_map (cur_exec s) \<and>
     ex_obj_to_cacheline (cur_exec s') = ex_obj_to_cacheline (cur_exec s) \<and>
     ex_storebufferusage (cur_exec s') = ex_storebufferusage (cur_exec s) \<and>
     ex_hasCrashed (cur_exec s') = ex_hasCrashed (cur_exec s) \<and>
     ex_next_thread_id (cur_exec s') = ex_next_thread_id (cur_exec s) \<and>
     ck_params s' = ck_params s \<and> ck_mem s' = ck_mem s \<and> ck_numcrashes s' = ck_numcrashes s"

lemma keeps_refl [simp, intro]: "keeps s s" by (simp add: keeps_def)

lemma keeps_trans: "keeps a b \<Longrightarrow> keeps b c \<Longrightarrow> keeps a c"
  by (simp add: keeps_def)

lemma keeps_valid: "keeps s s' \<Longrightarrow> valid s' = valid s"
  by (simp add: keeps_def valid_def)

lemma quiet_keeps: "quiet s s' \<Longrightarrow> keeps s s'"
  using quiet_fields [of s s'] by (simp add: keeps_def quiet_def)

lemma thread_memory_upd_cur:
  "valid s \<Longrightarrow> ex_thread_map (f (cur_exec s)) = ex_thread_map (cur_exec s) \<Longrightarrow>
   thread_memory_of (upd_cur f s) t = thread_memory_of s t"
  by (simp add: thread_memory_of_def get_thread_upd_cur)

lemma exec_of_upd_cur: "valid s \<Longrightarrow> e \<noteq> ck_cur s \<Longrightarrow> exec_of (upd_cur f s) e = exec_of s e"
  by (simp add: upd_cur_def exec_of_upd_exec valid_def)

lemma misc_upd_cur [frame_simps]:
  "ck_params (upd_cur f s) = ck_params s" "ck_mem (upd_cur f s) = ck_mem s"
  "ck_numcrashes (upd_cur f s) = ck_numcrashes s" "ck_params (upd_act a g s) = ck_params s"
  "ck_mem (upd_act a g s) = ck_mem s" "ck_numcrashes (upd_act a g s) = ck_numcrashes s"
  "ck_nodestack (upd_cur f s) = ck_nodestack s" "ck_events (upd_cur f s) = ck_events s"
  "ck_nodestack (upd_act a g s) = ck_nodestack s" "ck_events (upd_act a g s) = ck_events s"
  "ck_params (emit ev s) = ck_params s" "ck_mem (emit ev s) = ck_mem s"
  "ck_numcrashes (emit ev s) = ck_numcrashes s" "ck_nodestack (emit ev s) = ck_nodestack s"
  by (simp_all add: upd_cur_def upd_exec_def upd_act_def emit_def)

lemma thread_memory_upd_act [frame_simps]: "thread_memory_of (upd_act a g s) t = thread_memory_of s t"
  by (simp add: thread_memory_of_def frame_simps)

lemma thread_memory_emit [frame_simps]: "thread_memory_of (emit ev s) t = thread_memory_of s t"
  by (simp add: thread_memory_of_def frame_simps)

lemma keeps_upd_cur:
  assumes "valid s" "ex_thread_map (f (cur_exec s)) = ex_thread_map (cur_exec s)"
    "ex_obj_wr_map (f (cur_exec s)) = ex_obj_wr_map (cur_exec s)"
    "ex_obj_to_cacheline (f (cur_exec s)) = ex_obj_to_cacheline (cur_exec s)"
    "ex_storebufferusage (f (cur_exec s)) = ex_storebufferusage (cur_exec s)"
    "ex_hasCrashed (f (cur_exec s)) = ex_hasCrashed (cur_exec s)"
    "ex_next_thread_id (f (cur_exec s)) = ex_next_thread_id (cur_exec s)"
  shows "keeps s (upd_cur f s)"
  using assms by (simp add: keeps_def frame_simps thread_memory_upd_cur exec_of_upd_cur)

lemma keeps_upd_act [intro]: "keeps s (upd_act a g s)"
  by (simp add: keeps_def frame_simps)

lemma keeps_emit [intro]: "keeps s (emit ev s)"
  by (simp add: keeps_def frame_simps)

lemma initialize_spec:
  assumes "initialize_curr_action a s = Some s'" "valid s" "a < length (ck_acts s)"
  shows "keeps s s' \<and> used s' = used s + 1 \<and> act_seq (act s a) = 0 \<and>
    (\<forall>b. act s' b = (if b = a then stamped (used s + 1) (act s a) else act s b)) \<and>
    ck_nodestack s' = ck_nodestack s \<and> ck_events s' = ck_events s \<and>
    ex_thrd_last_action (cur_exec s') = ex_thrd_last_action (cur_exec s)"
proof -
  let ?n = "used s + 1"
  define s1 where "s1 = upd_cur (\<lambda>x. x\<lparr>ex_used_sequence_numbers := ?n\<rparr>) s"
  have g: "get_next_seq_num s = (?n, s1)"
    by (simp add: get_next_seq_num_def Let_def s1_def used_def)
  have a1: "act s1 = act s" "ck_acts s1 = ck_acts s" by (simp_all add: s1_def frame_simps)
  have v1: "valid s1" using assms(2) by (simp add: s1_def frame_simps)
  from assms(1) have seq: "act_seq (act s a) = 0"
    and s': "s' = addAction (ck_cur s1) a (upd_act a (\<lambda>_. stamped ?n (act s a)) s1)"
    by (auto simp: initialize_curr_action_def g set_seq_number_def stamped_def a1 ACTION_INITIAL_CLOCK_def
        split: if_splits)
  define s2 where "s2 = upd_act a (\<lambda>_. stamped ?n (act s a)) s1"
  have "keeps s s1" using assms(2) unfolding s1_def by (intro keeps_upd_cur) auto
  moreover have "keeps s1 s2" unfolding s2_def by blast
  moreover have v2: "valid s2" using v1 by (simp add: s2_def frame_simps)
  have add: "addAction (ck_cur s1) a s2 = upd_cur (\<lambda>x. x\<lparr>ex_action_trace :=
      insert_trace (\<lambda>b. get_seq_number (act s2 b)) a (ex_action_trace x)\<rparr>) s2"
    by (simp add: addAction_def upd_cur_def s2_def frame_simps)
  moreover have "keeps s2 s'" unfolding s' s2_def [symmetric] add using v2 by (intro keeps_upd_cur) auto
  ultimately have "keeps s s'" using keeps_trans by blast
  moreover have "used s' = ?n" unfolding s' s2_def [symmetric] add using v2 v1 assms(2)
    by (simp add: used_def frame_simps s2_def s1_def)
  moreover have "act s' b = (if b = a then stamped ?n (act s a) else act s b)" for b
    unfolding s' using assms(3) by (simp add: frame_simps act_upd_act a1)
  moreover have "ck_nodestack s' = ck_nodestack s" "ck_events s' = ck_events s"
    unfolding s' s2_def [symmetric] add by (simp_all add: frame_simps s2_def s1_def)
  moreover have "ex_thrd_last_action (cur_exec s') = ex_thrd_last_action (cur_exec s)"
    unfolding s' s2_def [symmetric] add using v2 v1 assms(2) by (simp add: frame_simps s2_def s1_def)
  ultimately show ?thesis using seq by simp
qed

lemma update_local_spec:
  assumes "update_thread_local_data a s = Some s'" "valid s"
  shows "keeps s s' \<and> used s' = used s \<and> ck_acts s' = ck_acts s \<and> ck_nodestack s' = ck_nodestack s \<and>
    ck_events s' = ck_events s \<and>
    act_tid (act s a) < length (ex_thrd_last_action (cur_exec s')) \<and>
    ex_thrd_last_action (cur_exec s') ! act_tid (act s a) = Some a"
proof -
  from assms(1) obtain x2 where x2: "set_last_action (act_tid (act s a)) a
      (if is_unlock (act s a)
       then (cur_exec s)\<lparr>ex_obj_map := push_list (act_location (act s a)) a (ex_obj_map (cur_exec s))\<rparr>
       else cur_exec s) = Some x2"
    and s': "s' = upd_cur (\<lambda>_. if is_wait (act s a)
      then x2\<lparr>ex_obj_map := push_list (act_value (act s a)) a (ex_obj_map x2)\<rparr> else x2) s"
    by (auto simp: update_thread_local_data_def Let_def bind_eq_Some_conv)
  have f: "ex_thread_map x2 = ex_thread_map (cur_exec s)" "ex_obj_wr_map x2 = ex_obj_wr_map (cur_exec s)"
    "ex_obj_to_cacheline x2 = ex_obj_to_cacheline (cur_exec s)"
    "ex_storebufferusage x2 = ex_storebufferusage (cur_exec s)"
    "ex_hasCrashed x2 = ex_hasCrashed (cur_exec s)" "ex_next_thread_id x2 = ex_next_thread_id (cur_exec s)"
    "ex_used_sequence_numbers x2 = ex_used_sequence_numbers (cur_exec s)"
    "act_tid (act s a) < length (ex_thrd_last_action x2)"
    "ex_thrd_last_action x2 ! act_tid (act s a) = Some a"
    using x2 by (auto simp: set_last_action_def Let_def split: if_splits)
  have "keeps s s'" unfolding s' using assms(2) f by (intro keeps_upd_cur) auto
  moreover have "used s' = used s" "ck_acts s' = ck_acts s" "ck_nodestack s' = ck_nodestack s"
    "ck_events s' = ck_events s"
    "act_tid (act s a) < length (ex_thrd_last_action (cur_exec s'))"
    "ex_thrd_last_action (cur_exec s') ! act_tid (act s a) = Some a"
    unfolding s' using assms(2) f by (simp_all add: used_def frame_simps)
  ultimately show ?thesis by simp
qed

text \<open>The combined effect of making an operation visible.\<close>

definition stamps :: "aid \<Rightarrow> checker \<Rightarrow> checker \<Rightarrow> bool" where
  "stamps a s s' \<longleftrightarrow> keeps s s' \<and> used s' = used s + 1 \<and> act_seq (act s a) = 0 \<and>
     (\<forall>b. act s' b = (if b = a then stamped (used s + 1) (act s a) else act s b)) \<and>
     ck_nodestack s' = ck_nodestack s \<and> ck_events s' = ck_events s"

lemma remove_action_stamps:
  assumes "remove_action_from_store_buffer a s = Some s'" "valid s" "a < length (ck_acts s)"
  shows "stamps a s s'"
proof -
  from assms(1) obtain s1 s2 where s1: "initialize_curr_action a s = Some s1"
    and s2: "update_thread_local_data a s1 = Some s2" and s': "wake_up_sleeping_actions a s2 = Some s'"
    by (auto simp: remove_action_from_store_buffer_def bind_eq_Some_conv split: if_splits)
  note i = initialize_spec [OF s1 assms(2,3)]
  have v1: "valid s1" using i assms(2) keeps_valid by blast
  note u = update_local_spec [OF s2 v1]
  have v2: "valid s2" using u v1 keeps_valid by blast
  note q = wake_up_quiet [OF s' v2]
  have "act s' = act s1" using u quiet_fields(1) [OF q] by (simp add: act_def fun_eq_iff)
  then show ?thesis
    using i u quiet_keeps [OF q] quiet_fields(2) [OF q] q keeps_trans
    unfolding stamps_def quiet_def by metis
qed

section \<open>Changing a thread's buffers\<close>

text \<open>\<open>core\<close> is \<open>keeps\<close> without the buffers of the threads and the use counter.\<close>

definition core :: "checker \<Rightarrow> checker \<Rightarrow> bool" where
  "core s s' \<longleftrightarrow> ck_cur s' = ck_cur s \<and> length (ck_execs s') = length (ck_execs s) \<and>
     length (ck_acts s') = length (ck_acts s) \<and>
     (\<forall>e. e \<noteq> ck_cur s \<longrightarrow> exec_of s' e = exec_of s e) \<and>
     ex_hasCrashed (cur_exec s') = ex_hasCrashed (cur_exec s) \<and>
     ex_next_thread_id (cur_exec s') = ex_next_thread_id (cur_exec s) \<and>
     ck_params s' = ck_params s \<and> ck_mem s' = ck_mem s \<and> ck_numcrashes s' = ck_numcrashes s"

lemma core_refl [simp, intro]: "core s s" by (simp add: core_def)

lemma core_trans: "core a b \<Longrightarrow> core b c \<Longrightarrow> core a c" by (simp add: core_def)

lemma keeps_core: "keeps s s' \<Longrightarrow> core s s'" by (simp add: keeps_def core_def)

lemma core_valid: "core s s' \<Longrightarrow> valid s' = valid s" by (simp add: core_def valid_def)

lemma core_upd_cur:
  assumes "valid s" "ex_hasCrashed (f (cur_exec s)) = ex_hasCrashed (cur_exec s)"
    "ex_next_thread_id (f (cur_exec s)) = ex_next_thread_id (cur_exec s)"
  shows "core s (upd_cur f s)"
  using assms by (simp add: core_def frame_simps exec_of_upd_cur)

lemma upd_memory_spec:
  assumes "upd_memory t f s = Some s'" "valid s"
  shows "core s s' \<and> ck_acts s' = ck_acts s \<and> used s' = used s \<and>
    thread_memory_of s t \<noteq> None \<and>
    (\<forall>u. thread_memory_of s' u = (if u = t then map_option f (thread_memory_of s t) else thread_memory_of s u)) \<and>
    ex_obj_wr_map (cur_exec s') = ex_obj_wr_map (cur_exec s) \<and>
    ex_obj_to_cacheline (cur_exec s') = ex_obj_to_cacheline (cur_exec s) \<and>
    ex_storebufferusage (cur_exec s') = ex_storebufferusage (cur_exec s) \<and>
    ck_nodestack s' = ck_nodestack s \<and> ck_events s' = ck_events s"
proof -
  from assms(1) obtain th where th: "get_thread s t = Some th"
    and s': "s' = put_thread t (th\<lparr>th_memory := f (th_memory th)\<rparr>) s"
    by (auto simp: upd_memory_def upd_thread_def bind_eq_Some_conv)
  have "core s s'" unfolding s' put_thread_def using assms(2) by (intro core_upd_cur) auto
  moreover have "thread_memory_of s' u = (if u = t then map_option f (thread_memory_of s t)
      else thread_memory_of s u)" for u
    using th assms(2) by (simp add: s' thread_memory_of_def frame_simps)
  ultimately show ?thesis using th assms(2)
    by (simp add: s' frame_simps used_def thread_memory_of_def)
       (simp add: put_thread_def frame_simps)
qed

lemma updateStoreBuffer_spec:
  assumes "valid s"
  shows "core s (updateStoreBuffer d s)" "used (updateStoreBuffer d s) = used s"
    "thread_memory_of (updateStoreBuffer d s) t = thread_memory_of s t"
    "ex_obj_wr_map (cur_exec (updateStoreBuffer d s)) = ex_obj_wr_map (cur_exec s)"
    "ex_obj_to_cacheline (cur_exec (updateStoreBuffer d s)) = ex_obj_to_cacheline (cur_exec s)"
    "ex_storebufferusage (cur_exec (updateStoreBuffer d s)) = ex_storebufferusage (cur_exec s) + d"
  unfolding updateStoreBuffer_def using assms
  by (auto simp: core_upd_cur thread_memory_upd_cur used_def frame_simps)

section \<open>Crash decisions\<close>

lemma explore_spec:
  "explore n s = Some (k, s') \<Longrightarrow> \<exists>ns. s' = s\<lparr>ck_nodestack := ns\<rparr>"
  by (auto simp: explore_def bind_eq_Some_conv)

lemma node_choice_spec: "node_choice n s = (c, s') \<Longrightarrow> \<exists>p. s' = s\<lparr>ck_random_pos := p\<rparr>"
  by (auto simp: node_choice_def next_random_def Let_def split: if_splits intro: exI [of _ "ck_random_pos s"])

lemma nodestack_frame [frame_simps]:
  "cur_exec (s\<lparr>ck_nodestack := ns\<rparr>) = cur_exec s" "cur_exec (s\<lparr>ck_random_pos := p\<rparr>) = cur_exec s"
  "act (s\<lparr>ck_nodestack := ns\<rparr>) = act s" "act (s\<lparr>ck_random_pos := p\<rparr>) = act s"
  "exec_of (s\<lparr>ck_nodestack := ns\<rparr>) = exec_of s" "exec_of (s\<lparr>ck_random_pos := p\<rparr>) = exec_of s"
  "get_thread (s\<lparr>ck_nodestack := ns\<rparr>) = get_thread s" "get_thread (s\<lparr>ck_random_pos := p\<rparr>) = get_thread s"
  "valid (s\<lparr>ck_nodestack := ns\<rparr>) = valid s" "valid (s\<lparr>ck_random_pos := p\<rparr>) = valid s"
  by (simp_all add: cur_exec_def exec_of_def act_def fun_eq_iff get_thread_def valid_def)

lemma keeps_nodestack [intro]: "keeps s (s\<lparr>ck_nodestack := ns\<rparr>)" "keeps s (s\<lparr>ck_random_pos := p\<rparr>)"
  by (simp_all add: keeps_def thread_memory_of_def frame_simps)

text \<open>
  A decision not to crash changes the decision stack only; a decision to crash sets the
  crash flag and nothing else besides.
\<close>

lemma shouldInsertCrash_spec:
  assumes "shouldInsertCrash s = Some (b, s')" "valid s"
  shows "ck_acts s' = ck_acts s \<and> used s' = used s \<and> ck_events s' = ck_events s \<and>
    (\<not> b \<longrightarrow> keeps s s') \<and> (b \<longrightarrow> ex_hasCrashed (cur_exec s')) \<and>
    (\<forall>t. thread_memory_of s' t = thread_memory_of s t) \<and>
    ex_obj_wr_map (cur_exec s') = ex_obj_wr_map (cur_exec s) \<and>
    ex_obj_to_cacheline (cur_exec s') = ex_obj_to_cacheline (cur_exec s) \<and>
    ex_action_trace (cur_exec s') = ex_action_trace (cur_exec s) \<and> ck_cur s' = ck_cur s \<and>
    ex_storebufferusage (cur_exec s') = ex_storebufferusage (cur_exec s) \<and> valid s'"
proof (cases "crash_excluded s")
  case True
  with assms show ?thesis by (simp add: shouldInsertCrash_def)
next
  case False
  from assms(1) False obtain node s1 where e: "explore 2 s = Some (node, s1)"
    by (auto simp: shouldInsertCrash_def bind_eq_Some_conv)
  define rc where "rc = (isRandomExecutionEnabled s1 \<and> get_curr_seq_num s1 > ck_nextCrashPoint s1)"
  define s2 where "s2 = (if rc then s1\<lparr>ck_nodestack := set_Last_backtrack (ck_nodestack s1) node\<rparr> else s1)"
  obtain c s3 where c: "node_choice node s2 = (c, s3)" by force
  obtain ns where ns: "s1 = s\<lparr>ck_nodestack := ns\<rparr>" using explore_spec [OF e] by blast
  obtain p where p: "s3 = s2\<lparr>ck_random_pos := p\<rparr>" using node_choice_spec [OF c] by blast
  obtain ns' where s2: "s2 = s\<lparr>ck_nodestack := ns'\<rparr>" unfolding s2_def ns by (cases rc) auto
  have s3: "s3 = s\<lparr>ck_nodestack := ns', ck_random_pos := p\<rparr>" by (simp add: p s2)
  have b: "b = (c = 0 \<or> rc)" and s': "s' = (if b then upd_cur (\<lambda>x. x\<lparr>ex_hasCrashed := True\<rparr>) s3
      else upd_cur (\<lambda>x. x\<lparr>ex_noWriteSinceCrashCheck := True\<rparr>) s3)"
    using assms(1) False e c by (auto simp: shouldInsertCrash_def rc_def s2_def Let_def split: if_splits)
  have v3: "valid s3" using assms(2) by (simp add: s3 frame_simps)
  have k3: "keeps s s3" unfolding s3 using keeps_nodestack keeps_trans by blast
  have "keeps s3 s'" if "\<not> b" using that v3 unfolding s' by (simp add: keeps_upd_cur)
  with k3 have k: "\<not> b \<Longrightarrow> keeps s s'" using keeps_trans by blast
  have base: "cur_exec s3 = cur_exec s" "ck_acts s3 = ck_acts s" "ck_events s3 = ck_events s"
    "ck_cur s3 = ck_cur s" by (simp_all add: s3 frame_simps)
  have "thread_memory_of s' t = thread_memory_of s t" for t
    using k3 v3 unfolding s' by (simp add: thread_memory_upd_cur keeps_def)
  then show ?thesis using v3 k base unfolding s'
    by (simp add: frame_simps used_def)
qed

section \<open>Kinds that do not change\<close>

definition is_flushopt :: "model_action \<Rightarrow> bool" where
  "is_flushopt m \<longleftrightarrow> is_cache_op m \<and> \<not> is_clflush m"

definition same_shape :: "checker \<Rightarrow> checker \<Rightarrow> bool" where
  "same_shape s s' \<longleftrightarrow> (\<forall>b. act_location (act s' b) = act_location (act s b) \<and>
     act_type (act s' b) = act_type (act s b) \<and> act_size (act s' b) = act_size (act s b))"

lemma same_shape_refl [simp, intro]: "same_shape s s" by (simp add: same_shape_def)

lemma same_shape_trans: "same_shape a b \<Longrightarrow> same_shape b c \<Longrightarrow> same_shape a c"
  by (simp add: same_shape_def)

lemma same_shape_kinds:
  assumes "same_shape s s'"
  shows "is_write (act s' b) = is_write (act s b)" "is_cache_op (act s' b) = is_cache_op (act s b)"
    "is_clflush (act s' b) = is_clflush (act s b)" "is_sfence (act s' b) = is_sfence (act s b)"
    "is_flushopt (act s' b) = is_flushopt (act s b)"
  using assms by (simp_all add: same_shape_def kind_defs is_flushopt_def)

lemma same_shape_stamp: "\<forall>b. act s' b = (if b = a then stamped n (act s a) else act s b) \<Longrightarrow> same_shape s s'"
  by (simp add: same_shape_def)

lemma same_shape_acts: "ck_acts s' = ck_acts s \<Longrightarrow> same_shape s s'"
  by (simp add: same_shape_def act_def)

section \<open>Flushing\<close>

definition line_of :: "checker \<Rightarrow> addr \<Rightarrow> cache_line" where
  "line_of s loc = (case ex_obj_to_cacheline (cur_exec s) (getCacheID loc) of
     Some cl \<Rightarrow> cl | None \<Rightarrow> CacheLine)"

lemma persist_begin_mono:
  "\<not> is_clflush m \<Longrightarrow> cl_beginR cl \<le> cl_beginR (persistCacheLine clk m cl)"
  by (auto simp: persistCacheLine_def Let_def)

lemma persist_covers_lastwrite:
  "\<not> is_clflush m \<Longrightarrow> act_lastwrite m = Some w \<Longrightarrow> clk w \<le> cl_beginR (persistCacheLine clk m cl)"
  by (auto simp: persistCacheLine_def Let_def)

lemma persist_clflush: "is_clflush m \<Longrightarrow> cl_beginR (persistCacheLine clk m cl) = act_seq m"
  by (simp add: persistCacheLine_def get_seq_number_def)

lemma persist_end [simp]: "cl_endR (persistCacheLine clk m cl) = cl_endR cl"
  by (simp add: persistCacheLine_def Let_def)

lemma exec_of_cur [frame_simps]: "exec_of s (ck_cur s) = cur_exec s"
  by (simp add: cur_exec_def)

lemma cacheline_frame:
  assumes "valid s"
  shows "core s (snd (getCacheLine (ck_cur s) l s))"
    "fst (getCacheLine (ck_cur s) l s) = line_of s l"
    "core s (put_cache_line (ck_cur s) l c s)"
    "thread_memory_of (put_cache_line (ck_cur s) l c s) t = thread_memory_of s t"
    "thread_memory_of (snd (getCacheLine (ck_cur s) l s)) t = thread_memory_of s t"
  using assms
  by (auto simp: getCacheLine_def line_of_def put_cache_line_def upd_cur_def [symmetric]
      exec_of_cur thread_memory_upd_cur intro!: core_upd_cur split: option.split)

lemma evictCacheOp_spec:
  assumes "evictCacheOp a s = Some (False, s')" "valid s" "a < length (ck_acts s)"
  shows "core s s' \<and> used s' = used s + 1 \<and> act_seq (act s a) = 0 \<and>
    (\<forall>b. act s' b = (if b = a then stamped (used s + 1) (act s a) else act s b)) \<and>
    (\<forall>t. thread_memory_of s' t = thread_memory_of s t) \<and>
    ex_obj_wr_map (cur_exec s') = ex_obj_wr_map (cur_exec s) \<and>
    ex_storebufferusage (cur_exec s') = ex_storebufferusage (cur_exec s) \<and>
    (\<forall>loc. line_of s' loc =
      (if getCacheID loc = getCacheID (act_location (act s a))
       then persistCacheLine (\<lambda>w. act_seq (act s' w)) (stamped (used s + 1) (act s a)) (line_of s loc)
       else line_of s loc))"
proof -
  from assms(1) obtain s1 s2 where s1: "shouldInsertCrash s = Some (False, s1)"
    and s2: "remove_action_from_store_buffer a s1 = Some s2"
    by (cases "shouldInsertCrash s"; cases "fst (the (shouldInsertCrash s))";
        cases "remove_action_from_store_buffer a (snd (the (shouldInsertCrash s)))")
       (auto simp: evictCacheOp_def)
  note c = shouldInsertCrash_spec [OF s1 assms(2)]
  have "a < length (ck_acts s1)" using c assms(3) by simp
  note r = remove_action_stamps [OF s2 _ this]
  have st: "stamps a s1 s2" using c r by blast
  have v2: "valid s2" using st c keeps_valid by (auto simp: stamps_def)
  define loc where "loc = act_location (act s2 a)"
  define s3 where "s3 = snd (getCacheLine (ck_cur s2) loc s2)"
  define cl where "cl = persistCacheLine (\<lambda>w. get_seq_number (act s3 w)) (act s3 a) (line_of s2 loc)"
  define s4 where "s4 = put_cache_line (ck_cur s2) loc cl s3"
  have c3: "core s2 s3" "ck_cur s3 = ck_cur s2" "act s3 = act s2"
    using cacheline_frame(1) [OF v2, of loc]
    by (auto simp: s3_def getCacheLine_def frame_simps core_def split: option.split)
  have v3: "valid s3" using c3 v2 core_valid by blast
  have g: "getCacheLine (ck_cur s2) loc s2 = (line_of s2 loc, s3)"
    using cacheline_frame(2) [OF v2, of loc] by (simp add: s3_def prod_eq_iff)
  have s': "s' = emit (EvictFlush (ck_cur s4) a (act s4 a)) s4"
    using assms(1) s1 s2 g
    by (simp add: evictCacheOp_def Let_def c3(2) loc_def [symmetric] cl_def [symmetric] s4_def [symmetric])
  have c4: "core s3 s4" "act s4 = act s3"
    unfolding s4_def using cacheline_frame(3) [OF v3] by (simp_all add: c3(2) frame_simps)
  have k2: "keeps s s2" using c st keeps_trans unfolding stamps_def by blast
  have "core s s4" using core_trans [OF core_trans [OF keeps_core [OF k2] c3(1)] c4(1)] .
  then have k: "core s s'" unfolding s' by (rule core_trans [OF _ keeps_core [OF keeps_emit]])
  have acts: "act s' b = (if b = a then stamped (used s + 1) (act s a) else act s b)" for b
    using st c c3 c4 by (simp add: s' frame_simps stamps_def act_def)
  have locs: "loc = act_location (act s a)"
    using st c by (simp add: loc_def stamps_def act_def)
  have x4: "cur_exec s4 = (cur_exec s3)\<lparr>ex_obj_to_cacheline :=
      (ex_obj_to_cacheline (cur_exec s3))(getCacheID loc := Some cl)\<rparr>"
    unfolding s4_def put_cache_line_def using v3 by (simp add: c3(2) [symmetric] frame_simps)
  have x3: "cur_exec s3 = cur_exec s2 \<or> cur_exec s3 = (cur_exec s2)\<lparr>ex_obj_to_cacheline :=
      (ex_obj_to_cacheline (cur_exec s2))(getCacheID loc := Some CacheLine)\<rparr>"
    unfolding s3_def using v2 by (auto simp: getCacheLine_def frame_simps split: option.split)
  have lines: "line_of s' l = (if getCacheID l = getCacheID loc then cl else line_of s l)" for l
    using x3 x4 k2 by (auto simp: line_of_def s' frame_simps keeps_def)
  have l2: "line_of s2 loc = line_of s loc" using k2 by (simp add: line_of_def keeps_def)
  have cl': "cl = persistCacheLine (\<lambda>w. act_seq (act s' w)) (stamped (used s + 1) (act s a)) (line_of s loc)"
    unfolding cl_def using acts [of a] c4 l2 by (simp add: s' frame_simps get_seq_number_def)
  have same: "line_of s l = line_of s loc" if "getCacheID l = getCacheID loc" for l
    using that by (simp add: line_of_def)
  have lines': "line_of s' l = (if getCacheID l = getCacheID (act_location (act s a))
      then persistCacheLine (\<lambda>w. act_seq (act s' w)) (stamped (used s + 1) (act s a)) (line_of s l)
      else line_of s l)" for l
    using lines [of l] cl' same [of l] unfolding locs [symmetric]
    by (cases "getCacheID l = getCacheID loc") simp_all
  have mem: "thread_memory_of s' t = thread_memory_of s t" for t
  proof -
    have "thread_memory_of s' t = thread_memory_of s3 t"
      using cacheline_frame(4) [OF v3, of loc cl t] unfolding s' s4_def c3(2) by (simp add: frame_simps)
    also have "\<dots> = thread_memory_of s2 t" unfolding s3_def by (rule cacheline_frame(5) [OF v2])
    also have "\<dots> = thread_memory_of s t" using k2 by (simp add: keeps_def)
    finally show ?thesis .
  qed
  have rest: "used s' = used s + 1" "ex_obj_wr_map (cur_exec s') = ex_obj_wr_map (cur_exec s)"
    "ex_storebufferusage (cur_exec s') = ex_storebufferusage (cur_exec s)"
    using x3 x4 k2 st c by (auto simp: s' frame_simps used_def keeps_def stamps_def)
  have "act_seq (act s a) = 0" using st c by (simp add: stamps_def act_def)
  with k acts lines' mem rest show ?thesis by blast
qed

lemma evictCacheOp_crash:
  assumes "evictCacheOp a s = Some (True, s')" "valid s"
  shows "ex_hasCrashed (cur_exec s')"
proof -
  from assms(1) have "shouldInsertCrash s = Some (True, s')"
    by (auto simp: evictCacheOp_def bind_eq_Some_conv Let_def split: if_splits prod.splits)
  then show ?thesis using shouldInsertCrash_spec assms(2) by blast
qed

lemma dec_flushcount_spec:
  assumes "dec_flushcount t s = Some s'" "valid s"
  shows "core s s' \<and> ck_acts s' = ck_acts s \<and> used s' = used s \<and>
    (\<forall>u. thread_memory_of s' u = (if u = t
       then map_option (\<lambda>tm. tm\<lparr>tm_flushcount := tm_flushcount tm - 1\<rparr>) (thread_memory_of s t)
       else thread_memory_of s u)) \<and>
    ex_obj_wr_map (cur_exec s') = ex_obj_wr_map (cur_exec s) \<and>
    ex_obj_to_cacheline (cur_exec s') = ex_obj_to_cacheline (cur_exec s) \<and>
    ex_storebufferusage (cur_exec s') = ex_storebufferusage (cur_exec s)"
  using upd_memory_spec [OF assms(1) [unfolded dec_flushcount_def] assms(2)] by blast

text \<open>
  Draining the flush buffer without a crash: it ends empty, the store buffers stay, no
  line goes back, and the last write a flush was issued after is persistent.
\<close>

lemma flush_loop_spec:
  assumes "flush_loop n t s = Some (False, s')" "valid s" "thread_memory_of s t = Some tm"
    "length (tm_flushBuffer tm) \<le> n"
    "\<forall>f \<in> set (tm_flushBuffer tm). f < length (ck_acts s) \<and> \<not> is_clflush (act s f)"
  shows "core s s' \<and> used s' = used s + of_nat (length (tm_flushBuffer tm)) \<and>
    (\<exists>tm'. thread_memory_of s' t = Some tm' \<and> tm_flushBuffer tm' = [] \<and>
       tm_storeBuffer tm' = tm_storeBuffer tm \<and> tm_obj_to_last_write tm' = tm_obj_to_last_write tm \<and>
       tm_lastsfence tm' = tm_lastsfence tm) \<and>
    (\<forall>u. u \<noteq> t \<longrightarrow> thread_memory_of s' u = thread_memory_of s u) \<and>
    same_shape s s' \<and>
    (\<forall>b. b \<notin> set (tm_flushBuffer tm) \<longrightarrow> act s' b = act s b) \<and>
    (\<forall>loc. cl_beginR (line_of s loc) \<le> cl_beginR (line_of s' loc)) \<and>
    (\<forall>f \<in> set (tm_flushBuffer tm). \<forall>w. act_lastwrite (act s f) = Some w \<longrightarrow>
       w \<notin> set (tm_flushBuffer tm) \<longrightarrow>
       act_seq (act s w) \<le> cl_beginR (line_of s' (act_location (act s f)))) \<and>
    ex_obj_wr_map (cur_exec s') = ex_obj_wr_map (cur_exec s) \<and>
    ex_storebufferusage (cur_exec s') = ex_storebufferusage (cur_exec s)"
  using assms
proof (induction n arbitrary: s tm)
  case 0
  then show ?case by simp
next
  case (Suc n)
  show ?case
  proof (cases "tm_flushBuffer tm")
    case Nil
    with Suc.prems show ?thesis by simp
  next
    case (Cons f rest)
    with Suc.prems(1,3) obtain s1 s2 s3 where
      s1: "upd_memory t (\<lambda>tm. tm\<lparr>tm_flushBuffer := rest\<rparr>) s = Some s1" and
      s2: "evictCacheOp f s1 = Some (False, s2)" and s3: "dec_flushcount t s2 = Some s3" and
      loop: "flush_loop n t s3 = Some (False, s')"
      by (auto simp: bind_eq_Some_conv split: if_splits)
    note m1 = upd_memory_spec [OF s1 Suc.prems(2)]
    have v1: "valid s1" using m1 Suc.prems(2) core_valid by blast
    have f1: "f < length (ck_acts s1)" "act s1 = act s" using m1 Suc.prems(5) Cons by (auto simp: act_def)
    note e = evictCacheOp_spec [OF s2 v1 f1(1)]
    have v2: "valid s2" using e v1 core_valid by blast
    note d = dec_flushcount_spec [OF s3 v2]
    have v3: "valid s3" using d v2 core_valid by blast
    have c3: "core s s3" using m1 e d core_trans by blast
    define tm3 where "tm3 = tm\<lparr>tm_flushBuffer := rest, tm_flushcount := tm_flushcount tm - 1\<rparr>"
    have tm3: "thread_memory_of s3 t = Some tm3"
      using m1 e d Suc.prems(3) by (simp add: tm3_def)
    have a3: "act s3 = act s2" using d by (simp add: act_def fun_eq_iff)
    have a2: "act s2 b = (if b = f then stamped (used s1 + 1) (act s f) else act s b)" for b
      using e f1(2) by simp
    have l1: "line_of s1 l = line_of s l" for l using m1 by (simp add: line_of_def)
    have l3: "line_of s3 l = line_of s2 l" for l using d by (simp add: line_of_def)
    have fl: "\<not> is_clflush (act s f)" using Suc.prems(5) Cons by simp
    have l2: "line_of s2 l = (if getCacheID l = getCacheID (act_location (act s f))
        then persistCacheLine (\<lambda>w. act_seq (act s2 w)) (stamped (used s1 + 1) (act s f)) (line_of s l)
        else line_of s l)" for l
      using e by (simp add: f1(2) l1)
    have mono: "cl_beginR (line_of s l) \<le> cl_beginR (line_of s3 l)" for l
      unfolding l3 l2 using fl by (auto intro: persist_begin_mono)
    have rest_ok: "\<forall>g \<in> set (tm_flushBuffer tm3). g < length (ck_acts s3) \<and> \<not> is_clflush (act s3 g)"
    proof -
      have "length (ck_acts s3) = length (ck_acts s)" using c3 by (simp add: core_def)
      then show ?thesis using Suc.prems(5) Cons by (auto simp: tm3_def a3 a2)
    qed
    have len: "length (tm_flushBuffer tm3) \<le> n" using Suc.prems(4) Cons by (simp add: tm3_def)
    note IH = Suc.IH [OF loop v3 tm3 len rest_ok]
    have fb: "set (tm_flushBuffer tm) = insert f (set rest)" "tm_flushBuffer tm3 = rest"
      using Cons by (auto simp: tm3_def)
    have cov: "act_seq (act s w) \<le> cl_beginR (line_of s' (act_location (act s g)))"
      if "g \<in> set (tm_flushBuffer tm)" "act_lastwrite (act s g) = Some w" "w \<notin> set (tm_flushBuffer tm)" for g w
    proof (cases "g \<in> set rest")
      case True
      have "act_lastwrite (act s3 g) = Some w" "act_location (act s3 g) = act_location (act s g)"
        using that(2) by (auto simp: a3 a2)
      moreover have "act_seq (act s3 w) = act_seq (act s w)" using that(3) fb by (simp add: a3 a2)
      moreover have "w \<notin> set rest" using that(3) fb by simp
      ultimately show ?thesis using IH True unfolding fb(2) by metis
    next
      case False
      with that(1) fb have g: "g = f" by simp
      have "act_seq (act s2 w) \<le> cl_beginR (line_of s2 (act_location (act s f)))"
        unfolding l2 using fl that(2) g by (auto intro: persist_covers_lastwrite)
      moreover have "act_seq (act s2 w) = act_seq (act s w)" using that(3) fb by (simp add: a2)
      moreover have "cl_beginR (line_of s3 (act_location (act s f))) \<le> cl_beginR (line_of s' (act_location (act s f)))"
        using IH by blast
      ultimately show ?thesis using g l3 by (metis order_trans)
    qed
    have "core s s'" using c3 IH core_trans by blast
    moreover have "used s' = used s + of_nat (length (tm_flushBuffer tm))"
      using IH d e m1 Cons fb(2) by simp
    moreover have "same_shape s s'"
      using IH by (simp add: same_shape_def a3 a2)
    moreover have "act s' b = act s b" if "b \<notin> set (tm_flushBuffer tm)" for b
    proof -
      have "act s' b = act s3 b" using IH that fb by auto
      then show ?thesis using that fb by (simp add: a3 a2)
    qed
    moreover have "thread_memory_of s' u = thread_memory_of s u" if "u \<noteq> t" for u
      using IH d e m1 that by simp
    moreover have "cl_beginR (line_of s l) \<le> cl_beginR (line_of s' l)" for l
      using mono [of l] IH order_trans by blast
    moreover have "ex_obj_wr_map (cur_exec s') = ex_obj_wr_map (cur_exec s)"
      "ex_storebufferusage (cur_exec s') = ex_storebufferusage (cur_exec s)"
      using IH d e m1 by simp_all
    moreover have "\<exists>tm'. thread_memory_of s' t = Some tm' \<and> tm_flushBuffer tm' = [] \<and>
       tm_storeBuffer tm' = tm_storeBuffer tm \<and> tm_obj_to_last_write tm' = tm_obj_to_last_write tm \<and>
       tm_lastsfence tm' = tm_lastsfence tm"
      using IH by (auto simp: tm3_def)
    ultimately show ?thesis using cov by blast
  qed
qed

section \<open>Evicting one buffered operation\<close>

text \<open>Well-formed buffers: operations of the right kind, each in one buffer only.\<close>

definition buffers_ok :: "checker \<Rightarrow> thread_memory \<Rightarrow> bool" where
  "buffers_ok s tm \<longleftrightarrow> distinct (tm_storeBuffer tm @ tm_flushBuffer tm) \<and>
     (\<forall>a \<in> set (tm_storeBuffer tm) \<union> set (tm_flushBuffer tm). a < length (ck_acts s)) \<and>
     (\<forall>a \<in> set (tm_flushBuffer tm). is_flushopt (act s a))"

text \<open>The list of writes of a word keeps its entries and may get the new write at its end.\<close>

definition wr_step :: "checker \<Rightarrow> aid \<Rightarrow> checker \<Rightarrow> bool" where
  "wr_step s w s' \<longleftrightarrow> (\<forall>al. ex_obj_wr_map (cur_exec s') al = ex_obj_wr_map (cur_exec s) al \<or>
     is_write (act s w) \<and> al = alignAddress (act_location (act s w)) \<and>
     ex_obj_wr_map (cur_exec s') al =
       Some ((case ex_obj_wr_map (cur_exec s) al of None \<Rightarrow> [] | Some xs \<Rightarrow> xs) @ [w]))"

lemma wr_step_same: "ex_obj_wr_map (cur_exec s') = ex_obj_wr_map (cur_exec s) \<Longrightarrow> wr_step s w s'"
  by (simp add: wr_step_def)

lemma add_write_spec:
  assumes "add_write_to_lists (ck_cur s) w s = (b, s')" "valid s" "is_write (act s w)"
  shows "core s s' \<and> ck_acts s' = ck_acts s \<and> used s' = used s \<and>
    (\<forall>t. thread_memory_of s' t = thread_memory_of s t) \<and>
    ex_obj_to_cacheline (cur_exec s') = ex_obj_to_cacheline (cur_exec s) \<and>
    ex_storebufferusage (cur_exec s') = ex_storebufferusage (cur_exec s) \<and>
    wr_step s w s'"
proof (cases b)
  case False
  with assms(1) have "s' = s" by (auto simp: add_write_to_lists_def Let_def split: if_splits)
  then show ?thesis by (simp add: wr_step_def)
next
  case True
  with assms(1) have s': "s' = upd_cur (\<lambda>x. x\<lparr>ex_obj_wr_map := push_list (alignAddress (act_location (act s w))) w
      (ex_obj_wr_map x), ex_noWriteSinceCrashCheck := False\<rparr>) s"
    by (auto simp: add_write_to_lists_def Let_def upd_cur_def split: if_splits)
  have "core s s'" unfolding s' using assms(2) by (intro core_upd_cur) auto
  then show ?thesis using assms(2,3) unfolding s'
    by (simp add: frame_simps used_def thread_memory_upd_cur wr_step_def push_list_def)
qed

definition evicts :: "tid \<Rightarrow> aid \<Rightarrow> thread_memory \<Rightarrow> checker \<Rightarrow> checker \<Rightarrow> bool" where
  "evicts t a tm s s' \<longleftrightarrow> core s s' \<and> same_shape s s' \<and>
     (\<forall>u. u \<noteq> t \<longrightarrow> thread_memory_of s' u = thread_memory_of s u) \<and>
     (\<exists>tm'. thread_memory_of s' t = Some tm' \<and> tm_storeBuffer tm' = tm_storeBuffer tm \<and>
        tm_flushBuffer tm' = (if is_sfence (act s a) then []
          else if is_flushopt (act s a) then tm_flushBuffer tm @ [a] else tm_flushBuffer tm)) \<and>
     used s' = used s + (if is_sfence (act s a) then of_nat (length (tm_flushBuffer tm)) + 1
       else if is_flushopt (act s a) then 0 else 1) \<and>
     (\<not> is_flushopt (act s a) \<longrightarrow> act_seq (act s' a) = used s') \<and>
     (\<forall>b. b \<noteq> a \<longrightarrow> b \<notin> set (tm_flushBuffer tm) \<longrightarrow> act s' b = act s b) \<and>
     ex_storebufferusage (cur_exec s') = ex_storebufferusage (cur_exec s) \<and>
     wr_step s a s'"

lemma kinds_apart:
  "is_write m \<Longrightarrow> \<not> is_sfence m \<and> \<not> is_cache_op m" "is_sfence m \<Longrightarrow> \<not> is_cache_op m"
  "is_clflush m \<Longrightarrow> is_cache_op m" "is_sfence m \<Longrightarrow> \<not> is_flushopt m" "is_write m \<Longrightarrow> \<not> is_flushopt m"
  "is_flushopt m \<Longrightarrow> \<not> is_sfence m"
  by (auto simp: kind_defs is_flushopt_def)

lemma emit_evicts: "evicts t a tm s s' \<Longrightarrow> evicts t a tm s (emit ev s')"
  by (auto simp: evicts_def frame_simps same_shape_def used_def core_def wr_step_def)

lemma evict_write_evicts:
  assumes "evictWrite a s = Some (b, s')" "valid s" "a < length (ck_acts s)"
    "thread_memory_of s t = Some tm" "is_write (act s a)"
  shows "evicts t a tm s s'"
proof -
  from assms(1) obtain s1 where s1: "remove_action_from_store_buffer a s = Some s1"
    and s': "add_write_to_lists (ck_cur s1) a s1 = (b, s')"
    by (auto simp: evictWrite_def bind_eq_Some_conv)
  note st = remove_action_stamps [OF s1 assms(2,3)]
  have v1: "valid s1" using st assms(2) keeps_valid by (auto simp: stamps_def)
  have a1: "act s1 b = (if b = a then stamped (used s + 1) (act s a) else act s b)" for b
    using st by (simp add: stamps_def)
  note aw = add_write_spec [OF s' v1]
  have k: "keeps s s1" using st by (simp add: stamps_def)
  have "act s' = act s1" using aw a1 assms(5) by (simp add: act_def fun_eq_iff)
  moreover have "core s s'" using core_trans [OF keeps_core [OF k]] aw a1 assms(5) by simp
  moreover have "wr_step s a s'"
    using aw a1 assms(5) k by (simp add: wr_step_def keeps_def)
  ultimately show ?thesis
    using st aw a1 k assms(4,5) kinds_apart(1,5) [OF assms(5)]
    unfolding evicts_def same_shape_def by (simp add: stamps_def keeps_def)
qed

lemma evict_sfence_evicts:
  assumes "emptyFlushBuffer t s = Some (False, s1)" "upd_memory t (\<lambda>tm. tm\<lparr>tm_lastsfence := Some a\<rparr>) s1 = Some s2"
    "remove_action_from_store_buffer a s2 = Some s'" "valid s" "a < length (ck_acts s)"
    "thread_memory_of s t = Some tm" "is_sfence (act s a)" "buffers_ok s tm" "a \<notin> set (tm_flushBuffer tm)"
  shows "evicts t a tm s s'"
proof -
  have fl: "flush_loop (length (tm_flushBuffer tm)) t s = Some (False, s1)"
    using assms(1,6) by (simp add: emptyFlushBuffer_def)
  have "\<forall>f \<in> set (tm_flushBuffer tm). f < length (ck_acts s) \<and> \<not> is_clflush (act s f)"
    using assms(8) by (auto simp: buffers_ok_def is_flushopt_def)
  note f = flush_loop_spec [OF fl assms(4,6) order_refl this]
  have v1: "valid s1" using f assms(4) core_valid by blast
  note m = upd_memory_spec [OF assms(2) v1]
  have v2: "valid s2" using m v1 core_valid by blast
  have c2: "core s s2" using f m core_trans by blast
  have a2: "act s2 = act s1" using m by (simp add: act_def fun_eq_iff)
  have "a < length (ck_acts s2)" using c2 assms(5) by (simp add: core_def)
  note st = remove_action_stamps [OF assms(3) v2 this]
  have k: "keeps s2 s'" using st by (simp add: stamps_def)
  have a': "act s' b = (if b = a then stamped (used s2 + 1) (act s1 a) else act s1 b)" for b
    using st by (simp add: stamps_def a2)
  have c: "core s s'" using core_trans [OF c2 keeps_core [OF k]] .
  have sh: "same_shape s s'" using f a' by (simp add: same_shape_def)
  have w: "wr_step s a s'" using f m k by (intro wr_step_same) (simp add: keeps_def)
  have u: "used s' = used s + (of_nat (length (tm_flushBuffer tm)) + 1)" "used s' = used s2 + 1"
    using st m f by (simp_all add: stamps_def)
  obtain tm1 where tm1: "thread_memory_of s1 t = Some tm1" "tm_flushBuffer tm1 = []"
    "tm_storeBuffer tm1 = tm_storeBuffer tm" using f by blast
  have mem: "thread_memory_of s' t = Some (tm1\<lparr>tm_lastsfence := Some a\<rparr>)"
    "\<forall>v. v \<noteq> t \<longrightarrow> thread_memory_of s' v = thread_memory_of s v"
    using k m f tm1 by (simp_all add: keeps_def)
  have st': "ex_storebufferusage (cur_exec s') = ex_storebufferusage (cur_exec s)"
    using k m f by (simp add: keeps_def)
  have keep: "\<forall>b. b \<noteq> a \<longrightarrow> b \<notin> set (tm_flushBuffer tm) \<longrightarrow> act s' b = act s b"
    using a' f by simp
  have nf: "\<not> is_flushopt (act s a)" using assms(7) kinds_apart(4) by blast
  show ?thesis
    unfolding evicts_def using c sh mem u keep st' w assms(7) nf tm1 a' [of a]
    by (simp add: u(2))
qed

lemma evict_clflush_evicts:
  assumes "evictCacheOp a s = Some (False, s1)" "dec_flushcount t s1 = Some s'" "valid s"
    "a < length (ck_acts s)" "thread_memory_of s t = Some tm" "is_clflush (act s a)"
  shows "evicts t a tm s s'"
proof -
  note e = evictCacheOp_spec [OF assms(1,3,4)]
  have v1: "valid s1" using e assms(3) core_valid by blast
  note d = dec_flushcount_spec [OF assms(2) v1]
  have k: "\<not> is_sfence (act s a)" "\<not> is_flushopt (act s a)"
    using assms(6) by (auto simp: kind_defs is_flushopt_def)
  have "act s' = act s1" using d by (simp add: act_def fun_eq_iff)
  moreover have "core s s'" using e d core_trans by blast
  moreover have "wr_step s a s'" using e d by (intro wr_step_same) simp
  ultimately show ?thesis
    using e d k assms(5) by (simp add: evicts_def same_shape_def)
qed

lemma evict_flushopt_evicts:
  assumes "evictFlushOpt t a s = Some s'" "valid s" "a < length (ck_acts s)"
    "thread_memory_of s t = Some tm" "is_flushopt (act s a)"
  shows "evicts t a tm s s'"
proof -
  define s1 where "s1 = (case tm_lastsfence tm of None \<Rightarrow> s
    | Some f \<Rightarrow> upd_act a (\<lambda>m. set_last_clflush m (get_seq_number (act s f))) s)"
  have m0: "upd_memory t (\<lambda>tm. tm\<lparr>tm_flushBuffer := tm_flushBuffer tm @ [a]\<rparr>) s1 = Some s'"
    using assms(1,4) by (simp add: evictFlushOpt_def s1_def)
  have s1: "keeps s s1" "used s1 = used s" "same_shape s s1" "\<forall>b. b \<noteq> a \<longrightarrow> act s1 b = act s b"
    unfolding s1_def using assms(3)
    by (auto simp: same_shape_def act_upd_act set_last_clflush_def used_def frame_simps split: option.split)
  have v1: "valid s1" using s1(1) assms(2) keeps_valid by blast
  note m = upd_memory_spec [OF m0 v1]
  have "act s' = act s1" using m by (simp add: act_def fun_eq_iff)
  moreover have "core s s'" using core_trans [OF keeps_core [OF s1(1)]] m by blast
  moreover have "wr_step s a s'" using m s1(1) by (intro wr_step_same) (simp add: keeps_def)
  ultimately show ?thesis
    using m s1 assms(4,5) kinds_apart(6) [OF assms(5)]
    by (simp add: evicts_def same_shape_def keeps_def)
qed

lemma evictOp_evicts:
  assumes "evictOpFromStoreBuffer t a s = Some (False, s')" "valid s" "a < length (ck_acts s)"
    "thread_memory_of s t = Some tm" "buffers_ok s tm" "a \<notin> set (tm_flushBuffer tm)"
  shows "evicts t a tm s s'"
proof -
  consider "is_write (act s a)" | "is_sfence (act s a)" "\<not> is_write (act s a)"
    | "is_clflush (act s a)" | "is_flushopt (act s a)"
    | "\<not> is_write (act s a)" "\<not> is_sfence (act s a)" "\<not> is_cache_op (act s a)"
    unfolding is_flushopt_def by blast
  then show ?thesis
  proof cases
    case 1
    with assms(1) obtain b s1 where "evictWrite a s = Some (b, s1)"
      "s' = (if \<not> b then s1 else emit (EvictStore (ck_cur s1) a (act s1 a)) s1)"
      by (auto simp: evictOpFromStoreBuffer_def Let_def bind_eq_Some_conv)
    with evict_write_evicts [OF _ assms(2-4) 1] emit_evicts show ?thesis by auto
  next
    case 2
    with assms(1) obtain s1 s2 s3 where "emptyFlushBuffer t s = Some (False, s1)"
      "upd_memory t (\<lambda>tm. tm\<lparr>tm_lastsfence := Some a\<rparr>) s1 = Some s2"
      "remove_action_from_store_buffer a s2 = Some s3"
      "s' = emit (EvictStore (ck_cur s3) a (act s3 a)) (emit (Fence (ck_cur s3) a (act s3 a)) s3)"
      by (auto simp: evictOpFromStoreBuffer_def Let_def bind_eq_Some_conv frame_simps split: if_splits)
    with evict_sfence_evicts [OF _ _ _ assms(2-4) 2(1) assms(5,6)] emit_evicts show ?thesis by auto
  next
    case 3
    then have k: "\<not> is_write (act s a)" "\<not> is_sfence (act s a)" "is_cache_op (act s a)"
      by (auto simp: kind_defs)
    with 3 assms(1) obtain s1 s2 where "evictCacheOp a s = Some (False, s1)" "dec_flushcount t s1 = Some s2"
      "s' = emit (EvictStore (ck_cur s2) a (act s2 a)) s2"
      by (auto simp: evictOpFromStoreBuffer_def Let_def bind_eq_Some_conv split: if_splits)
    with evict_clflush_evicts [OF _ _ assms(2-4) 3] emit_evicts show ?thesis by auto
  next
    case 4
    then have k: "\<not> is_write (act s a)" "\<not> is_sfence (act s a)" "is_cache_op (act s a)"
      "\<not> is_clflush (act s a)" by (auto simp: kind_defs is_flushopt_def)
    with assms(1) obtain s1 where "evictFlushOpt t a s = Some s1"
      "s' = emit (EvictStore (ck_cur s1) a (act s1 a)) s1"
      by (auto simp: evictOpFromStoreBuffer_def Let_def bind_eq_Some_conv)
    with evict_flushopt_evicts [OF _ assms(2-4) 4] emit_evicts show ?thesis by auto
  next
    case 5
    with assms(1) show ?thesis by (simp add: evictOpFromStoreBuffer_def Let_def)
  qed
qed

section \<open>Draining the store buffer\<close>

definition wlist :: "checker \<Rightarrow> addr \<Rightarrow> aid list" where
  "wlist s al = (case ex_obj_wr_map (cur_exec s) al of None \<Rightarrow> [] | Some xs \<Rightarrow> xs)"

lemma wr_step_wlist: "wr_step s w s' \<Longrightarrow> wlist s' al = wlist s al \<or>
    is_write (act s w) \<and> al = alignAddress (act_location (act s w)) \<and> wlist s' al = wlist s al @ [w]"
  unfolding wr_step_def wlist_def by (drule spec [of _ al]) auto

lemma unat_add_small:
  "unat (c::modelclock) + k < 2 ^ 32 \<Longrightarrow> unat (c + of_nat k) = unat c + k"
  by (subst unat_word_ariths) (simp add: take_bit_nat_eq_self unat_of_nat)

text \<open>The drained prefix of the buffer and what the rest of the drain has to respect.\<close>

definition drained :: "tid \<Rightarrow> aid list \<Rightarrow> aid list \<Rightarrow> checker \<Rightarrow> checker \<Rightarrow> bool" where
  "drained t sb fb s s' \<longleftrightarrow> core s s' \<and> same_shape s s' \<and>
     (\<forall>u. u \<noteq> t \<longrightarrow> thread_memory_of s' u = thread_memory_of s u) \<and>
     unat (used s) \<le> unat (used s') \<and> unat (used s') \<le> unat (used s) + length sb + length fb \<and>
     sorted_wrt (<) (map (\<lambda>a. act_seq (act s' a)) (filter (\<lambda>a. \<not> is_flushopt (act s a)) sb)) \<and>
     (\<forall>a \<in> set sb. \<not> is_flushopt (act s a) \<longrightarrow> used s < act_seq (act s' a) \<and> act_seq (act s' a) \<le> used s') \<and>
     (\<forall>b. b \<notin> set sb \<longrightarrow> b \<notin> set fb \<longrightarrow> act s' b = act s b) \<and>
     (\<forall>al. \<exists>ws. subseq ws (filter (\<lambda>a. is_write (act s a) \<and> alignAddress (act_location (act s a)) = al) sb) \<and>
        wlist s' al = wlist s al @ ws)"

lemma drained_Nil: "core s s' \<Longrightarrow> ck_acts s' = ck_acts s \<Longrightarrow> used s' = used s \<Longrightarrow>
    (\<And>u. thread_memory_of s' u = thread_memory_of s u) \<Longrightarrow> (\<And>al. wlist s' al = wlist s al) \<Longrightarrow>
    drained t [] fb s s'"
  by (simp add: drained_def same_shape_acts) (simp add: act_def)

lemma drained_acts: "ck_acts s1 = ck_acts s \<Longrightarrow> used s1 = used s \<Longrightarrow> core s s1 \<Longrightarrow>
    (\<forall>u. u \<noteq> t \<longrightarrow> thread_memory_of s1 u = thread_memory_of s u) \<Longrightarrow> (\<And>al. wlist s1 al = wlist s al) \<Longrightarrow>
    drained t sb fb s1 s' \<Longrightarrow> drained t sb fb s s'"
  using same_shape_acts [of s1 s] by (auto simp: drained_def act_def same_shape_def intro: core_trans)

lemma drained_Cons:
  assumes ev: "evicts t a tm s s2" and fb: "tm_flushBuffer tm = fb"
    and fb2: "fb2 = (if is_sfence (act s a) then [] else if is_flushopt (act s a) then fb @ [a] else fb)"
    and rest: "drained t rest fb2 s2 s'"
    and dist: "distinct (a # rest @ fb)" and small: "unat (used s) + Suc (length rest) + length fb < 2 ^ 32"
  shows "drained t (a # rest) fb s s'"
proof -
  let ?k = "if is_sfence (act s a) then length fb + 1 else if is_flushopt (act s a) then 0 else 1"
  have sh: "same_shape s s2" using ev by (simp add: evicts_def)
  have u2: "used s2 = used s + of_nat ?k" using ev fb by (simp add: evicts_def)
  have n2: "unat (used s2) = unat (used s) + ?k"
    unfolding u2 by (rule unat_add_small) (use small in auto)
  have le: "unat (used s) \<le> unat (used s2)" using n2 by simp
  have up: "unat (used s') \<le> unat (used s) + length (a # rest) + length fb"
    using rest n2 unfolding drained_def fb2 by (auto split: if_splits)
  have nb: "\<not> is_flushopt (act s a) \<Longrightarrow> a \<notin> set fb2" using dist by (auto simp: fb2)
  have fa: "act_seq (act s' a) = used s2" "used s < used s2" if "\<not> is_flushopt (act s a)"
  proof -
    have "act s' a = act s2 a" using rest dist nb that by (auto simp: drained_def)
    then show "act_seq (act s' a) = used s2" using ev that by (simp add: evicts_def)
    show "used s < used s2" using n2 that by (auto simp: word_less_nat_alt split: if_splits)
  qed
  have kinds: "is_flushopt (act s2 b) = is_flushopt (act s b)" for b using sh same_shape_kinds(5) by blast
  have r: "\<forall>b \<in> set rest. \<not> is_flushopt (act s b) \<longrightarrow> used s2 < act_seq (act s' b) \<and> act_seq (act s' b) \<le> used s'"
    using rest by (simp add: drained_def kinds)
  have w2: "used s \<le> used s2" "used s2 \<le> used s'"
    using le rest by (auto simp: drained_def word_le_nat_alt)
  have "sorted_wrt (<) (map (\<lambda>b. act_seq (act s' b)) (filter (\<lambda>b. \<not> is_flushopt (act s b)) rest))"
    using rest by (simp add: drained_def kinds)
  then have sorted: "sorted_wrt (<) (map (\<lambda>b. act_seq (act s' b)) (filter (\<lambda>b. \<not> is_flushopt (act s b)) (a # rest)))"
    using fa r by auto
  have range: "\<forall>b \<in> set (a # rest). \<not> is_flushopt (act s b) \<longrightarrow> used s < act_seq (act s' b) \<and> act_seq (act s' b) \<le> used s'"
    using fa r w2 by auto
  have frame: "act s' b = act s b" if "b \<notin> set (a # rest)" "b \<notin> set fb" for b
  proof -
    have "b \<notin> set fb2" using that by (auto simp: fb2)
    then have "act s' b = act s2 b" using rest that by (auto simp: drained_def)
    also have "\<dots> = act s b" using ev that fb by (auto simp: evicts_def)
    finally show ?thesis .
  qed
  have wr: "\<exists>ws. subseq ws (filter (\<lambda>b. is_write (act s b) \<and> alignAddress (act_location (act s b)) = al) (a # rest)) \<and>
        wlist s' al = wlist s al @ ws" for al
  proof -
    obtain ws where ws: "subseq ws (filter (\<lambda>b. is_write (act s2 b) \<and> alignAddress (act_location (act s2 b)) = al) rest)"
      "wlist s' al = wlist s2 al @ ws"
      using rest unfolding drained_def by blast
    have fr: "filter (\<lambda>b. is_write (act s2 b) \<and> alignAddress (act_location (act s2 b)) = al) rest =
        filter (\<lambda>b. is_write (act s b) \<and> alignAddress (act_location (act s b)) = al) rest"
      using sh same_shape_kinds(1) [OF sh] by (simp add: same_shape_def)
    have "wr_step s a s2" using ev by (simp add: evicts_def)
    from wr_step_wlist [OF this, of al] show ?thesis
    proof
      assume "wlist s2 al = wlist s al"
      with ws fr show ?thesis by (intro exI [of _ ws]) auto
    next
      assume "is_write (act s a) \<and> al = alignAddress (act_location (act s a)) \<and> wlist s2 al = wlist s al @ [a]"
      with ws fr show ?thesis by (intro exI [of _ "a # ws"]) auto
    qed
  qed
  have "core s s'" using ev rest core_trans by (auto simp: evicts_def drained_def)
  moreover have "same_shape s s'" using sh rest same_shape_trans by (auto simp: drained_def)
  moreover have "\<forall>u. u \<noteq> t \<longrightarrow> thread_memory_of s' u = thread_memory_of s u"
    using ev rest by (auto simp: evicts_def drained_def)
  moreover have "unat (used s) \<le> unat (used s')" using w2 le rest by (auto simp: drained_def)
  ultimately show ?thesis using sorted range frame wr up unfolding drained_def by blast
qed

lemma store_loop_spec:
  assumes "store_loop n count t s = Some (False, s')" "valid s" "thread_memory_of s t = Some tm"
    "length (tm_storeBuffer tm) \<le> n" "buffers_ok s tm"
    "unat (used s) + length (tm_storeBuffer tm) + length (tm_flushBuffer tm) < 2 ^ 32"
  shows "drained t (tm_storeBuffer tm) (tm_flushBuffer tm) s s' \<and>
    (\<exists>tm'. thread_memory_of s' t = Some tm' \<and> tm_storeBuffer tm' = [] \<and> buffers_ok s' tm') \<and>
    ex_storebufferusage (cur_exec s') =
      ex_storebufferusage (cur_exec s) - count - of_nat (length (tm_storeBuffer tm))"
  using assms
proof (induction n arbitrary: count s tm)
  case 0
  let ?s = "updateStoreBuffer (- count) s"
  from 0 have s': "s' = ?s" "tm_storeBuffer tm = []" by auto
  note u = updateStoreBuffer_spec [OF 0(2), of "- count"]
  have "drained t [] (tm_flushBuffer tm) s ?s"
    using u by (intro drained_Nil) (simp_all add: frame_simps wlist_def)
  moreover have "buffers_ok ?s tm" using 0(5) by (simp add: buffers_ok_def frame_simps)
  ultimately show ?case using u 0(3) s' by auto
next
  case (Suc n)
  show ?case
  proof (cases "tm_storeBuffer tm")
    case Nil
    let ?s = "updateStoreBuffer (- count) s"
    from Suc.prems Nil have s': "s' = ?s" by simp
    note u = updateStoreBuffer_spec [OF Suc.prems(2), of "- count"]
    have "drained t [] (tm_flushBuffer tm) s ?s"
      using u by (intro drained_Nil) (simp_all add: frame_simps wlist_def)
    moreover have "buffers_ok ?s tm" using Suc.prems(5) by (simp add: buffers_ok_def frame_simps)
    ultimately show ?thesis using u Suc.prems(3) s' Nil by auto
  next
    case (Cons a rest)
    with Suc.prems(1,3) obtain s1 s2 where
      s1: "upd_memory t (\<lambda>tm. tm\<lparr>tm_storeBuffer := rest\<rparr>) s = Some s1" and
      s2: "evictOpFromStoreBuffer t a s1 = Some (False, s2)" and
      loop: "store_loop n (count + 1) t s2 = Some (False, s')"
      by (auto simp: bind_eq_Some_conv split: if_splits)
    note m = upd_memory_spec [OF s1 Suc.prems(2)]
    have v1: "valid s1" using m Suc.prems(2) core_valid by blast
    have a1: "act s1 = act s" using m by (simp add: act_def fun_eq_iff)
    define tm1 where "tm1 = tm\<lparr>tm_storeBuffer := rest\<rparr>"
    have tm1: "thread_memory_of s1 t = Some tm1" using m Suc.prems(3) by (simp add: tm1_def)
    have ok: "distinct (a # rest @ tm_flushBuffer tm)" "a < length (ck_acts s1)" "buffers_ok s1 tm1"
      using Suc.prems(5) Cons m by (auto simp: buffers_ok_def tm1_def a1)
    then have "a \<notin> set (tm_flushBuffer tm1)" by (auto simp: tm1_def)
    note ev = evictOp_evicts [OF s2 v1 ok(2) tm1 ok(3) this]
    have v2: "valid s2" using ev v1 core_valid by (auto simp: evicts_def)
    define fb2 where "fb2 = (if is_sfence (act s1 a) then []
      else if is_flushopt (act s1 a) then tm_flushBuffer tm @ [a] else tm_flushBuffer tm)"
    obtain tm2 where tm2: "thread_memory_of s2 t = Some tm2" "tm_storeBuffer tm2 = rest" "tm_flushBuffer tm2 = fb2"
    proof -
      have f: "tm_flushBuffer tm1 = tm_flushBuffer tm" "tm_storeBuffer tm1 = rest" by (simp_all add: tm1_def)
      from ev that show ?thesis unfolding evicts_def fb2_def f by blast
    qed
    have sh: "same_shape s1 s2" using ev by (simp add: evicts_def)
    have "length (ck_acts s2) = length (ck_acts s1)" using ev by (simp add: evicts_def core_def)
    then have ok2: "buffers_ok s2 tm2"
      using ok same_shape_kinds(5) [OF sh] unfolding buffers_ok_def tm2 fb2_def tm1_def by auto
    have nums: "unat (used s1) + Suc (length rest) + length (tm_flushBuffer tm) < 2 ^ 32"
      using Suc.prems(6) Cons m by simp
    have "used s2 = used s1 + of_nat (if is_sfence (act s1 a) then length (tm_flushBuffer tm) + 1
        else if is_flushopt (act s1 a) then 0 else 1)"
      using ev by (simp add: evicts_def tm1_def)
    then have n2: "unat (used s2) = unat (used s1) + (if is_sfence (act s1 a) then length (tm_flushBuffer tm) + 1
        else if is_flushopt (act s1 a) then 0 else 1)"
      by (simp only:) (rule unat_add_small, use nums in auto)
    have small: "unat (used s2) + length (tm_storeBuffer tm2) + length (tm_flushBuffer tm2) < 2 ^ 32"
      using n2 nums unfolding tm2 fb2_def by (auto split: if_splits)
    have "length (tm_storeBuffer tm2) \<le> n" using Suc.prems(4) Cons tm2 by simp
    note IH = Suc.IH [OF loop v2 tm2(1) this ok2 small]
    have "drained t (a # rest) (tm_flushBuffer tm) s1 s'"
      by (rule drained_Cons [OF ev _ fb2_def _ ok(1) nums]) (use IH in \<open>auto simp: tm2 tm1_def\<close>)
    then have "drained t (a # rest) (tm_flushBuffer tm) s s'"
      by (rule drained_acts [rotated -1]) (use m in \<open>auto simp: wlist_def\<close>)
    moreover have "ex_storebufferusage (cur_exec s') =
      ex_storebufferusage (cur_exec s) - count - of_nat (length (tm_storeBuffer tm))"
      using IH ev m by (simp add: evicts_def tm2 Cons algebra_simps)
    ultimately show ?thesis using IH unfolding Cons by blast
  qed
qed

end
