(* ===== verification/Demo_Machine.thy ===== *)
theory Demo_Machine
  imports Store_Lemmas
begin

text \<open>
  Small concrete machines, on which the properties of the checker are evaluated.
\<close>

section \<open>One user thread with given buffers\<close>

definition demo_store :: "addr \<Rightarrow> u64 \<Rightarrow> model_action" where
  "demo_store l v = the (action_sized NONATOMIC_WRITE ''p'' memory_order_relaxed l v 1 8)"

definition demo_flush :: "addr \<Rightarrow> model_action" where
  "demo_flush l = the (action_at ACTION_CLFLUSHOPT memory_order_seq_cst l VALUE_NONE 1 0)"

definition demo_exec :: "aid list \<Rightarrow> aid list \<Rightarrow> execution" where
  "demo_exec sb fb = \<lparr>ex_thread_map = [Some (ModelThread 0),
      Some ((UserThread 1 None)\<lparr>th_state := THREAD_READY,
        th_memory := ThreadMemory\<lparr>tm_storeBuffer := sb, tm_flushBuffer := fb\<rparr>\<rparr>)],
    ex_pthread_map = [], ex_pthread_counter = 2, ex_storebufferusage = of_nat (length sb),
    ex_action_trace = [], ex_obj_map = (\<lambda>_. None), ex_condvar_waiters_map = (\<lambda>_. None),
    ex_obj_wr_map = (\<lambda>_. None), ex_thrd_last_action = [None], ex_obj_to_cacheline = (\<lambda>_. None),
    ex_next_thread_id = 2, ex_used_sequence_numbers = 1, ex_bugs = [], ex_warnings = [],
    ex_asserted = False, ex_isfinished = False, ex_hasCrashed = False,
    ex_noWriteSinceCrashCheck = False, ex_enableCrash = False\<rparr>"

definition demo_checker :: "model_action list \<Rightarrow> aid list \<Rightarrow> aid list \<Rightarrow> checker" where
  "demo_checker acts sb fb = \<lparr>ck_acts = acts, ck_execs = [demo_exec sb fb], ck_cur = 0, ck_orig = 0,
    ck_prev = [], ck_nodestack = NodeStack, ck_replaystack = [],
    ck_params = \<lparr>p_firstCrash = 0, p_storebufferthreshold = 100, p_evictmax = 5, p_numcrashes = 1,
      p_enableCrash = False, p_enablePersistrace = False, p_randomExecution = -1\<rparr>,
    ck_execution_number = 1, ck_numcrashes = 0, ck_max_execution_seq_num = 0, ck_nextCrashPoint = 1,
    ck_sched = \<lparr>sch_enabled = [THREAD_DISABLED, THREAD_ENABLED], sch_curr_thread_index = 1,
      sch_current = Some 1\<rparr>,
    ck_mutexes = (\<lambda>_. \<lparr>ms_locked = None, ms_alloc_tid = 1, ms_alloc_clock = 0,
      ms_recursive = False, ms_lock_count = 0\<rparr>),
    ck_mem = (\<lambda>_. 0), ck_pmem = (Some (0x1000, 0x1000), None), ck_regionID = [],
    ck_races = initRaceDetector, ck_events = [], ck_found = (\<lambda>n v vs. v \<in> set vs), ck_found_pos = 0, ck_thread_at = (\<lambda>_. None),
    ck_random = (\<lambda>_. 0), ck_random_pos = 0, ck_clock = (\<lambda>_. 0), ck_clock_pos = 0,
    ck_curr_thread_num = 1, ck_chosen_thread = None, ck_thread_chosen = False\<rparr>"

lemma demo_valid: "valid (demo_checker acts sb fb)"
  by (simp add: valid_def demo_checker_def)

lemma demo_memory: "thread_memory_of (demo_checker acts sb fb) 1 =
    Some (ThreadMemory\<lparr>tm_storeBuffer := sb, tm_flushBuffer := fb\<rparr>)"
  by (simp add: thread_memory_of_def get_thread_def cur_exec_def exec_of_def demo_checker_def demo_exec_def)

lemma demo_used: "used (demo_checker acts sb fb) = 1"
  by (simp add: used_def cur_exec_def exec_of_def demo_checker_def demo_exec_def)

lemma demo_act: "act (demo_checker acts sb fb) a = acts ! a" "ck_acts (demo_checker acts sb fb) = acts"
  by (simp_all add: act_def demo_checker_def)

lemma demo_kinds: "is_flushopt (demo_flush l)" "\<not> is_flushopt (demo_store l v)" "l \<noteq> 0 \<Longrightarrow> is_write (demo_store l v)"
  if "l \<noteq> 0"
  using that by (simp_all add: demo_flush_def demo_store_def action_at_def action_sized_def
      is_flushopt_def kind_defs)

section \<open>After a crash\<close>

text \<open>
  The first execution stored 5, then 6 at the same address and crashed; the second is
  about to load the first byte.
\<close>

definition crash_demo :: checker where
  "crash_demo = (demo_checker [(demo_store 0x1000 5)\<lparr>act_seq := 2\<rparr>, (demo_store 0x1000 6)\<lparr>act_seq := 4\<rparr>] [] [])
     \<lparr>ck_execs := [(demo_exec [] [])\<lparr>ex_obj_wr_map := [0x1000 \<mapsto> [0, 1]]\<rparr>, demo_exec [] []],
      ck_cur := 1, ck_prev := [(0, NodeStack)]\<rparr>"

definition demo_load :: "nat \<Rightarrow> model_action" where
  "demo_load n = (demo_store 0x1000 0)\<lparr>act_type := ATOMIC_READ, act_size := n\<rparr>"

end
