(* ===== verification/Persistency.thy ===== *)
theory Persistency
  imports Demo_Machine
begin

text \<open>
  The properties of the buffers: the drain order of the store buffer, what a drained flush
  buffer makes persistent, that dropping a subsumed store changes no byte, and the number
  a flush carries that was never given one.
\<close>

section \<open>Draining\<close>

text \<open>
  C28: draining the store buffer of a thread without a crash empties it, leaves the buffers
  of the other threads alone and accounts for every operation taken out; the stores, store
  fences and clflushes become visible in the order they were issued, with increasing fresh
  numbers; and the write list of every word is extended by stores of the buffer to that
  word, in that order.
\<close>

theorem store_buffer_drains_in_order:
  assumes "emptyStoreBuffer t s = Some (False, s')" "valid s" "thread_memory_of s t = Some tm"
    "buffers_ok s tm"
    "unat (used s) + length (tm_storeBuffer tm) + length (tm_flushBuffer tm) < 2 ^ 32"
  shows "map_option tm_storeBuffer (thread_memory_of s' t) = Some [] \<and>
    (\<forall>u. u \<noteq> t \<longrightarrow> thread_memory_of s' u = thread_memory_of s u) \<and>
    ex_storebufferusage (cur_exec s') =
      ex_storebufferusage (cur_exec s) - of_nat (length (tm_storeBuffer tm)) \<and>
    sorted_wrt (<) (used s # map (\<lambda>a. act_seq (act s' a))
      (filter (\<lambda>a. \<not> is_flushopt (act s a)) (tm_storeBuffer tm))) \<and>
    (\<forall>al. \<exists>ws. subseq ws (filter (\<lambda>a. is_write (act s a) \<and>
        alignAddress (act_location (act s a)) = al) (tm_storeBuffer tm)) \<and>
      wlist s' al = wlist s al @ ws)"
proof -
  have "store_loop (length (tm_storeBuffer tm)) 0 t s = Some (False, s')"
    using assms(1,3) by (simp add: emptyStoreBuffer_def)
  note d = store_loop_spec [OF this assms(2,3) order_refl assms(4,5)]
  then show ?thesis by (auto simp: drained_def)
qed

theorem store_buffer_drains_in_order_witness:
  "\<exists>s'. emptyStoreBuffer 1 (demo_checker [demo_store 0x1000 5, demo_flush 0x1000, demo_store 0x1008 6] [0, 1, 2] [])
      = Some (False, s') \<and> sorted_wrt (<) [1, act_seq (act s' 0), act_seq (act s' 2)]"
proof -
  let ?s = "demo_checker [demo_store 0x1000 5, demo_flush 0x1000, demo_store 0x1008 6] [0, 1, 2] []"
  have "map_option fst (emptyStoreBuffer 1 ?s) = Some False" by code_simp
  then obtain s' where s': "emptyStoreBuffer 1 ?s = Some (False, s')" by auto
  have "buffers_ok ?s (ThreadMemory\<lparr>tm_storeBuffer := [0, 1, 2], tm_flushBuffer := []\<rparr>)"
    by (simp add: buffers_ok_def demo_act)
  from store_buffer_drains_in_order [OF s' demo_valid demo_memory this] s' show ?thesis
    by (simp add: demo_used demo_act demo_kinds nth_Cons')
qed

section \<open>What a fence makes persistent\<close>

text \<open>
  C29: emptying the flush buffer without a crash persists, for every flush in it, the store
  (or clflush) to its line that the thread had issued last before it: the persisted point
  of the line is at or after that store.  No line's persisted point moves back.
\<close>

theorem fence_makes_persistent:
  assumes "emptyFlushBuffer t s = Some (False, s')" "valid s" "thread_memory_of s t = Some tm"
    "buffers_ok s tm"
  shows "map_option tm_flushBuffer (thread_memory_of s' t) = Some [] \<and>
    (\<forall>f \<in> set (tm_flushBuffer tm). \<forall>w. act_lastwrite (act s f) = Some w \<longrightarrow>
       w \<notin> set (tm_flushBuffer tm) \<longrightarrow>
       act_seq (act s' w) \<le> cl_beginR (line_of s' (act_location (act s f)))) \<and>
    (\<forall>loc. cl_beginR (line_of s loc) \<le> cl_beginR (line_of s' loc))"
proof -
  have "flush_loop (length (tm_flushBuffer tm)) t s = Some (False, s')"
    using assms(1,3) by (simp add: emptyFlushBuffer_def)
  moreover have "\<forall>f \<in> set (tm_flushBuffer tm). f < length (ck_acts s) \<and> \<not> is_clflush (act s f)"
    using assms(4) by (auto simp: buffers_ok_def is_flushopt_def)
  ultimately show ?thesis
    using flush_loop_spec [OF _ assms(2,3) order_refl] by fastforce
qed

theorem fence_makes_persistent_witness:
  "\<exists>s'. emptyFlushBuffer 1 (demo_checker [(demo_store 0x1000 5)\<lparr>act_seq := 1\<rparr>,
      (demo_flush 0x1010)\<lparr>act_lastwrite := Some 0\<rparr>] [] [1]) = Some (False, s') \<and>
    act_seq (act s' 0) \<le> cl_beginR (line_of s' 0x1010)"
proof -
  let ?s = "demo_checker [(demo_store 0x1000 5)\<lparr>act_seq := 1\<rparr>,
      (demo_flush 0x1010)\<lparr>act_lastwrite := Some 0\<rparr>] [] [1]"
  have "map_option fst (emptyFlushBuffer 1 ?s) = Some False" by code_simp
  then obtain s' where s': "emptyFlushBuffer 1 ?s = Some (False, s')" by auto
  have loc: "act_location (demo_flush 0x1010) = 0x1010"
    by (simp add: demo_flush_def action_at_def)
  have "is_flushopt ((demo_flush 0x1010)\<lparr>act_lastwrite := Some 0\<rparr>)"
    using demo_kinds(1) [of "0x1010"] by (auto simp: is_flushopt_def kind_defs)
  then have "buffers_ok ?s (ThreadMemory\<lparr>tm_storeBuffer := [], tm_flushBuffer := [1]\<rparr>)"
    by (simp add: buffers_ok_def demo_act)
  from fence_makes_persistent [OF s' demo_valid demo_memory this] s' show ?thesis
    by (simp add: demo_act loc)
qed

section \<open>Subsumed stores\<close>

text \<open>The byte at an address as the newest store of the list that covers it wrote it.\<close>

fun newest_byte :: "(aid \<Rightarrow> model_action) \<Rightarrow> aid list \<Rightarrow> addr \<Rightarrow> u64 option" where
  "newest_byte heap [] a = None"
| "newest_byte heap (w # older) a =
     (if is_write (heap w) \<and> covers_byte (heap w) a
      then Some (drop_bit (8 * unat (a - act_bot (heap w))) (act_value (heap w)) AND 0xff)
      else newest_byte heap older a)"

lemma trunc_value_byte:
  assumes "wsize \<in> {1, 2, 4, 8}" "k < wsize"
  shows "drop_bit (8 * k) (trunc_value wsize v) AND 0xff = drop_bit (8 * k) v AND 0xff"
proof -
  have m: "(0xff::u64) = mask 8" "(0xffff::u64) = mask 16" "(0xffffffff::u64) = mask 32"
    by (simp_all add: mask_eq_exp_minus_1)
  show ?thesis
    by (rule bit_word_eqI)
       (use assms in \<open>auto simp: trunc_value_def m bit_and_iff bit_drop_bit_eq bit_mask_iff\<close>)
qed

lemma subsumed_byte:
  assumes "subsumed heap m older" "is_write m" "act_size m \<in> {1, 2, 4, 8}" "covers_byte m a"
  shows "newest_byte heap older a = Some (drop_bit (8 * unat (a - act_bot m)) (act_value m) AND 0xff)"
  using assms(1)
proof (induction older)
  case Nil
  then show ?case by simp
next
  case (Cons w' older)
  let ?o = "heap w'"
  have cov: "act_bot m \<le> a" "a < act_top m" using assms(4) by (simp_all add: covers_byte_def)
  show ?case
  proof (cases "\<not> is_write ?o \<or> act_bot m \<ge> act_top ?o \<or> act_bot ?o \<ge> act_top m")
    case True
    then have "\<not> (is_write ?o \<and> covers_byte ?o a)"
      using cov by (auto simp: covers_byte_def)
    moreover have "subsumed heap m older" using Cons.prems True by (auto simp: Let_def split: if_splits)
    ultimately show ?thesis using Cons.IH by auto
  next
    case False
    then have inside: "act_bot ?o \<le> act_bot m" "act_top ?o \<ge> act_top m"
      and val: "trunc_value (act_size m) (drop_bit (unat (act_bot m - act_bot ?o) * 8) (act_value ?o))
        = act_value m"
      using Cons.prems by (auto simp: Let_def)
    have "covers_byte ?o a" using inside cov by (auto simp: covers_byte_def)
    moreover have k: "unat (a - act_bot m) < act_size m"
    proof -
      have "a - act_bot m < of_nat (act_size m)"
        using cov assms(3) unfolding act_top_def act_bot_def by (auto; uint_arith)
      moreover have "unat (of_nat (act_size m) :: addr) = act_size m"
        using assms(3) by (auto simp: unat_of_nat)
      ultimately show ?thesis by (simp add: word_less_nat_alt)
    qed
    moreover have "unat (a - act_bot ?o) = unat (a - act_bot m) + unat (act_bot m - act_bot ?o)"
      using cov(1) inside(1) by (simp add: unat_sub word_le_nat_alt)
    moreover have "drop_bit (8 * unat (a - act_bot m)) (act_value m) AND 0xff
        = drop_bit (8 * unat (a - act_bot ?o)) (act_value ?o) AND 0xff"
      using trunc_value_byte [OF assms(3) k, of "drop_bit (unat (act_bot m - act_bot ?o) * 8) (act_value ?o)"]
      unfolding val by (simp add: calculation drop_bit_drop_bit algebra_simps)
    ultimately show ?thesis using False by simp
  qed
qed

text \<open>
  when a store is dropped because an older one subsumes it, no byte of the word
  reads differently: the newest stored value of every byte is the same with the store
  appended and without it.
\<close>

theorem dropped_store_changes_nothing:
  assumes "fst (add_write_to_lists e w s) = False" "is_write (act s w)"
    "act_size (act s w) \<in> {1, 2, 4, 8}"
  shows "snd (add_write_to_lists e w s) = s \<and>
    (\<exists>ws. ex_obj_wr_map (exec_of s e) (alignAddress (act_location (act s w))) = Some ws \<and>
      (\<forall>a. newest_byte (act s) (rev (ws @ [w])) a = newest_byte (act s) (rev ws) a))"
proof -
  from assms(1) obtain ws where ws: "ex_obj_wr_map (exec_of s e) (alignAddress (act_location (act s w))) = Some ws"
    "subsumed (act s) (act s w) (rev ws)" "snd (add_write_to_lists e w s) = s"
    by (auto simp: add_write_to_lists_def Let_def split: if_splits option.splits)
  with subsumed_byte [OF ws(2) assms(2,3)] show ?thesis by auto
qed

theorem dropped_store_changes_nothing_witness:
  "let s = upd_cur (\<lambda>x. x\<lparr>ex_obj_wr_map := [0x1000 \<mapsto> [0]]\<rparr>)
        (demo_checker [demo_store 0x1000 0x0807, (demo_store 0x1001 8)\<lparr>act_size := 1\<rparr>] [] [])
   in fst (add_write_to_lists 0 1 s) = False \<and> snd (add_write_to_lists 0 1 s) = s"
proof -
  let ?s = "upd_cur (\<lambda>x. x\<lparr>ex_obj_wr_map := [0x1000 \<mapsto> [0]]\<rparr>)
        (demo_checker [demo_store 0x1000 0x0807, (demo_store 0x1001 8)\<lparr>act_size := 1\<rparr>] [] [])"
  have d: "fst (add_write_to_lists 0 1 ?s) = False" by code_simp
  have "is_write (act ?s 1)" "act_size (act ?s 1) \<in> {1, 2, 4, 8}"
    using demo_kinds(3) [of "0x1001" 8] by (simp_all add: frame_simps demo_act kind_defs)
  from dropped_store_changes_nothing [OF d this] d show ?thesis by (simp add: Let_def)
qed

section \<open>A flush without a preceding store fence\<close>

text \<open>
  C30: a clflushopt (or clwb) that leaves the store buffer of a thread that has not executed
  a store fence keeps, as the number of the last fence, the low half of \<^verbatim>\<open>VALUE_NONE\<close>
  that its constructor stored in the shared union; evicting it then moves the persisted
  point of its line to at least \<open>0xdeadbeef\<close>, whatever the line and the stores are.
\<close>

theorem unfenced_flush_persists_garbage:
  assumes "evictFlushOpt t a s = Some s'" "valid s" "thread_memory_of s t = Some tm"
    "tm_lastsfence tm = None" "is_flushopt (act s a)" "act_value (act s a) = VALUE_NONE"
  shows "0xdeadbeef \<le> cl_beginR (persistCacheLine clk (act s' a) cl)"
proof -
  have "upd_memory t (\<lambda>tm. tm\<lparr>tm_flushBuffer := tm_flushBuffer tm @ [a]\<rparr>) s = Some s'"
    using assms(1,3,4) by (simp add: evictFlushOpt_def)
  from upd_memory_spec [OF this assms(2)] have "act s' a = act s a" by (simp add: act_def)
  then have m: "\<not> is_clflush (act s' a)" "get_last_clflush (act s' a) = 0xdeadbeef"
    using assms(5,6) low32_VALUE_NONE by (simp_all add: is_flushopt_def get_last_clflush_def)
  then have "get_last_clflush (act s' a) \<le> cl_beginR (persistCacheLine clk (act s' a) cl)"
    by (auto simp: persistCacheLine_def Let_def split: option.split)
  then show ?thesis using m by simp
qed

theorem unfenced_flush_persists_garbage_witness:
  "\<exists>s'. evictFlushOpt 1 0 (demo_checker [demo_flush 0x1000] [] []) = Some s' \<and>
     0xdeadbeef \<le> cl_beginR (persistCacheLine (\<lambda>_. 1) (act s' 0) CacheLine)"
proof -
  let ?s = "demo_checker [demo_flush 0x1000] [] []"
  have "map_option (\<lambda>_. True) (evictFlushOpt 1 0 ?s) = Some True" by code_simp
  then obtain s' where s': "evictFlushOpt 1 0 ?s = Some s'" by (auto simp: map_option_eq_Some)
  have "is_flushopt (act ?s 0)" "act_value (act ?s 0) = VALUE_NONE"
    using demo_kinds(1) [of "0x1000"] by (simp_all add: demo_act) (simp add: demo_flush_def action_at_def)
  from unfenced_flush_persists_garbage [OF s' demo_valid demo_memory _ this] s' show ?thesis
    by (auto simp: ThreadMemory_def)
qed

end
