(* ===== verification/Reads.thy ===== *)
theory Reads
  imports Store_Buffer
begin

text \<open>
  What a load may read: \<^verbatim>\<open>checkOverlap\<close> and \<^verbatim>\<open>getLastWriteFromStoreBuffer\<close> of
  \<^verbatim>\<open>Model/threadmemory.{h,cc}\<close> and the reading half of \<^verbatim>\<open>Model/execution.cc\<close>.  A load
  is answered byte by byte: from the store buffer of its thread, then from the visible
  writes of this execution, then from every point of the executions before the last
  crashes at which the cache line may have been written back.  Choosing one of the
  candidates narrows the write-back window of the line.
\<close>

section \<open>Overlap\<close>

text \<open>
  \<^verbatim>\<open>writeoffset\<close> is a signed 64-bit number that is advanced once per byte; a byte is
  covered when its offset lies in the write.
\<close>

definition offset_in :: "addr \<Rightarrow> addr \<Rightarrow> nat \<Rightarrow> nat \<Rightarrow> bool" where
  "offset_in rbot wbot wsize i =
     (let writeoffset = sint (rbot - wbot + of_nat i) in writeoffset \<ge> 0 \<and> writeoffset < int wsize)"

fun overlap_loop :: "eid \<Rightarrow> aid \<Rightarrow> addr \<Rightarrow> addr \<Rightarrow> nat \<Rightarrow> nat list \<Rightarrow> write_vec \<Rightarrow> u32 \<Rightarrow>
    bool \<times> write_vec \<times> u32" where
  "overlap_loop exec write rbot wbot wsize [] writes numslotsleft = (False, writes, numslotsleft)"
| "overlap_loop exec write rbot wbot wsize (i # ks) writes numslotsleft =
     (if writes ! i = None \<and> offset_in rbot wbot wsize i
      then (let writes' = writes[i := Some (exec, write)]; left = numslotsleft - 1 in
            if left = 0 then (True, writes', left)
            else overlap_loop exec write rbot wbot wsize ks writes' left)
      else overlap_loop exec write rbot wbot wsize ks writes numslotsleft)"

definition checkOverlap :: "eid \<Rightarrow> (aid \<Rightarrow> model_action) \<Rightarrow> write_vec \<Rightarrow> aid \<Rightarrow> u32 \<Rightarrow> addr \<Rightarrow> addr \<Rightarrow>
    nat \<Rightarrow> bool \<times> write_vec \<times> u32" where
  "checkOverlap exec heap writes write numslotsleft rbot rtop n =
     (let wbot = act_bot (heap write); wtop = act_top (heap write) in
      if wbot \<ge> rtop \<or> rbot \<ge> wtop then (False, writes, numslotsleft)
      else overlap_loop exec write rbot wbot (act_size (heap write)) [0..<n] writes numslotsleft)"

text \<open>Both lists of writes are walked from their newest end, until no slot is open.\<close>

fun overlap_writes :: "eid \<Rightarrow> (aid \<Rightarrow> model_action) \<Rightarrow> model_action \<Rightarrow> aid list \<Rightarrow> write_vec \<Rightarrow> u32 \<Rightarrow>
    bool \<times> write_vec \<times> u32" where
  "overlap_writes exec heap read [] writes numslotsleft = (False, writes, numslotsleft)"
| "overlap_writes exec heap read (w # older) writes numslotsleft =
     (if is_write (heap w) then
        (case checkOverlap exec heap writes w numslotsleft (act_bot read) (act_top read) (act_size read) of
           (full, writes', left) \<Rightarrow>
             if full then (True, writes', left) else overlap_writes exec heap read older writes' left)
      else overlap_writes exec heap read older writes numslotsleft)"

definition getLastWriteFromStoreBuffer :: "thread_memory \<Rightarrow> (aid \<Rightarrow> model_action) \<Rightarrow> model_action \<Rightarrow>
    eid \<Rightarrow> write_vec \<Rightarrow> u32 \<Rightarrow> bool \<times> write_vec \<times> u32" where
  "getLastWriteFromStoreBuffer tm heap read exec writes numslotsleft =
     overlap_writes exec heap read (rev (tm_storeBuffer tm)) writes numslotsleft"

definition processWrites :: "eid \<Rightarrow> (aid \<Rightarrow> model_action) \<Rightarrow> model_action \<Rightarrow> write_vec \<Rightarrow> aid list \<Rightarrow>
    u32 \<Rightarrow> bool \<times> write_vec \<times> u32" where
  "processWrites exec heap read writes lst numslotsleft =
     overlap_writes exec heap read (rev lst) writes numslotsleft"

section \<open>Uninstrumented stores\<close>

fun read_bytes :: "(addr \<Rightarrow> u8) \<Rightarrow> addr \<Rightarrow> nat \<Rightarrow> u64" where
  "read_bytes mem a 0 = 0"
| "read_bytes mem a (Suc n) = ucast (mem a) OR push_bit 8 (read_bytes mem (a + 1) n)"

text \<open>\<^verbatim>\<open>ValidateAddress64\<close> asserts alignment; the eight shadow bytes are neighbours.\<close>

definition ValidateAddress64 :: "(addr \<Rightarrow> u8) \<Rightarrow> addr \<Rightarrow> race_detector \<Rightarrow> (bool \<times> race_detector) option" where
  "ValidateAddress64 mem address rd =
     (if address AND 7 \<noteq> 0 then None else
      (let s = (\<lambda>i. slot_plus (lookup_slot address) i);
           val = list_ex (\<lambda>i. rd_data rd (s i) \<noteq> mem (address + of_nat i)) [0..<8]
       in Some (val, if val
            then rd\<lparr>rd_data := fold (\<lambda>i d. d(s i := mem (address + of_nat i))) [0..<8] (rd_data rd)\<rparr>
            else rd)))"

text \<open>
  The newest write of the byte, through this execution and the ones before: does memory
  still hold its value?
\<close>

fun newest_value :: "(aid \<Rightarrow> model_action) \<Rightarrow> addr \<Rightarrow> aid list \<Rightarrow> u64 option" where
  "newest_value heap a [] = None"
| "newest_value heap a (w # older) =
     (if a < act_bot (heap w) \<or> a \<ge> act_top (heap w) then newest_value heap a older
      else Some (drop_bit (8 * unat (a - act_bot (heap w))) (act_value (heap w)) AND 0xff))"

fun valid_value_loop :: "checker \<Rightarrow> addr \<Rightarrow> u8 \<Rightarrow> eid list \<Rightarrow> bool" where
  "valid_value_loop s a val [] = False"
| "valid_value_loop s a val (e # es) =
     (case ex_obj_wr_map (exec_of s e) (alignAddress a) of
        None \<Rightarrow> valid_value_loop s a val es
      | Some writes \<Rightarrow>
          (case newest_value (act s) a (rev writes) of
             Some wval \<Rightarrow> wval = ucast val
           | None \<Rightarrow> valid_value_loop s a val es))"

definition hasValidValue :: "addr \<Rightarrow> checker \<Rightarrow> bool" where
  "hasValidValue a s = valid_value_loop s a (ck_mem s a) (ck_cur s # map fst (ck_prev s))"

text \<open>
  A write placed lazily: it has its number already and goes into the middle of the trace.
  The thread must have acted before.
\<close>

definition add_normal_write_to_lists :: "aid \<Rightarrow> checker \<Rightarrow> checker option" where
  "add_normal_write_to_lists a s =
     (if \<not> is_write (act s a) then None else do {
        m \<leftarrow> merge_cv_parent (act s a) None;
        let s1 = addAction (ck_cur s) a (upd_act a (\<lambda>_. m) s);
        let last = ex_thrd_last_action (cur_exec s1);
        if act_tid m < length last then
          (if (case last ! act_tid m of None \<Rightarrow> True
               | Some l \<Rightarrow> get_seq_number (act s1 l) = get_seq_number m)
           then Some (upd_cur (\<lambda>x. x\<lparr>ex_thrd_last_action := last[act_tid m := Some a]\<rparr>) s1)
           else Some s1)
        else None
      })"

definition mask_value :: "nat \<Rightarrow> u64 \<Rightarrow> u64 option" where
  "mask_value n v =
     (if n = 1 then Some (v AND 0xff) else if n = 2 then Some (v AND 0xffff)
      else if n = 4 then Some (v AND 0xffffffff) else if n = 8 then Some v else None)"

definition convertNonAtomicStore :: "addr \<Rightarrow> nat \<Rightarrow> checker \<Rightarrow> (aid \<times> checker) option" where
  "convertNonAtomicStore loc n s = do {
     value \<leftarrow> mask_value n (read_bytes (ck_mem s) loc 8);
     let (storethread, storeclock) = getStoreThreadAndClock (ck_races s) loc;
     let s1 = s\<lparr>ck_races := setAtomicStoreFlag loc (ck_races s)\<rparr>;
     t \<leftarrow> (case get_thread s1 storethread of Some th \<Rightarrow> Some (th_id th) | None \<Rightarrow> sch_current (ck_sched s1));
     m \<leftarrow> action_positioned NONATOMIC_WRITE ''uninstrumented'' memory_order_relaxed loc value t;
     let (num, s2) = (if storeclock = 0 then get_next_seq_num s1 else (storeclock, s1));
     m' \<leftarrow> set_seq_number (m\<lparr>act_size := n\<rparr>) num;
     let (a, s3) = new_action m' s2;
     s4 \<leftarrow> add_normal_write_to_lists a s3;
     Some (a, snd (add_write_to_lists (ck_cur s4) a s4))
   }"

fun flush_buffers_loop :: "addr \<Rightarrow> tid list \<Rightarrow> bool \<Rightarrow> checker \<Rightarrow> (bool \<times> checker) option" where
  "flush_buffers_loop address [] didflush s = Some (didflush, s)"
| "flush_buffers_loop address (i # ks) didflush s = do {
     (flushed, s1) \<leftarrow> emptyWrites i address s;
     if ex_hasCrashed (cur_exec s1) then Some (False, s1)
     else flush_buffers_loop address ks (didflush \<or> flushed) s1
   }"

definition flushBuffers :: "addr \<Rightarrow> checker \<Rightarrow> (bool \<times> checker) option" where
  "flushBuffers address s = flush_buffers_loop address [0..<get_num_threads s] False s"

section \<open>The initial value of a word\<close>

definition ensureInitialValue :: "aid \<Rightarrow> checker \<Rightarrow> checker option" where
  "ensureInitialValue cur s =
     (let align_address = alignAddress (act_location (act s cur));
          ispersistent = pmem_is_pmem s align_address;
          exec = (if ispersistent then ck_orig s else ck_cur s) in
      case ex_obj_wr_map (exec_of s exec) align_address of
        Some _ \<Rightarrow> Some s
      | None \<Rightarrow> do {
          m \<leftarrow> action_at ATOMIC_INIT memory_order_relaxed align_address
                 (read_bytes (ck_mem s) align_address 8) 0 8;
          m' \<leftarrow> merge_cv_parent m None;
          let (a, s1) = new_action m' s;
          (val, rd) \<leftarrow> ValidateAddress64 (ck_mem s1) align_address (ck_races s1);
          let s2 = addAction exec a (s1\<lparr>ck_races := rd\<rparr>);
          Some (snd (add_write_to_lists exec a s2))
        })"

section \<open>Candidates from executions before a crash\<close>

text \<open>\<^verbatim>\<open>HashSet::add\<close>: a vector is added at the end of the iteration order unless it is found.\<close>

definition add_vec :: "write_vec \<Rightarrow> write_vec list \<Rightarrow> checker \<Rightarrow> write_vec list \<times> checker" where
  "add_vec v vs s =
     (if ck_found s (ck_found_pos s) v vs then vs else vs @ [v], s\<lparr>ck_found_pos := ck_found_pos s + 1\<rparr>)"

fun add_vecs :: "write_vec list \<Rightarrow> write_vec list \<Rightarrow> checker \<Rightarrow> write_vec list \<times> checker" where
  "add_vecs [] vs s = (vs, s)"
| "add_vecs (v # new) vs s = (let (vs', s') = add_vec v vs s in add_vecs new vs' s')"

text \<open>Filling the open slots of a vector that a write of execution \<open>e\<close> covers.\<close>

definition fill_slot :: "eid \<Rightarrow> aid \<Rightarrow> addr \<Rightarrow> addr \<Rightarrow> nat \<Rightarrow> nat \<Rightarrow> write_slot \<Rightarrow> write_slot" where
  "fill_slot e w rbot wbot wsize i slot =
     (case slot of Some x \<Rightarrow> Some x
      | None \<Rightarrow> if offset_in rbot wbot wsize i then Some (e, w) else None)"

definition fill_vec :: "eid \<Rightarrow> aid \<Rightarrow> addr \<Rightarrow> addr \<Rightarrow> nat \<Rightarrow> write_vec \<Rightarrow> write_vec" where
  "fill_vec e w rbot wbot wsize vec =
     map (\<lambda>i. fill_slot e w rbot wbot wsize i (vec ! i)) [0..<length vec]"

definition has_null :: "write_vec list \<Rightarrow> bool" where
  "has_null vs = list_ex (\<lambda>v. None \<in> set v) vs"

text \<open>
  The walk from the newest write back: the seeds are added again at every write that may
  have been the last one written back; the first write that must have been in is the last
  of these, and the walk ends when all slots are full.
\<close>

fun prior_loop :: "eid \<Rightarrow> (aid \<Rightarrow> model_action) \<Rightarrow> model_action \<Rightarrow> modelclock \<Rightarrow> modelclock \<Rightarrow> write_vec list \<Rightarrow>
    aid list \<Rightarrow> write_vec list \<Rightarrow> bool \<Rightarrow> checker \<Rightarrow> write_vec list \<times> bool \<times> bool \<times> checker" where
  "prior_loop e heap read begin_r end_r seeds [] currs past s = (currs, past, False, s)"
| "prior_loop e heap read begin_r end_r seeds (w # older) currs past s =
     (let write = heap w; clock = get_seq_number write; rbot = act_bot read; rtop = act_top read;
          wbot = act_bot write; wtop = act_top write in
      if end_r \<noteq> 0 \<and> clock > end_r then prior_loop e heap read begin_r end_r seeds older currs past s
      else if wbot \<ge> rtop \<or> rbot \<ge> wtop then prior_loop e heap read begin_r end_r seeds older currs past s
      else
        (let (currs1, s1) = (if past then (currs, s) else add_vecs seeds currs s);
             currs2 = map (fill_vec e w rbot wbot (act_size write)) currs1;
             hasNull = has_null currs2 in
         if clock \<le> begin_r \<or> is_initialization write then
           (if \<not> hasNull then (currs2, True, True, s1)
            else prior_loop e heap read begin_r end_r seeds older currs2 True s1)
         else prior_loop e heap read begin_r end_r seeds older currs2 past s1))"

definition lookforWritesInPriorExecution :: "eid \<Rightarrow> model_action \<Rightarrow> write_vec list \<Rightarrow> checker \<Rightarrow>
    bool \<times> write_vec list \<times> checker" where
  "lookforWritesInPriorExecution e read seeds s =
     (let address = act_location read;
          cl = ex_obj_to_cacheline (exec_of s e) (getCacheID address);
          begin_r = (case cl of Some c \<Rightarrow> cl_beginR c | None \<Rightarrow> 0);
          end_r = (case cl of Some c \<Rightarrow> cl_endR c | None \<Rightarrow> 0) in
      case ex_obj_wr_map (exec_of s e) (alignAddress address) of
        None \<Rightarrow> (False, seeds, s)
      | Some writes \<Rightarrow>
          (let (currs, past, isDone, s1) =
                 prior_loop e (act s) read begin_r end_r seeds (rev writes) [] False s in
           if past then (isDone, currs, s1)
           else (let (currs', s2) = add_vecs seeds currs s1 in (isDone, currs', s2))))"

fun prior_executions :: "model_action \<Rightarrow> eid list \<Rightarrow> write_vec list \<Rightarrow> checker \<Rightarrow>
    write_vec list \<times> checker" where
  "prior_executions read [] seeds s = (seeds, s)"
| "prior_executions read (e # es) seeds s =
     (let (done, seeds', s') = lookforWritesInPriorExecution e read seeds s in
      if done then (seeds', s') else prior_executions read es seeds' s')"

section \<open>The candidates of a load\<close>

text \<open>
  Bytes changed behind the checker's back first; \<open>None\<close> in the result is the early return
  at a crash.
\<close>

fun extra_writes :: "addr \<Rightarrow> nat list \<Rightarrow> write_vec \<Rightarrow> u32 \<Rightarrow> checker \<Rightarrow>
    ((write_vec \<times> u32) option \<times> checker) option" where
  "extra_writes address [] write_array numslotsleft s = Some (Some (write_array, numslotsleft), s)"
| "extra_writes address (i # ks) write_array numslotsleft s =
     (let curraddress = address + of_nat i;
          (hasExtraWrite, rd) = ValidateAddress8 (ck_mem s curraddress) curraddress (ck_races s);
          s1 = s\<lparr>ck_races := rd\<rparr> in
      if hasExtraWrite \<and> (\<not> pmem_is_pmem s1 curraddress \<or> \<not> hasValidValue curraddress s1) then do {
        (didflush, s2) \<leftarrow> flushBuffers curraddress s1;
        if ex_hasCrashed (cur_exec s2) then Some (None, s2)
        else do {
          (nonatomicstore, s3) \<leftarrow> convertNonAtomicStore curraddress 1 s2;
          extra_writes address ks (write_array[i := Some (ck_cur s3, nonatomicstore)]) (numslotsleft - 1) s3
        }
      } else extra_writes address ks write_array numslotsleft s1)"

definition build_may_read_from :: "aid \<Rightarrow> checker \<Rightarrow> (write_vec list \<times> checker) option" where
  "build_may_read_from cur s =
     (if \<not> is_read (act s cur) then None else do {
        let n = act_size (act s cur);
        let address = act_location (act s cur);
        (r, s1) \<leftarrow> extra_writes address [0..<n] (replicate n None) (of_nat n) s;
        (case r of
           None \<Rightarrow> Some ([], s1)
         | Some (write_array, numslotsleft) \<Rightarrow>
             let read = act s1 cur in
             if numslotsleft = 0 then Some ([write_array], s1)
             else do {
               tm \<leftarrow> thread_memory_of s1 (act_tid read);
               let (full, write_array1, left1) =
                 getLastWriteFromStoreBuffer tm (act s1) read (ck_cur s1) write_array numslotsleft;
               if full then Some ([write_array1], s1)
               else
                 (let (full2, write_array2, left2) =
                    (case ex_obj_wr_map (cur_exec s1) (alignAddress address) of
                       None \<Rightarrow> (False, write_array1, left1)
                     | Some lst \<Rightarrow> processWrites (ck_cur s1) (act s1) read write_array1 lst left1) in
                  if full2 then Some ([write_array2], s1)
                  else
                    (let (seedWrites, s2) = add_vec write_array2 [] s1;
                         (rf_set, s3) = (if pmem_is_pmem s2 address
                            then prior_executions read (map fst (ck_prev s2)) seedWrites s2
                            else (seedWrites, s2)) in
                     if rf_set = [] then None else Some (rf_set, s3)))
             })
      })"

section \<open>Reading\<close>

text \<open>
  The byte a slot supplies; a negative or too large shift, like an open slot, is undefined.
\<close>

definition slot_byte :: "(aid \<Rightarrow> model_action) \<Rightarrow> addr \<Rightarrow> aid \<Rightarrow> u64 option" where
  "slot_byte heap curraddress rf =
     (let writeoffset = sint (curraddress - act_bot (heap rf)) in
      if writeoffset \<ge> 0 \<and> writeoffset < 8
      then Some (drop_bit (8 * nat writeoffset) (act_value (heap rf)) AND 0xff) else None)"

definition setBeginRange :: "eid \<Rightarrow> addr \<Rightarrow> modelclock \<Rightarrow> checker \<Rightarrow> checker" where
  "setBeginRange e address c s =
     (let (cl, s1) = getCacheLine e address s in put_cache_line e address (cl\<lparr>cl_beginR := c\<rparr>) s1)"

definition setEndRange :: "eid \<Rightarrow> addr \<Rightarrow> modelclock \<Rightarrow> checker \<Rightarrow> checker" where
  "setEndRange e address c s =
     (let (cl, s1) = getCacheLine e address s in put_cache_line e address (cl\<lparr>cl_endR := c\<rparr>) s1)"

text \<open>The line was not written back after the first of the writes that covers the byte.\<close>

definition bound_before :: "eid \<Rightarrow> addr \<Rightarrow> addr \<Rightarrow> modelclock \<Rightarrow> aid list \<Rightarrow> checker \<Rightarrow> checker" where
  "bound_before e address curraddress currend writes s =
     (case find (\<lambda>w. covers_byte (act s w) curraddress) writes of
        None \<Rightarrow> s
      | Some w \<Rightarrow>
          (let c = get_seq_number (act s w) in
           if currend = 0 \<or> c \<le> currend then setEndRange e address (c - 1) s else s))"

fun narrow_loop :: "eid \<Rightarrow> aid \<Rightarrow> addr \<Rightarrow> addr \<Rightarrow> eid list \<Rightarrow> checker \<Rightarrow> checker option" where
  "narrow_loop exec rf address curraddress [] s = Some s"
| "narrow_loop exec rf address curraddress (pexec # es) s =
     (case ex_obj_wr_map (exec_of s pexec) (alignAddress address) of
        None \<Rightarrow> narrow_loop exec rf address curraddress es s
      | Some writes \<Rightarrow>
          (let (cl, s1) = getCacheLine pexec address s; currend = cl_endR cl in
           if pexec = exec then
             (let c = get_seq_number (act s1 rf);
                  s2 = (if cl_beginR cl < c then setBeginRange pexec address c s1 else s1) in
              case dropWhile (\<lambda>w. w \<noteq> rf) writes of
                [] \<Rightarrow> None
              | _ # nextNodes \<Rightarrow> Some (bound_before pexec address curraddress currend nextNodes s2))
           else narrow_loop exec rf address curraddress es
                  (bound_before pexec address curraddress currend writes s1)))"

text \<open>From the last byte of the load to the first.\<close>

fun read_loop :: "aid \<Rightarrow> write_vec \<Rightarrow> nat list \<Rightarrow> u64 \<Rightarrow> checker \<Rightarrow> (u64 \<times> checker) option" where
  "read_loop cur rfarray [] value s = Some (value, s)"
| "read_loop cur rfarray (i # ks) value s =
     (case rfarray ! i of
        None \<Rightarrow> None
      | Some (exec, rf) \<Rightarrow> do {
          let address = act_location (act s cur);
          let curraddress = address + of_nat i;
          byte \<leftarrow> slot_byte (act s) curraddress rf;
          let value' = push_bit 8 value OR byte;
          s1 \<leftarrow> (if exec = ck_cur s
                 then Some (case act_cv (act s rf) of
                     None \<Rightarrow> s | Some cv \<Rightarrow> upd_act cur (\<lambda>m. merge_cv m cv) s)
                 else narrow_loop exec rf address curraddress (map fst (ck_prev s)) s);
          read_loop cur rfarray ks value' s1
        })"

definition process_read :: "aid \<Rightarrow> write_vec \<Rightarrow> checker \<Rightarrow> checker option" where
  "process_read cur rfarray s =
     (if \<not> is_read (act s cur) then None else do {
        let s1 = emit (ReadFrom (act s cur) rfarray) s;
        (value, s2) \<leftarrow> read_loop cur rfarray (rev [0..<act_size (act s1 cur)]) 0 s1;
        let s3 = upd_act cur (\<lambda>m. m\<lparr>act_read_value := value\<rparr>) s2;
        s4 \<leftarrow> upd_thread (act_tid (act s3 cur)) (\<lambda>th. th\<lparr>th_last_action_val := value\<rparr>) s3;
        if is_rmw_read (act s4 cur) then Some s4 else initialize_curr_action cur s4
      })"

definition handle_read :: "aid \<Rightarrow> checker \<Rightarrow> checker option" where
  "handle_read cur s = do {
     (rf_set, s1) \<leftarrow> build_may_read_from cur s;
     let s2 = emit (MayReadFrom (act s1 cur) rf_set) s1;
     if ex_hasCrashed (cur_exec s2) then Some s2
     else do {
       (index, s3) \<leftarrow> (if length rf_set \<noteq> 1
          then do { (node, s') \<leftarrow> explore (length rf_set) s2; Some (node_choice node s') }
          else Some (0, s2));
       if index < length rf_set then process_read cur (rf_set ! index) s3 else None
     }
   }"

end
