(* ===== verification/Read_Lemmas.thy ===== *)
theory Read_Lemmas
  imports Reads Store_Lemmas
begin

text \<open>
  What the byte-wise searches of \<^verbatim>\<open>Reads\<close> compute: the newest covering write of every
  byte, and the executions' write-back points.
\<close>

section \<open>Addresses\<close>

text \<open>Accesses of user space: the byte range stays below half of the address space.\<close>

definition small :: "model_action \<Rightarrow> bool" where
  "small m \<longleftrightarrow> unat (act_location m) + act_size m \<le> 2 ^ 63"

lemma small_top:
  assumes "small m"
  shows "unat (act_top m) = unat (act_bot m) + act_size m"
proof -
  have s: "act_size m < 2 ^ 64" using assms by (simp add: small_def)
  then have "unat (of_nat (act_size m) :: addr) = act_size m" by (simp add: unat_of_nat)
  then show ?thesis
    using assms s unat_add_lem [of "act_location m" "of_nat (act_size m)"]
    by (simp add: act_top_def act_bot_def small_def)
qed

lemma unat_plus_nat:
  assumes "unat (a::addr) + i < 2 ^ 64"
  shows "unat (a + of_nat i) = unat a + i"
proof -
  have "i < 2 ^ 64" using assms by simp
  then have "unat (of_nat i :: addr) = i" by (simp add: unat_of_nat)
  then show ?thesis using assms unat_add_lem [of a "of_nat i"] by simp
qed

lemma covers_byte_nat:
  "small w \<Longrightarrow> covers_byte w a \<longleftrightarrow> unat (act_bot w) \<le> unat a \<and> unat a < unat (act_bot w) + act_size w"
  by (simp add: covers_byte_def word_le_nat_alt word_less_nat_alt small_top)

lemma sint_diff:
  assumes "unat (a::addr) < 2 ^ 63" "unat (b::addr) \<le> 2 ^ 63"
  shows "sint (a - b) = int (unat a) - int (unat b)"
proof -
  have "a - b = word_of_int (int (unat a) - int (unat b))"
    by (simp add: uint_nat [symmetric])
  also have "sint \<dots> = signed_take_bit 63 (int (unat a) - int (unat b))"
    using sint_sbintrunc' [where 'a = 64, of "int (unat a) - int (unat b)"] by simp
  also have "\<dots> = int (unat a) - int (unat b)"
  proof (rule signed_take_bit_int_eq_self)
    have "int (unat a) < 2 ^ 63" "int (unat b) \<le> 2 ^ 63"
      using assms by (simp_all only: flip: of_nat_less_iff [where 'a = int] of_nat_le_iff [where 'a = int]) simp_all
    then show "- (2 ^ 63) \<le> int (unat a) - int (unat b)" "int (unat a) - int (unat b) < 2 ^ 63"
      by linarith+
  qed
  finally show ?thesis .
qed

lemma offset_in_covers:
  assumes "small r" "small w" "i < act_size r"
  shows "offset_in (act_bot r) (act_bot w) (act_size w) i \<longleftrightarrow> covers_byte w (act_bot r + of_nat i)"
proof -
  have b: "unat (act_bot r + of_nat i) = unat (act_bot r) + i"
    using assms(1,3) by (intro unat_plus_nat) (simp add: small_def act_bot_def)
  have e: "act_bot r - act_bot w + of_nat i = (act_bot r + of_nat i) - act_bot w" by simp
  have "unat (act_bot r + of_nat i) < 2 ^ 63" "unat (act_bot w) \<le> 2 ^ 63"
    using assms b by (simp_all add: small_def act_bot_def)
  from sint_diff [OF this]
  have "sint ((act_bot r + of_nat i) - act_bot w) = int (unat (act_bot r) + i) - int (unat (act_bot w))"
    unfolding b .
  then show ?thesis
    unfolding offset_in_def Let_def e covers_byte_nat [OF assms(2)] b by linarith
qed

lemma no_overlap_no_cover:
  assumes "small r" "small w" "i < act_size r" "act_bot w \<ge> act_top r \<or> act_bot r \<ge> act_top w"
  shows "\<not> covers_byte w (act_bot r + of_nat i)"
proof -
  have b: "unat (act_bot r + of_nat i) = unat (act_bot r) + i"
    using assms(1,3) by (intro unat_plus_nat) (simp add: small_def act_bot_def)
  from assms(4) show ?thesis
    using covers_byte_nat [OF assms(2), of "act_bot r + of_nat i"] b assms(3)
    by (auto simp: word_le_nat_alt small_top [OF assms(1)] small_top [OF assms(2)])
qed

section \<open>Filling slots\<close>

definition open_slots :: "write_vec \<Rightarrow> nat" where
  "open_slots v = length (filter (\<lambda>x. x = None) v)"

lemma open_slots_0: "open_slots v = 0 \<longleftrightarrow> None \<notin> set v"
  unfolding open_slots_def length_0_conv filter_empty_conv by metis

lemma open_slots_le: "open_slots v \<le> length v"
  by (simp add: open_slots_def)

lemma open_slots_update:
  "i < length v \<Longrightarrow> v ! i = None \<Longrightarrow> Suc (open_slots (v[i := Some x])) = open_slots v"
  unfolding open_slots_def
proof (induction v arbitrary: i)
  case (Cons y v)
  then show ?case by (cases i) auto
qed simp

text \<open>The slots filled from a list of writes, newest first.\<close>

definition fill_from :: "eid \<Rightarrow> (aid \<Rightarrow> model_action) \<Rightarrow> addr \<Rightarrow> aid list \<Rightarrow> write_vec \<Rightarrow> write_vec" where
  "fill_from e heap rbot ws v =
     map (\<lambda>i. case v ! i of Some x \<Rightarrow> Some x
       | None \<Rightarrow> map_option (Pair e) (find (\<lambda>w. covers_byte (heap w) (rbot + of_nat i)) ws)) [0..<length v]"

lemma length_fill_from [simp]: "length (fill_from e heap rbot ws v) = length v"
  by (simp add: fill_from_def)

lemma fill_from_nth: "i < length v \<Longrightarrow> fill_from e heap rbot ws v ! i =
    (case v ! i of Some x \<Rightarrow> Some x
     | None \<Rightarrow> map_option (Pair e) (find (\<lambda>w. covers_byte (heap w) (rbot + of_nat i)) ws))"
  by (cases "v ! i") (simp_all add: fill_from_def)

lemma fill_from_Nil [simp]: "fill_from e heap rbot [] v = v"
  by (rule nth_equalityI) (auto simp: fill_from_nth split: option.splits)

lemma find_append_case:
  "find P (xs @ ys) = (case find P xs of Some x \<Rightarrow> Some x | None \<Rightarrow> find P ys)"
  by (induction xs) auto

lemma fill_from_append:
  "fill_from e heap rbot (ws @ ws') v = fill_from e heap rbot ws' (fill_from e heap rbot ws v)"
  by (rule nth_equalityI) (auto simp: fill_from_nth find_append_case split: option.splits)

lemma fill_from_Cons:
  "fill_from e heap rbot (w # ws) v = fill_from e heap rbot ws (fill_from e heap rbot [w] v)"
  using fill_from_append [of e heap rbot "[w]" ws] by simp

lemma fill_from_full: "None \<notin> set v \<Longrightarrow> fill_from e heap rbot ws v = v"
proof (rule nth_equalityI)
  fix i assume v: "None \<notin> set v" and "i < length (fill_from e heap rbot ws v)"
  then have i: "i < length v" by simp
  then obtain x where "v ! i = Some x" using v by (metis not_None_eq nth_mem)
  then show "fill_from e heap rbot ws v ! i = v ! i" using i by (simp add: fill_from_nth)
qed simp

lemma fill_from_skip:
  assumes "\<And>w i. w \<in> set ws \<Longrightarrow> i < length v \<Longrightarrow> \<not> covers_byte (heap w) (rbot + of_nat i)"
  shows "fill_from e heap rbot ws v = v"
proof (rule nth_equalityI)
  fix i assume "i < length (fill_from e heap rbot ws v)"
  then have i: "i < length v" by simp
  then have "find (\<lambda>w. covers_byte (heap w) (rbot + of_nat i)) ws = None"
    using assms by (simp add: find_None_iff)
  then show "fill_from e heap rbot ws v ! i = v ! i" using i by (simp add: fill_from_nth split: option.splits)
qed simp

lemma fill_vec_fill_from:
  assumes "small r" "small (heap w)" "length v = act_size r"
  shows "fill_vec e w (act_bot r) (act_bot (heap w)) (act_size (heap w)) v = fill_from e heap (act_bot r) [w] v"
  by (rule nth_equalityI)
     (use assms offset_in_covers [OF assms(1,2)] in
       \<open>auto simp: fill_vec_def fill_slot_def fill_from_nth split: option.splits\<close>)

lemma fill_vec_none:
  assumes "small r" "small (heap w)" "length v = act_size r"
    "act_bot (heap w) \<ge> act_top r \<or> act_bot r \<ge> act_top (heap w)"
  shows "fill_from e heap (act_bot r) [w] v = v"
  by (rule fill_from_skip) (use no_overlap_no_cover [OF assms(1,2) _ assms(4)] assms(3) in auto)

section \<open>The searches of the running execution\<close>

lemma overlap_loop_spec:
  assumes "overlap_loop e w rbot wbot wsize ks v left = (full, v', left')" "distinct ks"
    "\<forall>i \<in> set ks. i < length v" "left = of_nat (open_slots v)" "0 < open_slots v" "length v < 2 ^ 32"
  shows "length v' = length v \<and> left' = of_nat (open_slots v') \<and> (full \<longleftrightarrow> open_slots v' = 0) \<and>
    (\<forall>i < length v. v' ! i = (if i \<in> set ks then fill_slot e w rbot wbot wsize i (v ! i) else v ! i))"
  using assms
proof (induction ks arbitrary: v left)
  case Nil
  then show ?case by auto
next
  case (Cons i ks)
  show ?case
  proof (cases "v ! i = None \<and> offset_in rbot wbot wsize i")
    case True
    define u where "u = v[i := Some (e, w)]"
    have i: "i < length v" using Cons.prems by simp
    with True have n: "Suc (open_slots u) = open_slots v" by (simp add: u_def open_slots_update)
    then have left: "left - 1 = of_nat (open_slots u)"
      unfolding Cons.prems(4) n [symmetric] by simp
    have "open_slots u < 2 ^ 32" using n open_slots_le [of v] Cons.prems(6) by simp
    then have "unat (left - 1) = open_slots u" unfolding left unat_of_nat by simp
    then have z: "left - 1 = 0 \<longleftrightarrow> open_slots u = 0" by (metis unat_0 unat_eq_zero)
    have fs: "fill_slot e w rbot wbot wsize i (v ! i) = Some (e, w)" using True by (simp add: fill_slot_def)
    show ?thesis
    proof (cases "left - 1 = 0")
      case left0: True
      then have r: "full" "v' = u" "left' = left - 1" using Cons.prems(1) True by (simp_all add: u_def Let_def)
      have "None \<notin> set u" using z left0 open_slots_0 by blast
      then have "\<forall>j < length u. u ! j \<noteq> None" by (metis nth_mem)
      then show ?thesis
        using r z left0 left fs i
        by (auto simp: u_def nth_list_update fill_slot_def split: option.splits if_splits)
    next
      case False
      then have "overlap_loop e w rbot wbot wsize ks u (left - 1) = (full, v', left')"
        using Cons.prems(1) True by (simp add: u_def Let_def)
      from Cons.IH [OF this] Cons.prems left z False
      have "length v' = length u \<and> left' = of_nat (open_slots v') \<and> (full \<longleftrightarrow> open_slots v' = 0) \<and>
        (\<forall>j < length u. v' ! j = (if j \<in> set ks then fill_slot e w rbot wbot wsize j (u ! j) else u ! j))"
        by (simp add: u_def)
      then show ?thesis using fs Cons.prems(2) i by (auto simp: u_def nth_list_update)
    qed
  next
    case False
    then have l: "overlap_loop e w rbot wbot wsize ks v left = (full, v', left')"
      using Cons.prems(1) by auto
    have "fill_slot e w rbot wbot wsize i (v ! i) = v ! i"
      using False by (auto simp: fill_slot_def split: option.splits)
    moreover note Cons.IH [OF l] Cons.prems(2-6)
    ultimately show ?thesis by (auto split: if_splits)
  qed
qed

end
