(* ===== verification/Read_Candidates.thy ===== *)
theory Read_Candidates
  imports Read_Lemmas Demo_Machine
begin

text \<open>
  The candidates of a load: the store that the running execution supplies for each byte,
  and the states in which the executions before a crash may have left a cache line.
\<close>

section \<open>The running execution\<close>

lemma checkOverlap_spec:
  assumes "checkOverlap e heap v w left (act_bot r) (act_top r) (act_size r) = (full, v', left')"
    "small r" "small (heap w)" "length v = act_size r" "act_size r < 2 ^ 32"
    "left = of_nat (open_slots v)" "0 < open_slots v"
  shows "v' = fill_from e heap (act_bot r) [w] v \<and> left' = of_nat (open_slots v') \<and>
    (full \<longleftrightarrow> open_slots v' = 0)"
proof (cases "act_bot (heap w) \<ge> act_top r \<or> act_bot r \<ge> act_top (heap w)")
  case True
  then have "v' = v" "left' = left" "\<not> full" using assms(1) by (auto simp: checkOverlap_def Let_def)
  then show ?thesis using fill_vec_none [where heap = heap and w = w, OF assms(2-4) True] assms(6,7) by simp
next
  case False
  then have "overlap_loop e w (act_bot r) (act_bot (heap w)) (act_size (heap w)) [0..<act_size r] v left
      = (full, v', left')"
    using assms(1) by (simp add: checkOverlap_def Let_def)
  from overlap_loop_spec [OF this] assms(4-7)
  have o: "length v' = length v" "left' = of_nat (open_slots v')" "full \<longleftrightarrow> open_slots v' = 0"
    and n: "\<And>i. i < length v \<Longrightarrow>
      v' ! i = fill_slot e w (act_bot r) (act_bot (heap w)) (act_size (heap w)) i (v ! i)"
    by auto
  have "v' = fill_vec e w (act_bot r) (act_bot (heap w)) (act_size (heap w)) v"
    by (rule nth_equalityI) (simp_all add: o(1) n fill_vec_def)
  then show ?thesis using o fill_vec_fill_from [where heap = heap and w = w, OF assms(2-4)] by simp
qed

lemma overlap_writes_spec:
  assumes "overlap_writes e heap r ws v left = (full, v', left')" "small r" "\<forall>w \<in> set ws. small (heap w)"
    "length v = act_size r" "act_size r < 2 ^ 32" "left = of_nat (open_slots v)" "0 < open_slots v"
  shows "v' = fill_from e heap (act_bot r) (filter (\<lambda>w. is_write (heap w)) ws) v \<and>
    left' = of_nat (open_slots v') \<and> (full \<longleftrightarrow> open_slots v' = 0)"
  using assms
proof (induction ws arbitrary: v left)
  case Nil
  then show ?case by auto
next
  case (Cons w ws)
  show ?case
  proof (cases "is_write (heap w)")
    case True
    obtain f1 v1 l1 where c: "checkOverlap e heap v w left (act_bot r) (act_top r) (act_size r) = (f1, v1, l1)"
      by (metis surj_pair)
    from checkOverlap_spec [OF this Cons.prems(2) _ Cons.prems(4-7)] Cons.prems(3)
    have s: "v1 = fill_from e heap (act_bot r) [w] v" "l1 = of_nat (open_slots v1)" "f1 \<longleftrightarrow> open_slots v1 = 0"
      by auto
    let ?W = "filter (\<lambda>w. is_write (heap w)) ws"
    have cons: "fill_from e heap (act_bot r) (filter (\<lambda>w. is_write (heap w)) (w # ws)) v
        = fill_from e heap (act_bot r) ?W v1"
      using True s(1) fill_from_append [of e heap "act_bot r" "[w]" ?W v] by simp
    show ?thesis
    proof (cases f1)
      case f: True
      then have r: "full" "v' = v1" "left' = l1" using Cons.prems(1) True c by auto
      have "fill_from e heap (act_bot r) (filter (\<lambda>w. is_write (heap w)) ws) v1 = v1"
        using f s(3) open_slots_0 by (intro fill_from_full) blast
      then show ?thesis unfolding cons using r s f by simp
    next
      case False
      then have "overlap_writes e heap r ws v1 l1 = (full, v', left')" using Cons.prems(1) True c by simp
      from Cons.IH [OF this] s False Cons.prems(2-5) show ?thesis unfolding cons by simp
    qed
  next
    case False
    then show ?thesis using Cons by simp
  qed
qed

lemma find_filtered: "find P (filter Q xs) = find (\<lambda>x. Q x \<and> P x) xs"
  by (induction xs) auto

text \<open>
  C5: a load sees, for every byte, the newest store that covers it, the store buffer of its
  own thread counting as newer than everything that is visible; a byte is left open
  exactly when no store covers it, and the search reports that all bytes are answered
  exactly when none is left open.
\<close>

theorem load_sees_newest_store:
  assumes "small read" "0 < act_size read" "act_size read < 2 ^ 32"
    "\<forall>w \<in> set (lst @ tm_storeBuffer tm). small (heap w)"
    "getLastWriteFromStoreBuffer tm heap read e (replicate (act_size read) None) (of_nat (act_size read))
      = (full1, v1, left1)"
    "(if full1 then (True, v1, left1) else processWrites e heap read v1 lst left1) = (full, v, left)"
  shows "(\<forall>i < act_size read. v ! i = map_option (Pair e)
      (find (\<lambda>w. is_write (heap w) \<and> covers_byte (heap w) (act_location read + of_nat i))
        (rev (lst @ tm_storeBuffer tm)))) \<and>
    (full \<longleftrightarrow> None \<notin> set v)"
proof (intro conjI allI impI)
  have o: "open_slots (replicate (act_size read) None) = act_size read"
    by (simp add: open_slots_def)
  let ?W = "\<lambda>ws. filter (\<lambda>w. is_write (heap w)) (rev ws)"
  let ?F = "fill_from e heap (act_bot read)"
  have s1: "v1 = ?F (?W (tm_storeBuffer tm)) (replicate (act_size read) None)"
    "left1 = of_nat (open_slots v1)" "full1 \<longleftrightarrow> open_slots v1 = 0"
    using overlap_writes_spec [OF assms(5) [unfolded getLastWriteFromStoreBuffer_def] assms(1) _ _ assms(3)]
      assms(2,4) o by auto
  have s2: "v = ?F (?W lst) v1 \<and> (full \<longleftrightarrow> open_slots v = 0)"
  proof (cases full1)
    case True
    then have "None \<notin> set v1" using s1(3) open_slots_0 by blast
    then have "?F (?W lst) v1 = v1" by (rule fill_from_full)
    then show ?thesis using assms(6) True s1(3) by simp
  next
    case False
    then have "overlap_writes e heap read (rev lst) v1 left1 = (full, v, left)"
      using assms(6) by (simp add: processWrites_def)
    from overlap_writes_spec [OF this assms(1) _ _ assms(3)] show ?thesis
      using s1 False assms(4) by auto
  qed
  then show "full \<longleftrightarrow> None \<notin> set v" using open_slots_0 by blast
  fix i assume i: "i < act_size read"
  let ?R = "rev (lst @ tm_storeBuffer tm)"
  have "v = ?F (filter (\<lambda>w. is_write (heap w)) ?R) (replicate (act_size read) None)"
    using s2 s1(1) by (simp add: fill_from_append)
  then have "v ! i = map_option (Pair e)
      (find (\<lambda>w. covers_byte (heap w) (act_bot read + of_nat i)) (filter (\<lambda>w. is_write (heap w)) ?R))"
    using i by (simp only: fill_from_nth length_replicate nth_replicate option.case)
  then show "v ! i = map_option (Pair e)
      (find (\<lambda>w. is_write (heap w) \<and> covers_byte (heap w) (act_location read + of_nat i)) ?R)"
    unfolding find_filtered act_bot_def .
qed

lemma small_demo: "small (demo_store 0x1000 v)" "n \<le> 8 \<Longrightarrow> small (demo_load n)"
  "small (demo_store 0x1000 v\<lparr>act_seq := k\<rparr>)"
  by (simp_all add: small_def demo_store_def demo_load_def action_sized_def)

lemma demo_load_sel: "act_location (demo_load n) = 0x1000" "act_size (demo_load n) = n"
  by (simp_all add: demo_store_def demo_load_def action_sized_def)

theorem load_sees_newest_store_witness:
  "let heap = (\<lambda>w. demo_store 0x1000 (of_nat w)); tm = ThreadMemory\<lparr>tm_storeBuffer := [3]\<rparr>;
     (full, v, left) = getLastWriteFromStoreBuffer tm heap (demo_load 1) 0 [None] 1
   in full \<and> v ! 0 = Some (0, 3)"
proof -
  let ?heap = "\<lambda>w. demo_store 0x1000 (of_nat w)" and ?tm = "ThreadMemory\<lparr>tm_storeBuffer := [3 :: nat]\<rparr>"
  have g: "getLastWriteFromStoreBuffer ?tm ?heap (demo_load 1) 0 [None] 1 = (True, [Some (0, 3)], 0)"
    by code_simp
  from load_sees_newest_store [of "demo_load 1" "[]" ?tm ?heap 0 True "[Some (0, 3)]" 0 True "[Some (0, 3)]" 0]
    g show ?thesis by (simp add: small_demo demo_load_sel ThreadMemory_def)
qed

section \<open>Executions before a crash\<close>

text \<open>
  The probe of the hash set only finds a vector that is in the set; whether it finds every
  such vector does not matter for the candidates as a set.
\<close>

definition found_sound :: "checker \<Rightarrow> bool" where
  "found_sound s \<longleftrightarrow> (\<forall>n v vs. ck_found s n v vs \<longrightarrow> v \<in> set vs)"

text \<open>The walk leaves the state alone, but for the number of probes.\<close>

definition same_but_probes :: "checker \<Rightarrow> checker \<Rightarrow> bool" where
  "same_but_probes s s' \<longleftrightarrow> (\<exists>n. s' = s\<lparr>ck_found_pos := n\<rparr>)"

lemma same_but_probes_refl: "same_but_probes s s"
  by (auto simp: same_but_probes_def intro: exI [of _ "ck_found_pos s"])

lemma same_but_probes_trans:
  "same_but_probes s s' \<Longrightarrow> same_but_probes s' s'' \<Longrightarrow> same_but_probes s s''"
  by (auto simp: same_but_probes_def)

lemma same_but_probes_sel:
  assumes "same_but_probes s s'"
  shows "found_sound s' = found_sound s" "act s' = act s" "exec_of s' = exec_of s" "ck_prev s' = ck_prev s"
  using assms by (auto simp: same_but_probes_def found_sound_def act_def exec_of_def fun_eq_iff)

lemma add_vec_spec:
  assumes "add_vec v vs s = (vs', s')" "found_sound s"
  shows "set vs' = insert v (set vs) \<and> same_but_probes s s'"
  using assms by (auto simp: add_vec_def found_sound_def same_but_probes_def split: if_splits)

lemma add_vecs_spec:
  assumes "add_vecs new vs s = (vs', s')" "found_sound s"
  shows "set vs' = set new \<union> set vs \<and> same_but_probes s s'"
  using assms
proof (induction new arbitrary: vs s)
  case Nil
  then show ?case by (simp add: same_but_probes_refl)
next
  case (Cons v new)
  obtain vs1 s1 where a: "add_vec v vs s = (vs1, s1)" by (metis surj_pair)
  note h = add_vec_spec [OF a Cons.prems(2)]
  have "add_vecs new vs1 s1 = (vs', s')" using Cons.prems(1) a by simp
  from Cons.IH [OF this] h same_but_probes_sel(1) Cons.prems(2) show ?case
    using same_but_probes_trans by auto
qed

text \<open>
  The candidates an execution adds, as a set: walking from its newest write back, either
  the line was written back right after the write, which then supplies what it covers,
  older writes the rest, or before it, unless the write must have been in.
\<close>

definition overlaps :: "model_action \<Rightarrow> model_action \<Rightarrow> bool" where
  "overlaps read w \<longleftrightarrow> \<not> (act_bot w \<ge> act_top read \<or> act_bot read \<ge> act_top w)"

definition not_after :: "modelclock \<Rightarrow> model_action \<Rightarrow> bool" where
  "not_after end_r w \<longleftrightarrow> \<not> (end_r \<noteq> 0 \<and> get_seq_number w > end_r)"

definition must_be_in :: "modelclock \<Rightarrow> model_action \<Rightarrow> bool" where
  "must_be_in begin_r w \<longleftrightarrow> get_seq_number w \<le> begin_r \<or> is_initialization w"

fun walk :: "eid \<Rightarrow> (aid \<Rightarrow> model_action) \<Rightarrow> model_action \<Rightarrow> modelclock \<Rightarrow> modelclock \<Rightarrow> aid list \<Rightarrow>
    write_vec set \<Rightarrow> write_vec set" where
  "walk e heap read b en [] V = V"
| "walk e heap read b en (w # older) V =
     (if \<not> not_after en (heap w) \<or> \<not> overlaps read (heap w) then walk e heap read b en older V
      else fill_from e heap (act_bot read) (w # filter (\<lambda>w. not_after en (heap w)) older) ` V \<union>
        (if must_be_in b (heap w) then {} else walk e heap read b en older V))"

lemma has_null_iff: "has_null vs \<longleftrightarrow> (\<exists>v \<in> set vs. None \<in> set v)"
  by (simp add: has_null_def list_ex_iff)

lemma prior_loop_spec:
  assumes "prior_loop e heap r b en seeds ws currs past s = (currs', past', isDone, s')"
    "small r" "\<forall>w \<in> set ws. small (heap w)" "\<forall>v \<in> set seeds \<union> set currs. length v = act_size r"
    "found_sound s"
  shows "same_but_probes s s' \<and> (isDone \<longrightarrow> past' \<and> (\<forall>v \<in> set currs'. None \<notin> set v)) \<and>
    set currs' \<union> (if past' then {} else set seeds) =
      fill_from e heap (act_bot r) (filter (\<lambda>w. not_after en (heap w)) ws) ` set currs \<union>
      (if past then {} else walk e heap r b en ws (set seeds))"
  using assms
proof (induction ws arbitrary: currs past s)
  case Nil
  then show ?case by (auto simp: same_but_probes_refl)
next
  case (Cons w ws)
  let ?F = "fill_from e heap (act_bot r)"
  let ?vis = "filter (\<lambda>w. not_after en (heap w))"
  have sm: "small (heap w)" "\<forall>w \<in> set ws. small (heap w)" using Cons.prems(3) by auto
  show ?case
  proof (cases "not_after en (heap w) \<and> overlaps r (heap w)")
    case False
    then have l: "prior_loop e heap r b en seeds ws currs past s = (currs', past', isDone, s')"
      using Cons.prems(1) by (auto simp: not_after_def overlaps_def Let_def split: if_splits)
    have skip: "?F (?vis (w # ws)) v = ?F (?vis ws) v" if "length v = act_size r" for v
    proof (cases "not_after en (heap w)")
      case True
      then have "?F [w] v = v"
        using False fill_vec_none [where heap = heap and w = w, OF Cons.prems(2) sm(1) that]
        by (auto simp: overlaps_def)
      then show ?thesis using True fill_from_append [of e heap "act_bot r" "[w]" "?vis ws" v] by simp
    qed simp
    then have "?F (?vis (w # ws)) ` set currs = ?F (?vis ws) ` set currs"
      using Cons.prems(4) by (intro image_cong) auto
    moreover have "walk e heap r b en (w # ws) (set seeds) = walk e heap r b en ws (set seeds)"
      using False by auto
    ultimately show ?thesis using Cons.IH [OF l Cons.prems(2) sm(2) Cons.prems(4,5)] by simp
  next
    case True
    obtain c1 s1 where a: "(if past then (currs, s) else add_vecs seeds currs s) = (c1, s1)"
      by (metis surj_pair)
    have c1: "set c1 = set currs \<union> (if past then {} else set seeds)" "same_but_probes s s1"
      using a add_vecs_spec [of seeds currs s] Cons.prems(5) same_but_probes_refl by (auto split: if_splits)
    define c2 where "c2 = map (fill_vec e w (act_bot r) (act_bot (heap w)) (act_size (heap w))) c1"
    have len: "\<forall>v \<in> set c1. length v = act_size r" using c1(1) Cons.prems(4) by (auto split: if_splits)
    have c2: "set c2 = ?F [w] ` set c1"
      unfolding c2_def set_map
      using fill_vec_fill_from [where heap = heap and w = w, OF Cons.prems(2) sm(1)] len by (intro image_cong) auto
    have len2: "\<forall>v \<in> set seeds \<union> set c2. length v = act_size r" using c2 len Cons.prems(4) by auto
    have F: "?F (?vis ws) ` set c2 = ?F (?vis (w # ws)) ` set c1"
      using True fill_from_append [of e heap "act_bot r" "[w]" "?vis ws"] by (simp add: c2 image_image)
    have step: "prior_loop e heap r b en seeds (w # ws) currs past s =
      (if must_be_in b (heap w) then
         (if \<not> has_null c2 then (c2, True, True, s1) else prior_loop e heap r b en seeds ws c2 True s1)
       else prior_loop e heap r b en seeds ws c2 past s1)"
    proof -
      have n: "(en \<noteq> 0 \<and> get_seq_number (heap w) > en) = False"
        "(act_bot (heap w) \<ge> act_top r \<or> act_bot r \<ge> act_top (heap w)) = False"
        using True by (auto simp: not_after_def overlaps_def)
      show ?thesis
        unfolding prior_loop.simps(2) Let_def c2_def must_be_in_def n if_False a prod.case ..
    qed
    have fs: "found_sound s1" using c1(2) Cons.prems(5) same_but_probes_sel(1) by blast
    define A where "A = ?F (?vis (w # ws))"
    have walk: "walk e heap r b en (w # ws) (set seeds) = A ` set seeds \<union>
        (if must_be_in b (heap w) then {} else walk e heap r b en ws (set seeds))"
      using True by (simp add: A_def)
    have E: "?F (?vis ws) ` set c2 = A ` set currs \<union> (if past then {} else A ` set seeds)"
      unfolding F c1(1) A_def [symmetric] image_Un by simp
    let ?goal = "\<lambda>c p. c \<union> (if p then {} else set seeds) =
      A ` set currs \<union> (if past then {} else walk e heap r b en (w # ws) (set seeds))"
    consider (stop) "must_be_in b (heap w)" "\<not> has_null c2" | (go) "must_be_in b (heap w)" "has_null c2"
      | (pass) "\<not> must_be_in b (heap w)" by blast
    then show ?thesis
    proof cases
      case stop
      then have r: "currs' = c2" "past'" "isDone" "s' = s1" using Cons.prems(1) step by auto
      have full: "\<forall>v \<in> set c2. None \<notin> set v" using stop(2) by (auto simp: has_null_iff)
      then have "?F (?vis ws) ` set c2 = set c2" by (simp add: fill_from_full cong: image_cong)
      then have "set c2 = A ` set currs \<union> (if past then {} else A ` set seeds)" using E by simp
      then have "?goal (set currs') past'" unfolding r walk using r stop(1) by (cases past) simp_all
      then show ?thesis using r full c1(2) unfolding A_def by simp
    next
      case go
      then have "prior_loop e heap r b en seeds ws c2 True s1 = (currs', past', isDone, s')"
        using Cons.prems(1) step by simp
      note h = Cons.IH [OF this Cons.prems(2) sm(2) len2 fs]
      then have "?goal (set currs') past'" unfolding walk using E go(1) by simp
      then show ?thesis using h c1(2) same_but_probes_trans unfolding A_def by blast
    next
      case pass
      then have "prior_loop e heap r b en seeds ws c2 past s1 = (currs', past', isDone, s')"
        using Cons.prems(1) step by simp
      note h = Cons.IH [OF this Cons.prems(2) sm(2) len2 fs]
      then have "?goal (set currs') past'" unfolding walk using E pass by (cases past) (simp_all add: Un_assoc)
      then show ?thesis using h c1(2) same_but_probes_trans unfolding A_def by blast
    qed
  qed
qed

definition line_begin :: "checker \<Rightarrow> eid \<Rightarrow> addr \<Rightarrow> modelclock" where
  "line_begin s e loc =
     (case ex_obj_to_cacheline (exec_of s e) (getCacheID loc) of Some c \<Rightarrow> cl_beginR c | None \<Rightarrow> 0)"

definition line_end :: "checker \<Rightarrow> eid \<Rightarrow> addr \<Rightarrow> modelclock" where
  "line_end s e loc =
     (case ex_obj_to_cacheline (exec_of s e) (getCacheID loc) of Some c \<Rightarrow> cl_endR c | None \<Rightarrow> 0)"

definition writes_at :: "checker \<Rightarrow> eid \<Rightarrow> addr \<Rightarrow> aid list" where
  "writes_at s e loc =
     (case ex_obj_wr_map (exec_of s e) (alignAddress loc) of Some ws \<Rightarrow> ws | None \<Rightarrow> [])"

lemma window_frame:
  assumes "same_but_probes s s'"
  shows "line_begin s' = line_begin s" "line_end s' = line_end s" "writes_at s' = writes_at s"
  by (simp_all add: line_begin_def line_end_def writes_at_def fun_eq_iff same_but_probes_sel(3) [OF assms])

definition execution_walk :: "checker \<Rightarrow> model_action \<Rightarrow> eid \<Rightarrow> write_vec set \<Rightarrow> write_vec set" where
  "execution_walk s read e V =
     walk e (act s) read (line_begin s e (act_location read)) (line_end s e (act_location read))
       (rev (writes_at s e (act_location read))) V"

lemma lookfor_spec:
  assumes "lookforWritesInPriorExecution e read seeds s = (isDone, seeds', s')"
    "small read" "\<forall>w \<in> set (writes_at s e (act_location read)). small (act s w)"
    "\<forall>v \<in> set seeds. length v = act_size read" "found_sound s"
  shows "same_but_probes s s' \<and> (isDone \<longrightarrow> (\<forall>v \<in> set seeds'. None \<notin> set v)) \<and>
    set seeds' = execution_walk s read e (set seeds)"
proof (cases "ex_obj_wr_map (exec_of s e) (alignAddress (act_location read))")
  case None
  then show ?thesis using assms(1)
    by (auto simp: lookforWritesInPriorExecution_def execution_walk_def writes_at_def Let_def same_but_probes_refl)
next
  case (Some ws)
  let ?b = "line_begin s e (act_location read)" and ?e = "line_end s e (act_location read)"
  obtain currs past d s1 where l: "prior_loop e (act s) read ?b ?e seeds (rev ws) [] False s = (currs, past, d, s1)"
    by (metis surj_pair)
  have "\<forall>w \<in> set (rev ws). small (act s w)" using assms(3) Some by (simp add: writes_at_def)
  from prior_loop_spec [OF l assms(2) this _ assms(5)] assms(4)
  have p: "same_but_probes s s1" "d \<Longrightarrow> past \<and> (\<forall>v \<in> set currs. None \<notin> set v)"
    "set currs \<union> (if past then {} else set seeds) = execution_walk s read e (set seeds)"
    using Some by (auto simp: execution_walk_def writes_at_def)
  have r: "(if past then (d, currs, s1) else (case add_vecs seeds currs s1 of (currs', s2) \<Rightarrow> (d, currs', s2)))
      = (isDone, seeds', s')"
    using assms(1) l Some unfolding lookforWritesInPriorExecution_def Let_def line_begin_def line_end_def
    by (cases past) simp_all
  show ?thesis
  proof (cases past)
    case True
    then show ?thesis using r p by auto
  next
    case False
    obtain c2 s2 where a: "add_vecs seeds currs s1 = (c2, s2)" by (metis surj_pair)
    have "found_sound s1" using same_but_probes_sel(1) [OF p(1)] assms(5) by simp
    from add_vecs_spec [OF a this] p r a False same_but_probes_trans show ?thesis by auto
  qed
qed

lemma walk_full:
  assumes "\<forall>v \<in> V. None \<notin> set v"
  shows "walk e heap r b en ws V = V"
proof (induction ws)
  case (Cons w ws)
  have "fill_from e heap (act_bot r) (w # filter (\<lambda>w. not_after en (heap w)) ws) ` V = V"
    using assms by (simp add: fill_from_full cong: image_cong)
  then show ?case using Cons by simp
qed simp

lemma execution_walk_length:
  assumes "\<forall>v \<in> V. length v = n" "v \<in> execution_walk s read e V"
  shows "length v = n"
proof -
  have "\<forall>v \<in> walk e heap r b en ws V. length v = n" for heap r b en ws
    using assms(1) by (induction ws) auto
  then show ?thesis using assms(2) by (simp add: execution_walk_def)
qed

lemma prior_executions_walk:
  assumes "prior_executions read es seeds s = (seeds', s')" "small read"
    "\<forall>e \<in> set es. \<forall>w \<in> set (writes_at s e (act_location read)). small (act s w)"
    "\<forall>v \<in> set seeds. length v = act_size read" "found_sound s"
  shows "same_but_probes s s' \<and> set seeds' = fold (execution_walk s read) es (set seeds)"
  using assms
proof (induction es arbitrary: seeds s)
  case Nil
  then show ?case by (simp add: same_but_probes_refl)
next
  case (Cons e es)
  obtain d seeds1 s1 where l: "lookforWritesInPriorExecution e read seeds s = (d, seeds1, s1)"
    by (metis surj_pair)
  from lookfor_spec [OF this Cons.prems(2) _ Cons.prems(4,5)] Cons.prems(3)
  have p: "same_but_probes s s1" "d \<Longrightarrow> \<forall>v \<in> set seeds1. None \<notin> set v"
    "set seeds1 = execution_walk s read e (set seeds)" by auto
  show ?case
  proof (cases d)
    case True
    have "fold (execution_walk s read) es (set seeds1) = set seeds1" for es
      using p(2) [OF True] by (induction es) (simp_all add: execution_walk_def walk_full)
    then show ?thesis using Cons.prems(1) l True p by simp
  next
    case False
    then have r: "prior_executions read es seeds1 s1 = (seeds', s')" using Cons.prems(1) l by simp
    have len: "\<forall>v \<in> set seeds1. length v = act_size read"
      using execution_walk_length [OF Cons.prems(4)] p(3) by blast
    have w: "execution_walk s1 read = execution_walk s read" "found_sound s1"
      using same_but_probes_sel(1) [OF p(1)] Cons.prems(5)
      by (intro ext, simp_all only: execution_walk_def window_frame [OF p(1)] same_but_probes_sel(2) [OF p(1)])
    have "\<forall>e \<in> set es. \<forall>w \<in> set (writes_at s1 e (act_location read)). small (act s1 w)"
      using Cons.prems(3) window_frame [OF p(1)] same_but_probes_sel(2) [OF p(1)] by simp
    from Cons.IH [OF r Cons.prems(2) this len w(2)] show ?thesis
      using p w(1) same_but_probes_trans by simp
  qed
qed

section \<open>Write-back points\<close>

text \<open>
  The abstract view: the line was written back at some point of its window, when the
  writes so far (the suffix \<open>kept\<close> of the list, newest first) had reached it.  Nothing that
  must be in was dropped, nothing after the window was kept.
\<close>

definition written_back :: "checker \<Rightarrow> model_action \<Rightarrow> eid \<Rightarrow> write_vec set \<Rightarrow> write_vec set" where
  "written_back s read e V =
     {fill_from e (act s) (act_bot read) kept v | v kept dropped. v \<in> V \<and>
        rev (writes_at s e (act_location read)) = dropped @ kept \<and>
        (\<forall>w \<in> set dropped. \<not> must_be_in (line_begin s e (act_location read)) (act s w)) \<and>
        (\<forall>w \<in> set kept. not_after (line_end s e (act_location read)) (act s w))}"

text \<open>
  The lists are in execution order, an initialisation is numbered 0, and no write is both
  required and excluded by the window.
\<close>

definition line_ok :: "checker \<Rightarrow> eid \<Rightarrow> addr \<Rightarrow> bool" where
  "line_ok s e loc \<longleftrightarrow>
     sorted_wrt (\<lambda>w w'. get_seq_number (act s w) < get_seq_number (act s w')) (writes_at s e loc) \<and>
     (\<forall>w \<in> set (writes_at s e loc). small (act s w) \<and>
        (is_initialization (act s w) \<longrightarrow> get_seq_number (act s w) = 0) \<and>
        (must_be_in (line_begin s e loc) (act s w) \<longrightarrow> not_after (line_end s e loc) (act s w)))"

lemma walk_points:
  assumes "sorted_wrt (\<lambda>w w'. get_seq_number (heap w) > get_seq_number (heap w')) ws"
    "\<forall>w \<in> set ws. small (heap w) \<and> (is_initialization (heap w) \<longrightarrow> get_seq_number (heap w) = 0) \<and>
      (must_be_in b (heap w) \<longrightarrow> not_after en (heap w))"
    "small r" "\<forall>v \<in> V. length v = act_size r"
  shows "walk e heap r b en ws V = {fill_from e heap (act_bot r) kept v | v kept dropped. v \<in> V \<and>
    ws = dropped @ kept \<and> (\<forall>w \<in> set dropped. \<not> must_be_in b (heap w)) \<and>
    (\<forall>w \<in> set kept. not_after en (heap w))}"
  (is "_ = ?P ws") using assms(1,2)
proof (induction ws)
  case Nil
  show ?case using fill_from_Nil by force
next
  case (Cons w ws)
  let ?F = "fill_from e heap (act_bot r)"
  have IH: "walk e heap r b en ws V = ?P ws" using Cons by simp
  have older: "get_seq_number (heap w') < get_seq_number (heap w)" if "w' \<in> set ws" for w'
    using Cons.prems(1) that by simp
  have vis: "\<forall>w' \<in> set ws. not_after en (heap w')" if "not_after en (heap w)"
    using that older by (force simp: not_after_def)
  have must: "\<forall>w' \<in> set ws. must_be_in b (heap w')" if "must_be_in b (heap w)"
    using that older Cons.prems(2) by (force simp: must_be_in_def)
  have split: "?P (w # ws) = (if not_after en (heap w) then ?F (w # ws) ` V else {}) \<union>
      (if must_be_in b (heap w) then {} else ?P ws)" (is "_ = ?R")
  proof (intro set_eqI iffI)
    fix x assume "x \<in> ?P (w # ws)"
    then obtain v kept dropped where x: "x = ?F kept v" "v \<in> V" "w # ws = dropped @ kept"
      "\<forall>w \<in> set dropped. \<not> must_be_in b (heap w)" "\<forall>w \<in> set kept. not_after en (heap w)" by blast
    show "x \<in> ?R"
    proof (cases dropped)
      case Nil
      then show ?thesis using x by auto
    next
      case (Cons d ds)
      then have "\<not> must_be_in b (heap w)" "x \<in> ?P ws" using x by auto
      then show ?thesis by simp
    qed
  next
    fix x assume "x \<in> ?R"
    then consider (a) v where "not_after en (heap w)" "v \<in> V" "x = ?F (w # ws) v"
      | (b) "\<not> must_be_in b (heap w)" "x \<in> ?P ws" by (auto split: if_splits)
    then show "x \<in> ?P (w # ws)"
    proof cases
      case a
      then have "\<forall>w' \<in> set (w # ws). not_after en (heap w')" using vis by auto
      then show ?thesis using a(2,3) by (intro CollectI exI [of _ v] exI [of _ "w # ws"] exI [of _ "[]"]) auto
    next
      case b
      then obtain v kept dropped where x: "x = ?F kept v" "v \<in> V" "ws = dropped @ kept"
        "\<forall>w \<in> set dropped. \<not> must_be_in b (heap w)" "\<forall>w \<in> set kept. not_after en (heap w)" by blast
      then show ?thesis using b(1)
        by (intro CollectI exI [of _ v] exI [of _ kept] exI [of _ "w # dropped"]) auto
    qed
  qed
  show ?case
  proof (cases "not_after en (heap w)")
    case False
    then have "\<not> must_be_in b (heap w)" using Cons.prems(2) by auto
    then show ?thesis unfolding split using False IH by simp
  next
    case True
    then have f: "filter (\<lambda>w. not_after en (heap w)) ws = ws" using vis by (simp add: filter_id_conv)
    show ?thesis
    proof (cases "overlaps r (heap w)")
      case o: True
      then show ?thesis unfolding split using True IH f by simp
    next
      case False
      have skip: "?F (w # ws) v = ?F ws v" if "v \<in> V" for v
        using fill_vec_none [where heap = heap and w = w, OF assms(3), of v e] that assms(4) Cons.prems(2) False
          fill_from_append [of e heap "act_bot r" "[w]" ws v] by (auto simp: overlaps_def)
      have all: "?F ws ` V \<subseteq> ?P ws"
      proof
        fix x assume "x \<in> ?F ws ` V"
        then obtain v where "v \<in> V" "x = ?F ws v" by blast
        then show "x \<in> ?P ws"
          using vis [OF True] by (intro CollectI exI [of _ v] exI [of _ ws] exI [of _ "[]"]) simp
      qed
      have only: "?P ws \<subseteq> ?F ws ` V" if "must_be_in b (heap w)"
      proof
        fix x assume "x \<in> ?P ws"
        then obtain v kept dropped where x: "x = ?F kept v" "v \<in> V" "ws = dropped @ kept"
          "\<forall>w \<in> set dropped. \<not> must_be_in b (heap w)" by blast
        then have "dropped = []" using must [OF that] by (cases dropped) auto
        then show "x \<in> ?F ws ` V" using x by simp
      qed
      have "?F (w # ws) ` V = ?F ws ` V" using skip by (intro image_cong) auto
      then show ?thesis unfolding split using True False IH all only by auto
    qed
  qed
qed

lemma candidates_set:
  assumes "prior_executions read es seeds s = (seeds', s')" "small read"
    "\<forall>e \<in> set es. line_ok s e (act_location read)"
    "\<forall>v \<in> set seeds. length v = act_size read" "found_sound s"
  shows "set seeds' = fold (written_back s read) es (set seeds)"
proof -
  have w: "execution_walk s read e V = written_back s read e V"
    if "e \<in> set es" "\<forall>v \<in> V. length v = act_size read" for e V
    unfolding execution_walk_def written_back_def
    by (rule walk_points [OF _ _ assms(2) that(2)])
       (use assms(3) that(1) in \<open>auto simp: line_ok_def sorted_wrt_rev\<close>)
  have "fold (execution_walk s read) es V = fold (written_back s read) es V"
    if "\<forall>e \<in> set es. line_ok s e (act_location read)" "\<forall>v \<in> V. length v = act_size read" for V
    using that w
  proof (induction es arbitrary: V)
    case (Cons e es)
    have "\<forall>v \<in> written_back s read e V. length v = act_size read"
      using Cons.prems(2) by (auto simp: written_back_def)
    then show ?case using Cons by simp
  qed simp
  then show ?thesis
    using prior_executions_walk [OF assms(1,2) _ assms(4,5)] assms(3,4) by (auto simp: line_ok_def)
qed

text \<open>
  C3: the vectors a load may read from the executions before the last crashes are exactly
  those in which, execution by execution from the last one back, the still open bytes come
  from the newest covering writes that had reached the cache line at one admissible
  write-back point of that execution.
\<close>

theorem candidates_are_write_back_points:
  assumes "prior_executions read es seeds s = (seeds', s')" "small read"
    "\<forall>e \<in> set es. line_ok s e (act_location read)"
    "\<forall>v \<in> set seeds. length v = act_size read" "found_sound s"
  shows "set seeds' = fold (written_back s read) es (set seeds)"
  by (rule candidates_set [OF assms])

lemma crash_demo_line: "line_ok crash_demo 0 0x1000"
proof -
  have "writes_at crash_demo 0 0x1000 = [0, 1]" "line_begin crash_demo 0 0x1000 = 0"
    "line_end crash_demo 0 0x1000 = 0" by code_simp+
  moreover have "act crash_demo 0 = (demo_store 0x1000 5)\<lparr>act_seq := 2\<rparr>"
    "act crash_demo 1 = (demo_store 0x1000 6)\<lparr>act_seq := 4\<rparr>"
    by (simp_all add: act_def crash_demo_def demo_checker_def)
  moreover have "\<not> is_initialization (demo_store 0x1000 v\<lparr>act_seq := k\<rparr>)" for v k
    by (simp add: is_initialization_def demo_store_def action_sized_def)
  ultimately show ?thesis by (simp add: line_ok_def small_demo get_seq_number_def not_after_def)
qed

theorem candidates_are_write_back_points_witness:
  "fold (written_back crash_demo (demo_load 1)) [0] {[None]} = {[Some (0, 1)], [Some (0, 0)], [None]}"
proof -
  obtain cands s' where p: "prior_executions (demo_load 1) [0] [[None]] crash_demo = (cands, s')"
    by (metis surj_pair)
  have "fst (prior_executions (demo_load 1) [0] [[None]] crash_demo) = [[Some (0, 1)], [Some (0, 0)], [None]]"
    by code_simp
  then have c: "cands = [[Some (0, 1)], [Some (0, 0)], [None]]" unfolding p fst_conv .
  have "found_sound crash_demo" by (simp add: found_sound_def crash_demo_def demo_checker_def)
  from candidates_are_write_back_points [OF p small_demo(2) _ _ this] show ?thesis
    by (simp add: c demo_load_sel crash_demo_line)
qed

end
