(* ===== verification/Read_Narrowing.thy ===== *)
theory Read_Narrowing
  imports Read_Candidates
begin

text \<open>
  Choosing a candidate narrows the write-back windows, so that reading the same byte again
  can only give the same store.
\<close>

section \<open>One byte of one execution\<close>

text \<open>The admissible write-back points of a line, as a cut of its writes, newest first.\<close>

definition cut_ok :: "checker \<Rightarrow> eid \<Rightarrow> addr \<Rightarrow> aid list \<Rightarrow> aid list \<Rightarrow> bool" where
  "cut_ok s e loc dropped kept \<longleftrightarrow> rev (writes_at s e loc) = dropped @ kept \<and>
     (\<forall>w \<in> set dropped. \<not> must_be_in (line_begin s e loc) (act s w)) \<and>
     (\<forall>w \<in> set kept. not_after (line_end s e loc) (act s w))"

lemma sorted_newest_first:
  assumes "line_ok s e loc" "rev (writes_at s e loc) = dropped @ kept"
  shows "\<forall>w \<in> set dropped. \<forall>w' \<in> set kept. get_seq_number (act s w') < get_seq_number (act s w)"
    "sorted_wrt (\<lambda>w w'. get_seq_number (act s w) > get_seq_number (act s w')) kept"
proof -
  have "sorted_wrt (\<lambda>w w'. get_seq_number (act s w) > get_seq_number (act s w')) (rev (writes_at s e loc))"
    using assms(1) by (simp add: line_ok_def sorted_wrt_rev)
  then have "sorted_wrt (\<lambda>w w'. get_seq_number (act s w) > get_seq_number (act s w')) (dropped @ kept)"
    unfolding assms(2) .
  then show "\<forall>w \<in> set dropped. \<forall>w' \<in> set kept. get_seq_number (act s w') < get_seq_number (act s w)"
    "sorted_wrt (\<lambda>w w'. get_seq_number (act s w) > get_seq_number (act s w')) kept"
    by (simp_all add: sorted_wrt_append)
qed

lemma exists_cut:
  assumes "line_ok s e loc"
  shows "\<exists>dropped kept. cut_ok s e loc dropped kept"
proof -
  let ?m = "\<lambda>w. must_be_in (line_begin s e loc) (act s w)"
  let ?d = "takeWhile (\<lambda>w. \<not> ?m w) (rev (writes_at s e loc))"
  let ?k = "dropWhile (\<lambda>w. \<not> ?m w) (rev (writes_at s e loc))"
  have sp: "rev (writes_at s e loc) = ?d @ ?k" by simp
  have sub: "set ?k \<subseteq> set (writes_at s e loc)" using set_dropWhileD by fastforce
  have vis: "not_after (line_end s e loc) (act s w)" if "w \<in> set (writes_at s e loc)" "?m w" for w
    using assms that by (auto simp: line_ok_def)
  have "\<forall>w \<in> set ?k. not_after (line_end s e loc) (act s w)"
  proof (cases ?k)
    case Nil
    show ?thesis unfolding Nil by simp
  next
    case (Cons w ws)
    have m: "?m w" by (metis Cons dropWhile_eq_Cons_conv)
    then have v: "not_after (line_end s e loc) (act s w)" using vis sub Cons by auto
    have "get_seq_number (act s w') < get_seq_number (act s w)" if "w' \<in> set ws" for w'
      using sorted_newest_first(2) [OF assms sp] that Cons by simp
    then show ?thesis using v Cons by (force simp: not_after_def)
  qed
  moreover have "\<forall>w \<in> set ?d. \<not> ?m w" by (auto dest: set_takeWhileD)
  ultimately show ?thesis unfolding cut_ok_def using sp by blast
qed

text \<open>What the byte may read from one execution, \<open>None\<close> when it stays open.\<close>

definition byte_sources :: "checker \<Rightarrow> addr \<Rightarrow> eid \<Rightarrow> aid option set" where
  "byte_sources s a e =
     {find (\<lambda>w. covers_byte (act s w) a) kept | dropped kept. cut_ok s e a dropped kept}"

lemma written_back_byte:
  assumes "act_location r = a"
  shows "written_back s r e {[None]} = (\<lambda>x. [map_option (Pair e) x]) ` byte_sources s a e"
  unfolding written_back_def byte_sources_def cut_ok_def
  using assms by (auto simp: fill_from_def act_bot_def image_def)

lemma written_back_full:
  assumes "act_location r = a" "line_ok s e a"
  shows "written_back s r e {[Some x]} = {[Some x]}"
proof -
  obtain dropped kept where "cut_ok s e a dropped kept" using exists_cut [OF assms(2)] by blast
  then show ?thesis
    unfolding written_back_def using assms(1) by (auto simp: fill_from_full cut_ok_def)
qed

lemma written_back_union: "written_back s r e (\<Union>X) = (\<Union>V \<in> X. written_back s r e V)"
  by (auto simp: written_back_def)

text \<open>Through the executions: the first that supplies the byte ends the search.\<close>

inductive byte_from :: "checker \<Rightarrow> addr \<Rightarrow> eid list \<Rightarrow> (eid \<times> aid) option \<Rightarrow> bool" for s a where
  "byte_from s a [] None"
| "Some w \<in> byte_sources s a e \<Longrightarrow> byte_from s a (e # es) (Some (e, w))"
| "None \<in> byte_sources s a e \<Longrightarrow> byte_from s a es x \<Longrightarrow> byte_from s a (e # es) x"

inductive_simps byte_from_simps [simp]: "byte_from s a [] x" "byte_from s a (e # es) x"

lemma fold_full:
  assumes "act_location r = a" "\<forall>e \<in> set es. line_ok s e a"
  shows "fold (written_back s r) es {[Some x]} = {[Some x]}"
  using assms(2) by (induction es) (simp_all add: written_back_full [OF assms(1)])

lemma fold_union:
  assumes "\<And>X. f e (\<Union>X) = (\<Union>V \<in> X. f e V)" "\<And>e X. f e (\<Union>X) = (\<Union>V \<in> X. f e V)"
  shows "fold f es (\<Union>X) = (\<Union>V \<in> X. fold f es V)"
proof (induction es arbitrary: X)
  case (Cons e es)
  have "fold f es (f e (\<Union>X)) = fold f es (\<Union>(f e ` X))" using assms(2) by simp
  also have "\<dots> = (\<Union>V \<in> f e ` X. fold f es V)" by (rule Cons)
  finally show ?case by simp
qed simp

lemma fold_byte_from:
  assumes "act_location r = a" "\<forall>e \<in> set es. line_ok s e a"
  shows "fold (written_back s r) es {[None]} = {[x] | x. byte_from s a es x}"
  using assms(2)
proof (induction es)
  case (Cons e es)
  let ?f = "written_back s r"
  have "fold ?f (e # es) {[None]} = fold ?f es (\<Union>y \<in> byte_sources s a e. {[map_option (Pair e) y]})"
    by (simp add: written_back_byte [OF assms(1)] UNION_singleton_eq_range)
  also have "\<dots> = (\<Union>y \<in> byte_sources s a e. fold ?f es {[map_option (Pair e) y]})"
    using fold_union [of ?f, OF written_back_union written_back_union, of es "(\<lambda>y. {[map_option (Pair e) y]}) ` byte_sources s a e"]
    by simp
  also have "\<dots> = {[x] | x. byte_from s a (e # es) x}"
  proof -
    have "fold ?f es {[map_option (Pair e) y]} =
        (case y of Some w \<Rightarrow> {[Some (e, w)]} | None \<Rightarrow> {[x] | x. byte_from s a es x})" for y
      using Cons fold_full [OF assms(1), of es s] by (cases y) auto
    then show ?thesis by (auto split: option.splits)
  qed
  finally show ?case .
qed simp

lemma byte_from_in: "byte_from s a es (Some (e, w)) \<Longrightarrow> e \<in> set es"
  by (induction es) auto

section \<open>What narrowing changes\<close>

lemma put_cache_line_window:
  assumes "e < length (ck_execs s)"
  shows "line_begin (put_cache_line e addr cl s) e' loc =
      (if e' = e \<and> getCacheID loc = getCacheID addr then cl_beginR cl else line_begin s e' loc)"
    "line_end (put_cache_line e addr cl s) e' loc =
      (if e' = e \<and> getCacheID loc = getCacheID addr then cl_endR cl else line_end s e' loc)"
    "writes_at (put_cache_line e addr cl s) = writes_at s"
    "ex_obj_wr_map (exec_of (put_cache_line e addr cl s) e') = ex_obj_wr_map (exec_of s e')"
    "act (put_cache_line e addr cl s) = act s"
    "length (ck_execs (put_cache_line e addr cl s)) = length (ck_execs s)"
  using assms
  by (auto simp: put_cache_line_def line_begin_def line_end_def writes_at_def fun_eq_iff exec_of_upd_exec frame_simps)

lemma getCacheLine_put: "getCacheLine e addr s =
    (case ex_obj_to_cacheline (exec_of s e) (getCacheID addr) of
       Some cl \<Rightarrow> (cl, s) | None \<Rightarrow> (CacheLine, put_cache_line e addr CacheLine s))"
  unfolding getCacheLine_def put_cache_line_def by (rule refl)

lemma line_same:
  assumes "getCacheID loc = getCacheID addr"
  shows "line_begin s e loc = line_begin s e addr" "line_end s e loc = line_end s e addr"
  by (simp_all add: line_begin_def line_end_def assms)

lemma getCacheLine_window:
  assumes "getCacheLine e addr s = (cl, s1)" "e < length (ck_execs s)"
  shows "cl_beginR cl = line_begin s e addr" "cl_endR cl = line_end s e addr"
    "line_begin s1 e' loc = line_begin s e' loc" "line_end s1 e' loc = line_end s e' loc"
    "writes_at s1 = writes_at s"
    "ex_obj_wr_map (exec_of s1 e') = ex_obj_wr_map (exec_of s e')"
    "act s1 = act s" "length (ck_execs s1) = length (ck_execs s)"
proof -
  show "cl_beginR cl = line_begin s e addr" "cl_endR cl = line_end s e addr"
    using assms(1) by (auto simp: getCacheLine_put line_begin_def line_end_def CacheLine_def split: option.splits)
  show "writes_at s1 = writes_at s" "ex_obj_wr_map (exec_of s1 e') = ex_obj_wr_map (exec_of s e')"
    "act s1 = act s" "length (ck_execs s1) = length (ck_execs s)"
    using assms(1) put_cache_line_window [OF assms(2)] by (auto simp: getCacheLine_put split: option.splits)
  show "line_begin s1 e' loc = line_begin s e' loc" "line_end s1 e' loc = line_end s e' loc"
    using assms(1) put_cache_line_window(1,2) [OF assms(2), of addr CacheLine e' loc]
    by (auto simp: getCacheLine_put line_begin_def line_end_def CacheLine_def split: option.splits if_splits)
qed

lemma setBeginRange_window:
  assumes "e < length (ck_execs s)"
  shows "line_begin (setBeginRange e addr c s) e' loc =
      (if e' = e \<and> getCacheID loc = getCacheID addr then c else line_begin s e' loc)"
    "line_end (setBeginRange e addr c s) e' loc = line_end s e' loc"
    "writes_at (setBeginRange e addr c s) = writes_at s"
    "ex_obj_wr_map (exec_of (setBeginRange e addr c s) e') = ex_obj_wr_map (exec_of s e')"
    "act (setBeginRange e addr c s) = act s"
    "length (ck_execs (setBeginRange e addr c s)) = length (ck_execs s)"
proof -
  obtain cl s1 where g: "getCacheLine e addr s = (cl, s1)" by (metis surj_pair)
  note w = getCacheLine_window [OF g assms]
  have "e < length (ck_execs s1)" using assms w(8) by simp
  note p = put_cache_line_window [OF this]
  have eq: "setBeginRange e addr c s = put_cache_line e addr (cl\<lparr>cl_beginR := c\<rparr>) s1"
    by (simp add: setBeginRange_def g)
  show "line_begin (setBeginRange e addr c s) e' loc =
      (if e' = e \<and> getCacheID loc = getCacheID addr then c else line_begin s e' loc)"
    unfolding eq p by (simp add: w)
  show "line_end (setBeginRange e addr c s) e' loc = line_end s e' loc"
    unfolding eq p using line_same(2) [of loc addr s e] by (auto simp: w)
  show "writes_at (setBeginRange e addr c s) = writes_at s"
    "ex_obj_wr_map (exec_of (setBeginRange e addr c s) e') = ex_obj_wr_map (exec_of s e')"
    "act (setBeginRange e addr c s) = act s"
    "length (ck_execs (setBeginRange e addr c s)) = length (ck_execs s)"
    unfolding eq p by (simp_all add: w)
qed

lemma setEndRange_window:
  assumes "e < length (ck_execs s)"
  shows "line_begin (setEndRange e addr c s) e' loc = line_begin s e' loc"
    "line_end (setEndRange e addr c s) e' loc =
      (if e' = e \<and> getCacheID loc = getCacheID addr then c else line_end s e' loc)"
    "writes_at (setEndRange e addr c s) = writes_at s"
    "ex_obj_wr_map (exec_of (setEndRange e addr c s) e') = ex_obj_wr_map (exec_of s e')"
    "act (setEndRange e addr c s) = act s"
    "length (ck_execs (setEndRange e addr c s)) = length (ck_execs s)"
proof -
  obtain cl s1 where g: "getCacheLine e addr s = (cl, s1)" by (metis surj_pair)
  note w = getCacheLine_window [OF g assms]
  have "e < length (ck_execs s1)" using assms w(8) by simp
  note p = put_cache_line_window [OF this]
  have eq: "setEndRange e addr c s = put_cache_line e addr (cl\<lparr>cl_endR := c\<rparr>) s1"
    by (simp add: setEndRange_def g)
  show "line_end (setEndRange e addr c s) e' loc =
      (if e' = e \<and> getCacheID loc = getCacheID addr then c else line_end s e' loc)"
    unfolding eq p by (simp add: w)
  show "line_begin (setEndRange e addr c s) e' loc = line_begin s e' loc"
    unfolding eq p using line_same(1) [of loc addr s e] by (auto simp: w)
  show "writes_at (setEndRange e addr c s) = writes_at s"
    "ex_obj_wr_map (exec_of (setEndRange e addr c s) e') = ex_obj_wr_map (exec_of s e')"
    "act (setEndRange e addr c s) = act s"
    "length (ck_execs (setEndRange e addr c s)) = length (ck_execs s)"
    unfolding eq p by (simp_all add: w)
qed

lemma bound_before_window:
  assumes "e < length (ck_execs s)"
  shows "line_begin (bound_before e addr ca en ws s) e' loc = line_begin s e' loc"
    "line_end (bound_before e addr ca en ws s) e' loc =
      (if e' = e \<and> getCacheID loc = getCacheID addr then
         (case find (\<lambda>w. covers_byte (act s w) ca) ws of
            Some w \<Rightarrow> if en = 0 \<or> get_seq_number (act s w) \<le> en then get_seq_number (act s w) - 1
              else line_end s e' loc
          | None \<Rightarrow> line_end s e' loc)
       else line_end s e' loc)"
    "writes_at (bound_before e addr ca en ws s) = writes_at s"
    "ex_obj_wr_map (exec_of (bound_before e addr ca en ws s) e') = ex_obj_wr_map (exec_of s e')"
    "act (bound_before e addr ca en ws s) = act s"
    "length (ck_execs (bound_before e addr ca en ws s)) = length (ck_execs s)"
  by (auto simp: bound_before_def Let_def setEndRange_window [OF assms] split: option.splits)

text \<open>A byte's sources and the soundness of a line depend on the window and the writes only.\<close>

lemma line_cong:
  assumes "line_begin s' e a = line_begin s e a" "line_end s' e a = line_end s e a"
    "writes_at s' e a = writes_at s e a" "act s' = act s"
  shows "cut_ok s' e a d k = cut_ok s e a d k" "byte_sources s' a e = byte_sources s a e"
    "line_ok s' e a = line_ok s e a"
proof -
  show c: "cut_ok s' e a d k = cut_ok s e a d k" for d k using assms by (simp add: cut_ok_def)
  show "byte_sources s' a e = byte_sources s a e" using assms(4) c by (simp add: byte_sources_def)
  show "line_ok s' e a = line_ok s e a" using assms by (simp add: line_ok_def)
qed

lemma byte_from_cong:
  assumes "\<forall>e \<in> set es. byte_sources s' a e = byte_sources s a e"
  shows "byte_from s' a es x = byte_from s a es x"
  using assms by (induction es) auto

text \<open>Numbers of stores: 0 for an initialisation, otherwise larger than the first action's.\<close>

definition numbered :: "checker \<Rightarrow> eid \<Rightarrow> addr \<Rightarrow> bool" where
  "numbered s e loc \<longleftrightarrow>
     (\<forall>w \<in> set (writes_at s e loc). get_seq_number (act s w) = 0 \<or> get_seq_number (act s w) \<ge> 2)"

lemma find_first:
  assumes "find P xs = Some x"
  shows "\<exists>us vs. xs = us @ x # vs \<and> P x \<and> (\<forall>u \<in> set us. \<not> P u)"
proof -
  from assms obtain i where i: "i < length xs" "P (xs ! i)" "x = xs ! i" "\<forall>j < i. \<not> P (xs ! j)"
    by (auto simp: find_Some_iff)
  then have "\<forall>u \<in> set (take i xs). \<not> P u" by (auto simp: in_set_conv_nth)
  then show ?thesis using i id_take_nth_drop [OF i(1)] by metis
qed

text \<open>An execution the byte is not read from: its line is bounded before the byte's first store.\<close>

lemma bound_passed_over:
  fixes s s' e a
  defines "c \<equiv> find (\<lambda>w. covers_byte (act s w) a) (writes_at s e a)"
  assumes "line_ok s e a" "numbered s e a" "None \<in> byte_sources s a e"
    "line_begin s' e a = line_begin s e a" "writes_at s' e a = writes_at s e a" "act s' = act s"
    "line_end s' e a = (case c of
        Some w \<Rightarrow> if line_end s e a = 0 \<or> get_seq_number (act s w) \<le> line_end s e a
          then get_seq_number (act s w) - 1 else line_end s e a
      | None \<Rightarrow> line_end s e a)"
  shows "line_ok s' e a \<and> byte_sources s' a e = {None}"
proof -
  let ?cov = "\<lambda>w. covers_byte (act s w) a"
  let ?n = "\<lambda>w. get_seq_number (act s w)"
  obtain d k where cut: "cut_ok s e a d k" and none: "find ?cov k = None"
    using assms(4) by (auto simp: byte_sources_def)
  have split: "rev (writes_at s e a) = d @ k"
    and dn: "\<forall>w \<in> set d. \<not> must_be_in (line_begin s e a) (act s w)"
    and kv: "\<forall>w \<in> set k. not_after (line_end s e a) (act s w)" using cut by (auto simp: cut_ok_def)
  have mem: "set (writes_at s e a) = set d \<union> set k" by (metis set_append set_rev split)
  have ok: "line_ok s' e a \<and> (\<forall>w \<in> set (writes_at s e a). ?cov w \<longrightarrow> \<not> not_after (line_end s' e a) (act s w))"
  proof (cases c)
    case None
    then have "\<forall>w \<in> set (writes_at s e a). \<not> ?cov w" by (auto simp: c_def find_None_iff)
    moreover have "line_ok s' e a" using line_cong(3) [of s' e a s] assms None by simp
    ultimately show ?thesis by auto
  next
    case (Some f)
    then obtain us vs where f: "writes_at s e a = us @ f # vs" "?cov f" "\<forall>u \<in> set us. \<not> ?cov u"
      using find_first by (metis c_def)
    have "f \<in> set d" using f none mem by (auto simp: find_None_iff)
    then have notmust: "\<not> must_be_in (line_begin s e a) (act s f)" using dn by blast
    then have "?n f \<noteq> 0" by (auto simp: must_be_in_def)
    then have f2: "?n f \<ge> 2" using assms(3) f(1) by (auto simp: numbered_def)
    then have f1: "?n f - 1 \<noteq> 0" "?n f - 1 < ?n f" by (uint_arith, uint_arith)
    have later: "?n f \<le> ?n w" if "w \<in> set (writes_at s e a)" "?cov w" for w
    proof -
      have "sorted_wrt (\<lambda>w w'. ?n w < ?n w') (us @ f # vs)" using assms(2) f(1) by (simp add: line_ok_def)
      then have "\<forall>w \<in> set vs. ?n f < ?n w" by (simp add: sorted_wrt_append)
      then show ?thesis using that f by auto
    qed
    have hidden: "\<not> not_after (line_end s' e a) (act s w)" if "w \<in> set (writes_at s e a)" "?cov w" for w
      using later [OF that] f1 assms(8) Some by (auto simp: not_after_def)
    have "not_after (line_end s' e a) (act s w)"
      if w: "w \<in> set (writes_at s e a)" "must_be_in (line_begin s e a) (act s w)" for w
    proof -
      have "w \<in> set k" using w dn mem by auto
      then have "?n w < ?n f" using sorted_newest_first(1) [OF assms(2) split] \<open>f \<in> set d\<close> by blast
      then have "?n w \<le> ?n f - 1" by uint_arith
      moreover have "not_after (line_end s e a) (act s w)" using kv \<open>w \<in> set k\<close> by blast
      ultimately show ?thesis using assms(8) Some by (auto simp: not_after_def)
    qed
    then have "line_ok s' e a" using assms(2,5-7) by (simp add: line_ok_def)
    then show ?thesis using hidden by blast
  qed
  then obtain d' k' where c': "cut_ok s' e a d' k'" using exists_cut by blast
  have "find ?cov k = None" if "cut_ok s' e a d k" for d k
  proof -
    have "set k \<subseteq> set (writes_at s e a)"
      using that assms(6) by (metis Un_upper2 cut_ok_def set_append set_rev)
    then show ?thesis using that ok assms(7) by (auto simp: cut_ok_def find_None_iff)
  qed
  then have n: "find ?cov k' = None" "\<And>d k. cut_ok s' e a d k \<Longrightarrow> find ?cov k = None" using c' by blast+
  have "byte_sources s' a e = {None}"
  proof (intro set_eqI iffI)
    fix x assume "x \<in> byte_sources s' a e"
    then show "x \<in> {None}" using n(2) by (auto simp: byte_sources_def assms(7))
  next
    fix x assume "x \<in> {None :: aid option}"
    then have "x = find ?cov k'" using n(1) by simp
    then show "x \<in> byte_sources s' a e" using c' unfolding byte_sources_def assms(7) by blast
  qed
  then show ?thesis using ok by blast
qed

text \<open>The execution the byte is read from: the store is in, the next one to the byte is not.\<close>

lemma bound_chosen:
  fixes s s' e a rf nextNodes
  defines "c \<equiv> find (\<lambda>w. covers_byte (act s w) a) nextNodes"
  assumes "line_ok s e a" "numbered s e a" "Some rf \<in> byte_sources s a e"
    "dropWhile (\<lambda>w. w \<noteq> rf) (writes_at s e a) = rf # nextNodes"
    "line_begin s' e a = (if line_begin s e a < get_seq_number (act s rf)
       then get_seq_number (act s rf) else line_begin s e a)"
    "writes_at s' e a = writes_at s e a" "act s' = act s"
    "line_end s' e a = (case c of
        Some w \<Rightarrow> if line_end s e a = 0 \<or> get_seq_number (act s w) \<le> line_end s e a
          then get_seq_number (act s w) - 1 else line_end s e a
      | None \<Rightarrow> line_end s e a)"
  shows "line_ok s' e a \<and> byte_sources s' a e = {Some rf}"
proof -
  let ?cov = "\<lambda>w. covers_byte (act s w) a"
  let ?n = "\<lambda>w. get_seq_number (act s w)"
  obtain d k where cut: "cut_ok s e a d k" and rf: "find ?cov k = Some rf"
    using assms(4) by (auto simp: byte_sources_def)
  have split: "rev (writes_at s e a) = d @ k"
    and dn: "\<forall>w \<in> set d. \<not> must_be_in (line_begin s e a) (act s w)"
    and kv: "\<forall>w \<in> set k. not_after (line_end s e a) (act s w)" using cut by (auto simp: cut_ok_def)
  obtain us vs where k: "k = us @ rf # vs" "?cov rf" "\<forall>u \<in> set us. \<not> ?cov u"
    using find_first [OF rf] by blast
  have mem: "set (writes_at s e a) = set d \<union> set k" by (metis set_append set_rev split)
  have srt: "sorted_wrt (\<lambda>w w'. ?n w < ?n w') (writes_at s e a)" using assms(2) by (simp add: line_ok_def)
  have ws: "writes_at s e a = rev vs @ rf # rev (d @ us)"
    using split k(1) by (metis append.assoc append_Cons append_Nil rev.simps(2) rev_append rev_rev_ident)
  have nn: "rf \<notin> set (rev vs)" using srt unfolding ws by (auto simp: sorted_wrt_append)
  have next_eq: "nextNodes = rev (d @ us)"
  proof -
    have "dropWhile (\<lambda>w. w \<noteq> rf) (rev vs @ rf # rev (d @ us)) = rf # rev (d @ us)"
      using nn by (subst dropWhile_append2) auto
    then show ?thesis using assms(5) ws by simp
  qed
  have newer: "?n rf < ?n w" if "w \<in> set nextNodes" for w
    using srt that unfolding ws next_eq by (simp add: sorted_wrt_append)
  have older: "?n w < ?n rf" if "w \<in> set vs" for w
    using srt that unfolding ws by (simp add: sorted_wrt_append)
  have ndn: "f \<in> set d" if "f \<in> set nextNodes" "?cov f" for f
    using that k(3) unfolding next_eq by auto
  have bound: "?n w \<le> ?n f - 1 \<and> ?n f - 1 \<noteq> 0" if "?n w < ?n f" "?n f \<ge> 2" for w f
    using that by uint_arith
  have big: "?n f \<ge> 2" if "f \<in> set nextNodes" for f
  proof -
    have "?n f \<noteq> 0" using newer [OF that] by auto
    then show ?thesis using assms(3) that unfolding numbered_def ws next_eq by auto
  qed
  have later: "?n f \<le> ?n w" if l: "c = Some f" "w \<in> set nextNodes" "?cov w" for f w
  proof -
    obtain xs ys where x: "nextNodes = xs @ f # ys" "?cov f" "\<forall>x \<in> set xs. \<not> ?cov x"
      using find_first [OF l(1) [unfolded c_def]] by blast
    have "sorted_wrt (\<lambda>w w'. ?n w < ?n w') nextNodes"
      using srt unfolding ws next_eq by (simp add: sorted_wrt_append)
    then show ?thesis using l x by (auto simp: sorted_wrt_append)
  qed
  have cin: "f \<in> set nextNodes \<and> ?cov f" if "c = Some f" for f
    using find_first [OF that [unfolded c_def]] by auto
  have hidden: "\<not> not_after (line_end s' e a) (act s w)" if w: "w \<in> set nextNodes" "?cov w" for w
  proof (cases c)
    case None
    then show ?thesis using w by (auto simp: c_def find_None_iff)
  next
    case (Some f)
    have "?n f \<ge> 2" using big cin [OF Some] by blast
    then have "?n f - 1 \<noteq> 0" "?n f - 1 < ?n w" using later [OF Some w] by (uint_arith, uint_arith)
    then show ?thesis using Some assms(9) later [OF Some w] by (auto simp: not_after_def)
  qed
  have vis: "not_after (line_end s' e a) (act s w)"
    if w: "w \<in> set k" "\<And>f. f \<in> set nextNodes \<Longrightarrow> ?cov f \<Longrightarrow> ?n w < ?n f" for w
  proof (cases c)
    case None
    then show ?thesis using w kv assms(9) by simp
  next
    case (Some f)
    then have "?n w \<le> ?n f - 1 \<and> ?n f - 1 \<noteq> 0" using w cin [OF Some] big bound by blast
    then show ?thesis using Some assms(9) w(1) kv by (auto simp: not_after_def)
  qed
  have kd: "?n w < ?n f" if "w \<in> set k" "f \<in> set nextNodes" "?cov f" for w f
    using sorted_newest_first(1) [OF assms(2) split] ndn that by blast
  have "not_after (line_end s' e a) (act s w)"
    if w: "w \<in> set (writes_at s e a)" "must_be_in (line_begin s' e a) (act s w)" for w
  proof (cases "must_be_in (line_begin s e a) (act s w)")
    case True
    then have "w \<in> set k" using w dn mem by auto
    then show ?thesis using vis kd by blast
  next
    case False
    then have "?n w \<le> ?n rf" using w(2) assms(6) by (auto simp: must_be_in_def split: if_splits)
    then have "w \<notin> set nextNodes" using newer by force
    then have "w \<in> set k" using w(1) k(1) unfolding ws next_eq by auto
    then show ?thesis using vis kd by blast
  qed
  then have ok: "line_ok s' e a" using assms(2,7,8) by (simp add: line_ok_def)
  have rf_in: "must_be_in (line_begin s' e a) (act s rf)"
    using assms(6) by (auto simp: must_be_in_def)
  have "find ?cov k' = Some rf" if c': "cut_ok s' e a d' k'" for d' k'
  proof -
    have sp: "rev (writes_at s e a) = d' @ k'" and d': "\<forall>w \<in> set d'. \<not> must_be_in (line_begin s' e a) (act s w)"
      and k': "\<forall>w \<in> set k'. not_after (line_end s' e a) (act s w)"
      using c' assms(7,8) by (auto simp: cut_ok_def)
    have "rf \<in> set k'" 
    proof -
      have "rf \<in> set (rev (writes_at s e a))" unfolding ws by simp
      then have "rf \<in> set d' \<union> set k'" unfolding sp by simp
      then show ?thesis using d' rf_in by blast
    qed
    then obtain xs ys where x: "k' = xs @ rf # ys" by (meson split_list)
    have eq: "(d @ us) @ rf # vs = (d' @ xs) @ rf # ys" using sp split k(1) x by simp
    have n1: "rf \<notin> set (d @ us)" using newer [of rf] unfolding next_eq by auto
    have "d @ us = d' @ xs" using eq append_Cons_eq_iff [OF n1, of vs "d' @ xs" ys] nn by simp
    then have "set xs \<subseteq> set nextNodes" unfolding next_eq by auto
    then have "\<forall>x \<in> set xs. \<not> ?cov x" using hidden k' x by auto
    then have "find ?cov xs = None" by (simp add: find_None_iff)
    then show ?thesis using x k(2) by (simp add: find_append_case)
  qed
  moreover obtain d' k' where "cut_ok s' e a d' k'" using exists_cut [OF ok] by blast
  ultimately have "byte_sources s' a e = {Some rf}" unfolding byte_sources_def assms(8) by force
  then show ?thesis using ok by blast
qed

section \<open>Reading the byte again\<close>

lemma found_frame:
  "ck_found (bound_before e addr ca en ws s) = ck_found s" "ck_found (setBeginRange e addr c s) = ck_found s"
  "getCacheLine e addr s = (cl, s1) \<Longrightarrow> ck_found s1 = ck_found s"
  by (auto simp: bound_before_def setBeginRange_def setEndRange_def getCacheLine_def put_cache_line_def
      upd_exec_def Let_def split: option.splits prod.splits)

lemma no_writes_open:
  assumes "writes_at s e a = []"
  shows "byte_sources s a e = {None}"
  using assms by (auto simp: byte_sources_def cut_ok_def)

definition same_window :: "checker \<Rightarrow> checker \<Rightarrow> addr \<Rightarrow> eid \<Rightarrow> bool" where
  "same_window s s' a e \<longleftrightarrow> line_begin s' e a = line_begin s e a \<and> line_end s' e a = line_end s e a"

lemma narrow_loop_stable:
  assumes "narrow_loop exec rf address a es s = Some s'" "distinct es"
    "\<forall>e \<in> set es. e < length (ck_execs s) \<and> line_ok s e a \<and> numbered s e a"
    "alignAddress address = alignAddress a" "getCacheID address = getCacheID a"
    "byte_from s a es (Some (exec, rf))"
  shows "(\<forall>e \<in> set es. line_ok s' e a) \<and> (\<forall>x. byte_from s' a es x \<longleftrightarrow> x = Some (exec, rf)) \<and>
    act s' = act s \<and> writes_at s' = writes_at s \<and> ck_found s' = ck_found s \<and>
    (\<forall>e. e \<notin> set es \<longrightarrow> same_window s s' a e)"
  using assms
proof (induction es arbitrary: s)
  case Nil
  then show ?case by simp
next
  case (Cons e es)
  let ?ws = "ex_obj_wr_map (exec_of s e) (alignAddress address)"
  have wa: "writes_at s e a = (case ?ws of Some ws \<Rightarrow> ws | None \<Rightarrow> [])"
    using Cons.prems(4) by (simp add: writes_at_def)
  have lenE: "e < length (ck_execs s)" and okE: "line_ok s e a" "numbered s e a" using Cons.prems(3) by auto
  have pass: ?case
    if n: "narrow_loop exec rf address a es s1 = Some s'"
      and s1: "act s1 = act s" "writes_at s1 = writes_at s" "ck_found s1 = ck_found s"
        "length (ck_execs s1) = length (ck_execs s)" "\<And>e'. e' \<noteq> e \<Longrightarrow> same_window s s1 a e'"
        "line_ok s1 e a" "byte_sources s1 a e = {None}"
      and b: "byte_from s a es (Some (exec, rf))" for s1
  proof -
    have c: "line_ok s1 e' a = line_ok s e' a \<and> byte_sources s1 a e' = byte_sources s a e'" if "e' \<in> set es" for e'
    proof -
      have "e' \<noteq> e" using that Cons.prems(2) by auto
      then show ?thesis
        using s1(1,2) s1(5) [of e'] line_cong(2,3) [of s1 e' a s] by (simp add: same_window_def)
    qed
    have "\<forall>e \<in> set es. e < length (ck_execs s1) \<and> line_ok s1 e a \<and> numbered s1 e a"
      using Cons.prems(3) c s1 by (simp add: numbered_def)
    moreover have "byte_from s1 a es (Some (exec, rf))" using b c byte_from_cong by blast
    ultimately have h: "(\<forall>e \<in> set es. line_ok s' e a) \<and> (\<forall>x. byte_from s' a es x \<longleftrightarrow> x = Some (exec, rf)) \<and>
      act s' = act s1 \<and> writes_at s' = writes_at s1 \<and> ck_found s' = ck_found s1 \<and>
      (\<forall>e. e \<notin> set es \<longrightarrow> same_window s1 s' a e)"
      using Cons.IH [OF n] Cons.prems(2,4,5) by simp
    then have "line_ok s' e a = line_ok s1 e a" "byte_sources s' a e = byte_sources s1 a e"
      using line_cong [of s' e a s1] Cons.prems(2) by (auto simp: same_window_def)
    then show ?thesis using h s1 by (auto simp: same_window_def)
  qed
  show ?case
  proof (cases ?ws)
    case None
    then have "writes_at s e a = []" using wa by simp
    from no_writes_open [OF this] have e: "byte_sources s a e = {None}" .
    then show ?thesis
      using pass [of s] Cons.prems(1,6) None okE by (auto simp: same_window_def)
  next
    case (Some ws)
    obtain cl s1 where g: "getCacheLine e address s = (cl, s1)" by (metis surj_pair)
    note w = getCacheLine_window [OF g lenE] and f = found_frame(3) [OF g]
    have len1: "e < length (ck_execs s1)" using lenE w(8) by simp
    have lw: "line_begin s e address = line_begin s e a" "line_end s e address = line_end s e a"
      using line_same [of address a s e] Cons.prems(5) by auto
    have ws: "writes_at s e a = ws" using wa Some by simp
    show ?thesis
    proof (cases "e = exec")
      case False
      define s2 where "s2 = bound_before e address a (cl_endR cl) ws s1"
      have b: "byte_from s a es (Some (exec, rf))" "None \<in> byte_sources s a e" using Cons.prems(6) False by auto
      note bw = bound_before_window [OF len1, of address a "cl_endR cl" ws, folded s2_def]
      have n: "narrow_loop exec rf address a es s2 = Some s'"
        using Cons.prems(1) Some g False by (simp add: s2_def)
      have "line_ok s2 e a \<and> byte_sources s2 a e = {None}"
        by (rule bound_passed_over [OF okE b(2)])
           (use bw w lw ws Cons.prems(5) in \<open>auto split: option.split\<close>)
      moreover have "same_window s s2 a e'" if "e' \<noteq> e" for e'
        using that bw w by (simp add: same_window_def)
      ultimately show ?thesis
        by (intro pass [OF n _ _ _ _ _ _ _ b(1)]) (use bw w f in \<open>auto simp: s2_def found_frame\<close>)
    next
      case True
      have src: "Some rf \<in> byte_sources s a e"
        using Cons.prems(2,6) True byte_from_in by auto
      define s2 where "s2 = (if cl_beginR cl < get_seq_number (act s1 rf)
        then setBeginRange e address (get_seq_number (act s1 rf)) s1 else s1)"
      obtain x nextNodes where d: "dropWhile (\<lambda>w. w \<noteq> rf) ws = x # nextNodes"
        and s': "s' = bound_before e address a (cl_endR cl) nextNodes s2"
        using Cons.prems(1) Some g True by (auto simp: s2_def Let_def split: list.splits)
      have x: "x = rf" using d unfolding dropWhile_eq_Cons_conv by blast
      note sw = setBeginRange_window [OF len1]
      have s2: "line_begin s2 e' a = (if e' = e \<and> line_begin s e a < get_seq_number (act s rf)
            then get_seq_number (act s rf) else line_begin s e' a)"
        "line_end s2 e' a = line_end s e' a" "writes_at s2 = writes_at s" "act s2 = act s"
        "ck_found s2 = ck_found s" "length (ck_execs s2) = length (ck_execs s)" for e'
        using w lw f Cons.prems(5) by (auto simp: s2_def sw found_frame)
      have len2: "e < length (ck_execs s2)" using s2(6) lenE by simp
      note bw = bound_before_window [OF len2, of address a "cl_endR cl" nextNodes, folded s']
      have me: "line_ok s' e a \<and> byte_sources s' a e = {Some rf}"
        by (rule bound_chosen [OF okE src])
           (use bw s2 w lw ws d x Cons.prems(5) in \<open>auto split: option.split\<close>)
      have same: "same_window s s' a e'" if "e' \<noteq> e" for e'
        using that bw s2 by (simp add: same_window_def)
      have others: "line_ok s' e' a" if "e' \<in> set es" for e'
      proof -
        have "e' \<noteq> e" using that Cons.prems(2) by auto
        then show ?thesis
          using same [of e'] line_cong(3) [of s' e' a s] bw s2 Cons.prems(3) that by (simp add: same_window_def)
      qed
      then show ?thesis
        using me same True bw s2 by (auto simp: s' found_frame)
    qed
  qed
qed

text \<open>
  C4: once a load has been answered with a store from before a crash, the same byte can
  only be answered with that store: after the narrowing done for it, the search through
  the earlier executions yields it as the only candidate.
\<close>

theorem chosen_byte_stays:
  assumes "prior_executions r es [[None]] s = (cands, s1)" "[Some (exec, rf)] \<in> set cands"
    "narrow_loop exec rf address (act_location r) es s1 = Some s2"
    "prior_executions r es [[None]] s2 = (cands', s3)"
    "alignAddress address = alignAddress (act_location r)" "getCacheID address = getCacheID (act_location r)"
    "act_size r = 1" "small r" "distinct es" "found_sound s"
    "\<forall>e \<in> set es. e < length (ck_execs s) \<and> line_ok s e (act_location r) \<and> numbered s e (act_location r)"
  shows "set cands' = {[Some (exec, rf)]}"
proof -
  let ?a = "act_location r"
  have len: "\<forall>v \<in> set [[None] :: write_vec]. length v = act_size r" using assms(7) by simp
  have lok: "\<forall>e \<in> set es. line_ok s e ?a" using assms(11) by blast
  have "same_but_probes s s1"
    using prior_executions_walk [OF assms(1,8) _ len assms(10)] lok by (auto simp: line_ok_def)
  then obtain n where s1: "s1 = s\<lparr>ck_found_pos := n\<rparr>" by (auto simp: same_but_probes_def)
  have eqs: "line_begin s1 = line_begin s" "line_end s1 = line_end s" "writes_at s1 = writes_at s" "act s1 = act s"
    by (auto simp: s1 line_begin_def line_end_def writes_at_def act_def exec_of_def fun_eq_iff)
  have cong: "line_ok s1 e ?a = line_ok s e ?a" "byte_sources s1 ?a e = byte_sources s ?a e"
    "numbered s1 e ?a = numbered s e ?a" for e
    using line_cong [of s1 e ?a s] eqs by (auto simp: numbered_def)
  have "[Some (exec, rf)] \<in> fold (written_back s r) es {[None]}"
    using candidates_set [OF assms(1,8) lok len assms(10)] assms(2) by simp
  then have "byte_from s ?a es (Some (exec, rf))" using fold_byte_from [of r ?a es s] lok by auto
  then have "byte_from s1 ?a es (Some (exec, rf))" using byte_from_cong cong(2) by blast
  from narrow_loop_stable [OF assms(3,9) _ assms(5,6) this] assms(11) cong s1
  have st: "\<forall>e \<in> set es. line_ok s2 e ?a" "\<forall>x. byte_from s2 ?a es x \<longleftrightarrow> x = Some (exec, rf)"
    "ck_found s2 = ck_found s" by auto
  have "found_sound s2" using assms(10) st(3) by (simp add: found_sound_def)
  from candidates_set [OF assms(4,8) st(1) len this]
  show ?thesis using fold_byte_from [of r ?a es s2] st by auto
qed

theorem chosen_byte_stays_witness:
  "\<exists>s2. narrow_loop 0 0 0x1000 0x1000 [0] (snd (prior_executions (demo_load 1) [0] [[None]] crash_demo)) = Some s2 \<and>
     set (fst (prior_executions (demo_load 1) [0] [[None]] s2)) = {[Some (0, 0)]}"
proof -
  obtain cands s1 where p: "prior_executions (demo_load 1) [0] [[None]] crash_demo = (cands, s1)"
    by (metis surj_pair)
  have "fst (prior_executions (demo_load 1) [0] [[None]] crash_demo) = [[Some (0, 1)], [Some (0, 0)], [None]]"
    by code_simp
  then have c: "[Some (0, 0)] \<in> set cands" unfolding p fst_conv by simp
  have "map_option (\<lambda>_. True) (narrow_loop 0 0 0x1000 0x1000 [0]
      (snd (prior_executions (demo_load 1) [0] [[None]] crash_demo))) = Some True"
    by code_simp
  then obtain s2 where n: "narrow_loop 0 0 0x1000 0x1000 [0] s1 = Some s2"
    unfolding p snd_conv by (auto simp del: narrow_loop.simps)
  obtain cands' s3 where q: "prior_executions (demo_load 1) [0] [[None]] s2 = (cands', s3)"
    by (metis surj_pair)
  have "numbered crash_demo 0 0x1000" by code_simp
  then have ok: "\<forall>e \<in> set [0]. e < length (ck_execs crash_demo) \<and>
      line_ok crash_demo e (act_location (demo_load 1)) \<and> numbered crash_demo e (act_location (demo_load 1))"
    by (simp add: demo_load_sel crash_demo_line) (simp add: crash_demo_def)
  have "found_sound crash_demo" by (simp add: found_sound_def crash_demo_def demo_checker_def)
  moreover have "narrow_loop 0 0 0x1000 (act_location (demo_load 1)) [0] s1 = Some s2"
    unfolding demo_load_sel by (rule n)
  moreover have "small (demo_load 1)" by (rule small_demo) simp
  ultimately have "set cands' = {[Some (0, 0)]}"
    by (intro chosen_byte_stays [OF p c _ q _ _ demo_load_sel(2) _ _ _ ok]) (simp_all only: demo_load_sel distinct_singleton)
  then show ?thesis unfolding p snd_conv using n q by (intro exI [of _ s2]) (simp del: narrow_loop.simps prior_executions.simps)
qed

end
