(* ===== verification/Scheduling.thy ===== *)
theory Scheduling
  imports Reads
begin

text \<open>
  \<^verbatim>\<open>Scheduler/schedule.cc\<close>, \<^verbatim>\<open>Scheduler/fuzzer.cc\<close> and the waiting relation of
  \<^verbatim>\<open>Scheduler/threads.cc\<close>: which threads may run, which one is picked, and who waits for
  whom.
\<close>

section \<open>Changing the state of a thread\<close>

text \<open>\<^verbatim>\<open>Scheduler::add_thread\<close> and \<^verbatim>\<open>ModelExecution::add_thread\<close>.\<close>

definition sched_add_thread :: "thread_obj \<Rightarrow> checker \<Rightarrow> checker option" where
  "sched_add_thread th s =
     (if th_model_thread th then None else Some (upd_sched (set_enabled (th_id th) THREAD_ENABLED) s))"

definition add_thread :: "thread_obj \<Rightarrow> checker \<Rightarrow> checker option" where
  "add_thread th s =
     (let i = th_id th;
          s1 = upd_cur (\<lambda>x. x\<lparr>ex_thread_map := (grow None (i + 1) (ex_thread_map x))[i := Some th]\<rparr>) s in
      if th_model_thread th then Some s1 else sched_add_thread th s1)"

definition remove_thread :: "tid \<Rightarrow> checker \<Rightarrow> checker" where
  "remove_thread t s =
     upd_sched (\<lambda>sch. set_enabled t THREAD_DISABLED
       (if sch_current sch = Some t then sch\<lparr>sch_current := None\<rparr> else sch)) s"

definition sleep :: "tid \<Rightarrow> checker \<Rightarrow> checker option" where
  "sleep t s = do {
     let s1 = upd_sched (set_enabled t THREAD_DISABLED) s;
     th \<leftarrow> get_thread s1 t;
     th' \<leftarrow> set_state THREAD_BLOCKED th;
     Some (put_thread t th' s1)
   }"

definition wake :: "tid \<Rightarrow> checker \<Rightarrow> checker option" where
  "wake t s = do {
     th \<leftarrow> get_thread s t;
     if th_model_thread th then None
     else do {
       th' \<leftarrow> set_state THREAD_READY th;
       Some (put_thread t th' (upd_sched (set_enabled t THREAD_ENABLED) s))
     }
   }"

definition set_current_thread :: "tid option \<Rightarrow> checker \<Rightarrow> checker option" where
  "set_current_thread t s =
     (case t of
        None \<Rightarrow> Some (upd_sched (\<lambda>sch. sch\<lparr>sch_current := None\<rparr>) s)
      | Some i \<Rightarrow> do {
          th \<leftarrow> get_thread s i;
          if th_model_thread th then None
          else Some (upd_sched (\<lambda>sch. sch\<lparr>sch_current := Some i\<rparr>) s)
        })"

definition thread_enabled :: "checker \<Rightarrow> tid \<Rightarrow> bool" where
  "thread_enabled s t = is_enabled (ck_sched s) t"

section \<open>Picking a thread\<close>

fun all_sleeping_loop :: "enabled_type list \<Rightarrow> bool \<Rightarrow> bool" where
  "all_sleeping_loop [] sleeping = sleeping"
| "all_sleeping_loop (e # es) sleeping =
     (if e = THREAD_ENABLED then False
      else all_sleeping_loop es (if e = THREAD_SLEEP_SET then True else sleeping))"

definition all_threads_sleeping :: "scheduler \<Rightarrow> bool" where
  "all_threads_sleeping sch = all_sleeping_loop (sch_enabled sch) False"

text \<open>\<^verbatim>\<open>Fuzzer::selectThread\<close>: one of the listed threads at random; the list is not empty.\<close>

definition selectThread :: "tid list \<Rightarrow> checker \<Rightarrow> (tid \<times> checker) option" where
  "selectThread threadlist s =
     (if threadlist = [] then None
      else (let (r, s1) = next_random s in Some (threadlist ! (r mod length threadlist), s1)))"

definition threads_that_are :: "enabled_type \<Rightarrow> scheduler \<Rightarrow> tid list" where
  "threads_that_are e sch = filter (\<lambda>i. sch_enabled sch ! i = e) [0..<length (sch_enabled sch)]"

definition select_next_thread :: "checker \<Rightarrow> (tid option \<times> checker) option" where
  "select_next_thread s =
     (let thread_list = threads_that_are THREAD_ENABLED (ck_sched s);
          sleep_list = threads_that_are THREAD_SLEEP_SET (ck_sched s) in
      if thread_list = [] then
        (if sleep_list \<noteq> [] then do {
           (thread, s1) \<leftarrow> selectThread sleep_list s;
           s2 \<leftarrow> upd_thread thread (\<lambda>th. th\<lparr>th_wakeup_state := True\<rparr>) (remove_sleep thread s1);
           Some (Some thread, upd_sched (\<lambda>sch. sch\<lparr>sch_curr_thread_index := thread\<rparr>) s2)
         } else Some (None, s))
      else do {
        (thread, s1) \<leftarrow> selectThread thread_list s;
        th \<leftarrow> get_thread s1 thread;
        Some (Some thread, upd_sched (\<lambda>sch. sch\<lparr>sch_curr_thread_index := th_id th\<rparr>) s1)
      })"

text \<open>\<^verbatim>\<open>Fuzzer::selectNotify\<close> takes one of the waiters out of the list.\<close>

definition selectNotify :: "aid list \<Rightarrow> checker \<Rightarrow> tid \<times> aid list \<times> checker" where
  "selectNotify waiters s =
     (let (r, s1) = next_random s; i = r mod length waiters
      in (act_tid (act s1 (waiters ! i)), take i waiters @ drop (Suc i) waiters, s1))"

section \<open>Waiting\<close>

definition thread_operand :: "checker \<Rightarrow> model_action \<Rightarrow> tid option" where
  "thread_operand s m = get_thread_operand (ck_thread_at s) m"

definition waiting_on :: "checker \<Rightarrow> tid \<Rightarrow> tid option" where
  "waiting_on s t =
     (case get_thread s t of
        None \<Rightarrow> None
      | Some th \<Rightarrow>
          (case th_pending th of
             None \<Rightarrow> None
           | Some p \<Rightarrow>
               (let m = act s p in
                if act_type m = THREAD_JOIN then thread_operand s m
                else if act_type m = PTHREAD_JOIN then thread_operand s m
                else if is_lock m then ms_locked (ck_mutexes s (act_location m))
                else None)))"

text \<open>
  \<^verbatim>\<open>is_waiting_on\<close> follows the chain of waiting threads; the chain may be a cycle that
  \<open>t\<close> is not on, and then the loop does not end.
\<close>

partial_function (option) waits_through :: "(tid \<Rightarrow> tid option) \<Rightarrow> tid \<Rightarrow> tid option \<Rightarrow> bool option" where
  "waits_through next t wait =
     (case wait of
        None \<Rightarrow> Some False
      | Some w \<Rightarrow> if w = t then Some True else waits_through next t (next w))"

definition is_waiting_on :: "checker \<Rightarrow> tid \<Rightarrow> tid \<Rightarrow> bool option" where
  "is_waiting_on s this t =
     (if waiting_on s this = Some t \<and>
         (case Option.bind (get_thread s this) th_pending of
            None \<Rightarrow> False
          | Some p \<Rightarrow> is_lock (act s p) \<and> ms_recursive (ck_mutexes s (act_location (act s p))))
      then Some False
      else waits_through (waiting_on s) t (waiting_on s this))"

section \<open>Ends of an execution\<close>

fun deadlock_loop :: "checker \<Rightarrow> tid list \<Rightarrow> bool \<Rightarrow> bool option" where
  "deadlock_loop s [] blocking = Some blocking"
| "deadlock_loop s (i # ks) blocking =
     (if thread_enabled s i then Some False
      else do {
        t \<leftarrow> get_thread s i;
        deadlock_loop s ks (if \<not> th_model_thread t \<and> th_pending t \<noteq> None then True else blocking)
      })"

definition is_deadlocked :: "checker \<Rightarrow> bool option" where
  "is_deadlocked s = deadlock_loop s [0..<get_num_threads s] False"

definition is_complete_execution :: "checker \<Rightarrow> bool" where
  "is_complete_execution s = list_all (\<lambda>i. \<not> thread_enabled s i) [0..<get_num_threads s]"

definition get_pthread :: "nat \<Rightarrow> checker \<Rightarrow> tid option option" where
  "get_pthread pid s =
     (if pid = 1 then Some (if get_thread s 1 = None then None else Some 1)
      else
        (let thread_id = pid mod 2 ^ 32 in
         if (of_nat thread_id :: u32) < ex_pthread_counter (cur_exec s) + 1
         then (if thread_id < length (ex_pthread_map (cur_exec s))
               then Some (ex_pthread_map (cur_exec s) ! thread_id) else None)
         else Some None))"

end
