(* ===== verification/Steps.thy ===== *)
theory Steps
  imports Scheduling
begin

text \<open>
  One step of the execution: the rest of \<^verbatim>\<open>Model/execution.cc\<close>.  \<^verbatim>\<open>take_step\<close> performs
  the pending action of a thread: its effect on buffers, locks and threads, its clock
  vector and its number, and the crash that a write-back may bring.
\<close>

section \<open>Last actions and clock vectors\<close>

definition get_last_action :: "tid \<Rightarrow> checker \<Rightarrow> aid option" where
  "get_last_action t s =
     (if t < length (ex_thrd_last_action (cur_exec s)) then ex_thrd_last_action (cur_exec s) ! t else None)"

definition get_last_unlock :: "model_action \<Rightarrow> checker \<Rightarrow> aid option" where
  "get_last_unlock cur s =
     (case ex_obj_map (cur_exec s) (act_location cur) of
        None \<Rightarrow> None
      | Some lst \<Rightarrow> find (\<lambda>a. is_unlock (act s a) \<or> is_wait (act s a)) (rev lst))"

definition get_parent_action :: "tid \<Rightarrow> checker \<Rightarrow> aid option option" where
  "get_parent_action t s =
     (case get_last_action t s of
        Some a \<Rightarrow> Some (Some a)
      | None \<Rightarrow> map_option th_creation (get_thread s t))"

definition get_cv :: "tid \<Rightarrow> checker \<Rightarrow> clock_vector option option" where
  "get_cv t s =
     map_option (\<lambda>firstaction. Option.bind firstaction (\<lambda>a. act_cv (act s a))) (get_parent_action t s)"

text \<open>The second action inherits the clock vector of the first, which may not be later.\<close>

definition synchronize :: "aid \<Rightarrow> aid \<Rightarrow> checker \<Rightarrow> (bool \<times> checker) option" where
  "synchronize first second s =
     (if get_seq_number (act s second) < get_seq_number (act s first) then None
      else do {
        (m, r) \<leftarrow> synchronize_with (act s second) (act s first);
        Some (r, upd_act second (\<lambda>_. m) s)
      })"

section \<open>Draining\<close>

text \<open>\<^verbatim>\<open>emptyStoreBuffer() || emptyFlushBuffer()\<close> of the thread of an action.\<close>

definition drain :: "tid \<Rightarrow> checker \<Rightarrow> (bool \<times> checker) option" where
  "drain t s = do {
     (crash, s1) \<leftarrow> emptyStoreBuffer t s;
     if crash then Some (True, s1) else emptyFlushBuffer t s1
   }"

definition set_return_value :: "tid \<Rightarrow> u64 \<Rightarrow> checker \<Rightarrow> checker option" where
  "set_return_value t v s = upd_thread t (\<lambda>th. th\<lparr>th_last_action_val := v\<rparr>) s"

definition process_write :: "aid \<Rightarrow> checker \<Rightarrow> checker option" where
  "process_write cur s =
     (let t = act_tid (act s cur) in
      if \<not> is_write (act s cur) then None
      else if is_rmw (act s cur) then do {
        (crash, s1) \<leftarrow> drain t s;
        if crash then Some s1
        else do {
          s2 \<leftarrow> addWrite t cur s1;
          (crash2, s3) \<leftarrow> emptyStoreBuffer t s2;
          Some s3
        }
      } else addWrite t cur s)"

definition process_cache_op :: "aid \<Rightarrow> checker \<Rightarrow> checker option" where
  "process_cache_op cur s =
     (if is_cache_op (act s cur) then addCacheOp (act_tid (act s cur)) cur s else None)"

definition process_memory_fence :: "aid \<Rightarrow> checker \<Rightarrow> checker option" where
  "process_memory_fence cur s =
     (if \<not> is_mfence (act s cur) then None
      else do {
        (crash, s1) \<leftarrow> drain (act_tid (act s cur)) s;
        if crash then Some s1 else set_return_value (act_tid (act s1 cur)) VALUE_NONE s1
      })"

definition process_store_fence :: "aid \<Rightarrow> checker \<Rightarrow> checker option" where
  "process_store_fence cur s =
     (if is_sfence (act s cur) then addOp (act_tid (act s cur)) cur s else None)"

fun persist_loop :: "tid list \<Rightarrow> checker \<Rightarrow> (bool \<times> checker) option" where
  "persist_loop [] s = Some (False, s)"
| "persist_loop (t # ts) s = do {
     (crash, s1) \<leftarrow> drain t s;
     if crash then Some (True, s1) else persist_loop ts s1
   }"

definition makeExecutionPersistent :: "checker \<Rightarrow> checker option" where
  "makeExecutionPersistent s = do {
     (crash, s1) \<leftarrow> persist_loop [0..<get_num_threads s] s;
     Some (if crash then s1 else emit (PersistExecution (ck_cur s1)) s1)
   }"

section \<open>Mutexes and condition variables\<close>

text \<open>Threads whose pending lock waits for the thread of the action become ready.\<close>

fun wake_lock_waiters :: "tid \<Rightarrow> tid list \<Rightarrow> checker \<Rightarrow> checker option" where
  "wake_lock_waiters owner [] s = Some s"
| "wake_lock_waiters owner (i # ks) s = do {
     t \<leftarrow> get_thread s i;
     (if waiting_on s i = Some owner \<and>
         (case th_pending t of None \<Rightarrow> False | Some p \<Rightarrow> is_lock (act s p))
      then do { s1 \<leftarrow> wake i s; wake_lock_waiters owner ks s1 }
      else wake_lock_waiters owner ks s)
   }"

definition set_locked :: "addr \<Rightarrow> tid option \<Rightarrow> checker \<Rightarrow> checker" where
  "set_locked m owner s = s\<lparr>ck_mutexes := (ck_mutexes s)(m := (ck_mutexes s m)\<lparr>ms_locked := owner\<rparr>)\<rparr>"

definition get_waiters :: "addr \<Rightarrow> checker \<Rightarrow> aid list" where
  "get_waiters cond s =
     (case ex_condvar_waiters_map (cur_exec s) cond of None \<Rightarrow> [] | Some ws \<Rightarrow> ws)"

definition put_waiters :: "addr \<Rightarrow> aid list \<Rightarrow> checker \<Rightarrow> checker" where
  "put_waiters cond ws s =
     upd_cur (\<lambda>x. x\<lparr>ex_condvar_waiters_map := (ex_condvar_waiters_map x)(cond := Some ws)\<rparr>) s"

fun remove_first :: "('a \<Rightarrow> bool) \<Rightarrow> 'a list \<Rightarrow> 'a list" where
  "remove_first P [] = []"
| "remove_first P (x # xs) = (if P x then xs else x # remove_first P xs)"

fun wake_all :: "aid list \<Rightarrow> checker \<Rightarrow> checker option" where
  "wake_all [] s = Some s"
| "wake_all (a # as) s = do {
     th \<leftarrow> get_thread s (act_tid (act s a));
     if th_state th \<noteq> THREAD_COMPLETED
     then do { s1 \<leftarrow> wake (act_tid (act s a)) s; wake_all as s1 }
     else wake_all as s
   }"

definition acquire :: "aid \<Rightarrow> checker \<Rightarrow> (bool \<times> checker) option" where
  "acquire cur s = do {
     m \<leftarrow> get_mutex (act s cur);
     let s1 = set_locked m (map_option th_id (get_thread s (act_tid (act s cur)))) s;
     (case get_last_unlock (act s1 cur) s1 of
        Some unlock \<Rightarrow> do { (r, s2) \<leftarrow> synchronize unlock cur s1; Some (True, s2) }
      | None \<Rightarrow> Some (False, s1))
   }"

definition release :: "aid \<Rightarrow> checker \<Rightarrow> (bool \<times> checker) option" where
  "release cur s = do {
     m \<leftarrow> get_mutex (act s cur);
     s1 \<leftarrow> wake_lock_waiters (act_tid (act s cur)) [0..<get_num_threads s] s;
     Some (False, set_locked m None s1)
   }"

definition process_mutex :: "aid \<Rightarrow> checker \<Rightarrow> (bool \<times> checker) option" where
  "process_mutex cur s =
     (let m = act s cur; t = act_tid m in
      case act_type m of
        ATOMIC_TRYLOCK \<Rightarrow>
          (let success = ms_locked (ck_mutexes s (act_location m)) = None;
               s1 = upd_act cur (\<lambda>a. set_try_lock a success) s in
           if \<not> success then do { s2 \<leftarrow> set_return_value t 0 s1; Some (False, s2) }
           else do { s2 \<leftarrow> set_return_value t 1 s1; acquire cur s2 })
      | ATOMIC_LOCK \<Rightarrow> acquire cur s
      | ATOMIC_WAIT \<Rightarrow> do {
          (r, s1) \<leftarrow> release cur s;
          let waiters = remove_first (\<lambda>w. act_tid (act s1 w) = t) (get_waiters (act_location m) s1);
          s2 \<leftarrow> sleep t (put_waiters (act_location m) (waiters @ [cur]) s1);
          Some (False, s2)
        }
      | ATOMIC_TIMEDWAIT \<Rightarrow> release cur s
      | ATOMIC_UNLOCK \<Rightarrow> release cur s
      | ATOMIC_NOTIFY_ALL \<Rightarrow> do {
          s1 \<leftarrow> wake_all (get_waiters (act_location m) s) s;
          Some (False, put_waiters (act_location m) [] s1)
        }
      | ATOMIC_NOTIFY_ONE \<Rightarrow>
          (let waiters = get_waiters (act_location m) s in
           if waiters = [] then Some (False, put_waiters (act_location m) [] s)
           else (let (thread, rest, s1) = selectNotify waiters s;
                     s2 = put_waiters (act_location m) rest s1 in
                 do {
                   th \<leftarrow> get_thread s2 thread;
                   s3 \<leftarrow> (if th_state th \<noteq> THREAD_COMPLETED then wake thread s2 else Some s2);
                   Some (False, s3)
                 }))
      | _ \<Rightarrow> None)"

section \<open>Threads\<close>

definition write32 :: "addr \<Rightarrow> u32 \<Rightarrow> (addr \<Rightarrow> u8) \<Rightarrow> (addr \<Rightarrow> u8)" where
  "write32 a v mem = fold (\<lambda>i m. m(a + of_nat i := ucast (drop_bit (8 * i) v))) [0, 1, 2, 3] mem"

definition create_thread :: "aid \<Rightarrow> checker \<Rightarrow> (tid \<times> checker) option" where
  "create_thread cur s = do {
     let (t, s1) = get_next_id s;
     let th = UserThread t (map_option th_id (get_thread s1 (act_tid (act s1 cur))));
     let s2 = upd_act cur (\<lambda>m. m\<lparr>act_thread_operand := Some t\<rparr>) s1;
     s3 \<leftarrow> add_thread th s2;
     s4 \<leftarrow> upd_thread t (\<lambda>th. th\<lparr>th_creation := Some cur\<rparr>) s3;
     Some (t, s4)
   }"

fun wake_joiners :: "tid \<Rightarrow> tid list \<Rightarrow> checker \<Rightarrow> checker option" where
  "wake_joiners done [] s = Some s"
| "wake_joiners done (i # ks) s = do {
     waiting \<leftarrow> get_thread s i;
     (if waiting_on s i = Some done \<and>
         (case th_pending waiting of None \<Rightarrow> False | Some p \<Rightarrow> is_thread_join (act s p))
      then do { s1 \<leftarrow> wake i s; wake_joiners done ks s1 }
      else wake_joiners done ks s)
   }"

definition complete_thread :: "tid \<Rightarrow> checker \<Rightarrow> checker option" where
  "complete_thread t s = do {
     th \<leftarrow> get_thread s t;
     th' \<leftarrow> complete th;
     Some (put_thread t th' s)
   }"

text \<open>The thread with number 1 is the initial one.\<close>

definition process_thread_action :: "aid \<Rightarrow> checker \<Rightarrow> checker option" where
  "process_thread_action cur s =
     (let m = act s cur; t = act_tid m in
      if act_type m = THREAD_CREATE then map_option snd (create_thread cur s)
      else if act_type m = PTHREAD_CREATE then
        (let c = ex_pthread_counter (cur_exec s);
             s1 = upd_cur (\<lambda>x. x\<lparr>ex_pthread_counter := c + 1\<rparr>)
                    (s\<lparr>ck_mem := write32 (act_location m) c (ck_mem s)\<rparr>) in
         do {
           (th, s2) \<leftarrow> create_thread cur s1;
           let counter = unat (ex_pthread_counter (cur_exec s2));
           Some (upd_cur (\<lambda>x. x\<lparr>ex_pthread_map :=
             (grow None counter (ex_pthread_map x))[counter - 1 := Some th]\<rparr>) s2)
         })
      else if act_type m = THREAD_JOIN \<or> act_type m = PTHREAD_JOIN then do {
        blocking \<leftarrow> thread_operand s m;
        th \<leftarrow> get_thread s blocking;
        a \<leftarrow> get_last_action (th_id th) s;
        (r, s1) \<leftarrow> synchronize a cur s;
        Some s1
      }
      else if act_type m = THREADONLY_FINISH \<or> act_type m = THREAD_FINISH \<or> act_type m = THREAD_FINISHALL then
        (if act_type m = THREAD_FINISHALL \<or> (act_type m = THREAD_FINISH \<and> t = 1)
         then do { s1 \<leftarrow> complete_thread t s; Some (setFinished s1) }
         else do {
           s1 \<leftarrow> wake_joiners t [0..<get_num_threads s] s;
           complete_thread t s1
         })
      else if act_type m = THREAD_SLEEP then do {
        s1 \<leftarrow> upd_thread t (\<lambda>th. th\<lparr>th_pending := Some cur\<rparr>) s;
        Some (add_sleep t s1)
      }
      else Some s)"

section \<open>The step\<close>

definition check_action_enabled :: "aid \<Rightarrow> checker \<Rightarrow> bool option" where
  "check_action_enabled cur s =
     (let m = act s cur in
      if is_lock m then
        (let state = ck_mutexes s (act_location m) in
         case ms_locked state of
           Some lock_owner \<Rightarrow> Some (lock_owner = act_tid m \<and> ms_recursive state)
         | None \<Rightarrow> Some True)
      else if is_thread_join m then do {
        blocking \<leftarrow> thread_operand s m;
        th \<leftarrow> get_thread s blocking;
        Some (is_complete th)
      }
      else Some True)"

text \<open>
  The second half of a read-modify-write is folded into the first half, which is the last
  action of the thread; \<open>None\<close> in the result is the \<^verbatim>\<open>NULL\<close> after a crash.
\<close>

definition swap_rmw_write_part :: "aid \<Rightarrow> checker \<Rightarrow> (aid option \<times> checker) option" where
  "swap_rmw_write_part a s =
     (let m = act s a in
      if \<not> (is_rmw m \<or> is_rmw_cas_fail m) then None
      else do {
        lastread \<leftarrow> get_last_action (act_tid m) s;
        if \<not> is_rmw_read (act s lastread) then None
        else do {
          let s1 = upd_act lastread (\<lambda>l. process_rmw l m) s;
          if is_rmw_cas_fail m then do {
            s2 \<leftarrow> initialize_curr_action lastread s1;
            (crash, s3) \<leftarrow> drain (act_tid m) s2;
            Some (if crash then None else Some lastread, s3)
          } else Some (Some lastread, s1)
        }
      })"

definition crashed :: "checker \<Rightarrow> bool" where
  "crashed s \<longleftrightarrow> ex_hasCrashed (cur_exec s)"

text \<open>
  The first half of \<^verbatim>\<open>check_current_action\<close>: which action is executed, after what it
  requires of the buffers; \<open>None\<close> in the result is an early \<^verbatim>\<open>return NULL\<close>.
\<close>

definition begin_action :: "aid \<Rightarrow> checker \<Rightarrow> (aid option \<times> checker) option" where
  "begin_action cur s =
     (let m = act s cur; second_part_of_rmw = is_rmw_cas_fail m \<or> is_rmw m; t = act_tid m in
      if second_part_of_rmw then do {
        (c, s1) \<leftarrow> swap_rmw_write_part cur s;
        Some (if crashed s1 then None else c, s1)
      } else do {
        parent \<leftarrow> get_parent_action t s;
        m' \<leftarrow> merge_cv_parent m (map_option (act s) parent);
        let s0 = upd_act cur (\<lambda>_. m') s;
        if is_locked_operation m then do {
          (crash, s1) \<leftarrow> drain t s0;
          if crash then Some (None, s1)
          else do { s2 \<leftarrow> initialize_curr_action cur s1; Some (Some cur, s2) }
        } else if is_read m then do {
          s1 \<leftarrow> (if is_rmw_read m then do {
              (c1, s') \<leftarrow> emptyStoreBuffer t s0;
              (c2, s'') \<leftarrow> emptyFlushBuffer t s';
              Some s''
            } else Some s0);
          s2 \<leftarrow> handle_read cur s1;
          Some (if crashed s2 then None else Some cur, s2)
        } else if is_mfence m then do {
          s1 \<leftarrow> process_memory_fence cur s0;
          if crashed s1 then Some (None, s1)
          else do { s2 \<leftarrow> initialize_curr_action cur s1; Some (Some cur, s2) }
        } else if is_sfence m then do {
          s1 \<leftarrow> process_store_fence cur s0; Some (Some cur, s1)
        } else if \<not> is_write m \<and> \<not> is_cache_op m \<and> \<not> is_sleep m then do {
          s1 \<leftarrow> initialize_curr_action cur s0; Some (Some cur, s1)
        } else Some (Some cur, s0)
      })"

text \<open>The second half: bookkeeping and the effect of the action.\<close>

definition finish_action :: "aid \<Rightarrow> bool \<Rightarrow> checker \<Rightarrow> (aid option \<times> checker) option" where
  "finish_action cur second_part_of_rmw s = do {
     s1 \<leftarrow> (if \<not> is_write (act s cur) \<and> \<not> is_sfence (act s cur) \<and> \<not> is_cache_op (act s cur) \<and>
              \<not> second_part_of_rmw
           then do {
             s' \<leftarrow> (if \<not> is_sleep (act s cur) then update_thread_local_data cur s else Some s);
             wake_up_sleeping_actions cur s'
           } else Some s);
     s2 \<leftarrow> process_thread_action cur s1;
     let m = act s2 cur;
     let finish = (\<lambda>s'. (Some cur, if is_fence (act s' cur) then emit (Fence (ck_cur s') cur (act s' cur)) s' else s'));
     if is_write m then do {
       s3 \<leftarrow> process_write cur s2;
       if crashed s3 then Some (None, s3)
       else if is_seqcst (act s3 cur) then do {
         (crash, s4) \<leftarrow> drain (act_tid (act s3 cur)) s3;
         if crash then Some (None, s4) else Some (finish s4)
       } else Some (finish s3)
     }
     else if is_cache_op m then do { s3 \<leftarrow> process_cache_op cur s2; Some (finish s3) }
     else if is_mutex_op m then do { (r, s3) \<leftarrow> process_mutex cur s2; Some (finish s3) }
     else if is_exit m then Some (finish (setFinished s2))
     else Some (finish s2)
   }"

definition check_current_action :: "aid \<Rightarrow> checker \<Rightarrow> (aid option \<times> checker) option" where
  "check_current_action cur s = do {
     (c, s1) \<leftarrow> begin_action cur s;
     (case c of
        None \<Rightarrow> Some (None, s1)
      | Some cur' \<Rightarrow> finish_action cur' (is_rmw_cas_fail (act s cur) \<or> is_rmw (act s cur)) s1)
   }"

definition action_select_next_thread :: "aid \<Rightarrow> checker \<Rightarrow> tid option" where
  "action_select_next_thread cur s =
     (let m = act s cur in
      if is_rmw_read m then map_option th_id (get_thread s (act_tid m))
      else if act_type m = THREAD_CREATE then thread_operand s m
      else if act_type m = PTHREAD_CREATE then thread_operand s m
      else None)"

definition take_step :: "aid \<Rightarrow> checker \<Rightarrow> (tid option \<times> checker) option" where
  "take_step cur s = do {
     let t = act_tid (act s cur);
     th \<leftarrow> get_thread s t;
     if th_state th \<noteq> THREAD_READY then None
     else do {
       en \<leftarrow> check_action_enabled cur s;
       if \<not> en then None
       else do {
         (c, s1) \<leftarrow> check_current_action cur s;
         if crashed s1 then Some (None, emit (Crash (ck_cur s1)) s1)
         else do {
           cur' \<leftarrow> c;
           th1 \<leftarrow> get_thread s1 t;
           let s2 = (if is_blocked th1 \<or> is_complete th1 then remove_thread t s1 else s1);
           Some (action_select_next_thread cur' s2, s2)
         }
       }
     }
   }"

end
