(* ===== verification/Step_Frame.thy ===== *)
theory Step_Frame
  imports Steps Store_Lemmas
begin

text \<open>
  What the operations of a step leave alone.  An observation of the checker that the
  elementary updates keep is kept by every operation of the memory system; the locales say
  which updates those are, and are interpreted with the outer state (what came before this
  execution, the parameters, the mutexes, the regions), the identities of the threads, and
  the kinds of the actions.
\<close>

section \<open>Results of fallible steps\<close>

text \<open>\<open>yields m Q\<close>: whatever \<open>m\<close> returns satisfies \<open>Q\<close>.\<close>

definition yields :: "'a option \<Rightarrow> ('a \<Rightarrow> bool) \<Rightarrow> bool" where
  "yields m Q \<longleftrightarrow> (\<forall>x. m = Some x \<longrightarrow> Q x)"

lemma yields_simps [simp]:
  "yields None Q" "yields (Some x) Q = Q x" "yields (Option.bind m f) Q = yields m (\<lambda>x. yields (f x) Q)"
  "yields (map_option g m) Q = yields m (\<lambda>x. Q (g x))"
  by (auto simp: yields_def bind_eq_Some_conv)

lemma yields_case_option [simp]:
  "yields (case x of None \<Rightarrow> a | Some y \<Rightarrow> f y) Q = (case x of None \<Rightarrow> yields a Q | Some y \<Rightarrow> yields (f y) Q)"
  by (cases x) simp_all

lemma yields_any: "(\<And>x. m = Some x \<Longrightarrow> Q x) \<Longrightarrow> yields m Q"
  by (simp add: yields_def)

lemma yieldsD: "yields m Q \<Longrightarrow> m = Some x \<Longrightarrow> Q x"
  by (simp add: yields_def)

named_theorems reading \<open>fallible operations that only read\<close>

lemma get_thread_reads [reading]: "(\<And>x. get_thread s t = Some x \<Longrightarrow> Q x) \<Longrightarrow> yields (get_thread s t) Q"
  by (rule yields_any)

lemma thread_memory_of_reads [reading]: "(\<And>x. Q x) \<Longrightarrow> yields (thread_memory_of s t) Q"
  by (rule yields_any)

lemma set_seq_number_reads [reading]: "(\<And>x. set_seq_number m n = Some x \<Longrightarrow> Q x) \<Longrightarrow> yields (set_seq_number m n) Q"
  by (rule yields_any)

lemma get_enabled_reads [reading]: "(\<And>x. Q x) \<Longrightarrow> yields (get_enabled sch t) Q"
  by (rule yields_any)

lemma set_last_action_reads [reading]: "(\<And>x. set_last_action t a x' = Some x \<Longrightarrow> Q x) \<Longrightarrow> yields (set_last_action t a x') Q"
  by (rule yields_any)

lemma th_pending_reads [reading]: "(\<And>x. Q x) \<Longrightarrow> yields (th_pending th) Q"
  by (rule yields_any)

lemma explore_next_reads [reading]: "(\<And>x. Q x) \<Longrightarrow> yields (explore_next b ns k) Q"
  by (rule yields_any)

lemma merge_cv_parent_reads [reading]: "(\<And>x. merge_cv_parent m p = Some x \<Longrightarrow> Q x) \<Longrightarrow> yields (merge_cv_parent m p) Q"
  by (rule yields_any)

lemma set_state_reads [reading]: "(\<And>x. set_state st th = Some x \<Longrightarrow> Q x) \<Longrightarrow> yields (set_state st th) Q"
  by (rule yields_any)

lemma complete_reads [reading]: "(\<And>x. complete th = Some x \<Longrightarrow> Q x) \<Longrightarrow> yields (complete th) Q"
  by (rule yields_any)

lemma mask_value_reads [reading]: "(\<And>x. Q x) \<Longrightarrow> yields (mask_value k v) Q"
  by (rule yields_any)

lemma action_positioned_reads [reading]: "(\<And>x. Q x) \<Longrightarrow> yields (action_positioned ty pos ord l v t) Q"
  by (rule yields_any)

lemma action_at_reads [reading]: "(\<And>x. Q x) \<Longrightarrow> yields (action_at ty ord l v t k) Q"
  by (rule yields_any)

lemma ValidateAddress64_reads [reading]: "(\<And>x. Q x) \<Longrightarrow> yields (ValidateAddress64 mem l rd) Q"
  by (rule yields_any)

lemma slot_byte_reads [reading]: "(\<And>x. Q x) \<Longrightarrow> yields (slot_byte heap l a) Q"
  by (rule yields_any)

lemma sch_current_reads [reading]: "(\<And>x. Q x) \<Longrightarrow> yields (sch_current sch) Q"
  by (rule yields_any)

lemma get_last_action_reads [reading]: "(\<And>x. Q x) \<Longrightarrow> yields (get_last_action t s) Q"
  by (rule yields_any)

lemma get_parent_action_reads [reading]: "(\<And>x. Q x) \<Longrightarrow> yields (get_parent_action t s) Q"
  by (rule yields_any)

lemma thread_operand_reads [reading]: "(\<And>x. Q x) \<Longrightarrow> yields (thread_operand s m) Q"
  by (rule yields_any)

lemma check_action_enabled_reads [reading]: "(\<And>x. Q x) \<Longrightarrow> yields (check_action_enabled a s) Q"
  by (rule yields_any)

lemma synchronize_with_reads [reading]: "(\<And>x. Q x) \<Longrightarrow> yields (synchronize_with m m') Q"
  by (rule yields_any)

lemma get_mutex_reads [reading]: "(\<And>x. Q x) \<Longrightarrow> yields (get_mutex m) Q"
  by (rule yields_any)

section \<open>The state of a thread\<close>

lemma state_change_id [simp]:
  "set_state st th = Some th' \<Longrightarrow> th_id th' = th_id th" "complete th = Some th' \<Longrightarrow> th_id th' = th_id th"
  by (auto simp: set_state_def complete_def split: if_splits)

lemma set_last_action_map [simp]:
  "set_last_action t a x = Some x' \<Longrightarrow> ex_thread_map x' = ex_thread_map x"
  "set_last_action t a x = Some x' \<Longrightarrow> ex_next_thread_id x' = ex_next_thread_id x"
  by (auto simp: set_last_action_def Let_def split: if_splits)

lemma get_thread_pure [simp]:
  "get_thread (snd (shouldWake m s)) = get_thread s" "get_thread (upd_sched f s) = get_thread s"
  "get_thread (remove_sleep t s) = get_thread s" "get_thread (upd_act a g s) = get_thread s"
  by (auto simp: shouldWake_def get_thread_def fun_eq_iff cur_exec_def exec_of_def upd_sched_def
      remove_sleep_def upd_act_def)

lemma get_thread_records [simp]:
  "get_thread (s\<lparr>ck_clock_pos := n\<rparr>) = get_thread s" "get_thread (s\<lparr>ck_mutexes := mx\<rparr>) = get_thread s"
  "get_thread (set_locked mu own s) = get_thread s"
  by (auto simp: get_thread_def fun_eq_iff cur_exec_def exec_of_def set_locked_def)

section \<open>Buffers and bookkeeping\<close>

locale buffer_frame =
  fixes obs :: "checker \<Rightarrow> 'o"
  assumes obs_exec: "ex_thread_map (f (exec_of s e)) = ex_thread_map (exec_of s e) \<Longrightarrow>
        ex_next_thread_id (f (exec_of s e)) = ex_next_thread_id (exec_of s e) \<Longrightarrow> obs (upd_exec e f s) = obs s"
    and obs_put: "get_thread s t = Some th \<Longrightarrow> th_id th' = th_id th \<Longrightarrow> obs (put_thread t th' s) = obs s"
    and obs_fields: "obs (emit ev s) = obs s" "obs (upd_sched g s) = obs s"
      "obs (s\<lparr>ck_nodestack := ns\<rparr>) = obs s" "obs (s\<lparr>ck_random_pos := n\<rparr>) = obs s"
      "obs (s\<lparr>ck_clock_pos := n\<rparr>) = obs s"
    and obs_stamp: "set_seq_number (act s a) c = Some m \<Longrightarrow> obs (upd_act a (\<lambda>_. m) s) = obs s"
    and obs_parent: "merge_cv_parent (act s a) p = Some m \<Longrightarrow> obs (upd_act a (\<lambda>_. m) s) = obs s"
    and obs_flush: "is_cache_op (act s a) \<Longrightarrow> obs (upd_act a (\<lambda>m. set_last_clflush m c) s) = obs s"
      "obs (upd_act a (\<lambda>m. setLastWrites m c w) s) = obs s"
begin

lemma obs_cur: "ex_thread_map (f (cur_exec s)) = ex_thread_map (cur_exec s) \<Longrightarrow>
    ex_next_thread_id (f (cur_exec s)) = ex_next_thread_id (cur_exec s) \<Longrightarrow> obs (upd_cur f s) = obs s"
  by (simp add: upd_cur_def cur_exec_def obs_exec)

lemmas obs_basic [simp] = obs_exec obs_put obs_cur obs_fields obs_stamp obs_parent obs_flush

lemma obs_pure [simp]:
  "obs (addAction e a s) = obs s" "obs (updateStoreBuffer d s) = obs s"
  "obs (put_cache_line e l cl s) = obs s" "obs (remove_sleep t s) = obs s" "obs (add_sleep t s) = obs s"
  "obs (snd (next_random s)) = obs s" "obs (snd (get_next_seq_num s)) = obs s"
  "obs (snd (shouldWake m s)) = obs s" "obs (snd (getCacheLine e l s)) = obs s"
  "obs (snd (add_write_to_lists e w s)) = obs s"
  by (auto simp: addAction_def updateStoreBuffer_def put_cache_line_def remove_sleep_def add_sleep_def
      next_random_def get_next_seq_num_def shouldWake_def getCacheLine_def add_write_to_lists_def Let_def
      split: option.split)

lemma obs_node_choice [simp]: "obs (snd (node_choice n s)) = obs s"
  by (simp add: node_choice_def Let_def split_beta)

lemma obs_thread [simp]: "obs (put_waiters c ws s) = obs s" "obs (remove_thread t s) = obs s"
  "obs (setFinished s) = obs s"
  by (simp_all add: put_waiters_def remove_thread_def setFinished_def)

lemma upd_thread_keeps:
  assumes "\<And>th. th_id (f th) = th_id th" "\<And>s'. obs s' = obs s \<Longrightarrow> Q s'"
  shows "yields (upd_thread t f s) Q"
proof -
  have "obs (put_thread t (f th) s) = obs s" if "get_thread s t = Some th" for th
    using that assms(1) by (rule obs_put)
  with assms(2) show ?thesis by (auto simp: upd_thread_def intro!: reading)
qed

lemma upd_memory_keeps:
  "(\<And>s'. obs s' = obs s \<Longrightarrow> Q s') \<Longrightarrow> yields (upd_memory t f s) Q"
  by (auto simp: upd_memory_def Let_def split_beta intro!: reading upd_thread_keeps split: option.split list.split)

lemma initialize_curr_action_keeps:
  "(\<And>s'. obs s' = obs s \<Longrightarrow> Q s') \<Longrightarrow> yields (initialize_curr_action c s) Q"
  by (auto simp: initialize_curr_action_def Let_def split_beta intro!: reading split: option.split list.split)

lemma update_thread_local_data_keeps:
  "(\<And>s'. obs s' = obs s \<Longrightarrow> Q s') \<Longrightarrow> yields (update_thread_local_data a s) Q"
  by (auto simp: update_thread_local_data_def Let_def split_beta intro!: reading split: option.split list.split)

lemma should_wake_up_keeps:
  "(\<And>r. obs (snd r) = obs s \<Longrightarrow> get_thread (snd r) = get_thread s \<Longrightarrow> Q r) \<Longrightarrow>
   yields (should_wake_up c th s) Q"
  by (auto simp: should_wake_up_def Let_def split_beta split: option.split)

lemma wake_up_loop_keeps:
  "(\<And>s'. obs s' = obs s \<Longrightarrow> Q s') \<Longrightarrow> yields (wake_up_loop c is s) Q"
  by (induction "is" arbitrary: s Q)
     (auto simp: Let_def split_beta intro!: reading should_wake_up_keeps split: option.split list.split)

lemma wake_up_sleeping_actions_keeps:
  "(\<And>s'. obs s' = obs s \<Longrightarrow> Q s') \<Longrightarrow> yields (wake_up_sleeping_actions c s) Q"
  by (auto simp: wake_up_sleeping_actions_def Let_def split_beta intro!: reading wake_up_loop_keeps split: option.split list.split)

lemma remove_action_from_store_buffer_keeps:
  "(\<And>s'. obs s' = obs s \<Longrightarrow> Q s') \<Longrightarrow> yields (remove_action_from_store_buffer a s) Q"
  by (auto simp: remove_action_from_store_buffer_def Let_def split_beta intro!: reading initialize_curr_action_keeps update_thread_local_data_keeps wake_up_sleeping_actions_keeps split: option.split list.split)

lemma explore_keeps:
  "(\<And>r. obs (snd r) = obs s \<Longrightarrow> Q r) \<Longrightarrow> yields (explore n s) Q"
  by (auto simp: explore_def Let_def split_beta intro!: reading split: option.split list.split)

lemma shouldInsertCrash_keeps:
  "(\<And>r. obs (snd r) = obs s \<Longrightarrow> Q r) \<Longrightarrow> yields (shouldInsertCrash s) Q"
  by (auto simp: shouldInsertCrash_def Let_def split_beta intro!: reading explore_keeps split: option.split list.split)

lemma evictCacheOp_keeps:
  "(\<And>r. obs (snd r) = obs s \<Longrightarrow> Q r) \<Longrightarrow> yields (evictCacheOp a s) Q"
  by (auto simp: evictCacheOp_def Let_def split_beta intro!: reading remove_action_from_store_buffer_keeps shouldInsertCrash_keeps split: option.split list.split)

lemma evictWrite_keeps:
  assumes "\<And>r. obs (snd r) = obs s \<Longrightarrow> Q r"
  shows "yields (evictWrite w s) Q"
proof -
  have "Q (add_write_to_lists e w s')" if "obs s' = obs s" for e s'
    using assms [of "add_write_to_lists e w s'"] that by simp
  then show ?thesis by (auto simp: evictWrite_def intro!: remove_action_from_store_buffer_keeps)
qed

lemma evictFlushOpt_keeps:
  "is_cache_op (act s a) \<Longrightarrow> (\<And>s'. obs s' = obs s \<Longrightarrow> Q s') \<Longrightarrow> yields (evictFlushOpt t a s) Q"
  by (auto simp: evictFlushOpt_def Let_def intro!: reading upd_memory_keeps split: option.split)

lemma dec_flushcount_keeps:
  "(\<And>s'. obs s' = obs s \<Longrightarrow> Q s') \<Longrightarrow> yields (dec_flushcount t s) Q"
  by (auto simp: dec_flushcount_def Let_def split_beta intro!: reading upd_memory_keeps split: option.split list.split)

lemma flush_loop_keeps:
  "(\<And>r. obs (snd r) = obs s \<Longrightarrow> Q r) \<Longrightarrow> yields (flush_loop n t s) Q"
  by (induction n arbitrary: s Q)
     (auto simp: Let_def split_beta intro!: reading upd_memory_keeps evictCacheOp_keeps dec_flushcount_keeps split: option.split list.split)

lemma emptyFlushBuffer_keeps:
  "(\<And>r. obs (snd r) = obs s \<Longrightarrow> Q r) \<Longrightarrow> yields (emptyFlushBuffer t s) Q"
  by (auto simp: emptyFlushBuffer_def Let_def split_beta intro!: reading flush_loop_keeps split: option.split list.split)

lemma evictOpFromStoreBuffer_keeps:
  "(\<And>r. obs (snd r) = obs s \<Longrightarrow> Q r) \<Longrightarrow> yields (evictOpFromStoreBuffer t a s) Q"
  by (auto simp: evictOpFromStoreBuffer_def Let_def split_beta intro!: reading upd_memory_keeps remove_action_from_store_buffer_keeps evictCacheOp_keeps evictWrite_keeps evictFlushOpt_keeps dec_flushcount_keeps emptyFlushBuffer_keeps split: option.split list.split)

lemma popFromStoreBuffer_keeps:
  "(\<And>r. obs (snd r) = obs s \<Longrightarrow> Q r) \<Longrightarrow> yields (popFromStoreBuffer t s) Q"
  by (auto simp: popFromStoreBuffer_def Let_def split_beta intro!: reading upd_memory_keeps evictOpFromStoreBuffer_keeps split: option.split list.split)

lemma store_loop_keeps:
  "(\<And>r. obs (snd r) = obs s \<Longrightarrow> Q r) \<Longrightarrow> yields (store_loop n k t s) Q"
  by (induction n arbitrary: s k Q)
     (auto simp: Let_def split_beta intro!: reading upd_memory_keeps evictOpFromStoreBuffer_keeps split: option.split list.split)

lemma emptyStoreBuffer_keeps:
  "(\<And>r. obs (snd r) = obs s \<Longrightarrow> Q r) \<Longrightarrow> yields (emptyStoreBuffer t s) Q"
  by (auto simp: emptyStoreBuffer_def Let_def split_beta intro!: reading store_loop_keeps split: option.split list.split)

lemma empty_writes_loop_keeps:
  "(\<And>r. obs (snd r) = obs s \<Longrightarrow> Q r) \<Longrightarrow> yields (empty_writes_loop n t s) Q"
  by (induction n arbitrary: s Q)
     (auto simp: Let_def split_beta intro!: reading upd_memory_keeps evictOpFromStoreBuffer_keeps split: option.split list.split)

lemma emptyWrites_keeps:
  "(\<And>r. obs (snd r) = obs s \<Longrightarrow> Q r) \<Longrightarrow> yields (emptyWrites t l s) Q"
  by (auto simp: emptyWrites_def Let_def split_beta simp del: empty_writes_loop.simps intro!: reading empty_writes_loop_keeps split: option.split list.split)

lemma freeActions_keeps:
  "(\<And>s'. obs s' = obs s \<Longrightarrow> Q s') \<Longrightarrow> yields (freeActions t s) Q"
  by (auto simp: freeActions_def Let_def split_beta intro!: reading upd_memory_keeps split: option.split list.split)

lemma addCacheOp_keeps:
  "(\<And>s'. obs s' = obs s \<Longrightarrow> Q s') \<Longrightarrow> yields (addCacheOp t a s) Q"
  by (auto simp: addCacheOp_def Let_def split_beta intro!: reading upd_memory_keeps split: option.split list.split)

lemma addOp_keeps:
  "(\<And>s'. obs s' = obs s \<Longrightarrow> Q s') \<Longrightarrow> yields (addOp t a s) Q"
  by (auto simp: addOp_def Let_def split_beta intro!: reading upd_memory_keeps split: option.split list.split)

lemma addWrite_keeps:
  "(\<And>s'. obs s' = obs s \<Longrightarrow> Q s') \<Longrightarrow> yields (addWrite t a s) Q"
  by (auto simp: addWrite_def Let_def split_beta intro!: reading upd_memory_keeps split: option.split list.split)

lemma drain_keeps:
  "(\<And>r. obs (snd r) = obs s \<Longrightarrow> Q r) \<Longrightarrow> yields (drain t s) Q"
  by (auto simp: drain_def Let_def split_beta intro!: reading emptyFlushBuffer_keeps emptyStoreBuffer_keeps split: option.split list.split)

lemma set_return_value_keeps:
  "(\<And>s'. obs s' = obs s \<Longrightarrow> Q s') \<Longrightarrow> yields (set_return_value t v s) Q"
  by (auto simp: set_return_value_def Let_def split_beta intro!: reading upd_thread_keeps split: option.split list.split)

lemma process_memory_fence_keeps:
  "(\<And>s'. obs s' = obs s \<Longrightarrow> Q s') \<Longrightarrow> yields (process_memory_fence a s) Q"
  by (auto simp: process_memory_fence_def Let_def split_beta intro!: reading drain_keeps set_return_value_keeps split: option.split list.split)

lemma process_write_keeps:
  "(\<And>s'. obs s' = obs s \<Longrightarrow> Q s') \<Longrightarrow> yields (process_write a s) Q"
  by (auto simp: process_write_def Let_def split_beta intro!: reading emptyStoreBuffer_keeps addWrite_keeps drain_keeps split: option.split list.split)

lemma process_cache_op_keeps:
  "(\<And>s'. obs s' = obs s \<Longrightarrow> Q s') \<Longrightarrow> yields (process_cache_op a s) Q"
  by (auto simp: process_cache_op_def Let_def split_beta intro!: reading addCacheOp_keeps split: option.split list.split)

lemma process_store_fence_keeps:
  "(\<And>s'. obs s' = obs s \<Longrightarrow> Q s') \<Longrightarrow> yields (process_store_fence a s) Q"
  by (auto simp: process_store_fence_def Let_def split_beta intro!: reading addOp_keeps split: option.split list.split)

lemma persist_loop_keeps:
  "(\<And>r. obs (snd r) = obs s \<Longrightarrow> Q r) \<Longrightarrow> yields (persist_loop ts s) Q"
  by (induction ts arbitrary: s Q)
     (auto simp: Let_def split_beta intro!: reading drain_keeps split: option.split list.split)

lemma makeExecutionPersistent_keeps:
  "(\<And>s'. obs s' = obs s \<Longrightarrow> Q s') \<Longrightarrow> yields (makeExecutionPersistent s) Q"
  by (auto simp: makeExecutionPersistent_def Let_def split_beta intro!: reading persist_loop_keeps split: option.split list.split)

lemma flush_buffers_loop_keeps:
  "(\<And>r. obs (snd r) = obs s \<Longrightarrow> Q r) \<Longrightarrow> yields (flush_buffers_loop l ks d s) Q"
  by (induction ks arbitrary: s d Q)
     (auto simp: Let_def split_beta intro!: reading emptyWrites_keeps split: option.split list.split)

lemma flushBuffers_keeps:
  "(\<And>r. obs (snd r) = obs s \<Longrightarrow> Q r) \<Longrightarrow> yields (flushBuffers l s) Q"
  by (auto simp: flushBuffers_def Let_def split_beta intro!: reading flush_buffers_loop_keeps split: option.split list.split)

lemma sleep_keeps:
  "(\<And>s'. obs s' = obs s \<Longrightarrow> Q s') \<Longrightarrow> yields (sleep t s) Q"
  by (auto simp: sleep_def Let_def split_beta intro!: reading split: option.split list.split)

lemma wake_keeps:
  "(\<And>s'. obs s' = obs s \<Longrightarrow> Q s') \<Longrightarrow> yields (wake t s) Q"
  by (auto simp: wake_def Let_def split_beta intro!: reading split: option.split list.split)

lemma wake_lock_waiters_keeps:
  "(\<And>s'. obs s' = obs s \<Longrightarrow> Q s') \<Longrightarrow> yields (wake_lock_waiters t ks s) Q"
  by (induction ks arbitrary: s Q)
     (auto simp: Let_def split_beta intro!: reading wake_keeps split: option.split list.split)

lemma wake_all_keeps:
  "(\<And>s'. obs s' = obs s \<Longrightarrow> Q s') \<Longrightarrow> yields (wake_all as s) Q"
  by (induction as arbitrary: s Q)
     (auto simp: Let_def split_beta intro!: reading wake_keeps split: option.split list.split)

lemma wake_joiners_keeps:
  "(\<And>s'. obs s' = obs s \<Longrightarrow> Q s') \<Longrightarrow> yields (wake_joiners d ks s) Q"
  by (induction ks arbitrary: s Q)
     (auto simp: Let_def split_beta intro!: reading wake_keeps split: option.split list.split)

lemma complete_thread_keeps:
  "(\<And>s'. obs s' = obs s \<Longrightarrow> Q s') \<Longrightarrow> yields (complete_thread t s) Q"
  by (auto simp: complete_thread_def Let_def split_beta intro!: reading split: option.split list.split)

end

section \<open>Loads\<close>

locale load_frame = buffer_frame +
  assumes obs_act: "obs (upd_act a h s) = obs s" "obs (s\<lparr>ck_acts := ck_acts s @ [m]\<rparr>) = obs s"
    and obs_shadow: "obs (s\<lparr>ck_races := rd\<rparr>) = obs s" "obs (s\<lparr>ck_found_pos := n\<rparr>) = obs s"
begin

lemmas obs_load [simp] = obs_act obs_shadow

lemma obs_candidates [simp]:
  "obs (snd (new_action m s)) = obs s" "obs (snd (add_vec v vs s)) = obs s"
  "obs (setBeginRange e l c s) = obs s" "obs (setEndRange e l c s) = obs s"
  "obs (bound_before e l l2 ce ws s) = obs s"
  by (auto simp: new_action_def add_vec_def setBeginRange_def setEndRange_def bound_before_def Let_def split_beta
      split: option.split)

lemma obs_add_vecs [simp]: "obs (snd (add_vecs new vs s)) = obs s"
  by (induction new arbitrary: vs s) (simp_all add: split_beta)

lemma obs_prior_loop [simp]:
  "obs (snd (snd (snd (prior_loop e heap read b r seeds ws currs past s)))) = obs s"
  by (induction ws arbitrary: currs past s r) (simp_all add: Let_def split_beta)

lemma obs_look_prior [simp]: "obs (snd (snd (lookforWritesInPriorExecution e read seeds s))) = obs s"
  by (simp add: lookforWritesInPriorExecution_def Let_def split_beta split: option.split)

lemma obs_prior_executions [simp]: "obs (snd (prior_executions read es seeds s)) = obs s"
  by (induction es arbitrary: seeds s) (simp_all add: Let_def split_beta)

lemma add_normal_write_to_lists_keeps:
  "(\<And>s'. obs s' = obs s \<Longrightarrow> Q s') \<Longrightarrow> yields (add_normal_write_to_lists a s) Q"
  by (auto simp: add_normal_write_to_lists_def Let_def split_beta intro!: reading split: option.split list.split)

lemma convertNonAtomicStore_keeps:
  "(\<And>r. obs (snd r) = obs s \<Longrightarrow> Q r) \<Longrightarrow> yields (convertNonAtomicStore l n s) Q"
  by (auto simp: convertNonAtomicStore_def Let_def split_beta intro!: reading add_normal_write_to_lists_keeps split: option.split list.split)

lemma ensureInitialValue_keeps:
  "(\<And>s'. obs s' = obs s \<Longrightarrow> Q s') \<Longrightarrow> yields (ensureInitialValue a s) Q"
  by (auto simp: ensureInitialValue_def Let_def split_beta intro!: reading split: option.split list.split)

lemma extra_writes_keeps:
  "(\<And>r. obs (snd r) = obs s \<Longrightarrow> Q r) \<Longrightarrow> yields (extra_writes l ks w n s) Q"
  by (induction ks arbitrary: s w n Q)
     (auto simp: Let_def split_beta intro!: reading flushBuffers_keeps convertNonAtomicStore_keeps split: option.split list.split)

lemma build_may_read_from_keeps:
  "(\<And>r. obs (snd r) = obs s \<Longrightarrow> Q r) \<Longrightarrow> yields (build_may_read_from a s) Q"
  by (auto simp: build_may_read_from_def Let_def split_beta simp del: prod.collapse intro!: reading extra_writes_keeps split: option.split list.split)

lemma narrow_loop_keeps:
  "(\<And>s'. obs s' = obs s \<Longrightarrow> Q s') \<Longrightarrow> yields (narrow_loop x rf l c es s) Q"
  by (induction es arbitrary: s Q)
     (auto simp: Let_def split_beta intro!: reading split: option.split list.split)

lemma read_loop_keeps:
  "(\<And>r. obs (snd r) = obs s \<Longrightarrow> Q r) \<Longrightarrow> yields (read_loop a rfs ks v s) Q"
  by (induction ks arbitrary: s v Q)
     (auto simp: Let_def split_beta intro!: reading narrow_loop_keeps split: option.split list.split)

lemma process_read_keeps:
  "(\<And>s'. obs s' = obs s \<Longrightarrow> Q s') \<Longrightarrow> yields (process_read a rfs s) Q"
  by (auto simp: process_read_def Let_def split_beta intro!: reading upd_thread_keeps initialize_curr_action_keeps read_loop_keeps split: option.split list.split)

lemma handle_read_keeps:
  "(\<And>s'. obs s' = obs s \<Longrightarrow> Q s') \<Longrightarrow> yields (handle_read a s) Q"
  by (auto simp: handle_read_def Let_def split_beta intro!: reading explore_keeps build_may_read_from_keeps process_read_keeps split: option.split list.split)

lemma synchronize_keeps:
  "(\<And>r. obs (snd r) = obs s \<Longrightarrow> Q r) \<Longrightarrow> yields (synchronize a b s) Q"
  by (auto simp: synchronize_def Let_def split_beta intro!: reading split: option.split list.split)

lemma swap_rmw_write_part_keeps:
  "(\<And>r. obs (snd r) = obs s \<Longrightarrow> Q r) \<Longrightarrow> yields (swap_rmw_write_part a s) Q"
  by (auto simp: swap_rmw_write_part_def Let_def split_beta intro!: reading initialize_curr_action_keeps drain_keeps split: option.split list.split)

lemma begin_action_keeps:
  "(\<And>r. obs (snd r) = obs s \<Longrightarrow> Q r) \<Longrightarrow> yields (begin_action a s) Q"
  by (auto simp: begin_action_def Let_def split_beta intro!: reading initialize_curr_action_keeps emptyFlushBuffer_keeps emptyStoreBuffer_keeps drain_keeps process_memory_fence_keeps process_store_fence_keeps handle_read_keeps swap_rmw_write_part_keeps split: option.split list.split)

end

section \<open>Threads\<close>

locale thread_frame = load_frame +
  assumes obs_any_exec: "obs (upd_exec e f s) = obs s" and obs_mem: "obs (s\<lparr>ck_mem := mem\<rparr>) = obs s"
begin

lemmas obs_threads [simp] = obs_any_exec obs_mem

lemma obs_any_cur [simp]: "obs (upd_cur f s) = obs s" "obs (put_thread t th s) = obs s"
  "obs (snd (get_next_id s)) = obs s"
  by (simp_all add: upd_cur_def put_thread_def get_next_id_def)

lemma sched_add_thread_keeps:
  "(\<And>s'. obs s' = obs s \<Longrightarrow> Q s') \<Longrightarrow> yields (sched_add_thread th s) Q"
  by (auto simp: sched_add_thread_def Let_def split_beta intro!: reading split: option.split list.split)

lemma add_thread_keeps:
  "(\<And>s'. obs s' = obs s \<Longrightarrow> Q s') \<Longrightarrow> yields (add_thread th s) Q"
  by (auto simp: add_thread_def Let_def split_beta intro!: reading sched_add_thread_keeps split: option.split list.split)

lemma create_thread_keeps:
  "(\<And>r. obs (snd r) = obs s \<Longrightarrow> Q r) \<Longrightarrow> yields (create_thread a s) Q"
  by (auto simp: create_thread_def Let_def split_beta intro!: reading upd_thread_keeps add_thread_keeps split: option.split list.split)

lemma process_thread_action_keeps:
  "(\<And>s'. obs s' = obs s \<Longrightarrow> Q s') \<Longrightarrow> yields (process_thread_action a s) Q"
  by (auto simp: process_thread_action_def Let_def split_beta intro!: reading upd_thread_keeps wake_joiners_keeps complete_thread_keeps synchronize_keeps create_thread_keeps split: option.split list.split)

end

section \<open>The outer state, the threads and the kinds of actions\<close>

definition outer :: "checker \<Rightarrow> (addr \<Rightarrow> mutex_state) \<times> eid \<times> eid \<times> (eid \<times> node_stack) list \<times>
    node_stack list \<times> model_params \<times> nat \<times> nat \<times> modelclock \<times> addr option list \<times> nat" where
  "outer s = (ck_mutexes s, ck_cur s, ck_orig s, ck_prev s, ck_replaystack s, ck_params s,
     ck_execution_number s, ck_numcrashes s, ck_nextCrashPoint s, ck_regionID s, length (ck_execs s))"

definition ids :: "checker \<Rightarrow> tid option list \<times> nat" where
  "ids s = (map (map_option th_id) (ex_thread_map (cur_exec s)), get_num_threads s)"

definition kinds :: "checker \<Rightarrow> (action_type \<times> tid \<times> addr \<times> addr option) list" where
  "kinds s = map (\<lambda>m. (act_type m, act_tid m, act_location m, get_mutex m)) (ck_acts s)"

abbreviation same_kind :: "model_action \<Rightarrow> model_action \<Rightarrow> bool" where
  "same_kind m m' \<equiv> act_type m' = act_type m \<and> act_tid m' = act_tid m \<and>
     act_location m' = act_location m \<and> get_mutex m' = get_mutex m"

lemma outer_fields:
  assumes "outer s' = outer s"
  shows "ck_mutexes s' = ck_mutexes s" "ck_cur s' = ck_cur s" "ck_prev s' = ck_prev s"
    "ck_replaystack s' = ck_replaystack s" "ck_params s' = ck_params s"
    "length (ck_execs s') = length (ck_execs s)" "valid s' = valid s"
  using assms by (simp_all add: outer_def valid_def)

interpretation outer: thread_frame outer
  by unfold_locales (simp_all add: outer_def upd_exec_def put_thread_def upd_cur_def emit_def upd_sched_def upd_act_def)

lemma upd_exec_invalid: "\<not> e < length (ck_execs s) \<Longrightarrow> upd_exec e f s = s"
  by (cases s) (simp add: upd_exec_def list_update_beyond)

lemma ids_exec:
  assumes "ex_thread_map (f (exec_of s e)) = ex_thread_map (exec_of s e)"
    "ex_next_thread_id (f (exec_of s e)) = ex_next_thread_id (exec_of s e)"
  shows "ids (upd_exec e f s) = ids s"
proof (cases "e < length (ck_execs s)")
  case True
  with assms show ?thesis
    by (cases "ck_cur s = e") (simp_all add: ids_def get_num_threads_def cur_exec_def exec_of_upd_exec cur_frame)
next
  case False
  then show ?thesis by (simp add: upd_exec_invalid)
qed

lemma ids_put:
  assumes "get_thread s t = Some th" "th_id th' = th_id th"
  shows "ids (put_thread t th' s) = ids s"
proof (cases "valid s")
  case True
  with assms show ?thesis
    by (auto simp: ids_def put_thread_def frame_simps get_thread_def map_update list_update_same_conv
        get_num_threads_def split: if_splits)
next
  case False
  then show ?thesis by (simp add: put_thread_def upd_cur_def upd_exec_invalid valid_def)
qed

interpretation ids: load_frame ids
  by unfold_locales (auto simp: ids_put ids_exec,
      auto simp: ids_def get_num_threads_def emit_def upd_sched_def upd_act_def cur_exec_def exec_of_def)

lemma kinds_act:
  assumes "same_kind (act s a) m"
  shows "kinds (upd_act a (\<lambda>_. m) s) = kinds s"
  using assms by (cases "a < length (ck_acts s)")
    (auto simp: kinds_def upd_act_def act_def map_update list_update_same_conv list_update_beyond)

lemma kinds_fields: "ck_acts s' = ck_acts s \<Longrightarrow> kinds s' = kinds s"
  by (simp add: kinds_def)

lemma stamp_kind:
  "set_seq_number m c = Some m' \<Longrightarrow> same_kind m m'" "merge_cv_parent m p = Some m' \<Longrightarrow> same_kind m m'"
  by (auto simp: set_seq_number_def merge_cv_parent_def merge_cv_def get_mutex_def kind_defs
      split: if_split_asm option.split_asm)

lemma kinds_flush:
  "is_cache_op (act s a) \<Longrightarrow> kinds (upd_act a (\<lambda>m. set_last_clflush m c) s) = kinds s"
  "kinds (upd_act a (\<lambda>m. setLastWrites m c w) s) = kinds s"
  using kinds_act [of "set_last_clflush (act s a) c" s a] kinds_act [of "setLastWrites (act s a) c w" s a]
  by (auto simp: set_last_clflush_def setLastWrites_def upd_act_def get_mutex_def kind_defs)

interpretation kinds: buffer_frame kinds
  by unfold_locales (rule kinds_flush kinds_act kinds_fields; auto simp: acts_frame dest: stamp_kind)+

end
