(* ===== verification/Waiting.thy ===== *)
theory Waiting
  imports Scheduling Demo_Machine
begin

text \<open>
  Which thread runs next, who waits for whom, and what counts as a deadlock: the
  properties of the scheduler, of \<^verbatim>\<open>Thread::is_waiting_on\<close> and of
  \<^verbatim>\<open>ModelExecution::is_deadlocked\<close>.
\<close>

section \<open>The chain of waiting threads\<close>

primrec wait_chain :: "(tid \<Rightarrow> tid option) \<Rightarrow> tid option \<Rightarrow> nat \<Rightarrow> tid option" where
  "wait_chain nxt w 0 = w"
| "wait_chain nxt w (Suc n) = Option.bind (wait_chain nxt w n) nxt"

lemma wait_chain_shift: "wait_chain nxt (Some x) (Suc n) = wait_chain nxt (nxt x) n"
  by (induction n) simp_all

lemma wait_chain_None: "wait_chain nxt None n = None"
  by (induction n) simp_all

lemma waits_through_None [simp]: "waits_through nxt t None = Some False"
  by (simp add: waits_through.simps)

lemma waits_through_Some:
  "waits_through nxt t (Some x) = (if x = t then Some True else waits_through nxt t (nxt x))"
  by (simp add: waits_through.simps)

lemma waits_through_found: "wait_chain nxt w n = Some t \<Longrightarrow> waits_through nxt t w = Some True"
proof (induction n arbitrary: w)
  case 0
  then show ?case by (simp add: waits_through_Some)
next
  case (Suc n)
  show ?case
  proof (cases w)
    case None
    with Suc.prems show ?thesis by (simp add: wait_chain_None del: wait_chain.simps(2))
  next
    case (Some x)
    with Suc show ?thesis by (simp add: waits_through_Some wait_chain_shift del: wait_chain.simps(2))
  qed
qed

lemma waits_through_ends:
  "wait_chain nxt w n = None \<Longrightarrow> \<forall>m. wait_chain nxt w m \<noteq> Some t \<Longrightarrow> waits_through nxt t w = Some False"
proof (induction n arbitrary: w)
  case 0
  then show ?case by simp
next
  case (Suc n)
  show ?case
  proof (cases w)
    case None
    then show ?thesis by simp
  next
    case (Some x)
    have "x \<noteq> t" using Suc.prems(2) Some by (metis wait_chain.simps(1))
    moreover have "\<forall>m. wait_chain nxt (nxt x) m \<noteq> Some t"
      using Suc.prems(2) Some wait_chain_shift by metis
    moreover have "wait_chain nxt (nxt x) n = None"
      using Suc.prems(1) Some wait_chain_shift by metis
    ultimately show ?thesis using Suc.IH Some by (simp add: waits_through_Some)
  qed
qed

lemma waits_through_result:
  assumes "waits_through nxt t w = Some b"
  shows "\<exists>n. wait_chain nxt w n = (if b then Some t else None)"
proof (rule waits_through.raw_induct [rotated, OF assms])
  fix f :: "(tid \<Rightarrow> tid option) \<Rightarrow> tid \<Rightarrow> tid option \<Rightarrow> bool option"
    and nxt :: "tid \<Rightarrow> tid option" and t w b
  assume IH: "\<And>nxt t w b. f nxt t w = Some b \<Longrightarrow>
      \<exists>n. wait_chain nxt w n = (if b then Some t else None)"
    and body: "(case w of None \<Rightarrow> Some False
      | Some w \<Rightarrow> if w = t then Some True else f nxt t (nxt w)) = Some b"
  show "\<exists>n. wait_chain nxt w n = (if b then Some t else None)"
  proof (cases w)
    case None
    with body have "wait_chain nxt w 0 = (if b then Some t else None)" by simp
    then show ?thesis by blast
  next
    case (Some x)
    show ?thesis
    proof (cases "x = t")
      case True
      with body Some have "wait_chain nxt w 0 = (if b then Some t else None)" by simp
      then show ?thesis by blast
    next
      case False
      with body Some have "f nxt t (nxt x) = Some b" by simp
      from IH [OF this] obtain n where "wait_chain nxt (nxt x) n = (if b then Some t else None)"
        by blast
      with Some have "wait_chain nxt w (Suc n) = (if b then Some t else None)"
        by (simp only: wait_chain_shift)
      then show ?thesis by blast
    qed
  qed
qed

lemma waits_through_char:
  "waits_through nxt t w =
     (if \<exists>n. wait_chain nxt w n = Some t then Some True
      else if \<exists>n. wait_chain nxt w n = None then Some False else None)"
proof (cases "\<exists>n. wait_chain nxt w n = Some t")
  case True
  then show ?thesis using waits_through_found by auto
next
  case no: False
  show ?thesis
  proof (cases "\<exists>n. wait_chain nxt w n = None")
    case True
    then obtain n where "wait_chain nxt w n = None" by blast
    from waits_through_ends [OF this] no True show ?thesis by simp
  next
    case False
    have "waits_through nxt t w \<noteq> Some b" for b
      using waits_through_result [of nxt t w b] no False by (cases b) auto
    then have "waits_through nxt t w = None" by blast
    with no False show ?thesis by simp
  qed
qed

text \<open>
  C20: \<^verbatim>\<open>is_waiting_on\<close> returns true exactly when the chain of waiting threads reaches the
  other thread, false when the chain ends without reaching it, and does not return when the
  chain goes on for ever without it.  A thread that relocks a recursive mutex it holds is
  the one exception.
\<close>
theorem waiting_loop_ends:
  "is_waiting_on s a t =
     (if waiting_on s a = Some t \<and>
         (case Option.bind (get_thread s a) th_pending of
            None \<Rightarrow> False
          | Some p \<Rightarrow> is_lock (act s p) \<and> ms_recursive (ck_mutexes s (act_location (act s p))))
      then Some False
      else if \<exists>n. wait_chain (waiting_on s) (waiting_on s a) n = Some t then Some True
      else if \<exists>n. wait_chain (waiting_on s) (waiting_on s a) n = None then Some False
      else None)"
  unfolding is_waiting_on_def waits_through_char by simp

text \<open>A thread that waits for itself is the end of no chain.\<close>

lemma wait_chain_self: "nxt u = Some u \<Longrightarrow> wait_chain nxt (Some u) n = Some u"
  by (induction n) simp_all

text \<open>
  C21: A thread that is about to relock a mutex it holds waits for itself, even when the mutex
  is recursive and the lock will succeed.  When another thread then asks for the same mutex,
  the deadlock test of that thread does not return.
\<close>
theorem recursive_relock_hangs:
  assumes "waiting_on s u = Some u" "waiting_on s t = Some u" "u \<noteq> t"
  shows "is_waiting_on s t t = None"
proof -
  have "wait_chain (waiting_on s) (waiting_on s t) n = Some u" for n
    using assms by (simp add: wait_chain_self)
  with assms show ?thesis unfolding is_waiting_on_def waits_through_char by simp
qed

text \<open>
  Two threads with a pending lock of the same recursive mutex, held by the first.
\<close>

definition lock_action :: "addr \<Rightarrow> tid \<Rightarrow> model_action" where
  "lock_action l t = (demo_store l 0)\<lparr>act_type := ATOMIC_LOCK, act_tid := t\<rparr>"

definition relock_demo :: checker where
  "relock_demo = (demo_checker [lock_action 0x10 1, lock_action 0x10 2] [] [])
     \<lparr>ck_execs := [(demo_exec [] [])\<lparr>ex_thread_map := [Some (ModelThread 0),
        Some ((UserThread 1 None)\<lparr>th_state := THREAD_READY, th_pending := Some 0\<rparr>),
        Some ((UserThread 2 (Some 1))\<lparr>th_state := THREAD_READY, th_pending := Some 1\<rparr>)],
        ex_next_thread_id := 3\<rparr>],
      ck_mutexes := (\<lambda>_. \<lparr>ms_locked = Some 1, ms_alloc_tid = 1, ms_alloc_clock = 0,
        ms_recursive = True, ms_lock_count = 0\<rparr>)\<rparr>"

lemma relock_demo_waits: "waiting_on relock_demo 1 = Some 1" "waiting_on relock_demo 2 = Some 1"
  by (simp_all add: waiting_on_def get_thread_def cur_exec_def exec_of_def relock_demo_def
      demo_checker_def demo_exec_def UserThread_def act_def lock_action_def kind_defs)

theorem recursive_relock_hangs_witness: "is_waiting_on relock_demo 2 2 = None"
  by (rule recursive_relock_hangs [OF relock_demo_waits]) simp

section \<open>Picking the next thread\<close>

text \<open>Every entry of the scheduler belongs to a thread of the execution.\<close>

definition sched_ok :: "checker \<Rightarrow> bool" where
  "sched_ok s \<longleftrightarrow> (\<forall>i < length (sch_enabled (ck_sched s)). \<exists>th. get_thread s i = Some th \<and> th_id th = i)"

lemma threads_that_are_iff:
  "i \<in> set (threads_that_are e sch) \<longleftrightarrow> get_enabled sch i = Some e"
  by (auto simp: threads_that_are_def get_enabled_def)

lemma next_random_fields [simp]:
  "ck_sched (snd (next_random s)) = ck_sched s" "get_thread (snd (next_random s)) = get_thread s"
  "ck_acts (snd (next_random s)) = ck_acts s" "ck_execs (snd (next_random s)) = ck_execs s"
  "ck_cur (snd (next_random s)) = ck_cur s" "valid (snd (next_random s)) = valid s"
  by (auto simp: next_random_def get_thread_def fun_eq_iff cur_exec_def exec_of_def valid_def)

lemma selectThread_spec:
  "ts \<noteq> [] \<Longrightarrow> \<exists>t. t \<in> set ts \<and> selectThread ts s = Some (t, snd (next_random s))"
  by (auto simp: selectThread_def split_beta Let_def)

lemma get_enabled_set:
  "get_enabled (set_enabled t e sch) u =
     (if u = t then Some e else if u < length (sch_enabled sch) then get_enabled sch u
      else if u < t then Some THREAD_DISABLED else None)"
  by (auto simp: get_enabled_def set_enabled_def grow_nth nth_list_update)

lemma get_enabled_index [simp]:
  "get_enabled (sch\<lparr>sch_curr_thread_index := n\<rparr>) t = get_enabled sch t"
  "get_enabled (sch\<lparr>sch_current := c\<rparr>) t = get_enabled sch t"
  by (simp_all add: get_enabled_def)

lemma sched_upd [simp]: "ck_sched (upd_sched f s) = f (ck_sched s)"
  by (simp add: upd_sched_def)

text \<open>
  C16: The scheduler always makes progress: it returns an enabled thread when there is one;
  otherwise it wakes one of the sleeping threads, which is told that it was woken up; and it
  returns no thread, leaving everything as it is, only when no thread is enabled or asleep.
\<close>
theorem scheduler_makes_progress:
  assumes "sched_ok s" "valid s"
  shows "\<exists>r s'. select_next_thread s = Some (r, s') \<and>
    (case r of
       None \<Rightarrow> s' = s \<and> (\<forall>i. get_enabled (ck_sched s) i \<in> {None, Some THREAD_DISABLED})
     | Some t \<Rightarrow>
         get_enabled (ck_sched s') t = Some THREAD_ENABLED \<and>
         (get_enabled (ck_sched s) t = Some THREAD_ENABLED \<or>
          (\<forall>i. get_enabled (ck_sched s) i \<noteq> Some THREAD_ENABLED) \<and>
          get_enabled (ck_sched s) t = Some THREAD_SLEEP_SET \<and>
          map_option th_wakeup_state (get_thread s' t) = Some True))"
proof (cases "threads_that_are THREAD_ENABLED (ck_sched s) = []")
  case False
  then obtain t where t: "t \<in> set (threads_that_are THREAD_ENABLED (ck_sched s))"
    and sel: "selectThread (threads_that_are THREAD_ENABLED (ck_sched s)) s = Some (t, snd (next_random s))"
    using selectThread_spec by blast
  from t have en: "get_enabled (ck_sched s) t = Some THREAD_ENABLED" by (simp add: threads_that_are_iff)
  with assms(1) obtain th where "get_thread s t = Some th"
    by (auto simp: sched_ok_def get_enabled_def split: if_splits)
  with False sel en show ?thesis
    by (auto simp: select_next_thread_def Let_def get_enabled_def split: if_splits)
next
  case none: True
  then have noen: "get_enabled (ck_sched s) i \<noteq> Some THREAD_ENABLED" for i
    using threads_that_are_iff [of i THREAD_ENABLED "ck_sched s"] by auto
  show ?thesis
  proof (cases "threads_that_are THREAD_SLEEP_SET (ck_sched s) = []")
    case True
    then have nosl: "get_enabled (ck_sched s) i \<noteq> Some THREAD_SLEEP_SET" for i
      using threads_that_are_iff [of i THREAD_SLEEP_SET "ck_sched s"] by auto
    have "get_enabled (ck_sched s) i \<in> {None, Some THREAD_DISABLED}" for i
    proof (cases "get_enabled (ck_sched s) i")
      case (Some e)
      then show ?thesis using noen [of i] nosl [of i] by (cases e) simp_all
    qed simp
    with none True show ?thesis by (simp add: select_next_thread_def)
  next
    case False
    then obtain t where t: "t \<in> set (threads_that_are THREAD_SLEEP_SET (ck_sched s))"
      and sel: "selectThread (threads_that_are THREAD_SLEEP_SET (ck_sched s)) s = Some (t, snd (next_random s))"
      using selectThread_spec by blast
    from t have en: "get_enabled (ck_sched s) t = Some THREAD_SLEEP_SET" by (simp add: threads_that_are_iff)
    with assms(1) obtain th where th: "get_thread s t = Some th"
      by (auto simp: sched_ok_def get_enabled_def split: if_splits)
    let ?s1 = "remove_sleep t (snd (next_random s))"
    let ?s2 = "put_thread t (th\<lparr>th_wakeup_state := True\<rparr>) ?s1"
    have "upd_thread t (\<lambda>th. th\<lparr>th_wakeup_state := True\<rparr>) ?s1 = Some ?s2"
      using th by (simp add: upd_thread_def frame_simps)
    moreover have "get_thread ?s2 t = Some (th\<lparr>th_wakeup_state := True\<rparr>)"
      using th assms(2) by (simp add: frame_simps)
    moreover have "get_enabled (ck_sched ?s2) t = Some THREAD_ENABLED"
      by (simp add: put_thread_def upd_cur_def upd_exec_def remove_sleep_def get_enabled_set)
    ultimately show ?thesis
      using none False sel noen en
      by (simp add: select_next_thread_def Let_def frame_simps)
  qed
qed

lemma demo_sched_ok: "sched_ok (demo_checker acts sb fb)"
  by (auto simp: sched_ok_def demo_checker_def demo_exec_def get_thread_def cur_exec_def exec_of_def
      ModelThread_def UserThread_def less_Suc_eq)

theorem scheduler_makes_progress_witness:
  "\<exists>r s'. select_next_thread (demo_checker [] [] []) = Some (r, s')"
  using scheduler_makes_progress [OF demo_sched_ok demo_valid] by blast

section \<open>Deadlock at the end of an execution\<close>

lemma deadlock_loop_char:
  assumes "\<forall>i \<in> set is. get_thread s i \<noteq> None"
  shows "deadlock_loop s is b = Some ((\<forall>i \<in> set is. \<not> thread_enabled s i) \<and>
    (b \<or> (\<exists>i \<in> set is. \<exists>th. get_thread s i = Some th \<and> \<not> th_model_thread th \<and> th_pending th \<noteq> None)))"
  using assms by (induction "is" arbitrary: b) auto

text \<open>
  C19: At the end of an execution a deadlock is reported exactly when no thread is enabled
  and some thread of the program still has an action it waits to perform.
\<close>
theorem deadlock_reported:
  assumes "\<forall>i < get_num_threads s. get_thread s i \<noteq> None"
  shows "is_deadlocked s = Some (is_complete_execution s \<and>
    (\<exists>i < get_num_threads s. \<exists>th. get_thread s i = Some th \<and> \<not> th_model_thread th \<and> th_pending th \<noteq> None))"
  using assms by (simp add: is_deadlocked_def deadlock_loop_char is_complete_execution_def list_all_iff
      Bex_def)

theorem deadlock_reported_witness: "is_deadlocked (demo_checker [] [] []) = Some False"
  by (subst deadlock_reported)
     (auto simp: get_num_threads_def get_thread_def cur_exec_def exec_of_def demo_checker_def
       demo_exec_def less_Suc_eq numeral_2_eq_2 is_complete_execution_def thread_enabled_def is_enabled_def UserThread_def ModelThread_def)

end
