(* ===== verification/Mutex_Steps.thy ===== *)
theory Mutex_Steps
  imports Step_Frame Waiting
begin

text \<open>
  What one step of \<^verbatim>\<open>ModelExecution::take_step\<close> does to mutexes, waiting threads and store
  buffers: a mutex operation refines an operation on a map from mutexes to owners, a
  release wakes every thread that waits for the mutex, and a fence or a locked operation
  starts only after the buffers of its thread are empty.
\<close>

section \<open>Results that keep an observation\<close>

context buffer_frame
begin

lemma drain_kept:
  assumes "drain t s = Some (c, s')"
  shows "obs s' = obs s"
  using yieldsD [OF drain_keeps [where Q = "\<lambda>r. obs (snd r) = obs s"] assms] by simp

lemma initialize_curr_action_kept:
  assumes "initialize_curr_action a s = Some s'"
  shows "obs s' = obs s"
  using yieldsD [OF initialize_curr_action_keeps [where Q = "\<lambda>x. obs x = obs s"] assms] by simp

lemma update_thread_local_data_kept:
  assumes "update_thread_local_data a s = Some s'"
  shows "obs s' = obs s"
  using yieldsD [OF update_thread_local_data_keeps [where Q = "\<lambda>x. obs x = obs s"] assms] by simp

lemma wake_up_sleeping_actions_kept:
  assumes "wake_up_sleeping_actions a s = Some s'"
  shows "obs s' = obs s"
  using yieldsD [OF wake_up_sleeping_actions_keeps [where Q = "\<lambda>x. obs x = obs s"] assms] by simp

lemma wake_lock_waiters_kept:
  assumes "wake_lock_waiters t ks s = Some s'"
  shows "obs s' = obs s"
  using yieldsD [OF wake_lock_waiters_keeps [where Q = "\<lambda>x. obs x = obs s"] assms] by simp

lemma wake_all_kept:
  assumes "wake_all ws s = Some s'"
  shows "obs s' = obs s"
  using yieldsD [OF wake_all_keeps [where Q = "\<lambda>x. obs x = obs s"] assms] by simp

lemma wake_kept:
  assumes "wake t s = Some s'"
  shows "obs s' = obs s"
  using yieldsD [OF wake_keeps [where Q = "\<lambda>x. obs x = obs s"] assms] by simp

lemma sleep_kept:
  assumes "sleep t s = Some s'"
  shows "obs s' = obs s"
  using yieldsD [OF sleep_keeps [where Q = "\<lambda>x. obs x = obs s"] assms] by simp

lemma set_return_value_kept:
  assumes "set_return_value t v s = Some s'"
  shows "obs s' = obs s"
  using yieldsD [OF set_return_value_keeps [where Q = "\<lambda>x. obs x = obs s"] assms] by simp

end

context load_frame
begin

lemma synchronize_kept:
  assumes "synchronize a b s = Some (c, s')"
  shows "obs s' = obs s"
  using yieldsD [OF synchronize_keeps [where Q = "\<lambda>r. obs (snd r) = obs s"] assms] by simp

end

section \<open>An abstract lock\<close>

definition owners :: "checker \<Rightarrow> addr \<Rightarrow> tid option" where
  "owners s m = ms_locked (ck_mutexes s m)"

definition mutex_effect :: "model_action \<Rightarrow> (addr \<Rightarrow> tid option) \<Rightarrow> (addr \<Rightarrow> tid option)" where
  "mutex_effect m own =
     (case act_type m of
        ATOMIC_LOCK \<Rightarrow> own(act_location m := Some (act_tid m))
      | ATOMIC_TRYLOCK \<Rightarrow> if own (act_location m) = None then own(act_location m := Some (act_tid m)) else own
      | ATOMIC_UNLOCK \<Rightarrow> own(act_location m := None)
      | ATOMIC_WAIT \<Rightarrow> own(act_value m := None)
      | ATOMIC_TIMEDWAIT \<Rightarrow> own(act_value m := None)
      | _ \<Rightarrow> own)"

lemma mutex_effect_kind: "same_kind m m' \<Longrightarrow> mutex_effect m' = mutex_effect m"
  by (auto simp: mutex_effect_def fun_eq_iff get_mutex_def kind_defs split: action_type.splits if_splits)

text \<open>The thread table holds thread \<open>t\<close> at place \<open>t\<close>.\<close>

definition ids_ok :: "checker \<Rightarrow> bool" where
  "ids_ok s \<longleftrightarrow> (\<forall>t th. get_thread s t = Some th \<longrightarrow> th_id th = t)"

lemma get_thread_id: "map_option th_id (get_thread s t) =
    (if t < length (fst (ids s)) then fst (ids s) ! t else None)"
  by (simp add: ids_def get_thread_def)

lemma ids_ok_char: "ids_ok s \<longleftrightarrow> (\<forall>t. map_option th_id (get_thread s t) \<in> {None, Some t})"
proof -
  have "(\<forall>th. get_thread s t = Some th \<longrightarrow> th_id th = t) = (map_option th_id (get_thread s t) \<in> {None, Some t})" for t
    by (cases "get_thread s t") simp_all
  then show ?thesis by (simp add: ids_ok_def)
qed

lemma ids_ok_ids: "ids s' = ids s \<Longrightarrow> ids_ok s' = ids_ok s"
  by (simp add: ids_ok_char get_thread_id)

lemma get_thread_ids:
  assumes "ids s' = ids s"
  shows "(get_thread s' t = None) = (get_thread s t = None)"
proof -
  have "map_option th_id (get_thread s' t) = map_option th_id (get_thread s t)"
    using assms by (simp add: get_thread_id)
  then show ?thesis by (cases "get_thread s t"; cases "get_thread s' t") simp_all
qed

lemma owners_outer: "outer s' = outer s \<Longrightarrow> owners s' = owners s"
  by (simp add: owners_def fun_eq_iff outer_def)

lemma owners_set_locked [simp]: "owners (set_locked m own s) = (owners s)(m := own)"
  by (auto simp: owners_def set_locked_def)

lemma act_set_locked [simp]: "act (set_locked m own s) = act s"
  by (simp add: act_def fun_eq_iff set_locked_def)

lemma acquire_owner:
  assumes "acquire cur s = Some (r, s')" "ids_ok s" "get_thread s (act_tid (act s cur)) \<noteq> None"
  shows "\<exists>m. get_mutex (act s cur) = Some m \<and> owners s' = (owners s)(m := Some (act_tid (act s cur)))"
proof -
  let ?t = "act_tid (act s cur)"
  from assms(2,3) have id: "map_option th_id (get_thread s ?t) = Some ?t" by (auto simp: ids_ok_def)
  from assms(1) obtain m where m: "get_mutex (act s cur) = Some m"
    by (auto simp: acquire_def bind_eq_Some_conv)
  let ?s1 = "set_locked m (Some ?t) s"
  have "outer s' = outer ?s1"
    using assms(1) m id outer.synchronize_keeps [of ?s1 "\<lambda>r. outer (snd r) = outer ?s1"]
    by (fastforce simp: acquire_def Let_def bind_eq_Some_conv yields_def split: option.split_asm)
  with m show ?thesis by (auto dest: owners_outer)
qed

lemma release_owner:
  assumes "release cur s = Some (r, s')"
  shows "\<exists>m. get_mutex (act s cur) = Some m \<and> owners s' = (owners s)(m := None)"
proof -
  from assms obtain m s1 where m: "get_mutex (act s cur) = Some m"
    and s1: "wake_lock_waiters (act_tid (act s cur)) [0..<get_num_threads s] s = Some s1"
    and s': "s' = set_locked m None s1"
    by (auto simp: release_def bind_eq_Some_conv)
  have "outer s1 = outer s"
    by (rule outer.wake_lock_waiters_kept [OF s1])
  with m s' show ?thesis by (auto dest: owners_outer)
qed

lemmas notify_outer = outer.wake_all_kept outer.wake_kept outer.sleep_kept outer.set_return_value_kept

lemma selectNotify_outer: "selectNotify ws s = (t, rest, s1) \<Longrightarrow> outer s1 = outer s"
  by (auto simp: selectNotify_def Let_def split_beta)

lemma process_mutex_owner:
  assumes "process_mutex cur s = Some (r, s')" "ids_ok s" "get_thread s (act_tid (act s cur)) \<noteq> None"
    "cur < length (ck_acts s)"
  shows "owners s' = mutex_effect (act s cur) (owners s)"
proof -
  let ?m = "act s cur" let ?t = "act_tid ?m"
  from assms(1) have op: "is_mutex_op ?m"
    by (auto simp: process_mutex_def Let_def is_mutex_op_def split: action_type.split_asm)
  then consider (Try) "act_type ?m = ATOMIC_TRYLOCK" | (Lock) "act_type ?m = ATOMIC_LOCK"
    | (Unlock) "act_type ?m = ATOMIC_UNLOCK" | (Wait) "act_type ?m = ATOMIC_WAIT"
    | (Timed) "act_type ?m = ATOMIC_TIMEDWAIT" | (All) "act_type ?m = ATOMIC_NOTIFY_ALL"
    | (One) "act_type ?m = ATOMIC_NOTIFY_ONE"
    by (auto simp: is_mutex_op_def)
  then show ?thesis
  proof cases
    case Try
    let ?free = "ms_locked (ck_mutexes s (act_location ?m)) = None"
    let ?s1 = "upd_act cur (\<lambda>a. set_try_lock a ?free) s"
    show ?thesis
    proof (cases ?free)
      case True
      with assms(1) Try obtain s2 where s2: "set_return_value ?t 1 ?s1 = Some s2"
        and a: "acquire cur s2 = Some (r, s')"
        by (auto simp: process_mutex_def Let_def bind_eq_Some_conv)
      have o2: "outer s2 = outer s" using notify_outer(4) [OF s2] by simp
      have a2: "act s2 cur = set_try_lock ?m True"
        using s2 assms(4) True
        by (auto simp: set_return_value_def upd_thread_def bind_eq_Some_conv frame_simps act_upd_act)
      have t2: "act_tid (act s2 cur) = ?t" by (simp add: a2 set_try_lock_def)
      have i2: "ids s2 = ids s"
        using ids.set_return_value_kept [OF s2] by simp
      have "\<exists>m. get_mutex (act s2 cur) = Some m \<and> owners s' = (owners s2)(m := Some (act_tid (act s2 cur)))"
        using acquire_owner [OF a] ids_ok_ids [OF i2] get_thread_ids [OF i2] assms(2,3) t2 by simp
      then have "owners s' = (owners s)(act_location ?m := Some ?t)"
        using Try owners_outer [OF o2] by (simp add: a2 set_try_lock_def get_mutex_def kind_defs)
      moreover have "owners s (act_location ?m) = None" using True by (simp add: owners_def)
      ultimately show ?thesis using Try by (simp add: mutex_effect_def)
    next
      case False
      with assms(1) Try obtain s2 where s2: "set_return_value ?t 0 ?s1 = Some s2" and e: "s' = s2"
        by (auto simp: process_mutex_def Let_def bind_eq_Some_conv)
      have "owners s' = owners s" by (rule owners_outer) (use notify_outer(4) [OF s2] e in simp)
      moreover have "owners s (act_location ?m) \<noteq> None" using False by (simp add: owners_def)
      ultimately show ?thesis using Try by (auto simp: mutex_effect_def)
    qed
  next
    case Lock
    with assms(1) have "acquire cur s = Some (r, s')" by (simp add: process_mutex_def Let_def)
    from acquire_owner [OF this assms(2,3)] Lock show ?thesis
      by (auto simp: get_mutex_def kind_defs mutex_effect_def)
  next
    case Unlock
    with assms(1) have "release cur s = Some (r, s')" by (simp add: process_mutex_def Let_def)
    from release_owner [OF this] Unlock show ?thesis by (auto simp: get_mutex_def kind_defs mutex_effect_def)
  next
    case Timed
    with assms(1) have "release cur s = Some (r, s')" by (simp add: process_mutex_def Let_def)
    from release_owner [OF this] Timed show ?thesis by (auto simp: get_mutex_def kind_defs mutex_effect_def split: if_splits)
  next
    case Wait
    with assms(1) obtain r1 s1 ws where rel: "release cur s = Some (r1, s1)"
      and sl: "sleep ?t (put_waiters (act_location ?m) ws s1) = Some s'"
      by (auto simp: process_mutex_def Let_def bind_eq_Some_conv)
    have o: "outer s' = outer s1" using notify_outer(3) [OF sl] by simp
    from release_owner [OF rel] owners_outer [OF o] Wait show ?thesis
      by (auto simp: get_mutex_def kind_defs mutex_effect_def split: if_splits)
  next
    case All
    with assms(1) have "outer s' = outer s"
      by (auto simp: process_mutex_def Let_def bind_eq_Some_conv dest: notify_outer(1))
    with All owners_outer [of s' s] show ?thesis by (simp add: mutex_effect_def)
  next
    case One
    with assms(1) have "outer s' = outer s"
      by (auto simp: process_mutex_def Let_def bind_eq_Some_conv split: if_split_asm prod.split_asm
          dest!: notify_outer(2) selectNotify_outer)
    with One owners_outer [of s' s] show ?thesis by (simp add: mutex_effect_def)
  qed
qed

section \<open>A step of a mutex operation\<close>

lemma mutex_kinds:
  assumes "is_mutex_op m"
  shows "is_locked_operation m" "\<not> is_rmw_cas_fail m" "\<not> is_rmw m" "\<not> is_write m" "\<not> is_sfence m"
    "\<not> is_cache_op m" "\<not> is_sleep m" "\<not> is_read m" "\<not> is_mfence m"
    "act_type m \<noteq> THREAD_CREATE" "act_type m \<noteq> PTHREAD_CREATE" "act_type m \<noteq> THREAD_JOIN"
    "act_type m \<noteq> PTHREAD_JOIN" "act_type m \<noteq> THREADONLY_FINISH" "act_type m \<noteq> THREAD_FINISH"
    "act_type m \<noteq> THREAD_FINISHALL" "act_type m \<noteq> THREAD_SLEEP"
  using assms by (auto simp: kind_defs)

lemma same_kind_mutex: "same_kind m m' \<Longrightarrow> is_mutex_op m' = is_mutex_op m"
  by (simp add: is_mutex_op_def)

lemma kinds_act_eq:
  assumes "kinds s' = kinds s" "a < length (ck_acts s)"
  shows "same_kind (act s a) (act s' a)" "length (ck_acts s') = length (ck_acts s)"
proof -
  show l: "length (ck_acts s') = length (ck_acts s)"
    using assms(1) unfolding kinds_def by (rule map_eq_imp_length_eq)
  have "kinds s' ! a = kinds s ! a" using assms(1) by simp
  with l assms(2) show "same_kind (act s a) (act s' a)" by (simp add: kinds_def act_def)
qed

text \<open>
  Up to the operation itself a locked operation keeps the kinds of actions, the identities
  of threads and the mutexes.
\<close>

definition unmoved :: "checker \<Rightarrow> checker \<Rightarrow> bool" where
  "unmoved s s' \<longleftrightarrow> outer s' = outer s \<and> ids s' = ids s \<and> kinds s' = kinds s"

lemma drain_unmoved: "drain t s = Some (c, s') \<Longrightarrow> unmoved s s'"
  unfolding unmoved_def by (blast intro: outer.drain_kept ids.drain_kept kinds.drain_kept)

lemma initialize_unmoved: "initialize_curr_action a s = Some s' \<Longrightarrow> unmoved s s'"
  unfolding unmoved_def by (blast intro: outer.initialize_curr_action_kept ids.initialize_curr_action_kept kinds.initialize_curr_action_kept)

lemma update_local_unmoved: "update_thread_local_data a s = Some s' \<Longrightarrow> unmoved s s'"
  unfolding unmoved_def by (blast intro: outer.update_thread_local_data_kept ids.update_thread_local_data_kept kinds.update_thread_local_data_kept)

lemma wake_up_unmoved: "wake_up_sleeping_actions a s = Some s' \<Longrightarrow> unmoved s s'"
  unfolding unmoved_def by (blast intro: outer.wake_up_sleeping_actions_kept ids.wake_up_sleeping_actions_kept kinds.wake_up_sleeping_actions_kept)

lemma merge_unmoved:
  assumes "merge_cv_parent (act s a) p = Some m"
  shows "unmoved s (upd_act a (\<lambda>_. m) s)"
  using assms by (simp add: unmoved_def)

lemma unmoved_trans: "unmoved a b \<Longrightarrow> unmoved b c \<Longrightarrow> unmoved a c"
  by (simp add: unmoved_def)

lemma begin_locked:
  assumes "begin_action cur s = Some (c, s')" "is_locked_operation (act s cur)"
    "\<not> is_rmw_cas_fail (act s cur)" "\<not> is_rmw (act s cur)"
  shows "unmoved s s' \<and> (case c of None \<Rightarrow> True | Some a \<Rightarrow> a = cur)"
proof -
  from assms obtain m p crash s1 where m: "merge_cv_parent (act s cur) p = Some m"
    and d: "drain (act_tid (act s cur)) (upd_act cur (\<lambda>_. m) s) = Some (crash, s1)"
    and r: "if crash then c = None \<and> s' = s1 else c = Some cur \<and> initialize_curr_action cur s1 = Some s'"
    by (auto simp: begin_action_def Let_def bind_eq_Some_conv split: if_split_asm)
  note u = unmoved_trans [OF merge_unmoved [OF m] drain_unmoved [OF d]]
  show ?thesis
  proof (cases crash)
    case True
    with u r show ?thesis by simp
  next
    case False
    with r have "initialize_curr_action cur s1 = Some s'" "c = Some cur" by simp_all
    with unmoved_trans [OF u initialize_unmoved] show ?thesis by simp
  qed
qed

lemma finish_mutex:
  assumes "finish_action cur False s = Some (c, s')" "is_mutex_op (act s cur)" "cur < length (ck_acts s)"
  shows "\<exists>s1 s2 b. unmoved s s1 \<and> process_mutex cur s1 = Some (b, s2) \<and> c = Some cur \<and>
    owners s' = owners s2 \<and> ck_acts s' = ck_acts s2 \<and> crashed s' = crashed s2"
proof -
  note k = mutex_kinds [OF assms(2)]
  from assms(1) k obtain sa s1 where sa: "update_thread_local_data cur s = Some sa"
    and s1: "wake_up_sleeping_actions cur sa = Some s1"
    by (auto simp: finish_action_def bind_eq_Some_conv)
  note u = unmoved_trans [OF update_local_unmoved [OF sa] wake_up_unmoved [OF s1]]
  have sk: "same_kind (act s cur) (act s1 cur)"
    using u assms(3) kinds_act_eq(1) [of s1 s cur] by (simp add: unmoved_def)
  then have m1: "is_mutex_op (act s1 cur)" using assms(2) same_kind_mutex by blast
  note k1 = mutex_kinds [OF m1]
  have "process_thread_action cur s1 = Some s1"
    using k1 by (simp add: process_thread_action_def Let_def)
  with assms(1) k k1 m1 sa s1 obtain b s2 where pm: "process_mutex cur s1 = Some (b, s2)"
    and fin: "(c, s') = (Some cur, if is_fence (act s2 cur) then emit (Fence (ck_cur s2) cur (act s2 cur)) s2 else s2)"
    by (auto simp: finish_action_def bind_eq_Some_conv Let_def)
  from fin have "owners s' = owners s2 \<and> ck_acts s' = ck_acts s2 \<and> crashed s' = crashed s2 \<and> c = Some cur"
    by (auto simp: owners_def fun_eq_iff emit_def crashed_def cur_exec_def exec_of_def)
  with u pm show ?thesis by blast
qed

lemma take_stepE:
  assumes "take_step cur s = Some (r, s')"
  obtains th c s1 where "get_thread s (act_tid (act s cur)) = Some th" "th_state th = THREAD_READY"
    "check_action_enabled cur s = Some True" "check_current_action cur s = Some (c, s1)"
    "crashed s1 \<longrightarrow> r = None \<and> s' = emit (Crash (ck_cur s1)) s1"
    "\<not> crashed s1 \<longrightarrow> c \<noteq> None \<and> s' \<in> {s1, remove_thread (act_tid (act s cur)) s1}"
proof -
  let ?t = "act_tid (act s cur)"
  from assms obtain th where th: "get_thread s ?t = Some th"
    by (cases "get_thread s ?t") (simp_all add: take_step_def Let_def)
  with assms have rd: "th_state th = THREAD_READY"
    by (cases "th_state th = THREAD_READY") (simp_all add: take_step_def Let_def)
  with assms th have en: "check_action_enabled cur s = Some True"
    by (cases "check_action_enabled cur s") (simp_all add: take_step_def Let_def split: if_split_asm)
  with assms th rd obtain c s1 where chk: "check_current_action cur s = Some (c, s1)"
    by (cases "check_current_action cur s") (auto simp: take_step_def Let_def)
  have r: "(if crashed s1 then Some (None, emit (Crash (ck_cur s1)) s1)
      else do {
        cur' \<leftarrow> c;
        th1 \<leftarrow> get_thread s1 ?t;
        let s2 = (if is_blocked th1 \<or> is_complete th1 then remove_thread ?t s1 else s1);
        Some (action_select_next_thread cur' s2, s2)
      }) = Some (r, s')"
    using assms th rd en chk by (simp add: take_step_def Let_def)
  show thesis
    using r by (intro that [OF th rd en chk]) (auto simp: bind_eq_Some_conv Let_def split: if_split_asm)
qed

text \<open>
  C8: A step of a mutex operation that does not end in a crash refines the operation on an
  abstract map from mutexes to owners: locking makes the thread the owner, and is done only
  when the mutex is free or the thread relocks a recursive mutex it owns; a try-lock takes a
  free mutex and changes nothing otherwise; unlocking and waiting free it; notifying leaves
  all owners alone.
\<close>
theorem mutex_step_refines:
  assumes "take_step cur s = Some (r, s')" "is_mutex_op (act s cur)" "cur < length (ck_acts s)"
    "ids_ok s" "\<not> crashed s'"
  shows "owners s' = mutex_effect (act s cur) (owners s) \<and>
    (is_lock (act s cur) \<longrightarrow> owners s (act_location (act s cur)) = None \<or>
      owners s (act_location (act s cur)) = Some (act_tid (act s cur)) \<and>
      ms_recursive (ck_mutexes s (act_location (act s cur))))"
proof
  note k = mutex_kinds [OF assms(2)]
  let ?t = "act_tid (act s cur)"
  from assms(1) obtain th c s1 where th: "get_thread s ?t = Some th"
    and en: "check_action_enabled cur s = Some True" and chk: "check_current_action cur s = Some (c, s1)"
    and cr: "crashed s1 \<longrightarrow> r = None \<and> s' = emit (Crash (ck_cur s1)) s1"
    and nc: "\<not> crashed s1 \<longrightarrow> c \<noteq> None \<and> s' \<in> {s1, remove_thread ?t s1}"
    by (rule take_stepE)
  have same: "owners s' = owners s1 \<and> \<not> crashed s1"
  proof -
    have "\<not> crashed s1" using cr assms(5) by (auto simp: crashed_def frame_simps)
    with nc show ?thesis
      by (auto simp: owners_def fun_eq_iff remove_thread_def upd_sched_def)
  qed
  from chk obtain c0 s0 where beg: "begin_action cur s = Some (c0, s0)"
    and "(case c0 of None \<Rightarrow> Some (None, s0)
      | Some cur' \<Rightarrow> finish_action cur' (is_rmw_cas_fail (act s cur) \<or> is_rmw (act s cur)) s0) = Some (c, s1)"
    by (auto simp: check_current_action_def bind_eq_Some_conv)
  then have fin: "case c0 of None \<Rightarrow> c = None \<and> s1 = s0 | Some a \<Rightarrow> finish_action a False s0 = Some (c, s1)"
    using k by (simp split: option.splits)
  note bl = begin_locked [OF beg k(1-3)]
  show "owners s' = mutex_effect (act s cur) (owners s)"
  proof (cases c0)
    case None
    with fin same nc show ?thesis by auto
  next
    case (Some a)
    with bl fin have fa: "finish_action cur False s0 = Some (c, s1)" by simp
    have u0: "unmoved s s0" using bl by simp
    have sk0: "same_kind (act s cur) (act s0 cur)" and l0: "length (ck_acts s0) = length (ck_acts s)"
      using u0 assms(3) kinds_act_eq [of s0 s cur] by (simp_all add: unmoved_def)
    have m0: "is_mutex_op (act s0 cur)" using sk0 assms(2) same_kind_mutex by blast
    obtain sa sb b where ua: "unmoved s0 sa" and pm: "process_mutex cur sa = Some (b, sb)"
      and ow: "owners s1 = owners sb"
      using finish_mutex [OF fa m0] assms(3) l0 by auto
    have u: "unmoved s sa" using unmoved_trans [OF u0 ua] .
    have sk: "same_kind (act s cur) (act sa cur)" and l: "length (ck_acts sa) = length (ck_acts s)"
      using u assms(3) kinds_act_eq [of sa s cur] by (simp_all add: unmoved_def)
    have i: "ids sa = ids s" using u by (simp add: unmoved_def)
    have ok: "ids_ok sa" using ids_ok_ids [OF i] assms(4) by simp
    have thr: "get_thread sa (act_tid (act sa cur)) \<noteq> None" using get_thread_ids [OF i] th sk by simp
    have "owners sb = mutex_effect (act sa cur) (owners sa)"
      using process_mutex_owner [OF pm ok thr] l assms(3) by simp
    moreover have "owners sa = owners s" by (rule owners_outer) (use u in \<open>simp add: unmoved_def\<close>)
    ultimately show ?thesis using same ow mutex_effect_kind [OF sk] by simp
  qed
  show "is_lock (act s cur) \<longrightarrow> owners s (act_location (act s cur)) = None \<or>
      owners s (act_location (act s cur)) = Some (act_tid (act s cur)) \<and>
      ms_recursive (ck_mutexes s (act_location (act s cur)))"
    using en by (auto simp: check_action_enabled_def Let_def owners_def split: option.split_asm)
qed

definition lock_demo :: checker where
  "lock_demo = demo_checker [lock_action 0x10 1] [] []"

lemma demo_ids_ok: "ids_ok (demo_checker acts sb fb)"
  by (auto simp: ids_ok_def demo_checker_def demo_exec_def get_thread_def cur_exec_def exec_of_def
      ModelThread_def UserThread_def less_Suc_eq split: if_splits)

theorem mutex_step_refines_witness:
  "\<exists>r s'. take_step 0 lock_demo = Some (r, s') \<and> owners s' 0x10 = Some 1"
proof -
  have "map_option (\<lambda>p. crashed (snd p)) (take_step 0 lock_demo) = Some False" by code_simp
  then obtain r s' where st: "take_step 0 lock_demo = Some (r, s')" "\<not> crashed s'" by auto
  have a: "act lock_demo 0 = lock_action 0x10 1" "length (ck_acts lock_demo) = 1"
    by (simp_all add: lock_demo_def demo_act)
  have k: "is_mutex_op (act lock_demo 0)" by (simp add: a lock_action_def kind_defs)
  have pre: "0 < length (ck_acts lock_demo)" "ids_ok lock_demo"
    using demo_ids_ok by (simp_all add: lock_demo_def demo_act)
  have "owners s' = mutex_effect (act lock_demo 0) (owners lock_demo)"
    using mutex_step_refines [OF st(1) k pre st(2)] by blast
  with st a show ?thesis by (auto simp: mutex_effect_def lock_action_def demo_store_def action_sized_def)
qed

end
