(* ===== verification/Sync_Steps.thy ===== *)
theory Sync_Steps
  imports Mutex_Steps
begin

text \<open>
  Synchronisation between threads: a release wakes every waiter, joins and locks inherit
  clock vectors, and a fence or locked operation starts with empty buffers.
\<close>

section \<open>Waking the waiters of a mutex\<close>

definition waits_for_lock :: "checker \<Rightarrow> tid \<Rightarrow> tid \<Rightarrow> bool" where
  "waits_for_lock s owner i \<longleftrightarrow> waiting_on s i = Some owner \<and>
     (case Option.bind (get_thread s i) th_pending of None \<Rightarrow> False | Some p \<Rightarrow> is_lock (act s p))"

definition runnable :: "checker \<Rightarrow> tid \<Rightarrow> bool" where
  "runnable s i \<longleftrightarrow> get_enabled (ck_sched s) i = Some THREAD_ENABLED \<and>
     map_option th_state (get_thread s i) = Some THREAD_READY"

lemma enabled_stays: "get_enabled sch j = Some THREAD_ENABLED \<Longrightarrow>
    get_enabled (set_enabled i THREAD_ENABLED sch) j = Some THREAD_ENABLED"
  by (simp add: get_enabled_set) (auto simp: get_enabled_def split: if_split_asm)

lemma wake_result:
  assumes "wake i s = Some s'" "valid s"
  shows "runnable s' i" "\<And>j. runnable s j \<Longrightarrow> runnable s' j"
    "\<And>j. waits_for_lock s' owner j = waits_for_lock s owner j" "valid s'"
proof -
  from assms(1) obtain th th' where th: "get_thread s i = Some th" and th': "set_state THREAD_READY th = Some th'"
    and s': "s' = put_thread i th' (upd_sched (set_enabled i THREAD_ENABLED) s)"
    by (auto simp: wake_def bind_eq_Some_conv split: if_split_asm)
  from th' have st: "th' = th\<lparr>th_state := THREAD_READY\<rparr>" by (auto simp: set_state_def split: if_split_asm)
  have g: "get_thread s' j = (if j = i then Some th' else get_thread s j)" for j
    using th assms(2) by (simp add: s' frame_simps)
  have sch: "ck_sched s' = set_enabled i THREAD_ENABLED (ck_sched s)"
    by (simp add: s' put_thread_def upd_cur_def upd_exec_def)
  show "runnable s' i" by (simp add: runnable_def g sch get_enabled_set st)
  show "runnable s' j" if "runnable s j" for j
    using that by (auto simp: runnable_def g sch enabled_stays st)
  have a: "act s' = act s" "ck_mutexes s' = ck_mutexes s" "ck_thread_at s' = ck_thread_at s"
    by (simp_all add: s' frame_simps) (simp_all add: put_thread_def upd_cur_def upd_exec_def upd_sched_def)
  show "waits_for_lock s' owner j = waits_for_lock s owner j" for j
    using th by (simp add: waits_for_lock_def waiting_on_def g st a thread_operand_def Let_def cong: option.case_cong if_cong)
  show "valid s'" using assms(2) by (simp add: s' frame_simps)
qed

lemma wake_lock_waiters_result:
  assumes "wake_lock_waiters owner ks s = Some s'" "valid s"
  shows "(\<forall>i \<in> set ks. waits_for_lock s owner i \<longrightarrow> runnable s' i) \<and> (\<forall>i. runnable s i \<longrightarrow> runnable s' i)"
  using assms
proof (induction ks arbitrary: s)
  case Nil
  then show ?case by simp
next
  case (Cons i ks)
  from Cons.prems obtain t where t: "get_thread s i = Some t"
    and rest: "(if waiting_on s i = Some owner \<and>
         (case th_pending t of None \<Rightarrow> False | Some p \<Rightarrow> is_lock (act s p))
      then do { s1 \<leftarrow> wake i s; wake_lock_waiters owner ks s1 }
      else wake_lock_waiters owner ks s) = Some s'"
    by (auto simp: bind_eq_Some_conv)
  show ?case
  proof (cases "waits_for_lock s owner i")
    case True
    with rest t obtain s1 where s1: "wake i s = Some s1" and w: "wake_lock_waiters owner ks s1 = Some s'"
      by (auto simp: waits_for_lock_def bind_eq_Some_conv split: option.split_asm)
    note r = wake_result [OF s1 Cons.prems(2)]
    from Cons.IH [OF w r(4)] r show ?thesis by auto
  next
    case False
    with rest t have "wake_lock_waiters owner ks s = Some s'"
      by (auto simp: waits_for_lock_def split: if_split_asm)
    from Cons.IH [OF this Cons.prems(2)] False show ?thesis by auto
  qed
qed

text \<open>
  C17: Releasing a mutex loses no waiter: every thread whose pending lock waits for the
  releasing thread is enabled and ready afterwards, and the mutex is free.
\<close>
theorem release_wakes_waiters:
  assumes "release cur s = Some (r, s')" "valid s" "i < get_num_threads s"
    "waits_for_lock s (act_tid (act s cur)) i"
  shows "runnable s' i \<and> (\<exists>m. get_mutex (act s cur) = Some m \<and> owners s' m = None)"
proof -
  from assms(1) obtain m s1 where s1: "wake_lock_waiters (act_tid (act s cur)) [0..<get_num_threads s] s = Some s1"
    and s': "s' = set_locked m None s1" and m: "get_mutex (act s cur) = Some m"
    by (auto simp: release_def bind_eq_Some_conv)
  have "runnable s1 i" using wake_lock_waiters_result [OF s1 assms(2)] assms(3,4) by simp
  then have "runnable s' i" by (simp add: s' runnable_def) (simp add: set_locked_def)
  with m s' show ?thesis by simp
qed

text \<open>Thread 1 holds the mutex and is about to unlock it; thread 2 waits for it.\<close>

definition handover_demo :: checker where
  "handover_demo = relock_demo\<lparr>ck_acts := [(lock_action 0x10 1)\<lparr>act_type := ATOMIC_UNLOCK\<rparr>, lock_action 0x10 2]\<rparr>"

theorem release_wakes_waiters_witness:
  "\<exists>r s'. release 0 handover_demo = Some (r, s') \<and> runnable s' 2 \<and> owners s' 0x10 = None"
proof -
  have "release 0 handover_demo \<noteq> None" by code_simp
  then obtain r s' where r: "release 0 handover_demo = Some (r, s')" by auto
  have a: "act handover_demo 0 = (lock_action 0x10 1)\<lparr>act_type := ATOMIC_UNLOCK\<rparr>" "act handover_demo 1 = lock_action 0x10 2"
    by (simp_all add: handover_demo_def act_def)
  have v: "valid handover_demo" "2 < get_num_threads handover_demo"
    by (simp_all add: handover_demo_def relock_demo_def valid_def demo_checker_def get_num_threads_def
        cur_exec_def exec_of_def demo_exec_def)
  have "waits_for_lock handover_demo (act_tid (act handover_demo 0)) 2"
    by (simp add: waits_for_lock_def waiting_on_def a)
       (simp add: handover_demo_def relock_demo_def demo_checker_def get_thread_def cur_exec_def exec_of_def
         demo_exec_def act_def lock_action_def kind_defs UserThread_def)
  from release_wakes_waiters [OF r v this] r show ?thesis
    by (auto simp: a get_mutex_def lock_action_def kind_defs demo_store_def action_sized_def)
qed

section \<open>Inheriting clock vectors\<close>

definition clock_of :: "checker \<Rightarrow> aid \<Rightarrow> tid \<Rightarrow> modelclock" where
  "clock_of s a t = (case act_cv (act s a) of None \<Rightarrow> 0 | Some cv \<Rightarrow> cv_getClock cv t)"

definition has_clock :: "checker \<Rightarrow> aid \<Rightarrow> bool" where
  "has_clock s a \<longleftrightarrow> (\<exists>cv. act_cv (act s a) = Some cv \<and> cv_wf cv)"

lemma synchronize_clock:
  assumes "synchronize a cur s = Some (r, s')" "has_clock s a" "has_clock s cur" "cur < length (ck_acts s)"
  shows "clock_of s' cur t = max (clock_of s cur t) (clock_of s a t)"
proof -
  from assms(2,3) obtain ca cc where c: "act_cv (act s a) = Some ca" "cv_wf ca" "act_cv (act s cur) = Some cc" "cv_wf cc"
    by (auto simp: has_clock_def)
  from assms(1) have le: "\<not> get_seq_number (act s cur) < get_seq_number (act s a)"
    by (auto simp: synchronize_def)
  from assms(1) obtain m where m: "synchronize_with (act s cur) (act s a) = Some (m, r)"
    and s': "s' = upd_act cur (\<lambda>_. m) s"
    by (auto simp: synchronize_def bind_eq_Some_conv split: if_split_asm)
  from m le c have "act_cv m = Some (fst (cv_merge cc ca))"
    by (auto simp: synchronize_with_def split: if_split_asm)
  then show ?thesis using assms(4) c by (simp add: clock_of_def s' act_upd_act cv_merge_get)
qed

text \<open>
  A join makes the joined thread's work happen before: the clock vector of the join is the
  pointwise maximum of what it was and of the clock vector of the last action of the joined
  thread.
\<close>
theorem join_inherits_clock:
  assumes "process_thread_action cur s = Some s'" "is_thread_join (act s cur)" "cur < length (ck_acts s)"
    "thread_operand s (act s cur) = Some b" "ids_ok s" "get_last_action b s = Some a"
    "has_clock s a" "has_clock s cur"
  shows "clock_of s' cur t = max (clock_of s cur t) (clock_of s a t)"
proof -
  from assms(2) have j: "act_type (act s cur) = THREAD_JOIN \<or> act_type (act s cur) = PTHREAD_JOIN"
    by (auto simp: kind_defs)
  with assms(1,4) obtain th where th: "get_thread s b = Some th"
    by (auto simp: process_thread_action_def Let_def bind_eq_Some_conv)
  with assms(5) have "th_id th = b" by (simp add: ids_ok_def)
  with assms(1,4,6) j th obtain r where "synchronize a cur s = Some (r, s')"
    by (auto simp: process_thread_action_def Let_def bind_eq_Some_conv)
  from synchronize_clock [OF this assms(7,8,3)] show ?thesis .
qed

text \<open>
  Taking a mutex that was released before makes the release happen before: the clock
  vector of the lock is joined with that of the last unlock or wait of the mutex.
\<close>
theorem lock_inherits_clock:
  assumes "acquire cur s = Some (r, s')" "cur < length (ck_acts s)" "get_last_unlock (act s cur) s = Some u"
    "has_clock s u" "has_clock s cur"
  shows "r \<and> clock_of s' cur t = max (clock_of s cur t) (clock_of s u t)"
proof -
  from assms(1) obtain m where m: "get_mutex (act s cur) = Some m" by (auto simp: acquire_def bind_eq_Some_conv)
  let ?s1 = "set_locked m (map_option th_id (get_thread s (act_tid (act s cur)))) s"
  have e: "get_last_unlock (act ?s1 cur) ?s1 = Some u" "ck_acts ?s1 = ck_acts s"
    using assms(3) by (simp_all add: get_last_unlock_def cong: option.case_cong)
      (simp_all add: set_locked_def cur_exec_def exec_of_def)
  with assms(1) m obtain r' where "synchronize u cur ?s1 = Some (r', s')" "r"
    by (auto simp: acquire_def Let_def bind_eq_Some_conv)
  with synchronize_clock [of u cur ?s1 r' s' t] assms(2,4,5) e show ?thesis
    by (simp add: has_clock_def clock_of_def)
qed

text \<open>
  Thread 2 finished at clock 5; thread 1 joins it, or locks the mutex it unlocked.
\<close>

definition clocked :: "action_type \<Rightarrow> addr \<Rightarrow> tid \<Rightarrow> modelclock \<Rightarrow> modelclock list \<Rightarrow> model_action" where
  "clocked ty l t n cv = (lock_action l t)\<lparr>act_type := ty, act_seq := n,
     act_cv := Some \<lparr>clock = cv, num_threads = length cv\<rparr>\<rparr>"

definition order_demo :: "action_type \<Rightarrow> action_type \<Rightarrow> checker" where
  "order_demo ty1 ty2 = relock_demo\<lparr>ck_acts := [clocked ty1 0x10 2 5 [0, 1, 5], clocked ty2 0x10 1 6 [0, 6]],
     ck_execs := [(cur_exec relock_demo)\<lparr>ex_thrd_last_action := [None, None, Some 0],
        ex_obj_map := [0x10 \<mapsto> [0]]\<rparr>],
     ck_thread_at := [0x10 \<mapsto> 2]\<rparr>"

lemma order_demo_ids: "ids_ok (order_demo ty1 ty2)"
  by (auto simp: ids_ok_def order_demo_def relock_demo_def demo_checker_def demo_exec_def get_thread_def
      cur_exec_def exec_of_def ModelThread_def UserThread_def less_Suc_eq numeral_3_eq_3 split: if_splits)

lemma order_demo_clock:
  "has_clock (order_demo ty1 ty2) 0" "has_clock (order_demo ty1 ty2) 1"
  "clock_of (order_demo ty1 ty2) 0 2 = 5" "clock_of (order_demo ty1 ty2) 1 2 = 0"
  by (simp_all add: has_clock_def clock_of_def order_demo_def act_def clocked_def cv_wf_def cv_getClock_def)

theorem join_inherits_clock_witness:
  "\<exists>s'. process_thread_action 1 (order_demo THREAD_FINISH PTHREAD_JOIN) = Some s' \<and> clock_of s' 1 2 = 5"
proof -
  let ?s = "order_demo THREAD_FINISH PTHREAD_JOIN"
  have "process_thread_action 1 ?s \<noteq> None" by code_simp
  then obtain s' where s': "process_thread_action 1 ?s = Some s'" by auto
  have p: "is_thread_join (act ?s 1)" "1 < length (ck_acts ?s)" "thread_operand ?s (act ?s 1) = Some 2"
    "get_last_action 2 ?s = Some 0"
    by code_simp+
  from join_inherits_clock [OF s' p(1-3) order_demo_ids p(4) order_demo_clock(1,2), of 2] s' show ?thesis
    by (auto simp: order_demo_clock [simplified])
qed

theorem lock_inherits_clock_witness:
  "\<exists>r s'. acquire 1 (order_demo ATOMIC_UNLOCK ATOMIC_LOCK) = Some (r, s') \<and> clock_of s' 1 2 = 5"
proof -
  let ?s = "order_demo ATOMIC_UNLOCK ATOMIC_LOCK"
  have "acquire 1 ?s \<noteq> None" by code_simp
  then obtain r s' where s': "acquire 1 ?s = Some (r, s')" by auto
  have p: "1 < length (ck_acts ?s)" "get_last_unlock (act ?s 1) ?s = Some 0"
    by code_simp+
  from lock_inherits_clock [OF s' p order_demo_clock(1,2), of 2] s' show ?thesis
    by (auto simp: order_demo_clock [simplified])
qed

section \<open>Fences and locked operations wait for the buffers\<close>

lemma flush_loop_crash:
  "flush_loop n t s = Some (True, s') \<Longrightarrow> valid s \<Longrightarrow> crashed s'"
proof (induction n arbitrary: s)
  case 0
  then show ?case by simp
next
  case (Suc n)
  then obtain tm where tm: "thread_memory_of s t = Some tm" by (auto simp: bind_eq_Some_conv)
  with Suc.prems obtain cur rest where fb: "tm_flushBuffer tm = cur # rest"
    by (cases "tm_flushBuffer tm") auto
  with Suc.prems tm obtain s1 crash s2 where s1: "upd_memory t (\<lambda>tm. tm\<lparr>tm_flushBuffer := rest\<rparr>) s = Some s1"
    and ev: "evictCacheOp cur s1 = Some (crash, s2)"
    and rest: "if crash then s' = s2 else \<exists>s3. dec_flushcount t s2 = Some s3 \<and> flush_loop n t s3 = Some (True, s')"
    by (auto simp: bind_eq_Some_conv split: if_split_asm)
  have v1: "valid s1" using upd_memory_spec [OF s1 Suc.prems(2)] core_valid Suc.prems(2) by blast
  show ?case
  proof (cases crash)
    case True
    with evictCacheOp_crash [of cur s1 s2] ev v1 rest show ?thesis by (simp add: crashed_def)
  next
    case False
    with rest obtain s3 where s3: "dec_flushcount t s2 = Some s3" "flush_loop n t s3 = Some (True, s')" by auto
    have "outer s2 = outer s1"
      using yieldsD [OF outer.evictCacheOp_keeps [where Q = "\<lambda>r. outer (snd r) = outer s1"] ev] by simp
    then have "valid s2" using outer_fields(7) v1 by blast
    then have "valid s3" using dec_flushcount_spec [OF s3(1)] core_valid by blast
    with Suc.IH s3 show ?thesis by blast
  qed
qed

lemma emptyFlushBuffer_crash: "emptyFlushBuffer t s = Some (True, s') \<Longrightarrow> valid s \<Longrightarrow> crashed s'"
  by (auto simp: emptyFlushBuffer_def bind_eq_Some_conv dest: flush_loop_crash)

lemma evictOp_crash:
  assumes "evictOpFromStoreBuffer t a s = Some (True, s')" "valid s"
  shows "crashed s'"
proof -
  from assms(1) have "evictCacheOp a s = Some (True, s') \<or> emptyFlushBuffer t s = Some (True, s')"
    unfolding evictOpFromStoreBuffer_def Let_def
    by (auto simp: bind_eq_Some_conv split: if_split_asm)
  then show ?thesis
    using evictCacheOp_crash [of a s s'] emptyFlushBuffer_crash assms(2) by (auto simp: crashed_def)
qed

context buffer_frame
begin

lemma evictOp_kept:
  assumes "evictOpFromStoreBuffer t a s = Some (c, s')"
  shows "obs s' = obs s"
  using yieldsD [OF evictOpFromStoreBuffer_keeps [where Q = "\<lambda>r. obs (snd r) = obs s"] assms] by simp

lemma emptyStoreBuffer_kept:
  assumes "emptyStoreBuffer t s = Some (c, s')"
  shows "obs s' = obs s"
  using yieldsD [OF emptyStoreBuffer_keeps [where Q = "\<lambda>r. obs (snd r) = obs s"] assms] by simp

end

lemma store_loop_crash:
  "store_loop n k t s = Some (True, s') \<Longrightarrow> valid s \<Longrightarrow> crashed s'"
proof (induction n arbitrary: s k)
  case 0
  then show ?case by simp
next
  case (Suc n)
  then obtain tm where tm: "thread_memory_of s t = Some tm" by (auto simp: bind_eq_Some_conv)
  with Suc.prems obtain cur rest where sb: "tm_storeBuffer tm = cur # rest"
    by (cases "tm_storeBuffer tm") auto
  with Suc.prems tm obtain s1 crash s2 where s1: "upd_memory t (\<lambda>tm. tm\<lparr>tm_storeBuffer := rest\<rparr>) s = Some s1"
    and ev: "evictOpFromStoreBuffer t cur s1 = Some (crash, s2)"
    and rest: "if crash then s' = updateStoreBuffer (- (k + 1)) s2 else store_loop n (k + 1) t s2 = Some (True, s')"
    by (auto simp: bind_eq_Some_conv split: if_split_asm)
  have v1: "valid s1" using upd_memory_spec [OF s1 Suc.prems(2)] core_valid Suc.prems(2) by blast
  have v2: "valid s2" using outer.evictOp_kept [OF ev] outer_fields(7) v1 by blast
  show ?case
  proof (cases crash)
    case True
    with ev have "evictOpFromStoreBuffer t cur s1 = Some (True, s2)" by simp
    then have "crashed s2" using v1 by (rule evictOp_crash)
    with True rest updateStoreBuffer_spec(1) [OF v2] show ?thesis by (simp add: crashed_def core_def)
  next
    case False
    with rest Suc.IH v2 show ?thesis by simp
  qed
qed

lemma drain_crash:
  assumes "drain t s = Some (True, s')" "valid s"
  shows "crashed s'"
proof -
  from assms(1) obtain c s1 where e: "emptyStoreBuffer t s = Some (c, s1)"
    and r: "if c then s' = s1 else emptyFlushBuffer t s1 = Some (True, s')"
    by (auto simp: drain_def bind_eq_Some_conv split: if_split_asm)
  show ?thesis
  proof (cases c)
    case True
    with e r assms(2) show ?thesis
      by (auto simp: emptyStoreBuffer_def bind_eq_Some_conv dest: store_loop_crash)
  next
    case False
    have "valid s1" using outer.emptyStoreBuffer_kept [OF e] outer_fields(7) assms(2) by blast
    with False r emptyFlushBuffer_crash show ?thesis by simp
  qed
qed

lemma drain_empties:
  assumes "drain t s = Some (False, s')" "valid s" "thread_memory_of s t = Some tm" "buffers_ok s tm"
    "unat (used s) + length (tm_storeBuffer tm) + length (tm_flushBuffer tm) < 2 ^ 32"
  shows "map_option (\<lambda>tm. (tm_storeBuffer tm, tm_flushBuffer tm)) (thread_memory_of s' t) = Some ([], [])"
proof -
  from assms(1) obtain s1 where e: "emptyStoreBuffer t s = Some (False, s1)" and f: "emptyFlushBuffer t s1 = Some (False, s')"
    by (auto simp: drain_def bind_eq_Some_conv split: if_split_asm)
  have "store_loop (length (tm_storeBuffer tm)) 0 t s = Some (False, s1)"
    using e assms(3) by (simp add: emptyStoreBuffer_def)
  from store_loop_spec [OF this assms(2,3) order_refl assms(4,5)]
  obtain tm1 where tm1: "thread_memory_of s1 t = Some tm1" "tm_storeBuffer tm1 = []" "buffers_ok s1 tm1" by blast
  have v1: "valid s1" using outer.emptyStoreBuffer_kept [OF e] outer_fields(7) assms(2) by blast
  have "flush_loop (length (tm_flushBuffer tm1)) t s1 = Some (False, s')"
    using f tm1 by (simp add: emptyFlushBuffer_def)
  moreover have "\<forall>f \<in> set (tm_flushBuffer tm1). f < length (ck_acts s1) \<and> \<not> is_clflush (act s1 f)"
    using tm1(3) by (auto simp: buffers_ok_def is_flushopt_def)
  ultimately obtain tm' where "thread_memory_of s' t = Some tm'" "tm_flushBuffer tm' = []"
    "tm_storeBuffer tm' = tm_storeBuffer tm1"
    using flush_loop_spec [OF _ v1 tm1(1) order_refl] by blast
  with tm1 show ?thesis by simp
qed

text \<open>
  C18: A memory fence or a locked operation is performed only when the store buffer and the
  flush buffer of its thread are empty; when a crash stops the draining the operation is not
  performed at all.
\<close>
theorem fence_waits_for_buffers:
  assumes "begin_action cur s = Some (Some c, s')" "is_locked_operation (act s cur) \<or> is_mfence (act s cur)"
    "valid s" "cur < length (ck_acts s)" "thread_memory_of s (act_tid (act s cur)) = Some tm" "buffers_ok s tm"
    "unat (used s) + length (tm_storeBuffer tm) + length (tm_flushBuffer tm) < 2 ^ 32"
  shows "c = cur \<and> map_option (\<lambda>tm. (tm_storeBuffer tm, tm_flushBuffer tm))
    (thread_memory_of s' (act_tid (act s cur))) = Some ([], [])"
proof -
  let ?t = "act_tid (act s cur)"
  have k: "\<not> is_rmw_cas_fail (act s cur)" "\<not> is_rmw (act s cur)" "\<not> is_read (act s cur)"
    using assms(2) by (auto simp: kind_defs split: action_type.splits)
  from assms(1) k obtain p where p: "get_parent_action ?t s = Some p"
    by (cases "get_parent_action ?t s") (simp_all add: begin_action_def Let_def)
  from assms(1) k p obtain m where m: "merge_cv_parent (act s cur) (map_option (act s) p) = Some m"
    by (cases "merge_cv_parent (act s cur) (map_option (act s) p)") (simp_all add: begin_action_def Let_def)
  have body: "if is_locked_operation (act s cur)
      then (do { (crash, s1) \<leftarrow> drain ?t (upd_act cur (\<lambda>_. m) s);
         if crash then Some (None, s1)
         else do { s2 \<leftarrow> initialize_curr_action cur s1; Some (Some cur, s2) } }) = Some (Some c, s')
      else (do { s1 \<leftarrow> process_memory_fence cur (upd_act cur (\<lambda>_. m) s);
         if crashed s1 then Some (None, s1)
         else do { s2 \<leftarrow> initialize_curr_action cur s1; Some (Some cur, s2) } }) = Some (Some c, s')"
    using assms(1,2) k p m by (simp add: begin_action_def Let_def split: if_split_asm)
  let ?s0 = "upd_act cur (\<lambda>_. m) s"
  have sk: "same_kind (act s cur) m" using stamp_kind(2) [OF m] .
  have a0: "act ?s0 cur = m" using assms(4) by (simp add: act_upd_act)
  have v0: "valid ?s0" using assms(3) by (simp add: frame_simps)
  have tm0: "thread_memory_of ?s0 ?t = Some tm" using assms(5) by (simp add: thread_memory_upd_act)
  have b0: "buffers_ok ?s0 tm"
    using assms(4,6) sk by (auto simp: buffers_ok_def act_upd_act is_flushopt_def kind_defs length_acts_upd_act)
  have u0: "unat (used ?s0) + length (tm_storeBuffer tm) + length (tm_flushBuffer tm) < 2 ^ 32"
    using assms(7) by (simp add: used_def frame_simps)
  have "\<exists>s1 s2. drain ?t ?s0 = Some (False, s1) \<and> c = cur \<and>
      (s2 = s1 \<or> set_return_value ?t VALUE_NONE s1 = Some s2) \<and> initialize_curr_action cur s2 = Some s'"
  proof (cases "is_locked_operation (act s cur)")
    case True
    with body show ?thesis by (auto simp: bind_eq_Some_conv split: if_split_asm)
  next
    case False
    with body obtain s2 where pf: "process_memory_fence cur ?s0 = Some s2" and nc: "\<not> crashed s2"
      and i: "initialize_curr_action cur s2 = Some s'" and c: "c = cur"
      by (auto simp: bind_eq_Some_conv split: if_split_asm)
    from pf obtain crash s1 where d: "drain ?t ?s0 = Some (crash, s1)"
      and r: "if crash then s2 = s1 else set_return_value (act_tid (act s1 cur)) VALUE_NONE s1 = Some s2"
      using a0 sk by (auto simp: process_memory_fence_def bind_eq_Some_conv split: if_split_asm)
    have ncr: "\<not> crash" using drain_crash [of ?t ?s0 s1] d r nc v0 by auto
    have "act_tid (act s1 cur) = ?t"
      using kinds_act_eq(1) [of s1 ?s0 cur] kinds.drain_kept [OF d] assms(4) a0 sk by (simp add: length_acts_upd_act)
    with ncr d r i c show ?thesis by auto
  qed
  then obtain s1 s2 where d: "drain ?t ?s0 = Some (False, s1)" and c: "c = cur"
    and s2: "s2 = s1 \<or> set_return_value ?t VALUE_NONE s1 = Some s2" and i: "initialize_curr_action cur s2 = Some s'"
    by blast
  note e = drain_empties [OF d v0 tm0 b0 u0]
  have v1: "valid s1" using outer.drain_kept [OF d] outer_fields(7) v0 by blast
  have v2: "valid s2" using s2 outer.set_return_value_kept outer_fields(7) v1 by blast
  have l2: "cur < length (ck_acts s2)"
    using s2 kinds.drain_kept [OF d] kinds.set_return_value_kept [of ?t VALUE_NONE s1 s2] assms(4)
      kinds_act_eq(2) [of s2 ?s0 cur] by (auto simp: length_acts_upd_act)
  have t2: "thread_memory_of s2 u = thread_memory_of s1 u" for u
    using s2 v1 by (auto simp: set_return_value_def upd_thread_def bind_eq_Some_conv thread_memory_of_def frame_simps)
  have "keeps s2 s'" using initialize_spec [OF i v2 l2] by blast
  then have "thread_memory_of s' ?t = thread_memory_of s2 ?t" by (simp add: keeps_def)
  with c e t2 show ?thesis by simp
qed

definition demo_fence :: model_action where
  "demo_fence = (demo_store 0x1000 0)\<lparr>act_type := CACHE_MFENCE\<rparr>"

theorem fence_waits_for_buffers_witness:
  "\<exists>s'. begin_action 2 (demo_checker [demo_store 0x1000 5, demo_flush 0x1000, demo_fence] [0, 1] []) = Some (Some 2, s') \<and>
    map_option (\<lambda>tm. (tm_storeBuffer tm, tm_flushBuffer tm)) (thread_memory_of s' 1) = Some ([], [])"
proof -
  let ?s = "demo_checker [demo_store 0x1000 5, demo_flush 0x1000, demo_fence] [0, 1] []"
  have "map_option fst (begin_action 2 ?s) = Some (Some 2)" by code_simp
  then obtain s' where s': "begin_action 2 ?s = Some (Some 2, s')" by auto
  have b: "buffers_ok ?s (ThreadMemory\<lparr>tm_storeBuffer := [0, 1], tm_flushBuffer := []\<rparr>)"
    by (simp add: buffers_ok_def demo_act)
  have f: "is_mfence (act ?s 2)" "act_tid (act ?s 2) = 1" by code_simp+
  have "thread_memory_of ?s (act_tid (act ?s 2)) = Some (ThreadMemory\<lparr>tm_storeBuffer := [0, 1], tm_flushBuffer := []\<rparr>)"
    by (simp only: f demo_memory)
  from fence_waits_for_buffers [OF s' disjI2 [OF f(1)] demo_valid _ this b] s' f show ?thesis
    by (simp add: demo_used demo_act)
qed

end
