(* ===== verification/Thread_Table.thy ===== *)
theory Thread_Table
  imports Sync_Steps
begin

text \<open>
  The table of threads stays well formed: thread \<open>t\<close> is at place \<open>t\<close>, and the threads are
  those numbered below \<^verbatim>\<open>next_thread_id\<close>.  Every step keeps this.
\<close>

section \<open>The invariant\<close>

definition table_ok :: "checker \<Rightarrow> bool" where
  "table_ok s \<longleftrightarrow> valid s \<and>
     (\<forall>t. map_option th_id (get_thread s t) = (if t < get_num_threads s then Some t else None))"

definition table :: "checker \<Rightarrow> nat \<times> nat \<times> tid option list \<times> nat" where
  "table s = (ck_cur s, length (ck_execs s), ids s)"

lemma table_ok_table: "table s' = table s \<Longrightarrow> table_ok s' = table_ok s"
  by (simp add: table_ok_def table_def get_thread_id valid_def) (simp add: ids_def)

lemma table_ok_keep: "table_ok s \<Longrightarrow> table s' = table s \<Longrightarrow> table_ok s'"
  using table_ok_table by blast

lemma table_outer: "outer s' = outer s \<Longrightarrow> ids s' = ids s \<Longrightarrow> table s' = table s"
  by (simp add: table_def outer_def)

interpretation table: load_frame table
proof unfold_locales
  show "table (upd_exec e f s) = table s"
    if "ex_thread_map (f (exec_of s e)) = ex_thread_map (exec_of s e)"
      "ex_next_thread_id (f (exec_of s e)) = ex_next_thread_id (exec_of s e)" for f s e
    using that by (intro table_outer) simp_all
  show "table (put_thread t th' s) = table s" if "get_thread s t = Some th" "th_id th' = th_id th" for s t th th'
    using that by (intro table_outer) (simp_all add: ids_put)
qed (auto intro!: table_outer)

section \<open>New threads\<close>

lemma get_num_threads_upd: "valid s \<Longrightarrow> get_num_threads (upd_cur f s) = ex_next_thread_id (f (cur_exec s))"
  by (simp add: get_num_threads_def frame_simps)

lemma add_thread_table:
  assumes "table_ok s" "th_id th = get_num_threads s"
    "add_thread th (snd (get_next_id s)) = Some s'"
  shows "table_ok s'"
proof -
  let ?n = "get_num_threads s"
  define s1 where "s1 = snd (get_next_id s)"
  have v: "valid s" using assms(1) by (simp add: table_ok_def)
  have v1: "valid s1" using v by (simp add: s1_def get_next_id_def frame_simps)
  define s2 where "s2 = upd_cur (\<lambda>x. x\<lparr>ex_thread_map := (grow None (?n + 1) (ex_thread_map x))[?n := Some th]\<rparr>) s1"
  have v2: "valid s2" using v1 by (simp add: s2_def frame_simps)
  have "table s' = table s2"
    using assms(2,3) unfolding s1_def [symmetric] s2_def [symmetric]
    by (auto simp: add_thread_def s2_def sched_add_thread_def Let_def split: if_split_asm intro!: table_outer)
  moreover have "table_ok s2"
  proof -
    have m1: "ex_thread_map (cur_exec s1) = ex_thread_map (cur_exec s)"
      using v by (simp add: s1_def get_next_id_def frame_simps)
    have n1: "ex_next_thread_id (cur_exec s1) = ?n + 1"
      using v by (simp add: s1_def get_next_id_def frame_simps get_num_threads_def)
    have "get_thread s2 t = (if t = ?n then Some th else get_thread s t)" for t
      using v1 m1 by (auto simp: s2_def get_thread_def frame_simps grow_nth nth_list_update less_Suc_eq max_def)
    moreover have "get_num_threads s2 = ?n + 1" using v1 n1 by (simp add: s2_def get_num_threads_upd)
    moreover have "map_option th_id (get_thread s t) = (if t < ?n then Some t else None)" for t
      using assms(1) unfolding table_ok_def by blast
    ultimately show ?thesis using v2 assms(2) by (simp add: table_ok_def less_Suc_eq del: map_option_eq_Some)
  qed
  ultimately show ?thesis using table_ok_table by blast
qed

lemma create_thread_table:
  assumes "table_ok s" "\<And>r. table_ok (snd r) \<Longrightarrow> Q r"
  shows "yields (create_thread cur s) Q"
proof -
  let ?n = "get_num_threads s"
  let ?s1 = "snd (get_next_id s)"
  let ?th = "UserThread ?n (map_option th_id (get_thread ?s1 (act_tid (act ?s1 cur))))"
  let ?u = "upd_act cur (\<lambda>m. m\<lparr>act_thread_operand := Some ?n\<rparr>)"
  have add: "table_ok s3" if "add_thread ?th (?u ?s1) = Some s3" for s3
  proof -
    have "table_ok (?u s)" using assms(1) by (rule table_ok_keep) simp
    moreover have "?u ?s1 = snd (get_next_id (?u s))"
      by (simp add: get_next_id_def upd_act_def upd_cur_def upd_exec_def act_def exec_of_def)
    ultimately show ?thesis
      using that add_thread_table [of "?u s" ?th s3]
      by (simp add: UserThread_def) (simp add: get_num_threads_def frame_simps)
  qed
  have up: "table_ok s4" if "upd_thread ?n (\<lambda>th. th\<lparr>th_creation := Some cur\<rparr>) s3 = Some s4" "table_ok s3" for s3 s4
  proof (rule table_ok_keep [OF that(2)])
    show "table s4 = table s3"
      using yieldsD [OF table.upd_thread_keeps [where Q = "\<lambda>x. table x = table s3"] that(1)] by simp
  qed
  have "fst (get_next_id s) = ?n" by (simp add: get_next_id_def get_num_threads_def)
  then have "yields (create_thread cur s) Q = yields (add_thread ?th (?u ?s1)) (\<lambda>s3.
      yields (upd_thread ?n (\<lambda>th. th\<lparr>th_creation := Some cur\<rparr>) s3) (\<lambda>s4. Q (?n, s4)))"
    by (simp add: create_thread_def Let_def split_beta)
  also have "\<dots>" unfolding yields_def using add up assms(2) by simp
  finally show ?thesis by simp
qed

lemma process_thread_action_table:
  assumes "table_ok s" "\<And>s'. table_ok s' \<Longrightarrow> Q s'"
  shows "yields (process_thread_action cur s) Q"
proof -
  have k: "table s' = table s \<Longrightarrow> Q s'" for s' using assms table_ok_keep by blast
  have c: "table_ok (upd_cur (\<lambda>x. x\<lparr>ex_pthread_counter := n\<rparr>) (s\<lparr>ck_mem := m\<rparr>))" for n m
  proof (rule table_ok_keep [OF assms(1)])
    have "table (s\<lparr>ck_mem := m\<rparr>) = table s"
      by (simp add: table_def ids_def get_num_threads_def cur_exec_def exec_of_def)
    then show "table (upd_cur (\<lambda>x. x\<lparr>ex_pthread_counter := n\<rparr>) (s\<lparr>ck_mem := m\<rparr>)) = table s" by simp
  qed
  have u2: "table_ok s' \<Longrightarrow> Q (upd_cur (\<lambda>x. x\<lparr>ex_pthread_map := h x\<rparr>) s')" for s' h
    by (rule assms(2), erule table_ok_keep) simp
  show ?thesis
    unfolding process_thread_action_def Let_def split_beta
    using assms k
    by (auto intro!: reading create_thread_table [OF assms(1)] create_thread_table [OF c] u2
        table.synchronize_keeps table.complete_thread_keeps table.wake_joiners_keeps table.upd_thread_keeps)
qed

section \<open>The step\<close>

definition well_formed_table :: "nat \<times> nat \<times> tid option list \<times> nat \<Rightarrow> bool" where
  "well_formed_table w = (case w of (c, n, is, k) \<Rightarrow>
     c < n \<and> (\<forall>t. (if t < length is then is ! t else None) = (if t < k then Some t else None)))"

lemma table_ok_via: "table_ok s = well_formed_table (table s)"
  unfolding table_ok_def well_formed_table_def table_def get_thread_id valid_def ids_def by simp

lemma table_set_locked [simp]: "table (set_locked m own s) = table s"
  by (simp add: table_def set_locked_def ids_def get_num_threads_def cur_exec_def exec_of_def)

lemma table_selectNotify [simp]: "table (snd (snd (selectNotify ws s))) = table s"
  by (simp add: selectNotify_def Let_def split_beta)

lemma acquire_release_table:
  "(\<And>r. table (snd r) = table s \<Longrightarrow> Q r) \<Longrightarrow> yields (acquire a s) Q"
  "(\<And>r. table (snd r) = table s \<Longrightarrow> Q r) \<Longrightarrow> yields (release a s) Q"
  by (auto simp: acquire_def release_def Let_def split_beta intro!: reading table.synchronize_keeps
      table.wake_lock_waiters_keeps split: option.split)

lemma process_mutex_table:
  "(\<And>r. table (snd r) = table s \<Longrightarrow> Q r) \<Longrightarrow> yields (process_mutex a s) Q"
  unfolding process_mutex_def Let_def split_beta
  by (auto intro!: reading acquire_release_table table.set_return_value_keeps table.wake_all_keeps
      table.wake_keeps table.sleep_keeps split: action_type.split)

lemma yields_bindI: "yields m P \<Longrightarrow> (\<And>x. P x \<Longrightarrow> yields (f x) Q) \<Longrightarrow> yields (Option.bind m f) Q"
  by (cases m) (auto simp: yields_def)

lemma yields_if: "(c \<Longrightarrow> yields a Q) \<Longrightarrow> (\<not> c \<Longrightarrow> yields b Q) \<Longrightarrow> yields (if c then a else b) Q"
  by simp

lemma finish_action_table:
  assumes "table_ok s"
  shows "yields (finish_action cur b s) (\<lambda>r. table_ok (snd r))"
  unfolding finish_action_def Let_def
proof (rule yields_bindI)
  show "yields (if \<not> is_write (act s cur) \<and> \<not> is_sfence (act s cur) \<and> \<not> is_cache_op (act s cur) \<and> \<not> b
      then do {
        s' \<leftarrow> (if \<not> is_sleep (act s cur) then update_thread_local_data cur s else Some s);
        wake_up_sleeping_actions cur s'
      } else Some s) table_ok"
    using assms by (auto simp: table_ok_via intro!: table.update_thread_local_data_keeps
        table.wake_up_sleeping_actions_keeps)
next
  fix s1 assume s1: "table_ok s1"
  show "yields (do {
      s2 \<leftarrow> process_thread_action cur s1;
      if is_write (act s2 cur) then do {
        s3 \<leftarrow> process_write cur s2;
        if crashed s3 then Some (None, s3)
        else if is_seqcst (act s3 cur) then do {
          (crash, s4) \<leftarrow> drain (act_tid (act s3 cur)) s3;
          if crash then Some (None, s4)
          else Some (Some cur, if is_fence (act s4 cur) then emit (Fence (ck_cur s4) cur (act s4 cur)) s4 else s4)
        } else Some (Some cur, if is_fence (act s3 cur) then emit (Fence (ck_cur s3) cur (act s3 cur)) s3 else s3)
      }
      else if is_cache_op (act s2 cur) then do {
        s3 \<leftarrow> process_cache_op cur s2;
        Some (Some cur, if is_fence (act s3 cur) then emit (Fence (ck_cur s3) cur (act s3 cur)) s3 else s3) }
      else if is_mutex_op (act s2 cur) then do {
        (r, s3) \<leftarrow> process_mutex cur s2;
        Some (Some cur, if is_fence (act s3 cur) then emit (Fence (ck_cur s3) cur (act s3 cur)) s3 else s3) }
      else if is_exit (act s2 cur)
        then Some (Some cur, if is_fence (act (setFinished s2) cur)
          then emit (Fence (ck_cur (setFinished s2)) cur (act (setFinished s2) cur)) (setFinished s2) else setFinished s2)
      else Some (Some cur, if is_fence (act s2 cur) then emit (Fence (ck_cur s2) cur (act s2 cur)) s2 else s2)
    }) (\<lambda>r. table_ok (snd r))"
    (is "yields (Option.bind _ ?rest) ?ok")
  proof (rule yields_bindI)
    show "yields (process_thread_action cur s1) table_ok"
      using s1 by (rule process_thread_action_table)
  next
    fix s2 assume s2: "table_ok s2"
    show "yields (?rest s2) ?ok"
      by (intro yields_if)
         (use s2 in \<open>auto simp: table_ok_via split_beta intro!: table.process_write_keeps table.drain_keeps
            table.process_cache_op_keeps process_mutex_table\<close>)
  qed
qed

text \<open>
  C14: The table of threads stays well formed: after any step of the execution thread \<open>t\<close> is
  at place \<open>t\<close> of the table, for exactly the numbers below the next free one, and the
  current execution exists.
\<close>
theorem step_keeps_thread_table:
  assumes "take_step cur s = Some (r, s')" "table_ok s"
  shows "table_ok s'"
proof -
  from assms(1) obtain c s1 where chk: "check_current_action cur s = Some (c, s1)"
    and s': "table s' = table s1"
  proof (rule take_stepE)
    fix th c s1
    assume a: "check_current_action cur s = Some (c, s1)"
      "crashed s1 \<longrightarrow> r = None \<and> s' = emit (Crash (ck_cur s1)) s1"
      "\<not> crashed s1 \<longrightarrow> c \<noteq> None \<and> s' \<in> {s1, remove_thread (act_tid (act s cur)) s1}"
    then have "table s' = table s1" by (cases "crashed s1") auto
    with a(1) show thesis by (rule that)
  qed
  have "yields (check_current_action cur s) (\<lambda>r. table_ok (snd r))"
    unfolding check_current_action_def
    using assms(2)
    by (auto simp: table_ok_via split_beta intro!: table.begin_action_keeps finish_action_table [unfolded table_ok_via]
        split: option.split)
  from yieldsD [OF this chk] s' show ?thesis by (simp add: table_ok_via)
qed

lemma demo_table_ok: "table_ok (demo_checker acts sb fb)"
  by (auto simp: table_ok_via well_formed_table_def table_def ids_def demo_checker_def demo_exec_def cur_exec_def
      exec_of_def get_num_threads_def ModelThread_def UserThread_def less_Suc_eq numeral_2_eq_2)

theorem step_keeps_thread_table_witness:
  "\<exists>r s'. take_step 0 (demo_checker [(lock_action 0x10 1)\<lparr>act_type := PTHREAD_CREATE\<rparr>] [] []) = Some (r, s') \<and>
     table_ok s'"
proof -
  let ?s = "demo_checker [(lock_action 0x10 1)\<lparr>act_type := PTHREAD_CREATE\<rparr>] [] []"
  have "take_step 0 ?s \<noteq> None" by code_simp
  then obtain r s' where "take_step 0 ?s = Some (r, s')" by auto
  with step_keeps_thread_table [OF this demo_table_ok] show ?thesis by blast
qed

end
