(* ===== verification/Checker.thy ===== *)
theory Checker
  imports Steps
begin

text \<open>
  \<^verbatim>\<open>Model/model.cc\<close>: the driver.  A user thread hands its next action to
  \<^verbatim>\<open>switch_thread\<close>; the checker stashes one pending action per thread, picks a thread and
  performs its action, until control goes back to a user thread, a crash restarts the
  program after it, or the execution ends and the next one begins.
\<close>

section \<open>Outcomes\<close>

text \<open>
  Where control goes: to a user thread, or back to the snapshot, by \<^verbatim>\<open>doCrash\<close> or
  \<^verbatim>\<open>finishRunExecution\<close>, or to the end of the checker.
\<close>

datatype outcome =
    RunThread tid checker
  | Restart checker
  | Exit checker

text \<open>
  What \<^verbatim>\<open>snapshot_roll_back\<close> brings back: everything outside the memory that the
  processes share, which is the persistent region and the checker's own heap; in random
  mode the state of the random generator is on that heap, too.
\<close>

record snapshot =
  sn_sched :: scheduler
  sn_mutexes :: "addr \<Rightarrow> mutex_state"
  sn_mem :: "addr \<Rightarrow> u8"
  sn_alt_region :: "(addr \<times> u64) option"
  sn_init_thread :: thread_obj
  sn_random_pos :: nat

definition reset_to_initial_state :: "snapshot \<Rightarrow> checker \<Rightarrow> checker" where
  "reset_to_initial_state sn s =
     s\<lparr>ck_sched := sn_sched sn, ck_mutexes := sn_mutexes sn,
       ck_mem := (\<lambda>a. if in_region (fst (ck_pmem s)) a then ck_mem s a else sn_mem sn a),
       ck_pmem := (fst (ck_pmem s), sn_alt_region sn),
       ck_random_pos := (if isRandomExecutionEnabled s then ck_random_pos s else sn_random_pos sn)\<rparr>"

section \<open>Regions\<close>

definition getRegion :: "nat \<Rightarrow> checker \<Rightarrow> addr option" where
  "getRegion ID s = (if ID \<ge> length (ck_regionID s) then None else ck_regionID s ! ID)"

definition setRegion :: "nat \<Rightarrow> addr option \<Rightarrow> checker \<Rightarrow> checker" where
  "setRegion ID ptr s = s\<lparr>ck_regionID := (grow None (ID + 1) (ck_regionID s))[ID := ptr]\<rparr>"

definition getNextRegionID :: "checker \<Rightarrow> nat" where
  "getNextRegionID s = length (ck_regionID s) + 1"

definition setRegionFromID :: "nat \<Rightarrow> addr option \<Rightarrow> checker \<Rightarrow> checker option" where
  "setRegionFromID ID ptr s = makeExecutionPersistent (setRegion ID ptr s)"

section \<open>A new execution\<close>

definition ModelExecution :: execution where
  "ModelExecution = \<lparr>ex_thread_map = [Some (ModelThread 0), None], ex_pthread_map = [],
     ex_pthread_counter = 2, ex_storebufferusage = 0, ex_action_trace = [], ex_obj_map = (\<lambda>_. None),
     ex_condvar_waiters_map = (\<lambda>_. None), ex_obj_wr_map = (\<lambda>_. None), ex_thrd_last_action = [None],
     ex_obj_to_cacheline = (\<lambda>_. None), ex_next_thread_id = 1, ex_used_sequence_numbers = 0,
     ex_bugs = [], ex_warnings = [], ex_asserted = False, ex_isfinished = False, ex_hasCrashed = False,
     ex_noWriteSinceCrashCheck = False, ex_enableCrash = True\<rparr>"

text \<open>
  \<^verbatim>\<open>startChecker\<close> after a roll-back, up to the first action of the initial thread.
\<close>

definition startChecker :: "snapshot \<Rightarrow> checker \<Rightarrow> checker option" where
  "startChecker sn s = do {
     let e = length (ck_execs s);
     let s1 = s\<lparr>ck_execs := ck_execs s @ [ModelExecution], ck_cur := e\<rparr>;
     let (i, s2) = get_next_id s1;
     s3 \<leftarrow> add_thread (sn_init_thread sn) s2;
     let s4 = s3\<lparr>ck_curr_thread_num := 1\<rparr>;
     let s5 = (if ck_prev s4 = [] then s4\<lparr>ck_orig := e, ck_regionID := [], ck_numcrashes := 0\<rparr>
       else
         (let s' = (case ck_replaystack s4 of
                [] \<Rightarrow> s4\<lparr>ck_nodestack := NodeStack\<rparr>
              | ns # rest \<Rightarrow> s4\<lparr>ck_nodestack := (if rest \<noteq> [] then repeat_prev_execution ns else ns),
                               ck_replaystack := rest\<rparr>)
          in s'\<lparr>ck_numcrashes := ck_numcrashes s' + 1\<rparr>));
     Some (upd_cur (\<lambda>x. x\<lparr>ex_enableCrash := p_enableCrash (ck_params s5)\<rparr>) s5)
   }"

section \<open>Crashing\<close>

fun free_thread_buffers :: "tid list \<Rightarrow> checker \<Rightarrow> checker option" where
  "free_thread_buffers [] s = Some s"
| "free_thread_buffers (t # ts) s = do { s1 \<leftarrow> freeActions t s; free_thread_buffers ts s1 }"

definition clearPreRollback :: "checker \<Rightarrow> checker option" where
  "clearPreRollback s = free_thread_buffers [0..<get_num_threads s] s"

definition doCrash :: "snapshot \<Rightarrow> checker \<Rightarrow> checker option" where
  "doCrash sn s = do {
     let s1 = s\<lparr>ck_prev := (ck_cur s, ck_nodestack s) # ck_prev s\<rparr>;
     s2 \<leftarrow> clearPreRollback s1;
     let s3 = s2\<lparr>ck_races := resetRaceDetector False (ck_races s2)\<rparr>;
     Some (reset_to_initial_state sn s3)
   }"

section \<open>The end of an execution\<close>

text \<open>
  Executions whose stack of decisions is used up are given up, back to the last one that
  has another choice; \<open>False\<close> when there is none.
\<close>

definition free_execution :: "eid \<Rightarrow> checker \<Rightarrow> checker" where
  "free_execution e s = emit (FreeExecution e) s"

function unwind :: "checker \<Rightarrow> (bool \<times> checker) option" where
  "unwind s =
     (if has_another_execution (ck_nodestack s) then Some (True, s)
      else (case ck_prev s of
          [] \<Rightarrow> Some (isRandomExecutionEnabled s \<and>
                      p_randomExecution (ck_params s) mod 2 ^ 32 \<ge> int (ck_execution_number s), s)
        | (e, ns) # rest \<Rightarrow>
            (case clearPreRollback s of
               None \<Rightarrow> None
             | Some s1 \<Rightarrow> unwind ((free_execution (ck_cur s1) s1)
                 \<lparr>ck_cur := e, ck_nodestack := ns, ck_prev := rest\<rparr>))))"
  by pat_completeness auto
termination
  by (relation "measure (\<lambda>s. length (ck_prev s))") auto

text \<open>
  Then back to the original execution; the stacks on the way are kept for the replay, the
  one of the execution nearest to the original first.
\<close>

fun rewind :: "(eid \<times> node_stack) list \<Rightarrow> checker \<Rightarrow> checker" where
  "rewind [] s = s\<lparr>ck_prev := []\<rparr>"
| "rewind ((e, ns) # rest) s =
     rewind rest ((free_execution (ck_cur s) s)
       \<lparr>ck_replaystack := reset_execution (ck_nodestack s) # ck_replaystack s,
        ck_cur := e, ck_nodestack := ns\<rparr>)"

definition finish_execution :: "snapshot \<Rightarrow> checker \<Rightarrow> (bool \<times> checker) option" where
  "finish_execution sn s = do {
     let complete = is_complete_execution s \<or> have_bug_reports s;
     dead \<leftarrow> (if complete then is_deadlocked s else Some False);
     let s1 = (if dead then assert_bug ''Deadlock detected'' s else s);
     let s2 = s1\<lparr>ck_execution_number := ck_execution_number s1 + 1\<rparr>;
     (more, s3) \<leftarrow> unwind s2;
     if \<not> more then Some (False, s3)
     else do {
       let s4 = rewind (ck_prev s3) s3;
       let ns = reset_execution (ck_nodestack s4);
       if p_randomExecution (ck_params s4) \<ge> 0 \<and> ck_replaystack s4 \<noteq> [] then None
       else do {
         let ns' = (if ck_replaystack s4 \<noteq> [] then repeat_prev_execution ns else ns);
         let s5 = (free_execution (ck_cur s4) s4)\<lparr>ck_nodestack := ns',
                     ck_races := resetRaceDetector True (ck_races s4)\<rparr>;
         Some (True, reset_to_initial_state sn s5)
       }
     }
   }"

definition finishRunExecution :: "snapshot \<Rightarrow> checker \<Rightarrow> outcome option" where
  "finishRunExecution sn s = do {
     s1 \<leftarrow> set_current_thread None s;
     (more, s2) \<leftarrow> finish_execution sn (s1\<lparr>ck_curr_thread_num := 1\<rparr>);
     if more then do { s3 \<leftarrow> startChecker sn s2; Some (Restart s3) } else Some (Exit s2)
   }"

definition crash_and_restart :: "snapshot \<Rightarrow> checker \<Rightarrow> outcome option" where
  "crash_and_restart sn s = do { s1 \<leftarrow> doCrash sn s; s2 \<leftarrow> startChecker sn s1; Some (Restart s2) }"

section \<open>Picking the next action\<close>

definition chooseThread :: "aid option \<Rightarrow> tid \<Rightarrow> checker \<Rightarrow> checker option" where
  "chooseThread a t s = do {
     th \<leftarrow> get_thread s t;
     Some (case a of
       None \<Rightarrow> s
     | Some p \<Rightarrow>
         if \<not> ck_thread_chosen s \<and> thread_enabled s t \<and> th_state th \<noteq> THREAD_BLOCKED \<and>
            (act_type (act s p) = THREAD_CREATE \<or> act_type (act s p) = PTHREAD_CREATE \<or>
             act_type (act s p) = THREAD_START \<or> act_type (act s p) = THREAD_FINISH \<or>
             act_type (act s p) = THREAD_FINISHALL)
         then s\<lparr>ck_chosen_thread := Some t, ck_thread_chosen := True\<rparr> else s)
   }"

text \<open>The first thread with nothing pending is to run, so that it stashes its next action.\<close>

fun stash_loop :: "tid \<Rightarrow> tid list \<Rightarrow> checker \<Rightarrow> (tid option \<times> checker) option" where
  "stash_loop old [] s = Some (None, s)"
| "stash_loop old (i # ks) s = do {
     thr \<leftarrow> get_thread s i;
     if \<not> is_complete thr \<and> th_pending thr = None
     then Some (Some i, s\<lparr>ck_curr_thread_num := i\<rparr>)
     else do {
       let s1 = (if is_complete thr \<and> i \<noteq> old \<and> \<not> is_freed thr
                 then put_thread i (freeResources thr) s else s);
       s2 \<leftarrow> (case th_pending thr of
           None \<Rightarrow> Some s1
         | Some p \<Rightarrow>
             if thread_enabled s1 i then do {
               en \<leftarrow> check_action_enabled p s1;
               if \<not> en then sleep i s1 else Some s1
             } else Some s1);
       s3 \<leftarrow> chooseThread (th_pending thr) i s2;
       stash_loop old ks s3
     }
   }"

primrec evict_some :: "nat \<Rightarrow> tid \<Rightarrow> checker \<Rightarrow> (bool \<times> checker) option" where
  "evict_some 0 t s = Some (False, s)"
| "evict_some (Suc n) t s = do {
     (crash, s1) \<leftarrow> popFromStoreBuffer t s;
     if crash then Some (True, s1) else evict_some n t s1
   }"

text \<open>
  \<^verbatim>\<open>getNextThread\<close>: when the store buffers are too full, some operations of a random
  thread are evicted; the flag is a crash on the way.
\<close>

definition getNextThread :: "tid \<Rightarrow> checker \<Rightarrow> (bool \<times> tid option \<times> checker) option" where
  "getNextThread old s = do {
     (next, s1) \<leftarrow> stash_loop old [ck_curr_thread_num s..<get_num_threads s] s;
     (case next of
        Some t \<Rightarrow> Some (False, Some t, s1)
      | None \<Rightarrow>
          if ex_storebufferusage (cur_exec s1) >
             p_storebufferthreshold (ck_params s1) * of_nat (get_num_threads s1)
          then if p_evictmax (ck_params s1) = 0 then None else do {
            let (r1, s2) = next_random s1;
            let (r2, s3) = next_random s2;
            (crash, s4) \<leftarrow> evict_some (r2 mod p_evictmax (ck_params s3)) (r1 mod get_num_threads s3) s3;
            Some (crash, None, s4)
          }
          else Some (False, None, s1))
   }"

definition consumeAction :: "tid \<Rightarrow> checker \<Rightarrow> checker option" where
  "consumeAction t s = do {
     th \<leftarrow> get_thread s t;
     cur \<leftarrow> th_pending th;
     let s1 = put_thread t (th\<lparr>th_pending := None\<rparr>) s;
     (next, s2) \<leftarrow> take_step cur s1;
     Some (s2\<lparr>ck_chosen_thread := next\<rparr>)
   }"

definition should_terminate_execution :: "checker \<Rightarrow> bool \<times> checker" where
  "should_terminate_execution s =
     (if have_bug_reports s \<and> \<not> p_enablePersistrace (ck_params s)
      then (True, upd_cur (\<lambda>x. x\<lparr>ex_asserted := True\<rparr>) s)
      else (ex_isfinished (cur_exec s), s))"

text \<open>In random mode the place of the next crash is drawn anew.\<close>

definition draw_crash_point :: "checker \<Rightarrow> checker option" where
  "draw_crash_point s =
     (if isRandomExecutionEnabled s then
        (let s1 = s\<lparr>ck_max_execution_seq_num := get_curr_seq_num s\<rparr> in
         if ck_max_execution_seq_num s1 = 0 then None
         else (let (r, s2) = next_random s1 in
               Some (s2\<lparr>ck_nextCrashPoint := of_nat (r mod unat (ck_max_execution_seq_num s2))\<rparr>)))
      else Some s)"

definition one_last_crash :: "checker \<Rightarrow> bool" where
  "one_last_crash s \<longleftrightarrow>
     ex_enableCrash (cur_exec s) \<and> ck_numcrashes s < p_numcrashes (ck_params s) \<and>
     \<not> ex_noWriteSinceCrashCheck (cur_exec s) \<and> get_curr_seq_num s \<ge> p_firstCrash (ck_params s)"

text \<open>
  \<^verbatim>\<open>handleChosenThread\<close>: the action of the chosen thread is performed; \<open>Inl\<close> when control
  left this execution, \<open>Inr\<close> when it goes on.
\<close>

definition handleChosenThread :: "snapshot \<Rightarrow> checker \<Rightarrow> (outcome + checker) option" where
  "handleChosenThread sn s =
     (if has_asserted s then map_option Inl (finishRunExecution sn s)
      else do {
        s1 \<leftarrow> (case ck_chosen_thread s of
            Some t \<Rightarrow> Some s
          | None \<Rightarrow> do {
              (next, s') \<leftarrow> select_next_thread s;
              Some (s'\<lparr>ck_chosen_thread := next\<rparr>)
            });
        (case ck_chosen_thread s1 of
           None \<Rightarrow> map_option Inl (finishRunExecution sn s1)
         | Some t \<Rightarrow> do {
             th \<leftarrow> get_thread s1 t;
             if th_model_thread th then map_option Inl (finishRunExecution sn s1)
             else if th_wakeup_state th then
               Some (Inr ((put_thread t (th\<lparr>th_wakeup_state := False, th_pending := None\<rparr>) s1)
                 \<lparr>ck_chosen_thread := None\<rparr>))
             else do {
               s2 \<leftarrow> consumeAction t s1;
               if crashed s2 then map_option Inl (crash_and_restart sn s2)
               else do {
                 let (stop, s3) = should_terminate_execution s2;
                 if stop then do {
                   s4 \<leftarrow> draw_crash_point s3;
                   if one_last_crash s4 then map_option Inl (crash_and_restart sn s4)
                   else map_option Inl (finishRunExecution sn s4)
                 } else Some (Inr s3)
               }
             }
           })
      })"

text \<open>Handing control to a user thread, by \<^verbatim>\<open>Thread::swap\<close>.\<close>

definition swap_to :: "tid \<Rightarrow> checker \<Rightarrow> outcome option" where
  "swap_to t s = do {
     s1 \<leftarrow> set_current_thread (Some t) s;
     th \<leftarrow> get_thread s1 t;
     th' \<leftarrow> set_state THREAD_RUNNING th;
     Some (RunThread t (put_thread t th' s1))
   }"

partial_function (option) startRunExecution :: "snapshot \<Rightarrow> tid \<Rightarrow> checker \<Rightarrow> outcome option" where
  "startRunExecution sn old s =
     Option.bind (getNextThread old (s\<lparr>ck_thread_chosen := False, ck_curr_thread_num := 1\<rparr>))
       (\<lambda>(crash, next, s1).
          if crash then crash_and_restart sn s1
          else (case next of
              Some t \<Rightarrow> swap_to t s1
            | None \<Rightarrow> Option.bind (handleChosenThread sn s1)
                (\<lambda>r. case r of Inl out \<Rightarrow> Some out | Inr s2 \<Rightarrow> startRunExecution sn old s2)))"

text \<open>
  \<^verbatim>\<open>switch_thread\<close>, called by the running thread with its next action, \<open>None\<close> being
  \<^verbatim>\<open>NULL\<close>.
\<close>

definition switch_thread :: "snapshot \<Rightarrow> aid option \<Rightarrow> checker \<Rightarrow> outcome option" where
  "switch_thread sn a s = do {
     old \<leftarrow> sch_current (ck_sched s);
     th \<leftarrow> get_thread s old;
     th1 \<leftarrow> set_state THREAD_READY th;
     if th_pending th1 \<noteq> None then None
     else do {
       let s1 = put_thread old (th1\<lparr>th_pending := a\<rparr>) s;
       p \<leftarrow> a;
       s2 \<leftarrow> (if is_write (act s1 p) \<or> is_read (act s1 p) then ensureInitialValue p s1 else Some s1);
       circular \<leftarrow> is_waiting_on s2 old old;
       let s3 = (if circular then assert_bug ''Deadlock detected'' s2 else s2);
       s4 \<leftarrow> (if thread_enabled s3 old then do {
                en \<leftarrow> check_action_enabled p s3;
                if \<not> en then sleep old s3 else Some s3
              } else Some s3);
       (crash, next, s5) \<leftarrow> getNextThread old s4;
       if crash then crash_and_restart sn s5
       else (case next of
           Some t \<Rightarrow> swap_to t s5
         | None \<Rightarrow> do {
             r \<leftarrow> handleChosenThread sn s5;
             (case r of Inl out \<Rightarrow> Some out | Inr s6 \<Rightarrow> startRunExecution sn old s6)
           })
     }
   }"

definition assert_user_bug :: "snapshot \<Rightarrow> string \<Rightarrow> checker \<Rightarrow> outcome option" where
  "assert_user_bug sn msg s = switch_thread sn None (assert_bug msg s)"

end
