(* ===== verification/Crash_Exploration.thy ===== *)
theory Crash_Exploration
  imports Node_Stack
begin

text \<open>
  Exploration across crashes.  Each execution of a program under test ends or crashes, and
  a crash starts a further execution with decisions of its own; the checker keeps one stack
  of decisions per execution.  This theory states what \<^verbatim>\<open>finish_execution\<close> and
  \<^verbatim>\<open>startChecker\<close> do to the stacks alone and proves that together they visit every end of
  the program exactly once.
\<close>

section \<open>Programs that crash\<close>

datatype 'a ending = Finished 'a | Crashed "'a program"
  and 'a program = Program "'a ending dtree"

primrec endings :: "'a ending \<Rightarrow> 'a list" and finals :: "'a program \<Rightarrow> 'a list" where
  "endings (Finished x) = [x]"
| "endings (Crashed p) = finals p"
| "finals (Program t) = concat (outcomes (map_dtree endings t))"

primrec ending_ok :: "'a ending \<Rightarrow> bool" and program_ok :: "'a program \<Rightarrow> bool" where
  "ending_ok (Finished x) = True"
| "ending_ok (Crashed p) = program_ok p"
| "program_ok (Program t) = (dtree_ok t \<and> list_all (\<lambda>b. b) (outcomes (map_dtree ending_ok t)))"

lemma outcomes_map: "outcomes (map_dtree f t) = map f (outcomes t)"
  by (induction t) (simp_all add: map_concat o_def cong: map_cong)

lemma finals_Program [simp]: "finals (Program t) = concat (map endings (outcomes t))"
  by (simp add: outcomes_map)

lemma program_ok_Program [simp]: "program_ok (Program t) \<longleftrightarrow> dtree_ok t \<and> (\<forall>e \<in> set (outcomes t). ending_ok e)"
  by (simp add: outcomes_map list_all_iff)

lemma outcomes_set: "set (outcomes t) = set_dtree t"
  by (induction t) auto

declare finals.simps [simp del] program_ok.simps [simp del]

lemma on_path_outcome: "on_path t q \<Longrightarrow> outcome_at t q \<in> set_dtree t"
  by (induction t q rule: on_path.induct) auto

section \<open>The stacks of the checker\<close>

text \<open>
  The stack of the current execution, those of the executions before it, the latest
  first, and those kept for the replay, the earliest first.
\<close>

type_synonym stacks = "node_stack \<times> node_stack list \<times> node_stack list"

fun after_crash :: "stacks \<Rightarrow> stacks" where
  "after_crash (ns, prev, replay) =
     (case replay of
        [] \<Rightarrow> (NodeStack, ns # prev, [])
      | r # rest \<Rightarrow> (if rest \<noteq> [] then repeat_prev_execution r else r, ns # prev, rest))"

definition resume :: "node_stack list \<Rightarrow> stacks option" where
  "resume live =
     (case live of
        [] \<Rightarrow> None
      | n # rest \<Rightarrow> Some (if rest \<noteq> [] then repeat_prev_execution (reset_execution n) else reset_execution n,
          [], map reset_execution rest))"

fun backtrack :: "stacks \<Rightarrow> stacks option" where
  "backtrack (ns, prev, replay) =
     resume (rev (dropWhile (\<lambda>n. \<not> has_another_execution n) (ns # prev)))"

text \<open>A run of the program through its crashes, and the loop over runs.\<close>

partial_function (option) run_through :: "'a program \<Rightarrow> stacks \<Rightarrow> ('a \<times> stacks) option" where
  "run_through p st =
     (case p of Program t \<Rightarrow>
        (case run t (fst st) of
           None \<Rightarrow> None
         | Some (e, ns) \<Rightarrow>
             (case e of
                Finished x \<Rightarrow> Some (x, ns, snd st)
              | Crashed p' \<Rightarrow> run_through p' (after_crash (ns, snd st)))))"

declare run_through.simps [code]

fun explore_all :: "nat \<Rightarrow> 'a program \<Rightarrow> stacks \<Rightarrow> 'a list option" where
  "explore_all 0 p st = None"
| "explore_all (Suc fuel) p st =
     (case run_through p st of
        None \<Rightarrow> None
      | Some (x, st') \<Rightarrow>
          (case backtrack st' of
             None \<Rightarrow> Some [x]
           | Some st'' \<Rightarrow> map_option (Cons x) (explore_all fuel p st'')))"

section \<open>Paths through crashes\<close>

fun chain :: "'a program \<Rightarrow> (nat \<times> nat) list list \<Rightarrow> bool" where
  "chain p [] = False"
| "chain (Program t) (q # qs) = (on_path t q \<and>
     (case outcome_at t q of Finished x \<Rightarrow> qs = [] | Crashed p' \<Rightarrow> chain p' qs))"

fun final_at :: "'a program \<Rightarrow> (nat \<times> nat) list list \<Rightarrow> 'a" where
  "final_at (Program t) (q # qs) = (case outcome_at t q of Finished x \<Rightarrow> x | Crashed p' \<Rightarrow> final_at p' qs)"

fun left :: "'a program \<Rightarrow> (nat \<times> nat) list list \<Rightarrow> 'a list" where
  "left p [] = []"
| "left (Program t) (q # qs) =
     (case outcome_at t q of Finished x \<Rightarrow> [x] | Crashed p' \<Rightarrow> left p' qs) @
     (case next_path t q of None \<Rightarrow> [] | Some q' \<Rightarrow> concat (map endings (remaining t q')))"

text \<open>The result of a run: where it ended, on which stacks, the latest first.\<close>

definition ran :: "'a program \<Rightarrow> stacks \<Rightarrow> node_stack list \<Rightarrow> (nat \<times> nat) list list \<Rightarrow> bool" where
  "ran p st nss qs \<longleftrightarrow> chain p qs \<and> list_all2 explored nss qs \<and>
     (\<exists>cur prev. run_through p st = Some (final_at p qs, cur, prev, []) \<and> cur # prev = rev nss @ fst (snd st))"

lemma ran_crash:
  assumes "run t ns = Some (Crashed p', ns')" "explored ns' q" "on_path t q" "outcome_at t q = Crashed p'"
    "ran p' (after_crash (ns', prev, replay)) nss qs"
  shows "ran (Program t) (ns, prev, replay) (ns' # nss) (q # qs)"
proof -
  have "fst (snd (after_crash (ns', prev, replay))) = ns' # prev" by (simp split: list.split)
  with assms show ?thesis by (auto simp: ran_def run_through.simps [of "Program t"])
qed

lemma ran_finish:
  assumes "run t ns = Some (Finished x, ns')" "explored ns' q" "on_path t q" "outcome_at t q = Finished x"
  shows "ran (Program t) (ns, prev, []) [ns'] [q]"
  using assms by (auto simp: ran_def run_through.simps [of "Program t"])

lemma left_next:
  assumes "dtree_ok t" "on_path t q"
  shows "endings (outcome_at t q) @ (case next_path t q of None \<Rightarrow> [] | Some q' \<Rightarrow> concat (map endings (remaining t q')))
    = concat (map endings (remaining t q))"
  using remaining_step [OF assms] by (simp split: option.split)

text \<open>A run on empty stacks takes the first path of every execution.\<close>

lemma run_through_fresh:
  assumes "program_ok p"
  shows "\<exists>nss qs. ran p (NodeStack, prev, []) nss qs \<and> left p qs = finals p"
  using assms
proof (induction p arbitrary: prev rule: program.induct
    [of "\<lambda>e. ending_ok e \<longrightarrow> (\<forall>p' prev. e = Crashed p' \<longrightarrow>
      (\<exists>nss qs. ran p' (NodeStack, prev, []) nss qs \<and> left p' qs = finals p'))"])
  case (Finished x)
  then show ?case by simp
next
  case (Crashed p)
  then show ?case by simp
next
  case (Program t)
  then have ok: "dtree_ok t" "\<forall>e \<in> set_dtree t. ending_ok e" by (simp_all add: outcomes_set)
  let ?q = "first_path t"
  obtain ns where ns: "run t NodeStack = Some (outcome_at t ?q, ns)" "explored ns ?q"
    using explored_first [OF ok(1)] by blast
  note on = on_path_first [OF ok(1)]
  have all: "endings (outcome_at t ?q) @
      (case next_path t ?q of None \<Rightarrow> [] | Some q' \<Rightarrow> concat (map endings (remaining t q'))) = finals (Program t)"
    using left_next [OF ok(1) on] remaining_first [OF ok(1)] by simp
  show ?case
  proof (cases "outcome_at t ?q")
    case (Finished x)
    with ns on all show ?thesis
      by (intro exI [of _ "[ns]"] exI [of _ "[?q]"]) (simp add: ran_finish)
  next
    case (Crashed p')
    have mem: "outcome_at t ?q \<in> set_dtree t" using on by (rule on_path_outcome)
    with ok(2) Crashed Program(1) [OF mem] obtain nss qs
      where r: "ran p' (NodeStack, ns # prev, []) nss qs" "left p' qs = finals p'"
      by blast
    from r(1) have "ran p' (after_crash (ns, prev, [])) nss qs" by simp
    with ns on Crashed have "ran (Program t) (NodeStack, prev, []) (ns # nss) (?q # qs)" by (intro ran_crash) simp_all
    with all r(2) Crashed show ?thesis
      by (intro exI [of _ "ns # nss"] exI [of _ "?q # qs"]) simp
  qed
qed

section \<open>Resuming at the deepest open execution\<close>

text \<open>The executions up to the deepest one with another choice, the earliest first.\<close>

definition live :: "node_stack list \<Rightarrow> node_stack list" where
  "live nss = rev (dropWhile (\<lambda>n. \<not> has_another_execution n) (rev nss))"

lemma live_Nil [simp]: "live [] = []"
  by (simp add: live_def)

lemma live_Cons: "live (n # nss) = (if live nss \<noteq> [] then n # live nss else if has_another_execution n then [n] else [])"
proof -
  have "(live nss = []) = (\<forall>x \<in> set nss. \<not> has_another_execution x)"
    by (auto simp: live_def dropWhile_eq_Nil_conv)
  then show ?thesis by (auto simp: live_def dropWhile_append)
qed

lemma resume_Cons: "resume (n # rest) = Some st \<Longrightarrow> rest \<noteq> [] \<Longrightarrow>
    st = (repeat_prev_execution (reset_execution n), [], map reset_execution rest)"
  by (simp add: resume_def)

text \<open>On the way down, a crash takes the next stack that was kept for the replay.\<close>

lemma after_crash_replay:
  "rest \<noteq> [] \<Longrightarrow> resume rest = Some (m, [], replay) \<Longrightarrow>
   after_crash (ns, prev, map reset_execution rest) = (m, ns # prev, replay)"
  by (cases rest) (auto simp: resume_def split: if_split_asm)

lemma resume_some: "xs \<noteq> [] \<Longrightarrow> \<exists>m replay. resume xs = Some (m, [], replay)"
  by (cases xs) (simp_all add: resume_def)

lemma next_path_open: "on_path t q \<Longrightarrow> explored ns q \<Longrightarrow> (next_path t q \<noteq> None) = has_another_execution ns"
  by (simp add: next_path_last_more explored_def has_another_execution_def)

lemma left_closed:
  "chain p qs \<Longrightarrow> list_all2 explored nss qs \<Longrightarrow> live nss = [] \<Longrightarrow> left p qs = [final_at p qs]"
proof (induction p qs arbitrary: nss rule: chain.induct)
  case (1 p)
  then show ?case by simp
next
  case (2 t q qs)
  then obtain ns nss' where nss: "nss = ns # nss'" "explored ns q" "list_all2 explored nss' qs"
    by (auto simp: list_all2_Cons2)
  with 2(4) have "live nss' = []" "\<not> has_another_execution ns"
    by (auto simp: live_Cons split: if_split_asm)
  with 2 nss next_path_open [of t q ns] show ?case by (auto split: ending.split_asm)
qed

lemma resume_run:
  assumes "program_ok p" "chain p qs" "list_all2 explored nss qs" "resume (live nss) = Some (m, [], replay)"
  shows "\<exists>nss' qs'. ran p (m, prev, replay) nss' qs' \<and> left p qs = final_at p qs # left p qs'"
  using assms
proof (induction p qs arbitrary: nss m replay prev rule: chain.induct)
  case (1 p)
  then show ?case by simp
next
  case (2 t q qs)
  then obtain ns nss' where nss: "nss = ns # nss'" "explored ns q" "list_all2 explored nss' qs"
    by (auto simp: list_all2_Cons2)
  from 2 have ok: "dtree_ok t" "\<forall>e \<in> set_dtree t. ending_ok e" and on: "on_path t q"
    by (simp_all add: outcomes_set)
  show ?case
  proof (cases "live nss' = []")
    case True
    with 2(5) nss have has: "has_another_execution ns" and m: "m = reset_execution ns" "replay = []"
      by (auto simp: live_Cons resume_def split: if_split_asm)
    then obtain k where "last_more q = Some k" using nss(2) by (auto simp: explored_def has_another_execution_def)
    from run_after_reset [OF ok(1) on nss(2) this] obtain q' ns' where
      q': "next_path t q = Some q'" and r: "run t (reset_execution ns) = Some (outcome_at t q', ns')" "explored ns' q'"
      by blast
    note on' = on_path_next [OF ok(1) on q']
    have this_run: "(case outcome_at t q of Finished x \<Rightarrow> [x] | Crashed p' \<Rightarrow> left p' qs) = [final_at (Program t) (q # qs)]"
      using 2(3) nss True by (auto simp: left_closed split: ending.split_asm)
    show ?thesis
    proof (cases "outcome_at t q'")
      case (Finished x)
      have "ran (Program t) (m, prev, replay) [ns'] [q']"
        using r on' Finished by (simp add: m ran_finish)
      then show ?thesis using this_run q' left_next [OF ok(1) on'] Finished
        by (intro exI [of _ "[ns']"] exI [of _ "[q']"]) simp
    next
      case (Crashed p')
      have "outcome_at t q' \<in> set_dtree t" using on' by (rule on_path_outcome)
      with ok(2) Crashed have "program_ok p'" by auto
      from run_through_fresh [OF this, of "ns' # prev"] obtain nss2 qs2
        where f: "ran p' (NodeStack, ns' # prev, []) nss2 qs2" "left p' qs2 = finals p'" by blast
      have "ran (Program t) (m, prev, replay) (ns' # nss2) (q' # qs2)"
        using r on' Crashed f(1) by (simp add: m ran_crash)
      then show ?thesis using this_run q' left_next [OF ok(1) on'] Crashed f(2)
        by (intro exI [of _ "ns' # nss2"] exI [of _ "q' # qs2"]) simp
    qed
  next
    case False
    with nss(3) have "qs \<noteq> []" by (cases qs) auto
    with 2(3) obtain p' where p': "outcome_at t q = Crashed p'" "chain p' qs"
      by (auto split: ending.split_asm)
    have "outcome_at t q \<in> set_dtree t" using on by (rule on_path_outcome)
    with ok(2) p' have okp: "program_ok p'" by auto
    from False 2(5) nss(1) have m: "m = repeat_prev_execution (reset_execution ns)"
      "replay = map reset_execution (live nss')"
      by (auto simp: live_Cons dest!: resume_Cons)
    obtain m' replay' where res: "resume (live nss') = Some (m', [], replay')"
      using resume_some [OF False] by blast
    from run_repeat [OF on nss(2)] p' obtain ns' where r: "run t m = Some (Crashed p', ns')" "explored ns' q"
      by (auto simp: m)
    from "2.IH" [OF p'(1) okp p'(2) nss(3) res, of "ns' # prev"] obtain nss2 qs2
      where i: "ran p' (m', ns' # prev, replay') nss2 qs2" "left p' qs = final_at p' qs # left p' qs2" by blast
    have "ran (Program t) (m, prev, replay) (ns' # nss2) (q # qs2)"
      using r on p'(1) i(1) after_crash_replay [OF False res] by (simp add: m(2) ran_crash)
    then show ?thesis using i(2) p'(1)
      by (intro exI [of _ "ns' # nss2"] exI [of _ "q # qs2"]) simp
  qed
qed

section \<open>Exhaustive exploration across crashes\<close>

lemma backtrack_live: "cur # prev = rev nss \<Longrightarrow> backtrack (cur, prev, []) = resume (live nss)"
  by (simp add: live_def)

lemma explore_all_from:
  assumes "program_ok p" "ran p st nss qs" "fst (snd st) = []" "length (left p qs) \<le> fuel"
  shows "explore_all fuel p st = Some (left p qs)"
  using assms
proof (induction fuel arbitrary: st nss qs)
  case 0
  then have "left p qs = []" by simp
  moreover have "chain p qs" using 0 by (simp add: ran_def)
  ultimately have False
  proof (induction p qs rule: chain.induct)
    case (2 t q qs)
    then show ?case by (auto split: ending.split_asm)
  qed simp
  then show ?case ..
next
  case (Suc fuel)
  from Suc.prems(2,3) obtain cur prev where run: "run_through p st = Some (final_at p qs, cur, prev, [])"
    and c: "cur # prev = rev nss" and ch: "chain p qs" "list_all2 explored nss qs"
    by (auto simp: ran_def)
  note bt = backtrack_live [OF c]
  show ?case
  proof (cases "live nss = []")
    case True
    with left_closed [OF ch] run bt show ?thesis by (simp add: resume_def)
  next
    case False
    from resume_some [OF False] obtain m replay where st'': "resume (live nss) = Some (m, [], replay)" by blast
    then obtain st' where st': "resume (live nss) = Some st'" "st' = (m, [], replay)" by blast
    with resume_run [OF Suc.prems(1) ch, of m replay "[]"] obtain nss' qs'
      where r: "ran p st' nss' qs'" "left p qs = final_at p qs # left p qs'" "fst (snd st') = []" by auto
    have "explore_all fuel p st' = Some (left p qs')"
      using Suc.prems(1,4) r by (intro Suc.IH) simp_all
    with run bt st' r(2) show ?thesis by simp
  qed
qed

text \<open>
  C2: Backtracking across crashes is exhaustive: when every execution of a program, before
  and after each crash, is a finite tree of decisions, the runs of the checker end once in
  every possible end of the program, in the order of the choices, and then no execution has
  another choice.
\<close>
theorem explore_all_exhaustive:
  assumes "program_ok p" "length (finals p) \<le> fuel"
  shows "explore_all fuel p (NodeStack, [], []) = Some (finals p)"
proof -
  from run_through_fresh [OF assms(1), of "[]"] obtain nss qs
    where "ran p (NodeStack, [], []) nss qs" "left p qs = finals p" by blast
  with explore_all_from [OF assms(1), of "(NodeStack, [], [])" nss qs fuel] assms(2) show ?thesis by simp
qed

theorem explore_all_exhaustive_witness:
  "explore_all 3 (Program (Decide [Outcome (Crashed (Program (Decide [Outcome (Finished ''x''), Outcome (Finished ''y'')]))),
      Outcome (Finished ''end'')])) (NodeStack, [], []) = Some [''x'', ''y'', ''end'']"
  using explore_all_exhaustive [of "Program (Decide [Outcome (Crashed (Program (Decide [Outcome (Finished ''x''),
      Outcome (Finished ''y'')]))), Outcome (Finished ''end'')])" 3]
  by simp

end
