(* ===== verification/Checker_Stacks.thy ===== *)
theory Checker_Stacks
  imports Checker Crash_Exploration Demo_Machine
begin

text \<open>
  The driver refines the exploration across crashes: a crash does \<open>after_crash\<close> to the
  stacks of decisions and the end of an execution does \<open>backtrack\<close>; nothing else that
  happens between two executions touches them.
\<close>

section \<open>The stacks of a checker\<close>

definition stacks_of :: "checker \<Rightarrow> stacks" where
  "stacks_of s = (ck_nodestack s, map snd (ck_prev s), ck_replaystack s)"

definition fixed :: "checker \<Rightarrow> (eid \<times> node_stack) list \<times> node_stack \<times> node_stack list \<times> model_params \<times> eid \<times> nat" where
  "fixed s = (ck_prev s, ck_nodestack s, ck_replaystack s, ck_params s, ck_cur s, ck_execution_number s)"

lemma fixed_upd [simp]:
  "fixed (upd_cur f s) = fixed s" "fixed (put_thread t th s) = fixed s" "fixed (upd_sched g s) = fixed s"
  "fixed (updateStoreBuffer d s) = fixed s" "fixed (assert_bug msg s) = fixed s"
  "fixed (reset_to_initial_state sn s) = fixed s" "fixed (emit ev s) = fixed s"
  "fixed (snd (get_next_id s)) = fixed s" "fixed (s\<lparr>ck_races := rd\<rparr>) = fixed s"
  "fixed (s\<lparr>ck_curr_thread_num := n\<rparr>) = fixed s"
  by (simp_all add: fixed_def upd_cur_def upd_exec_def put_thread_def upd_sched_def updateStoreBuffer_def
      assert_bug_def reset_to_initial_state_def emit_def get_next_id_def)

lemma freeActions_fixed: "freeActions t s = Some s' \<Longrightarrow> fixed s' = fixed s"
  by (auto simp: freeActions_def upd_memory_def upd_thread_def Let_def bind_eq_Some_conv)

lemma free_thread_buffers_fixed: "free_thread_buffers ts s = Some s' \<Longrightarrow> fixed s' = fixed s"
  by (induction ts s rule: free_thread_buffers.induct) (auto simp: bind_eq_Some_conv freeActions_fixed)

lemma clearPreRollback_fixed: "clearPreRollback s = Some s' \<Longrightarrow> fixed s' = fixed s"
  by (simp add: clearPreRollback_def free_thread_buffers_fixed)

lemma add_thread_fixed: "add_thread th s = Some s' \<Longrightarrow> fixed s' = fixed s"
  by (auto simp: add_thread_def sched_add_thread_def Let_def bind_eq_Some_conv split: if_splits)

lemma set_current_thread_fixed: "set_current_thread t s = Some s' \<Longrightarrow> fixed s' = fixed s"
  by (auto simp: set_current_thread_def bind_eq_Some_conv split: option.splits if_splits)

lemma fixed_stacks: "fixed s' = fixed s \<Longrightarrow> stacks_of s' = stacks_of s"
  by (simp add: fixed_def stacks_of_def)

lemma fixed_fields: "fixed s' = fixed s \<Longrightarrow>
    ck_prev s' = ck_prev s \<and> ck_nodestack s' = ck_nodestack s \<and> ck_replaystack s' = ck_replaystack s
    \<and> ck_params s' = ck_params s"
  by (simp add: fixed_def)

section \<open>Starting an execution\<close>

lemma startChecker_stacks:
  assumes "startChecker sn s = Some s'"
  shows "stacks_of s' = (if ck_prev s = [] then stacks_of s
    else (case ck_replaystack s of
        [] \<Rightarrow> (NodeStack, map snd (ck_prev s), [])
      | r # rest \<Rightarrow> (if rest \<noteq> [] then repeat_prev_execution r else r, map snd (ck_prev s), rest)))"
proof -
  let ?s1 = "s\<lparr>ck_execs := ck_execs s @ [ModelExecution], ck_cur := length (ck_execs s)\<rparr>"
  from assms obtain s3 where s3: "add_thread (sn_init_thread sn) (snd (get_next_id ?s1)) = Some s3"
    by (auto simp: startChecker_def Let_def bind_eq_Some_conv split: prod.splits)
  from add_thread_fixed [OF this] have "fixed s3 = fixed ?s1" by simp
  then have f: "ck_prev s3 = ck_prev s" "ck_nodestack s3 = ck_nodestack s" "ck_replaystack s3 = ck_replaystack s"
    by (simp_all add: fixed_def)
  from assms s3 f show ?thesis
    by (auto simp: startChecker_def Let_def upd_cur_def upd_exec_def stacks_of_def
        split: prod.splits list.splits)
qed

text \<open>
  C6: A crash, by way of \<^verbatim>\<open>doCrash\<close> and \<^verbatim>\<open>startChecker\<close>, starts the next execution on the
  stacks that \<open>after_crash\<close> gives: the stack of the crashed execution is put away, and the
  new one gets an empty stack, or during a replay the next stack that was kept, to be
  repeated in full unless it is the last one.
\<close>
theorem crash_refines:
  assumes "crash_and_restart sn s = Some out"
  shows "\<exists>s'. out = Restart s' \<and> stacks_of s' = after_crash (stacks_of s)"
proof -
  from assms obtain s2 s' where s2: "clearPreRollback (s\<lparr>ck_prev := (ck_cur s, ck_nodestack s) # ck_prev s\<rparr>) = Some s2"
    and s': "startChecker sn (reset_to_initial_state sn (s2\<lparr>ck_races := resetRaceDetector False (ck_races s2)\<rparr>)) = Some s'"
    and out: "out = Restart s'"
    by (auto simp: crash_and_restart_def doCrash_def Let_def bind_eq_Some_conv)
  let ?r = "reset_to_initial_state sn (s2\<lparr>ck_races := resetRaceDetector False (ck_races s2)\<rparr>)"
  from clearPreRollback_fixed [OF s2]
  have "ck_prev ?r = (ck_cur s, ck_nodestack s) # ck_prev s" "ck_replaystack ?r = ck_replaystack s"
    by (simp_all add: fixed_def reset_to_initial_state_def)
  with startChecker_stacks [OF s'] out show ?thesis
    by (auto simp: stacks_of_def split: list.splits)
qed

theorem crash_refines_witness:
  "\<exists>s'. crash_and_restart \<lparr>sn_sched = Scheduler, sn_mutexes = ck_mutexes crash_demo, sn_mem = (\<lambda>_. 0),
      sn_alt_region = None, sn_init_thread = UserThread 1 None, sn_random_pos = 0\<rparr> crash_demo = Some (Restart s')
    \<and> stacks_of s' = (NodeStack, [NodeStack, NodeStack], [])"
proof -
  let ?sn = "\<lparr>sn_sched = Scheduler, sn_mutexes = ck_mutexes crash_demo, sn_mem = (\<lambda>_. 0),
      sn_alt_region = None, sn_init_thread = UserThread 1 None, sn_random_pos = 0\<rparr>"
  have "\<not> Option.is_none (crash_and_restart ?sn crash_demo)" by code_simp
  then obtain out where out: "crash_and_restart ?sn crash_demo = Some out" by (auto simp: Option.is_none_def)
  have "after_crash (stacks_of crash_demo) = (NodeStack, [NodeStack, NodeStack], [])"
    by (simp add: stacks_of_def crash_demo_def demo_checker_def)
  with crash_refines [OF out] out show ?thesis by auto
qed

section \<open>The end of an execution\<close>

lemma fixed_record_cong: "fixed s' = fixed s \<Longrightarrow>
    stacks_of (s'\<lparr>ck_cur := e, ck_nodestack := ns, ck_prev := p\<rparr>) = stacks_of (s\<lparr>ck_cur := e, ck_nodestack := ns, ck_prev := p\<rparr>)"
  by (simp add: fixed_def stacks_of_def)

text \<open>Going back stops at the latest execution with another choice.\<close>

lemma unwind_stacks:
  assumes "unwind s = Some (again, s')"
  shows "ck_replaystack s' = ck_replaystack s \<and> ck_params s' = ck_params s \<and>
    (case dropWhile (\<lambda>n. \<not> has_another_execution n) (ck_nodestack s # map snd (ck_prev s)) of
       [] \<Rightarrow> again = (isRandomExecutionEnabled s \<and> p_randomExecution (ck_params s) mod 2 ^ 32 \<ge> int (ck_execution_number s)) \<and> ck_prev s' = []
     | n # rest \<Rightarrow> again \<and> ck_nodestack s' = n \<and> map snd (ck_prev s') = rest)"
  using assms
proof (induction s rule: unwind.induct)
  case (1 s)
  show ?case
  proof (cases "has_another_execution (ck_nodestack s)")
    case True
    with 1(2) show ?thesis by (auto simp: unwind.simps [of s])
  next
    case no: False
    show ?thesis
    proof (cases "ck_prev s")
      case Nil
      with no 1(2) show ?thesis by (auto simp: unwind.simps [of s])
    next
      case (Cons p rest)
      obtain e ns where p: "p = (e, ns)" by fastforce
      with no Cons 1(2) obtain s1 where s1: "clearPreRollback s = Some s1"
        by (auto simp: unwind.simps [of s] split: option.splits)
      define u where "u = (free_execution (ck_cur s1) s1)\<lparr>ck_cur := e, ck_nodestack := ns, ck_prev := rest\<rparr>"
      have more: "unwind u = Some (again, s')" using 1(2) no Cons p s1 by (simp add: unwind.simps [of s] u_def)
      from clearPreRollback_fixed [OF s1]
      have f: "ck_replaystack u = ck_replaystack s" "ck_params u = ck_params s"
        "isRandomExecutionEnabled u = isRandomExecutionEnabled s" "ck_execution_number u = ck_execution_number s"
        "ck_nodestack u = ns" "ck_prev u = rest"
        by (simp_all add: u_def fixed_def free_execution_def emit_def isRandomExecutionEnabled_def)
      note ih = 1(1) [OF no Cons p [symmetric] s1, folded u_def, OF more, unfolded f]
      from ih no Cons p show ?thesis by simp
    qed
  qed
qed

lemma rewind_stacks:
  "stacks_of (rewind prev s) = (let nss = map snd prev in
     (last (ck_nodestack s # nss), [], rev (map reset_execution (butlast (ck_nodestack s # nss))) @ ck_replaystack s))"
  by (induction prev s rule: rewind.induct)
    (simp_all add: stacks_of_def Let_def free_execution_def emit_def)

lemma rewind_params: "ck_params (rewind prev s) = ck_params s"
  by (induction prev s rule: rewind.induct) (simp_all add: free_execution_def emit_def)

definition counted :: "bool \<Rightarrow> checker \<Rightarrow> checker" where
  "counted dead s = (let s1 = (if dead then assert_bug ''Deadlock detected'' s else s)
     in s1\<lparr>ck_execution_number := ck_execution_number s1 + 1\<rparr>)"

definition restarted :: "snapshot \<Rightarrow> checker \<Rightarrow> checker" where
  "restarted sn s = reset_to_initial_state sn ((free_execution (ck_cur s) s)
     \<lparr>ck_nodestack := (if ck_replaystack s \<noteq> [] then repeat_prev_execution (reset_execution (ck_nodestack s))
        else reset_execution (ck_nodestack s)),
      ck_races := resetRaceDetector True (ck_races s)\<rparr>)"

lemma finish_execution_steps:
  assumes "finish_execution sn s = Some (again, s')"
  obtains dead s3 where "unwind (counted dead s) = Some (again, s3)"
    "s' = (if again then restarted sn (rewind (ck_prev s3) s3) else s3)"
proof -
  from assms obtain dead u where "unwind (counted dead s) = Some u"
    "(if \<not> fst u then Some (False, snd u)
      else if p_randomExecution (ck_params (rewind (ck_prev (snd u)) (snd u))) \<ge> 0 \<and>
          ck_replaystack (rewind (ck_prev (snd u)) (snd u)) \<noteq> [] then None
      else Some (True, restarted sn (rewind (ck_prev (snd u)) (snd u)))) = Some (again, s')"
    unfolding finish_execution_def Let_def counted_def restarted_def
    by (auto simp only: bind_eq_Some_conv case_prod_beta)
  with that [of dead "snd u"] show thesis
    by (cases u) (auto split: if_split_asm)
qed

lemma finish_execution_stacks:
  assumes fin: "finish_execution sn s = Some (again, s')" and rep: "ck_replaystack s = []"
    and det: "\<not> isRandomExecutionEnabled s"
  shows "case backtrack (stacks_of s) of None \<Rightarrow> \<not> again | Some st \<Rightarrow> again \<and> stacks_of s' = st \<and> ck_prev s' = []"
proof -
  from fin obtain dead s3 where
    s3: "unwind (counted dead s) = Some (again, s3)" (is "unwind ?s2 = _")
    and out: "s' = (if again then restarted sn (rewind (ck_prev s3) s3) else s3)"
    by (rule finish_execution_steps)
  have s2: "ck_nodestack ?s2 = ck_nodestack s" "ck_prev ?s2 = ck_prev s" "ck_replaystack ?s2 = []"
    "\<not> isRandomExecutionEnabled ?s2"
    using rep det by (simp_all add: counted_def Let_def assert_bug_def isRandomExecutionEnabled_def upd_cur_def upd_exec_def)
  define avail where "avail = dropWhile (\<lambda>n. \<not> has_another_execution n) (ck_nodestack s # map snd (ck_prev s))"
  have bk: "backtrack (stacks_of s) = resume (rev avail)"
    by (simp only: stacks_of_def backtrack.simps avail_def)
  from unwind_stacks [OF s3, unfolded s2, folded avail_def] s2(4)
  have u: "ck_replaystack s3 = []" "case avail of [] \<Rightarrow> \<not> again
      | n # rest \<Rightarrow> again \<and> ck_nodestack s3 = n \<and> map snd (ck_prev s3) = rest"
    by (simp_all split: list.splits)
  show ?thesis
  proof (cases avail)
    case Nil
    with bk u show ?thesis by (simp add: resume_def)
  next
    case (Cons n rest)
    with u have u': again "ck_nodestack s3 = n" "map snd (ck_prev s3) = rest" by simp_all
    let ?r = "rewind (ck_prev s3) s3"
    from rewind_stacks [of "ck_prev s3" s3] u u' have
      "stacks_of ?r = (last (n # rest), [], rev (map reset_execution (butlast (n # rest))))"
      by (simp add: Let_def)
    then have r: "ck_nodestack ?r = last (n # rest)" "ck_prev ?r = []"
        "ck_replaystack ?r = rev (map reset_execution (butlast (n # rest)))"
      by (simp_all add: stacks_of_def)
    have rev_avail: "rev avail = last (n # rest) # rev (butlast (n # rest))"
      by (simp only: Cons) (metis append_butlast_last_id list.distinct(1) rev.simps(2) rev_rev_ident rev_append rev_singleton_conv append_Cons append_Nil)
    from bk have "backtrack (stacks_of s) = Some
       (if butlast (n # rest) \<noteq> [] then repeat_prev_execution (reset_execution (last (n # rest)))
        else reset_execution (last (n # rest)), [], map reset_execution (rev (butlast (n # rest))))"
      unfolding rev_avail by (simp only: resume_def list.case rev_is_Nil_conv)
    moreover have "ck_prev s' = []" "stacks_of s' =
       (if butlast (n # rest) \<noteq> [] then repeat_prev_execution (reset_execution (last (n # rest)))
        else reset_execution (last (n # rest)), [], map reset_execution (rev (butlast (n # rest))))"
      using out u'(1) r
      by (simp_all add: restarted_def stacks_of_def reset_to_initial_state_def free_execution_def emit_def
          rev_map del: butlast.simps last.simps)
    ultimately show ?thesis using u'(1) by simp
  qed
qed

text \<open>
  C7: When an execution ends, \<^verbatim>\<open>finish_execution\<close> and \<^verbatim>\<open>startChecker\<close> go back to the latest
  execution that has another choice: the checker ends exactly when there is none, and
  otherwise starts over from the original execution on the stacks that \<open>backtrack\<close> gives.
\<close>
theorem finish_refines:
  assumes "finishRunExecution sn s = Some out" "ck_replaystack s = []" "\<not> isRandomExecutionEnabled s"
  shows "case backtrack (stacks_of s) of
      None \<Rightarrow> \<exists>s'. out = Exit s'
    | Some st \<Rightarrow> \<exists>s'. out = Restart s' \<and> stacks_of s' = st"
proof -
  from assms obtain s1 again s2 where s1: "set_current_thread None s = Some s1"
    and s2: "finish_execution sn (s1\<lparr>ck_curr_thread_num := 1\<rparr>) = Some (again, s2)"
    and out: "if again then \<exists>s3. startChecker sn s2 = Some s3 \<and> out = Restart s3 else out = Exit s2"
    by (auto simp: finishRunExecution_def bind_eq_Some_conv split: prod.splits if_splits)
  from set_current_thread_fixed [OF s1] have f: "fixed (s1\<lparr>ck_curr_thread_num := 1\<rparr>) = fixed s" by simp
  have st: "stacks_of (s1\<lparr>ck_curr_thread_num := 1\<rparr>) = stacks_of s" by (rule fixed_stacks) (rule f)
  from f assms have "ck_replaystack (s1\<lparr>ck_curr_thread_num := 1\<rparr>) = []"
    "\<not> isRandomExecutionEnabled (s1\<lparr>ck_curr_thread_num := 1\<rparr>)"
    by (simp_all add: fixed_def isRandomExecutionEnabled_def)
  note fin = finish_execution_stacks [OF s2 this, unfolded st]
  show ?thesis
  proof (cases "backtrack (stacks_of s)")
    case None
    with fin out show ?thesis by simp
  next
    case (Some st')
    with fin have s2': again "stacks_of s2 = st'" "ck_prev s2 = []" by simp_all
    with out obtain s3 where s3: "startChecker sn s2 = Some s3" "out = Restart s3" by auto
    from startChecker_stacks [OF s3(1)] s2' s3(2) Some show ?thesis by simp
  qed
qed

theorem finish_refines_witness:
  "\<exists>s'. finishRunExecution \<lparr>sn_sched = Scheduler, sn_mutexes = ck_mutexes crash_demo, sn_mem = (\<lambda>_. 0),
      sn_alt_region = None, sn_init_thread = UserThread 1 None, sn_random_pos = 0\<rparr> crash_demo = Some (Exit s')"
proof -
  let ?sn = "\<lparr>sn_sched = Scheduler, sn_mutexes = ck_mutexes crash_demo, sn_mem = (\<lambda>_. 0),
      sn_alt_region = None, sn_init_thread = UserThread 1 None, sn_random_pos = 0\<rparr>"
  have "\<not> Option.is_none (finishRunExecution ?sn crash_demo)" by code_simp
  then obtain out where out: "finishRunExecution ?sn crash_demo = Some out" by (auto simp: Option.is_none_def)
  have c: "ck_replaystack crash_demo = []" "\<not> isRandomExecutionEnabled crash_demo"
    "backtrack (stacks_of crash_demo) = None"
    by (simp_all add: stacks_of_def crash_demo_def demo_checker_def isRandomExecutionEnabled_def resume_def has_another_execution_def NodeStack_def)
  from finish_refines [OF out c(1,2)] c(3) out show ?thesis by auto
qed

section \<open>Bugs asserted by the program\<close>

text \<open>
  \<^verbatim>\<open>assert_user_bug\<close> never returns a next thread: it hands \<^verbatim>\<open>NULL\<close> to \<^verbatim>\<open>switch_thread\<close>,
  which asks it whether it is a write.
\<close>
theorem assert_user_bug_fails: "assert_user_bug sn msg s = None"
  by (simp add: assert_user_bug_def switch_thread_def Let_def bind_eq_None_conv split: option.split)

end
