(* ===== verification/Hash_Table.thy ===== *)
theory Hash_Table
  imports Complex_Main Prelude
begin

text \<open>
  \<^verbatim>\<open>Collection/hashtable.h\<close>: the open-addressing table that holds almost every map of the
  checker.  A slot whose key is null is free; collisions go to the next slot, and a removal
  moves later entries back so that no entry is cut off from its home slot.  Loops that
  search the table are partial functions, since a full table makes them run for ever.
\<close>

section \<open>The table\<close>

record ('k, 'v) hashtable =
  ht_table :: "('k \<times> 'v) list"
  ht_zero :: "('k \<times> 'v) option"
  ht_capacity :: u32
  ht_size :: u32
  ht_capacitymask :: u32
  ht_threshold :: u32
  ht_loadfactor :: rat

definition default_hash_function :: "nat \<Rightarrow> u64 \<Rightarrow> u32" where
  "default_hash_function sh key = (let t = ucast (drop_bit sh key) in t XOR push_bit 5 t)"

definition default_equals :: "'k \<Rightarrow> 'k \<Rightarrow> bool" where
  "default_equals key1 key2 = (key1 = key2)"

definition threshold_of :: "u32 \<Rightarrow> rat \<Rightarrow> u32" where
  "threshold_of cap factor = of_int \<lfloor>of_nat (unat cap) * factor\<rfloor>"

definition HashTable :: "u32 \<Rightarrow> rat \<Rightarrow> ('k::zero, 'v::zero) hashtable" where
  "HashTable initialcapacity factor = \<lparr>ht_table = replicate (unat initialcapacity) (0, 0), ht_zero = None,
     ht_capacity = initialcapacity, ht_size = 0, ht_capacitymask = initialcapacity - 1,
     ht_threshold = threshold_of initialcapacity factor, ht_loadfactor = factor\<rparr>"

definition ht_reset :: "('k::zero, 'v::zero) hashtable \<Rightarrow> ('k, 'v) hashtable" where
  "ht_reset t = t\<lparr>ht_table := replicate (unat (ht_capacity t)) (0, 0), ht_zero := None, ht_size := 0\<rparr>"

definition getSize :: "('k, 'v) hashtable \<Rightarrow> u32" where
  "getSize t = ht_size t"

definition isEmpty :: "('k, 'v) hashtable \<Rightarrow> bool" where
  "isEmpty t \<longleftrightarrow> ht_size t = 0"

section \<open>Growing\<close>

partial_function (option) find_empty :: "('k::zero \<times> 'v) list \<Rightarrow> u32 \<Rightarrow> u32 \<Rightarrow> u32 option" where
  "find_empty tbl msk index =
     (if fst (tbl ! unat (index AND msk)) = 0 then Some (index AND msk)
      else find_empty tbl msk ((index AND msk) + 1))"

declare find_empty.simps [code]

fun rehash :: "('k::zero \<Rightarrow> u32) \<Rightarrow> u32 \<Rightarrow> ('k \<times> 'v) list \<Rightarrow> ('k \<times> 'v) list \<Rightarrow> ('k \<times> 'v) list option" where
  "rehash hash msk [] tbl = Some tbl"
| "rehash hash msk ((key, val) # bins) tbl =
     (if key = 0 then rehash hash msk bins tbl
      else do { i \<leftarrow> find_empty tbl msk (hash key); rehash hash msk bins (tbl[unat i := (key, val)]) })"

definition resize :: "('k::zero \<Rightarrow> u32) \<Rightarrow> u32 \<Rightarrow> ('k, 'v::zero) hashtable \<Rightarrow> ('k, 'v) hashtable option" where
  "resize hash newsize t = do {
     tbl \<leftarrow> rehash hash (newsize - 1) (ht_table t) (replicate (unat newsize) (0, 0));
     Some (t\<lparr>ht_table := tbl, ht_capacity := newsize, ht_capacitymask := newsize - 1,
             ht_threshold := threshold_of newsize (ht_loadfactor t)\<rparr>)
   }"

section \<open>Inserting\<close>

text \<open>What the search of \<^verbatim>\<open>put\<close> ends with; \<open>Full\<close> is its \<^verbatim>\<open>exit(-1)\<close>.\<close>

datatype put_result = Overwrite u32 | Place u32 | Full

partial_function (option) find_slot ::
    "('k::zero \<Rightarrow> 'k \<Rightarrow> bool) \<Rightarrow> 'k \<Rightarrow> ('k \<times> 'v::zero) list \<Rightarrow> u32 \<Rightarrow> u32 \<Rightarrow> u32 \<Rightarrow> u32 option \<Rightarrow> put_result option" where
  "find_slot equals key tbl msk oindex index first =
     (if fst (tbl ! unat index) = 0 \<and> snd (tbl ! unat index) = 0
      then Some (Place (case first of None \<Rightarrow> index | Some f \<Rightarrow> f))
      else if equals (fst (tbl ! unat index)) key then Some (Overwrite index)
      else if (index + 1) AND msk = oindex
      then Some (case (if fst (tbl ! unat index) = 0 \<and> first = None then Some index else first) of
          None \<Rightarrow> Full | Some f \<Rightarrow> Place f)
      else find_slot equals key tbl msk oindex ((index + 1) AND msk)
             (if fst (tbl ! unat index) = 0 \<and> first = None then Some index else first))"

declare find_slot.simps [code]

definition put :: "('k::zero \<Rightarrow> u32) \<Rightarrow> ('k \<Rightarrow> 'k \<Rightarrow> bool) \<Rightarrow> 'k \<Rightarrow> 'v::zero \<Rightarrow> ('k, 'v) hashtable \<Rightarrow> ('k, 'v) hashtable option" where
  "put hash equals key val t =
     (if key = 0
      then Some (t\<lparr>ht_zero := Some (key, val),
                   ht_size := (if ht_zero t = None then ht_size t + 1 else ht_size t)\<rparr>)
      else do {
        t1 \<leftarrow> (if ht_size t > ht_threshold t then resize hash (push_bit 1 (ht_capacity t)) t else Some t);
        let oindex = hash key AND ht_capacitymask t1;
        r \<leftarrow> find_slot equals key (ht_table t1) (ht_capacitymask t1) oindex oindex None;
        (case r of
           Overwrite i \<Rightarrow> Some (t1\<lparr>ht_table := (ht_table t1)[unat i := (fst (ht_table t1 ! unat i), val)]\<rparr>)
         | Place i \<Rightarrow> Some (t1\<lparr>ht_table := (ht_table t1)[unat i := (key, val)], ht_size := ht_size t1 + 1\<rparr>)
         | Full \<Rightarrow> None)
      })"

section \<open>Looking up\<close>

partial_function (option) get_from ::
    "('k::zero \<Rightarrow> 'k \<Rightarrow> bool) \<Rightarrow> 'k \<Rightarrow> ('k \<times> 'v::zero) list \<Rightarrow> u32 \<Rightarrow> u32 \<Rightarrow> u32 \<Rightarrow> 'v option" where
  "get_from equals key tbl msk oindex index =
     (if fst (tbl ! unat index) = 0 \<and> snd (tbl ! unat index) = 0 then Some 0
      else if fst (tbl ! unat index) \<noteq> 0 \<and> equals (fst (tbl ! unat index)) key then Some (snd (tbl ! unat index))
      else if (index + 1) AND msk = oindex then Some 0
      else get_from equals key tbl msk oindex ((index + 1) AND msk))"

declare get_from.simps [code]

definition ht_get :: "('k::zero \<Rightarrow> u32) \<Rightarrow> ('k \<Rightarrow> 'k \<Rightarrow> bool) \<Rightarrow> 'k \<Rightarrow> ('k, 'v::zero) hashtable \<Rightarrow> 'v option" where
  "ht_get hash equals key t =
     (if key = 0 then Some (case ht_zero t of None \<Rightarrow> 0 | Some z \<Rightarrow> snd z)
      else (let oindex = hash key AND ht_capacitymask t in
        get_from equals key (ht_table t) (ht_capacitymask t) oindex oindex))"

text \<open>
  The loop of \<^verbatim>\<open>contains\<close>, which \<^verbatim>\<open>remove\<close> repeats to find the slot of its key: the slot,
  or none; it has no test for coming round.
\<close>

partial_function (option) find_key ::
    "('k::zero \<Rightarrow> 'k \<Rightarrow> bool) \<Rightarrow> 'k \<Rightarrow> ('k \<times> 'v::zero) list \<Rightarrow> u32 \<Rightarrow> u32 \<Rightarrow> u32 option option" where
  "find_key equals key tbl msk index =
     (if fst (tbl ! unat (index AND msk)) = 0 \<and> snd (tbl ! unat (index AND msk)) = 0 then Some None
      else if fst (tbl ! unat (index AND msk)) \<noteq> 0 \<and> equals (fst (tbl ! unat (index AND msk))) key
      then Some (Some (index AND msk))
      else find_key equals key tbl msk ((index AND msk) + 1))"

declare find_key.simps [code]

definition contains :: "('k::zero \<Rightarrow> u32) \<Rightarrow> ('k \<Rightarrow> 'k \<Rightarrow> bool) \<Rightarrow> 'k \<Rightarrow> ('k, 'v::zero) hashtable \<Rightarrow> bool option" where
  "contains hash equals key t =
     (if key = 0 then Some (ht_zero t \<noteq> None)
      else map_option (\<lambda>r. r \<noteq> None) (find_key equals key (ht_table t) (ht_capacitymask t) (hash key)))"

section \<open>Removing\<close>

text \<open>
  The next entry after slot \<open>j\<close> that may move to the gap at \<open>index\<close>; none when a free slot
  comes first.
\<close>

partial_function (option) find_move ::
    "('k::zero \<Rightarrow> u32) \<Rightarrow> ('k \<times> 'v::zero) list \<Rightarrow> u32 \<Rightarrow> u32 \<Rightarrow> u32 \<Rightarrow> u32 option option" where
  "find_move hash tbl msk index j =
     (let j' = (j + 1) AND msk; replace = tbl ! unat j' in
      if fst replace = 0 \<and> snd replace = 0 then Some None
      else (let h = hash (fst replace) AND msk in
        if index \<le> j' \<and> index < h \<and> h \<le> j' then find_move hash tbl msk index j'
        else if index > j' \<and> (index < h \<or> h \<le> j') then find_move hash tbl msk index j'
        else Some (Some j')))"

declare find_move.simps [code]

partial_function (option) close_gap ::
    "('k::zero \<Rightarrow> u32) \<Rightarrow> u32 \<Rightarrow> ('k \<times> 'v::zero) list \<Rightarrow> u32 \<Rightarrow> ('k \<times> 'v) list option" where
  "close_gap hash msk tbl index =
     (let tbl' = tbl[unat index := (0, 0)] in
      Option.bind (find_move hash tbl' msk index index)
       (\<lambda>r. case r of
          None \<Rightarrow> Some tbl'
        | Some j \<Rightarrow> close_gap hash msk (tbl'[unat index := tbl' ! unat j]) j))"

declare close_gap.simps [code]

definition ht_remove :: "('k::zero \<Rightarrow> u32) \<Rightarrow> ('k \<Rightarrow> 'k \<Rightarrow> bool) \<Rightarrow> 'k \<Rightarrow> ('k, 'v::zero) hashtable \<Rightarrow> ('v \<times> ('k, 'v) hashtable) option" where
  "ht_remove hash equals key t =
     (if key = 0
      then Some (case ht_zero t of
          None \<Rightarrow> (0, t)
        | Some z \<Rightarrow> (snd z, t\<lparr>ht_zero := None, ht_size := ht_size t - 1\<rparr>))
      else do {
        r \<leftarrow> find_key equals key (ht_table t) (ht_capacitymask t) (hash key);
        (case r of
           None \<Rightarrow> Some (0, t)
         | Some i \<Rightarrow> do {
             tbl \<leftarrow> close_gap hash (ht_capacitymask t) (ht_table t) i;
             Some (snd (ht_table t ! unat i), t\<lparr>ht_table := tbl, ht_size := ht_size t - 1\<rparr>)
           })
      })"

end
