(* ===== verification/Hash_Lemmas.thy ===== *)
theory Hash_Lemmas
  imports Hash_Table
begin

text \<open>
  The invariant of the table: every slot between the home of a key and the slot that holds
  it is in use.  The operations keep it and do to the map of entries what their names say.
\<close>

section \<open>Positions\<close>

text \<open>How far slot \<open>b\<close> is from slot \<open>a\<close>, going up and round.\<close>

definition way_dist :: "nat \<Rightarrow> nat \<Rightarrow> nat \<Rightarrow> nat" where
  "way_dist n a b = (if a \<le> b then b - a else b + n - a)"

lemma dist_self [simp]: "way_dist n a a = 0"
  by (simp add: way_dist_def)

lemma dist_less: "a < n \<Longrightarrow> b < n \<Longrightarrow> way_dist n a b < n"
  by (auto simp: way_dist_def)

lemma dist_zero: "a < n \<Longrightarrow> b < n \<Longrightarrow> way_dist n a b = 0 \<longleftrightarrow> a = b"
  by (auto simp: way_dist_def)

lemma dist_split: "a < n \<Longrightarrow> b < n \<Longrightarrow> c < n \<Longrightarrow> way_dist n a b \<le> way_dist n a c \<Longrightarrow> way_dist n a c = way_dist n a b + way_dist n b c"
  by (auto simp: way_dist_def split: if_splits)

lemma dist_inject: "a < n \<Longrightarrow> b < n \<Longrightarrow> c < n \<Longrightarrow> way_dist n a b = way_dist n a c \<longleftrightarrow> b = c"
  by (auto simp: way_dist_def)

lemma dist_next: "a < n \<Longrightarrow> j < n \<Longrightarrow> Suc j mod n \<noteq> a \<Longrightarrow> way_dist n a (Suc j mod n) = Suc (way_dist n a j)"
  by (cases "j + 1 = n") (auto simp: way_dist_def)

lemma dist_to_next: "a < n \<Longrightarrow> j < n \<Longrightarrow> j \<noteq> a \<Longrightarrow> way_dist n j a = way_dist n ((j + 1) mod n) a + 1"
  by (cases "j + 1 = n") (auto simp: way_dist_def)

text \<open>The test of \<^verbatim>\<open>remove\<close>: the home \<open>h\<close> of an entry at \<open>j\<close> is after the gap \<open>i\<close>.\<close>

lemma stays_iff:
  assumes "i < n" "j < n" "h < n" "i \<noteq> j"
  shows "(i \<le> j \<and> i < h \<and> h \<le> j \<or> i > j \<and> (i < h \<or> h \<le> j)) \<longleftrightarrow> \<not> way_dist n h i < way_dist n h j"
  using assms by (auto simp: way_dist_def)

section \<open>Indices as words\<close>

definition home :: "('k \<Rightarrow> u32) \<Rightarrow> nat \<Rightarrow> 'k \<Rightarrow> nat" where
  "home hash b key = unat (hash key) mod 2 ^ b"

lemma index_word: "p < 2 ^ b \<Longrightarrow> b < 32 \<Longrightarrow> unat (of_nat p :: u32) = p"
proof -
  assume p: "p < 2 ^ b" "b < 32"
  then have "p < 2 ^ 32" by (meson less_imp_le order_less_le_trans one_le_numeral power_increasing)
  then show ?thesis by (simp add: unsigned_of_nat take_bit_nat_eq_self)
qed

lemma index_mask: "(of_nat m :: u32) AND mask b = of_nat (m mod 2 ^ b)"
  by (simp flip: take_bit_eq_mask add: take_bit_of_nat take_bit_nat_def)

lemma index_next: "(of_nat p + 1 :: u32) AND mask b = of_nat ((p + 1) mod 2 ^ b)"
  using index_mask [of "p + 1" b] by (simp add: add.commute)

lemma index_home: "hash key AND mask b = of_nat (home hash b key)"
  using index_mask [of "unat (hash key)" b] by (simp add: home_def)

lemma home_less [simp]: "home hash b key < 2 ^ b"
  by (simp add: home_def)

lemma index_eq: "p < 2 ^ b \<Longrightarrow> q < 2 ^ b \<Longrightarrow> b < 32 \<Longrightarrow> (of_nat p :: u32) = of_nat q \<longleftrightarrow> p = q"
  by (metis index_word)

lemma index_le: "p < 2 ^ b \<Longrightarrow> q < 2 ^ b \<Longrightarrow> b < 32 \<Longrightarrow> (of_nat p :: u32) \<le> of_nat q \<longleftrightarrow> p \<le> q"
  by (simp add: word_le_nat_alt index_word)

lemma index_less: "p < 2 ^ b \<Longrightarrow> q < 2 ^ b \<Longrightarrow> b < 32 \<Longrightarrow> (of_nat p :: u32) < of_nat q \<longleftrightarrow> p < q"
  by (simp add: word_less_nat_alt index_word)

lemma index_masked: "p < 2 ^ b \<Longrightarrow> (of_nat p :: u32) AND mask b = of_nat p"
  by (simp add: index_mask)

section \<open>Well-formed tables\<close>

abbreviation used_at :: "('k::zero \<times> 'v) list \<Rightarrow> nat \<Rightarrow> bool" where
  "used_at T p \<equiv> fst (T ! p) \<noteq> 0"

definition clean :: "('k::zero \<times> 'v::zero) list \<Rightarrow> bool" where
  "clean T \<longleftrightarrow> (\<forall>p < length T. \<not> used_at T p \<longrightarrow> T ! p = (0, 0)) \<and>
     (\<forall>p < length T. \<forall>q < length T. used_at T p \<longrightarrow> fst (T ! p) = fst (T ! q) \<longrightarrow> p = q)"

text \<open>The way from the home of the entry at \<open>p\<close> to \<open>p\<close> passes \<open>q\<close>.\<close>

definition passes :: "('k \<Rightarrow> u32) \<Rightarrow> nat \<Rightarrow> ('k::zero \<times> 'v) list \<Rightarrow> nat \<Rightarrow> nat \<Rightarrow> bool" where
  "passes hash b T p q \<longleftrightarrow>
     way_dist (2 ^ b) (home hash b (fst (T ! p))) q < way_dist (2 ^ b) (home hash b (fst (T ! p))) p"

definition reachable_but :: "nat set \<Rightarrow> ('k \<Rightarrow> u32) \<Rightarrow> nat \<Rightarrow> ('k::zero \<times> 'v) list \<Rightarrow> bool" where
  "reachable_but gaps hash b T \<longleftrightarrow>
     (\<forall>p < 2 ^ b. \<forall>q < 2 ^ b. used_at T p \<longrightarrow> passes hash b T p q \<longrightarrow> q \<notin> gaps \<longrightarrow> used_at T q)"

definition table_inv :: "('k \<Rightarrow> u32) \<Rightarrow> nat \<Rightarrow> ('k::zero \<times> 'v::zero) list \<Rightarrow> bool" where
  "table_inv hash b T \<longleftrightarrow> length T = 2 ^ b \<and> b < 32 \<and> clean T \<and> reachable_but {} hash b T"

definition free_slot :: "('k::zero \<times> 'v) list \<Rightarrow> nat \<Rightarrow> bool" where
  "free_slot T e \<longleftrightarrow> e < length T \<and> \<not> used_at T e"

section \<open>The entries as a map\<close>

lemma some_ext: "(\<And>v. m = Some v \<longleftrightarrow> m' = Some v) \<Longrightarrow> m = m'"
  by (cases m; cases m') auto

lemma clean_map:
  assumes "clean T" "key \<noteq> 0"
  shows "map_of T key = Some v \<longleftrightarrow> (\<exists>p < length T. T ! p = (key, v))"
proof
  assume "map_of T key = Some v"
  then have "(key, v) \<in> set T" by (rule map_of_SomeD)
  then show "\<exists>p < length T. T ! p = (key, v)" by (auto simp: in_set_conv_nth)
next
  assume "\<exists>p < length T. T ! p = (key, v)"
  then obtain p where p: "p < length T" "T ! p = (key, v)" by blast
  then have "map_of T key \<noteq> None" by (metis map_of_eq_None_iff fst_conv image_eqI nth_mem)
  then obtain v' where v': "map_of T key = Some v'" by blast
  then obtain q where q: "q < length T" "T ! q = (key, v')" by (auto simp: in_set_conv_nth dest!: map_of_SomeD)
  with p assms have "p = q" by (auto simp: clean_def)
  with p q v' show "map_of T key = Some v" by simp
qed

lemma map_none: "map_of T key = None \<longleftrightarrow> (\<forall>p < length T. fst (T ! p) \<noteq> key)"
  by (force simp: map_of_eq_None_iff in_set_conv_nth)

lemma cleanI:
  assumes "\<And>p. p < length T \<Longrightarrow> \<not> used_at T p \<Longrightarrow> T ! p = (0, 0)"
    "\<And>p q. p < length T \<Longrightarrow> q < length T \<Longrightarrow> used_at T p \<Longrightarrow> fst (T ! p) = fst (T ! q) \<Longrightarrow> p = q"
  shows "clean T"
  unfolding clean_def using assms by blast

lemma clean_zero: "clean T \<Longrightarrow> p < length T \<Longrightarrow> fst (T ! p) = 0 \<Longrightarrow> T ! p = (0, 0)"
  unfolding clean_def by blast

lemma clean_unique: "clean T \<Longrightarrow> p < length T \<Longrightarrow> q < length T \<Longrightarrow> used_at T p \<Longrightarrow> fst (T ! p) = fst (T ! q) \<Longrightarrow> p = q"
  unfolding clean_def by blast

lemma nth_upd: "p < length T \<Longrightarrow> T[p := x] ! q = (if q = p then x else T ! q)"
  by simp

lemma clean_put:
  assumes "clean T" "p < length T" "key \<noteq> 0" "\<forall>q < length T. q \<noteq> p \<longrightarrow> fst (T ! q) \<noteq> key"
  shows "clean (T[p := (key, v)])"
proof (rule cleanI)
  fix q assume "q < length (T[p := (key, v)])" "\<not> used_at (T[p := (key, v)]) q"
  with assms(2-) clean_zero [OF assms(1), of q] show "T[p := (key, v)] ! q = (0, 0)"
    by (cases "q = p") simp_all
next
  fix q r assume "q < length (T[p := (key, v)])" "r < length (T[p := (key, v)])"
    "used_at (T[p := (key, v)]) q" "fst (T[p := (key, v)] ! q) = fst (T[p := (key, v)] ! r)"
  with assms show "q = r"
    by (cases "q = p"; cases "r = p") (auto dest: clean_unique)
qed

lemma clean_clear:
  assumes "clean T" "p < length T"
  shows "clean (T[p := (0, 0)])"
proof (rule cleanI)
  fix q assume "q < length (T[p := (0, 0)])" "\<not> used_at (T[p := (0, 0)]) q"
  with assms(2-) clean_zero [OF assms(1), of q] show "T[p := (0, 0)] ! q = (0, 0)"
    by (cases "q = p") simp_all
next
  fix q r assume "q < length (T[p := (0, 0)])" "r < length (T[p := (0, 0)])"
    "used_at (T[p := (0, 0)]) q" "fst (T[p := (0, 0)] ! q) = fst (T[p := (0, 0)] ! r)"
  with assms show "q = r"
    by (cases "q = p"; cases "r = p") (auto dest: clean_unique)
qed

lemma map_upd:
  assumes "clean T" "clean (T[p := x])" "p < length T" "k \<noteq> 0"
  shows "map_of (T[p := x]) k = (if fst x = k then Some (snd x) else if fst (T ! p) = k then None else map_of T k)"
proof (rule some_ext)
  fix w
  have "(\<exists>q < length T. T[p := x] ! q = (k, w)) \<longleftrightarrow> x = (k, w) \<or> (\<exists>q < length T. q \<noteq> p \<and> T ! q = (k, w))"
    using assms(3) by (auto simp: nth_list_update)
  moreover have "(\<exists>q < length T. q \<noteq> p \<and> T ! q = (k, w)) \<longleftrightarrow> fst (T ! p) \<noteq> k \<and> (\<exists>q < length T. T ! q = (k, w))"
    using assms(1,3,4) by (metis clean_unique fst_conv)
  moreover have "fst x = k \<Longrightarrow> \<not> (\<exists>q < length T. q \<noteq> p \<and> T ! q = (k, w))"
    using clean_unique [OF assms(2), of p] assms(3,4) by (metis fst_conv length_list_update nth_list_update_eq nth_list_update_neq)
  ultimately show "map_of (T[p := x]) k = Some w \<longleftrightarrow>
      (if fst x = k then Some (snd x) else if fst (T ! p) = k then None else map_of T k) = Some w"
    using clean_map [OF assms(2,4), of w] clean_map [OF assms(1,4), of w] by (cases x) auto
qed

end
