(* ===== verification/Hash_Probe.thy ===== *)
theory Hash_Probe
  imports Hash_Lemmas
begin

text \<open>
  Every search of the table walks from the home of its key and ends at the slot of the key
  or, if there is none, at the first free slot.
\<close>

section \<open>The slots from a home on\<close>

definition at_way :: "nat \<Rightarrow> nat \<Rightarrow> nat \<Rightarrow> nat" where
  "at_way b h j = (h + j) mod 2 ^ b"

lemma at_way_less [simp]: "at_way b h j < 2 ^ b"
  by (simp add: at_way_def)

lemma at_way_0 [simp]: "h < 2 ^ b \<Longrightarrow> at_way b h 0 = h"
  by (simp add: at_way_def)

lemma at_way_Suc: "Suc (at_way b h j) mod 2 ^ b = at_way b h (Suc j)"
  by (simp add: at_way_def mod_simps)

lemma at_way_dist: "h < 2 ^ b \<Longrightarrow> e < 2 ^ b \<Longrightarrow> at_way b h (way_dist (2 ^ b) h e) = e"
  by (auto simp: at_way_def way_dist_def)

lemma dist_at_way: "h < 2 ^ b \<Longrightarrow> j < 2 ^ b \<Longrightarrow> way_dist (2 ^ b) h (at_way b h j) = j"
  by (auto simp: at_way_def way_dist_def mod_if)

lemma at_way_home: "h < 2 ^ b \<Longrightarrow> j < 2 ^ b \<Longrightarrow> at_way b h j = h \<longleftrightarrow> j = 0"
  by (metis at_way_0 dist_at_way dist_self)

lemma reachableD: "reachable_but gaps hash b T \<Longrightarrow> p < 2 ^ b \<Longrightarrow> used_at T p \<Longrightarrow> q < 2 ^ b \<Longrightarrow>
    passes hash b T p q \<Longrightarrow> q \<notin> gaps \<Longrightarrow> used_at T q"
  unfolding reachable_but_def by blast

text \<open>The first \<open>d\<close> slots are taken by other keys, and the next one ends the search.\<close>

definition stops :: "('k \<Rightarrow> u32) \<Rightarrow> nat \<Rightarrow> ('k::zero \<times> 'v::zero) list \<Rightarrow> 'k \<Rightarrow> nat \<Rightarrow> bool" where
  "stops hash b T key d \<longleftrightarrow> d < 2 ^ b \<and>
     (\<forall>i < d. used_at T (at_way b (home hash b key) i) \<and> fst (T ! at_way b (home hash b key) i) \<noteq> key) \<and>
     (fst (T ! at_way b (home hash b key) d) = key \<or>
      T ! at_way b (home hash b key) d = (0, 0) \<and> (\<forall>p < 2 ^ b. fst (T ! p) \<noteq> key))"

lemma search_stops:
  assumes inv: "table_inv hash b T" and free: "free_slot T e" and key: "key \<noteq> 0"
  shows "\<exists>d. stops hash b T key d"
proof -
  let ?h = "home hash b key"
  let ?halt = "\<lambda>d. \<not> used_at T (at_way b ?h d) \<or> fst (T ! at_way b ?h d) = key"
  from inv have T: "length T = 2 ^ b" "clean T" "reachable_but {} hash b T" by (simp_all add: table_inv_def)
  have e: "e < 2 ^ b" "\<not> used_at T e" using free T by (simp_all add: free_slot_def)
  define d where "d = (LEAST d. ?halt d)"
  have "?halt (way_dist (2 ^ b) ?h e)" using e by (simp add: at_way_dist)
  then have d: "?halt d" "d \<le> way_dist (2 ^ b) ?h e" unfolding d_def by (rule LeastI, rule Least_le)
  have before: "\<not> ?halt i" if "i < d" for i using that not_less_Least unfolding d_def by blast
  have dn: "d < 2 ^ b" using d(2) e dist_less [of ?h "2 ^ b" e] by simp
  have none: "fst (T ! p) \<noteq> key" if free_d: "\<not> used_at T (at_way b ?h d)" and p: "p < 2 ^ b" for p
  proof
    assume k: "fst (T ! p) = key"
    have up: "used_at T p" using k key by simp
    show False
    proof (cases "d < way_dist (2 ^ b) ?h p")
      case True
      then have "passes hash b T p (at_way b ?h d)" using k dn by (simp add: passes_def dist_at_way)
      from reachableD [OF T(3) p up at_way_less this] free_d show False by simp
    next
      case False
      have "at_way b ?h (way_dist (2 ^ b) ?h p) = p" using p by (simp add: at_way_dist)
      with k before False up free_d show False by (metis linorder_neqE_nat)
    qed
  qed
  have zero: "T ! at_way b ?h d = (0, 0)" if "\<not> used_at T (at_way b ?h d)"
    using clean_zero [OF T(2)] T(1) that by simp
  show ?thesis
    using d(1) dn before none zero by (intro exI [of _ d]) (auto simp: stops_def)
qed

lemma stops_unique: "stops hash b T key d \<Longrightarrow> stops hash b T key d' \<Longrightarrow> key \<noteq> 0 \<Longrightarrow> d = d'"
  unfolding stops_def by (metis at_way_less fst_conv linorder_neqE_nat)

section \<open>The searches\<close>

abbreviation way :: "('k \<Rightarrow> u32) \<Rightarrow> nat \<Rightarrow> 'k \<Rightarrow> nat \<Rightarrow> nat" where
  "way hash b key j \<equiv> at_way b (home hash b key) j"

lemma on_way:
  assumes "stops hash b T key d" "i < d"
  shows "used_at T (way hash b key i)" "fst (T ! way hash b key i) \<noteq> key"
  using assms by (simp_all add: stops_def)

lemma at_stop: "stops hash b T key d \<Longrightarrow> fst (T ! way hash b key d) = key \<or> T ! way hash b key d = (0, 0)"
  by (auto simp: stops_def)

lemma way_word: "b < 32 \<Longrightarrow> unat (of_nat (at_way b h i) :: u32) = at_way b h i"
  by (rule index_word) simp_all

lemma way_next: "(of_nat (at_way b h i) + 1 :: u32) AND mask b = of_nat (at_way b h (Suc i))"
  using index_next [of "at_way b h i" b] by (simp add: at_way_Suc)

lemma way_round:
  assumes "stops hash b T key d" "b < 32" "i < d"
  shows "(of_nat (way hash b key (Suc i)) :: u32) \<noteq> of_nat (home hash b key)"
proof -
  have "Suc i < 2 ^ b" using assms by (simp add: stops_def)
  with at_way_home [of "home hash b key" b "Suc i"] have "way hash b key (Suc i) \<noteq> home hash b key" by simp
  then show ?thesis using index_eq [of "way hash b key (Suc i)" b "home hash b key"] assms(2) by simp
qed

lemma default_equals_eq: "default_equals = (=)"
  by (simp add: fun_eq_iff default_equals_def)

lemma get_from_way:
  assumes "stops hash b T key d" "key \<noteq> 0" "b < 32" "j \<le> d"
  shows "get_from default_equals key T (mask b) (of_nat (home hash b key)) (of_nat (way hash b key j))
    = Some (if fst (T ! way hash b key d) = key then snd (T ! way hash b key d) else 0)"
  using assms(4)
proof (induction rule: inc_induct)
  case base
  show ?case using at_stop [OF assms(1)] assms(2,3)
    by (subst get_from.simps) (auto simp: default_equals_eq way_word)
next
  case (step i)
  then show ?case using on_way [OF assms(1) step(2)] way_round [OF assms(1,3) step(2)] assms(3)
    by (subst get_from.simps) (simp add: default_equals_eq way_word way_next)
qed

lemma find_slot_way:
  assumes "stops hash b T key d" "key \<noteq> 0" "b < 32" "j \<le> d"
  shows "find_slot default_equals key T (mask b) (of_nat (home hash b key)) (of_nat (way hash b key j)) None
    = Some (if fst (T ! way hash b key d) = key then Overwrite (of_nat (way hash b key d))
            else Place (of_nat (way hash b key d)))"
  using assms(4)
proof (induction rule: inc_induct)
  case base
  show ?case using at_stop [OF assms(1)] assms(2,3)
    by (subst find_slot.simps) (auto simp: default_equals_eq way_word)
next
  case (step i)
  then show ?case using on_way [OF assms(1) step(2)] way_round [OF assms(1,3) step(2)] assms(3)
    by (subst find_slot.simps) (simp add: default_equals_eq way_word way_next)
qed

lemma find_key_way:
  assumes "stops hash b T key d" "key \<noteq> 0" "b < 32" "j \<le> d" "index AND mask b = of_nat (way hash b key j)"
  shows "find_key default_equals key T (mask b) index
    = Some (if fst (T ! way hash b key d) = key then Some (of_nat (way hash b key d)) else None)"
  using assms(4,5)
proof (induction arbitrary: index rule: inc_induct)
  case base
  then show ?case using at_stop [OF assms(1)] assms(2,3)
    by (subst find_key.simps) (auto simp: default_equals_eq way_word)
next
  case (step i)
  then show ?case using on_way [OF assms(1) step(2)] assms(3)
    by (subst find_key.simps) (simp add: default_equals_eq way_word way_next)
qed

lemma find_empty_way:
  assumes "stops hash b T key d" "key \<noteq> 0" "b < 32" "j \<le> d" "index AND mask b = of_nat (way hash b key j)"
    "\<forall>p < 2 ^ b. fst (T ! p) \<noteq> key"
  shows "find_empty T (mask b) index = Some (of_nat (way hash b key d))"
  using assms(4,5)
proof (induction arbitrary: index rule: inc_induct)
  case base
  then show ?case using at_stop [OF assms(1)] assms(2,3,6)
    by (subst find_empty.simps) (auto simp: way_word)
next
  case (step i)
  then show ?case using on_way [OF assms(1) step(2)] assms(3)
    by (subst find_empty.simps) (simp add: way_word way_next)
qed

end
