(* ===== verification/Hash_Ops.thy ===== *)
theory Hash_Ops
  imports Hash_Probe
begin

text \<open>
  The operations on well-formed tables: placing an entry, moving entries back into a gap,
  rehashing; and the contract of the table as a map.
\<close>

section \<open>Counting entries\<close>

definition used_count :: "('k::zero \<times> 'v) list \<Rightarrow> nat" where
  "used_count T = length (filter (\<lambda>e. fst e \<noteq> 0) T)"

lemma used_count_update:
  "p < length T \<Longrightarrow> used_count (T[p := x]) + (if used_at T p then 1 else 0) = used_count T + (if fst x \<noteq> 0 then 1 else 0)"
  unfolding used_count_def by (rule filter_update_length)

lemma used_count_free: "used_count T < length T \<Longrightarrow> \<exists>e. free_slot T e"
proof (rule ccontr)
  assume "used_count T < length T" "\<nexists>e. free_slot T e"
  then have "\<forall>x \<in> set T. fst x \<noteq> 0" by (metis free_slot_def in_set_conv_nth)
  then have "filter (\<lambda>e. fst e \<noteq> 0) T = T" by simp
  with \<open>used_count T < length T\<close> show False by (simp add: used_count_def)
qed

lemma used_count_replicate [simp]: "used_count (replicate n (0, v)) = 0"
  by (simp add: used_count_def)

section \<open>Placing an entry\<close>

lemma reachableI:
  assumes "\<And>p q. p < 2 ^ b \<Longrightarrow> used_at T p \<Longrightarrow> q < 2 ^ b \<Longrightarrow> passes hash b T p q \<Longrightarrow> q \<notin> gaps \<Longrightarrow> used_at T q"
  shows "reachable_but gaps hash b T"
  unfolding reachable_but_def using assms by blast

lemma place_inv:
  fixes T :: "('k::zero \<times> 'v::zero) list" and v :: 'v
  assumes inv: "table_inv hash b T" and stop: "stops hash b T key d" and key: "key \<noteq> 0"
  defines "T' \<equiv> T[way hash b key d := (key, v)]"
  shows "table_inv hash b T'" "\<And>k. k \<noteq> 0 \<Longrightarrow> map_of T' k = (if k = key then Some v else map_of T k)"
    "used_count T' = used_count T + (if fst (T ! way hash b key d) = key then 0 else 1)"
proof -
  let ?p = "way hash b key d"
  from inv have T: "length T = 2 ^ b" "clean T" "reachable_but {} hash b T" "b < 32" by (simp_all add: table_inv_def)
  have p: "?p < length T" by (simp add: T)
  have others: "\<forall>q < length T. q \<noteq> ?p \<longrightarrow> fst (T ! q) \<noteq> key"
    using stop T(1) p key clean_unique [OF T(2), of ?p] by (auto simp: stops_def)
  have c: "clean T'" unfolding T'_def using T(2) p key others by (rule clean_put)
  have keep: "used_at T q \<Longrightarrow> used_at T' q" for q using p key by (cases "q = ?p") (simp_all add: T'_def)
  have "reachable_but {} hash b T'"
  proof (rule reachableI)
    fix r q assume r: "r < 2 ^ b" "used_at T' r" "q < 2 ^ b" "passes hash b T' r q"
    show "used_at T' q"
    proof (cases "r = ?p")
      case True
      with r p have l: "way_dist (2 ^ b) (home hash b key) q < d"
        using stop by (simp add: passes_def T'_def dist_at_way stops_def)
      from on_way(1) [OF stop l] r(3) have "used_at T q" by (simp add: at_way_dist)
      then show ?thesis by (rule keep)
    next
      case False
      with r(2,4) have "used_at T r" "passes hash b T r q" by (simp_all add: T'_def passes_def)
      from reachableD [OF T(3) r(1) this(1) r(3) this(2)] show ?thesis by (intro keep) simp
    qed
  qed
  with c T(1,4) show "table_inv hash b T'" by (simp add: table_inv_def T'_def)
  show "map_of T' k = (if k = key then Some v else map_of T k)" if "k \<noteq> 0" for k
    using map_upd [OF T(2) c [unfolded T'_def] p that] at_stop [OF stop] that unfolding T'_def by auto
  show "used_count T' = used_count T + (if fst (T ! ?p) = key then 0 else 1)"
    using used_count_update [OF p, of "(key, v)"] at_stop [OF stop] key unfolding T'_def by auto
qed

section \<open>Closing a gap\<close>

text \<open>
  Slot \<open>i\<close> was cleared and the slots after it up to \<open>j\<close>, all in use, need not move; \<open>e\<close> is
  a free slot further on.
\<close>

definition gap_inv :: "('k \<Rightarrow> u32) \<Rightarrow> nat \<Rightarrow> ('k::zero \<times> 'v::zero) list \<Rightarrow> nat \<Rightarrow> nat \<Rightarrow> nat \<Rightarrow> bool" where
  "gap_inv hash b T i j e \<longleftrightarrow>
     length T = 2 ^ b \<and> b < 32 \<and> clean T \<and> i < 2 ^ b \<and> j < 2 ^ b \<and> e < 2 ^ b \<and> e \<noteq> i \<and>
     \<not> used_at T i \<and> \<not> used_at T e \<and> reachable_but {i} hash b T \<and> way_dist (2 ^ b) i j < way_dist (2 ^ b) i e \<and>
     (\<forall>p < 2 ^ b. used_at T p \<longrightarrow> way_dist (2 ^ b) i p \<le> way_dist (2 ^ b) i j \<longrightarrow> \<not> passes hash b T p i)"

lemma gap_end:
  assumes g: "gap_inv hash b T i j e" and free: "\<not> used_at T ((j + 1) mod 2 ^ b)"
  shows "reachable_but {} hash b T"
proof (rule reachableI)
  let ?n = "2 ^ b :: nat" and ?j = "(j + 1) mod 2 ^ b"
  fix p q assume p: "p < 2 ^ b" "used_at T p" "q < 2 ^ b" "passes hash b T p q"
  from g have i: "i < 2 ^ b" "j < 2 ^ b" "e < 2 ^ b" "reachable_but {i} hash b T" "way_dist ?n i j < way_dist ?n i e" "\<not> used_at T i" "e \<noteq> i"
    by (simp_all add: gap_inv_def)
  have "q \<noteq> i"
  proof
    assume "q = i"
    with p(4) have pi: "passes hash b T p i" by simp
    let ?h = "home hash b (fst (T ! p))"
    have "?j \<noteq> i"
    proof
      assume "?j = i"
      then have "way_dist ?n i j = ?n - 1" using i(1,2) by (cases "j + 1 = ?n") (auto simp: way_dist_def)
      with i(1,3,5) dist_less [of i ?n e] show False by simp
    qed
    then have dj: "way_dist ?n i ?j = way_dist ?n i j + 1" using i(1,2) by (simp add: dist_next)
    from g pi p have "way_dist ?n i j < way_dist ?n i p" by (auto simp: gap_inv_def not_le [symmetric])
    with dj have le: "way_dist ?n i ?j \<le> way_dist ?n i p" by simp
    have "?j \<noteq> p" using free p(2) by auto
    have "way_dist ?n ?h p = way_dist ?n ?h i + way_dist ?n i p"
      using pi i(1) p(1) by (intro dist_split) (simp_all add: passes_def)
    moreover have "way_dist ?n i p = way_dist ?n i ?j + way_dist ?n ?j p"
      using le i(1) p(1) by (intro dist_split) simp_all
    moreover have "way_dist ?n ?j p \<noteq> 0" using \<open>?j \<noteq> p\<close> p(1) by (simp add: dist_zero)
    moreover have "way_dist ?n ?h ?j \<le> way_dist ?n ?h i + way_dist ?n i ?j"
      using i(1) dist_less [of ?h ?n i] by (auto simp: way_dist_def)
    ultimately have "passes hash b T p ?j" by (simp add: passes_def)
    with reachableD [OF i(4) p(1,2), of ?j] \<open>?j \<noteq> i\<close> free show False by simp
  qed
  with reachableD [OF i(4) p(1,2,3,4)] show "used_at T q" by simp
qed

lemma gap_skip:
  assumes g: "gap_inv hash b T i j e" and used: "used_at T ((j + 1) mod 2 ^ b)"
    and stay: "\<not> passes hash b T ((j + 1) mod 2 ^ b) i"
  shows "gap_inv hash b T i ((j + 1) mod 2 ^ b) e"
proof -
  let ?n = "2 ^ b :: nat" and ?j = "(j + 1) mod 2 ^ b"
  from g have i: "i < 2 ^ b" "j < 2 ^ b" "e < 2 ^ b" "way_dist ?n i j < way_dist ?n i e" "\<not> used_at T i" "\<not> used_at T e"
    by (simp_all add: gap_inv_def)
  have ji: "?j \<noteq> i" using used i(5) by auto
  then have dj: "way_dist ?n i ?j = way_dist ?n i j + 1" using i(1,2) by (simp add: dist_next)
  have "?j \<noteq> e" using used i(6) by auto
  then have "way_dist ?n i ?j \<noteq> way_dist ?n i e" using i(1,3) by (simp add: dist_inject)
  with dj i(4) have lt: "way_dist ?n i ?j < way_dist ?n i e" by simp
  have "\<not> passes hash b T p i" if p: "p < 2 ^ b" "used_at T p" "way_dist ?n i p \<le> way_dist ?n i ?j" for p
  proof (cases "p = ?j")
    case True
    with stay show ?thesis by simp
  next
    case False
    then have "way_dist ?n i p \<noteq> way_dist ?n i ?j" using i(1) p(1) by (simp add: dist_inject)
    with p(3) dj have "way_dist ?n i p \<le> way_dist ?n i j" by simp
    with g p(1,2) show ?thesis by (simp add: gap_inv_def)
  qed
  with g lt show ?thesis by (simp add: gap_inv_def)
qed

text \<open>The entry at \<open>j'\<close> moves into the gap and leaves the next one.\<close>

lemma gap_move:
  assumes g: "gap_inv hash b T i j e" and used: "used_at T ((j + 1) mod 2 ^ b)"
    and move: "passes hash b T ((j + 1) mod 2 ^ b) i"
  defines "j' \<equiv> (j + 1) mod 2 ^ b" defines "T' \<equiv> (T[i := T ! j'])[j' := (0, 0)]"
  shows "gap_inv hash b T' j' j' e" "\<And>k. k \<noteq> 0 \<Longrightarrow> map_of T' k = map_of T k" "used_count T' = used_count T"
    "way_dist (2 ^ b) j' e < way_dist (2 ^ b) i e"
proof -
  let ?n = "2 ^ b :: nat"
  from g have i: "i < 2 ^ b" "j < 2 ^ b" "e < 2 ^ b" "way_dist ?n i j < way_dist ?n i e" "\<not> used_at T i" "\<not> used_at T e"
    "e \<noteq> i" "reachable_but {i} hash b T" and T: "length T = 2 ^ b" "clean T" "b < 32"
    by (simp_all add: gap_inv_def)
  have ji: "j' \<noteq> i" "j' \<noteq> e" "j' < 2 ^ b" using used i by (auto simp: j'_def)
  have swap: "T' = (T[j' := (0, 0)])[i := T ! j']" using ji(1) by (simp add: T'_def list_update_swap)
  have u: "used_at T j'" and mv: "passes hash b T j' i" using used move by (simp_all add: j'_def)
  let ?C = "T[j' := (0, 0)]"
  have c0: "clean ?C" using T ji(3) by (simp add: clean_clear)
  have only: "\<forall>q < length T. q \<noteq> j' \<longrightarrow> fst (T ! q) \<noteq> fst (T ! j')"
    using clean_unique [OF T(2)] u ji(3) T(1) by metis
  then have "\<forall>q < length ?C. q \<noteq> i \<longrightarrow> fst (?C ! q) \<noteq> fst (T ! j')"
    using u ji(3) T(1) by (auto simp: nth_list_update)
  then have c: "clean T'" using clean_put [OF c0, of i "fst (T ! j')" "snd (T ! j')"] u i(1) T(1) swap by simp
  show "map_of T' k = map_of T k" if k: "k \<noteq> 0" for k
  proof -
    have "map_of T' k = (if fst (T ! j') = k then Some (snd (T ! j')) else if fst (?C ! i) = k then None else map_of ?C k)"
      using map_upd [OF c0 _ _ k, of i "T ! j'"] c swap i(1) T(1) by simp
    moreover have "map_of ?C k = (if fst (T ! j') = k then None else map_of T k)"
      using map_upd [OF T(2) c0 _ k] k ji(3) T(1) by simp
    moreover have "fst (?C ! i) \<noteq> k" using i(5) k ji by simp
    moreover have "map_of T k = Some (snd (T ! j'))" if "fst (T ! j') = k"
      using clean_map [OF T(2) k, of "snd (T ! j')"] that ji(3) T(1) by (metis prod.collapse)
    ultimately show ?thesis by simp
  qed
  have "used_count ?C + 1 = used_count T" using used_count_update [of j' T "(0, 0)"] u ji(3) T(1) by simp
  moreover have "used_count T' = used_count ?C + 1"
    using used_count_update [of i ?C "T ! j'"] u i(1,5) ji T(1) swap by simp
  ultimately show "used_count T' = used_count T" by simp
  have dj: "way_dist ?n i j' = way_dist ?n i j + 1" using i(1,2) ji(1) by (simp add: j'_def dist_next)
  have "way_dist ?n i j' \<le> way_dist ?n i e" using dj i(4) by simp
  then have "way_dist ?n i e = way_dist ?n i j' + way_dist ?n j' e" using i(1,3) ji(3) by (intro dist_split)
  then show "way_dist ?n j' e < way_dist ?n i e" using dj by simp
  have de: "0 < way_dist ?n j' e" using ji i(3) dist_zero [of j' ?n e] by simp
  have at: "T' ! q = (if q = j' then (0, 0) else if q = i then T ! j' else T ! q)" if "q < 2 ^ b" for q
    using that T(1) i(1) ji(1,3) by (simp add: T'_def)
  have "reachable_but {j'} hash b T'"
  proof (rule reachableI)
    fix p q assume p: "p < 2 ^ b" "used_at T' p" "q < 2 ^ b" "passes hash b T' p q" "q \<notin> {j'}"
    let ?r = "if p = i then j' else p"
    have r: "?r < 2 ^ b" "used_at T ?r" using p(1,2) ji at u by (auto split: if_splits)
    have "passes hash b T ?r q"
    proof (cases "p = i")
      case True
      with p(4) at [OF i(1)] ji(1) mv show ?thesis by (simp add: passes_def)
    next
      case False
      with p(1,2,4) at [OF p(1)] show ?thesis by (simp add: passes_def split: if_splits)
    qed
    with reachableD [OF i(8) r p(3)] p(3,5) at [OF p(3)] u show "used_at T' q"
      by (cases "q = i") auto
  qed
  moreover have "\<not> used_at T' j'" "\<not> used_at T' e" using at [OF ji(3)] at [OF i(3)] ji i(6,7) by simp_all
  moreover have "\<not> passes hash b T' p j'" if "p < 2 ^ b" "used_at T' p" "way_dist ?n j' p \<le> 0" for p
  proof -
    have "p = j'" using that ji(3) dist_zero [of j' ?n p] by simp
    with that(2) at [OF ji(3)] show ?thesis by simp
  qed
  ultimately show "gap_inv hash b T' j' j' e"
    using T(1,3) c ji i(3) de by (simp add: gap_inv_def T'_def)
qed

lemma find_move_gap:
  assumes "gap_inv hash b T i j e"
  shows "(find_move hash T (mask b) (of_nat i) (of_nat j) = Some None \<and> reachable_but {} hash b T) \<or>
    (\<exists>m. let j' = (m + 1) mod 2 ^ b in
      find_move hash T (mask b) (of_nat i) (of_nat j) = Some (Some (of_nat j')) \<and>
      gap_inv hash b T i m e \<and> used_at T j' \<and> passes hash b T j' i)"
  using assms
proof (induction "way_dist (2 ^ b) j e" arbitrary: j rule: less_induct)
  case less
  let ?n = "2 ^ b :: nat"
  define j' where "j' = (j + 1) mod 2 ^ b"
  from less.prems have i: "i < 2 ^ b" "j < 2 ^ b" "e < 2 ^ b" "\<not> used_at T i" "b < 32" "length T = 2 ^ b" "clean T"
      "way_dist ?n i j < way_dist ?n i e"
    by (simp_all add: gap_inv_def)
  have j': "j' < 2 ^ b" by (simp add: j'_def)
  have nxt: "(of_nat j + 1 :: u32) AND mask b = of_nat j'" using index_next [of j b] by (simp add: j'_def)
  have w: "unat (of_nat j' :: u32) = j'" using j' i(5) by (rule index_word)
  let ?h = "home hash b (fst (T ! j'))"
  have hw: "hash (fst (T ! j')) AND mask b = of_nat ?h" by (rule index_home)
  show ?case
  proof (cases "used_at T j'")
    case False
    then have "T ! j' = (0, 0)" using clean_zero [OF i(7)] j' i(6) by simp
    then have "find_move hash T (mask b) (of_nat i) (of_nat j) = Some None"
      by (subst find_move.simps) (simp add: Let_def nxt w)
    with gap_end [OF less.prems] False show ?thesis by (simp add: j'_def)
  next
    case used: True
    then have ji: "j' \<noteq> i" using i(4) by auto
    have test: "((of_nat i :: u32) \<le> of_nat j' \<and> (of_nat i :: u32) < of_nat ?h \<and> (of_nat ?h :: u32) \<le> of_nat j' \<or>
        (of_nat i :: u32) > of_nat j' \<and> ((of_nat i :: u32) < of_nat ?h \<or> (of_nat ?h :: u32) \<le> of_nat j'))
        \<longleftrightarrow> \<not> passes hash b T j' i"
      using stays_iff [of i ?n j' ?h] i(1,5) j' ji by (simp add: passes_def index_le [where b = b] index_less [where b = b])
    show ?thesis
    proof (cases "passes hash b T j' i")
      case True
      with test used have "find_move hash T (mask b) (of_nat i) (of_nat j) = Some (Some (of_nat j'))"
        by (subst find_move.simps) (auto simp: Let_def nxt w hw)
      with less.prems used True show ?thesis by (auto simp: Let_def j'_def)
    next
      case False
      with test used have rec: "find_move hash T (mask b) (of_nat i) (of_nat j) = find_move hash T (mask b) (of_nat i) (of_nat j')"
        by (subst find_move.simps) (auto simp: Let_def nxt w hw)
      have g: "gap_inv hash b T i j' e" using gap_skip [OF less.prems] used False by (simp add: j'_def)
      have "j \<noteq> e" using i(8) by auto
      with i(2,3) have "way_dist ?n j' e < way_dist ?n j e" using dist_to_next [of e ?n j] by (simp add: j'_def)
      from less.hyps [OF this g] rec show ?thesis by simp
    qed
  qed
qed

text \<open>From the slot that is given up on, the gap moves until the table is well formed.\<close>

lemma close_gap_inv:
  assumes "gap_inv hash b (T[i := (0, 0)]) i i e" "i < length T"
  shows "\<exists>T'. close_gap hash (mask b) T (of_nat i) = Some T' \<and> table_inv hash b T' \<and>
    (\<forall>k. k \<noteq> 0 \<longrightarrow> map_of T' k = map_of (T[i := (0, 0)]) k) \<and> used_count T' = used_count (T[i := (0, 0)])"
  using assms
proof (induction "way_dist (2 ^ b) i e" arbitrary: i T rule: less_induct)
  case less
  let ?C = "T[i := (0, 0)]"
  from less.prems have i: "i < 2 ^ b" "b < 32" "length T = 2 ^ b" "clean ?C" by (simp_all add: gap_inv_def)
  have w: "unat (of_nat i :: u32) = i" using i(1,2) by (rule index_word)
  consider "find_move hash ?C (mask b) (of_nat i) (of_nat i) = Some None" "reachable_but {} hash b ?C"
    | m where "find_move hash ?C (mask b) (of_nat i) (of_nat i) = Some (Some (of_nat ((m + 1) mod 2 ^ b)))"
      "gap_inv hash b ?C i m e" "used_at ?C ((m + 1) mod 2 ^ b)" "passes hash b ?C ((m + 1) mod 2 ^ b) i"
    using find_move_gap [OF less.prems(1)] by (auto simp: Let_def)
  then show ?case
  proof cases
    case 1
    then have "close_gap hash (mask b) T (of_nat i) = Some ?C" by (subst close_gap.simps) (simp add: Let_def w)
    with 1(2) i show ?thesis by (simp add: table_inv_def)
  next
    case 2
    define j where "j = (m + 1) mod 2 ^ b"
    note mv = gap_move [OF 2(2-4), folded j_def]
    have j: "j < 2 ^ b" by (simp add: j_def)
    have wj: "unat (of_nat j :: u32) = j" using j i(2) by (rule index_word)
    from less.hyps [OF mv(4,1)] j i(3) obtain T' where T': "close_gap hash (mask b) (?C[i := ?C ! j]) (of_nat j) = Some T'"
      "table_inv hash b T'" "\<forall>k. k \<noteq> 0 \<longrightarrow> map_of T' k = map_of (?C[i := ?C ! j, j := (0, 0)]) k"
      "used_count T' = used_count (?C[i := ?C ! j, j := (0, 0)])" by auto
    have "close_gap hash (mask b) T (of_nat i) = Some T'"
      using 2(1) [folded j_def] T'(1) by (subst close_gap.simps) (simp add: Let_def w wj)
    with T' mv(2,3) show ?thesis by auto
  qed
qed

end
