(* ===== verification/Hash_Map.thy ===== *)
theory Hash_Map
  imports Hash_Ops
begin

text \<open>
  The contract of the table: on well-formed tables every operation returns, keeps the table
  well formed and acts on the map of entries as its name says.
\<close>

section \<open>Well-formed tables as maps\<close>

definition ht_ok :: "('k::zero \<Rightarrow> u32) \<Rightarrow> ('k, 'v::zero) hashtable \<Rightarrow> bool" where
  "ht_ok hash t \<longleftrightarrow> (\<exists>b. 2 \<le> b \<and> table_inv hash b (ht_table t) \<and> ht_capacity t = 2 ^ b \<and> ht_capacitymask t = mask b \<and>
     used_count (ht_table t) < 2 ^ b \<and>
     unat (ht_size t) = used_count (ht_table t) + (if ht_zero t = None then 0 else 1) \<and>
     0 \<le> ht_loadfactor t \<and> 2 * ht_loadfactor t \<le> 1 \<and>
     ht_threshold t = threshold_of (ht_capacity t) (ht_loadfactor t))"

definition ht_map :: "('k::zero, 'v) hashtable \<Rightarrow> 'k \<Rightarrow> 'v option" where
  "ht_map t key = (if key = 0 then map_option snd (ht_zero t) else map_of (ht_table t) key)"

lemma pow_word: "b < 32 \<Longrightarrow> unat ((2::u32) ^ b) = 2 ^ b"
proof -
  assume "b < 32"
  then have "(2::nat) ^ b < 2 ^ LENGTH(32)" by (intro power_strict_increasing) simp_all
  then have "unat (of_nat (2 ^ b) :: u32) = 2 ^ b" by (simp only: unsigned_of_nat take_bit_nat_eq_self of_nat_id)
  then show ?thesis by simp
qed

lemma threshold_half:
  assumes "0 \<le> lf" "2 * lf \<le> 1" "b < 32"
  shows "2 * unat (threshold_of (2 ^ b) lf) \<le> 2 ^ b"
proof -
  let ?y = "of_nat (2 ^ b) * lf"
  let ?x = "\<lfloor>?y\<rfloor>"
  have y: "2 * ?y \<le> of_nat (2 ^ b)"
    using mult_left_mono [of "2 * lf" 1 "of_nat (2 ^ b)"] assms(2) by (simp add: algebra_simps)
  have "of_int ?x \<le> ?y" by (rule of_int_floor_le)
  with y have "2 * of_int ?x \<le> (of_nat (2 ^ b) :: rat)" by linarith
  then have "of_int (2 * ?x) \<le> (of_int (2 ^ b) :: rat)" by simp
  then have x: "2 * ?x \<le> 2 ^ b" by (simp only: of_int_le_iff)
  have x0: "0 \<le> ?x" using assms(1) by simp
  define z where "z = ?x"
  have z: "2 * z \<le> 2 ^ b" "0 \<le> z" using x x0 by (simp_all only: z_def)
  have "(2::int) ^ b < 2 ^ LENGTH(32)" using assms(3) by (intro power_strict_increasing) simp_all
  with z have "take_bit LENGTH(32) z = z" by (intro take_bit_int_eq_self) simp_all
  then have "unat (of_int z :: u32) = nat z" by (simp only: unat_eq_nat_uint unsigned_of_int)
  moreover have "threshold_of (2 ^ b) lf = of_int z" using assms(3) by (simp add: threshold_of_def pow_word z_def)
  moreover have "int (2 * nat z) \<le> int (2 ^ b)" using z by simp
  then have "2 * nat z \<le> 2 ^ b" by (simp only: of_nat_le_iff)
  ultimately show ?thesis by simp
qed

section \<open>Rehashing\<close>

definition distinct_bins :: "('k::zero \<times> 'v) list \<Rightarrow> bool" where
  "distinct_bins bins \<longleftrightarrow> distinct (map fst (filter (\<lambda>e. fst e \<noteq> 0) bins))"

lemma distinct_binsI:
  "(\<And>p q. p < length T \<Longrightarrow> q < length T \<Longrightarrow> used_at T p \<Longrightarrow> fst (T ! p) = fst (T ! q) \<Longrightarrow> p = q) \<Longrightarrow> distinct_bins T"
proof (induction T)
  case Nil
  show ?case by (simp add: distinct_bins_def)
next
  case (Cons x T)
  have "distinct_bins T"
  proof (rule Cons.IH)
    fix p q assume "p < length T" "q < length T" "used_at T p" "fst (T ! p) = fst (T ! q)"
    with Cons.prems [of "Suc p" "Suc q"] show "p = q" by simp
  qed
  moreover have "fst x \<noteq> 0 \<Longrightarrow> e \<in> set T \<Longrightarrow> fst x \<noteq> fst e" for e
    using Cons.prems [of 0 "Suc _"] by (fastforce simp: in_set_conv_nth)
  ultimately show ?case by (auto simp: distinct_bins_def)
qed

lemma rehash_inv:
  assumes "table_inv hash b T" "distinct_bins bins" "used_count T + used_count bins < 2 ^ b"
    "\<And>key val. (key, val) \<in> set bins \<Longrightarrow> key \<noteq> 0 \<Longrightarrow> map_of T key = None"
  shows "\<exists>T'. rehash hash (mask b) bins T = Some T' \<and> table_inv hash b T' \<and> used_count T' = used_count T + used_count bins \<and>
    (\<forall>k. k \<noteq> 0 \<longrightarrow> map_of T' k = (case map_of bins k of None \<Rightarrow> map_of T k | Some v \<Rightarrow> Some v))"
  using assms
proof (induction bins arbitrary: T)
  case Nil
  then show ?case by (simp add: used_count_def)
next
  case (Cons bin bins)
  obtain key val where bin: "bin = (key, val)" by fastforce
  from Cons.prems(2) have d: "distinct_bins bins" by (simp add: distinct_bins_def split: if_splits)
  show ?case
  proof (cases "key = 0")
    case True
    with Cons.prems Cons.IH [OF Cons.prems(1) d] bin show ?thesis
      by (auto simp: used_count_def)
  next
    case key: False
    from Cons.prems(1) have T: "length T = 2 ^ b" "b < 32" "clean T" by (simp_all add: table_inv_def)
    from Cons.prems(3) T obtain e where "free_slot T e" using used_count_free [of T] by auto
    from search_stops [OF Cons.prems(1) this key] obtain d where s: "stops hash b T key d" by blast
    have none: "map_of T key = None" using Cons.prems(4) [of key val] bin key by simp
    then have absent: "\<forall>p < 2 ^ b. fst (T ! p) \<noteq> key" using T(1) by (simp add: map_none)
    have "hash key AND mask b = of_nat (way hash b key 0)" by (simp add: index_home)
    from find_empty_way [OF s key T(2) _ this absent]
    have f: "find_empty T (mask b) (hash key) = Some (of_nat (way hash b key d))" by simp
    let ?T = "T[way hash b key d := (key, val)]"
    note pl = place_inv [OF Cons.prems(1) s key, where v = val]
    have u: "used_count ?T = used_count T + 1" using pl(3) absent by simp
    have sum: "used_count ?T + used_count bins = used_count T + used_count (bin # bins)"
      using u key bin by (simp add: used_count_def)
    have lim: "used_count ?T + used_count bins < 2 ^ b" using Cons.prems(3) sum by simp
    have fresh: "map_of ?T k = None" if "(k, w) \<in> set bins" "k \<noteq> 0" for k w
    proof -
      have "k \<noteq> key" using Cons.prems(2) that key bin by (force simp: distinct_bins_def)
      with pl(2) [OF that(2)] Cons.prems(4) [of k w] that show ?thesis by simp
    qed
    from Cons.IH [OF pl(1) d lim] fresh obtain T' where T': "rehash hash (mask b) bins ?T = Some T'"
      "table_inv hash b T'" "used_count T' = used_count ?T + used_count bins"
      "\<forall>k. k \<noteq> 0 \<longrightarrow> map_of T' k = (case map_of bins k of None \<Rightarrow> map_of ?T k | Some v \<Rightarrow> Some v)" by blast
    have "map_of bins key = None" using Cons.prems(2) key bin
      by (force simp: distinct_bins_def map_of_eq_None_iff)
    then have "\<forall>k. k \<noteq> 0 \<longrightarrow> map_of T' k = (case map_of (bin # bins) k of None \<Rightarrow> map_of T k | Some v \<Rightarrow> Some v)"
      using T'(4) pl(2) bin by (auto split: option.split)
    moreover have "rehash hash (mask b) (bin # bins) T = Some T'"
      using f T'(1) key bin way_word [OF T(2)] by simp
    ultimately show ?thesis using T'(2,3) sum by simp
  qed
qed

section \<open>The operations\<close>

lemma word_shift: "push_bit (Suc 0) ((2::u32) ^ b) = 2 ^ Suc b" "(2::u32) ^ b - 1 = mask b"
  by (simp_all add: push_bit_eq_mult mask_eq_exp_minus_1)

lemma ht_okE:
  assumes "ht_ok hash t"
  obtains b where "2 \<le> b" "b < 32" "table_inv hash b (ht_table t)" "length (ht_table t) = 2 ^ b" "clean (ht_table t)"
    "ht_capacity t = 2 ^ b" "ht_capacitymask t = mask b" "used_count (ht_table t) < 2 ^ b"
    "unat (ht_size t) = used_count (ht_table t) + (if ht_zero t = None then 0 else 1)"
    "0 \<le> ht_loadfactor t" "2 * ht_loadfactor t \<le> 1" "ht_threshold t = threshold_of (2 ^ b) (ht_loadfactor t)"
  using assms unfolding ht_ok_def table_inv_def by metis

lemma new_table_inv: "b < 32 \<Longrightarrow> table_inv hash b (replicate (2 ^ b) (0, 0))"
  by (simp add: table_inv_def reachable_but_def clean_def)

lemma map_of_new [simp]: "map_of (replicate n (0, 0)) k = (if n \<noteq> 0 \<and> k = 0 then Some 0 else None)"
  by (induction n) auto

lemma HashTable_ok:
  assumes "2 \<le> b" "b < 32" "0 \<le> factor" "2 * factor \<le> 1"
  shows "ht_ok hash (HashTable (2 ^ b) factor)" "ht_map (HashTable (2 ^ b) factor) = Map.empty"
proof -
  show "ht_ok hash (HashTable (2 ^ b) factor)"
    unfolding ht_ok_def by (rule exI [of _ b])
      (use assms in \<open>simp add: HashTable_def pow_word new_table_inv word_shift\<close>)
  show "ht_map (HashTable (2 ^ b) factor) = Map.empty"
    by (rule ext) (simp add: ht_map_def HashTable_def)
qed

lemma resize_ok:
  assumes ok: "ht_ok hash t" and small: "ht_capacity t < 2 ^ 31"
  obtains t' where "resize hash (push_bit 1 (ht_capacity t)) t = Some t'" "ht_ok hash t'" "ht_map t' = ht_map t"
    "ht_size t' = ht_size t" "ht_zero t' = ht_zero t" "ht_capacity t' = 2 * ht_capacity t"
    "2 * used_count (ht_table t') < unat (ht_capacity t')"
proof -
  from ok obtain b where t: "2 \<le> b" "b < 32" "length (ht_table t) = 2 ^ b" "clean (ht_table t)"
    "ht_capacity t = 2 ^ b" "used_count (ht_table t) < 2 ^ b"
    "unat (ht_size t) = used_count (ht_table t) + (if ht_zero t = None then 0 else 1)"
    "0 \<le> ht_loadfactor t" "2 * ht_loadfactor t \<le> 1" by (rule ht_okE)
  from small t(2,5) have b: "Suc b < 32" by (cases "b = 31") (simp_all add: less_Suc_eq)
  have d: "distinct_bins (ht_table t)" by (rule distinct_binsI) (rule clean_unique [OF t(4)])
  define new :: "('a \<times> 'b) list" where "new = replicate (2 ^ Suc b) (0, 0)"
  have new: "table_inv hash (Suc b) new" "used_count new = 0" "\<And>k. k \<noteq> 0 \<Longrightarrow> map_of new k = None"
    unfolding new_def using new_table_inv [OF b] by (simp_all del: power_Suc)
  from t(6) new(2) have lim: "used_count new + used_count (ht_table t) < 2 ^ Suc b" by simp
  obtain T' where
    T': "rehash hash (mask (Suc b)) (ht_table t) new = Some T'" "table_inv hash (Suc b) T'"
      "used_count T' = used_count (ht_table t)"
      "\<forall>k. k \<noteq> 0 \<longrightarrow> map_of T' k = (case map_of (ht_table t) k of None \<Rightarrow> map_of new k | Some v \<Rightarrow> Some v)"
    using rehash_inv [OF new(1) d lim new(3)] new(2) by auto
  have T'm: "map_of T' k = map_of (ht_table t) k" if "k \<noteq> 0" for k
    using T'(4) new(3) [OF that] that by (cases "map_of (ht_table t) k") simp_all
  define t' where "t' = t\<lparr>ht_table := T', ht_capacity := 2 ^ Suc b, ht_capacitymask := mask (Suc b),
             ht_threshold := threshold_of (2 ^ Suc b) (ht_loadfactor t)\<rparr>"
  have r1: "resize hash (push_bit 1 (ht_capacity t)) t = Some t'"
    using T'(1) b t(5) unfolding t'_def resize_def new_def by (simp only: word_shift One_nat_def t(5) pow_word [OF b]) simp
  have r2: "ht_ok hash t'"
    unfolding ht_ok_def by (rule exI [of _ "Suc b"]) (use t T' in \<open>simp add: t'_def\<close>)
  have r3: "ht_map t' = ht_map t" using T'm by (auto simp: ht_map_def t'_def)
  have r4: "2 * used_count (ht_table t') < unat (ht_capacity t')"
    using T'(3) t(6) pow_word [OF b] by (simp add: t'_def)
  have r5: "ht_size t' = ht_size t" "ht_zero t' = ht_zero t" "ht_capacity t' = 2 * ht_capacity t"
    by (simp_all add: t'_def t(5))
  show thesis by (rule that [OF r1 r2 r3 r5 r4])
qed

lemma lookup_at_stop:
  assumes "stops hash b T key d" "key \<noteq> 0" "clean T" "length T = 2 ^ b"
  shows "map_of T key = (if fst (T ! way hash b key d) = key then Some (snd (T ! way hash b key d)) else None)"
proof (cases "fst (T ! way hash b key d) = key")
  case True
  then have "T ! way hash b key d = (key, snd (T ! way hash b key d))" by (simp add: prod_eq_iff)
  with True clean_map [OF assms(3,2)] assms(4) show ?thesis by (metis at_way_less)
next
  case False
  with assms have "\<forall>p < length T. fst (T ! p) \<noteq> key" by (simp add: stops_def)
  with False show ?thesis by (simp add: map_none)
qed

lemma search_ok:
  assumes "table_inv hash b T" "used_count T < 2 ^ b" "key \<noteq> 0"
  obtains d where "stops hash b T key d"
    "map_of T key = (if fst (T ! way hash b key d) = key then Some (snd (T ! way hash b key d)) else None)"
proof -
  from assms have T: "length T = 2 ^ b" "clean T" by (simp_all add: table_inv_def)
  with assms(2) used_count_free [of T] obtain e where "free_slot T e" by auto
  from search_stops [OF assms(1) this assms(3)] obtain d where s: "stops hash b T key d" by blast
  show thesis by (rule that [OF s lookup_at_stop [OF s assms(3) T(2,1)]])
qed

lemma get_ok:
  assumes "ht_ok hash t"
  shows "ht_get hash default_equals key t = Some (case ht_map t key of None \<Rightarrow> 0 | Some v \<Rightarrow> v)"
proof (cases "key = 0")
  case True
  then show ?thesis by (auto simp: ht_get_def ht_map_def split: option.split)
next
  case False
  from assms obtain b where t: "b < 32" "table_inv hash b (ht_table t)" "ht_capacitymask t = mask b"
    "used_count (ht_table t) < 2 ^ b" by (rule ht_okE)
  from search_ok [OF t(2,4) False] obtain d where d: "stops hash b (ht_table t) key d"
    "map_of (ht_table t) key = (if fst (ht_table t ! way hash b key d) = key then Some (snd (ht_table t ! way hash b key d)) else None)" .
  from get_from_way [OF d(1) False t(1), of 0] False d(2) t(3) show ?thesis
    by (simp add: ht_get_def ht_map_def Let_def index_home)
qed

lemma find_key_ok:
  assumes "ht_ok hash t" "key \<noteq> 0"
  obtains b d where "b < 32" "table_inv hash b (ht_table t)" "ht_capacitymask t = mask b"
    "used_count (ht_table t) < 2 ^ b" "stops hash b (ht_table t) key d"
    "find_key default_equals key (ht_table t) (ht_capacitymask t) (hash key)
      = Some (if fst (ht_table t ! way hash b key d) = key then Some (of_nat (way hash b key d)) else None)"
    "ht_map t key = (if fst (ht_table t ! way hash b key d) = key then Some (snd (ht_table t ! way hash b key d)) else None)"
proof -
  from assms(1) obtain b where t: "b < 32" "table_inv hash b (ht_table t)" "ht_capacitymask t = mask b"
    "used_count (ht_table t) < 2 ^ b" by (rule ht_okE)
  from search_ok [OF t(2,4) assms(2)] obtain d where d: "stops hash b (ht_table t) key d"
    "map_of (ht_table t) key = (if fst (ht_table t ! way hash b key d) = key then Some (snd (ht_table t ! way hash b key d)) else None)" .
  have "hash key AND mask b = of_nat (way hash b key 0)" by (simp add: index_home)
  from find_key_way [OF d(1) assms(2) t(1) _ this] d(2) assms(2) show thesis
    by (intro that [OF t d(1)]) (simp_all add: t(3) ht_map_def)
qed

lemma contains_ok:
  assumes "ht_ok hash t"
  shows "contains hash default_equals key t = Some (ht_map t key \<noteq> None)"
proof (cases "key = 0")
  case True
  then show ?thesis by (simp add: contains_def ht_map_def)
next
  case False
  from find_key_ok [OF assms this] obtain b d where
    "find_key default_equals key (ht_table t) (ht_capacitymask t) (hash key)
      = Some (if fst (ht_table t ! way hash b key d) = key then Some (of_nat (way hash b key d)) else None)"
    "ht_map t key = (if fst (ht_table t ! way hash b key d) = key then Some (snd (ht_table t ! way hash b key d)) else None)" .
  with False show ?thesis by (simp add: contains_def)
qed

section \<open>Inserting\<close>

lemma unat_inc: "unat (n :: u32) < 2 ^ 31 + 1 \<Longrightarrow> unat (n + 1) = unat n + 1"
  by (simp add: unat_word_ariths)

text \<open>\<^verbatim>\<open>put\<close> on a table that has been resized if it was to be.\<close>

lemma put_slot_ok:
  assumes ok: "ht_ok hash t" and key: "key \<noteq> 0" and cap: "unat (ht_size t) < 2 ^ 31 + 1"
    and room: "\<And>b. ht_capacity t = 2 ^ b \<Longrightarrow> b < 32 \<Longrightarrow> used_count (ht_table t) + 1 < 2 ^ b"
  shows "\<exists>t'. (do {
        let oindex = hash key AND ht_capacitymask t;
        r \<leftarrow> find_slot default_equals key (ht_table t) (ht_capacitymask t) oindex oindex None;
        (case r of
           Overwrite i \<Rightarrow> Some (t\<lparr>ht_table := (ht_table t)[unat i := (fst (ht_table t ! unat i), val)]\<rparr>)
         | Place i \<Rightarrow> Some (t\<lparr>ht_table := (ht_table t)[unat i := (key, val)], ht_size := ht_size t + 1\<rparr>)
         | Full \<Rightarrow> None)
      }) = Some t' \<and> ht_ok hash t' \<and> ht_map t' = (ht_map t)(key \<mapsto> val)"
proof -
  from ok obtain b where t: "2 \<le> b" "b < 32" "table_inv hash b (ht_table t)" "ht_capacity t = 2 ^ b"
    "ht_capacitymask t = mask b" "used_count (ht_table t) < 2 ^ b"
    "unat (ht_size t) = used_count (ht_table t) + (if ht_zero t = None then 0 else 1)"
    "0 \<le> ht_loadfactor t" "2 * ht_loadfactor t \<le> 1" "ht_threshold t = threshold_of (2 ^ b) (ht_loadfactor t)"
    by (rule ht_okE)
  from search_ok [OF t(3,6) key] obtain d where d: "stops hash b (ht_table t) key d" by blast
  let ?p = "way hash b key d"
  let ?T = "(ht_table t)[?p := (key, val)]"
  define t' where "t' = (if fst (ht_table t ! ?p) = key then t\<lparr>ht_table := ?T\<rparr>
    else t\<lparr>ht_table := ?T, ht_size := ht_size t + 1\<rparr>)"
  note pl = place_inv [OF t(3) d key, where v = val]
  have "ht_ok hash t'"
    unfolding ht_ok_def by (rule exI [of _ b])
      (use t pl room [OF t(4,2)] cap in \<open>simp add: t'_def unat_inc\<close>)
  moreover have "ht_map t' = (ht_map t)(key \<mapsto> val)"
    using pl(2) key by (auto simp: ht_map_def t'_def fun_eq_iff)
  moreover note find_slot_way [OF d key t(2), of 0] way_word [OF t(2), of "home hash b key" d]
  ultimately show ?thesis
    by (intro exI [of _ t']) (simp add: t(5) index_home Let_def t'_def split: if_splits)
qed

lemma power_word_inject: "(2::u32) ^ b = 2 ^ c \<Longrightarrow> b < 32 \<Longrightarrow> c < 32 \<Longrightarrow> b = c"
  by (metis pow_word power_inject_exp one_less_numeral_iff semiring_norm(76))

lemma four_le: "2 \<le> b \<Longrightarrow> 4 \<le> (2::nat) ^ b"
  using power_increasing [of 2 b "2::nat"] by simp

lemma put_ok:
  assumes ok: "ht_ok hash t" and small: "ht_capacity t < 2 ^ 31"
  shows "\<exists>t'. put hash default_equals key val t = Some t' \<and> ht_ok hash t' \<and> ht_map t' = (ht_map t)(key \<mapsto> val)"
proof -
  from ok obtain b where t: "2 \<le> b" "b < 32" "ht_capacity t = 2 ^ b" "used_count (ht_table t) < 2 ^ b"
    "unat (ht_size t) = used_count (ht_table t) + (if ht_zero t = None then 0 else 1)"
    "0 \<le> ht_loadfactor t" "2 * ht_loadfactor t \<le> 1" "ht_threshold t = threshold_of (2 ^ b) (ht_loadfactor t)"
    by (rule ht_okE)
  have "(2::nat) ^ b < 2 ^ 31" using small t(2,3) pow_word [of b] by (simp add: word_less_nat_alt)
  with t(4,5) have size: "unat (ht_size t) < 2 ^ 31 + 1" by simp
  show ?thesis
  proof (cases "key = 0")
    case True
    define t' where "t' = t\<lparr>ht_zero := Some (key, val), ht_size := (if ht_zero t = None then ht_size t + 1 else ht_size t)\<rparr>"
    have "ht_ok hash t'"
      using ok t(5) unat_inc [OF size] unfolding ht_ok_def by (auto simp: t'_def)
    moreover have "ht_map t' = (ht_map t)(key \<mapsto> val)" using True by (auto simp: ht_map_def t'_def)
    ultimately show ?thesis using True by (simp add: put_def t'_def)
  next
    case key: False
    show ?thesis
    proof (cases "ht_size t > ht_threshold t")
      case True
      from resize_ok [OF ok small] obtain t1 where t1: "resize hash (push_bit 1 (ht_capacity t)) t = Some t1" "ht_ok hash t1"
        "ht_map t1 = ht_map t" "ht_size t1 = ht_size t" "2 * used_count (ht_table t1) < unat (ht_capacity t1)" .
      have "used_count (ht_table t1) + 1 < 2 ^ c" if "ht_capacity t1 = 2 ^ c" "c < 32" for c
      proof -
        from t1(2) obtain c' where "2 \<le> c'" "c' < 32" "ht_capacity t1 = 2 ^ c'" by (rule ht_okE)
        with that have "2 \<le> c" using power_word_inject [of c c'] by simp
        with four_le [of c] t1(5) that pow_word [of c] show ?thesis by simp
      qed
      from put_slot_ok [OF t1(2) key _ this, of val] size t1(3,4) True t1(1) key show ?thesis by (simp add: put_def)
    next
      case False
      have "used_count (ht_table t) + 1 < 2 ^ c" if "ht_capacity t = 2 ^ c" "c < 32" for c
      proof -
        have c: "c = b" using that t(2,3) power_word_inject [of c b] by simp
        have "unat (ht_size t) \<le> unat (ht_threshold t)" using False by (simp add: word_le_nat_alt not_less)
        with threshold_half [OF t(6,7,2)] t(8) have "2 * unat (ht_size t) \<le> 2 ^ b" by simp
        with t(5) four_le [OF t(1)] c show ?thesis by (auto split: if_splits)
      qed
      from put_slot_ok [OF ok key size this, of val] False key show ?thesis by (simp add: put_def)
    qed
  qed
qed

section \<open>Removing\<close>

lemma first_gap:
  assumes "table_inv hash b T" "i < 2 ^ b" "free_slot T e" "used_at T i"
  shows "gap_inv hash b (T[i := (0, 0)]) i i e"
proof -
  from assms have T: "length T = 2 ^ b" "b < 32" "clean T" "reachable_but {} hash b T" and e: "e < 2 ^ b" "\<not> used_at T e" "e \<noteq> i"
    by (auto simp: table_inv_def free_slot_def)
  have "reachable_but {i} hash b (T[i := (0, 0)])"
  proof (rule reachableI)
    fix p q assume p: "p < 2 ^ b" "used_at (T[i := (0, 0)]) p" "q < 2 ^ b" "passes hash b (T[i := (0, 0)]) p q" "q \<notin> {i}"
    then have pi: "p \<noteq> i" using T(1) by auto
    with p have "used_at T p" "passes hash b T p q" by (simp_all add: passes_def)
    from reachableD [OF T(4) p(1) this(1) p(3) this(2)] p(5) show "used_at (T[i := (0, 0)]) q" by simp
  qed
  moreover have "\<not> used_at (T[i := (0, 0)]) p" if "p < 2 ^ b" "way_dist (2 ^ b) i p = 0" for p
    using that assms(2) dist_zero [of i "2 ^ b" p] T(1) by simp
  moreover have "0 < way_dist (2 ^ b) i e" using e assms(2) dist_zero [of i "2 ^ b" e] by auto
  ultimately show ?thesis
    using T e assms(2) clean_clear [OF T(3)] by (auto simp: gap_inv_def)
qed

lemma remove_ok:
  assumes ok: "ht_ok hash t"
  shows "\<exists>t'. ht_remove hash default_equals key t = Some (case ht_map t key of None \<Rightarrow> 0 | Some v \<Rightarrow> v, t') \<and>
    ht_ok hash t' \<and> ht_map t' = (ht_map t)(key := None)"
proof (cases "key = 0")
  case True
  define t' where "t' = (if ht_zero t = None then t else t\<lparr>ht_zero := None, ht_size := ht_size t - 1\<rparr>)"
  have "unat (ht_size t - 1) = unat (ht_size t) - 1" if "unat (ht_size t) \<noteq> 0" using that by (simp add: unat_gt_0 unat_minus_one)
  with ok have "ht_ok hash t'" unfolding ht_ok_def by (auto simp: t'_def)
  moreover have "ht_map t' = (ht_map t)(key := None)" using True by (auto simp: ht_map_def t'_def)
  ultimately show ?thesis using True by (auto simp: ht_remove_def ht_map_def t'_def split: option.split)
next
  case key: False
  from find_key_ok [OF ok key] obtain b d where t: "b < 32" "table_inv hash b (ht_table t)" "ht_capacitymask t = mask b"
    "used_count (ht_table t) < 2 ^ b" "stops hash b (ht_table t) key d"
    "find_key default_equals key (ht_table t) (ht_capacitymask t) (hash key)
      = Some (if fst (ht_table t ! way hash b key d) = key then Some (of_nat (way hash b key d)) else None)"
    "ht_map t key = (if fst (ht_table t ! way hash b key d) = key then Some (snd (ht_table t ! way hash b key d)) else None)" .
  let ?p = "way hash b key d" and ?T = "ht_table t"
  show ?thesis
  proof (cases "fst (?T ! ?p) = key")
    case False
    with t(6,7) ok key show ?thesis by (auto simp: ht_remove_def fun_eq_iff)
  next
    case True
    from t(2) have T: "length ?T = 2 ^ b" "clean ?T" by (simp_all add: table_inv_def)
    from used_count_free [of ?T] t(4) T obtain e where e: "free_slot ?T e" by auto
    have "used_at ?T ?p" using True key by simp
    from close_gap_inv [OF first_gap [OF t(2) _ e this]] T(1) obtain T' where T': "close_gap hash (mask b) ?T (of_nat ?p) = Some T'"
      "table_inv hash b T'" "\<forall>k. k \<noteq> 0 \<longrightarrow> map_of T' k = map_of (?T[?p := (0, 0)]) k" "used_count T' = used_count (?T[?p := (0, 0)])"
      by auto
    have u: "used_count T' + 1 = used_count ?T" using used_count_update [of ?p ?T "(0, 0)"] T'(4) True key T(1) by simp
    define t' where "t' = t\<lparr>ht_table := T', ht_size := ht_size t - 1\<rparr>"
    have "unat (ht_size t - 1) = unat (ht_size t) - 1" if "unat (ht_size t) \<noteq> 0" using that by (simp add: unat_gt_0 unat_minus_one)
    moreover from ok obtain c where c: "2 \<le> c" "c < 32" "length ?T = 2 ^ c" "ht_capacity t = 2 ^ c"
      "unat (ht_size t) = used_count ?T + (if ht_zero t = None then 0 else 1)"
      "0 \<le> ht_loadfactor t" "2 * ht_loadfactor t \<le> 1" "ht_threshold t = threshold_of (2 ^ c) (ht_loadfactor t)" by (rule ht_okE)
    moreover have "c = b" using c(3) T(1) by simp
    ultimately have "ht_ok hash t'" unfolding ht_ok_def
      by (intro exI [of _ b]) (use u t(3,4) T'(2) in \<open>simp add: t'_def\<close>)
    moreover have "ht_map t' = (ht_map t)(key := None)"
    proof
      fix k
      have "map_of (?T[?p := (0, 0)]) k = (if k = key then None else map_of ?T k)" if "k \<noteq> 0"
        using map_upd [OF T(2) clean_clear [OF T(2)] _ that, of ?p] T(1) True that by auto
      with T'(3) key show "ht_map t' k = ((ht_map t)(key := None)) k" by (cases "k = key") (simp_all add: ht_map_def t'_def)
    qed
    ultimately show ?thesis
      using t(3,6,7) T'(1) True key way_word [OF t(1)] by (auto simp: ht_remove_def t'_def)
  qed
qed

section \<open>The contract\<close>

text \<open>
  What the clients of the table rely on: a map in which an absent key reads as null, as long
  as the table is small enough to be doubled.
\<close>

locale map_contract =
  fixes ok :: "'t \<Rightarrow> bool" and small :: "'t \<Rightarrow> bool" and lookup :: "'t \<Rightarrow> 'k \<Rightarrow> 'v::zero option"
    and get :: "'k \<Rightarrow> 't \<Rightarrow> 'v option" and insert :: "'k \<Rightarrow> 'v \<Rightarrow> 't \<Rightarrow> 't option"
    and delete :: "'k \<Rightarrow> 't \<Rightarrow> ('v \<times> 't) option"
  assumes get_law: "ok t \<Longrightarrow> get k t = Some (case lookup t k of None \<Rightarrow> 0 | Some v \<Rightarrow> v)"
    and insert_law: "ok t \<Longrightarrow> small t \<Longrightarrow> \<exists>t'. insert k v t = Some t' \<and> ok t' \<and> lookup t' = (lookup t)(k \<mapsto> v)"
    and delete_law: "ok t \<Longrightarrow> \<exists>t'. delete k t = Some (case lookup t k of None \<Rightarrow> 0 | Some v \<Rightarrow> v, t') \<and> ok t' \<and>
      lookup t' = (lookup t)(k := None)"
begin

lemma get_insert:
  assumes "ok t" "small t"
  shows "\<exists>t'. insert k v t = Some t' \<and> ok t' \<and> (\<forall>k'. get k' t' = (if k' = k then Some v else get k' t))"
  using insert_law [OF assms, of k v] get_law assms(1) by auto

lemma get_delete:
  assumes "ok t"
  shows "\<exists>v t'. delete k t = Some (v, t') \<and> get k t = Some v \<and> ok t' \<and> (\<forall>k'. get k' t' = (if k' = k then Some 0 else get k' t))"
  using delete_law [OF assms, of k] get_law assms by auto

text \<open>Looking up and inserting when there is nothing, as \<^verbatim>\<open>get_safe_ptr_action\<close> does.\<close>

lemma insert_when_absent:
  assumes "ok t" "small t" "get k t = Some 0" "v \<noteq> 0"
  shows "\<exists>t'. insert k v t = Some t' \<and> ok t' \<and> get k t' = Some v \<and> (\<forall>k'. k' \<noteq> k \<longrightarrow> get k' t' = get k' t)"
  using get_insert [OF assms(1,2), of k v] by auto

end

interpretation table: map_contract "ht_ok hash" "\<lambda>t. ht_capacity t < 2 ^ 31" ht_map "ht_get hash default_equals"
    "put hash default_equals" "ht_remove hash default_equals"
  by unfold_locales (simp_all add: get_ok put_ok remove_ok)

end
