(* ===== verification/Linked_List.thy ===== *)
theory Linked_List
  imports Prelude
begin

text \<open>
  \<^verbatim>\<open>Collection/stl-model.h\<close>: doubly linked lists.  Nodes live at addresses, 0 is
  \<^verbatim>\<open>NULL\<close>, following a dangling or null pointer gives no result, and an operation that
  allocates takes the address of the new node as an argument.  \<^verbatim>\<open>ModelList\<close> and
  \<^verbatim>\<open>SnapList\<close> are the same code on two heaps.
\<close>

section \<open>Nodes and lists\<close>

record 'a node =
  nd_next :: addr
  nd_prev :: addr
  nd_val :: 'a

type_synonym 'a heap = "addr \<rightharpoonup> 'a node"

record 'a linked =
  ll_head :: addr
  ll_tail :: addr
  ll_size :: u32
  ll_heap :: "'a heap"

definition ModelList :: "'a linked" where
  "ModelList = \<lparr>ll_head = 0, ll_tail = 0, ll_size = 0, ll_heap = Map.empty\<rparr>"

definition upd_node :: "addr \<Rightarrow> ('a node \<Rightarrow> 'a node) \<Rightarrow> 'a linked \<Rightarrow> 'a linked option" where
  "upd_node a f l = do { nd \<leftarrow> ll_heap l a; Some (l\<lparr>ll_heap := (ll_heap l)(a \<mapsto> f nd)\<rparr>) }"

definition new_node :: "addr \<Rightarrow> 'a node \<Rightarrow> 'a linked \<Rightarrow> 'a linked" where
  "new_node a nd l = l\<lparr>ll_heap := (ll_heap l)(a \<mapsto> nd)\<rparr>"

definition delete_node :: "addr \<Rightarrow> 'a linked \<Rightarrow> 'a linked" where
  "delete_node a l = l\<lparr>ll_heap := (ll_heap l)(a := None)\<rparr>"

section \<open>Operations\<close>

definition push_front :: "addr \<Rightarrow> 'a \<Rightarrow> 'a linked \<Rightarrow> 'a linked option" where
  "push_front tmp val l = do {
     let l1 = new_node tmp \<lparr>nd_next = ll_head l, nd_prev = 0, nd_val = val\<rparr> l;
     l2 \<leftarrow> (if ll_head l1 = 0 then Some (l1\<lparr>ll_tail := tmp\<rparr>)
           else upd_node (ll_head l1) (\<lambda>n. n\<lparr>nd_prev := tmp\<rparr>) l1);
     Some (l2\<lparr>ll_head := tmp, ll_size := ll_size l2 + 1\<rparr>)
   }"

definition push_back :: "addr \<Rightarrow> 'a \<Rightarrow> 'a linked \<Rightarrow> 'a linked option" where
  "push_back tmp val l = do {
     let l1 = new_node tmp \<lparr>nd_next = 0, nd_prev = ll_tail l, nd_val = val\<rparr> l;
     l2 \<leftarrow> (if ll_tail l1 = 0 then Some (l1\<lparr>ll_head := tmp\<rparr>)
           else upd_node (ll_tail l1) (\<lambda>n. n\<lparr>nd_next := tmp\<rparr>) l1);
     Some (l2\<lparr>ll_tail := tmp, ll_size := ll_size l2 + 1\<rparr>)
   }"

definition pop_front :: "'a linked \<Rightarrow> ('a \<times> 'a linked) option" where
  "pop_front l = do {
     let tmp = ll_head l;
     nd \<leftarrow> ll_heap l tmp;
     let l1 = l\<lparr>ll_head := nd_next nd\<rparr>;
     l2 \<leftarrow> (if ll_head l1 = 0 then Some (l1\<lparr>ll_tail := 0\<rparr>)
           else upd_node (ll_head l1) (\<lambda>n. n\<lparr>nd_prev := 0\<rparr>) l1);
     nd2 \<leftarrow> ll_heap l2 tmp;
     let l3 = delete_node tmp l2;
     Some (nd_val nd2, l3\<lparr>ll_size := ll_size l3 - 1\<rparr>)
   }"

definition pop_back :: "'a linked \<Rightarrow> 'a linked option" where
  "pop_back l = do {
     let tmp = ll_tail l;
     nd \<leftarrow> ll_heap l tmp;
     let l1 = l\<lparr>ll_tail := nd_prev nd\<rparr>;
     l2 \<leftarrow> (if ll_tail l1 = 0 then Some (l1\<lparr>ll_head := 0\<rparr>)
           else upd_node (ll_tail l1) (\<lambda>n. n\<lparr>nd_next := 0\<rparr>) l1);
     let l3 = delete_node tmp l2;
     Some (l3\<lparr>ll_size := ll_size l3 - 1\<rparr>)
   }"

partial_function (option) free_nodes :: "'a linked \<Rightarrow> 'a linked option" where
  "free_nodes l =
     (if ll_head l = 0 then Some l
      else Option.bind (ll_heap l (ll_head l))
        (\<lambda>nd. free_nodes ((delete_node (ll_head l) l)\<lparr>ll_head := nd_next nd\<rparr>)))"

declare free_nodes.simps [code]

definition clear :: "'a linked \<Rightarrow> 'a linked option" where
  "clear l = do { l1 \<leftarrow> free_nodes l; Some (l1\<lparr>ll_tail := 0, ll_size := 0\<rparr>) }"

definition insertAfter :: "addr \<Rightarrow> addr \<Rightarrow> 'a \<Rightarrow> 'a linked \<Rightarrow> 'a linked option" where
  "insertAfter tmp node val l = do {
     nd \<leftarrow> ll_heap l node;
     let l1 = new_node tmp \<lparr>nd_next = nd_next nd, nd_prev = node, nd_val = val\<rparr> l;
     l2 \<leftarrow> upd_node node (\<lambda>n. n\<lparr>nd_next := tmp\<rparr>) l1;
     l3 \<leftarrow> (if nd_next nd = 0 then Some (l2\<lparr>ll_tail := tmp\<rparr>)
           else upd_node (nd_next nd) (\<lambda>n. n\<lparr>nd_prev := tmp\<rparr>) l2);
     Some (l3\<lparr>ll_size := ll_size l3 + 1\<rparr>)
   }"

definition insertBefore :: "addr \<Rightarrow> addr \<Rightarrow> 'a \<Rightarrow> 'a linked \<Rightarrow> 'a linked option" where
  "insertBefore tmp node val l = do {
     nd \<leftarrow> ll_heap l node;
     let l1 = new_node tmp \<lparr>nd_next = node, nd_prev = nd_prev nd, nd_val = val\<rparr> l;
     l2 \<leftarrow> upd_node node (\<lambda>n. n\<lparr>nd_prev := tmp\<rparr>) l1;
     l3 \<leftarrow> (if nd_prev nd = 0 then Some (l2\<lparr>ll_head := tmp\<rparr>)
           else upd_node (nd_prev nd) (\<lambda>n. n\<lparr>nd_next := tmp\<rparr>) l2);
     Some (l3\<lparr>ll_size := ll_size l3 + 1\<rparr>)
   }"

definition erase :: "addr \<Rightarrow> 'a linked \<Rightarrow> (addr \<times> 'a linked) option" where
  "erase node l = do {
     nd \<leftarrow> ll_heap l node;
     l1 \<leftarrow> (if ll_head l = node then Some (l\<lparr>ll_head := nd_next nd\<rparr>)
           else upd_node (nd_prev nd) (\<lambda>n. n\<lparr>nd_next := nd_next nd\<rparr>) l);
     nd1 \<leftarrow> ll_heap l1 node;
     l2 \<leftarrow> (if ll_tail l1 = node then Some (l1\<lparr>ll_tail := nd_prev nd1\<rparr>)
           else upd_node (nd_next nd1) (\<lambda>n. n\<lparr>nd_prev := nd_prev nd1\<rparr>) l1);
     nd2 \<leftarrow> ll_heap l2 node;
     let l3 = delete_node node l2;
     Some (nd_next nd2, l3\<lparr>ll_size := ll_size l3 - 1\<rparr>)
   }"

definition front :: "'a linked \<Rightarrow> 'a option" where
  "front l = map_option nd_val (ll_heap l (ll_head l))"

definition back_val :: "'a linked \<Rightarrow> 'a option" where
  "back_val l = map_option nd_val (ll_heap l (ll_tail l))"

definition empty :: "'a linked \<Rightarrow> bool" where
  "empty l \<longleftrightarrow> ll_size l = 0"

section \<open>The contents of a list\<close>

text \<open>The nodes from \<open>p\<close> to \<open>q\<close>, both excluded, with their addresses and values.\<close>

definition first_of :: "(addr \<times> 'a) list \<Rightarrow> addr \<Rightarrow> addr" where
  "first_of ps q = (case ps of [] \<Rightarrow> q | x # _ \<Rightarrow> fst x)"

definition last_of :: "(addr \<times> 'a) list \<Rightarrow> addr \<Rightarrow> addr" where
  "last_of ps p = (if ps = [] then p else fst (last ps))"

fun seg :: "'a heap \<Rightarrow> addr \<Rightarrow> (addr \<times> 'a) list \<Rightarrow> addr \<Rightarrow> bool" where
  "seg h p [] q \<longleftrightarrow> True"
| "seg h p (x # ps) q \<longleftrightarrow>
     h (fst x) = Some \<lparr>nd_next = first_of ps q, nd_prev = p, nd_val = snd x\<rparr> \<and> seg h (fst x) ps q"

definition holds :: "'a linked \<Rightarrow> (addr \<times> 'a) list \<Rightarrow> bool" where
  "holds l ps \<longleftrightarrow> seg (ll_heap l) 0 ps 0 \<and> distinct (map fst ps) \<and> 0 \<notin> set (map fst ps) \<and>
     ll_head l = first_of ps 0 \<and> ll_tail l = last_of ps 0 \<and> ll_size l = of_nat (length ps)"

lemma ends_simps [simp]:
  "first_of [] q = q" "first_of (x # ps) q = fst x" "last_of [] p = p" "last_of (ps @ [x]) p = fst x"
  "first_of (ps @ qs) q = first_of ps (first_of qs q)" "last_of (ps @ qs) p = last_of qs (last_of ps p)"
  "last_of (x # ps) p = last_of ps (fst x)"
  by (auto simp: first_of_def last_of_def split: list.split)

lemma seg_append [simp]: "seg h p (ps @ qs) q \<longleftrightarrow> seg h p ps (first_of qs q) \<and> seg h (last_of ps p) qs q"
  by (induction ps arbitrary: p) auto

lemma seg_other [simp]: "a \<notin> fst ` set ps \<Longrightarrow> seg (h(a := x)) p ps q = seg h p ps q"
  by (induction ps arbitrary: p) auto

lemma seg_drop [simp]: "b \<notin> fst ` set ps \<Longrightarrow> seg (\<lambda>a. if a = b then None else h a) p ps q = seg h p ps q"
  using seg_other [of b ps h None] by (simp add: fun_upd_def)

lemma first_last_in: "first_of ps q = q \<or> first_of ps q \<in> fst ` set ps" "last_of ps p = p \<or> last_of ps p \<in> fst ` set ps"
  by (auto simp: first_of_def last_of_def split: list.split)

lemma ends_neq [simp]:
  "a \<notin> fst ` set ps \<Longrightarrow> a \<noteq> p \<Longrightarrow> last_of ps p \<noteq> a" "a \<notin> fst ` set ps \<Longrightarrow> a \<noteq> q \<Longrightarrow> first_of ps q \<noteq> a"
  using first_last_in [of ps] by metis+

text \<open>Redirecting the last pointer forwards, or the first one backwards.\<close>

lemma seg_relink_last:
  "seg h p (ps @ [x]) q \<Longrightarrow> distinct (map fst (ps @ [x])) \<Longrightarrow>
   \<exists>nd. h (fst x) = Some nd \<and> seg (h(fst x \<mapsto> nd\<lparr>nd_next := r\<rparr>)) p (ps @ [x]) r"
  by auto

lemma seg_relink_first:
  "seg h p (x # ps) q \<Longrightarrow> distinct (map fst (x # ps)) \<Longrightarrow>
   \<exists>nd. h (fst x) = Some nd \<and> seg (h(fst x \<mapsto> nd\<lparr>nd_prev := r\<rparr>)) r (x # ps) q"
  by auto

section \<open>What the operations do to the contents\<close>

lemmas node_ops = image_Un upd_node_def new_node_def delete_node_def

definition unused :: "addr \<Rightarrow> (addr \<times> 'a) list \<Rightarrow> bool" where
  "unused a ps \<longleftrightarrow> a \<noteq> 0 \<and> a \<notin> fst ` set ps"

lemma push_back_holds:
  assumes "holds l ps" "unused tmp ps"
  shows "\<exists>l'. push_back tmp val l = Some l' \<and> holds l' (ps @ [(tmp, val)])"
proof (cases ps rule: rev_cases)
  case Nil
  with assms show ?thesis by (simp add: holds_def push_back_def node_ops unused_def)
next
  case (snoc qs x)
  with assms show ?thesis
    by (cases x) (auto simp: holds_def push_back_def node_ops unused_def Let_def)
qed

lemma push_front_holds:
  assumes "holds l ps" "unused tmp ps"
  shows "\<exists>l'. push_front tmp val l = Some l' \<and> holds l' ((tmp, val) # ps)"
proof (cases ps)
  case Nil
  with assms show ?thesis by (simp add: holds_def push_front_def node_ops unused_def)
next
  case (Cons x qs)
  with assms show ?thesis
    by (cases x) (auto simp: holds_def push_front_def node_ops unused_def Let_def)
qed

lemma pop_front_holds:
  assumes "holds l (x # ps)"
  shows "\<exists>l'. pop_front l = Some (snd x, l') \<and> holds l' ps"
proof (cases ps)
  case Nil
  with assms show ?thesis by (auto simp: holds_def pop_front_def node_ops)
next
  case (Cons y qs)
  with assms show ?thesis by (auto simp: holds_def pop_front_def node_ops Let_def)
qed

lemma pop_back_holds:
  assumes "holds l (ps @ [x])"
  shows "\<exists>l'. pop_back l = Some l' \<and> holds l' ps"
proof (cases ps rule: rev_cases)
  case Nil
  with assms show ?thesis by (auto simp: holds_def pop_back_def node_ops)
next
  case (snoc qs y)
  with assms show ?thesis by (auto simp: holds_def pop_back_def node_ops Let_def)
qed

lemma insertAfter_holds:
  assumes "holds l (ps @ x # qs)" "unused tmp (ps @ x # qs)"
  shows "\<exists>l'. insertAfter tmp (fst x) val l = Some l' \<and> holds l' (ps @ x # (tmp, val) # qs)"
proof (cases qs)
  case Nil
  with assms show ?thesis by (auto simp: holds_def insertAfter_def node_ops unused_def)
next
  case (Cons y rs)
  with assms show ?thesis by (auto simp: holds_def insertAfter_def node_ops unused_def Let_def)
qed

lemma insertBefore_holds:
  assumes "holds l (ps @ x # qs)" "unused tmp (ps @ x # qs)"
  shows "\<exists>l'. insertBefore tmp (fst x) val l = Some l' \<and> holds l' (ps @ (tmp, val) # x # qs)"
proof (cases ps rule: rev_cases)
  case Nil
  with assms show ?thesis by (auto simp: holds_def insertBefore_def node_ops unused_def)
next
  case (snoc rs y)
  with assms show ?thesis by (auto simp: holds_def insertBefore_def node_ops unused_def Let_def)
qed

lemma erase_holds:
  assumes "holds l (ps @ x # qs)"
  shows "\<exists>l'. erase (fst x) l = Some (first_of qs 0, l') \<and> holds l' (ps @ qs)"
proof (cases ps rule: rev_cases)
  case Nil
  with assms show ?thesis by (cases qs) (auto simp: holds_def erase_def node_ops Let_def)
next
  case (snoc rs y)
  with assms show ?thesis by (cases qs) (auto simp: holds_def erase_def node_ops Let_def)
qed

lemma clear_holds:
  assumes "holds l ps"
  shows "\<exists>l'. clear l = Some l' \<and> holds l' []"
proof -
  have "\<exists>h'. free_nodes l = Some (l\<lparr>ll_head := 0, ll_heap := h'\<rparr>)"
    if "seg (ll_heap l) p ps 0" "distinct (map fst ps)" "0 \<notin> set (map fst ps)" "ll_head l = first_of ps 0" for p and l :: "'a linked"
    using that
  proof (induction ps arbitrary: p l)
    case Nil
    then show ?case by (subst free_nodes.simps) (auto intro!: exI [of _ "ll_heap l"])
  next
    case (Cons x ps)
    let ?l = "(delete_node (ll_head l) l)\<lparr>ll_head := first_of ps 0\<rparr>"
    from Cons.prems have "\<exists>h'. free_nodes ?l = Some (?l\<lparr>ll_head := 0, ll_heap := h'\<rparr>)"
      by (intro Cons.IH [of _ "fst x"]) (simp_all add: delete_node_def)
    then obtain h' where "free_nodes ?l = Some (?l\<lparr>ll_head := 0, ll_heap := h'\<rparr>)" by blast
    with Cons.prems show ?case
      by (subst free_nodes.simps) (auto simp: delete_node_def intro!: exI [of _ h'])
  qed
  with assms obtain h' where "free_nodes l = Some (l\<lparr>ll_head := 0, ll_heap := h'\<rparr>)"
    unfolding holds_def by blast
  then show ?thesis by (simp add: clear_def holds_def)
qed

lemma ends_hold:
  assumes "holds l ps"
  shows "front l = (case ps of [] \<Rightarrow> map_option nd_val (ll_heap l 0) | x # _ \<Rightarrow> Some (snd x))"
    "ps \<noteq> [] \<Longrightarrow> back_val l = Some (snd (last ps))" "length ps < 2 ^ 32 \<Longrightarrow> empty l \<longleftrightarrow> ps = []"
proof -
  show "front l = (case ps of [] \<Rightarrow> map_option nd_val (ll_heap l 0) | x # _ \<Rightarrow> Some (snd x))"
    using assms by (cases ps) (auto simp: holds_def front_def)
  show "back_val l = Some (snd (last ps))" if "ps \<noteq> []"
    using assms that by (cases ps rule: rev_cases) (auto simp: holds_def back_val_def)
  show "empty l \<longleftrightarrow> ps = []" if "length ps < 2 ^ 32"
    using assms that by (auto simp: holds_def empty_def word_of_nat_eq_0_iff dest!: dvd_imp_le)
qed

end
