(* ===== verification/Hash_Set.thy ===== *)
theory Hash_Set
  imports Hash_Map Linked_List
begin

text \<open>
  \<^verbatim>\<open>Collection/hashset.h\<close>: a set of keys that remembers the order of insertion, made of a
  hash table from keys to link nodes and a doubly linked list through the nodes.
\<close>

section \<open>The set\<close>

record 'k hashset =
  hs_table :: "('k, addr) hashtable"
  hs_list :: addr
  hs_tail :: addr
  hs_heap :: "'k heap"

definition HashSet :: "u32 \<Rightarrow> rat \<Rightarrow> 'k::zero hashset" where
  "HashSet initialcapacity factor =
     \<lparr>hs_table = HashTable initialcapacity factor, hs_list = 0, hs_tail = 0, hs_heap = Map.empty\<rparr>"

definition upd_link :: "addr \<Rightarrow> ('k node \<Rightarrow> 'k node) \<Rightarrow> 'k hashset \<Rightarrow> 'k hashset option" where
  "upd_link a f s = do { nd \<leftarrow> hs_heap s a; Some (s\<lparr>hs_heap := (hs_heap s)(a \<mapsto> f nd)\<rparr>) }"

definition hs_add :: "('k::zero \<Rightarrow> u32) \<Rightarrow> ('k \<Rightarrow> 'k \<Rightarrow> bool) \<Rightarrow> addr \<Rightarrow> 'k \<Rightarrow> 'k hashset \<Rightarrow> (bool \<times> 'k hashset) option" where
  "hs_add hash equals newnode key s = do {
     val \<leftarrow> ht_get hash equals key (hs_table s);
     if val = 0 then do {
       let s1 = s\<lparr>hs_heap := (hs_heap s)(newnode \<mapsto> \<lparr>nd_next = 0, nd_prev = hs_tail s, nd_val = key\<rparr>)\<rparr>;
       s2 \<leftarrow> (if hs_tail s1 \<noteq> 0 then upd_link (hs_tail s1) (\<lambda>n. n\<lparr>nd_next := newnode\<rparr>) s1
             else Some (s1\<lparr>hs_list := newnode\<rparr>));
       tbl \<leftarrow> put hash equals key newnode (hs_table s2);
       Some (True, s2\<lparr>hs_tail := newnode, hs_table := tbl\<rparr>)
     } else Some (False, s)
   }"

definition hs_get :: "('k::zero \<Rightarrow> u32) \<Rightarrow> ('k \<Rightarrow> 'k \<Rightarrow> bool) \<Rightarrow> 'k \<Rightarrow> 'k hashset \<Rightarrow> 'k option" where
  "hs_get hash equals key s = do {
     val \<leftarrow> ht_get hash equals key (hs_table s);
     if val \<noteq> 0 then map_option nd_val (hs_heap s val) else Some 0
   }"

definition hs_contains :: "('k::zero \<Rightarrow> u32) \<Rightarrow> ('k \<Rightarrow> 'k \<Rightarrow> bool) \<Rightarrow> 'k \<Rightarrow> 'k hashset \<Rightarrow> bool option" where
  "hs_contains hash equals key s = map_option (\<lambda>val. val \<noteq> 0) (ht_get hash equals key (hs_table s))"

definition hs_getFirstKey :: "'k hashset \<Rightarrow> 'k option" where
  "hs_getFirstKey s = map_option nd_val (hs_heap s (hs_list s))"

definition hs_remove :: "('k::zero \<Rightarrow> u32) \<Rightarrow> ('k \<Rightarrow> 'k \<Rightarrow> bool) \<Rightarrow> 'k \<Rightarrow> 'k hashset \<Rightarrow> (bool \<times> 'k hashset) option" where
  "hs_remove hash equals key s = do {
     oldlinknode \<leftarrow> ht_get hash equals key (hs_table s);
     if oldlinknode = 0 then Some (False, s)
     else do {
       (v, tbl) \<leftarrow> ht_remove hash equals key (hs_table s);
       let s1 = s\<lparr>hs_table := tbl\<rparr>;
       nd \<leftarrow> hs_heap s1 oldlinknode;
       s2 \<leftarrow> (if nd_prev nd = 0 then Some (s1\<lparr>hs_list := nd_next nd\<rparr>)
             else upd_link (nd_prev nd) (\<lambda>n. n\<lparr>nd_next := nd_next nd\<rparr>) s1);
       nd2 \<leftarrow> hs_heap s2 oldlinknode;
       s3 \<leftarrow> (if nd_next nd2 \<noteq> 0 then upd_link (nd_next nd2) (\<lambda>n. n\<lparr>nd_prev := nd_prev nd2\<rparr>) s2
             else Some (s2\<lparr>hs_tail := nd_prev nd2\<rparr>));
       Some (True, s3\<lparr>hs_heap := (hs_heap s3)(oldlinknode := None)\<rparr>)
     }
   }"

definition hs_getSize :: "'k hashset \<Rightarrow> u32" where
  "hs_getSize s = getSize (hs_table s)"

definition hs_isEmpty :: "'k hashset \<Rightarrow> bool" where
  "hs_isEmpty s \<longleftrightarrow> hs_getSize s = 0"

text \<open>All keys that an iterator at a node still returns, by \<^verbatim>\<open>hasNext\<close> and \<^verbatim>\<open>next\<close>.\<close>

partial_function (option) keys_from :: "'k heap \<Rightarrow> addr \<Rightarrow> 'k list option" where
  "keys_from h cur =
     (if cur = 0 then Some []
      else Option.bind (h cur) (\<lambda>nd. Option.bind (keys_from h (nd_next nd)) (\<lambda>ks. Some (nd_val nd # ks))))"

declare keys_from.simps [code]

definition iterate :: "'k hashset \<Rightarrow> 'k list option" where
  "iterate s = keys_from (hs_heap s) (hs_list s)"

section \<open>The contents of a set\<close>

definition set_holds :: "('k \<Rightarrow> u32) \<Rightarrow> 'k::zero hashset \<Rightarrow> (addr \<times> 'k) list \<Rightarrow> bool" where
  "set_holds hash s ps \<longleftrightarrow> ht_ok hash (hs_table s) \<and> ht_map (hs_table s) = map_of (map prod.swap ps) \<and>
     seg (hs_heap s) 0 ps 0 \<and> distinct (map fst ps) \<and> distinct (map snd ps) \<and> 0 \<notin> set (map fst ps) \<and>
     hs_list s = first_of ps 0 \<and> hs_tail s = last_of ps 0"

lemma map_of_keys: "map_of (map prod.swap ps) k = None \<longleftrightarrow> k \<notin> set (map snd ps)"
  by (force simp: map_of_eq_None_iff)

lemma map_of_key:
  "distinct (map snd ps) \<Longrightarrow> map_of (map prod.swap ps) k = Some a \<longleftrightarrow> (a, k) \<in> set ps"
  by (subst map_of_eq_Some_iff) (force simp: comp_def)+

lemma address_of:
  assumes "set_holds hash s ps"
  shows "ht_get hash default_equals key (hs_table s) =
    Some (case map_of (map prod.swap ps) key of None \<Rightarrow> 0 | Some a \<Rightarrow> a)"
  using assms table.get_law [of hash "hs_table s" key] by (simp add: set_holds_def)

lemma address_zero:
  assumes "set_holds hash s ps"
  shows "(case map_of (map prod.swap ps) key of None \<Rightarrow> 0 | Some a \<Rightarrow> a) = 0 \<longleftrightarrow> key \<notin> set (map snd ps)"
proof (cases "map_of (map prod.swap ps) key")
  case None
  then show ?thesis using map_of_keys [of ps key] by simp
next
  case (Some a)
  with assms have "(a, key) \<in> set ps" by (simp add: set_holds_def map_of_key)
  with Some assms map_of_keys [of ps key] show ?thesis by (force simp: set_holds_def)
qed

lemma hs_contains_holds: "set_holds hash s ps \<Longrightarrow> hs_contains hash default_equals key s = Some (key \<in> set (map snd ps))"
  using address_of [of hash s ps key] address_zero [of hash s ps key] by (simp add: hs_contains_def)

lemma hs_add_holds:
  assumes ok: "set_holds hash s ps" and new: "unused a ps" and small: "ht_capacity (hs_table s) < 2 ^ 31"
  shows "\<exists>s'. hs_add hash default_equals a key s = Some (key \<notin> set (map snd ps), s') \<and>
    set_holds hash s' (if key \<in> set (map snd ps) then ps else ps @ [(a, key)])"
proof (cases "key \<in> set (map snd ps)")
  case True
  with address_of [OF ok, of key] address_zero [OF ok, of key] ok show ?thesis by (simp add: hs_add_def)
next
  case False
  with address_of [OF ok, of key] address_zero [OF ok, of key]
  have g: "ht_get hash default_equals key (hs_table s) = Some 0" by simp
  from table.insert_law [of hash "hs_table s" key a] ok small obtain tbl where
    tbl: "put hash default_equals key a (hs_table s) = Some tbl" "ht_ok hash tbl" "ht_map tbl = (ht_map (hs_table s))(key \<mapsto> a)"
    by (auto simp: set_holds_def)
  have "map_of (map prod.swap (ps @ [(a, key)])) = (map_of (map prod.swap ps))(key \<mapsto> a)"
    using False map_of_keys [of ps key] by (auto simp: map_add_def fun_eq_iff split: option.split)
  then have m: "ht_map tbl = map_of (map prod.swap (ps @ [(a, key)]))" using tbl(3) ok by (simp add: set_holds_def)
  show ?thesis
  proof (cases ps rule: rev_cases)
    case Nil
    with ok new g tbl m False show ?thesis by (simp add: set_holds_def hs_add_def unused_def)
  next
    case (snoc qs x)
    with ok new g tbl m False show ?thesis
      by (auto simp: set_holds_def hs_add_def unused_def upd_link_def Let_def)
  qed
qed

lemma split_at_key:
  assumes "key \<in> set (map snd ps)" "distinct (map snd ps)"
  obtains us a vs where "ps = us @ (a, key) # vs" "filter (\<lambda>x. snd x \<noteq> key) ps = us @ vs"
    "map_of (map prod.swap ps) key = Some a"
proof -
  from assms(1) obtain a where "(a, key) \<in> set ps" by auto
  then obtain us vs where ps: "ps = us @ (a, key) # vs" by (auto dest: split_list)
  with assms(2) have "filter (\<lambda>x. snd x \<noteq> key) us = us" "filter (\<lambda>x. snd x \<noteq> key) vs = vs"
    by (force intro!: filter_True)+
  with ps have f: "filter (\<lambda>x. snd x \<noteq> key) ps = us @ vs" by simp
  have "map_of (map prod.swap ps) key = Some a" using map_of_key [OF assms(2)] ps by simp
  with ps f show thesis by (rule that)
qed

lemma map_of_filtered:
  "map_of (map prod.swap (filter (\<lambda>x. snd x \<noteq> key) ps)) = (map_of (map prod.swap ps))(key := None)"
  by (induction ps) auto

lemma hs_remove_holds:
  assumes ok: "set_holds hash s ps"
  shows "\<exists>s'. hs_remove hash default_equals key s = Some (key \<in> set (map snd ps), s') \<and>
    set_holds hash s' (filter (\<lambda>x. snd x \<noteq> key) ps)"
proof (cases "key \<in> set (map snd ps)")
  case False
  then have "filter (\<lambda>x. snd x \<noteq> key) ps = ps" by (intro filter_True) auto
  with False address_of [OF ok, of key] address_zero [OF ok, of key] ok show ?thesis by (simp add: hs_remove_def)
next
  case True
  from ok have "distinct (map snd ps)" by (simp add: set_holds_def)
  from split_at_key [OF True this] obtain us a vs where ps: "ps = us @ (a, key) # vs"
    "filter (\<lambda>x. snd x \<noteq> key) ps = us @ vs" "map_of (map prod.swap ps) key = Some a" .
  with address_of [OF ok, of key] have g: "ht_get hash default_equals key (hs_table s) = Some a" by simp
  from table.delete_law [of hash "hs_table s" key] ok obtain v tbl where
    tbl: "ht_remove hash default_equals key (hs_table s) = Some (v, tbl)" "ht_ok hash tbl"
      "ht_map tbl = (ht_map (hs_table s))(key := None)" by (auto simp: set_holds_def)
  have "ht_map tbl = map_of (map prod.swap (filter (\<lambda>x. snd x \<noteq> key) ps))"
    using tbl(3) ok by (simp only: map_of_filtered set_holds_def)
  with ps(2) have m: "ht_map tbl = map_of (map prod.swap (us @ vs))" by simp
  have a0: "a \<noteq> 0" using ok ps(1) by (auto simp: set_holds_def)
  have "\<exists>s'. hs_remove hash default_equals key s = Some (True, s') \<and> set_holds hash s' (us @ vs)"
  proof (cases us rule: rev_cases)
    case Nil
    with ok g tbl(1,2) m a0 ps(1) show ?thesis
      by (cases vs) (auto simp: set_holds_def hs_remove_def upd_link_def Let_def)
  next
    case (snoc rs y)
    with ok g tbl(1,2) m a0 ps(1) show ?thesis
      by (cases vs) (auto simp: set_holds_def hs_remove_def upd_link_def Let_def)
  qed
  with True ps(2) show ?thesis by simp
qed

lemma keys_from_seg: "seg h p ps 0 \<Longrightarrow> 0 \<notin> set (map fst ps) \<Longrightarrow> keys_from h (first_of ps 0) = Some (map snd ps)"
proof (induction ps arbitrary: p)
  case Nil
  show ?case by (subst keys_from.simps) simp
next
  case (Cons x ps)
  then show ?case by (subst keys_from.simps) auto
qed

lemma iterate_holds: "set_holds hash s ps \<Longrightarrow> iterate s = Some (map snd ps)"
  using keys_from_seg [of "hs_heap s" 0 ps] by (simp add: set_holds_def iterate_def)

lemma HashSet_holds:
  "2 \<le> b \<Longrightarrow> b < 32 \<Longrightarrow> 0 \<le> factor \<Longrightarrow> 2 * factor \<le> 1 \<Longrightarrow> set_holds hash (HashSet (2 ^ b) factor) []"
  by (simp add: set_holds_def HashSet_def HashTable_ok)

end
