(* ===== verification/Collections.thy ===== *)
theory Collections
  imports Hash_Set
begin

text \<open>
  What the containers of \<^verbatim>\<open>Collection/\<close> promise: the hash table is a map, the hash set a
  set in insertion order, and the doubly linked list a sequence.
\<close>

section \<open>The hash table\<close>

text \<open>
  C22: Inserting into a well-formed hash table, grown first if it is too full, always returns;
  the table stays well formed and maps the key to the new value and every other key as
  before.  The null key is stored like any other.
\<close>
theorem hash_put_refines:
  assumes "ht_ok hash t" "ht_capacity t < 2 ^ 31"
  shows "\<exists>t'. put hash default_equals key val t = Some t' \<and> ht_ok hash t' \<and> ht_map t' = (ht_map t)(key \<mapsto> val)"
  using assms by (rule table.insert_law)

abbreviation demo_hash :: "u64 \<Rightarrow> u32" where
  "demo_hash \<equiv> default_hash_function 0"

lemma demo_table:
  shows "ht_ok demo_hash (HashTable 4 (1/2) :: (u64, u64) hashtable)"
    "ht_capacity (HashTable 4 (1/2) :: (u64, u64) hashtable) < 2 ^ 31"
    "ht_map (HashTable 4 (1/2) :: (u64, u64) hashtable) = Map.empty"
proof -
  have four: "(2::u32) ^ 2 = 4" by simp
  show "ht_ok demo_hash (HashTable 4 (1/2) :: (u64, u64) hashtable)"
    by (subst four [symmetric], rule HashTable_ok) simp_all
  show "ht_map (HashTable 4 (1/2) :: (u64, u64) hashtable) = Map.empty"
    by (subst four [symmetric], rule HashTable_ok) simp_all
qed (simp add: HashTable_def)

theorem hash_put_refines_witness:
  "\<exists>t'. put demo_hash default_equals 5 7 (HashTable 4 (1/2) :: (u64, u64) hashtable) = Some t' \<and> ht_map t' 5 = Some 7"
  using hash_put_refines [OF demo_table(1,2), of 5 7] by auto

text \<open>
  C23: Removing a key from a well-formed hash table always returns the value it had, or null;
  the entries after it are moved back so that the table stays well formed, and every other
  key is still found.
\<close>
theorem hash_remove_refines:
  assumes "ht_ok hash t"
  shows "\<exists>t'. ht_remove hash default_equals key t = Some (case ht_map t key of None \<Rightarrow> 0 | Some v \<Rightarrow> v, t') \<and>
    ht_ok hash t' \<and> ht_map t' = (ht_map t)(key := None)"
  using assms by (rule table.delete_law)

theorem hash_remove_refines_witness:
  "\<exists>t t'. put demo_hash default_equals 5 7 (HashTable 4 (1/2) :: (u64, u64) hashtable) = Some t \<and>
     ht_remove demo_hash default_equals 5 t = Some (7, t') \<and> ht_map t' 5 = None"
proof -
  from table.insert_law [OF demo_table(1,2), of 5 7] demo_table(3) obtain t where
    t: "put demo_hash default_equals 5 7 (HashTable 4 (1/2) :: (u64, u64) hashtable) = Some t" "ht_ok demo_hash t" "ht_map t 5 = Some 7"
    by auto
  from hash_remove_refines [OF t(2), of 5] t show ?thesis by auto
qed

text \<open>
  On a well-formed hash table \<^verbatim>\<open>get\<close> returns the value of the key, or null, and
  \<^verbatim>\<open>contains\<close> whether there is one; both searches end.
\<close>
theorem hash_lookup_total:
  assumes "ht_ok hash t"
  shows "ht_get hash default_equals key t = Some (case ht_map t key of None \<Rightarrow> 0 | Some v \<Rightarrow> v) \<and>
    contains hash default_equals key t = Some (ht_map t key \<noteq> None)"
  using assms by (simp add: get_ok contains_ok)

theorem hash_lookup_total_witness:
  "ht_get demo_hash default_equals 5 (HashTable 4 (1/2) :: (u64, u64) hashtable) = Some 0 \<and>
   contains demo_hash default_equals 5 (HashTable 4 (1/2) :: (u64, u64) hashtable) = Some False"
  using hash_lookup_total [OF demo_table(1), of 5] demo_table(3) by simp

section \<open>The hash set\<close>

text \<open>
  Adding a key to a hash set tells whether it is new and puts a new key last in the order
  of iteration; an old key keeps its place.
\<close>
theorem hash_set_add:
  assumes "set_holds hash s ps" "unused a ps" "ht_capacity (hs_table s) < 2 ^ 31"
  shows "\<exists>s' ps'. hs_add hash default_equals a key s = Some (key \<notin> set (map snd ps), s') \<and> set_holds hash s' ps' \<and>
    iterate s' = Some (if key \<in> set (map snd ps) then map snd ps else map snd ps @ [key])"
proof -
  from hs_add_holds [OF assms, of key] obtain s' where
    "hs_add hash default_equals a key s = Some (key \<notin> set (map snd ps), s')"
    "set_holds hash s' (if key \<in> set (map snd ps) then ps else ps @ [(a, key)])" by blast
  moreover from iterate_holds [OF this(2)]
  have "iterate s' = Some (if key \<in> set (map snd ps) then map snd ps else map snd ps @ [key])" by (simp split: if_splits)
  ultimately show ?thesis by blast
qed

lemma demo_set: "set_holds demo_hash (HashSet 4 (1/2)) []"
  using HashSet_holds [of 2 "1/2" demo_hash] by simp

theorem hash_set_add_witness:
  "\<exists>s'. hs_add demo_hash default_equals 0x100 5 (HashSet 4 (1/2)) = Some (True, s') \<and> iterate s' = Some [5]"
  using hash_set_add [OF demo_set, of "0x100" 5] by (simp add: unused_def HashSet_def HashTable_def) blast

text \<open>
  Removing a key from a hash set tells whether it was there and leaves the other keys in
  their order.
\<close>
theorem hash_set_remove:
  assumes "set_holds hash s ps"
  shows "\<exists>s' ps'. hs_remove hash default_equals key s = Some (key \<in> set (map snd ps), s') \<and> set_holds hash s' ps' \<and>
    iterate s' = Some (filter (\<lambda>k. k \<noteq> key) (map snd ps))"
proof -
  from hs_remove_holds [OF assms, of key] obtain s' where
    "hs_remove hash default_equals key s = Some (key \<in> set (map snd ps), s')"
    "set_holds hash s' (filter (\<lambda>x. snd x \<noteq> key) ps)" by blast
  moreover from iterate_holds [OF this(2)] have "iterate s' = Some (filter (\<lambda>k. k \<noteq> key) (map snd ps))"
    by (simp add: filter_map comp_def)
  ultimately show ?thesis by blast
qed

theorem hash_set_remove_witness:
  "\<exists>s s'. hs_add demo_hash default_equals 0x100 5 (HashSet 4 (1/2)) = Some (True, s) \<and>
     hs_remove demo_hash default_equals 5 s = Some (True, s') \<and> iterate s' = Some []"
proof -
  have "\<exists>s'. hs_add demo_hash default_equals 0x100 5 (HashSet 4 (1/2)) = Some (True, s') \<and> set_holds demo_hash s' [(0x100, 5)]"
    using hs_add_holds [OF demo_set, of "0x100" 5] by (simp add: unused_def HashSet_def HashTable_def)
  then obtain s where s: "hs_add demo_hash default_equals 0x100 5 (HashSet 4 (1/2)) = Some (True, s)" "set_holds demo_hash s [(0x100, 5)]"
    by blast
  from hash_set_remove [OF s(2), of 5] s(1) show ?thesis by auto
qed

section \<open>The linked list\<close>

text \<open>
  In a doubly linked list, erasing a node that was just inserted after another one gives
  the old contents back, both pointers of every node included, and returns the node that
  followed.
\<close>
theorem insert_erase_roundtrip:
  assumes "holds l (ps @ x # qs)" "unused a (ps @ x # qs)"
  shows "\<exists>l1 l2. insertAfter a (fst x) val l = Some l1 \<and> holds l1 (ps @ x # (a, val) # qs) \<and>
    erase a l1 = Some (first_of qs 0, l2) \<and> holds l2 (ps @ x # qs)"
proof -
  from insertAfter_holds [OF assms] obtain l1 where
    l1: "insertAfter a (fst x) val l = Some l1" "holds l1 (ps @ x # (a, val) # qs)" by blast
  from erase_holds [of l1 "ps @ [x]" "(a, val)" qs] l1 show ?thesis by auto
qed

theorem insert_erase_roundtrip_witness:
  "\<exists>l l1 l2. push_back 0x10 ''a'' ModelList = Some l \<and> insertAfter 0x20 0x10 ''b'' l = Some l1 \<and>
     erase 0x20 l1 = Some (0, l2) \<and> holds l2 [(0x10, ''a'')]"
proof -
  have "\<exists>l. push_back 0x10 ''a'' ModelList = Some l \<and> holds l [(0x10, ''a'')]"
    using push_back_holds [of ModelList "[]" "0x10" "''a''"] by (simp add: holds_def ModelList_def unused_def)
  then obtain l where l: "push_back 0x10 ''a'' ModelList = Some l" "holds l ([] @ (0x10, ''a'') # [])" by auto
  from insert_erase_roundtrip [OF l(2), of "0x20" "''b''"] l(1) show ?thesis by (auto simp: unused_def)
qed

end
