(* ===== verification/Action_List.thy ===== *)
theory Action_List
  imports Linked_List
begin

text \<open>
  \<^verbatim>\<open>Collection/actionlist.cc\<close>: the trace of an execution in the order of its clocks.  The
  actions are in a doubly linked list; a trie over the eight nibbles of the clock finds, for
  each clock, the last node of the list with that clock.  A node of the trie is identified by
  its depth and by the high bits of the clocks below it.
\<close>

section \<open>The trie\<close>

datatype child = Null | Inner | Link addr

record allnode =
  an_children :: "child list"
  an_count :: int

type_synonym node_id = "nat \<times> nat"
type_synonym trie = "node_id \<rightharpoonup> allnode"

definition ALLMASK :: nat where
  "ALLMASK = 15"

definition empty_allnode :: allnode where
  "empty_allnode = \<lparr>an_children = replicate 16 Null, an_count = 0\<rparr>"

definition parent :: "node_id \<Rightarrow> node_id" where
  "parent ptr = (fst ptr - 1, snd ptr div 16)"

definition child_id :: "node_id \<Rightarrow> nat \<Rightarrow> node_id" where
  "child_id ptr i = (fst ptr + 1, 16 * snd ptr + i)"

definition nibble :: "u32 \<Rightarrow> nat \<Rightarrow> nat" where
  "nibble index shift = unat (drop_bit shift index AND 15)"

record actionlist =
  al_nodes :: trie
  al_list :: "aid linked"

definition new_actionlist :: actionlist where
  "new_actionlist = \<lparr>al_nodes = [(0, 0) \<mapsto> empty_allnode], al_list = ModelList\<rparr>"

section \<open>The node before a clock\<close>

text \<open>The first loop of \<^verbatim>\<open>findPrev\<close> goes up until there is an earlier child.\<close>

datatype up_result = NoPrev | Found addr | Below node_id u32 u32 nat

partial_function (option) find_up :: "trie \<Rightarrow> node_id \<Rightarrow> u32 \<Rightarrow> u32 \<Rightarrow> nat \<Rightarrow> up_result option" where
  "find_up nodes ptr index increment totalshift =
     Option.bind (nodes ptr) (\<lambda>nd.
       if nibble index totalshift \<noteq> ALLMASK then
         (case an_children nd ! nibble index totalshift of
            Null \<Rightarrow> find_up nodes ptr (index - increment) increment totalshift
          | Link a \<Rightarrow> (if totalshift = 0 then Some (Found a) else None)
          | Inner \<Rightarrow> (if totalshift = 0 then None
              else Some (Below (child_id ptr (nibble index totalshift)) index (drop_bit 4 increment) (totalshift - 4))))
       else if fst ptr = 0 then Some NoPrev
       else find_up nodes (parent ptr) index (push_bit 4 increment) (totalshift + 4))"

declare find_up.simps [code]

text \<open>The second loop goes down to the last leaf below.\<close>

partial_function (option) find_down :: "trie \<Rightarrow> node_id \<Rightarrow> u32 \<Rightarrow> u32 \<Rightarrow> nat \<Rightarrow> addr option" where
  "find_down nodes ptr index increment totalshift =
     Option.bind (nodes ptr) (\<lambda>nd.
       case an_children nd ! nibble index totalshift of
         Null \<Rightarrow> find_down nodes ptr (index - increment) increment totalshift
       | Link a \<Rightarrow> (if totalshift = 0 then Some a else None)
       | Inner \<Rightarrow> (if totalshift = 0 then None
           else find_down nodes (child_id ptr (nibble index totalshift)) index (drop_bit 4 increment) (totalshift - 4)))"

declare find_down.simps [code]

definition findPrev :: "trie \<Rightarrow> node_id \<Rightarrow> u32 \<Rightarrow> addr option option" where
  "findPrev nodes ptr index = do {
     r \<leftarrow> find_up nodes ptr (index - 1) 1 0;
     (case r of
        NoPrev \<Rightarrow> Some None
      | Found a \<Rightarrow> Some (Some a)
      | Below ptr' index' increment totalshift \<Rightarrow> map_option Some (find_down nodes ptr' index' increment totalshift))
   }"

section \<open>Adding an action\<close>

definition set_child :: "node_id \<Rightarrow> nat \<Rightarrow> child \<Rightarrow> int \<Rightarrow> actionlist \<Rightarrow> actionlist option" where
  "set_child ptr i c d al = do {
     nd \<leftarrow> al_nodes al ptr;
     Some (al\<lparr>al_nodes := (al_nodes al)(ptr \<mapsto> nd\<lparr>an_children := (an_children nd)[i := c], an_count := an_count nd + d\<rparr>)\<rparr>)
   }"

text \<open>Linking the new node behind another one, or in front of the list.\<close>

definition link_after :: "addr \<Rightarrow> addr \<Rightarrow> aid \<Rightarrow> aid linked \<Rightarrow> aid linked option" where
  "link_after llnode llnodeprev act l = do {
     nd \<leftarrow> ll_heap l llnodeprev;
     let l1 = new_node llnode \<lparr>nd_next = nd_next nd, nd_prev = llnodeprev, nd_val = act\<rparr> l;
     l2 \<leftarrow> (if nd_next nd \<noteq> 0 then upd_node (nd_next nd) (\<lambda>n. n\<lparr>nd_prev := llnode\<rparr>) l1
           else Some (l1\<lparr>ll_tail := llnode\<rparr>));
     upd_node llnodeprev (\<lambda>n. n\<lparr>nd_next := llnode\<rparr>) l2
   }"

definition link_front :: "addr \<Rightarrow> aid \<Rightarrow> aid linked \<Rightarrow> aid linked option" where
  "link_front llnode act l = do {
     let l1 = new_node llnode \<lparr>nd_next = ll_head l, nd_prev = 0, nd_val = act\<rparr> l;
     l2 \<leftarrow> (if ll_head l1 \<noteq> 0 then upd_node (ll_head l1) (\<lambda>n. n\<lparr>nd_prev := llnode\<rparr>) l1
           else Some (l1\<lparr>ll_tail := llnode\<rparr>));
     Some (l2\<lparr>ll_head := llnode\<rparr>)
   }"

definition add_leaf :: "node_id \<Rightarrow> u32 \<Rightarrow> addr \<Rightarrow> aid \<Rightarrow> actionlist \<Rightarrow> actionlist option" where
  "add_leaf ptr clock llnode act al = do {
     nd \<leftarrow> al_nodes al ptr;
     let cur = nibble clock 0;
     (case an_children nd ! cur of
        Null \<Rightarrow> do {
          prev \<leftarrow> findPrev (al_nodes al) ptr clock;
          l \<leftarrow> (case prev of
              Some p \<Rightarrow> link_after llnode p act (al_list al)
            | None \<Rightarrow> link_front llnode act (al_list al));
          set_child ptr cur (Link llnode) 1 (al\<lparr>al_list := l\<rparr>)
        }
      | Link p \<Rightarrow> do {
          l \<leftarrow> link_after llnode p act (al_list al);
          set_child ptr cur (Link llnode) 0 (al\<lparr>al_list := l\<rparr>)
        }
      | Inner \<Rightarrow> None)
   }"

text \<open>The way down to the leaf level, with the nodes that are missing; \<open>4 * k\<close> is \<^verbatim>\<open>shiftbits\<close>.\<close>

primrec add_loop :: "nat \<Rightarrow> node_id \<Rightarrow> u32 \<Rightarrow> addr \<Rightarrow> aid \<Rightarrow> actionlist \<Rightarrow> actionlist option" where
  "add_loop 0 ptr clock llnode act al = add_leaf ptr clock llnode act al"
| "add_loop (Suc k) ptr clock llnode act al = do {
     nd \<leftarrow> al_nodes al ptr;
     let cur = nibble clock (4 * Suc k);
     al1 \<leftarrow> (if an_children nd ! cur = Null
            then set_child ptr cur Inner 1 (al\<lparr>al_nodes := (al_nodes al)(child_id ptr cur \<mapsto> empty_allnode)\<rparr>)
            else Some al);
     add_loop k (child_id ptr cur) clock llnode act al1
   }"

definition al_addAction :: "(aid \<Rightarrow> u32) \<Rightarrow> addr \<Rightarrow> aid \<Rightarrow> actionlist \<Rightarrow> actionlist option" where
  "al_addAction clk llnode act al =
     add_loop 7 (0, 0) (clk act) llnode act
       (al\<lparr>al_list := (al_list al)\<lparr>ll_size := ll_size (al_list al) + 1\<rparr>\<rparr>)"

section \<open>Removing an action\<close>

text \<open>A node whose last child is gone is deleted, and its parent counts down.\<close>

primrec decrementCount :: "nat \<Rightarrow> nat \<Rightarrow> actionlist \<Rightarrow> actionlist option" where
  "decrementCount 0 v al = do {
     nd \<leftarrow> al_nodes al (0, v);
     Some (al\<lparr>al_nodes := (al_nodes al)((0, v) \<mapsto> nd\<lparr>an_count := an_count nd - 1\<rparr>)\<rparr>)
   }"
| "decrementCount (Suc d) v al = do {
     nd \<leftarrow> al_nodes al (Suc d, v);
     let al1 = al\<lparr>al_nodes := (al_nodes al)((Suc d, v) \<mapsto> nd\<lparr>an_count := an_count nd - 1\<rparr>)\<rparr>;
     if an_count nd - 1 = 0 then do {
       al2 \<leftarrow> set_child (d, v div 16) (v mod 16) Null 0 al1;
       al3 \<leftarrow> decrementCount d (v div 16) al2;
       Some (al3\<lparr>al_nodes := (al_nodes al3)((Suc d, v) := None)\<rparr>)
     } else Some al1
   }"

text \<open>The child at the end of the way down, none when the way ends early.\<close>

primrec walk_down :: "nat \<Rightarrow> node_id \<Rightarrow> u32 \<Rightarrow> trie \<Rightarrow> addr option option" where
  "walk_down 0 ptr clock nodes = do {
     nd \<leftarrow> nodes ptr;
     (case an_children nd ! nibble clock 0 of Null \<Rightarrow> Some None | Link a \<Rightarrow> Some (Some a) | Inner \<Rightarrow> None)
   }"
| "walk_down (Suc k) ptr clock nodes = do {
     nd \<leftarrow> nodes ptr;
     (case an_children nd ! nibble clock (4 * Suc k) of
        Null \<Rightarrow> Some None
      | Inner \<Rightarrow> walk_down k (child_id ptr (nibble clock (4 * Suc k))) clock nodes
      | Link a \<Rightarrow> None)
   }"

definition unlink :: "(aid \<Rightarrow> u32) \<Rightarrow> u32 \<Rightarrow> bool \<Rightarrow> addr \<Rightarrow> actionlist \<Rightarrow> actionlist option" where
  "unlink clk clock first llnode al = do {
     nd \<leftarrow> ll_heap (al_list al) llnode;
     let llnodeprev = nd_prev nd;
     let llnodenext = nd_next nd;
     l1 \<leftarrow> (if llnodeprev \<noteq> 0 then upd_node llnodeprev (\<lambda>n. n\<lparr>nd_next := llnodenext\<rparr>) (al_list al)
           else Some ((al_list al)\<lparr>ll_head := llnodenext\<rparr>));
     l2 \<leftarrow> (if llnodenext \<noteq> 0 then upd_node llnodenext (\<lambda>n. n\<lparr>nd_prev := llnodeprev\<rparr>) l1
           else Some (l1\<lparr>ll_tail := llnodeprev\<rparr>));
     let leaf = (7, unat (drop_bit 4 clock));
     al1 \<leftarrow> (if first then do {
         same \<leftarrow> (if llnodeprev = 0 then Some False
                 else map_option (\<lambda>p. clk (nd_val p) = clock) (ll_heap l2 llnodeprev));
         if same then set_child leaf (nibble clock 0) (Link llnodeprev) 0 (al\<lparr>al_list := l2\<rparr>)
         else do {
           al' \<leftarrow> set_child leaf (nibble clock 0) Null 0 (al\<lparr>al_list := l2\<rparr>);
           decrementCount (fst leaf) (snd leaf) al'
         }
       } else Some (al\<lparr>al_list := l2\<rparr>));
     let l3 = delete_node llnode (al_list al1);
     Some (al1\<lparr>al_list := l3\<lparr>ll_size := ll_size l3 - 1\<rparr>\<rparr>)
   }"

partial_function (option) remove_loop :: "(aid \<Rightarrow> u32) \<Rightarrow> u32 \<Rightarrow> aid \<Rightarrow> bool \<Rightarrow> addr \<Rightarrow> actionlist \<Rightarrow> actionlist option" where
  "remove_loop clk clock act first llnode al =
     Option.bind (ll_heap (al_list al) llnode) (\<lambda>nd.
       if nd_val nd = act then unlink clk clock first llnode al
       else if nd_prev nd = 0 then Some al
       else Option.bind (ll_heap (al_list al) (nd_prev nd)) (\<lambda>p.
         if clk (nd_val p) = clock then remove_loop clk clock act False (nd_prev nd) al else Some al))"

declare remove_loop.simps [code]

definition al_removeAction :: "(aid \<Rightarrow> u32) \<Rightarrow> aid \<Rightarrow> actionlist \<Rightarrow> actionlist option" where
  "al_removeAction clk act al = do {
     r \<leftarrow> walk_down 7 (0, 0) (clk act) (al_nodes al);
     (case r of None \<Rightarrow> Some al | Some llnode \<Rightarrow> remove_loop clk (clk act) act True llnode al)
   }"

definition al_isEmpty :: "actionlist \<Rightarrow> bool option" where
  "al_isEmpty al = map_option (\<lambda>nd. an_count nd = 0) (al_nodes al (0, 0))"

definition al_clear :: "actionlist \<Rightarrow> actionlist option" where
  "al_clear al = do {
     l \<leftarrow> free_nodes (al_list al);
     Some \<lparr>al_nodes = [(0, 0) \<mapsto> empty_allnode], al_list = l\<lparr>ll_tail := 0, ll_size := 0\<rparr>\<rparr>
   }"

end
