(* ===== verification/Action_Trie.thy ===== *)
theory Action_Trie
  imports Action_List
begin

text \<open>
  The trie of an action list as a map from clocks to nodes of the list, and the search for
  the node before a clock.
\<close>

section \<open>Well-formed tries\<close>

definition leaf :: "trie \<Rightarrow> nat \<Rightarrow> addr option" where
  "leaf nodes c = (case nodes (7, c div 16) of
     None \<Rightarrow> None
   | Some nd \<Rightarrow> (case an_children nd ! (c mod 16) of Link a \<Rightarrow> Some a | _ \<Rightarrow> None))"

definition on_path :: "nat \<Rightarrow> node_id \<Rightarrow> bool" where
  "on_path c ptr \<longleftrightarrow> snd ptr = c div 16 ^ (8 - fst ptr)"

text \<open>Nodes that \<open>ex\<close> exempts may have no child.\<close>

definition node_ok :: "(node_id \<Rightarrow> bool) \<Rightarrow> trie \<Rightarrow> nat \<Rightarrow> nat \<Rightarrow> allnode \<Rightarrow> bool" where
  "node_ok ex nodes d v nd \<longleftrightarrow> d \<le> 7 \<and> v < 16 ^ d \<and> length (an_children nd) = 16 \<and>
     an_count nd = int (length (filter (\<lambda>c. c \<noteq> Null) (an_children nd))) \<and>
     (d > 0 \<longrightarrow> nodes (d - 1, v div 16) \<noteq> None \<and> (\<not> ex (d, v) \<longrightarrow> an_count nd > 0)) \<and>
     (\<forall>i < 16. if d = 7 then an_children nd ! i \<noteq> Inner
        else an_children nd ! i = (if nodes (d + 1, 16 * v + i) = None then Null else Inner))"

definition trie_wf :: "(node_id \<Rightarrow> bool) \<Rightarrow> trie \<Rightarrow> bool" where
  "trie_wf ex nodes \<longleftrightarrow> nodes (0, 0) \<noteq> None \<and> (\<forall>d v nd. nodes (d, v) = Some nd \<longrightarrow> node_ok ex nodes d v nd)"

lemma wfD: "trie_wf ex nodes \<Longrightarrow> nodes (d, v) = Some nd \<Longrightarrow> node_ok ex nodes d v nd"
  by (simp add: trie_wf_def)

lemma div_step: "(c::nat) div 16 ^ Suc k = c div 16 ^ k div 16"
  by (simp only: power_Suc2 div_mult2_eq)

lemma div_range: "(c::nat) div 16 ^ k = m \<longleftrightarrow> m * 16 ^ k \<le> c \<and> c < (m + 1) * 16 ^ k"
proof -
  have "(0::nat) < 16 ^ k" by simp
  then show ?thesis by (metis div_nat_eqI dividend_less_div_times mult.commute div_times_less_eq_dividend Suc_eq_plus1 mult_Suc)
qed

lemma leaf_parents: "trie_wf ex nodes \<Longrightarrow> leaf nodes c \<noteq> None \<Longrightarrow> k \<le> 7 \<Longrightarrow> nodes (7 - k, c div 16 ^ Suc k) \<noteq> None"
proof (induction k)
  case 0
  then show ?case by (auto simp: leaf_def split: option.splits)
next
  case (Suc k)
  then obtain nd where "nodes (7 - k, c div 16 ^ Suc k) = Some nd" by auto
  from wfD [OF Suc.prems(1) this] Suc.prems(3) have "nodes (7 - k - 1, c div 16 ^ Suc k div 16) \<noteq> None"
    unfolding node_ok_def by simp
  then show ?case by (simp only: div_step [of c "Suc k"] diff_diff_left) simp
qed

lemma on_path_at: "k \<le> 7 \<Longrightarrow> on_path c (7 - k, v) \<longleftrightarrow> v = c div 16 ^ Suc k"
  by (simp add: on_path_def Suc_diff_le [symmetric] del: power_Suc)

lemma on_path_below: "k \<le> 7 \<Longrightarrow> on_path c (Suc (7 - k), v) \<longleftrightarrow> v = c div 16 ^ k"
  by (simp add: on_path_def)

lemma child_inner:
  assumes "trie_wf ex nodes" "nodes (7 - k, v) = Some nd" "1 \<le> k" "k \<le> 7" "i < 16"
  shows "an_children nd ! i = (if nodes (Suc (7 - k), 16 * v + i) = None then Null else Inner)"
  using wfD [OF assms(1,2)] assms(3-5) by (auto simp: node_ok_def)

lemma child_leaf:
  assumes "trie_wf ex nodes" "nodes (7, v) = Some nd" "i < 16"
  shows "an_children nd ! i \<noteq> Inner" "leaf nodes (16 * v + i) = (case an_children nd ! i of Link a \<Rightarrow> Some a | _ \<Rightarrow> None)"
  using wfD [OF assms(1,2)] assms(2,3) by (auto simp: node_ok_def leaf_def)

lemma some_child:
  assumes "node_ok ex nodes d v nd" "an_count nd > 0"
  shows "\<exists>i < 16. an_children nd ! i \<noteq> Null"
proof -
  let ?cs = "filter (\<lambda>c. c \<noteq> Null) (an_children nd)"
  from assms have "?cs \<noteq> []" and l: "length (an_children nd) = 16" by (auto simp: node_ok_def)
  then obtain c where "c \<in> set ?cs" by (meson list.set_sel(1))
  with l show ?thesis by (auto simp: in_set_conv_nth)
qed

lemma wf_count: "trie_wf ex nodes \<Longrightarrow> nodes (d, v) = Some nd \<Longrightarrow> d > 0 \<Longrightarrow> \<not> ex (d, v) \<Longrightarrow> an_count nd > 0"
  unfolding trie_wf_def node_ok_def by blast

text \<open>Below every node that is not exempt there is a leaf.\<close>

lemma has_leaf:
  assumes "trie_wf (on_path C) nodes" "nodes (7 - k, v) \<noteq> None" "k \<le> 7" "\<not> on_path C (7 - k, v)" "C < 16 ^ 8"
  shows "\<exists>c. c div 16 ^ Suc k = v \<and> leaf nodes c \<noteq> None"
  using assms(2-4)
proof (induction k arbitrary: v)
  case 0
  then obtain nd where nd: "nodes (7, v) = Some nd" by auto
  from wf_count [OF assms(1) nd] 0(3) have "an_count nd > 0" by simp
  with some_child [OF wfD [OF assms(1) nd]] obtain i where i: "i < 16" "an_children nd ! i \<noteq> Null" by blast
  from child_leaf [OF assms(1) nd i(1)] i(2) have "leaf nodes (16 * v + i) \<noteq> None" by (cases "an_children nd ! i") auto
  with i(1) show ?case by (intro exI [of _ "16 * v + i"]) simp
next
  case (Suc k)
  then obtain nd where nd: "nodes (7 - Suc k, v) = Some nd" by auto
  have "7 - Suc k \<noteq> 0"
  proof
    assume "7 - Suc k = 0"
    with Suc.prems(2) have k: "Suc k = 7" by simp
    from wfD [OF assms(1) nd] k have "v = 0" by (simp add: node_ok_def)
    with Suc.prems(3) k assms(5) show False by (simp add: on_path_def)
  qed
  with wf_count [OF assms(1) nd] Suc.prems(3) have "an_count nd > 0" by simp
  with some_child [OF wfD [OF assms(1) nd]] obtain i where i: "i < 16" "an_children nd ! i \<noteq> Null" by blast
  have lvl: "Suc (7 - Suc k) = 7 - k" "Suc (6 - k) = 7 - k" using Suc.prems(2) by simp_all
  from child_inner [OF assms(1) nd _ Suc.prems(2) i(1)] i(2) have "nodes (7 - k, 16 * v + i) \<noteq> None"
    by (auto simp: lvl split: if_splits)
  moreover have "\<not> on_path C (7 - k, 16 * v + i)"
  proof
    assume "on_path C (7 - k, 16 * v + i)"
    then have "16 * v + i = C div 16 ^ Suc k" using Suc.prems(2) by (simp add: on_path_at)
    then have "v = C div 16 ^ Suc k div 16" using i(1) by simp
    with Suc.prems(2,3) show False by (simp only: on_path_at div_step [of C "Suc k"])
  qed
  ultimately have "\<exists>c. c div 16 ^ Suc k = 16 * v + i \<and> leaf nodes c \<noteq> None" using Suc.prems(2) by (intro Suc.IH) simp_all
  then obtain c where c: "c div 16 ^ Suc k = 16 * v + i" "leaf nodes c \<noteq> None" by blast
  then have "c div 16 ^ Suc (Suc k) = v" using i(1) by (simp only: div_step [of c "Suc k"])
  with c(2) show ?case by blast
qed

section \<open>Clocks as words\<close>

lemma nibble_unat: "nibble w n = unat w div 2 ^ n mod 16"
proof -
  have "(15::u32) = mask 4" by (simp add: mask_eq_exp_minus_1)
  then have "nibble w n = unat (take_bit 4 (drop_bit n w))" by (simp add: nibble_def take_bit_eq_mask)
  moreover have "unat w < 4294967296" using unsigned_less [of w] by simp
  ultimately show ?thesis by (simp add: unsigned_take_bit_eq unsigned_drop_bit_eq take_bit_nat_def drop_bit_nat_def)
qed

text \<open>The last clock before the block \<open>m\<close> of \<open>16 ^ k\<close> clocks.\<close>

definition before :: "nat \<Rightarrow> nat \<Rightarrow> u32" where
  "before k m = of_nat (m * 16 ^ k) - 1"

lemma nibble_zero: "k \<le> 7 \<Longrightarrow> nibble (before k 0) (4 * k) = ALLMASK"
proof -
  assume "k \<le> 7"
  then have "k \<in> {0, 1, 2, 3, 4, 5, 6, 7}" by auto
  moreover have "unat (- 1 :: u32) = 4294967295" by (simp add: unsigned_minus_1_eq_mask mask_eq_exp_minus_1)
  ultimately show ?thesis by (auto simp: before_def ALLMASK_def nibble_unat)
qed

lemma nibble_before:
  assumes "0 < m" "m * 16 ^ k \<le> 16 ^ 8"
  shows "nibble (before k m) (4 * k) = (m - 1) mod 16"
proof -
  let ?N = "m * 16 ^ k"
  have pos: "0 < ?N" using assms(1) by simp
  have "before k m = of_nat (?N - 1)" using pos unfolding before_def by (simp add: of_nat_diff Suc_leI del: of_nat_mult of_nat_power)
  moreover have "?N - 1 < 2 ^ LENGTH(32)" using assms(2) pos by simp
  then have "unat (of_nat (?N - 1) :: u32) = ?N - 1" by (simp only: unsigned_of_nat take_bit_nat_eq_self of_nat_id)
  ultimately have u: "unat (before k m) = ?N - 1" by simp
  have "(?N - 1) div 16 ^ k = m - 1"
    using assms(1) by (simp add: div_range algebra_simps) (simp add: diff_mult_distrib diff_le_mono2)
  moreover have "(2::nat) ^ (4 * k) = 16 ^ k" by (simp add: power_mult)
  ultimately show ?thesis by (simp add: nibble_unat u)
qed

lemma before_down: "0 < m \<Longrightarrow> before k m - 16 ^ k = before k (m - 1)"
  by (simp add: before_def of_nat_diff algebra_simps)

lemma before_up: "before k (16 * v) = before (Suc k) v"
  by (simp add: before_def ac_simps)

lemma increment_up: "push_bit 4 ((16::u32) ^ k) = 16 ^ Suc k"
  by (simp add: push_bit_eq_mult)

lemma increment_down:
  assumes "k < 7"
  shows "drop_bit 4 ((16::u32) ^ Suc k) = 16 ^ k"
proof -
  from assms have "k \<in> {0, 1, 2, 3, 4, 5, 6}" by auto
  then show ?thesis by (auto simp: drop_bit_eq_div)
qed

section \<open>The search down\<close>

text \<open>The children of the node that holds the clocks of block \<open>v\<close>, seen as blocks.\<close>

lemma block_step:
  assumes wf: "trie_wf (on_path C) nodes" and C: "C < 16 ^ 8" and nd: "nodes (7 - k, v) = Some nd" and k: "k \<le> 7" and i: "i < 16"
    and off: "16 * v + i \<noteq> C div 16 ^ k"
  shows "an_children nd ! i = Null \<Longrightarrow> \<forall>c. c div 16 ^ k = 16 * v + i \<longrightarrow> leaf nodes c = None"
    "an_children nd ! i = Inner \<Longrightarrow> 0 < k \<and> nodes (Suc (7 - k), 16 * v + i) \<noteq> None \<and> \<not> on_path C (Suc (7 - k), 16 * v + i) \<and>
      (\<exists>c. c div 16 ^ k = 16 * v + i \<and> leaf nodes c \<noteq> None)"
    "an_children nd ! i = Link a \<Longrightarrow> k = 0 \<and> leaf nodes (16 * v + i) = Some a"
proof -
  show "\<forall>c. c div 16 ^ k = 16 * v + i \<longrightarrow> leaf nodes c = None" if null: "an_children nd ! i = Null"
  proof (cases k)
    case 0
    with child_leaf [OF wf _ i] nd null show ?thesis by simp
  next
    case (Suc j)
    show ?thesis
    proof (intro allI impI)
      fix c assume c: "c div 16 ^ k = 16 * v + i"
      have "nodes (Suc (7 - k), 16 * v + i) = None"
        using child_inner [OF wf nd _ k i] null Suc by (simp split: if_splits)
      moreover have "Suc (7 - k) = 7 - j" using Suc k by simp
      ultimately show "leaf nodes c = None" using leaf_parents [OF wf, of c j] c Suc k by (metis Suc_leD)
    qed
  qed
  show "0 < k \<and> nodes (Suc (7 - k), 16 * v + i) \<noteq> None \<and> \<not> on_path C (Suc (7 - k), 16 * v + i) \<and>
      (\<exists>c. c div 16 ^ k = 16 * v + i \<and> leaf nodes c \<noteq> None)" if inner: "an_children nd ! i = Inner"
  proof -
    have k0: "0 < k" using child_leaf [OF wf _ i] nd inner by (cases k) auto
    then obtain j where j: "k = Suc j" by (cases k) auto
    have lvl: "Suc (7 - k) = 7 - j" "Suc (6 - j) = 7 - j" using j k by simp_all
    have n: "nodes (7 - j, 16 * v + i) \<noteq> None"
      using child_inner [OF wf nd _ k i] inner j by (simp add: lvl split: if_splits)
    have p: "\<not> on_path C (7 - j, 16 * v + i)" using off j k by (simp add: on_path_at del: power_Suc)
    from has_leaf [OF wf n _ p C] j k0 n p k show ?thesis by (simp add: lvl del: power_Suc)
  qed
  show "k = 0 \<and> leaf nodes (16 * v + i) = Some a" if link: "an_children nd ! i = Link a"
  proof (cases k)
    case 0
    with child_leaf [OF wf _ i] nd link show ?thesis by simp
  next
    case (Suc j)
    with child_inner [OF wf nd _ k i] link show ?thesis by (simp split: if_splits)
  qed
qed

lemma before_bound: "(16 * v + j) * 16 ^ k \<le> 16 ^ 8" if "v < 16 ^ (7 - k)" "k \<le> 7" "j \<le> (16::nat)"
proof -
  have "16 * v + j \<le> 16 * 16 ^ (7 - k)" using that by linarith
  then have "(16 * v + j) * 16 ^ k \<le> 16 ^ Suc (7 - k) * 16 ^ k" by simp
  also have "\<dots> = 16 ^ 8" using that(2) by (simp flip: power_Suc power_add)
  finally show ?thesis .
qed

lemma find_down_spec:
  assumes wf: "trie_wf (on_path C) nodes" and C: "C < 16 ^ 8"
    and "nodes (7 - k, v) \<noteq> None" "k \<le> 7" "\<not> on_path C (7 - k, v)" "0 < j" "j \<le> 16"
    "\<exists>c < (16 * v + j) * 16 ^ k. 16 * v * 16 ^ k \<le> c \<and> leaf nodes c \<noteq> None"
  shows "\<exists>c a. find_down nodes (7 - k, v) (before k (16 * v + j)) (16 ^ k) (4 * k) = Some a \<and> leaf nodes c = Some a \<and>
    16 * v * 16 ^ k \<le> c \<and> c < (16 * v + j) * 16 ^ k \<and> (\<forall>c'. c < c' \<and> c' < (16 * v + j) * 16 ^ k \<longrightarrow> leaf nodes c' = None)"
  using assms(3-)
proof (induction "(k, j)" arbitrary: k v j rule: wf_induct_rule [OF wf_lex_prod [OF wf_less wf_less]])
  case (1 k j v)
  obtain nd where nd: "nodes (7 - k, v) = Some nd" using 1(2) by blast
  have vb: "v < 16 ^ (7 - k)" using wfD [OF wf nd] by (simp add: node_ok_def)
  let ?m = "16 * v + j" and ?i = "j - 1"
  have i: "?i < 16" "16 * v + ?i = ?m - 1" using 1(5,6) by simp_all
  have nib: "nibble (before k ?m) (4 * k) = ?i"
  proof -
    have "(?m - 1) mod 16 = ?i" unfolding i(2) [symmetric] using i(1) by simp
    with nibble_before [OF _ before_bound [OF vb 1(3,6)]] 1(5) show ?thesis by simp
  qed
  have off: "16 * v + ?i \<noteq> C div 16 ^ k"
  proof
    assume "16 * v + ?i = C div 16 ^ k"
    then have "v = C div 16 ^ k div 16" using i(1) by simp
    with 1(3,4) show False by (simp add: on_path_at div_step del: power_Suc)
  qed
  note st = block_step [OF wf C nd 1(3) i(1) off]
  have blk: "c div 16 ^ k = 16 * v + ?i \<longleftrightarrow> (16 * v + ?i) * 16 ^ k \<le> c \<and> c < ?m * 16 ^ k" for c
    using div_range [of c k "16 * v + ?i"] 1(5) by simp
  show ?case
  proof (cases "an_children nd ! ?i")
    case Null
    from 1(7) obtain c where c: "c < ?m * 16 ^ k" "16 * v * 16 ^ k \<le> c" "leaf nodes c \<noteq> None" by blast
    have c2: "c < (16 * v + ?i) * 16 ^ k" using st(1) [OF Null] blk c by (metis not_less)
    have "?i \<noteq> 0" using c2 c(2) by (cases "?i = 0") simp_all
    have "((k, ?i), (k, j)) \<in> {(x, y). x < y} <*lex*> {(x, y). x < y}" using 1(5) by simp
    from 1(1) [OF this 1(2-4)] \<open>?i \<noteq> 0\<close> i(1) c(2,3) c2 obtain c' a where r:
      "find_down nodes (7 - k, v) (before k (16 * v + ?i)) (16 ^ k) (4 * k) = Some a" "leaf nodes c' = Some a"
      "16 * v * 16 ^ k \<le> c'" "c' < (16 * v + ?i) * 16 ^ k"
      "\<forall>c''. c' < c'' \<and> c'' < (16 * v + ?i) * 16 ^ k \<longrightarrow> leaf nodes c'' = None" by fastforce
    have "before k ?m - 16 ^ k = before k (16 * v + ?i)" using before_down [of ?m k] 1(5) i(2) by simp
    with nd nib Null r(1) have "find_down nodes (7 - k, v) (before k ?m) (16 ^ k) (4 * k) = Some a"
      by (subst find_down.simps) simp
    moreover have "leaf nodes c'' = None" if "c' < c''" "c'' < ?m * 16 ^ k" for c''
      using r(5) st(1) [OF Null] blk that by (metis not_less)
    moreover have "(16 * v + ?i) * 16 ^ k \<le> ?m * 16 ^ k" by simp
    then have "c' < ?m * 16 ^ k" using r(4) by (rule order_less_le_trans [rotated])
    ultimately show ?thesis using r(2,3) by (intro exI [of _ c'] exI [of _ a]) auto
  next
    case (Link a)
    note l = st(3) [OF Link]
    with nd nib Link have "find_down nodes (7 - k, v) (before k ?m) (16 ^ k) (4 * k) = Some a"
      by (subst find_down.simps) simp
    with l 1(5) show ?thesis by (intro exI [of _ "16 * v + ?i"] exI [of _ a]) auto
  next
    case Inner
    note n = st(2) [OF Inner]
    then obtain k' where k': "k = Suc k'" by (cases k) auto
    have lvl: "Suc (7 - k) = 7 - k'" using k' 1(3) by simp
    let ?v = "16 * v + ?i"
    have pw: "?v * 16 ^ k = 16 * ?v * 16 ^ k'" "?m * 16 ^ k = (16 * ?v + 16) * 16 ^ k'"
      using 1(5) i(2) by (simp_all add: k' algebra_simps)
    from n blk obtain c where c: "?v * 16 ^ k \<le> c" "c < ?m * 16 ^ k" "leaf nodes c \<noteq> None" by blast
    have "((k', 16), (k, j)) \<in> {(x, y). x < y} <*lex*> {(x, y). x < y}" using k' by simp
    moreover have "nodes (7 - k', ?v) \<noteq> None" "k' \<le> 7" "\<not> on_path C (7 - k', ?v)" "(0::nat) < 16" "(16::nat) \<le> 16"
      using n 1(3) k' lvl by simp_all
    moreover have "\<exists>c < (16 * ?v + 16) * 16 ^ k'. 16 * ?v * 16 ^ k' \<le> c \<and> leaf nodes c \<noteq> None"
      using c unfolding pw by blast
    ultimately obtain c' a where r:
      "find_down nodes (7 - k', ?v) (before k' (16 * ?v + 16)) (16 ^ k') (4 * k') = Some a" "leaf nodes c' = Some a"
      "16 * ?v * 16 ^ k' \<le> c'" "c' < (16 * ?v + 16) * 16 ^ k'"
      "\<forall>c''. c' < c'' \<and> c'' < (16 * ?v + 16) * 16 ^ k' \<longrightarrow> leaf nodes c'' = None" using 1(1) by blast
    have "before k ?m = before k' (16 * ?v + 16)" unfolding before_def pw(2) ..
    with nd nib Inner r(1) k' 1(3) lvl increment_down [of k'] have "find_down nodes (7 - k, v) (before k ?m) (16 ^ k) (4 * k) = Some a"
      by (subst find_down.simps) (simp add: child_id_def del: power_Suc)
    moreover have "16 * v * 16 ^ k \<le> c'"
    proof -
      have "16 * v * 16 ^ k \<le> ?v * 16 ^ k" by simp
      also have "\<dots> \<le> c'" unfolding pw(1) by (rule r(3))
      finally show ?thesis .
    qed
    ultimately show ?thesis using r(2,4,5) unfolding pw(2) by blast
  qed
qed

section \<open>The search up\<close>

definition up_ok :: "trie \<Rightarrow> nat \<Rightarrow> up_result \<Rightarrow> bool" where
  "up_ok nodes C r \<longleftrightarrow> (case r of
     NoPrev \<Rightarrow> \<forall>c < C. leaf nodes c = None
   | Found a \<Rightarrow> \<exists>c < C. leaf nodes c = Some a \<and> (\<forall>c'. c < c' \<and> c' < C \<longrightarrow> leaf nodes c' = None)
   | Below ptr index increment totalshift \<Rightarrow> \<exists>k v. k \<le> 7 \<and> ptr = (7 - k, v) \<and> index = before k (16 * v + 16) \<and>
       increment = 16 ^ k \<and> totalshift = 4 * k \<and> nodes ptr \<noteq> None \<and> \<not> on_path C ptr \<and>
       (\<exists>c < (16 * v + 16) * 16 ^ k. 16 * v * 16 ^ k \<le> c \<and> leaf nodes c \<noteq> None) \<and> (16 * v + 16) * 16 ^ k \<le> C \<and>
       (\<forall>c. (16 * v + 16) * 16 ^ k \<le> c \<and> c < C \<longrightarrow> leaf nodes c = None))"

lemma find_up_spec:
  assumes wf: "trie_wf (on_path C) nodes" and C: "C < 16 ^ 8"
    and "nodes (7 - k, v) \<noteq> None" "k \<le> 7" "v = C div 16 ^ Suc k" "16 * v + j \<le> C div 16 ^ k"
    "\<forall>c. (16 * v + j) * 16 ^ k \<le> c \<and> c < C \<longrightarrow> leaf nodes c = None"
  shows "\<exists>r. find_up nodes (7 - k, v) (before k (16 * v + j)) (16 ^ k) (4 * k) = Some r \<and> up_ok nodes C r"
  using assms(3-)
proof (induction "(7 - k, j)" arbitrary: k v j rule: wf_induct_rule [OF wf_lex_prod [OF wf_less wf_less]])
  case (1 k j v)
  obtain nd where nd: "nodes (7 - k, v) = Some nd" using 1(2) by blast
  have vb: "v < 16 ^ (7 - k)" using wfD [OF wf nd] by (simp add: node_ok_def)
  have "C div 16 ^ k div 16 = v" using 1(4) by (simp only: div_step)
  then have j16: "j < 16" using 1(5) by linarith
  let ?m = "16 * v + j"
  show ?case
  proof (cases j)
    case 0
    have nib: "nibble (before k ?m) (4 * k) = ALLMASK"
    proof (cases "v = 0")
      case True
      with 0 nibble_zero [OF 1(3)] show ?thesis by simp
    next
      case False
      from False obtain w where "v = Suc w" by (cases v) auto
      then have "(16 * v - 1) mod 16 = 15" by simp
      with nibble_before [OF _ before_bound [OF vb 1(3), of 0]] 0 False show ?thesis by (simp add: ALLMASK_def)
    qed
    show ?thesis
    proof (cases "k = 7")
      case True
      then have "v = 0" using 1(4) C by simp
      with nd nib True have "find_up nodes (7 - k, v) (before k ?m) (16 ^ k) (4 * k) = Some NoPrev"
        by (subst find_up.simps) simp
      with 1(6) \<open>v = 0\<close> 0 show ?thesis by (intro exI [of _ NoPrev]) (simp add: up_ok_def)
    next
      case False
      have lvl: "7 - Suc k = 7 - k - 1" "Suc k \<le> 7" using False 1(3) by simp_all
      let ?v = "v div 16" and ?j = "v mod 16"
      have v: "16 * ?v + ?j = v" by simp
      have par: "nodes (7 - Suc k, ?v) \<noteq> None" using wfD [OF wf nd] lvl by (simp add: node_ok_def)
      have vv: "?v = C div 16 ^ Suc (Suc k)" unfolding 1(4) by (simp only: div_step [of C "Suc k"])
      have le: "16 * ?v + ?j \<le> C div 16 ^ Suc k" using 1(4) by simp
      have none: "\<forall>c. (16 * ?v + ?j) * 16 ^ Suc k \<le> c \<and> c < C \<longrightarrow> leaf nodes c = None"
        using 1(6) 0 by (simp add: ac_simps)
      have "((7 - Suc k, ?j), (7 - k, j)) \<in> {(x, y). x < y} <*lex*> {(x, y). x < y}" using lvl by auto
      from 1(1) [OF this par lvl(2) vv le none] obtain r where
        r: "find_up nodes (7 - Suc k, ?v) (before (Suc k) v) (16 ^ Suc k) (4 * Suc k) = Some r" "up_ok nodes C r"
        unfolding v by blast
      have "find_up nodes (7 - k, v) (before k ?m) (16 ^ k) (4 * k) = Some r"
        using nd nib False 1(3) r(1) 0 before_up [of k v] increment_up [of k] lvl(1)
        by (subst find_up.simps) (simp add: parent_def add.commute del: power_Suc)
      with r(2) show ?thesis by blast
    qed
  next
    case (Suc i)
    have i: "i < 16" using j16 Suc by simp
    have nib: "nibble (before k ?m) (4 * k) = i"
    proof -
      have "(?m - 1) mod 16 = i" using Suc i by simp
      with nibble_before [OF _ before_bound [OF vb 1(3), of j]] Suc j16 show ?thesis by simp
    qed
    have all: "i \<noteq> ALLMASK" using j16 Suc by (simp add: ALLMASK_def)
    have off: "16 * v + i \<noteq> C div 16 ^ k" using 1(5) Suc by simp
    note st = block_step [OF wf C nd 1(3) i off]
    have blk: "c div 16 ^ k = 16 * v + i \<longleftrightarrow> (16 * v + i) * 16 ^ k \<le> c \<and> c < ?m * 16 ^ k" for c
      using div_range [of c k "16 * v + i"] Suc by simp
    have mC: "?m * 16 ^ k \<le> C"
      using 1(5) by (meson div_times_less_eq_dividend mult_le_mono1 order_trans)
    show ?thesis
    proof (cases "an_children nd ! i")
      case Null
      have le: "16 * v + i \<le> C div 16 ^ k" using 1(5) Suc by simp
      have none: "\<forall>c. (16 * v + i) * 16 ^ k \<le> c \<and> c < C \<longrightarrow> leaf nodes c = None"
        using 1(6) st(1) [OF Null] blk by (metis not_less)
      have "((7 - k, i), (7 - k, j)) \<in> {(x, y). x < y} <*lex*> {(x, y). x < y}" using Suc by simp
      from 1(1) [OF this 1(2-4) le none] obtain r where
        r: "find_up nodes (7 - k, v) (before k (16 * v + i)) (16 ^ k) (4 * k) = Some r" "up_ok nodes C r" by blast
      have "before k ?m - 16 ^ k = before k (16 * v + i)" using before_down [of ?m k] Suc by simp
      with nd nib all Null r(1) have "find_up nodes (7 - k, v) (before k ?m) (16 ^ k) (4 * k) = Some r"
        by (subst find_up.simps) simp
      with r(2) show ?thesis by blast
    next
      case (Link a)
      note l = st(3) [OF Link]
      with nd nib all Link have "find_up nodes (7 - k, v) (before k ?m) (16 ^ k) (4 * k) = Some (Found a)"
        by (subst find_up.simps) simp
      moreover have "up_ok nodes C (Found a)"
        using l mC 1(6) Suc by (auto simp: up_ok_def intro!: exI [of _ "16 * v + i"])
      ultimately show ?thesis by blast
    next
      case Inner
      note n = st(2) [OF Inner]
      then obtain k' where k': "k = Suc k'" by (cases k) auto
      have lvl: "Suc (7 - k) = 7 - k'" "k' < 7" using k' 1(3) by simp_all
      let ?v = "16 * v + i"
      let ?r = "Below (7 - k', ?v) (before k' (16 * ?v + 16)) (16 ^ k') (4 * k')"
      have pw: "?v * 16 ^ k = 16 * ?v * 16 ^ k'" "?m * 16 ^ k = (16 * ?v + 16) * 16 ^ k'"
        using Suc by (simp_all add: k' algebra_simps)
      have "before k ?m = before k' (16 * ?v + 16)" unfolding before_def pw(2) ..
      with nd nib all Inner k' lvl increment_down [of k'] have
        "find_up nodes (7 - k, v) (before k ?m) (16 ^ k) (4 * k) = Some ?r"
        by (subst find_up.simps) (simp add: child_id_def del: power_Suc)
      moreover from n blk obtain c where "?v * 16 ^ k \<le> c" "c < ?m * 16 ^ k" "leaf nodes c \<noteq> None" by blast
      then have "up_ok nodes C ?r"
        using n lvl mC 1(6) unfolding up_ok_def pw up_result.case
        by (intro exI [of _ k'] exI [of _ ?v] conjI exI [of _ c]) simp_all
      ultimately show ?thesis by blast
    qed
  qed
qed

lemma findPrev_spec:
  assumes wf: "trie_wf (on_path (unat clock)) nodes" and nd: "nodes (7, unat clock div 16) \<noteq> None"
  shows "\<exists>r. findPrev nodes (7, unat clock div 16) clock = Some r \<and>
    (case r of None \<Rightarrow> \<forall>c < unat clock. leaf nodes c = None
     | Some a \<Rightarrow> \<exists>c < unat clock. leaf nodes c = Some a \<and> (\<forall>c'. c < c' \<and> c' < unat clock \<longrightarrow> leaf nodes c' = None))"
proof -
  let ?C = "unat clock"
  have C: "?C < 16 ^ 8" using unsigned_less [of clock] by simp
  have start: "before 0 ?C = clock - 1" by (simp add: before_def)
  have none: "\<forall>c. (16 * (?C div 16) + ?C mod 16) * 16 ^ 0 \<le> c \<and> c < ?C \<longrightarrow> leaf nodes c = None" by auto
  have "\<exists>r. find_up nodes (7 - 0, ?C div 16) (before 0 (16 * (?C div 16) + ?C mod 16)) (16 ^ 0) (4 * 0) = Some r \<and> up_ok nodes ?C r"
    by (rule find_up_spec [OF wf C _ _ _ _ none]) (use nd in simp_all)
  then obtain r where r: "find_up nodes (7, ?C div 16) (clock - 1) 1 0 = Some r" "up_ok nodes ?C r" by (auto simp: start)
  show ?thesis
  proof (cases r)
    case NoPrev
    with r show ?thesis by (simp add: findPrev_def up_ok_def)
  next
    case (Found a)
    with r show ?thesis by (simp add: findPrev_def up_ok_def)
  next
    case (Below ptr index increment totalshift)
    with r(2) obtain k v where b: "k \<le> 7" "ptr = (7 - k, v)" "index = before k (16 * v + 16)" "increment = 16 ^ k"
      "totalshift = 4 * k" "nodes (7 - k, v) \<noteq> None" "\<not> on_path ?C (7 - k, v)"
      "\<exists>c < (16 * v + 16) * 16 ^ k. 16 * v * 16 ^ k \<le> c \<and> leaf nodes c \<noteq> None" "(16 * v + 16) * 16 ^ k \<le> ?C"
      "\<forall>c. (16 * v + 16) * 16 ^ k \<le> c \<and> c < ?C \<longrightarrow> leaf nodes c = None"
      unfolding up_ok_def by auto
    from find_down_spec [OF wf C b(6,1,7) _ _ b(8)] obtain c a where
      d: "find_down nodes (7 - k, v) (before k (16 * v + 16)) (16 ^ k) (4 * k) = Some a" "leaf nodes c = Some a"
        "c < (16 * v + 16) * 16 ^ k" "\<forall>c'. c < c' \<and> c' < (16 * v + 16) * 16 ^ k \<longrightarrow> leaf nodes c' = None" by auto
    have "findPrev nodes (7, ?C div 16) clock = Some (Some a)"
      using r(1) Below b(2-5) d(1) by (simp add: findPrev_def)
    moreover have "leaf nodes c' = None" if "c < c'" "c' < ?C" for c' using b(10) d(4) that by (metis not_less)
    ultimately show ?thesis using d(2,3) b(9) by (auto intro!: exI [of _ c])
  qed
qed

end
