(* ===== verification/Action_Insert.thy ===== *)
theory Action_Insert
  imports Action_Trie
begin

text \<open>
  Adding an action to the trace: the way down creates the missing nodes of the trie, the leaf
  gets the new node of the list, and the list stays sorted by clock, equal clocks in the
  order of insertion.
\<close>

section \<open>Changing the trie\<close>

definition children_count :: "child list \<Rightarrow> int" where
  "children_count cs = int (length (filter (\<lambda>c. c \<noteq> Null) cs))"

lemma children_count_update:
  "i < length cs \<Longrightarrow> children_count (cs[i := c]) = children_count cs + (if c = Null then 0 else 1) - (if cs ! i = Null then 0 else 1)"
  using filter_update_length [of i cs "\<lambda>c. c \<noteq> Null" c] by (auto simp: children_count_def split: if_splits)

lemma children_count_pos: "i < length cs \<Longrightarrow> cs ! i \<noteq> Null \<Longrightarrow> children_count cs > 0"
  by (auto simp: children_count_def filter_empty_conv intro!: bexI [of _ "cs ! i"])

lemma children_count_nonneg [simp]: "0 \<le> children_count cs"
  by (simp add: children_count_def)

text \<open>A node is judged by its own contents and by which other nodes there are.\<close>

lemma node_ok_parts:
  "node_ok ex nodes d v nd \<longleftrightarrow> d \<le> 7 \<and> v < 16 ^ d \<and> length (an_children nd) = 16 \<and>
     an_count nd = children_count (an_children nd) \<and>
     (d > 0 \<longrightarrow> nodes (d - 1, v div 16) \<noteq> None \<and> (\<not> ex (d, v) \<longrightarrow> an_count nd > 0)) \<and>
     (\<forall>i < 16. if d = 7 then an_children nd ! i \<noteq> Inner
        else an_children nd ! i = (if nodes (d + 1, 16 * v + i) = None then Null else Inner))"
  by (simp add: node_ok_def children_count_def)

lemma node_ok_same: "(\<And>x. nodes' x = None \<longleftrightarrow> nodes x = None) \<Longrightarrow> node_ok ex nodes' d v nd = node_ok ex nodes d v nd"
  by (simp add: node_ok_def)

lemma set_leaf_wf:
  fixes a :: addr
  assumes wf: "trie_wf ex nodes" and nd: "nodes (7, v) = Some nd" and i: "i < 16"
  defines "nodes' \<equiv> nodes((7, v) \<mapsto> nd\<lparr>an_children := (an_children nd)[i := Link a],
      an_count := an_count nd + (if an_children nd ! i = Null then 1 else 0)\<rparr>)"
  shows "trie_wf ex nodes'" "leaf nodes' = (leaf nodes)(16 * v + i \<mapsto> a)"
proof -
  have dom: "nodes' x = None \<longleftrightarrow> nodes x = None" for x using nd by (simp add: nodes'_def)
  note ok = wfD [OF wf nd, unfolded node_ok_parts]
  then have len: "length (an_children nd) = 16" by simp
  have "node_ok ex nodes 7 v (nd\<lparr>an_children := (an_children nd)[i := Link a],
      an_count := an_count nd + (if an_children nd ! i = Null then 1 else 0)\<rparr>)"
    using ok i len children_count_pos [of i "an_children nd"] unfolding node_ok_parts
    by (auto simp: children_count_update nth_list_update children_count_nonneg)
  then show "trie_wf ex nodes'"
    using wf nd unfolding trie_wf_def node_ok_same [of nodes' nodes, OF dom] by (auto simp: nodes'_def)
  show "leaf nodes' = (leaf nodes)(16 * v + i \<mapsto> a)"
  proof
    fix c
    have c: "c = 16 * v + i \<longleftrightarrow> c div 16 = v \<and> c mod 16 = i" using i by auto
    show "leaf nodes' c = ((leaf nodes)(16 * v + i \<mapsto> a)) c"
      using nd len i by (auto simp: leaf_def nodes'_def c nth_list_update)
  qed
qed

lemma add_child_wf:
  assumes wf: "trie_wf (on_path C) nodes" and nd: "nodes (7 - k, v) = Some nd" and k: "1 \<le> k" "k \<le> 7" and v: "v = C div 16 ^ Suc k"
    and null: "an_children nd ! i = Null" and i: "i = C div 16 ^ k mod 16"
  defines "nodes' \<equiv> nodes(child_id (7 - k, v) i \<mapsto> empty_allnode,
      (7 - k, v) \<mapsto> nd\<lparr>an_children := (an_children nd)[i := Inner], an_count := an_count nd + 1\<rparr>)"
  shows "trie_wf (on_path C) nodes'" "leaf nodes' = leaf nodes" "nodes' (7 - (k - 1), C div 16 ^ k) = Some empty_allnode"
proof -
  have i16: "i < 16" using i by simp
  have id: "child_id (7 - k, v) i = (Suc (7 - k), 16 * v + i)" by (simp add: child_id_def)
  have lvl: "Suc (7 - k) = 7 - (k - 1)" using k by simp
  have w: "16 * v + i = C div 16 ^ k" unfolding v i by (simp only: div_step mult_div_mod_eq)
  have new: "nodes (Suc (7 - k), 16 * v + i) = None"
    using child_inner [OF wf nd k i16] null by (simp split: if_splits)
  note ok = wfD [OF wf nd, unfolded node_ok_parts]
  have at: "nodes' x = (if x = (7 - k, v) then Some (nd\<lparr>an_children := (an_children nd)[i := Inner], an_count := an_count nd + 1\<rparr>)
      else if x = (Suc (7 - k), 16 * v + i) then Some empty_allnode else nodes x)" for x
    by (simp add: nodes'_def id)
  have dom: "nodes' x = None \<longleftrightarrow> nodes x = None \<and> x \<noteq> (Suc (7 - k), 16 * v + i)" for x
    using nd new by (simp add: at)
  have "node_ok (on_path C) nodes' d u n" if "nodes' (d, u) = Some n" for d u n
  proof -
    consider "(d, u) = (7 - k, v)" | "(d, u) = (Suc (7 - k), 16 * v + i)" | "(d, u) \<noteq> (7 - k, v)" "(d, u) \<noteq> (Suc (7 - k), 16 * v + i)" by blast
    then show ?thesis
    proof cases
      case 1
      then have n: "n = nd\<lparr>an_children := (an_children nd)[i := Inner], an_count := an_count nd + 1\<rparr>" using that by (simp add: at)
      have "7 - k \<noteq> 7" using k by simp
      with 1 ok i16 null show ?thesis
        unfolding n node_ok_parts dom by (auto simp: children_count_update nth_list_update)
    next
      case 2
      then have n: "n = empty_allnode" using that k by (auto simp: at)
      have none: "nodes (Suc d, 16 * u + j) = None" if "j < 16" "d < 7" for j
      proof (rule ccontr)
        assume "nodes (Suc d, 16 * u + j) \<noteq> None"
        then obtain x where "nodes (Suc d, 16 * u + j) = Some x" by blast
        from wfD [OF wf this] that have "nodes (d, u) \<noteq> None" by (simp add: node_ok_def)
        with 2 new show False by simp
      qed
      have "16 * v + i < 16 ^ Suc (7 - k)" using ok i16 by (simp add: algebra_simps)
      moreover have "on_path C (d, u)" using 2 k w by (simp add: on_path_below)
      moreover have "i div 16 = 0" using i16 by simp
      ultimately show ?thesis using 2 k nd none unfolding n node_ok_parts dom
        by (auto simp: empty_allnode_def children_count_def)
    next
      case 3
      then have "nodes (d, u) = Some n" using that unfolding at by (auto split: if_splits)
      from wfD [OF wf this] have o: "node_ok (on_path C) nodes d u n" .
      have "Suc d = Suc (7 - k) \<Longrightarrow> j < 16 \<Longrightarrow> 16 * u + j \<noteq> 16 * v + i" for j
        using 3(1) i16 by auto
      with o show ?thesis unfolding node_ok_parts dom by auto
    qed
  qed
  moreover have "nodes' (0, 0) \<noteq> None" using wf by (simp add: dom trie_wf_def)
  ultimately show "trie_wf (on_path C) nodes'" by (simp add: trie_wf_def)
  show "nodes' (7 - (k - 1), C div 16 ^ k) = Some empty_allnode" using k by (auto simp: at lvl [symmetric] w)
  show "leaf nodes' = leaf nodes"
  proof
    fix c
    have "7 - k \<noteq> 7" using k by simp
    then show "leaf nodes' c = leaf nodes c"
      using new by (auto simp: leaf_def at empty_allnode_def)
  qed
qed

text \<open>A trie in which only the path to a leaf was exempt is well formed.\<close>

lemma wf_with_leaf:
  assumes wf: "trie_wf (on_path C) nodes" and leaf: "leaf nodes C \<noteq> None"
  shows "trie_wf (\<lambda>_. False) nodes"
proof -
  have "an_count nd > 0" if nd: "nodes (d, v) = Some nd" and d: "d > 0" for d v nd
  proof (cases "on_path C (d, v)")
    case False
    with wf_count [of "on_path C" nodes d v nd] wf nd d show ?thesis by blast
  next
    case True
    note ok = wfD [OF wf nd, unfolded node_ok_parts]
    define k where "k = 7 - d"
    have dk: "d = 7 - k" "k \<le> 7" using ok d by (simp_all add: k_def)
    have v: "v = C div 16 ^ Suc k" using True dk by (simp only: on_path_at)
    define i where "i = C div 16 ^ k mod 16"
    have i: "i < 16" "16 * v + i = C div 16 ^ k" unfolding v i_def by (simp, simp only: div_step mult_div_mod_eq)
    have "an_children nd ! i \<noteq> Null"
    proof (cases k)
      case 0
      with child_leaf [OF wf _ i(1)] nd dk i(2) leaf show ?thesis by (auto split: child.splits)
    next
      case (Suc j)
      have "Suc d = 7 - j" using Suc dk d by simp
      with leaf_parents [OF wf leaf, of j] i(2) Suc dk have "nodes (Suc d, 16 * v + i) \<noteq> None" by simp
      with child_inner [OF wf, of k v nd i] nd dk Suc i(1) show ?thesis by auto
    qed
    with children_count_pos [of i "an_children nd"] ok i(1) show ?thesis by simp
  qed
  then have "node_ok (\<lambda>_. False) nodes d v nd" if "nodes (d, v) = Some nd" for d v nd
    using wfD [OF wf that] that unfolding node_ok_parts by blast
  with wf show ?thesis by (simp add: trie_wf_def)
qed

lemma wf_exempt: "trie_wf (\<lambda>_. False) nodes \<Longrightarrow> trie_wf ex nodes"
  unfolding trie_wf_def node_ok_parts by blast

section \<open>Sorted lists of actions\<close>

definition last_at :: "(aid \<Rightarrow> u32) \<Rightarrow> (addr \<times> aid) list \<Rightarrow> nat \<Rightarrow> addr option" where
  "last_at clk ps c = (let ys = filter (\<lambda>p. unat (clk (snd p)) = c) ps in if ys = [] then None else Some (fst (last ys)))"

definition trace_ok :: "(aid \<Rightarrow> u32) \<Rightarrow> actionlist \<Rightarrow> (addr \<times> aid) list \<Rightarrow> bool" where
  "trace_ok clk al ps \<longleftrightarrow> holds (al_list al) ps \<and> sorted (map (\<lambda>p. clk (snd p)) ps) \<and>
     trie_wf (\<lambda>_. False) (al_nodes al) \<and> (\<forall>c < 2 ^ 32. leaf (al_nodes al) c = last_at clk ps c)"

fun insert_node :: "(aid \<Rightarrow> u32) \<Rightarrow> addr \<Rightarrow> aid \<Rightarrow> (addr \<times> aid) list \<Rightarrow> (addr \<times> aid) list" where
  "insert_node clk a x [] = [(a, x)]"
| "insert_node clk a x (p # ps) = (if clk (snd p) \<le> clk x then p # insert_node clk a x ps else (a, x) # p # ps)"

lemma last_at_Nil [simp]: "last_at clk [] c = None"
  by (simp add: last_at_def)

lemma last_at_append: "last_at clk (ps @ qs) c = (case last_at clk qs c of None \<Rightarrow> last_at clk ps c | Some a \<Rightarrow> Some a)"
  by (simp add: last_at_def Let_def)

lemma last_at_Cons: "last_at clk (p # ps) c = (case last_at clk ps c of
    None \<Rightarrow> if unat (clk (snd p)) = c then Some (fst p) else None | Some a \<Rightarrow> Some a)"
  by (simp add: last_at_def Let_def)

lemma last_at_none: "last_at clk ps c = None \<longleftrightarrow> (\<forall>p \<in> set ps. unat (clk (snd p)) \<noteq> c)"
  by (simp add: last_at_def Let_def filter_empty_conv)

lemma insert_node_split:
  assumes "sorted (map (\<lambda>p. clk (snd p)) ps)"
  shows "\<exists>us vs. ps = us @ vs \<and> insert_node clk a x ps = us @ (a, x) # vs \<and>
    (\<forall>p \<in> set us. clk (snd p) \<le> clk x) \<and> (\<forall>p \<in> set vs. clk x < clk (snd p))"
  using assms
proof (induction ps)
  case Nil
  show ?case by simp
next
  case (Cons p ps)
  show ?case
  proof (cases "clk (snd p) \<le> clk x")
    case True
    from Cons obtain us vs where "ps = us @ vs" "insert_node clk a x ps = us @ (a, x) # vs"
      "\<forall>p \<in> set us. clk (snd p) \<le> clk x" "\<forall>p \<in> set vs. clk x < clk (snd p)" by auto
    with True show ?thesis by (intro exI [of _ "p # us"] exI [of _ vs]) simp
  next
    case False
    with Cons.prems show ?thesis by (intro exI [of _ "[]"] exI [of _ "p # ps"]) (auto simp: not_le)
  qed
qed

lemma insert_node_ok:
  assumes "sorted (map (\<lambda>p. clk (snd p)) ps)"
  shows "sorted (map (\<lambda>p. clk (snd p)) (insert_node clk a x ps))"
    "last_at clk (insert_node clk a x ps) = (last_at clk ps)(unat (clk x) \<mapsto> a)"
proof -
  from insert_node_split [OF assms] obtain us vs where s: "ps = us @ vs" "insert_node clk a x ps = us @ (a, x) # vs"
    "\<forall>p \<in> set us. clk (snd p) \<le> clk x" "\<forall>p \<in> set vs. clk x < clk (snd p)" by metis
  show "sorted (map (\<lambda>p. clk (snd p)) (insert_node clk a x ps))"
    using s assms by (fastforce simp: sorted_append intro: less_imp_le)
  have "last_at clk vs (unat (clk x)) = None" using s(4) by (auto simp: last_at_none word_less_nat_alt)
  then show "last_at clk (insert_node clk a x ps) = (last_at clk ps)(unat (clk x) \<mapsto> a)"
    unfolding s(2) unfolding s(1) by (auto simp: fun_eq_iff last_at_append last_at_Cons split: option.splits)
qed

section \<open>Adding to the list and the trie\<close>

text \<open>The linking steps, after \<^verbatim>\<open>_size\<close> has been counted up.\<close>

definition counted_up :: "aid linked \<Rightarrow> aid linked" where
  "counted_up l = l\<lparr>ll_size := ll_size l + 1\<rparr>"

lemma link_after_holds:
  assumes "holds l (ps @ p # qs)" "unused a (ps @ p # qs)"
  shows "\<exists>l'. link_after a (fst p) x (counted_up l) = Some l' \<and> holds l' (ps @ p # (a, x) # qs)"
proof (cases qs)
  case Nil
  with assms show ?thesis by (auto simp: holds_def link_after_def counted_up_def node_ops unused_def Let_def)
next
  case (Cons y rs)
  with assms show ?thesis by (auto simp: holds_def link_after_def counted_up_def node_ops unused_def Let_def)
qed

lemma link_front_holds:
  assumes "holds l ps" "unused a ps"
  shows "\<exists>l'. link_front a x (counted_up l) = Some l' \<and> holds l' ((a, x) # ps)"
proof (cases ps)
  case Nil
  with assms show ?thesis by (auto simp: holds_def link_front_def counted_up_def node_ops unused_def Let_def)
next
  case (Cons y rs)
  with assms show ?thesis by (auto simp: holds_def link_front_def counted_up_def node_ops unused_def Let_def)
qed

text \<open>The node that the trie gives for a clock, or before it, is where the list is split.\<close>

lemma split_after:
  assumes "sorted (map (\<lambda>p. clk (snd p)) ps)" "last_at clk ps c = Some a" "c \<le> unat (clk x)"
    "\<forall>c'. c < c' \<and> c' \<le> unat (clk x) \<longrightarrow> last_at clk ps c' = None"
  obtains us p vs where "ps = us @ p # vs" "fst p = a" "\<And>b. insert_node clk b x ps = us @ p # (b, x) # vs"
proof -
  from insert_node_split [OF assms(1), of _ x] obtain us vs where s: "ps = us @ vs"
    "insert_node clk a x ps = us @ (a, x) # vs" "\<forall>p \<in> set us. clk (snd p) \<le> clk x" "\<forall>p \<in> set vs. clk x < clk (snd p)" by metis
  have ins: "insert_node clk b x (us @ vs) = us @ (b, x) # vs" for b
  proof -
    have "insert_node clk b x vs = (b, x) # vs" using s(4) by (cases vs) auto
    then show ?thesis using s(3) by (induction us) auto
  qed
  have "last_at clk vs c = None" using s(4) assms(3) by (force simp: last_at_none word_less_nat_alt)
  then have us: "last_at clk us c = Some a" using assms(2) by (simp add: s(1) last_at_append)
  then have "us \<noteq> []" by auto
  then obtain us' p where u: "us = us' @ [p]" by (cases us rule: rev_cases) auto
  have "unat (clk (snd p)) = c"
  proof (rule ccontr)
    assume ne: "unat (clk (snd p)) \<noteq> c"
    from us last_at_none [of clk us c] obtain q where q: "q \<in> set us" "unat (clk (snd q)) = c" by auto
    with ne u have "q \<in> set us'" by auto
    with assms(1) s(1) u have "clk (snd q) \<le> clk (snd p)" by (simp add: sorted_append)
    with q ne have "c < unat (clk (snd p))" by (simp add: word_le_nat_alt)
    moreover have "unat (clk (snd p)) \<le> unat (clk x)" using s(3) u by (simp add: word_le_nat_alt)
    ultimately have "last_at clk ps (unat (clk (snd p))) = None" using assms(4) by blast
    with s(1) u show False by (simp add: last_at_none)
  qed
  with us u have "fst p = a" by (simp add: last_at_append last_at_Cons)
  with s(1) u ins show thesis by (intro that [of us' p vs]) simp_all
qed

lemma none_before:
  assumes "sorted (map (\<lambda>p. clk (snd p)) ps)" "\<forall>c \<le> unat (clk x). last_at clk ps c = None"
  shows "insert_node clk a x ps = (a, x) # ps"
  using assms by (cases ps) (auto simp: last_at_none word_le_nat_alt)

lemma add_leaf_ok:
  assumes "holds l ps" "unused a ps" "sorted (map (\<lambda>p. clk (snd p)) ps)"
    and wf: "trie_wf (on_path (unat (clk x))) nodes" and nd: "nodes (7, unat (clk x) div 16) \<noteq> None"
    and leaves: "\<forall>c < 2 ^ 32. leaf nodes c = last_at clk ps c"
  shows "\<exists>al'. add_leaf (7, unat (clk x) div 16) (clk x) a x \<lparr>al_nodes = nodes, al_list = counted_up l\<rparr> = Some al' \<and>
    trace_ok clk al' (insert_node clk a x ps)"
proof -
  let ?C = "unat (clk x)"
  have C: "?C < 2 ^ 32" using unsigned_less [of "clk x"] by simp
  obtain nd where n: "nodes (7, ?C div 16) = Some nd" using nd by blast
  have nib: "nibble (clk x) 0 = ?C mod 16" by (simp add: nibble_unat)
  have i: "?C mod 16 < 16" "16 * (?C div 16) + ?C mod 16 = ?C" by simp_all
  note lf = child_leaf [OF wf n i(1), unfolded i(2)]
  note upd = set_leaf_wf [OF wf n i(1), of a, unfolded i(2)]
  let ?nodes = "nodes((7, ?C div 16) \<mapsto> nd\<lparr>an_children := (an_children nd)[?C mod 16 := Link a],
      an_count := an_count nd + (if an_children nd ! (?C mod 16) = Null then 1 else 0)\<rparr>)"
  have new_wf: "trie_wf (\<lambda>_. False) ?nodes" using wf_with_leaf [OF upd(1)] upd(2) by simp
  have new_leaves: "\<forall>c < 2 ^ 32. leaf ?nodes c = last_at clk (insert_node clk a x ps) c"
    using leaves insert_node_ok(2) [OF assms(3), of a x] by (simp only: upd(2)) simp
  have fin: "trace_ok clk \<lparr>al_nodes = ?nodes, al_list = l'\<rparr> (insert_node clk a x ps)" if "holds l' (insert_node clk a x ps)" for l'
    using that new_wf new_leaves insert_node_ok(1) [OF assms(3)] by (simp add: trace_ok_def)
  show ?thesis
  proof (cases "an_children nd ! (?C mod 16)")
    case Inner
    with lf(1) show ?thesis by simp
  next
    case (Link p)
    with lf(2) leaves C have at: "last_at clk ps ?C = Some p" by simp
    obtain us q vs where s: "ps = us @ q # vs" "fst q = p" "\<And>b. insert_node clk b x ps = us @ q # (b, x) # vs"
      by (rule split_after [OF assms(3) at, of x]) auto
    from link_after_holds [of l us q vs a x] assms(1,2) s obtain l' where
      l': "link_after a p x (counted_up l) = Some l'" "holds l' (insert_node clk a x ps)" by auto
    with n nib Link fin [OF l'(2)] show ?thesis by (simp add: add_leaf_def set_child_def)
  next
    case Null
    with lf(2) leaves C have at: "last_at clk ps ?C = None" by simp
    from findPrev_spec [OF wf nd] obtain r where r: "findPrev nodes (7, ?C div 16) (clk x) = Some r"
      "case r of None \<Rightarrow> \<forall>c < ?C. leaf nodes c = None
       | Some p \<Rightarrow> \<exists>c < ?C. leaf nodes c = Some p \<and> (\<forall>c'. c < c' \<and> c' < ?C \<longrightarrow> leaf nodes c' = None)" by blast
    show ?thesis
    proof (cases r)
      case None
      have "\<forall>c \<le> ?C. last_at clk ps c = None"
        using r(2) None at leaves C by (auto simp: le_less)
      from none_before [OF assms(3) this] have ins: "insert_node clk a x ps = (a, x) # ps" by simp
      from link_front_holds [OF assms(1,2), of x] ins obtain l' where
        l': "link_front a x (counted_up l) = Some l'" "holds l' (insert_node clk a x ps)" by auto
      with n nib Null None r(1) fin [OF l'(2)] show ?thesis by (simp add: add_leaf_def set_child_def)
    next
      case (Some p)
      with r(2) obtain c where c: "c < ?C" "leaf nodes c = Some p" "\<forall>c'. c < c' \<and> c' < ?C \<longrightarrow> leaf nodes c' = None" by auto
      have "last_at clk ps c = Some p" "\<forall>c'. c < c' \<and> c' \<le> ?C \<longrightarrow> last_at clk ps c' = None"
        using c C at leaves by (auto simp: le_less)
      note prev = this
      obtain us q vs where s: "ps = us @ q # vs" "fst q = p" "\<And>b. insert_node clk b x ps = us @ q # (b, x) # vs"
        by (rule split_after [OF assms(3) prev(1) _ prev(2)]) (use c(1) in auto)
      from link_after_holds [of l us q vs a x] assms(1,2) s obtain l' where
        l': "link_after a p x (counted_up l) = Some l'" "holds l' (insert_node clk a x ps)" by auto
      with n nib Null Some r(1) fin [OF l'(2)] show ?thesis by (simp add: add_leaf_def set_child_def)
    qed
  qed
qed

lemma add_loop_ok:
  assumes "holds l ps" "unused a ps" "sorted (map (\<lambda>p. clk (snd p)) ps)"
    and "trie_wf (on_path (unat (clk x))) nodes" "nodes (7 - k, unat (clk x) div 16 ^ Suc k) \<noteq> None" "k \<le> 7"
    and "\<forall>c < 2 ^ 32. leaf nodes c = last_at clk ps c"
  shows "\<exists>al'. add_loop k (7 - k, unat (clk x) div 16 ^ Suc k) (clk x) a x \<lparr>al_nodes = nodes, al_list = counted_up l\<rparr> = Some al' \<and>
    trace_ok clk al' (insert_node clk a x ps)"
  using assms(4-)
proof (induction k arbitrary: nodes)
  case 0
  with add_leaf_ok [OF assms(1-3) 0(1) _ 0(4)] show ?case by simp
next
  case (Suc k)
  let ?C = "unat (clk x)" and ?v = "unat (clk x) div 16 ^ Suc (Suc k)"
  define i where "i = ?C div 16 ^ Suc k mod 16"
  obtain nd where nd: "nodes (7 - Suc k, ?v) = Some nd" using Suc.prems(2) by blast
  have lvl: "Suc (7 - Suc k) = 7 - k" "k \<le> 7" "1 \<le> Suc k" using Suc.prems(3) by simp_all
  have nib: "nibble (clk x) (4 * Suc k) = i"
  proof -
    have "(2::nat) ^ (4 * Suc k) = 16 ^ Suc k" unfolding power_mult by simp
    then show ?thesis by (simp only: nibble_unat i_def)
  qed
  have w: "16 * ?v + i = ?C div 16 ^ Suc k" unfolding i_def by (simp only: div_step [of _ "Suc k"] mult_div_mod_eq)
  have id: "child_id (7 - Suc k, ?v) i = (7 - k, ?C div 16 ^ Suc k)" using lvl(1) w by (simp add: child_id_def del: power_Suc)
  have id6: "child_id (6 - k, ?v) i = (7 - k, ?C div 16 ^ Suc k)" using id by (simp del: power_Suc)
  have i16: "i < 16" by (simp add: i_def)
  show ?case
  proof (cases "an_children nd ! i = Null")
    case True
    note ch = add_child_wf [OF Suc.prems(1) nd lvl(3) Suc.prems(3) refl True i_def]
    let ?nodes = "nodes(child_id (7 - Suc k, ?v) i \<mapsto> empty_allnode,
      (7 - Suc k, ?v) \<mapsto> nd\<lparr>an_children := (an_children nd)[i := Inner], an_count := an_count nd + 1\<rparr>)"
    have "\<forall>c < 2 ^ 32. leaf ?nodes c = last_at clk ps c" using Suc.prems(4) by (simp only: ch(2))
    moreover have "?nodes (7 - k, ?C div 16 ^ Suc k) \<noteq> None" using ch(3) by simp
    ultimately obtain al' where al': "add_loop k (7 - k, ?C div 16 ^ Suc k) (clk x) a x \<lparr>al_nodes = ?nodes, al_list = counted_up l\<rparr> = Some al'"
      "trace_ok clk al' (insert_node clk a x ps)" using Suc.IH [OF ch(1) _ lvl(2)] by blast
    have ne: "6 - k \<noteq> 7 - k" using Suc.prems(3) by simp
    have "add_loop (Suc k) (7 - Suc k, ?v) (clk x) a x \<lparr>al_nodes = nodes, al_list = counted_up l\<rparr> = Some al'"
      using nd nib True al'(1) ne by (simp add: Let_def set_child_def id6 del: power_Suc)
    with al'(2) show ?thesis by blast
  next
    case False
    have "nodes (7 - k, ?C div 16 ^ Suc k) \<noteq> None"
      using child_inner [OF Suc.prems(1) nd lvl(3) Suc.prems(3) i16] False lvl(1) w by (simp del: power_Suc split: if_splits)
    from Suc.IH [OF Suc.prems(1) this lvl(2) Suc.prems(4)] obtain al' where
      al': "add_loop k (7 - k, ?C div 16 ^ Suc k) (clk x) a x \<lparr>al_nodes = nodes, al_list = counted_up l\<rparr> = Some al'"
      "trace_ok clk al' (insert_node clk a x ps)" by blast
    have "add_loop (Suc k) (7 - Suc k, ?v) (clk x) a x \<lparr>al_nodes = nodes, al_list = counted_up l\<rparr> = Some al'"
      using nd nib False al'(1) by (simp add: Let_def id6 del: power_Suc)
    with al'(2) show ?thesis by blast
  qed
qed

lemma addAction_ok:
  assumes "trace_ok clk al ps" "unused a ps"
  shows "\<exists>al'. al_addAction clk a x al = Some al' \<and> trace_ok clk al' (insert_node clk a x ps)"
proof -
  from assms(1) have ok: "holds (al_list al) ps" "sorted (map (\<lambda>p. clk (snd p)) ps)" "trie_wf (\<lambda>_. False) (al_nodes al)"
    "\<forall>c < 2 ^ 32. leaf (al_nodes al) c = last_at clk ps c" by (simp_all add: trace_ok_def)
  have "unat (clk x) < 16 ^ 8" using unsigned_less [of "clk x"] by simp
  then have root: "unat (clk x) div 16 ^ Suc 7 = 0" by simp
  have "al_nodes al (7 - 7, unat (clk x) div 16 ^ Suc 7) \<noteq> None" using ok(3) by (simp only: root) (simp add: trie_wf_def)
  from add_loop_ok [OF ok(1) assms(2) ok(2) wf_exempt [OF ok(3)] this _ ok(4)] show ?thesis
    by (simp only: root) (cases al, simp add: al_addAction_def counted_up_def)
qed

lemma new_actionlist_ok: "trace_ok clk new_actionlist []"
proof -
  have "node_ok (\<lambda>_. False) [(0, 0) \<mapsto> empty_allnode] 0 0 empty_allnode" by (simp add: node_ok_parts empty_allnode_def children_count_def)
  then show ?thesis by (simp add: trace_ok_def new_actionlist_def holds_def ModelList_def trie_wf_def leaf_def)
qed

end
