(* ===== verification/Action_Remove.thy ===== *)
theory Action_Remove
  imports Action_Insert
begin

text \<open>
  Removing an action from the trace: its node is unlinked, the leaf of its clock moves to the
  node before if that has the same clock, and otherwise the trie is cut back.
\<close>

section \<open>Cutting back the trie\<close>

definition drop_node :: "node_id \<Rightarrow> actionlist \<Rightarrow> actionlist" where
  "drop_node y al = al\<lparr>al_nodes := (al_nodes al)(y := None)\<rparr>"

lemma drop_node_simps:
  "x \<noteq> y \<Longrightarrow> al_nodes (drop_node y al) x = al_nodes al x" "al_list (drop_node y al) = al_list al"
  "al_nodes (drop_node y al) y = None"
  by (simp_all add: drop_node_def)

lemma put_drop_node:
  "x \<noteq> y \<Longrightarrow> drop_node y al\<lparr>al_nodes := (al_nodes (drop_node y al))(x \<mapsto> n)\<rparr> = drop_node y (al\<lparr>al_nodes := (al_nodes al)(x \<mapsto> n)\<rparr>)"
  by (auto simp: drop_node_def fun_eq_iff intro!: actionlist.equality)

lemma decrementCount_step:
  assumes "al_nodes al (Suc d, v) = Some nd" "al_nodes al (d, v div 16) = Some pd"
    "al'' = al\<lparr>al_nodes := (al_nodes al)((Suc d, v) \<mapsto> nd\<lparr>an_count := an_count nd - 1\<rparr>)\<rparr>"
    "al' = al''\<lparr>al_nodes := (al_nodes al'')((d, v div 16) \<mapsto> pd\<lparr>an_children := (an_children pd)[v mod 16 := Null], an_count := an_count pd\<rparr>)\<rparr>"
  shows "decrementCount (Suc d) v al = (if an_count nd = 1
    then map_option (drop_node (Suc d, v)) (decrementCount d (v div 16) al') else Some al'')"
  using assms by (simp add: set_child_def Let_def bind_map_option drop_node_def [abs_def] map_conv_bind_option comp_def)

lemma decrementCount_deeper:
  "fst y > d \<Longrightarrow> decrementCount d v (drop_node y al) = map_option (drop_node y) (decrementCount d v al)"
proof (induction d arbitrary: v al)
  case 0
  then have y: "(0, v) \<noteq> y" by auto
  from y show ?case by (cases "al_nodes al (0, v)") (simp_all add: drop_node_simps put_drop_node)
next
  case (Suc d)
  then have y: "(Suc d, v) \<noteq> y" "(d, v div 16) \<noteq> y" "d < fst y" by auto
  show ?case
  proof (cases "al_nodes al (Suc d, v)")
    case None
    with y show ?thesis by (simp add: drop_node_simps)
  next
    case (Some nd)
    show ?thesis
    proof (cases "al_nodes al (d, v div 16)")
      case None
      with Some y show ?thesis by (simp add: set_child_def Let_def drop_node_simps put_drop_node)
    next
      case p: (Some pd)
      have t: "drop_node (Suc d, v) (drop_node y x) = drop_node y (drop_node (Suc d, v) x)" for x
        by (auto simp: drop_node_def fun_eq_iff intro!: actionlist.equality)
      show ?thesis using Some p y
        by (simp del: decrementCount.simps add: decrementCount_step Suc.IH put_drop_node drop_node_simps option.map_comp comp_def t)
    qed
  qed
qed

lemma remove_child_wf:
  assumes wf: "trie_wf (\<lambda>p. p = (Suc d, v)) nodes" and e: "nodes (Suc d, v) = Some e" "an_count e = 0"
    and pd: "nodes (d, v div 16) = Some pd"
  defines "nodes' \<equiv> nodes((Suc d, v) := None, (d, v div 16) \<mapsto>
      pd\<lparr>an_children := (an_children pd)[v mod 16 := Null], an_count := an_count pd - 1\<rparr>)"
  shows "trie_wf (\<lambda>p. p = (d, v div 16)) nodes'" "leaf nodes' = leaf nodes"
proof -
  note eo = wfD [OF wf e(1), unfolded node_ok_parts] and po = wfD [OF wf pd, unfolded node_ok_parts]
  have d: "d < 7" using eo by simp
  have empty: "an_children e ! i = Null" if "i < 16" for i
    using children_count_pos [of i "an_children e"] eo e(2) that by (metis less_irrefl)
  have below: "nodes (Suc (Suc d), 16 * v + i) = None" if "i < 16" "Suc d < 7" for i
    using eo empty [OF that(1)] that by (auto split: if_splits)
  have pi: "an_children pd ! (v mod 16) = Inner" using po d e(1) by auto
  have at: "nodes' x = (if x = (d, v div 16) then Some (pd\<lparr>an_children := (an_children pd)[v mod 16 := Null], an_count := an_count pd - 1\<rparr>)
      else if x = (Suc d, v) then None else nodes x)" for x
    by (simp add: nodes'_def)
  have dom: "nodes' x = None \<longleftrightarrow> nodes x = None \<or> x = (Suc d, v)" for x
    using pd by (auto simp: at)
  have "node_ok (\<lambda>p. p = (d, v div 16)) nodes' a u n" if n: "nodes' (a, u) = Some n" for a u n
  proof (cases "(a, u) = (d, v div 16)")
    case True
    then have n': "n = pd\<lparr>an_children := (an_children pd)[v mod 16 := Null], an_count := an_count pd - 1\<rparr>" using n by (simp add: at)
    have j: "16 * (v div 16) + i = v \<longleftrightarrow> i = v mod 16" if "i < 16" for i using that by presburger
    from True po d pi show ?thesis
      unfolding n' node_ok_parts dom by (auto simp: children_count_update nth_list_update j)
  next
    case False
    with n have n0: "nodes (a, u) = Some n" "(a, u) \<noteq> (Suc d, v)" unfolding at by (auto split: if_splits)
    note o = wfD [OF wf n0(1), unfolded node_ok_parts]
    have par: "0 < a \<Longrightarrow> (a - 1, u div 16) \<noteq> (Suc d, v)"
    proof
      assume "0 < a" "(a - 1, u div 16) = (Suc d, v)"
      then have "a = Suc (Suc d)" "u = 16 * v + u mod 16" by auto
      with below [of "u mod 16"] n0(1) o show False by auto
    qed
    have "\<not> (a + 1 = Suc d \<and> 16 * u + i = v)" if "i < 16" for i
      using False that by auto
    with o par n0(2) show ?thesis unfolding node_ok_parts dom by auto
  qed
  moreover have "nodes' (0, 0) \<noteq> None" using wf by (simp add: dom trie_wf_def)
  ultimately show "trie_wf (\<lambda>p. p = (d, v div 16)) nodes'" by (simp add: trie_wf_def)
  show "leaf nodes' = leaf nodes"
  proof
    fix c
    have "leaf nodes c = None" if "(7, c div 16) = (Suc d, v)"
      using e(1) empty [of "c mod 16"] that by (simp add: leaf_def)
    then show "leaf nodes' c = leaf nodes c" using d by (auto simp: leaf_def at)
  qed
qed

lemma wf_unexempt:
  assumes "trie_wf (\<lambda>p. p = (d, v)) N" "\<And>nd. N (d, v) = Some nd \<Longrightarrow> 0 < d \<Longrightarrow> 0 < an_count nd"
  shows "trie_wf (\<lambda>_. False) N"
  unfolding trie_wf_def
proof (intro conjI allI impI)
  show "N (0, 0) \<noteq> None" using assms(1) by (simp add: trie_wf_def)
  fix e w nd assume n: "N (e, w) = Some nd"
  have pos: "0 < e \<Longrightarrow> 0 < an_count nd"
    using wf_count [OF assms(1) n] assms(2) n by (cases "(e, w) = (d, v)") auto
  show "node_ok (\<lambda>_. False) N e w nd"
    using wfD [OF assms(1) n] pos unfolding node_ok_parts by blast
qed

lemma nodes_update: "al_nodes (al\<lparr>al_nodes := N\<rparr>) = N" "al_list (al\<lparr>al_nodes := N\<rparr>) = al_list al"
  by simp_all

lemma decrementCount_ok:
  assumes "al_nodes al (d, v) = Some nd"
    "trie_wf (\<lambda>p. p = (d, v)) ((al_nodes al)((d, v) \<mapsto> nd\<lparr>an_count := an_count nd - 1\<rparr>))"
  shows "\<exists>al'. decrementCount d v al = Some al' \<and> trie_wf (\<lambda>_. False) (al_nodes al') \<and>
    leaf (al_nodes al') = leaf ((al_nodes al)((d, v) \<mapsto> nd\<lparr>an_count := an_count nd - 1\<rparr>)) \<and> al_list al' = al_list al"
  using assms
proof (induction d arbitrary: v al nd)
  case 0
  have "trie_wf (\<lambda>_. False) ((al_nodes al)((0, v) \<mapsto> nd\<lparr>an_count := an_count nd - 1\<rparr>))"
    by (rule wf_unexempt [OF 0(2)]) simp
  moreover define N where "N = (al_nodes al)((0, v) \<mapsto> nd\<lparr>an_count := an_count nd - 1\<rparr>)"
  ultimately show ?case using 0(1) unfolding N_def [symmetric] by (simp flip: N_def)
next
  case (Suc d)
  let ?N = "(al_nodes al)((Suc d, v) \<mapsto> nd\<lparr>an_count := an_count nd - 1\<rparr>)"
  have "an_count nd - 1 \<ge> 0" using wfD [OF Suc.prems(2), of "Suc d" v] by (simp add: node_ok_parts)
  from wfD [OF Suc.prems(2), of "Suc d" v] obtain pd where pd: "?N (d, v div 16) = Some pd" "al_nodes al (d, v div 16) = Some pd"
    by (auto simp: node_ok_parts)
  let ?pd = "pd\<lparr>an_children := (an_children pd)[v mod 16 := Null], an_count := an_count pd\<rparr>"
  let ?al = "al\<lparr>al_nodes := ?N((d, v div 16) \<mapsto> ?pd)\<rparr>"
  have step: "decrementCount (Suc d) v al = (if an_count nd = 1
      then map_option (drop_node (Suc d, v)) (decrementCount d (v div 16) ?al) else Some (al\<lparr>al_nodes := ?N\<rparr>))"
    by (rule decrementCount_step [OF Suc.prems(1) pd(2)]) simp_all
  show ?case
  proof (cases "an_count nd = 1")
    case False
    with \<open>an_count nd - 1 \<ge> 0\<close> Suc.prems(2) have "trie_wf (\<lambda>_. False) ?N"
      by (intro wf_unexempt [OF Suc.prems(2)]) (auto simp: less_le)
    moreover have "decrementCount (Suc d) v al = Some (al\<lparr>al_nodes := ?N\<rparr>)" using step False by (simp only: if_False)
    ultimately show ?thesis by (intro exI conjI) (assumption | simp only: nodes_update)+
  next
    case True
    let ?M = "?N((Suc d, v) := None, (d, v div 16) \<mapsto>
        pd\<lparr>an_children := (an_children pd)[v mod 16 := Null], an_count := an_count pd - 1\<rparr>)"
    have gone: "?N (Suc d, v) = Some (nd\<lparr>an_count := an_count nd - 1\<rparr>)" "an_count (nd\<lparr>an_count := an_count nd - 1\<rparr>) = 0"
      using True by simp_all
    note rm = remove_child_wf [OF Suc.prems(2) gone pd(1)]
    have at: "al_nodes (drop_node (Suc d, v) ?al) (d, v div 16) = Some ?pd" by (simp add: drop_node_simps)
    have M: "(al_nodes (drop_node (Suc d, v) ?al))((d, v div 16) \<mapsto> ?pd\<lparr>an_count := an_count ?pd - 1\<rparr>) = ?M"
      by (rule ext) (simp add: drop_node_def)
    from Suc.IH [OF at, unfolded M, OF rm(1), unfolded rm(2) drop_node_simps nodes_update] obtain al2 where
      al2: "decrementCount d (v div 16) (drop_node (Suc d, v) ?al) = Some al2"
      "trie_wf (\<lambda>_. False) (al_nodes al2)" "leaf (al_nodes al2) = leaf ?N" "al_list al2 = al_list al" by blast
    have "decrementCount (Suc d) v al = Some al2"
      using step True al2(1) decrementCount_deeper [of d "(Suc d, v)" "v div 16" ?al] by simp
    with al2 show ?thesis by blast
  qed
qed

lemma clear_leaf_wf:
  assumes wf: "trie_wf (\<lambda>_. False) nodes" and nd: "nodes (7, v) = Some nd" and i: "i < 16" "an_children nd ! i \<noteq> Null"
  defines "nodes' \<equiv> nodes((7, v) \<mapsto> nd\<lparr>an_children := (an_children nd)[i := Null], an_count := an_count nd - 1\<rparr>)"
  shows "trie_wf (\<lambda>p. p = (7, v)) nodes'" "leaf nodes' = (leaf nodes)(16 * v + i := None)"
proof -
  have dom: "nodes' x = None \<longleftrightarrow> nodes x = None" for x using nd by (simp add: nodes'_def)
  note ok = wfD [OF wf nd, unfolded node_ok_parts]
  then have len: "length (an_children nd) = 16" by simp
  have new: "node_ok (\<lambda>p. p = (7, v)) nodes' 7 v (nd\<lparr>an_children := (an_children nd)[i := Null], an_count := an_count nd - 1\<rparr>)"
    using ok i len unfolding node_ok_parts dom by (auto simp: children_count_update nth_list_update)
  have "node_ok (\<lambda>p. p = (7, v)) nodes' d u n" if n: "nodes' (d, u) = Some n" for d u n
  proof (cases "(d, u) = (7, v)")
    case True
    with n new show ?thesis by (auto simp: nodes'_def)
  next
    case False
    with n have "nodes (d, u) = Some n" by (auto simp: nodes'_def)
    from wfD [OF wf_exempt [OF wf] this] show ?thesis by (simp only: node_ok_same [OF dom])
  qed
  moreover have "nodes' (0, 0) \<noteq> None" using wf by (simp add: dom trie_wf_def)
  ultimately show "trie_wf (\<lambda>p. p = (7, v)) nodes'" by (simp add: trie_wf_def)
  have at: "c = 16 * v + i \<longleftrightarrow> c div 16 = v \<and> c mod 16 = i" for c using i(1) by auto
  show "leaf nodes' = (leaf nodes)(16 * v + i := None)"
    using nd i len by (auto simp: fun_eq_iff leaf_def nodes'_def at nth_list_update)
qed

section \<open>Finding the node\<close>

lemma walk_down_leaf:
  assumes wf: "trie_wf (\<lambda>_. False) nodes" and "nodes (7 - k, unat w div 16 ^ Suc k) \<noteq> None" "k \<le> 7"
  shows "walk_down k (7 - k, unat w div 16 ^ Suc k) w nodes = Some (leaf nodes (unat w))"
  using assms(2,3)
proof (induction k)
  case 0
  then obtain nd where nd: "nodes (7, unat w div 16) = Some nd" by auto
  have nib: "nibble w 0 = unat w mod 16" by (simp add: nibble_unat)
  have i: "unat w mod 16 < 16" "16 * (unat w div 16) + unat w mod 16 = unat w" by simp_all
  from child_leaf [OF wf nd i(1), unfolded i(2)] nd nib show ?case
    by (cases "an_children nd ! (unat w mod 16)") simp_all
next
  case (Suc k)
  let ?v = "unat w div 16 ^ Suc (Suc k)"
  define i where "i = unat w div 16 ^ Suc k mod 16"
  obtain nd where nd: "nodes (7 - Suc k, ?v) = Some nd" using Suc.prems(1) by blast
  have lvl: "Suc (7 - Suc k) = 7 - k" "k \<le> 7" "1 \<le> Suc k" using Suc.prems(2) by simp_all
  have nib: "nibble w (4 * Suc k) = i"
  proof -
    have "(2::nat) ^ (4 * Suc k) = 16 ^ Suc k" unfolding power_mult by simp
    then show ?thesis by (simp only: nibble_unat i_def)
  qed
  have v: "16 * ?v + i = unat w div 16 ^ Suc k" unfolding i_def by (simp only: div_step [of _ "Suc k"] mult_div_mod_eq)
  have id: "child_id (7 - Suc k, ?v) i = (7 - k, unat w div 16 ^ Suc k)" using lvl(1) v by (simp add: child_id_def del: power_Suc)
  have i16: "i < 16" by (simp add: i_def)
  note ch = child_inner [OF wf nd lvl(3) Suc.prems(2) i16, unfolded v lvl(1)]
  have step: "walk_down (Suc k) (7 - Suc k, ?v) w nodes = (case an_children nd ! i of
      Null \<Rightarrow> Some None | Inner \<Rightarrow> walk_down k (7 - k, unat w div 16 ^ Suc k) w nodes | Link a \<Rightarrow> None)"
    using nd by (simp only: walk_down.simps nib id bind.simps)
  show ?case
  proof (cases "nodes (7 - k, unat w div 16 ^ Suc k) = None")
    case True
    then have "leaf nodes (unat w) = None" using leaf_parents [OF wf _ lvl(2)] by blast
    moreover have "an_children nd ! i = Null" using ch True by (simp only: if_True refl)
    ultimately show ?thesis by (simp only: step child.case)
  next
    case False
    then have "an_children nd ! i = Inner" using ch by (simp only: if_False)
    then show ?thesis by (simp only: step child.case Suc.IH [OF False lvl(2)])
  qed
qed

section \<open>Unlinking the node\<close>

lemma unlink_holds:
  assumes "holds l (us @ p # vs)"
  shows "ll_heap l (fst p) = Some \<lparr>nd_next = first_of vs 0, nd_prev = last_of us 0, nd_val = snd p\<rparr>"
    "\<exists>l1 l2. (if last_of us 0 \<noteq> 0 then upd_node (last_of us 0) (\<lambda>n. n\<lparr>nd_next := first_of vs 0\<rparr>) l
        else Some (l\<lparr>ll_head := first_of vs 0\<rparr>)) = Some l1 \<and>
      (if first_of vs 0 \<noteq> 0 then upd_node (first_of vs 0) (\<lambda>n. n\<lparr>nd_prev := last_of us 0\<rparr>) l1
        else Some (l1\<lparr>ll_tail := last_of us 0\<rparr>)) = Some l2 \<and>
      holds ((delete_node (fst p) l2)\<lparr>ll_size := ll_size (delete_node (fst p) l2) - 1\<rparr>) (us @ vs) \<and>
      (us \<noteq> [] \<longrightarrow> map_option nd_val (ll_heap l2 (last_of us 0)) = Some (snd (last us)))"
proof -
  show "ll_heap l (fst p) = Some \<lparr>nd_next = first_of vs 0, nd_prev = last_of us 0, nd_val = snd p\<rparr>"
    using assms by (simp add: holds_def)
  show "\<exists>l1 l2. (if last_of us 0 \<noteq> 0 then upd_node (last_of us 0) (\<lambda>n. n\<lparr>nd_next := first_of vs 0\<rparr>) l
        else Some (l\<lparr>ll_head := first_of vs 0\<rparr>)) = Some l1 \<and>
      (if first_of vs 0 \<noteq> 0 then upd_node (first_of vs 0) (\<lambda>n. n\<lparr>nd_prev := last_of us 0\<rparr>) l1
        else Some (l1\<lparr>ll_tail := last_of us 0\<rparr>)) = Some l2 \<and>
      holds ((delete_node (fst p) l2)\<lparr>ll_size := ll_size (delete_node (fst p) l2) - 1\<rparr>) (us @ vs) \<and>
      (us \<noteq> [] \<longrightarrow> map_option nd_val (ll_heap l2 (last_of us 0)) = Some (snd (last us)))"
    using assms by (cases us rule: rev_cases; cases vs) (auto simp: holds_def node_ops)
qed

lemma last_at_later:
  assumes "q \<in> set vs" "clk (snd q) = clk (snd p)"
  shows "last_at clk (us @ p # vs) = last_at clk (us @ vs)"
proof
  fix c
  show "last_at clk (us @ p # vs) c = last_at clk (us @ vs) c"
    using assms last_at_none [of clk vs c] by (fastforce simp: last_at_append last_at_Cons split: option.splits)
qed

lemma last_at_removed:
  assumes "\<forall>q \<in> set vs. clk (snd q) \<noteq> clk (snd p)" "sorted (map (\<lambda>p. clk (snd p)) (us @ p # vs))"
  shows "last_at clk (us @ vs) = (last_at clk (us @ p # vs))(unat (clk (snd p)) :=
    (if us \<noteq> [] \<and> clk (snd (last us)) = clk (snd p) then Some (fst (last us)) else None))"
proof
  fix c
  have vs: "last_at clk vs (unat (clk (snd p))) = None" using assms(1) by (simp add: last_at_none word_unat_eq_iff)
  have us: "last_at clk us (unat (clk (snd p))) =
      (if us \<noteq> [] \<and> clk (snd (last us)) = clk (snd p) then Some (fst (last us)) else None)"
  proof (cases us rule: rev_cases)
    case (snoc us' q)
    show ?thesis
    proof (cases "clk (snd q) = clk (snd p)")
      case True
      with snoc show ?thesis by (simp add: last_at_append last_at_Cons)
    next
      case False
      have "clk (snd r) \<noteq> clk (snd p)" if "r \<in> set us" for r
        using that assms(2) snoc False by (fastforce simp: sorted_append)
      then have "last_at clk us (unat (clk (snd p))) = None" by (simp add: last_at_none word_unat_eq_iff)
      with snoc False show ?thesis by simp
    qed
  qed simp
  show "last_at clk (us @ vs) c = ((last_at clk (us @ p # vs))(unat (clk (snd p)) :=
      (if us \<noteq> [] \<and> clk (snd (last us)) = clk (snd p) then Some (fst (last us)) else None))) c"
    using vs us by (auto simp: last_at_append last_at_Cons split: option.splits)
qed

lemma sorted_without: "sorted (map f (us @ p # vs)) \<Longrightarrow> sorted (map f (us @ vs))"
  by (auto simp: sorted_append)

lemma unlink_ok:
  assumes ok: "trace_ok clk al (us @ p # vs)" and first: "first = (\<forall>q \<in> set vs. clk (snd q) \<noteq> clk (snd p))"
  shows "\<exists>al'. unlink clk (clk (snd p)) first (fst p) al = Some al' \<and> trace_ok clk al' (us @ vs)"
proof -
  let ?C = "unat (clk (snd p))"
  from ok have parts: "holds (al_list al) (us @ p # vs)" "sorted (map (\<lambda>p. clk (snd p)) (us @ p # vs))"
    "trie_wf (\<lambda>_. False) (al_nodes al)" "\<forall>c < 2 ^ 32. leaf (al_nodes al) c = last_at clk (us @ p # vs) c"
    by (simp_all add: trace_ok_def)
  note un = unlink_holds [OF parts(1)]
  from un(2) obtain l1 l2 where l: "(if last_of us 0 \<noteq> 0 then upd_node (last_of us 0) (\<lambda>n. n\<lparr>nd_next := first_of vs 0\<rparr>) (al_list al)
        else Some ((al_list al)\<lparr>ll_head := first_of vs 0\<rparr>)) = Some l1"
      "(if first_of vs 0 \<noteq> 0 then upd_node (first_of vs 0) (\<lambda>n. n\<lparr>nd_prev := last_of us 0\<rparr>) l1
        else Some (l1\<lparr>ll_tail := last_of us 0\<rparr>)) = Some l2"
      "holds ((delete_node (fst p) l2)\<lparr>ll_size := ll_size (delete_node (fst p) l2) - 1\<rparr>) (us @ vs)"
      "us \<noteq> [] \<Longrightarrow> map_option nd_val (ll_heap l2 (last_of us 0)) = Some (snd (last us))" by blast
  have eq: "unlink clk (clk (snd p)) first (fst p) al = Option.bind
      (if first then Option.bind (if last_of us 0 = 0 then Some False
          else map_option (\<lambda>n. clk (nd_val n) = clk (snd p)) (ll_heap l2 (last_of us 0))) (\<lambda>same.
        if same then set_child (7, unat (drop_bit 4 (clk (snd p)))) (nibble (clk (snd p)) 0) (Link (last_of us 0)) 0 (al\<lparr>al_list := l2\<rparr>)
        else Option.bind (set_child (7, unat (drop_bit 4 (clk (snd p)))) (nibble (clk (snd p)) 0) Null 0 (al\<lparr>al_list := l2\<rparr>))
          (decrementCount 7 (unat (drop_bit 4 (clk (snd p))))))
      else Some (al\<lparr>al_list := l2\<rparr>))
      (\<lambda>al1. Some (al1\<lparr>al_list := (delete_node (fst p) (al_list al1))\<lparr>ll_size := ll_size (delete_node (fst p) (al_list al1)) - 1\<rparr>\<rparr>))"
    by (simp only: unlink_def un(1) Let_def bind.simps node.select_convs l(1,2) fst_conv snd_conv)
  let ?fin = "\<lambda>N. \<lparr>al_nodes = N, al_list = (delete_node (fst p) l2)\<lparr>ll_size := ll_size (delete_node (fst p) l2) - 1\<rparr>\<rparr>"
  have fin: "trace_ok clk (?fin N) (us @ vs)"
    if "trie_wf (\<lambda>_. False) N" "\<forall>c < 2 ^ 32. leaf N c = last_at clk (us @ vs) c" for N
    using that l(3) sorted_without [OF parts(2)] by (simp add: trace_ok_def)
  show ?thesis
  proof (cases first)
    case False
    then obtain q where "q \<in> set vs" "clk (snd q) = clk (snd p)" using first by auto
    from last_at_later [OF this] have "trace_ok clk (?fin (al_nodes al)) (us @ vs)" using fin [OF parts(3)] parts(4) by simp
    moreover have "unlink clk (clk (snd p)) first (fst p) al = Some (?fin (al_nodes al))"
      unfolding eq using False by (cases al) simp
    ultimately show ?thesis by blast
  next
    case True
    with first have none: "\<forall>q \<in> set vs. clk (snd q) \<noteq> clk (snd p)" by simp
    have C: "?C < 2 ^ 32" using unsigned_less [of "clk (snd p)"] by simp
    have "last_at clk vs ?C = None" using none by (simp add: last_at_none word_unat_eq_iff)
    then have "leaf (al_nodes al) ?C = Some (fst p)" using parts(4) C by (simp add: last_at_append last_at_Cons)
    then obtain nd where nd: "al_nodes al (7, ?C div 16) = Some nd" "an_children nd ! (?C mod 16) = Link (fst p)"
      by (auto simp: leaf_def split: option.splits child.splits)
    have nib: "nibble (clk (snd p)) 0 = ?C mod 16" "unat (drop_bit 4 (clk (snd p))) = ?C div 16"
      using take_bit_nat_eq_self [OF C] by (simp_all add: nibble_unat unsigned_drop_bit_eq drop_bit_nat_def)
    have i: "?C mod 16 < 16" "16 * (?C div 16) + ?C mod 16 = ?C" "an_children nd ! (?C mod 16) \<noteq> Null" using nd(2) by simp_all
    let ?same = "us \<noteq> [] \<and> clk (snd (last us)) = clk (snd p)"
    have us0: "last_of us 0 = 0 \<longleftrightarrow> us = []" using parts(1) by (cases us rule: rev_cases) (auto simp: holds_def)
    have test: "(if last_of us 0 = 0 then Some False
        else map_option (\<lambda>n. clk (nd_val n) = clk (snd p)) (ll_heap l2 (last_of us 0))) = Some ?same"
      using us0 l(4) by (cases "ll_heap l2 (last_of us 0)") auto
    have leaves: "\<forall>c < 2 ^ 32. ((leaf (al_nodes al))(?C := (if ?same then Some (fst (last us)) else None))) c = last_at clk (us @ vs) c"
      using parts(4) unfolding last_at_removed [OF none parts(2)] by simp
    show ?thesis
    proof (cases ?same)
      case True
      let ?N = "(al_nodes al)((7, ?C div 16) \<mapsto> nd\<lparr>an_children := (an_children nd)[?C mod 16 := Link (fst (last us))],
          an_count := an_count nd + 0\<rparr>)"
      note wf = set_leaf_wf [OF parts(3) nd(1) i(1), of "fst (last us)", unfolded if_not_P [OF i(3)] i(2)]
      have "trace_ok clk (?fin ?N) (us @ vs)" using wf leaves True by (intro fin) simp_all
      moreover have "last_of us 0 = fst (last us)" using True by (simp add: last_of_def)
      then have "unlink clk (clk (snd p)) first (fst p) al = Some (?fin ?N)"
        unfolding eq test if_P [OF \<open>first\<close>] using True nd(1) nib by (simp add: set_child_def)
      ultimately show ?thesis by blast
    next
      case False
      let ?al = "al\<lparr>al_list := l2, al_nodes := (al_nodes al)((7, ?C div 16) \<mapsto> nd\<lparr>an_children := (an_children nd)[?C mod 16 := Null]\<rparr>)\<rparr>"
      note wf = clear_leaf_wf [OF parts(3) nd(1) i(1,3), unfolded i(2)]
      have at: "al_nodes ?al (7, ?C div 16) = Some (nd\<lparr>an_children := (an_children nd)[?C mod 16 := Null]\<rparr>)" by simp
      from decrementCount_ok [OF at] wf obtain al' where al': "decrementCount 7 (?C div 16) ?al = Some al'"
        "trie_wf (\<lambda>_. False) (al_nodes al')" "leaf (al_nodes al') = (leaf (al_nodes al))(?C := None)" "al_list al' = l2" by auto
      have "trace_ok clk (?fin (al_nodes al')) (us @ vs)" using al'(2,3) leaves False by (intro fin) simp_all
      moreover have "unlink clk (clk (snd p)) first (fst p) al = Some (?fin (al_nodes al'))"
        unfolding eq test if_P [OF \<open>first\<close>] bind.bind_lunit if_not_P [OF False] using nd(1) nib al'(1,4) by (simp add: set_child_def)
      ultimately show ?thesis by blast
    qed
  qed
qed

section \<open>The loop over the nodes with the same clock\<close>

lemma remove_absent: "x \<notin> snd ` set ps \<Longrightarrow> rev (remove1 x (rev (map snd ps))) = map snd ps"
  by (simp add: remove1_idem)

lemma remove_loop_ok:
  assumes "trace_ok clk al (us @ p # vs)" "clk (snd p) = clk x" "x \<notin> snd ` set vs"
  shows "\<exists>al' ps. remove_loop clk (clk x) x (\<forall>q \<in> set vs. clk (snd q) \<noteq> clk x) (fst p) al = Some al' \<and>
    trace_ok clk al' ps \<and> map snd ps = rev (remove1 x (rev (map snd (us @ p # vs))))"
  using assms
proof (induction us arbitrary: p vs rule: rev_induct)
  case Nil
  note here = unlink_holds(1) [of "al_list al" "[]" p vs]
  show ?case
  proof (cases "snd p = x")
    case True
    from unlink_ok [OF Nil(1) refl] obtain al' where al': "unlink clk (clk x) (\<forall>q \<in> set vs. clk (snd q) \<noteq> clk x) (fst p) al = Some al'"
      "trace_ok clk al' vs" using Nil(2) by auto
    moreover have "rev (remove1 x (rev (map snd (p # vs)))) = map snd vs"
      using True Nil(3) by (simp add: remove1_append image_set del: set_map flip: set_map)
    ultimately show ?thesis using here Nil(1) True by (subst remove_loop.simps) (auto simp: trace_ok_def)
  next
    case False
    then have "rev (remove1 x (rev (map snd (p # vs)))) = map snd (p # vs)" using Nil(3) by (simp add: remove1_idem)
    then show ?thesis using here Nil(1) False by (subst remove_loop.simps) (auto simp: trace_ok_def)
  qed
next
  case (snoc q us)
  let ?ps = "(us @ [q]) @ p # vs"
  have h: "holds (al_list al) ?ps" using snoc.prems(1) by (simp add: trace_ok_def)
  note here = unlink_holds(1) [OF h]
  have q: "ll_heap (al_list al) (fst q) = Some \<lparr>nd_next = fst p, nd_prev = last_of us 0, nd_val = snd q\<rparr>" "fst q \<noteq> 0"
    using unlink_holds(1) [of "al_list al" us q "p # vs"] h by (auto simp: holds_def)
  show ?case
  proof (cases "snd p = x")
    case True
    from unlink_ok [OF snoc.prems(1) refl] obtain al' where
      al': "unlink clk (clk x) (\<forall>q \<in> set vs. clk (snd q) \<noteq> clk x) (fst p) al = Some al'" "trace_ok clk al' (us @ [q] @ vs)"
      using snoc.prems(2) by auto
    moreover have "rev (remove1 x (rev (map snd ?ps))) = map snd (us @ [q] @ vs)"
      using True snoc.prems(3) by (simp add: remove1_append)
    ultimately show ?thesis using here True by (subst remove_loop.simps) auto
  next
    case False
    have loop: "remove_loop clk (clk x) x (\<forall>q \<in> set vs. clk (snd q) \<noteq> clk x) (fst p) al =
        (if clk (snd q) = clk x then remove_loop clk (clk x) x False (fst q) al else Some al)"
      using here q False by (subst remove_loop.simps) simp
    show ?thesis
    proof (cases "clk (snd q) = clk x")
      case True
      have "x \<notin> snd ` set (p # vs)" and early: "(\<forall>r \<in> set (p # vs). clk (snd r) \<noteq> clk x) = False"
        using snoc.prems(2,3) False by auto
      with snoc.IH [of q "p # vs", unfolded early] snoc.prems(1) True show ?thesis unfolding loop by simp
    next
      case ne: False
      have lt: "clk (snd r) < clk x" if "r \<in> set (us @ [q])" for r
        using that ne snoc.prems(1,2) by (fastforce simp: trace_ok_def sorted_append)
      have "x \<notin> snd ` set (us @ [q])"
      proof
        assume "x \<in> snd ` set (us @ [q])"
        then obtain r where r: "r \<in> set (us @ [q])" "x = snd r" by blast
        from lt [OF r(1)] r(2) show False by simp
      qed
      then have "x \<notin> snd ` set ?ps" using snoc.prems(3) False by auto
      then have "rev (remove1 x (rev (map snd ?ps))) = map snd ?ps" by (rule remove_absent)
      with snoc.prems(1) loop ne show ?thesis by auto
    qed
  qed
qed

lemma last_at_split:
  assumes "last_at clk ps (unat (clk x)) = Some a"
  obtains us p vs where "ps = us @ p # vs" "fst p = a" "clk (snd p) = clk x" "\<forall>q \<in> set vs. clk (snd q) \<noteq> clk x"
proof -
  have "\<exists>p \<in> set ps. clk (snd p) = clk x"
    using assms last_at_none [of clk ps "unat (clk x)"] by (auto simp: word_unat_eq_iff)
  from split_list_last_prop [OF this] obtain us p vs where s: "ps = us @ p # vs" "clk (snd p) = clk x"
    "\<forall>q \<in> set vs. clk (snd q) \<noteq> clk x" by blast
  then have "last_at clk vs (unat (clk x)) = None" by (simp add: last_at_none word_unat_eq_iff)
  with assms s(1,2) have "fst p = a" by (simp add: last_at_append last_at_Cons)
  with s show thesis by (rule_tac that)
qed

lemma removeAction_ok:
  assumes ok: "trace_ok clk al ps"
  shows "\<exists>al' ps'. al_removeAction clk x al = Some al' \<and> trace_ok clk al' ps' \<and>
    map snd ps' = rev (remove1 x (rev (map snd ps)))"
proof -
  let ?C = "unat (clk x)"
  from ok have parts: "sorted (map (\<lambda>p. clk (snd p)) ps)" "trie_wf (\<lambda>_. False) (al_nodes al)"
    "\<forall>c < 2 ^ 32. leaf (al_nodes al) c = last_at clk ps c" by (simp_all add: trace_ok_def)
  have C: "?C < 2 ^ 32" using unsigned_less [of "clk x"] by simp
  have root: "unat (clk x) div 16 ^ Suc 7 = 0" using C by simp
  have "al_nodes al (7 - 7, unat (clk x) div 16 ^ Suc 7) \<noteq> None" using parts(2) by (simp only: root) (simp add: trie_wf_def)
  from walk_down_leaf [OF parts(2) this] have walk: "walk_down 7 (0, 0) (clk x) (al_nodes al) = Some (last_at clk ps ?C)"
    using parts(3) C by (simp only: root) simp
  show ?thesis
  proof (cases "last_at clk ps ?C")
    case None
    then have "x \<notin> snd ` set ps" by (auto simp: last_at_none)
    then have "rev (remove1 x (rev (map snd ps))) = map snd ps" by (rule remove_absent)
    with None walk ok show ?thesis by (auto simp: al_removeAction_def)
  next
    case (Some a)
    obtain us p vs where s: "ps = us @ p # vs" "fst p = a" "clk (snd p) = clk x" "\<forall>q \<in> set vs. clk (snd q) \<noteq> clk x"
      by (rule last_at_split [OF Some])
    have "x \<notin> snd ` set vs" and first: "(\<forall>q \<in> set vs. clk (snd q) \<noteq> clk x) = True" using s(4) by auto
    with remove_loop_ok [of clk al us p vs x, unfolded first] ok s walk Some show ?thesis by (simp add: al_removeAction_def)
  qed
qed

end
