(* ===== verification/Action_Trace.thy ===== *)
theory Action_Trace
  imports Action_Remove Machine
begin

text \<open>
  The contract of the trace of an execution, a sequence sorted by clock, and its
  implementation by the trie and the list of \<^verbatim>\<open>actionlist\<close>.
\<close>

section \<open>Insertion behind equal clocks\<close>

lemma insert_node_trace: "map snd (insert_node clk a x ps) = insert_trace clk x (map snd ps)"
  by (induction ps) auto

lemma insert_node_addrs: "fst ` set (insert_node clk a x ps) = insert a (fst ` set ps)"
  by (induction ps) auto

lemma insort_insert_trace:
  assumes "sorted (map clk zs)"
  shows "insort_key clk y (insert_trace clk x zs) = insert_trace clk x (insort_key clk y zs)"
  using assms
proof (induction zs)
  case Nil
  show ?case by (cases "clk x" "clk y" rule: linorder_cases) auto
qed auto

text \<open>Repeated insertion is the stable sort.\<close>

lemma sort_key_snoc: "sort_key clk (xs @ [x]) = insert_trace clk x (sort_key clk xs)"
proof (induction xs)
  case (Cons y xs)
  then show ?case using insort_insert_trace [OF sorted_sort_key] by (simp add: sort_key_simps)
qed simp

section \<open>The contract\<close>

text \<open>\<open>keeps l ps\<close>: the list \<open>l\<close> consists of the nodes \<open>ps\<close>, given by address and action.\<close>

primrec add_all :: "(addr \<Rightarrow> aid \<Rightarrow> 'l \<Rightarrow> 'l option) \<Rightarrow> (addr \<times> aid) list \<Rightarrow> 'l \<Rightarrow> 'l option" where
  "add_all add [] l = Some l"
| "add_all add (p # ps) l = do { l1 \<leftarrow> add (fst p) (snd p) l; add_all add ps l1 }"

lemma add_all_append: "add_all add (ps @ qs) l = do { l1 \<leftarrow> add_all add ps l; add_all add qs l1 }"
  by (induction ps arbitrary: l) (simp_all add: bind_assoc)

locale trace_contract =
  fixes clk :: "aid \<Rightarrow> u32"
    and new :: 'l
    and add :: "addr \<Rightarrow> aid \<Rightarrow> 'l \<Rightarrow> 'l option"
    and remove :: "aid \<Rightarrow> 'l \<Rightarrow> 'l option"
    and keeps :: "'l \<Rightarrow> (addr \<times> aid) list \<Rightarrow> bool"
  assumes new_law: "keeps new []"
    and add_law: "keeps l ps \<Longrightarrow> unused a ps \<Longrightarrow> \<exists>l'. add a x l = Some l' \<and> keeps l' (insert_node clk a x ps)"
    and remove_law: "keeps l ps \<Longrightarrow> \<exists>l' ps'. remove x l = Some l' \<and> keeps l' ps' \<and> map snd ps' = rev (remove1 x (rev (map snd ps)))"
begin

lemma add_all_sorts:
  assumes "distinct (map fst ps)" "0 \<notin> fst ` set ps"
  shows "\<exists>l qs. add_all add ps new = Some l \<and> keeps l qs \<and> map snd qs = sort_key clk (map snd ps) \<and> fst ` set qs = fst ` set ps"
  using assms
proof (induction ps rule: rev_induct)
  case Nil
  show ?case using new_law by auto
next
  case (snoc p ps)
  then obtain l qs where l: "add_all add ps new = Some l" "keeps l qs" "map snd qs = sort_key clk (map snd ps)" "fst ` set qs = fst ` set ps"
    by auto
  have "unused (fst p) qs" using snoc.prems l(4) by (auto simp: unused_def)
  from add_law [OF l(2) this] obtain l' where "add (fst p) (snd p) l = Some l'" "keeps l' (insert_node clk (fst p) (snd p) qs)" by blast
  with l(1) show ?case
    by (intro exI [of _ l'] exI [of _ "insert_node clk (fst p) (snd p) qs"])
      (simp add: add_all_append insert_node_trace insert_node_addrs sort_key_snoc l(3,4))
qed

text \<open>Adding an action that is not in the trace and removing it again.\<close>

lemma remove_insert_trace: "x \<notin> set xs \<Longrightarrow> rev (remove1 x (rev (insert_trace clk x xs))) = xs"
  by (induction xs) (auto simp: remove1_append remove1_idem rev_swap)

lemma add_then_remove:
  assumes "keeps l ps" "unused a ps" "x \<notin> snd ` set ps"
  shows "\<exists>l1 l2 qs. add a x l = Some l1 \<and> remove x l1 = Some l2 \<and> keeps l2 qs \<and> map snd qs = map snd ps"
proof -
  from add_law [OF assms(1,2)] obtain l1 where l1: "add a x l = Some l1" "keeps l1 (insert_node clk a x ps)" by blast
  from remove_law [OF l1(2), of x] obtain l2 qs where "remove x l1 = Some l2" "keeps l2 qs"
    "map snd qs = rev (remove1 x (rev (insert_trace clk x (map snd ps))))" unfolding insert_node_trace by blast
  moreover have "rev (remove1 x (rev (insert_trace clk x (map snd ps)))) = map snd ps"
    using assms(3) by (intro remove_insert_trace) simp
  ultimately show ?thesis using l1(1) by auto
qed

end

interpretation trace: trace_contract clk new_actionlist "al_addAction clk" "al_removeAction clk" "trace_ok clk" for clk
  by unfold_locales (rule new_actionlist_ok addAction_ok removeAction_ok; assumption)+

section \<open>What the action list promises\<close>

text \<open>
  C25: Adding actions to an empty trace, in any order of their clocks, always returns and gives
  the actions sorted by clock, those with the same clock in the order in which they were
  added; the trie finds the last action of each clock.
\<close>
theorem action_list_sorts:
  assumes "distinct (map fst ps)" "0 \<notin> fst ` set ps"
  shows "\<exists>al qs. add_all (al_addAction clk) ps new_actionlist = Some al \<and> trace_ok clk al qs \<and>
    map snd qs = sort_key clk (map snd ps)"
  using trace.add_all_sorts [OF assms] by blast

theorem action_list_sorts_witness:
  "\<exists>al qs. add_all (al_addAction (\<lambda>x. if x = 2 then 7 else 300)) [(8, 1), (16, 2), (24, 3)] new_actionlist = Some al \<and>
     trace_ok (\<lambda>x. if x = 2 then 7 else 300) al qs \<and> map snd qs = [2, 1, 3]"
  using action_list_sorts [of "[(8, 1), (16, 2), (24, 3)]" "\<lambda>x. if x = 2 then 7 else 300"]
  by (simp add: sort_key_simps)

text \<open>
  Removing an action from a trace always returns and deletes its last occurrence, the rest
  in the same order; an action that is not in the trace changes nothing.  The trie keeps
  finding the last action of each clock, and its empty nodes are gone.
\<close>
theorem action_list_remove_refines:
  assumes "trace_ok clk al ps"
  shows "\<exists>al' ps'. al_removeAction clk x al = Some al' \<and> trace_ok clk al' ps' \<and>
    map snd ps' = rev (remove1 x (rev (map snd ps)))"
  using assms by (rule trace.remove_law)

theorem action_list_remove_refines_witness:
  "\<exists>al al' ps'. add_all (al_addAction (\<lambda>x. 5)) [(8, 1), (16, 2)] new_actionlist = Some al \<and>
     al_removeAction (\<lambda>x. 5) 2 al = Some al' \<and> trace_ok (\<lambda>x. 5) al' ps' \<and> map snd ps' = [1]"
proof -
  from trace.add_all_sorts [of "[(8, 1), (16, 2)]" "\<lambda>x. 5"] obtain al qs where al:
    "add_all (al_addAction (\<lambda>x. 5)) [(8, 1), (16, 2)] new_actionlist = Some al" "trace_ok (\<lambda>x. 5) al qs" "map snd qs = [1, 2]"
    by (auto simp: sort_key_simps)
  from action_list_remove_refines [OF al(2), of 2] al show ?thesis by auto
qed

end
