(* ===== verification/API_Calls.thy ===== *)
theory API_Calls
  imports Reads
begin

text \<open>
  \<^verbatim>\<open>API/pmcheckapi.cc\<close> and \<^verbatim>\<open>API/atomicapi.cc\<close>: what an instrumented access of the program
  does.  Each call hands one or two actions to the checker with \<^verbatim>\<open>switch_thread\<close>, performs
  the access on the program's memory and on its shadow, and has it checked for data races.
  The client is one thread of the program: what it has done so far, and the answers that the
  checker, with the other threads, gives as a function of that.  What the checker does between
  the two is the business of the theories of the execution steps; here its answer is arbitrary.
\<close>

section \<open>The client\<close>

datatype race_check =
  Check_Read nat | Check_Write nat | Check_Atomic_Read | Check_Atomic_Write | Record_Write

datatype client_event =
    Switch model_action
  | Shadow_Write addr nat u64
  | Race race_check tid addr

record client =
  cl_tid :: tid
  cl_mem :: "addr \<Rightarrow> u8"
  cl_log :: "client_event list"
  cl_answer :: "client_event list \<Rightarrow> u64"

definition log_events :: "client_event list \<Rightarrow> client \<Rightarrow> client" where
  "log_events evs c = c\<lparr>cl_log := cl_log c @ evs\<rparr>"

definition hand_over :: "model_action \<Rightarrow> client \<Rightarrow> u64 \<times> client" where
  "hand_over a c = (let c1 = log_events [Switch a] c in (cl_answer c1 (cl_log c1), c1))"

text \<open>
  The access after the action: memory, shadow entry, race check; \<open>n\<close> is a number of bytes.
  Of the program's memory only what this thread itself stores is followed.
\<close>

fun write_bytes :: "addr \<Rightarrow> nat \<Rightarrow> u64 \<Rightarrow> (addr \<Rightarrow> u8) \<Rightarrow> (addr \<Rightarrow> u8)" where
  "write_bytes a 0 val m = m"
| "write_bytes a (Suc n) val m = write_bytes (a + 1) n (drop_bit 8 val) (m(a := ucast val))"

definition write_through :: "addr \<Rightarrow> nat \<Rightarrow> u64 \<Rightarrow> client \<Rightarrow> client" where
  "write_through a n val c = log_events [Shadow_Write a n val] (c\<lparr>cl_mem := write_bytes a n val (cl_mem c)\<rparr>)"

definition check_bytes :: "race_check \<Rightarrow> addr \<Rightarrow> nat \<Rightarrow> client \<Rightarrow> client" where
  "check_bytes chk a n c = log_events (map (\<lambda>i. Race chk (cl_tid c) (a + of_nat i)) [0..<n]) c"

section \<open>Non-atomic accesses\<close>

text \<open>\<open>bits\<close> is 8, 16, 32 or 64; a value of that type is a 64-bit word whose other bits are 0.\<close>

definition pmc_store :: "nat \<Rightarrow> addr \<Rightarrow> u64 \<Rightarrow> string \<Rightarrow> client \<Rightarrow> client option" where
  "pmc_store bits addrs v position c = do {
     let val = take_bit bits v;
     action \<leftarrow> action_sized NONATOMIC_WRITE position memory_order_relaxed addrs val (cl_tid c) (bits div 8);
     let (_, c1) = hand_over action c;
     let c2 = write_through addrs (bits div 8) val c1;
     Some (log_events [Race (Check_Write bits) (cl_tid c2) addrs] c2)
   }"

definition pmc_load :: "nat \<Rightarrow> addr \<Rightarrow> string \<Rightarrow> client \<Rightarrow> (u64 \<times> client) option" where
  "pmc_load bits addrs position c = do {
     action \<leftarrow> action_sized NONATOMIC_READ position memory_order_relaxed addrs VALUE_NONE (cl_tid c) (bits div 8);
     let (r, c1) = hand_over action c;
     Some (take_bit bits r, log_events [Race (Check_Read bits) (cl_tid c1) addrs] c1)
   }"

section \<open>Atomic and volatile accesses\<close>

definition memory_order_volatile_load :: memory_order where
  "memory_order_volatile_load = memory_order_acquire"

definition memory_order_volatile_store :: memory_order where
  "memory_order_volatile_store = memory_order_release"

definition orders :: "memory_order list" where
  "orders = [memory_order_relaxed, memory_order_consume, memory_order_acquire,
     memory_order_release, memory_order_acq_rel, memory_order_seq_cst, memory_order_relaxed]"

text \<open>An index outside of the table has no meaning.\<close>

definition order_of :: "int \<Rightarrow> memory_order option" where
  "order_of atomic_index = (if 0 \<le> atomic_index \<and> atomic_index < 7 then Some (orders ! nat atomic_index) else None)"

definition atomic_load :: "memory_order \<Rightarrow> nat \<Rightarrow> addr \<Rightarrow> string \<Rightarrow> client \<Rightarrow> (u64 \<times> client) option" where
  "atomic_load mo bits obj position c = do {
     action \<leftarrow> action_sized ATOMIC_READ position mo obj VALUE_NONE (cl_tid c) (bits div 8);
     let (r, c1) = hand_over action c;
     Some (take_bit bits r, check_bytes Check_Atomic_Read obj (bits div 8) c1)
   }"

definition atomic_store :: "action_type \<Rightarrow> memory_order \<Rightarrow> nat \<Rightarrow> addr \<Rightarrow> u64 \<Rightarrow> string \<Rightarrow> client \<Rightarrow> client option" where
  "atomic_store ty mo bits obj v position c = do {
     let val = take_bit bits v;
     action \<leftarrow> action_sized ty position mo obj val (cl_tid c) (bits div 8);
     let (_, c1) = hand_over action c;
     Some (check_bytes Check_Atomic_Write obj (bits div 8) (write_through obj (bits div 8) val c1))
   }"

definition pmc_volatile_load :: "nat \<Rightarrow> addr \<Rightarrow> string \<Rightarrow> client \<Rightarrow> (u64 \<times> client) option" where
  "pmc_volatile_load = atomic_load memory_order_volatile_load"

definition pmc_volatile_store :: "nat \<Rightarrow> addr \<Rightarrow> u64 \<Rightarrow> string \<Rightarrow> client \<Rightarrow> client option" where
  "pmc_volatile_store = atomic_store ATOMIC_WRITE memory_order_volatile_store"

definition pmc_atomic_init :: "nat \<Rightarrow> addr \<Rightarrow> u64 \<Rightarrow> string \<Rightarrow> client \<Rightarrow> client option" where
  "pmc_atomic_init = atomic_store ATOMIC_INIT memory_order_relaxed"

definition pmc_atomic_load :: "nat \<Rightarrow> addr \<Rightarrow> int \<Rightarrow> string \<Rightarrow> client \<Rightarrow> (u64 \<times> client) option" where
  "pmc_atomic_load bits obj atomic_index position c = do {
     mo \<leftarrow> order_of atomic_index;
     atomic_load mo bits obj position c
   }"

definition pmc_atomic_store :: "nat \<Rightarrow> addr \<Rightarrow> u64 \<Rightarrow> int \<Rightarrow> string \<Rightarrow> client \<Rightarrow> client option" where
  "pmc_atomic_store bits obj val atomic_index position c = do {
     mo \<leftarrow> order_of atomic_index;
     atomic_store ATOMIC_WRITE mo bits obj val position c
   }"

section \<open>Read-modify-write operations\<close>

definition model_rmw_read_action :: "addr \<Rightarrow> int \<Rightarrow> string \<Rightarrow> nat \<Rightarrow> client \<Rightarrow> (u64 \<times> client) option" where
  "model_rmw_read_action obj atomic_index position bits c = do {
     mo \<leftarrow> order_of atomic_index;
     action \<leftarrow> action_sized ATOMIC_RMWR position mo obj VALUE_NONE (cl_tid c) bits;
     Some (hand_over action c)
   }"

definition model_rmw_action :: "addr \<Rightarrow> u64 \<Rightarrow> int \<Rightarrow> string \<Rightarrow> nat \<Rightarrow> client \<Rightarrow> client option" where
  "model_rmw_action obj val atomic_index position bits c = do {
     mo \<leftarrow> order_of atomic_index;
     action \<leftarrow> action_sized ATOMIC_RMW position mo obj val (cl_tid c) bits;
     Some (snd (hand_over action c))
   }"

definition model_rmw_cas_fail_action :: "addr \<Rightarrow> int \<Rightarrow> string \<Rightarrow> nat \<Rightarrow> client \<Rightarrow> client option" where
  "model_rmw_cas_fail_action obj atomic_index position bits c = do {
     mo \<leftarrow> order_of atomic_index;
     action \<leftarrow> action_positioned ATOMIC_CAS_FAILED position mo obj (of_nat bits) (cl_tid c);
     Some (snd (hand_over action c))
   }"

definition atomic_rmw :: "(u64 \<Rightarrow> u64 \<Rightarrow> u64) \<Rightarrow> nat \<Rightarrow> addr \<Rightarrow> u64 \<Rightarrow> int \<Rightarrow> string \<Rightarrow> client \<Rightarrow> (u64 \<times> client) option" where
  "atomic_rmw rmw bits addr val atomic_index position c = do {
     (r, c1) \<leftarrow> model_rmw_read_action addr atomic_index position (bits div 8) c;
     let old = take_bit bits r;
     let copy = take_bit bits (rmw old (take_bit bits val));
     c2 \<leftarrow> model_rmw_action addr copy atomic_index position (bits div 8) c1;
     let c3 = write_through addr (bits div 8) copy c2;
     let c4 = log_events (concat (map (\<lambda>i. [Race Check_Atomic_Read (cl_tid c3) (addr + of_nat i),
         Race Record_Write (cl_tid c3) (addr + of_nat i)]) [0..<bits div 8])) c3;
     Some (old, c4)
   }"

definition pmc_atomic_exchange :: "nat \<Rightarrow> addr \<Rightarrow> u64 \<Rightarrow> int \<Rightarrow> string \<Rightarrow> client \<Rightarrow> (u64 \<times> client) option" where
  "pmc_atomic_exchange = atomic_rmw (\<lambda>old val. val)"

definition pmc_atomic_fetch_add :: "nat \<Rightarrow> addr \<Rightarrow> u64 \<Rightarrow> int \<Rightarrow> string \<Rightarrow> client \<Rightarrow> (u64 \<times> client) option" where
  "pmc_atomic_fetch_add = atomic_rmw (+)"

definition pmc_atomic_fetch_sub :: "nat \<Rightarrow> addr \<Rightarrow> u64 \<Rightarrow> int \<Rightarrow> string \<Rightarrow> client \<Rightarrow> (u64 \<times> client) option" where
  "pmc_atomic_fetch_sub = atomic_rmw (-)"

definition pmc_atomic_fetch_and :: "nat \<Rightarrow> addr \<Rightarrow> u64 \<Rightarrow> int \<Rightarrow> string \<Rightarrow> client \<Rightarrow> (u64 \<times> client) option" where
  "pmc_atomic_fetch_and = atomic_rmw (\<lambda>old val. old AND val)"

definition pmc_atomic_fetch_or :: "nat \<Rightarrow> addr \<Rightarrow> u64 \<Rightarrow> int \<Rightarrow> string \<Rightarrow> client \<Rightarrow> (u64 \<times> client) option" where
  "pmc_atomic_fetch_or = atomic_rmw (\<lambda>old val. old OR val)"

definition pmc_atomic_fetch_xor :: "nat \<Rightarrow> addr \<Rightarrow> u64 \<Rightarrow> int \<Rightarrow> string \<Rightarrow> client \<Rightarrow> (u64 \<times> client) option" where
  "pmc_atomic_fetch_xor = atomic_rmw (\<lambda>old val. old XOR val)"

definition atomic_cmpswp :: "nat \<Rightarrow> addr \<Rightarrow> u64 \<Rightarrow> u64 \<Rightarrow> int \<Rightarrow> string \<Rightarrow> client \<Rightarrow> (u64 \<times> client) option" where
  "atomic_cmpswp bits addr expect desire atomic_index position c = do {
     let desired = take_bit bits desire;
     let expected = take_bit bits expect;
     (r, c1) \<leftarrow> model_rmw_read_action addr atomic_index position (bits div 8) c;
     let old = take_bit bits r;
     let c2 = check_bytes Check_Atomic_Read addr (bits div 8) c1;
     (if old = expected then do {
        c3 \<leftarrow> model_rmw_action addr desired atomic_index position (bits div 8) c2;
        let c4 = write_through addr (bits div 8) desired c3;
        Some (expected, check_bytes Record_Write addr (bits div 8) c4)
      } else do {
        c3 \<leftarrow> model_rmw_cas_fail_action addr atomic_index position (bits div 8) c2;
        Some (old, c3)
      })
   }"

definition pmc_atomic_compare_exchange_v1 :: "nat \<Rightarrow> addr \<Rightarrow> u64 \<Rightarrow> u64 \<Rightarrow> int \<Rightarrow> int \<Rightarrow> string \<Rightarrow> client \<Rightarrow> (u64 \<times> client) option" where
  "pmc_atomic_compare_exchange_v1 bits addr expected desired atomic_index_succ atomic_index_fail position c =
     atomic_cmpswp bits addr expected desired atomic_index_succ position c"

definition pmc_atomic_compare_exchange_v2 :: "nat \<Rightarrow> addr \<Rightarrow> u64 \<Rightarrow> u64 \<Rightarrow> int \<Rightarrow> int \<Rightarrow> string \<Rightarrow> client \<Rightarrow> (bool \<times> client) option" where
  "pmc_atomic_compare_exchange_v2 bits addr expected desired atomic_index_succ atomic_index_fail position c = do {
     (ret, c1) \<leftarrow> pmc_atomic_compare_exchange_v1 bits addr expected desired atomic_index_succ atomic_index_fail position c;
     Some (ret = take_bit bits expected, c1)
   }"

section \<open>Fences and flushes\<close>

definition pmc_atomic_thread_fence :: "int \<Rightarrow> string \<Rightarrow> client \<Rightarrow> client" where
  "pmc_atomic_thread_fence atomic_index position c = c"

definition flush_action :: "action_type \<Rightarrow> addr \<Rightarrow> client \<Rightarrow> client option" where
  "flush_action ty addrs c = do {
     action \<leftarrow> action_at ty memory_order_seq_cst addrs VALUE_NONE (cl_tid c) 0;
     Some (snd (hand_over action c))
   }"

definition pmc_clwb :: "addr \<Rightarrow> client \<Rightarrow> client option" where
  "pmc_clwb = flush_action ACTION_CLFLUSHOPT"

definition pmc_clflushopt :: "addr \<Rightarrow> client \<Rightarrow> client option" where
  "pmc_clflushopt = flush_action ACTION_CLFLUSHOPT"

definition pmc_clflush :: "addr \<Rightarrow> client \<Rightarrow> client option" where
  "pmc_clflush = flush_action ACTION_CLFLUSH"

definition pmc_mfence :: "client \<Rightarrow> client" where
  "pmc_mfence c = snd (hand_over (action_fence CACHE_MFENCE (cl_tid c)) c)"

definition pmc_lfence :: "client \<Rightarrow> client option" where
  "pmc_lfence c = None"

definition pmc_sfence :: "client \<Rightarrow> client" where
  "pmc_sfence c = snd (hand_over (action_fence CACHE_SFENCE (cl_tid c)) c)"

end
