(* ===== verification/Pmem_Ops.thy ===== *)
theory Pmem_Ops
  imports API_Calls
begin

text \<open>
  \<^verbatim>\<open>Memory/libpmem.cc\<close> and \<^verbatim>\<open>Memory/persistentmemory.cc\<close>: flushing and the memory functions
  of the C library on persistent memory, which are split into accesses of 8, 4, 2 and 1 bytes.
\<close>

section \<open>Flushing and fencing\<close>

definition CACHE_LINE_SIZE :: u64 where
  "CACHE_LINE_SIZE = 64"

definition pmem_drain :: "client \<Rightarrow> client" where
  "pmem_drain = pmc_sfence"

partial_function (option) flush_lines :: "addr \<Rightarrow> addr \<Rightarrow> client \<Rightarrow> client option" where
  "flush_lines limit ptr c =
     (if ptr < limit then Option.bind (pmc_clflushopt ptr c) (\<lambda>c1. flush_lines limit (ptr + CACHE_LINE_SIZE) c1)
      else Some c)"

declare flush_lines.simps [code]

definition pmem_flush :: "addr \<Rightarrow> u64 \<Rightarrow> client \<Rightarrow> client option" where
  "pmem_flush address len c = flush_lines (address + len) (address AND NOT (CACHE_LINE_SIZE - 1)) c"

definition pmem_persist :: "addr \<Rightarrow> u64 \<Rightarrow> client \<Rightarrow> client option" where
  "pmem_persist address len c = do { c1 \<leftarrow> pmem_flush address len c; Some (pmem_drain c1) }"

definition PMEM_F_MEM_NODRAIN :: u32 where
  "PMEM_F_MEM_NODRAIN = push_bit 0 1"

definition PMEM_F_MEM_NOFLUSH :: u32 where
  "PMEM_F_MEM_NOFLUSH = push_bit 5 1"

text \<open>The end of the memory functions.\<close>

definition flush_and_drain :: "u32 \<Rightarrow> addr \<Rightarrow> u64 \<Rightarrow> client \<Rightarrow> client option" where
  "flush_and_drain flags dst n c = do {
     c1 \<leftarrow> (if flags AND PMEM_F_MEM_NOFLUSH = 0 then pmem_flush dst n c else Some c);
     Some (if flags AND (PMEM_F_MEM_NODRAIN OR PMEM_F_MEM_NOFLUSH) = 0 then pmem_drain c1 else c1)
   }"

section \<open>Copying\<close>

text \<open>
  The loop over the offset \<open>i\<close>, a 32-bit number; \<open>ld\<close> and \<open>st\<close> are the accesses, by their
  width in bits.
\<close>

definition copy_width :: "addr \<Rightarrow> addr \<Rightarrow> u64 \<Rightarrow> u32 \<Rightarrow> u32" where
  "copy_width dst src n i =
     (if (src + ucast i) AND 7 = 0 \<and> (dst + ucast i) AND 7 = 0 \<and> ucast (i + 8) \<le> n then 8
      else if (src + ucast i) AND 3 = 0 \<and> (dst + ucast i) AND 3 = 0 \<and> ucast (i + 4) \<le> n then 4
      else if (src + ucast i) AND 1 = 0 \<and> (dst + ucast i) AND 1 = 0 \<and> ucast (i + 2) \<le> n then 2
      else 1)"

definition copy_step ::
  "(nat \<Rightarrow> addr \<Rightarrow> client \<Rightarrow> (u64 \<times> client) option) \<Rightarrow> (nat \<Rightarrow> addr \<Rightarrow> u64 \<Rightarrow> client \<Rightarrow> client option) \<Rightarrow>
     u32 \<Rightarrow> addr \<Rightarrow> addr \<Rightarrow> u32 \<Rightarrow> client \<Rightarrow> client option" where
  "copy_step ld st w dst src i c = do {
     (val, c1) \<leftarrow> ld (8 * unat w) (src + ucast i) c;
     st (8 * unat w) (dst + ucast i) val c1
   }"

partial_function (option) copy_loop ::
  "(nat \<Rightarrow> addr \<Rightarrow> client \<Rightarrow> (u64 \<times> client) option) \<Rightarrow> (nat \<Rightarrow> addr \<Rightarrow> u64 \<Rightarrow> client \<Rightarrow> client option) \<Rightarrow>
     addr \<Rightarrow> addr \<Rightarrow> u64 \<Rightarrow> u32 \<Rightarrow> client \<Rightarrow> client option" where
  "copy_loop ld st dst src n i c =
     (if ucast i < n then
        Option.bind (copy_step ld st (copy_width dst src n i) dst src i c)
          (\<lambda>c1. copy_loop ld st dst src n (i + copy_width dst src n i) c1)
      else Some c)"

declare copy_loop.simps [code]

definition pmem_memmove :: "addr \<Rightarrow> addr \<Rightarrow> u64 \<Rightarrow> u32 \<Rightarrow> client \<Rightarrow> (addr \<times> client) option" where
  "pmem_memmove dst src n flags c = do {
     c1 \<leftarrow> copy_loop (\<lambda>w a. pmc_atomic_load w a 0 ''memmove'') (\<lambda>w a v. pmc_atomic_store w a v 0 ''memmove'')
             dst src n 0 c;
     c2 \<leftarrow> flush_and_drain flags dst n c1;
     Some (dst, c2)
   }"

definition pmem_memcpy :: "addr \<Rightarrow> addr \<Rightarrow> u64 \<Rightarrow> u32 \<Rightarrow> client \<Rightarrow> (addr \<times> client) option" where
  "pmem_memcpy dst src n flags c = do {
     c1 \<leftarrow> copy_loop (\<lambda>w a. pmc_atomic_load w a 0 ''memcpy'') (\<lambda>w a v. pmc_atomic_store w a v 0 ''memcpy'')
             dst src n 0 c;
     c2 \<leftarrow> flush_and_drain flags dst n c1;
     Some (dst, c2)
   }"

section \<open>Filling\<close>

definition fill_width :: "addr \<Rightarrow> u64 \<Rightarrow> u32 \<Rightarrow> u32" where
  "fill_width dst n i =
     (if (dst + ucast i) AND 7 = 0 \<and> ucast (i + 8) \<le> n then 8
      else if (dst + ucast i) AND 3 = 0 \<and> ucast (i + 4) \<le> n then 4
      else if (dst + ucast i) AND 1 = 0 \<and> ucast (i + 2) \<le> n then 2
      else 1)"

partial_function (option) fill_loop ::
  "(nat \<Rightarrow> addr \<Rightarrow> client \<Rightarrow> client option) \<Rightarrow> addr \<Rightarrow> u64 \<Rightarrow> u32 \<Rightarrow> client \<Rightarrow> client option" where
  "fill_loop st dst n i c =
     (if ucast i < n then
        Option.bind (st (8 * unat (fill_width dst n i)) (dst + ucast i) c)
          (\<lambda>c1. fill_loop st dst n (i + fill_width dst n i) c1)
      else Some c)"

declare fill_loop.simps [code]

text \<open>
  The patterns.  In \<^verbatim>\<open>cs << 8\<close> and \<^verbatim>\<open>cs2 << 16\<close> the left operand is promoted to \<^verbatim>\<open>int\<close>; a
  negative \<^verbatim>\<open>int\<close> is sign-extended when it is assigned to \<^verbatim>\<open>cs3\<close> of 64 bits.
\<close>

definition cs2_of :: "u8 \<Rightarrow> u16" where
  "cs2_of cs = ucast ((push_bit 8 (ucast cs) OR ucast cs) :: u32)"

definition pattern16 :: "u8 \<Rightarrow> u64" where
  "pattern16 cs = ucast (cs2_of cs)"

definition pattern32 :: "u8 \<Rightarrow> u64" where
  "pattern32 cs = ucast ((push_bit 16 (ucast (cs2_of cs)) OR ucast (cs2_of cs)) :: u32)"

definition pattern64 :: "u8 \<Rightarrow> u64" where
  "pattern64 cs = (let cs3 = (scast ((push_bit 16 (ucast (cs2_of cs)) OR ucast (cs2_of cs)) :: u32) :: u64)
     in push_bit 32 cs3 OR cs3)"

definition memset_store :: "u8 \<Rightarrow> nat \<Rightarrow> addr \<Rightarrow> client \<Rightarrow> client option" where
  "memset_store cs w a c = pmc_atomic_store w a
     (if w = 64 then pattern64 cs else if w = 32 then pattern32 cs else if w = 16 then pattern16 cs else ucast cs)
     0 ''memset'' c"

definition pmem_memset :: "addr \<Rightarrow> u32 \<Rightarrow> u64 \<Rightarrow> u32 \<Rightarrow> client \<Rightarrow> (addr \<times> client) option" where
  "pmem_memset dst ch n flags c = do {
     let cs = ucast (ch AND 0xff);
     c1 \<leftarrow> fill_loop (memset_store cs) dst n 0 c;
     c2 \<leftarrow> flush_and_drain flags dst n c1;
     Some (dst, c2)
   }"

section \<open>Variants\<close>

definition persist_flags :: u32 where
  "persist_flags = NOT PMEM_F_MEM_NODRAIN AND NOT PMEM_F_MEM_NOFLUSH"

definition pmem_memmove_persist :: "addr \<Rightarrow> addr \<Rightarrow> u64 \<Rightarrow> client \<Rightarrow> (addr \<times> client) option" where
  "pmem_memmove_persist pmemdest src len = pmem_memmove pmemdest src len persist_flags"

definition pmem_memcpy_persist :: "addr \<Rightarrow> addr \<Rightarrow> u64 \<Rightarrow> client \<Rightarrow> (addr \<times> client) option" where
  "pmem_memcpy_persist pmemdest src len = pmem_memcpy pmemdest src len persist_flags"

definition pmem_memset_persist :: "addr \<Rightarrow> u32 \<Rightarrow> u64 \<Rightarrow> client \<Rightarrow> (addr \<times> client) option" where
  "pmem_memset_persist pmemdest ch len = pmem_memset pmemdest ch len persist_flags"

definition pmem_memmove_nodrain :: "addr \<Rightarrow> addr \<Rightarrow> u64 \<Rightarrow> client \<Rightarrow> (addr \<times> client) option" where
  "pmem_memmove_nodrain pmemdest src len = pmem_memmove pmemdest src len PMEM_F_MEM_NODRAIN"

definition pmem_memcpy_nodrain :: "addr \<Rightarrow> addr \<Rightarrow> u64 \<Rightarrow> client \<Rightarrow> (addr \<times> client) option" where
  "pmem_memcpy_nodrain pmemdest src len = pmem_memcpy pmemdest src len PMEM_F_MEM_NODRAIN"

definition pmem_memset_nodrain :: "addr \<Rightarrow> u32 \<Rightarrow> u64 \<Rightarrow> client \<Rightarrow> (addr \<times> client) option" where
  "pmem_memset_nodrain pmemdest ch len = pmem_memset pmemdest ch len PMEM_F_MEM_NODRAIN"

section \<open>The functions of the C library\<close>

text \<open>
  Outside of persistent memory, and for calls of the checker itself, the library's own
  function does the work, found by the dynamic linker: the argument \<open>real\<close>.  While it is
  being looked up, the bytes are copied one by one.
\<close>

record regions =
  persistentMemoryRegion :: addr
  altRegion :: addr
  altSize :: u64

definition PERSISTENT_MEMORY_DEFAULT :: u64 where
  "PERSISTENT_MEMORY_DEFAULT = push_bit 20 1 * 100"

definition jaaru_set_region :: "addr \<Rightarrow> u64 \<Rightarrow> regions \<Rightarrow> regions option" where
  "jaaru_set_region address n r =
     (if altRegion r = 0 then Some (r\<lparr>altRegion := address, altSize := n\<rparr>)
      else if altRegion r \<noteq> address then None
      else Some (if n > altSize r then r\<lparr>altSize := n\<rparr> else r))"

definition is_pmem :: "regions \<Rightarrow> addr \<Rightarrow> bool" where
  "is_pmem r address \<longleftrightarrow>
     (persistentMemoryRegion r \<noteq> 0 \<and> address \<ge> persistentMemoryRegion r \<and>
        address < persistentMemoryRegion r + PERSISTENT_MEMORY_DEFAULT) \<or>
     (altRegion r \<noteq> 0 \<and> address \<ge> altRegion r \<and> address < altRegion r + altSize r)"

definition pmem_msync :: "regions \<Rightarrow> addr \<Rightarrow> u64 \<Rightarrow> client \<Rightarrow> client option" where
  "pmem_msync r address len c = (if is_pmem r address then pmem_persist address len c else Some c)"

definition copy_byte :: "addr \<Rightarrow> addr \<Rightarrow> u32 \<Rightarrow> client \<Rightarrow> client" where
  "copy_byte dst src i c = c\<lparr>cl_mem := (cl_mem c)(dst + ucast i := cl_mem c (src + ucast i))\<rparr>"

partial_function (option) bytes_up :: "addr \<Rightarrow> addr \<Rightarrow> u64 \<Rightarrow> u32 \<Rightarrow> client \<Rightarrow> client option" where
  "bytes_up dst src n i c =
     (if ucast i < n then bytes_up dst src n (i + 1) (copy_byte dst src i c) else Some c)"

partial_function (option) bytes_down :: "addr \<Rightarrow> addr \<Rightarrow> u32 \<Rightarrow> client \<Rightarrow> client option" where
  "bytes_down dst src i c =
     (if i \<noteq> 0 then bytes_down dst src (i - 1) (copy_byte dst src (i - 1) c) else Some c)"

declare bytes_up.simps [code] bytes_down.simps [code]

definition c_memcpy :: "regions \<Rightarrow> bool \<Rightarrow> (addr \<Rightarrow> addr \<Rightarrow> u64 \<Rightarrow> client \<Rightarrow> (addr \<times> client) option) option \<Rightarrow>
    addr \<Rightarrow> addr \<Rightarrow> u64 \<Rightarrow> client \<Rightarrow> (addr \<times> client) option" where
  "c_memcpy r inside_model memcpy_real dst src n c =
     (if is_pmem r dst \<and> \<not> inside_model then pmem_memcpy dst src n PMEM_F_MEM_NOFLUSH c
      else (case memcpy_real of
          None \<Rightarrow> do { c1 \<leftarrow> bytes_up dst src n 0 c; Some (dst, c1) }
        | Some f \<Rightarrow> f dst src n c))"

definition c_memmove :: "regions \<Rightarrow> bool \<Rightarrow> (addr \<Rightarrow> addr \<Rightarrow> u64 \<Rightarrow> client \<Rightarrow> (addr \<times> client) option) option \<Rightarrow>
    addr \<Rightarrow> addr \<Rightarrow> u64 \<Rightarrow> client \<Rightarrow> (addr \<times> client) option" where
  "c_memmove r inside_model memmove_real dst src n c =
     (if is_pmem r dst \<and> \<not> inside_model then pmem_memmove dst src n PMEM_F_MEM_NOFLUSH c
      else (case memmove_real of
          None \<Rightarrow> do {
            c1 \<leftarrow> (if dst < src then bytes_up dst src n 0 c else bytes_down dst src (ucast n) c);
            Some (dst, c1)
          }
        | Some f \<Rightarrow> f dst src n c))"

fun fill_bytes :: "addr \<Rightarrow> u8 \<Rightarrow> nat \<Rightarrow> (addr \<Rightarrow> u8) \<Rightarrow> (addr \<Rightarrow> u8)" where
  "fill_bytes dst v 0 m = m"
| "fill_bytes dst v (Suc k) m = fill_bytes (dst + 1) v k (m(dst := v))"

definition realmemset :: "(addr \<Rightarrow> u32 \<Rightarrow> u64 \<Rightarrow> client \<Rightarrow> (addr \<times> client) option) option \<Rightarrow>
    addr \<Rightarrow> u32 \<Rightarrow> u64 \<Rightarrow> client \<Rightarrow> (addr \<times> client) option" where
  "realmemset memset_real dst ch n c = (case memset_real of
       None \<Rightarrow> Some (dst, c\<lparr>cl_mem := fill_bytes dst (ucast ch) (unat n) (cl_mem c)\<rparr>)
     | Some f \<Rightarrow> f dst ch n c)"

definition c_memset :: "regions \<Rightarrow> bool \<Rightarrow> (addr \<Rightarrow> u32 \<Rightarrow> u64 \<Rightarrow> client \<Rightarrow> (addr \<times> client) option) option \<Rightarrow>
    addr \<Rightarrow> u32 \<Rightarrow> u64 \<Rightarrow> client \<Rightarrow> (addr \<times> client) option" where
  "c_memset r inside_model memset_real dst ch n c =
     (if is_pmem r dst \<and> \<not> inside_model then pmem_memset dst ch n PMEM_F_MEM_NOFLUSH c
      else realmemset memset_real dst ch n c)"

definition c_bzero :: "regions \<Rightarrow> bool \<Rightarrow> (addr \<Rightarrow> u64 \<Rightarrow> client \<Rightarrow> client option) option \<Rightarrow> addr \<Rightarrow> u64 \<Rightarrow> client \<Rightarrow> client option" where
  "c_bzero r inside_model bzero_real dst n c =
     (if is_pmem r dst \<and> \<not> inside_model then fill_loop (\<lambda>w a. pmc_store w a 0 ''bzero'') dst n 0 c
      else (case bzero_real of
          None \<Rightarrow> Some (c\<lparr>cl_mem := fill_bytes dst 0 (unat n) (cl_mem c)\<rparr>)
        | Some f \<Rightarrow> f dst n c))"

text \<open>The length of a string, none if it has no end.\<close>

partial_function (option) string_end :: "(addr \<Rightarrow> u8) \<Rightarrow> addr \<Rightarrow> u64 \<Rightarrow> u64 option" where
  "string_end m src n = (if m (src + n) \<noteq> 0 then string_end m src (n + 1) else Some n)"

declare string_end.simps [code]

definition c_strcpy :: "regions \<Rightarrow> bool \<Rightarrow> (addr \<Rightarrow> addr \<Rightarrow> client \<Rightarrow> (addr \<times> client) option) option \<Rightarrow>
    addr \<Rightarrow> addr \<Rightarrow> client \<Rightarrow> (addr \<times> client) option" where
  "c_strcpy r inside_model strcpy_real dst src c =
     (if is_pmem r dst \<and> \<not> inside_model then do {
        n \<leftarrow> string_end (cl_mem c) src 0;
        c1 \<leftarrow> copy_loop (\<lambda>w a. pmc_load w a ''strcpy'') (\<lambda>w a v. pmc_store w a v ''strcpy'') dst src n 0 c;
        Some (dst, c1)
      } else (case strcpy_real of
          None \<Rightarrow> do {
            n \<leftarrow> string_end (cl_mem c) src 0;
            c1 \<leftarrow> bytes_up dst src n 0 c;
            Some (dst, c1)
          }
        | Some f \<Rightarrow> f dst src c))"

end
