(* ===== verification/Cache_Lines.thy ===== *)
theory Cache_Lines
  imports Machine
begin

text \<open>
  Addresses as numbers: ranges of bytes, and the cache line of an address.
\<close>

section \<open>Ranges\<close>

lemma unat_small: "unat (w :: 'a::len word) < 2 ^ LENGTH('a)"
  by (rule unsigned_less)

lemma in_chunk:
  fixes y off :: addr
  assumes "unat off + k < 2 ^ 64"
  shows "unat (y - off) < k \<longleftrightarrow> unat off \<le> unat y \<and> unat y < unat off + k"
proof (cases "off \<le> y")
  case True
  then have "unat (y - off) = unat y - unat off" by (simp add: unat_sub)
  with True show ?thesis by (auto simp: word_le_nat_alt)
next
  case False
  then have "unat (y - off) = 2 ^ 64 + unat y - unat off"
    using unat_sub_if' [of y off] by (simp add: word_le_nat_alt)
  with False assms show ?thesis by (simp add: word_le_nat_alt)
qed

lemma unat_offset:
  fixes x address :: addr
  assumes "unat (x - address) < n" "unat address + n \<le> 2 ^ 64"
  shows "unat x = unat address + unat (x - address)"
proof -
  have "unat address + unat (x - address) < 2 ^ LENGTH(64)" using assms by simp
  then show ?thesis unfolding unat_add_lem by simp
qed

section \<open>Cache lines\<close>

lemma unat_and_not_mask: "unat (x AND NOT (mask k) :: u64) = unat x div 2 ^ k * 2 ^ k"
proof -
  have "x AND NOT (mask k) = push_bit k (drop_bit k x)" by (rule bit_word_eqI) (auto simp: bit_simps)
  moreover have "unat (drop_bit k x) = unat x div 2 ^ k"
    using unat_small [of x] by (simp add: unsigned_drop_bit_eq drop_bit_nat_def take_bit_nat_eq_self le_less_trans [OF div_le_dividend])
  moreover have "unat x div 2 ^ k * 2 ^ k < 2 ^ 64" using unat_small [of x] by (simp add: le_less_trans [OF div_times_less_eq_dividend])
  ultimately show ?thesis by (simp add: unsigned_push_bit_eq push_bit_nat_def take_bit_nat_eq_self)
qed

lemma unat_line: "unat (x AND NOT 63 :: addr) = unat x div 64 * 64"
  using unat_and_not_mask [of x 6] by (simp add: mask_eq_exp_minus_1)

lemma unat_getCacheID: "unat (getCacheID x) = unat x div 64 * 64"
  using unat_line [of x] by (simp add: getCacheID_def CACHELINESIZE_def)

lemma getCacheID_eq: "getCacheID x = getCacheID y \<longleftrightarrow> unat x div 64 = unat y div 64"
  by (simp add: word_unat_eq_iff unat_getCacheID)

lemma unat_index: "unat (x AND (CACHELINESIZE - 1)) = unat x mod 64"
proof -
  have m: "(63 :: addr) = mask 6" by (simp add: mask_eq_exp_minus_1)
  have "unat (take_bit 6 x) = unat x mod 64" by (simp add: unsigned_take_bit_eq take_bit_nat_def)
  then show ?thesis by (simp add: CACHELINESIZE_def m take_bit_eq_mask)
qed

end
