(* ===== verification/Pmem_Bytes.thy ===== *)
theory Pmem_Bytes
  imports Pmem_Ops Cache_Lines
begin

text \<open>
  The accesses of the client as accesses to a byte memory: the checker's answers are those of
  a memory, a load or store of \<open>k\<close> bytes acts on \<open>k\<close> neighbouring bytes, and the loops over
  chunks act on every byte once.
\<close>

section \<open>Bytes of a word\<close>

definition widths :: "nat set" where
  "widths = {1, 2, 4, 8}"

lemma widths_le: "k \<in> widths \<Longrightarrow> 0 < k \<and> k \<le> 8"
  by (auto simp: widths_def)

lemma byte_of_read:
  "j < k \<Longrightarrow> k \<le> 8 \<Longrightarrow> ucast (drop_bit (8 * j) (read_bytes m a k)) = m (a + of_nat j)"
proof (induction k arbitrary: a j)
  case (Suc k)
  show ?case
  proof (cases j)
    case 0
    show ?thesis unfolding 0 by (rule bit_word_eqI) (simp add: bit_simps)
  next
    case (Suc i)
    with Suc.prems have i: "i < k" "k \<le> 8" "8 * i + 16 \<le> 64" by simp_all
    have "ucast (drop_bit (8 * j) (read_bytes m a (Suc k))) = (ucast (drop_bit (8 * i) (read_bytes m (a + 1) k)) :: u8)"
    proof (rule bit_word_eqI)
      fix b assume "b < LENGTH(8)"
      then have b: "b < 8" "8 * j + b < 64" "8 \<le> 8 * j + b" "8 * j + b - 8 = 8 * i + b" "\<not> 8 * j + b < 8"
        using Suc i(3) by simp_all
      have "bit (m a) (8 * j + b) = False" using b(5) bit_imp_le_length [of "m a"] by fastforce
      then show "bit (ucast (drop_bit (8 * j) (read_bytes m a (Suc k))) :: u8) b =
          bit (ucast (drop_bit (8 * i) (read_bytes m (a + 1) k)) :: u8) b"
        using b by (simp add: bit_simps)
    qed
    also have "\<dots> = m (a + 1 + of_nat i)" by (rule Suc.IH [OF i(1,2)])
    finally show ?thesis using Suc by (simp add: add.assoc)
  qed
qed simp

lemma byte_of_take: "j < k \<Longrightarrow> k \<le> 8 \<Longrightarrow> ucast (drop_bit (8 * j) (take_bit (8 * k) (w :: u64))) = (ucast (drop_bit (8 * j) w) :: u8)"
  by (rule bit_word_eqI) (auto simp: bit_simps)

lemma unat_diff_one: "(x :: addr) \<noteq> a \<Longrightarrow> unat (x - (a + 1)) = unat (x - a) - 1"
proof -
  assume "x \<noteq> a"
  then have "x - a \<noteq> 0" by simp
  from unat_minus_one [OF this] show ?thesis by (simp add: diff_diff_eq)
qed

lemma write_bytes_at:
  "k \<le> 8 \<Longrightarrow> write_bytes a k v m x = (if unat (x - a) < k then ucast (drop_bit (8 * unat (x - a)) v) else m x)"
proof (induction k arbitrary: a v m)
  case (Suc k)
  have IH: "write_bytes (a + 1) k (drop_bit 8 v) (m(a := ucast v)) x =
      (if unat (x - (a + 1)) < k then ucast (drop_bit (8 * unat (x - (a + 1))) (drop_bit 8 v)) else (m(a := ucast v)) x)"
    using Suc by simp
  show ?case
  proof (cases "x = a")
    case True
    have "unat (- 1 :: addr) = 2 ^ 64 - 1" by (simp add: unsigned_minus_1_eq_mask mask_eq_exp_minus_1)
    with True IH Suc.prems show ?thesis by simp
  next
    case False
    then have "0 < unat (x - a)" by (simp add: unat_gt_0)
    then obtain d where "unat (x - a) = Suc d" by (cases "unat (x - a)") auto
    with IH unat_diff_one [OF False] False show ?thesis by (simp add: add.commute)
  qed
qed simp

section \<open>The memory of the checker\<close>

definition stored_by :: "model_action \<Rightarrow> (addr \<Rightarrow> u8) \<Rightarrow> (addr \<Rightarrow> u8)" where
  "stored_by a m = (if is_write a then write_bytes (act_location a) (act_size a) (act_value a) m else m)"

definition after_event :: "client_event \<Rightarrow> (addr \<Rightarrow> u8) \<Rightarrow> (addr \<Rightarrow> u8)" where
  "after_event ev m = (case ev of Switch a \<Rightarrow> stored_by a m | _ \<Rightarrow> m)"

definition contents :: "(addr \<Rightarrow> u8) \<Rightarrow> client_event list \<Rightarrow> (addr \<Rightarrow> u8)" where
  "contents m0 evs = fold after_event evs m0"

lemma contents_append [simp]: "contents m0 (evs @ evs') = fold after_event evs' (contents m0 evs)"
  by (simp add: contents_def)

lemma after_event_simps [simp]:
  "after_event (Switch a) m = stored_by a m" "after_event (Shadow_Write x n v) m = m" "after_event (Race chk t x) m = m"
  by (simp_all add: after_event_def)

text \<open>The answers of a checker with this thread alone and without a crash.\<close>

definition sequential :: "(addr \<Rightarrow> u8) \<Rightarrow> client \<Rightarrow> bool" where
  "sequential m0 c \<longleftrightarrow> (\<forall>evs a. is_read a \<longrightarrow>
     cl_answer c (evs @ [Switch a]) = read_bytes (contents m0 evs) (act_location a) (act_size a))"

definition goes_on :: "client \<Rightarrow> client \<Rightarrow> bool" where
  "goes_on c c1 \<longleftrightarrow> cl_tid c1 = cl_tid c \<and> cl_answer c1 = cl_answer c \<and> (\<exists>evs. cl_log c1 = cl_log c @ evs)"

lemma goes_on_refl [simp]: "goes_on c c"
  by (simp add: goes_on_def)

lemma goes_on_trans: "goes_on c c1 \<Longrightarrow> goes_on c1 c2 \<Longrightarrow> goes_on c c2"
  by (auto simp: goes_on_def)

lemma goes_on_sequential: "goes_on c c1 \<Longrightarrow> sequential m0 c1 = sequential m0 c"
  by (simp add: goes_on_def sequential_def)

lemma log_events_simps [simp]:
  "cl_log (log_events evs c) = cl_log c @ evs" "cl_mem (log_events evs c) = cl_mem c"
  "cl_tid (log_events evs c) = cl_tid c" "cl_answer (log_events evs c) = cl_answer c"
  by (simp_all add: log_events_def)

lemma fold_races [simp]: "fold after_event (map (\<lambda>i. Race chk t (f i)) is) m = m"
  by (induction "is" arbitrary: m) auto

lemmas access_defs = hand_over_def write_through_def check_bytes_def Let_def goes_on_def stored_by_def is_read_def is_write_def
  action_sized_def

section \<open>Accesses\<close>

locale byte_access =
  fixes ld :: "nat \<Rightarrow> addr \<Rightarrow> client \<Rightarrow> (u64 \<times> client) option"
    and st :: "nat \<Rightarrow> addr \<Rightarrow> u64 \<Rightarrow> client \<Rightarrow> client option"
  assumes ld_law: "sequential m0 c \<Longrightarrow> a \<noteq> 0 \<Longrightarrow> k \<in> widths \<Longrightarrow>
      \<exists>c1. ld (8 * k) a c = Some (take_bit (8 * k) (read_bytes (contents m0 (cl_log c)) a k), c1) \<and> goes_on c c1 \<and>
        contents m0 (cl_log c1) = contents m0 (cl_log c) \<and> cl_mem c1 = cl_mem c"
    and st_law: "a \<noteq> 0 \<Longrightarrow> k \<in> widths \<Longrightarrow>
      \<exists>c1. st (8 * k) a v c = Some c1 \<and> goes_on c c1 \<and>
        contents m0 (cl_log c1) = write_bytes a k (take_bit (8 * k) v) (contents m0 (cl_log c)) \<and>
        cl_mem c1 = write_bytes a k (take_bit (8 * k) v) (cl_mem c)"

lemma order_of_0: "order_of 0 = Some memory_order_relaxed"
  by (simp add: order_of_def orders_def)

interpretation atomic: byte_access "\<lambda>w a. pmc_atomic_load w a 0 pos" "\<lambda>w a v. pmc_atomic_store w a v 0 pos" for pos
  by unfold_locales
    (auto simp: pmc_atomic_load_def pmc_atomic_store_def order_of_0 atomic_load_def atomic_store_def access_defs sequential_def)

interpretation plain: byte_access "\<lambda>w a. pmc_load w a pos" "\<lambda>w a v. pmc_store w a v pos" for pos
  by unfold_locales (auto simp: pmc_load_def pmc_store_def access_defs sequential_def)

end
