(* ===== verification/Pmem_Memory.thy ===== *)
theory Pmem_Memory
  imports Pmem_Bytes
begin

text \<open>
  The loops of the memory functions: what they leave in memory and what they flush.
\<close>

section \<open>Offsets\<close>

lemma apart_offset:
  fixes y d :: addr
  assumes "d = 0 \<or> n \<le> unat d" "unat y < n" "i \<le> unat y"
  shows "i \<le> unat (y - d)"
proof (cases "d = 0")
  case False
  with assms have "unat y < unat d" by linarith
  then have "unat (y - d) = 2 ^ 64 + unat y - unat d"
    using unat_sub_if' [of y d] by simp
  moreover have "unat d < 2 ^ 64" using unat_small [of d] by simp
  ultimately show ?thesis using assms(3) by linarith
qed (use assms in simp)

definition fits :: "u64 \<Rightarrow> bool" where
  "fits n \<longleftrightarrow> unat n + 8 \<le> 2 ^ 32"

lemma offset_of: "unat (ucast (i :: u32) :: u64) = unat i"
proof -
  have "unat i < 2 ^ 64" using unat_small [of i] by simp
  then show ?thesis using take_bit_nat_eq_self [of "unat i" 64] by (simp add: unsigned_ucast_eq)
qed

lemma plus_small:
  assumes "fits n" "ucast (i :: u32) < n" "k \<le> 8"
  shows "unat (i + of_nat k) = unat i + k" "(ucast (i + of_nat k) :: u64) = ucast i + of_nat k"
proof -
  have "unat i < unat n" using assms(2) by (simp add: word_less_nat_alt offset_of)
  then have "unat i + k < 2 ^ 32" using assms(1,3) by (simp add: fits_def)
  moreover have "unat (of_nat k :: u32) = k" using assms(3) by (simp add: unsigned_of_nat take_bit_nat_eq_self)
  ultimately show "unat (i + of_nat k) = unat i + k" by (simp add: unat_add_lem [THEN iffD1])
  moreover have "unat (of_nat k :: u64) = k" using assms(3) by (simp add: unsigned_of_nat take_bit_nat_eq_self)
  then have "unat (ucast i + of_nat k :: u64) = unat i + k"
    using \<open>unat i + k < 2 ^ 32\<close> unat_add_lem [of "ucast i :: u64" "of_nat k"] by (simp add: offset_of)
  ultimately show "(ucast (i + of_nat k) :: u64) = ucast i + of_nat k" by (simp add: word_unat_eq_iff offset_of)
qed

lemma copy_width_cases:
  assumes "fits n" "ucast i < n"
  obtains k where "k \<in> widths" "copy_width dst src n i = of_nat k" "unat i + k \<le> unat n"
proof -
  have "unat i + k \<le> unat n" if "ucast (i + of_nat k) \<le> n" "k \<le> 8" for k
    using that plus_small(1) [OF assms that(2)] by (simp add: word_le_nat_alt offset_of)
  from this [of 8] this [of 4] this [of 2] assms(2) show thesis
    by (intro that [of "unat (copy_width dst src n i)"])
      (auto simp: copy_width_def widths_def word_less_nat_alt offset_of)
qed

lemma fill_width_cases:
  assumes "fits n" "ucast i < n"
  obtains k where "k \<in> widths" "fill_width dst n i = of_nat k" "unat i + k \<le> unat n"
proof -
  have "unat i + k \<le> unat n" if "ucast (i + of_nat k) \<le> n" "k \<le> 8" for k
    using that plus_small(1) [OF assms that(2)] by (simp add: word_le_nat_alt offset_of)
  from this [of 8] this [of 4] this [of 2] assms(2) show thesis
    by (intro that [of "unat (fill_width dst n i)"])
      (auto simp: fill_width_def widths_def word_less_nat_alt offset_of)
qed

lemma width_bits: "k \<in> widths \<Longrightarrow> 8 * unat (of_nat k :: u32) = 8 * k"
  by (auto simp: widths_def)

section \<open>Copying\<close>

text \<open>The first \<open>k\<close> bytes at \<open>dst\<close> are those of \<open>M\<close> at \<open>src\<close>, the others those of \<open>B\<close>.\<close>

definition copied :: "addr \<Rightarrow> addr \<Rightarrow> nat \<Rightarrow> (addr \<Rightarrow> u8) \<Rightarrow> (addr \<Rightarrow> u8) \<Rightarrow> (addr \<Rightarrow> u8)" where
  "copied dst src k M B = (\<lambda>x. if unat (x - dst) < k then M (src + (x - dst)) else B x)"

definition apart :: "addr \<Rightarrow> addr \<Rightarrow> u64 \<Rightarrow> bool" where
  "apart dst src n \<longleftrightarrow> dst = src \<or> n \<le> dst - src"

definition not_null :: "addr \<Rightarrow> u64 \<Rightarrow> bool" where
  "not_null a n \<longleftrightarrow> (\<forall>t < n. a + t \<noteq> 0)"

lemma copied_chunk:
  assumes "apart dst src n" "unat off + k \<le> unat n" "k \<le> 8"
  shows "write_bytes (dst + off) k (take_bit (8 * k) (take_bit (8 * k) (read_bytes (copied dst src (unat off) M M) (src + off) k)))
      (copied dst src (unat off) M B) = copied dst src (unat off + k) M B"
proof
  fix x
  let ?y = "x - dst" and ?v = "take_bit (8 * k) (take_bit (8 * k) (read_bytes (copied dst src (unat off) M M) (src + off) k))"
  have "unat off + k < 2 ^ 64" using assms(2) unat_small [of n] by simp
  note chunk = in_chunk [OF this, of ?y]
  have y: "x - (dst + off) = ?y - off" by simp
  show "write_bytes (dst + off) k ?v (copied dst src (unat off) M B) x = copied dst src (unat off + k) M B x"
  proof (cases "unat (?y - off) < k")
    case True
    let ?j = "unat (?y - off)"
    have "ucast (drop_bit (8 * ?j) ?v) = copied dst src (unat off) M M (src + off + of_nat ?j)"
      using byte_of_read [OF True assms(3)] byte_of_take [OF True assms(3)] by simp
    also have "src + off + of_nat ?j = src + ?y" by simp
    also have "\<not> unat (src + ?y - dst) < unat off"
    proof -
      have "dst - src = 0 \<or> unat n \<le> unat (dst - src)" using assms(1) by (auto simp: apart_def word_le_nat_alt)
      from apart_offset [OF this, of ?y "unat off"] True chunk assms(2) have "unat off \<le> unat (?y - (dst - src))" by linarith
      then show ?thesis by (simp add: algebra_simps)
    qed
    then have "copied dst src (unat off) M M (src + ?y) = M (src + ?y)" by (simp add: copied_def)
    finally show ?thesis using True chunk assms(3) by (simp add: write_bytes_at y copied_def)
  next
    case False
    then show ?thesis using chunk assms(3) by (simp add: write_bytes_at y copied_def)
  qed
qed

context byte_access
begin

lemma copy_step_ok:
  assumes "sequential m0 c" "k \<in> widths" "src + ucast i \<noteq> 0" "dst + ucast i \<noteq> 0"
  shows "\<exists>c1. copy_step ld st (of_nat k) dst src i c = Some c1 \<and> goes_on c c1 \<and>
    contents m0 (cl_log c1) = write_bytes (dst + ucast i) k
      (take_bit (8 * k) (take_bit (8 * k) (read_bytes (contents m0 (cl_log c)) (src + ucast i) k))) (contents m0 (cl_log c)) \<and>
    cl_mem c1 = write_bytes (dst + ucast i) k
      (take_bit (8 * k) (take_bit (8 * k) (read_bytes (contents m0 (cl_log c)) (src + ucast i) k))) (cl_mem c)"
proof -
  from ld_law [OF assms(1,3,2)] obtain c1 where c1: "ld (8 * k) (src + ucast i) c =
      Some (take_bit (8 * k) (read_bytes (contents m0 (cl_log c)) (src + ucast i) k), c1)" "goes_on c c1"
    "contents m0 (cl_log c1) = contents m0 (cl_log c)" "cl_mem c1 = cl_mem c" by blast
  from st_law [OF assms(4,2), of "take_bit (8 * k) (read_bytes (contents m0 (cl_log c)) (src + ucast i) k)" c1 m0] obtain c2 where
    "st (8 * k) (dst + ucast i) (take_bit (8 * k) (read_bytes (contents m0 (cl_log c)) (src + ucast i) k)) c1 = Some c2"
    "goes_on c1 c2" "contents m0 (cl_log c2) = write_bytes (dst + ucast i) k
      (take_bit (8 * k) (take_bit (8 * k) (read_bytes (contents m0 (cl_log c)) (src + ucast i) k))) (contents m0 (cl_log c1))"
    "cl_mem c2 = write_bytes (dst + ucast i) k
      (take_bit (8 * k) (take_bit (8 * k) (read_bytes (contents m0 (cl_log c)) (src + ucast i) k))) (cl_mem c1)" by blast
  with c1 goes_on_trans [OF c1(2)] show ?thesis by (simp add: copy_step_def width_bits [OF assms(2)])
qed

lemma copy_loop_ok:
  assumes n: "fits n" and nz: "not_null src n" "not_null dst n" and apart: "apart dst src n"
    and "sequential m0 c" "unat i \<le> unat n" "contents m0 (cl_log c) = copied dst src (unat i) M M" "cl_mem c = copied dst src (unat i) M B"
  shows "\<exists>c1. copy_loop ld st dst src n i c = Some c1 \<and> goes_on c c1 \<and>
    contents m0 (cl_log c1) = copied dst src (unat n) M M \<and> cl_mem c1 = copied dst src (unat n) M B"
  using assms(5-)
proof (induction "unat n - unat i" arbitrary: i c rule: less_induct)
  case less
  show ?case
  proof (cases "ucast i < n")
    case False
    then have "unat i = unat n" using less.prems(2) by (simp add: word_less_nat_alt offset_of)
    with less.prems False show ?thesis by (subst copy_loop.simps) simp
  next
    case True
    obtain k where k: "k \<in> widths" "copy_width dst src n i = of_nat k" "unat i + k \<le> unat n"
      by (rule copy_width_cases [OF n True])
    have k8: "0 < k" "k \<le> 8" using widths_le [OF k(1)] by auto
    have "src + ucast i \<noteq> 0" "dst + ucast i \<noteq> 0" using nz True by (auto simp: not_null_def)
    from copy_step_ok [OF less.prems(1) k(1) this] obtain c1 where c1:
      "copy_step ld st (of_nat k) dst src i c = Some c1" "goes_on c c1"
      "contents m0 (cl_log c1) = copied dst src (unat i + k) M M" "cl_mem c1 = copied dst src (unat i + k) M B"
      using copied_chunk [OF apart, of "ucast i" k] k(3) k8(2) less.prems(3,4) by (auto simp: offset_of)
    have next_i: "unat (i + of_nat k) = unat i + k" using plus_small [OF n True k8(2)] by simp
    have "unat n - unat (i + of_nat k) < unat n - unat i" "unat (i + of_nat k) \<le> unat n" using next_i k(3) k8(1) by simp_all
    from less.hyps [OF this(1) _ this(2)] c1 next_i less.prems(1) goes_on_sequential [OF c1(2)] obtain c2 where
      "copy_loop ld st dst src n (i + of_nat k) c1 = Some c2" "goes_on c1 c2"
      "contents m0 (cl_log c2) = copied dst src (unat n) M M" "cl_mem c2 = copied dst src (unat n) M B" by auto
    with c1 k(2) True goes_on_trans [OF c1(2)] show ?thesis by (subst copy_loop.simps) auto
  qed
qed

end

section \<open>Flushing\<close>

definition flush_of :: "tid \<Rightarrow> addr \<Rightarrow> client_event" where
  "flush_of t l = Switch \<lparr>act_location = l, act_position = None, act_lastwrite = None, act_time = 0,
     act_cv = None, act_value = VALUE_NONE, act_read_value = VALUE_NONE, act_type = ACTION_CLFLUSHOPT,
     act_order = memory_order_seq_cst, act_tid = t, act_seq = ACTION_INITIAL_CLOCK, act_size = 0,
     act_thread_operand = None\<rparr>"

lemma clflushopt_step: "ptr \<noteq> 0 \<Longrightarrow> pmc_clflushopt ptr c = Some (log_events [flush_of (cl_tid c) ptr] c)"
  by (simp add: pmc_clflushopt_def flush_action_def action_at_def hand_over_def flush_of_def)

text \<open>The lines from \<open>ptr\<close> on that begin before \<open>limit\<close>.\<close>

definition lines_before :: "nat \<Rightarrow> nat \<Rightarrow> addr list" where
  "lines_before limit ptr = map (\<lambda>j. of_nat (ptr + 64 * j)) [0..<(limit - ptr + 63) div 64]"

lemma lines_before_Nil: "limit \<le> ptr \<Longrightarrow> lines_before limit ptr = []"
  by (simp add: lines_before_def)

lemma lines_before_Cons:
  assumes "ptr < limit"
  shows "lines_before limit ptr = of_nat ptr # lines_before limit (ptr + 64)"
proof -
  define k where "k = (limit - (ptr + 64) + 63) div 64"
  have k: "(limit - ptr + 63) div 64 = Suc k" 
  proof (cases "limit \<le> ptr + 64")
    case True
    with assms have "limit - (ptr + 64) = 0" "64 \<le> limit - ptr + 63" "limit - ptr + 63 < 128" by simp_all
    then show ?thesis unfolding k_def by simp
  next
    case False
    define u where "u = limit - (ptr + 64) + 63"
    have u: "limit - ptr + 63 = u + 64" using False by (simp add: u_def)
    have "(u + 64) div 64 = Suc (u div 64)" by simp
    then show ?thesis unfolding k_def u_def [symmetric] u .
  qed
  have split: "map f [0..<Suc k] = f 0 # map (\<lambda>j. f (Suc j)) [0..<k]" for f :: "nat \<Rightarrow> addr"
    by (simp add: upt_conv_Cons map_Suc_upt [symmetric] del: upt_Suc)
  have "ptr + 64 * Suc j = ptr + 64 + 64 * j" for j by simp
  then show ?thesis unfolding lines_before_def k k_def [symmetric] split by simp
qed

lemma flush_lines_ok:
  assumes "unat limit + 64 \<le> 2 ^ 64" "ptr \<noteq> 0"
  shows "flush_lines limit ptr c = Some (log_events (map (flush_of (cl_tid c)) (lines_before (unat limit) (unat ptr))) c)"
  using assms(2)
proof (induction "unat limit - unat ptr" arbitrary: ptr c rule: less_induct)
  case less
  show ?case
  proof (cases "ptr < limit")
    case False
    then show ?thesis by (subst flush_lines.simps) (simp add: lines_before_Nil word_less_nat_alt log_events_def)
  next
    case True
    then have lt: "unat ptr < unat limit" by (simp add: word_less_nat_alt)
    have "unat ptr + unat (64 :: addr) < 2 ^ LENGTH(64)" using lt assms(1) by simp
    then have next_ptr: "unat (ptr + 64) = unat ptr + 64" unfolding unat_add_lem by simp
    have "ptr + 64 \<noteq> 0"
    proof
      assume "ptr + 64 = 0"
      with next_ptr show False by simp
    qed
    from less.hyps [OF _ this, of "log_events [flush_of (cl_tid c) ptr] c"] lt next_ptr
    have "flush_lines limit (ptr + 64) (log_events [flush_of (cl_tid c) ptr] c) =
        Some (log_events (map (flush_of (cl_tid c)) (lines_before (unat limit) (unat ptr + 64))) (log_events [flush_of (cl_tid c) ptr] c))"
      by simp
    with True less.prems lt show ?thesis
      by (subst flush_lines.simps) (simp add: CACHE_LINE_SIZE_def clflushopt_step lines_before_Cons log_events_def)
  qed
qed

text \<open>The lines that \<^verbatim>\<open>pmem_flush\<close> flushes are those with a byte of the range.\<close>

definition lines_of :: "addr \<Rightarrow> u64 \<Rightarrow> addr list" where
  "lines_of address len = lines_before (unat address + unat len) (unat address div 64 * 64)"

lemma lines_of_cover:
  assumes "unat address + unat len \<le> 2 ^ 64" "0 < len"
  shows "set (lines_of address len) = getCacheID ` {x. x - address < len}"
proof -
  let ?a = "unat address" and ?n = "unat len"
  let ?base = "?a div 64 * 64"
  have n0: "0 < ?n" using assms(2) by (simp add: word_less_nat_alt)
  define count where "count = (?a + ?n - ?base + 63) div 64"
  have "(\<lambda>j. ?base + 64 * j) ` {0..<count} = {l. 64 dvd l \<and> ?base \<le> l \<and> l < ?a + ?n}"
  proof (intro set_eqI iffI)
    fix l assume "l \<in> {l. 64 dvd l \<and> ?base \<le> l \<and> l < ?a + ?n}"
    then have "l = ?base + 64 * ((l - ?base) div 64)" "(l - ?base) div 64 < count"
      by (auto simp: count_def elim!: dvdE)
    then show "l \<in> (\<lambda>j. ?base + 64 * j) ` {0..<count}" by (intro image_eqI [of _ _ "(l - ?base) div 64"]) simp_all
  qed (auto simp: count_def)
  then have lines: "set (lines_of address len) = of_nat ` {l. 64 dvd l \<and> ?base \<le> l \<and> l < ?a + ?n}"
    unfolding lines_of_def lines_before_def set_map set_upt count_def [symmetric] by (metis (no_types, lifting) image_cong image_image)
  show ?thesis unfolding lines
  proof (intro set_eqI iffI)
    fix l :: addr
    assume "l \<in> of_nat ` {l. 64 dvd l \<and> ?base \<le> l \<and> l < ?a + ?n}"
    then obtain k where k: "l = of_nat k" "64 dvd k" "?base \<le> k" "k < ?a + ?n" by blast
    have ul: "unat l = k" using k(1,4) assms(1) by (simp add: unsigned_of_nat take_bit_nat_eq_self)
    show "l \<in> getCacheID ` {x. x - address < len}"
    proof (cases "?a \<le> k")
      case True
      then have "address \<le> l" by (simp add: word_le_nat_alt ul)
      then have "unat (l - address) = k - ?a" by (simp add: unat_sub ul)
      then have "l - address < len" using k(4) True by (simp add: word_less_nat_alt)
      moreover have "getCacheID l = l" using k(2) by (simp add: word_unat_eq_iff unat_getCacheID ul)
      ultimately show ?thesis by (intro image_eqI [of _ _ l]) simp_all
    next
      case False
      then have "k = ?base" using k(2,3) by (auto elim!: dvdE)
      then have "getCacheID address = l" by (simp add: word_unat_eq_iff unat_getCacheID ul)
      then show ?thesis using assms(2) by (intro image_eqI [of _ _ address]) simp_all
    qed
  next
    fix l :: addr
    assume "l \<in> getCacheID ` {x. x - address < len}"
    then obtain x where x: "l = getCacheID x" "unat (x - address) < ?n" by (auto simp: word_less_nat_alt)
    have ux: "unat x = ?a + unat (x - address)" by (rule unat_offset [OF x(2) assms(1)])
    have "l = of_nat (unat x div 64 * 64)" unfolding x(1) unat_getCacheID [symmetric] by simp
    moreover have "?base \<le> unat x div 64 * 64" using ux by (simp add: div_le_mono)
    moreover have "unat x div 64 * 64 < ?a + ?n" using ux x(2) by linarith
    ultimately show "l \<in> of_nat ` {l. 64 dvd l \<and> ?base \<le> l \<and> l < ?a + ?n}"
      by (intro image_eqI [of _ _ "unat x div 64 * 64"] CollectI conjI) simp_all
  qed
qed

lemma flush_and_drain_ok:
  assumes "unat dst + unat n + 64 \<le> 2 ^ 64" "64 \<le> dst" "flags AND (PMEM_F_MEM_NODRAIN OR PMEM_F_MEM_NOFLUSH) = 0"
  shows "flush_and_drain flags dst n c =
    Some (log_events (map (flush_of (cl_tid c)) (lines_of dst n) @ [Switch (action_fence CACHE_SFENCE (cl_tid c))]) c)"
proof -
  have "flags AND PMEM_F_MEM_NOFLUSH = 0"
  proof (rule bit_word_eqI)
    fix b :: nat
    have "bit (flags AND (PMEM_F_MEM_NODRAIN OR PMEM_F_MEM_NOFLUSH)) b = bit (0 :: u32) b" by (simp only: assms(3))
    then show "bit (flags AND PMEM_F_MEM_NOFLUSH) b = bit (0 :: u32) b" by (auto simp: bit_simps)
  qed
  moreover have sum: "unat (dst + n) = unat dst + unat n" using assms(1) by (subst unat_add_lem [symmetric]) simp
  moreover have line: "unat (dst AND NOT 63) = unat dst div 64 * 64" by (rule unat_line)
  moreover have "64 \<le> unat dst" using assms(2) by (simp add: word_le_nat_alt)
  then have "dst AND NOT 63 \<noteq> 0" using line by (auto simp: word_unat_eq_iff)
  ultimately show ?thesis using assms flush_lines_ok [of "dst + n" "dst AND NOT 63" c]
    by (simp add: flush_and_drain_def pmem_flush_def CACHE_LINE_SIZE_def lines_of_def pmem_drain_def pmc_sfence_def
        hand_over_def Let_def log_events_def)
qed

section \<open>Filling\<close>

text \<open>The first \<open>k\<close> bytes at \<open>dst\<close> are those of \<open>f\<close>, the others those of \<open>B\<close>.\<close>

definition filled :: "addr \<Rightarrow> nat \<Rightarrow> (addr \<Rightarrow> u8) \<Rightarrow> (addr \<Rightarrow> u8) \<Rightarrow> (addr \<Rightarrow> u8)" where
  "filled dst k f B = (\<lambda>x. if unat (x - dst) < k then f x else B x)"

lemma filled_chunk: "unat off + k < 2 ^ 64 \<Longrightarrow> filled (dst + off) k f (filled dst (unat off) f B) = filled dst (unat off + k) f B"
  using in_chunk [of off k] by (auto simp: filled_def fun_eq_iff diff_diff_eq [symmetric])

text \<open>Whether the aligned word of eight bytes that holds \<open>x\<close> lies in the block.\<close>

definition whole_word :: "addr \<Rightarrow> u64 \<Rightarrow> addr \<Rightarrow> bool" where
  "whole_word dst n x \<longleftrightarrow> unat dst \<le> unat x div 8 * 8 \<and> unat x div 8 * 8 + 8 \<le> unat dst + unat n"

text \<open>
  The loop stores such a word at once and every other byte with a smaller access, which stays
  inside of an aligned word.
\<close>

definition fill_chunk :: "addr \<Rightarrow> u64 \<Rightarrow> addr \<Rightarrow> nat \<Rightarrow> bool" where
  "fill_chunk dst n a k \<longleftrightarrow> unat a mod 8 + k \<le> 8 \<and> (k = 8 \<longleftrightarrow> whole_word dst n a)"

lemma fill_chunk_byte:
  assumes "fill_chunk dst n a k" "unat (x - a) < k"
  shows "unat x = unat a + unat (x - a)" "whole_word dst n x \<longleftrightarrow> k = 8"
    "unat x mod 8 = unat a mod 8 + unat (x - a)"
proof -
  let ?j = "unat (x - a)" and ?m = "unat a mod 8"
  have m: "?m + ?j < 8" using assms by (simp add: fill_chunk_def)
  have a: "unat a = 8 * (unat a div 8) + ?m" by simp
  moreover have "unat a < 2 ^ 64" using unat_small [of a] by simp
  moreover have "8 dvd (2 :: nat) ^ 64" by simp
  ultimately have "unat a div 8 < 2 ^ 61" by (simp add: less_mult_imp_div_less)
  then have "8 * (unat a div 8) + 8 \<le> 2 ^ 64" by simp
  then have "unat a + ?j < 2 ^ 64" using a m by linarith
  then have "unat a + unat (x - a) < 2 ^ LENGTH(64)" by simp
  then have "unat (a + (x - a)) = unat a + ?j" unfolding unat_add_lem .
  then show x: "unat x = unat a + ?j" by simp
  then have x': "unat x = 8 * (unat a div 8) + (?m + ?j)" using a by linarith
  show "unat x mod 8 = ?m + ?j" unfolding x' mod_mult_self4 using m by (rule mod_less)
  have "unat x div 8 = unat a div 8" unfolding x' div_mult_self4 [OF numeral_neq_zero] using m by simp
  then show "whole_word dst n x \<longleftrightarrow> k = 8" using assms(1) by (simp add: whole_word_def fill_chunk_def)
qed

lemma not_null_fits:
  assumes "not_null dst n" "t < n"
  shows "unat (dst + t) = unat dst + unat t"
proof -
  have "unat dst + unat t < 2 ^ 64"
  proof (rule ccontr)
    assume over: "\<not> unat dst + unat t < 2 ^ 64"
    define u where "u = - dst"
    have "dst + u = 0" by (simp add: u_def)
    moreover have "dst \<noteq> 0" using over unat_small [of t] by auto
    then have "unat u = 2 ^ 64 - unat dst" using unat_sub_if' [of 0 dst] by (simp add: u_def word_unat_eq_iff split: if_splits)
    with over assms(2) have "u < n" by (simp add: word_less_nat_alt)
    ultimately show False using assms(1) by (auto simp: not_null_def)
  qed
  then have "unat dst + unat t < 2 ^ LENGTH(64)" by simp
  then show ?thesis unfolding unat_add_lem .
qed

lemma aligned_unat: "(a :: addr) AND 7 = 0 \<longleftrightarrow> unat a mod 8 = 0" "a AND 3 = 0 \<longleftrightarrow> unat a mod 4 = 0" "a AND 1 = 0 \<longleftrightarrow> unat a mod 2 = 0"
proof -
  have m: "(7 :: addr) = mask 3" "(3 :: addr) = mask 2" "(1 :: addr) = mask 1" by (simp_all add: mask_eq_exp_minus_1)
  show "a AND 7 = 0 \<longleftrightarrow> unat a mod 8 = 0" "a AND 3 = 0 \<longleftrightarrow> unat a mod 4 = 0" "a AND 1 = 0 \<longleftrightarrow> unat a mod 2 = 0"
    unfolding m word_unat_eq_iff take_bit_eq_mask [symmetric] unsigned_take_bit_eq by (simp_all add: take_bit_eq_mod)
qed

text \<open>Between two accesses the loop is at an aligned word, or in one that is not whole.\<close>

definition at_word :: "addr \<Rightarrow> u64 \<Rightarrow> addr \<Rightarrow> bool" where
  "at_word dst n a \<longleftrightarrow> unat a mod 8 = 0 \<or> \<not> whole_word dst n a"

lemma fill_width_word:
  assumes n: "fits n" and i: "ucast i < n" and nz: "not_null dst n" and at: "at_word dst n (dst + ucast i)"
  obtains k where "k \<in> widths" "fill_width dst n i = of_nat k" "unat i + k \<le> unat n" "fill_chunk dst n (dst + ucast i) k"
    "unat i + k < unat n \<Longrightarrow> at_word dst n (dst + ucast (i + of_nat k))"
proof -
  let ?a = "dst + ucast i" and ?k = "unat (fill_width dst n i)"
  have ua: "unat ?a = unat dst + unat i" using not_null_fits [OF nz i] by (simp add: offset_of)
  have room: "ucast (i + of_nat k) \<le> n \<longleftrightarrow> unat i + k \<le> unat n" if "k \<le> 8" for k
    using plus_small(1) [OF n i that] by (simp add: word_le_nat_alt offset_of)
  note room' = room [of 8, simplified] room [of 4, simplified] room [of 2, simplified]
  have whole: "whole_word dst n ?a \<longleftrightarrow> unat i + 8 \<le> unat n" if "unat ?a mod 8 = 0"
    using that ua by (auto simp: whole_word_def elim!: dvdE simp flip: dvd_eq_mod_eq_0)
  obtain k where k: "k \<in> widths" "fill_width dst n i = of_nat k" "unat i + k \<le> unat n"
    by (rule fill_width_cases [OF n i])
  have uk: "k = ?k" using k(1,2) by (auto simp: widths_def)
  have mods: "unat ?a mod k = 0" "k = 8 \<or> unat ?a mod 8 \<noteq> 0 \<or> unat n < unat i + 8"
    using i unfolding uk fill_width_def aligned_unat room' by (auto simp: mod_by_1)
  have inside: "unat ?a mod 8 + k \<le> 8"
    using k(1) mods(1) unfolding widths_def by (auto, presburger+)
  have eight: "k = 8 \<longleftrightarrow> whole_word dst n ?a"
    using mods k(3) whole at by (auto simp: at_word_def)
  have chunk: "fill_chunk dst n ?a k" using inside eight by (simp add: fill_chunk_def)
  have "at_word dst n (dst + ucast (i + of_nat k))" if "unat i + k < unat n"
  proof -
    have k8: "0 < k" "k \<le> 8" using widths_le [OF k(1)] by auto
    have ui: "unat (i + of_nat k) = unat i + k" using plus_small(1) [OF n i k8(2)] .
    have "ucast (i + of_nat k) < n" using that ui by (simp add: word_less_nat_alt offset_of)
    from not_null_fits [OF nz this] have ub: "unat (dst + ucast (i + of_nat k)) = unat ?a + k" using ua ui by (simp add: offset_of)
    show ?thesis
    proof (cases "unat ?a mod 8 + k = 8")
      case True
      then have "(unat ?a + k) mod 8 = 0" by (metis mod_add_left_eq mod_self)
      then show ?thesis by (simp add: at_word_def ub)
    next
      case False
      with inside have "(unat ?a + k) div 8 = unat ?a div 8" using div_add1_eq [of "unat ?a" k 8] by simp
      then have "whole_word dst n (dst + ucast (i + of_nat k)) \<longleftrightarrow> whole_word dst n ?a"
        unfolding whole_word_def ub by metis
      moreover have "\<not> whole_word dst n ?a" using False inside eight by auto
      ultimately show ?thesis unfolding at_word_def by blast
    qed
  qed
  with k chunk show thesis by (rule that)
qed

locale byte_fill =
  fixes st :: "nat \<Rightarrow> addr \<Rightarrow> client \<Rightarrow> client option" and dst :: addr and n :: u64 and f :: "addr \<Rightarrow> u8"
  assumes st_law: "a \<noteq> 0 \<Longrightarrow> k \<in> widths \<Longrightarrow> fill_chunk dst n a k \<Longrightarrow>
      \<exists>c1. st (8 * k) a c = Some c1 \<and> goes_on c c1 \<and>
        contents m0 (cl_log c1) = filled a k f (contents m0 (cl_log c)) \<and> cl_mem c1 = filled a k f (cl_mem c)"
begin

lemma fill_from:
  assumes n: "fits n" and nz: "not_null dst n"
    and "unat i \<le> unat n" "unat i < unat n \<Longrightarrow> at_word dst n (dst + ucast i)"
    "contents m0 (cl_log c) = filled dst (unat i) f M" "cl_mem c = filled dst (unat i) f B"
  shows "\<exists>c1. fill_loop st dst n i c = Some c1 \<and> goes_on c c1 \<and>
    contents m0 (cl_log c1) = filled dst (unat n) f M \<and> cl_mem c1 = filled dst (unat n) f B"
  using assms(3-)
proof (induction "unat n - unat i" arbitrary: i c rule: less_induct)
  case less
  show ?case
  proof (cases "ucast i < n")
    case False
    then have "unat i = unat n" using less.prems(1) by (simp add: word_less_nat_alt offset_of)
    with less.prems False show ?thesis by (subst fill_loop.simps) simp
  next
    case True
    then have "at_word dst n (dst + ucast i)" using less.prems(2) by (simp add: word_less_nat_alt offset_of)
    from fill_width_word [OF n True nz this] obtain k where k: "k \<in> widths" "fill_width dst n i = of_nat k" "unat i + k \<le> unat n"
      "fill_chunk dst n (dst + ucast i) k" "unat i + k < unat n \<Longrightarrow> at_word dst n (dst + ucast (i + of_nat k))" by blast
    have k8: "0 < k" "k \<le> 8" using widths_le [OF k(1)] by auto
    have "dst + ucast i \<noteq> 0" using nz True by (auto simp: not_null_def)
    moreover have "unat i + k < 2 ^ 64" using k(3) unat_small [of n] by simp
    ultimately obtain c1 where c1: "st (8 * k) (dst + ucast i) c = Some c1" "goes_on c c1"
      "contents m0 (cl_log c1) = filled dst (unat i + k) f M" "cl_mem c1 = filled dst (unat i + k) f B"
      using st_law [of "dst + ucast i" k c m0] k(1,4) less.prems(3,4) filled_chunk [of "ucast i" k dst f] by (auto simp: offset_of)
    have next_i: "unat (i + of_nat k) = unat i + k" using plus_small [OF n True k8(2)] by simp
    have "unat n - unat (i + of_nat k) < unat n - unat i" "unat (i + of_nat k) \<le> unat n"
      "unat (i + of_nat k) < unat n \<Longrightarrow> at_word dst n (dst + ucast (i + of_nat k))" using next_i k(3,5) k8(1) by simp_all
    from less.hyps [OF this] c1 next_i obtain c2 where
      "fill_loop st dst n (i + of_nat k) c1 = Some c2" "goes_on c1 c2"
      "contents m0 (cl_log c2) = filled dst (unat n) f M" "cl_mem c2 = filled dst (unat n) f B" by auto
    with c1 k(2) True goes_on_trans [OF c1(2)] width_bits [OF k(1)] show ?thesis by (subst fill_loop.simps) auto
  qed
qed

text \<open>The first byte of the block begins an aligned word or lies in one that begins before the block.\<close>

lemma fill_loop_ok:
  assumes "fits n" "not_null dst n"
  shows "\<exists>c1. fill_loop st dst n 0 c = Some c1 \<and> goes_on c c1 \<and>
    contents m0 (cl_log c1) = filled dst (unat n) f (contents m0 (cl_log c)) \<and> cl_mem c1 = filled dst (unat n) f (cl_mem c)"
proof -
  have "at_word dst n dst"
  proof (cases "unat dst mod 8 = 0")
    case False
    then have "unat dst div 8 * 8 < unat dst" by presburger
    then show ?thesis by (simp add: at_word_def whole_word_def)
  qed (simp add: at_word_def)
  then show ?thesis using fill_from [OF assms, of 0] by (simp add: filled_def)
qed

end

text \<open>
  The bits of the patterns.  In the upper half of the 64-bit one, the sign bit of the promoted
  character is spread over all bits.
\<close>

lemma byte_bit: "bit (cs :: u8) b \<Longrightarrow> b < 8"
  using bit_imp_le_length [of cs b] by simp

lemma bit_cs2: "bit (cs2_of cs) b \<longleftrightarrow> b < 16 \<and> bit cs (b mod 8)"
proof (cases "b < 8")
  case True
  then show ?thesis by (auto simp: cs2_of_def bit_simps)
next
  case False
  then have "b < 16 \<Longrightarrow> b mod 8 = b - 8" "\<not> bit cs b" using byte_bit [of cs b] by (auto simp: mod_if)
  then show ?thesis using False by (auto simp: cs2_of_def bit_simps)
qed

definition word32_of :: "u8 \<Rightarrow> u32" where
  "word32_of cs = push_bit 16 (ucast (cs2_of cs)) OR ucast (cs2_of cs)"

lemma bit_word32: "bit (word32_of cs) b \<longleftrightarrow> b < 32 \<and> bit cs (b mod 8)"
proof (cases "b < 16")
  case True
  then show ?thesis by (auto simp: word32_of_def bit_simps bit_cs2)
next
  case False
  then have "(b - 16) mod 8 = b mod 8" using mod_add_self2 [of "b - 16" 8] le_mod_geq [of 8 b] le_mod_geq [of 8 "b - 8"] by simp
  then show ?thesis using False by (auto simp: word32_of_def bit_simps bit_cs2)
qed

lemma bit_pattern64: "bit (pattern64 cs) b \<longleftrightarrow> b < 64 \<and> (bit cs (b mod 8) \<or> (32 \<le> b \<and> bit cs 7))"
proof -
  have cs3: "bit (scast (word32_of cs) :: u64) b \<longleftrightarrow> b < 64 \<and> bit cs (if b < 32 then b mod 8 else 7)" for b
    by (cases "b = 31") (auto simp: bit_simps bit_word32 min_def)
  have up: "32 \<le> b \<Longrightarrow> (b - 32) mod 8 = b mod 8" using mod_mult_self2 [of "b - 32" 8 4] by simp
  have "pattern64 cs = push_bit 32 (scast (word32_of cs)) OR scast (word32_of cs)" by (simp add: pattern64_def word32_of_def Let_def)
  then show ?thesis using up by (auto simp: bit_or_iff bit_push_bit_iff cs3)
qed

lemma pattern64_bytes:
  assumes "j < 8"
  shows "ucast (drop_bit (8 * j) (pattern64 cs)) = (if 4 \<le> j \<and> bit cs 7 then 0xff else cs)"
proof (rule bit_word_eqI)
  fix b assume "b < LENGTH(8)"
  then have b8: "b < 8" by simp
  then have b: "b < 8" "(8 * j + b) mod 8 = b" "8 * j + b < 64" "32 \<le> 8 * j + b \<longleftrightarrow> 4 \<le> j" using assms by (simp, simp, linarith, linarith)
  from b8 have "b \<in> {0, 1, 2, 3, 4, 5, 6, 7}" by auto
  then have "bit (0xff :: u8) b" by auto
  then show "bit (ucast (drop_bit (8 * j) (pattern64 cs)) :: u8) b = bit (if 4 \<le> j \<and> bit cs 7 then 0xff else cs) b"
    using b by (auto simp: bit_simps bit_pattern64)
qed

lemma pattern_bytes:
  "j < 4 \<Longrightarrow> ucast (drop_bit (8 * j) (pattern32 cs)) = cs" "j < 2 \<Longrightarrow> ucast (drop_bit (8 * j) (pattern16 cs)) = cs"
proof -
  assume j: "j < 4"
  have p: "pattern32 cs = ucast (word32_of cs)" by (simp add: pattern32_def word32_of_def)
  show "ucast (drop_bit (8 * j) (pattern32 cs)) = cs"
    unfolding p using j by (intro bit_word_eqI) (auto simp: bit_simps bit_word32)
next
  assume j: "j < 2"
  show "ucast (drop_bit (8 * j) (pattern16 cs)) = cs"
    unfolding pattern16_def using j by (intro bit_word_eqI) (auto simp: bit_simps bit_cs2)
qed

end
