(* ===== verification/Pmem_Claims.thy ===== *)
theory Pmem_Claims
  imports Pmem_Memory
begin

text \<open>
  What the memory functions on persistent memory do, and where they do not do what the
  functions of the C library do.
\<close>

section \<open>The interfaces\<close>

lemma write_pattern:
  assumes "k \<in> widths" "\<And>x. unat (x - a) < k \<Longrightarrow> ucast (drop_bit (8 * unat (x - a)) p) = f x"
  shows "write_bytes a k (take_bit (8 * k) p) m = filled a k f m"
proof
  fix x
  have k: "k \<le> 8" using widths_le [OF assms(1)] by simp
  then show "write_bytes a k (take_bit (8 * k) p) m x = filled a k f m x"
    using assms(2) [of x] byte_of_take [OF _ k, of "unat (x - a)" p] by (simp add: write_bytes_at filled_def)
qed

interpretation zeroing: byte_fill "\<lambda>w a. pmc_store w a 0 pos" dst n "\<lambda>_. 0" for pos dst n
proof unfold_locales
  fix a k c m0 assume a: "a \<noteq> (0 :: addr)" "k \<in> widths"
  have "write_bytes a k (take_bit (8 * k) 0) m = filled a k (\<lambda>_. 0) m" for m by (rule write_pattern [OF a(2)]) simp
  with plain.st_law [OF a, where pos = pos and v = 0 and c = c and ?m0.0 = m0]
  show "\<exists>c1. pmc_store (8 * k) a 0 pos c = Some c1 \<and> goes_on c c1 \<and>
      contents m0 (cl_log c1) = filled a k (\<lambda>_. 0) (contents m0 (cl_log c)) \<and> cl_mem c1 = filled a k (\<lambda>_. 0) (cl_mem c)" by simp
qed

text \<open>
  The byte that \<^verbatim>\<open>memset\<close> leaves at \<open>x\<close>: the character, but 0xff in the upper half of a whole
  aligned word when the character is 128 or more.
\<close>

definition memset_byte :: "addr \<Rightarrow> u64 \<Rightarrow> u8 \<Rightarrow> addr \<Rightarrow> u8" where
  "memset_byte dst n v x = (if whole_word dst n x \<and> 4 \<le> unat x mod 8 \<and> bit v 7 then 0xff else v)"

interpretation memset: byte_fill "memset_store v" dst n "memset_byte dst n v" for v dst n
proof unfold_locales
  fix a k c m0 assume a: "a \<noteq> (0 :: addr)" "k \<in> widths" and chunk: "fill_chunk dst n a k"
  let ?p = "if 8 * k = 64 then pattern64 v else if 8 * k = 32 then pattern32 v else if 8 * k = 16 then pattern16 v else ucast v"
  have one: "ucast (ucast v :: u64) = v" by (rule bit_word_eqI) (auto simp: bit_simps)
  have "ucast (drop_bit (8 * unat (x - a)) ?p) = memset_byte dst n v x" if x: "unat (x - a) < k" for x
  proof -
    have "k = 8 \<Longrightarrow> unat a mod 8 = 0" using chunk by (simp add: fill_chunk_def)
    then show ?thesis
      using x a(2) fill_chunk_byte(2,3) [OF chunk x] pattern64_bytes [of "unat (x - a)" v] pattern_bytes [of "unat (x - a)" v] one
      by (auto simp: widths_def memset_byte_def)
  qed
  then have "write_bytes a k (take_bit (8 * k) ?p) m = filled a k (memset_byte dst n v) m" for m by (rule write_pattern [OF a(2)])
  with atomic.st_law [OF a, where pos = "''memset''" and v = ?p and c = c and ?m0.0 = m0]
  show "\<exists>c1. memset_store v (8 * k) a c = Some c1 \<and> goes_on c c1 \<and>
      contents m0 (cl_log c1) = filled a k (memset_byte dst n v) (contents m0 (cl_log c)) \<and>
      cl_mem c1 = filled a k (memset_byte dst n v) (cl_mem c)"
    unfolding memset_store_def by simp
qed

section \<open>Copying\<close>

lemma start_copied: "copied dst src (unat (0 :: u32)) M B = B"
  by (simp add: copied_def fun_eq_iff)

lemma persist_flags_both: "persist_flags AND (PMEM_F_MEM_NODRAIN OR PMEM_F_MEM_NOFLUSH) = 0"
  unfolding persist_flags_def by (rule bit_word_eqI) (auto simp: bit_simps)

lemma not_nullI: "a \<noteq> 0 \<Longrightarrow> unat a + unat n \<le> 2 ^ 64 \<Longrightarrow> not_null a n"
  unfolding not_null_def
proof (intro allI impI notI)
  fix t assume a: "a \<noteq> 0" "unat a + unat n \<le> 2 ^ 64" "t < n" "a + t = 0"
  then have "unat a + unat t < 2 ^ LENGTH(64)" by (simp add: word_less_nat_alt)
  then have "unat (a + t) = unat a + unat t" unfolding unat_add_lem .
  with a(1,4) show False by (simp add: unat_eq_zero)
qed

text \<open>
  C10: \<^verbatim>\<open>pmem_memcpy_persist\<close> returns and leaves at the destination the bytes that were at
  the source, in the memory that loads see, even when the two overlap, unless the destination
  begins inside of the source; it changes no other byte.  After its last store it flushes
  exactly the cache lines that have a byte of the destination, and then executes a store fence.
\<close>
theorem pmem_memcpy_persists:
  assumes "sequential m0 c" "fits n" "0 < n" "not_null src n" "apart dst src n"
    "64 \<le> dst" "unat dst + unat n + 64 \<le> 2 ^ 64"
  shows "\<exists>c1 evs lines. pmem_memcpy_persist dst src n c = Some (dst, c1) \<and>
    cl_log c1 = cl_log c @ evs @ map (flush_of (cl_tid c)) lines @ [Switch (action_fence CACHE_SFENCE (cl_tid c))] \<and>
    contents m0 (cl_log c @ evs) =
      (\<lambda>x. if x - dst < n then contents m0 (cl_log c) (src + (x - dst)) else contents m0 (cl_log c) x) \<and>
    set lines = getCacheID ` {x. x - dst < n}"
proof -
  have nz: "not_null dst n"
    using assms(6,7) by (intro not_nullI) (auto simp: word_le_nat_alt)
  from atomic.copy_loop_ok [OF assms(2,4) nz assms(5,1), where pos = "''memcpy''" and i = 0 and M = "contents m0 (cl_log c)" and B = "cl_mem c"] start_copied
  obtain c1 where c1: "copy_loop (\<lambda>w a. pmc_atomic_load w a 0 ''memcpy'') (\<lambda>w a v. pmc_atomic_store w a v 0 ''memcpy'') dst src n 0 c = Some c1"
    "goes_on c c1" "contents m0 (cl_log c1) = copied dst src (unat n) (contents m0 (cl_log c)) (contents m0 (cl_log c))" by auto
  then obtain evs where evs: "cl_log c1 = cl_log c @ evs" "cl_tid c1 = cl_tid c" by (auto simp: goes_on_def)
  from flush_and_drain_ok [OF assms(7,6) persist_flags_both, of c1] c1(1) have
    run: "pmem_memcpy_persist dst src n c = Some (dst, log_events (map (flush_of (cl_tid c)) (lines_of dst n) @ [Switch (action_fence CACHE_SFENCE (cl_tid c))]) c1)"
    using evs(2) by (simp add: pmem_memcpy_persist_def pmem_memcpy_def)
  show ?thesis
    using run c1(3) evs lines_of_cover [of dst n] assms(3,7) by (force simp: copied_def word_less_nat_alt)
qed

text \<open>A client whose checker answers like a memory that holds \<open>m0\<close> at first.\<close>

definition memory_client :: "(addr \<Rightarrow> u8) \<Rightarrow> client" where
  "memory_client m0 = \<lparr>cl_tid = 1, cl_mem = m0, cl_log = [],
     cl_answer = (\<lambda>evs. case rev evs of
         Switch a # earlier \<Rightarrow> read_bytes (contents m0 (rev earlier)) (act_location a) (act_size a)
       | _ \<Rightarrow> 0)\<rparr>"

lemma memory_client: "sequential m0 (memory_client m0)" "cl_log (memory_client m0) = []" "cl_mem (memory_client m0) = m0"
  by (simp_all add: sequential_def memory_client_def)

lemma contents_Nil: "contents m0 [] = m0"
  by (simp add: contents_def)

theorem pmem_memcpy_persists_witness:
  "\<exists>c1 evs lines. pmem_memcpy_persist 0x1003 0x2001 200 (memory_client ucast) = Some (0x1003, c1) \<and>
    contents ucast evs 0x1007 = 5 \<and> set lines = getCacheID ` {x. x - 0x1003 < 200}"
proof -
  have "sequential ucast (memory_client ucast)" "fits 200" "(0::u64) < 200" "not_null 0x2001 200" "apart 0x1003 0x2001 200"
    "(64::u64) \<le> 0x1003" "unat (0x1003::u64) + unat (200::u64) + 64 \<le> 2 ^ 64"
    by (simp_all add: memory_client fits_def apart_def not_nullI)
  from pmem_memcpy_persists [OF this, unfolded memory_client append_Nil contents_Nil] obtain c1 evs lines where
    "pmem_memcpy_persist 0x1003 0x2001 200 (memory_client ucast) = Some (0x1003, c1)"
    "contents ucast evs = (\<lambda>x. if x - 0x1003 < 200 then ucast (0x2001 + (x - 0x1003)) else ucast x)"
    "set lines = getCacheID ` {x. x - 0x1003 < 200}"
    by blast
  then show ?thesis by (intro exI [of _ c1] exI [of _ evs] exI [of _ lines]) simp
qed

text \<open>
  A copy of 4 GiB or more never returns, since the offset is a 32-bit number.
\<close>

theorem copy_loop_wraps:
  assumes "2 ^ 32 \<le> n"
  shows "copy_loop ld st dst src n i c = None"
proof (rule ccontr)
  assume "copy_loop ld st dst src n i c \<noteq> None"
  then obtain c1 where run: "copy_loop ld st dst src n i c = Some c1" by blast
  have "n < 2 ^ 32"
  proof (rule copy_loop.raw_induct [where P = "\<lambda>ld st dst src n i c c1. n < 2 ^ 32", OF _ run])
    fix loop :: "(nat \<Rightarrow> addr \<Rightarrow> client \<Rightarrow> (u64 \<times> client) option) \<Rightarrow> (nat \<Rightarrow> addr \<Rightarrow> u64 \<Rightarrow> client \<Rightarrow> client option) \<Rightarrow> addr \<Rightarrow> addr \<Rightarrow> u64 \<Rightarrow> u32 \<Rightarrow> client \<Rightarrow> client option"
      and ld :: "nat \<Rightarrow> addr \<Rightarrow> client \<Rightarrow> (u64 \<times> client) option" and st :: "nat \<Rightarrow> addr \<Rightarrow> u64 \<Rightarrow> client \<Rightarrow> client option"
      and dst src :: addr and n :: u64 and i :: u32 and c c1 :: client
    assume IH: "\<And>ld st dst src n i c c1. loop ld st dst src n i c = Some c1 \<Longrightarrow> n < 2 ^ 32"
      and step: "(if ucast i < n then Option.bind (copy_step ld st (copy_width dst src n i) dst src i c)
          (loop ld st dst src n (i + copy_width dst src n i)) else Some c) = Some c1"
    show "n < 2 ^ 32"
    proof (cases "ucast i < n")
      case True
      with step IH show ?thesis by (auto split: bind_splits)
    next
      case False
      then have "unat n \<le> unat i" by (simp add: word_less_nat_alt offset_of)
      then have "unat n < 2 ^ 32" using unat_small [of i] by simp
      then show ?thesis by (simp add: word_less_nat_alt)
    qed
  qed
  with assms show False by simp
qed

section \<open>Filling\<close>

lemma fill_start:
  assumes "is_pmem r dst"
  shows "c_memset r False memset_real dst ch n c =
    map_option (\<lambda>c1. (dst, c1)) (fill_loop (memset_store (ucast (ch AND 0xff))) dst n 0 c)"
proof -
  have "PMEM_F_MEM_NOFLUSH AND PMEM_F_MEM_NOFLUSH \<noteq> 0"
    "PMEM_F_MEM_NOFLUSH AND (PMEM_F_MEM_NODRAIN OR PMEM_F_MEM_NOFLUSH) \<noteq> 0"
    by (simp_all add: PMEM_F_MEM_NOFLUSH_def PMEM_F_MEM_NODRAIN_def)
  with assms show ?thesis by (simp add: c_memset_def pmem_memset_def flush_and_drain_def Let_def map_conv_bind_option comp_def)
qed

lemma character_byte: "ucast (ch AND 0xff :: u32) = (ucast ch :: u8)"
proof -
  have m: "(0xff :: u32) = mask 8" by (simp add: mask_eq_exp_minus_1)
  show ?thesis unfolding m by (rule bit_word_eqI) (auto simp: bit_simps)
qed

lemma memset_run:
  assumes "is_pmem r dst" "fits n" "not_null dst n"
  shows "\<exists>c1. c_memset r False memset_real dst ch n c = Some (dst, c1) \<and>
    contents m0 (cl_log c1) = (\<lambda>x. if x - dst < n then memset_byte dst n (ucast ch) x else contents m0 (cl_log c) x)"
proof -
  from memset.fill_loop_ok [OF assms(2,3), of "ucast ch" c m0] obtain c1 where
    "fill_loop (memset_store (ucast ch)) dst n 0 c = Some c1"
    "contents m0 (cl_log c1) = filled dst (unat n) (memset_byte dst n (ucast ch)) (contents m0 (cl_log c))" by blast
  then show ?thesis by (simp add: fill_start [OF assms(1)] character_byte filled_def word_less_nat_alt)
qed

text \<open>
  C24: \<^verbatim>\<open>memset\<close> on persistent memory, with a character below 128, returns and sets every
  byte of the block to the character and changes no other byte.
\<close>
theorem memset_fills:
  assumes "is_pmem r dst" "fits n" "not_null dst n" "\<not> bit ch 7"
  shows "\<exists>c1. c_memset r False memset_real dst ch n c = Some (dst, c1) \<and>
    contents m0 (cl_log c1) = (\<lambda>x. if x - dst < n then ucast ch else contents m0 (cl_log c) x)"
proof -
  have "memset_byte dst n (ucast ch) = (\<lambda>_. ucast ch)" using assms(4) by (simp add: memset_byte_def fun_eq_iff bit_simps)
  with memset_run [OF assms(1-3), of memset_real ch c m0] show ?thesis by (elim exE) auto
qed

definition pm_regions :: regions where
  "pm_regions = \<lparr>persistentMemoryRegion = 0x1000, altRegion = 0, altSize = 0\<rparr>"

lemma pm_regions: "is_pmem pm_regions 0x1005" "is_pmem pm_regions 0x1008"
  by (simp_all add: is_pmem_def pm_regions_def PERSISTENT_MEMORY_DEFAULT_def)

theorem memset_fills_witness:
  "\<exists>c1. c_memset pm_regions False None 0x1005 0x41 100 (memory_client ucast) = Some (0x1005, c1) \<and>
    contents ucast (cl_log c1) 0x1010 = 0x41"
proof -
  have "is_pmem pm_regions 0x1005" "fits 100" "not_null 0x1005 100" "\<not> bit (0x41 :: u32) 7"
    by (simp_all add: pm_regions fits_def not_nullI)
  from memset_fills [OF this, of None "memory_client ucast" ucast] show ?thesis by auto
qed

text \<open>
  C26: With a character of 128 or more, \<^verbatim>\<open>memset\<close> on persistent memory returns, but sets the
  upper four bytes of each aligned word of eight bytes that lies in the block to 0xff, whatever
  the character: the character shifted left is a negative \<^verbatim>\<open>int\<close>, which is sign-extended.
  The other bytes of the block are set to the character, and no other byte is changed.
\<close>
theorem memset_sign_extends:
  assumes "is_pmem r dst" "fits n" "not_null dst n" "bit ch 7"
  shows "\<exists>c1. c_memset r False memset_real dst ch n c = Some (dst, c1) \<and>
    contents m0 (cl_log c1) = (\<lambda>x.
      if x - dst < n then
        if unat dst \<le> unat x div 8 * 8 \<and> unat x div 8 * 8 + 8 \<le> unat dst + unat n \<and> 4 \<le> unat x mod 8 then 0xff else ucast ch
      else contents m0 (cl_log c) x)"
proof -
  have "bit (ucast ch :: u8) 7" using assms(4) by (simp add: bit_simps)
  then have "memset_byte dst n (ucast ch) x = (if unat dst \<le> unat x div 8 * 8 \<and> unat x div 8 * 8 + 8 \<le> unat dst + unat n \<and>
      4 \<le> unat x mod 8 then 0xff else ucast ch)" for x by (simp add: memset_byte_def whole_word_def conj_assoc)
  with memset_run [OF assms(1-3), of memset_real ch c m0] show ?thesis by (elim exE) auto
qed

theorem memset_sign_extends_witness:
  "\<exists>c1. c_memset pm_regions False None 0x1005 0x80 30 (memory_client ucast) = Some (0x1005, c1) \<and>
    contents ucast (cl_log c1) 0x1007 = 0x80 \<and> contents ucast (cl_log c1) 0x100b = 0x80 \<and>
    contents ucast (cl_log c1) 0x100c = 0xff \<and> contents ucast (cl_log c1) 0x101f = 0xff \<and>
    contents ucast (cl_log c1) 0x1022 = 0x80 \<and> contents ucast (cl_log c1) 0x1023 = 0x23"
proof -
  have "is_pmem pm_regions 0x1005" "fits 30" "not_null 0x1005 30" "bit (0x80 :: u32) 7"
    by (simp_all add: pm_regions fits_def not_nullI)
  from memset_sign_extends [OF this, of None "memory_client ucast" ucast] show ?thesis
    by (auto simp: memory_client contents_Nil)
qed

section \<open>Strings\<close>

text \<open>
  \<^verbatim>\<open>strcpy\<close> to persistent memory copies the characters of the string and leaves the byte
  after them as it was, so that the copy is not terminated.
\<close>
theorem strcpy_drops_terminator:
  assumes "is_pmem r dst" "string_end (cl_mem c) src 0 = Some n"
    "sequential m0 c" "contents m0 (cl_log c) = cl_mem c" "fits n" "not_null src n" "not_null dst n" "apart dst src n"
  shows "\<exists>c1. c_strcpy r False strcpy_real dst src c = Some (dst, c1) \<and>
    contents m0 (cl_log c1) = (\<lambda>x. if x - dst < n then cl_mem c (src + (x - dst)) else cl_mem c x) \<and>
    contents m0 (cl_log c1) (dst + n) = cl_mem c (dst + n)"
proof -
  from plain.copy_loop_ok [OF assms(5-8,3), where pos = "''strcpy''" and i = 0 and M = "contents m0 (cl_log c)" and B = "cl_mem c"] start_copied
  obtain c1 where c1: "copy_loop (\<lambda>w a. pmc_load w a ''strcpy'') (\<lambda>w a v. pmc_store w a v ''strcpy'') dst src n 0 c = Some c1"
    "contents m0 (cl_log c1) = copied dst src (unat n) (cl_mem c) (cl_mem c)"
    using assms(4) by auto
  then show ?thesis using assms(1,2) by (simp add: c_strcpy_def copied_def word_less_nat_alt)
qed

theorem strcpy_drops_terminator_witness:
  "\<exists>c1. c_strcpy pm_regions False None 0x1008 0x2000 (memory_client (\<lambda>x. if x = 0x2000 \<or> x = 0x2001 then 97 else if x = 0x2002 then 0 else 7))
      = Some (0x1008, c1) \<and>
    contents (\<lambda>x. if x = 0x2000 \<or> x = 0x2001 then 97 else if x = 0x2002 then 0 else 7) (cl_log c1) (0x1008 + 2) = 7"
proof -
  let ?m = "\<lambda>x :: addr. if x = 0x2000 \<or> x = 0x2001 then 97 else if x = 0x2002 then 0 else (7 :: u8)"
  have "string_end ?m 0x2000 0 = Some 2"
    by (subst string_end.simps, simp, subst string_end.simps, simp, subst string_end.simps, simp)
  then have len: "string_end (cl_mem (memory_client ?m)) 0x2000 0 = Some 2" by (simp only: memory_client)
  have same: "contents ?m (cl_log (memory_client ?m)) = cl_mem (memory_client ?m)" by (simp only: memory_client contents_Nil)
  have range: "fits 2" "not_null 0x2000 2" "not_null 0x1008 2" "apart 0x1008 0x2000 2"
    by (simp_all add: fits_def apart_def not_nullI)
  from strcpy_drops_terminator [OF pm_regions(2) len memory_client(1) same range, of None] show ?thesis
    by (auto simp: memory_client)
qed

end
