(* ===== verification/Persist_Race.thy ===== *)
theory Persist_Race
  imports Machine
begin

text \<open>
  \<^verbatim>\<open>Plugins/persistrace.cc\<close> and \<^verbatim>\<open>Plugins/analysis.cc\<close>: the analysis that looks for
  persistency races, non-atomic writes before a crash that a load after it may read although
  no flush is known to have made them persistent.  The execution calls the analysis at the
  events that the machine records; \<open>acts\<close> are the actions as they are at the call.  The hash
  tables of the class are maps here.
\<close>

section \<open>State\<close>

record line_meta =
  lm_lastFlush :: modelclock
  lm_lastWrites :: "aid option list"

text \<open>A message of the analysis, with the values that it prints.\<close>

record race_report =
  rr_error :: bool
  rr_seq :: modelclock
  rr_execution :: eid
  rr_address :: addr
  rr_location :: string
  rr_read_address :: addr
  rr_read_location :: string

record persist_race =
  pr_cachelineMetaSet :: "eid \<times> addr \<rightharpoonup> line_meta"
  pr_beginRangeCV :: "eid \<rightharpoonup> clock_vector"
  pr_flushmap :: "aid \<rightharpoonup> aid option list"
  pr_pendingclwbs :: "aid list"
  pr_num_crash_injection_points :: nat
  pr_errorSet :: "string list"
  pr_warningSet :: "string list"
  pr_num_total_bugs :: nat
  pr_num_total_warnings :: nat
  pr_messages :: "race_report list"

definition PersistRace :: persist_race where
  "PersistRace = \<lparr>pr_cachelineMetaSet = Map.empty, pr_beginRangeCV = Map.empty, pr_flushmap = Map.empty,
     pr_pendingclwbs = [], pr_num_crash_injection_points = 0, pr_errorSet = [], pr_warningSet = [],
     pr_num_total_bugs = 0, pr_num_total_warnings = 0, pr_messages = []\<rparr>"

definition CacheLineMetaData :: line_meta where
  "CacheLineMetaData = \<lparr>lm_lastFlush = 0, lm_lastWrites = replicate 64 None\<rparr>"

definition WRITEINDEX :: "addr \<Rightarrow> nat" where
  "WRITEINDEX address = unat (address AND (CACHELINESIZE - 1))"

definition mergeLastFlush :: "modelclock \<Rightarrow> line_meta \<Rightarrow> line_meta" where
  "mergeLastFlush lf m = (if lf > lm_lastFlush m then m\<lparr>lm_lastFlush := lf\<rparr> else m)"

definition getOrCreateCacheLineMeta :: "eid \<Rightarrow> addr \<Rightarrow> persist_race \<Rightarrow> line_meta \<times> persist_race" where
  "getOrCreateCacheLineMeta e cacheid pr =
     (case pr_cachelineMetaSet pr (e, cacheid) of
        Some m \<Rightarrow> (m, pr)
      | None \<Rightarrow> (CacheLineMetaData,
          pr\<lparr>pr_cachelineMetaSet := (pr_cachelineMetaSet pr)((e, cacheid) \<mapsto> CacheLineMetaData)\<rparr>))"

definition put_meta :: "eid \<Rightarrow> addr \<Rightarrow> line_meta \<Rightarrow> persist_race \<Rightarrow> persist_race" where
  "put_meta e cacheid m pr = pr\<lparr>pr_cachelineMetaSet := (pr_cachelineMetaSet pr)((e, cacheid) \<mapsto> m)\<rparr>"

section \<open>Reports\<close>

text \<open>
  The key of a report is the position of the write in the source; a position without a colon
  is that of a library function, and the address is appended, as \<open>pointer_text\<close> prints it.
\<close>

definition computeErrorKey :: "(addr \<Rightarrow> string) \<Rightarrow> model_action \<Rightarrow> string \<Rightarrow> string" where
  "computeErrorKey pointer_text wrt position =
     (if list_ex (\<lambda>ch. ch = CHR '':'') position then position else position @ pointer_text (act_location wrt))"

definition add_warning :: "bool \<Rightarrow> eid \<Rightarrow> model_action \<Rightarrow> string \<Rightarrow> model_action \<Rightarrow> string \<Rightarrow> race_report" where
  "add_warning error exec wrt pos rd rpos = \<lparr>rr_error = error, rr_seq = act_seq wrt, rr_execution = exec,
     rr_address = act_location wrt, rr_location = pos, rr_read_address = act_location rd, rr_read_location = rpos\<rparr>"

definition ERROR :: "(addr \<Rightarrow> string) \<Rightarrow> (aid \<Rightarrow> model_action) \<Rightarrow> eid \<Rightarrow> aid \<Rightarrow> model_action \<Rightarrow> persist_race \<Rightarrow> persist_race option" where
  "ERROR pointer_text acts e wrt rd pr = do {
     pos \<leftarrow> act_position (acts wrt);
     let position = computeErrorKey pointer_text (acts wrt) pos;
     pr1 \<leftarrow> (if position \<in> set (pr_errorSet pr) then Some pr
            else do {
              rpos \<leftarrow> act_position rd;
              Some (pr\<lparr>pr_messages := pr_messages pr @ [add_warning True e (acts wrt) pos rd rpos],
                pr_errorSet := pr_errorSet pr @ [position]\<rparr>)
            });
     Some (pr1\<lparr>pr_num_total_bugs := pr_num_total_bugs pr1 + 1\<rparr>)
   }"

definition WARNING :: "(addr \<Rightarrow> string) \<Rightarrow> (aid \<Rightarrow> model_action) \<Rightarrow> eid \<Rightarrow> aid \<Rightarrow> model_action \<Rightarrow> persist_race \<Rightarrow> persist_race option" where
  "WARNING pointer_text acts e wrt rd pr = do {
     pos \<leftarrow> act_position (acts wrt);
     let position = computeErrorKey pointer_text (acts wrt) pos;
     pr1 \<leftarrow> (if position \<in> set (pr_warningSet pr) then Some pr
            else do {
              rpos \<leftarrow> act_position rd;
              Some (pr\<lparr>pr_messages := pr_messages pr @ [add_warning False e (acts wrt) pos rd rpos],
                pr_warningSet := pr_warningSet pr @ [position]\<rparr>)
            });
     Some (pr1\<lparr>pr_num_total_warnings := pr_num_total_warnings pr1 + 1\<rparr>)
   }"

section \<open>Flushes of a write\<close>

definition flushExistsBeforeCV :: "(aid \<Rightarrow> model_action) \<Rightarrow> aid \<Rightarrow> clock_vector option \<Rightarrow> persist_race \<Rightarrow> bool" where
  "flushExistsBeforeCV acts write cv pr =
     (case pr_flushmap pr write of
        None \<Rightarrow> False
      | Some flushVect \<Rightarrow> list_ex (\<lambda>existingFlush. case existingFlush of
            None \<Rightarrow> False
          | Some fl \<Rightarrow> (case cv of None \<Rightarrow> True
              | Some c \<Rightarrow> cv_synchronized_since c (act_tid (acts fl)) (act_seq (acts fl)))) flushVect)"

definition updateFlushVector :: "(aid \<Rightarrow> model_action) \<Rightarrow> aid \<Rightarrow> aid \<Rightarrow> persist_race \<Rightarrow> persist_race" where
  "updateFlushVector acts write flush pr =
     (let flushVect = (case pr_flushmap pr write of None \<Rightarrow> [] | Some v \<Rightarrow> v);
          index = act_tid (acts flush)
      in pr\<lparr>pr_flushmap := (pr_flushmap pr)(write \<mapsto> (grow None (index + 1) flushVect)[index := Some flush])\<rparr>)"

section \<open>The calls of the execution\<close>

text \<open>A flush leaves the store buffer, or a \<^verbatim>\<open>clflushopt\<close> the flush buffer.\<close>

fun flush_writes :: "(aid \<Rightarrow> model_action) \<Rightarrow> aid \<Rightarrow> aid option list \<Rightarrow> aid option \<Rightarrow> persist_race \<Rightarrow> persist_race" where
  "flush_writes acts flush [] prevWrite pr = pr"
| "flush_writes acts flush (write # ws) prevWrite pr =
     (case write of
        None \<Rightarrow> flush_writes acts flush ws prevWrite pr
      | Some w \<Rightarrow>
          (if prevWrite \<noteq> Some w \<and> happens_before (acts w) (acts flush) then
             flush_writes acts flush ws (Some w)
               (if flushExistsBeforeCV acts w (act_cv (acts flush)) pr then pr else updateFlushVector acts w flush pr)
           else flush_writes acts flush ws prevWrite pr))"

definition evictFlushBufferAnalysis :: "(aid \<Rightarrow> model_action) \<Rightarrow> eid \<Rightarrow> aid \<Rightarrow> persist_race \<Rightarrow> persist_race option" where
  "evictFlushBufferAnalysis acts e flush pr =
     (if \<not> (is_cache_op (acts flush) \<and> act_cv (acts flush) \<noteq> None) then None
      else if is_clflush (acts flush) then
        (let pr1 = pr\<lparr>pr_num_crash_injection_points := pr_num_crash_injection_points pr + 1\<rparr>;
             (clmetadata, pr2) = getOrCreateCacheLineMeta e (getCacheID (act_location (acts flush))) pr1
         in Some (flush_writes acts flush (lm_lastWrites clmetadata) None pr2))
      else Some (pr\<lparr>pr_pendingclwbs := pr_pendingclwbs pr @ [flush]\<rparr>))"

text \<open>A write leaves the store buffer; it may reach into the next cache line.\<close>

definition write_range :: "addr \<Rightarrow> nat \<Rightarrow> addr list" where
  "write_range address wsize =
     (if address < address + of_nat wsize then map (\<lambda>i. address + of_nat i) [0..<wsize] else [])"

fun note_writes :: "eid \<Rightarrow> aid \<Rightarrow> addr \<Rightarrow> addr list \<Rightarrow> addr \<Rightarrow> persist_race \<Rightarrow> persist_race" where
  "note_writes e action currCacheID [] line pr = pr"
| "note_writes e action currCacheID (currAddr # as) line pr =
     (let line' = (if getCacheID currAddr \<noteq> currCacheID then getCacheID currAddr else line);
          (clmetadata, pr1) = getOrCreateCacheLineMeta e line' pr;
          m = clmetadata\<lparr>lm_lastWrites := (lm_lastWrites clmetadata)[WRITEINDEX currAddr := Some action]\<rparr>
      in note_writes e action currCacheID as line' (put_meta e line' m pr1))"

definition evictStoreBufferAnalysis :: "(aid \<Rightarrow> model_action) \<Rightarrow> eid \<Rightarrow> aid \<Rightarrow> persist_race \<Rightarrow> persist_race" where
  "evictStoreBufferAnalysis acts e action pr =
     (if is_write (acts action) then
        (let address = act_location (acts action);
             currCacheID = getCacheID address;
             (_, pr1) = getOrCreateCacheLineMeta e currCacheID pr
         in note_writes e action currCacheID (write_range address (act_size (acts action))) currCacheID pr1)
      else pr)"

text \<open>The writes that a load may read; a missing write cannot be followed.\<close>

definition check_slot :: "(addr \<Rightarrow> string) \<Rightarrow> (aid \<Rightarrow> model_action) \<Rightarrow> eid \<Rightarrow> model_action \<Rightarrow> nat \<Rightarrow> write_slot \<Rightarrow>
    persist_race \<Rightarrow> persist_race option" where
  "check_slot pointer_text acts currExecution rd i slot pr = do {
     (execution, wrt) \<leftarrow> slot;
     (if currExecution \<noteq> execution \<and> \<not> is_atomic_write (acts wrt) then do {
        let currAddr = act_location rd + of_nat i;
        let (clmetadata, pr1) = getOrCreateCacheLineMeta execution (getCacheID currAddr) pr;
        let brCV = pr_beginRangeCV pr1 execution;
        let flushExist = (case brCV of None \<Rightarrow> False | Some cv \<Rightarrow> flushExistsBeforeCV acts wrt (Some cv) pr1);
        pr2 \<leftarrow> (if \<not> flushExist \<and> act_seq (acts wrt) > lm_lastFlush clmetadata
               then ERROR pointer_text acts execution wrt rd pr1 else Some pr1);
        let flushExist' = flushExistsBeforeCV acts wrt None pr2;
        (if \<not> flushExist' \<and> act_seq (acts wrt) > lm_lastFlush clmetadata
         then WARNING pointer_text acts execution wrt rd pr2 else Some pr2)
      } else Some pr)
   }"

fun check_slots :: "(addr \<Rightarrow> string) \<Rightarrow> (aid \<Rightarrow> model_action) \<Rightarrow> eid \<Rightarrow> model_action \<Rightarrow> nat list \<Rightarrow> write_vec \<Rightarrow>
    persist_race \<Rightarrow> persist_race option" where
  "check_slots pointer_text acts currExecution rd [] writeVec pr = Some pr"
| "check_slots pointer_text acts currExecution rd (i # is) writeVec pr =
     (if i \<ge> length writeVec then None else do {
        pr1 \<leftarrow> check_slot pointer_text acts currExecution rd i (writeVec ! i) pr;
        check_slots pointer_text acts currExecution rd is writeVec pr1
      })"

fun mayReadFromAnalysis :: "(addr \<Rightarrow> string) \<Rightarrow> (aid \<Rightarrow> model_action) \<Rightarrow> eid \<Rightarrow> model_action \<Rightarrow> write_vec list \<Rightarrow>
    persist_race \<Rightarrow> persist_race option" where
  "mayReadFromAnalysis pointer_text acts currExecution rd [] pr = Some pr"
| "mayReadFromAnalysis pointer_text acts currExecution rd (writeVec # rf_set) pr = do {
     pr1 \<leftarrow> check_slots pointer_text acts currExecution rd [0..<act_size rd] writeVec pr;
     mayReadFromAnalysis pointer_text acts currExecution rd rf_set pr1
   }"

definition persistUntilAction :: "(aid \<Rightarrow> model_action) \<Rightarrow> eid \<Rightarrow> aid \<Rightarrow> persist_race \<Rightarrow> persist_race" where
  "persistUntilAction acts e action pr =
     (case pr_beginRangeCV pr e of
        None \<Rightarrow> pr\<lparr>pr_beginRangeCV := (pr_beginRangeCV pr)(e \<mapsto> cv_new None (Some (act_tid (acts action), act_seq (acts action))))\<rparr>
      | Some beginRange \<Rightarrow> (case act_cv (acts action) of
            None \<Rightarrow> pr
          | Some cv \<Rightarrow> pr\<lparr>pr_beginRangeCV := (pr_beginRangeCV pr)(e \<mapsto> fst (cv_merge beginRange cv))\<rparr>))"

text \<open>The writes that a load reads.\<close>

definition read_slot :: "(aid \<Rightarrow> model_action) \<Rightarrow> eid \<Rightarrow> write_slot \<Rightarrow> persist_race \<Rightarrow> persist_race option" where
  "read_slot acts currExecution slot pr = do {
     (execution, wrt) \<leftarrow> slot;
     let cacheid = getCacheID (act_location (acts wrt));
     let (clmetadata, pr1) = getOrCreateCacheLineMeta execution cacheid pr;
     Some (if execution \<noteq> currExecution then
         (let pr2 = (if is_atomic_write (acts wrt) \<and> lm_lastFlush clmetadata < act_seq (acts wrt)
                then put_meta execution cacheid (mergeLastFlush (act_seq (acts wrt)) clmetadata) pr1 else pr1)
          in persistUntilAction acts execution wrt pr2)
       else pr1)
   }"

fun read_slots :: "(aid \<Rightarrow> model_action) \<Rightarrow> eid \<Rightarrow> nat list \<Rightarrow> write_vec \<Rightarrow> persist_race \<Rightarrow> persist_race option" where
  "read_slots acts currExecution [] rfarray pr = Some pr"
| "read_slots acts currExecution (i # is) rfarray pr =
     (if i \<ge> length rfarray then None else do {
        pr1 \<leftarrow> read_slot acts currExecution (rfarray ! i) pr;
        read_slots acts currExecution is rfarray pr1
      })"

definition readFromWriteAnalysis :: "(aid \<Rightarrow> model_action) \<Rightarrow> eid \<Rightarrow> model_action \<Rightarrow> write_vec \<Rightarrow> persist_race \<Rightarrow> persist_race option" where
  "readFromWriteAnalysis acts currExecution rd rfarray pr =
     read_slots acts currExecution [0..<act_size rd] rfarray pr"

text \<open>A fence completes the flushes that wait for it.\<close>

fun fence_writes :: "(aid \<Rightarrow> model_action) \<Rightarrow> aid \<Rightarrow> aid \<Rightarrow> aid option list \<Rightarrow> persist_race \<Rightarrow> persist_race" where
  "fence_writes acts fence clwb [] pr = pr"
| "fence_writes acts fence clwb (write # ws) pr =
     fence_writes acts fence clwb ws (case write of
        None \<Rightarrow> pr
      | Some w \<Rightarrow>
          (let lastWrite = (case act_lastwrite (acts clwb) of Some l \<Rightarrow> l | None \<Rightarrow> clwb)
           in if happens_before (acts w) (acts lastWrite) \<and> \<not> flushExistsBeforeCV acts w (act_cv (acts fence)) pr
              then updateFlushVector acts w fence pr else pr))"

fun fence_clwbs :: "(aid \<Rightarrow> model_action) \<Rightarrow> eid \<Rightarrow> aid \<Rightarrow> aid list \<Rightarrow> persist_race \<Rightarrow> persist_race option" where
  "fence_clwbs acts e fence [] pr = Some pr"
| "fence_clwbs acts e fence (clwb # cs) pr =
     (if \<not> act_seq (acts clwb) < act_seq (acts fence) then None
      else (let (clmetadata, pr1) = getOrCreateCacheLineMeta e (getCacheID (act_location (acts clwb))) pr
            in fence_clwbs acts e fence cs (fence_writes acts fence clwb (lm_lastWrites clmetadata) pr1)))"

definition fenceExecutionAnalysis :: "(aid \<Rightarrow> model_action) \<Rightarrow> eid \<Rightarrow> aid \<Rightarrow> persist_race \<Rightarrow> persist_race option" where
  "fenceExecutionAnalysis acts e fence pr =
     (if act_cv (acts fence) = None then None
      else do {
        pr1 \<leftarrow> fence_clwbs acts e fence (pr_pendingclwbs pr) pr;
        Some (if length (pr_pendingclwbs pr1) > 0
          then pr1\<lparr>pr_num_crash_injection_points := pr_num_crash_injection_points pr1 + 1, pr_pendingclwbs := []\<rparr>
          else pr1)
      })"

text \<open>The ends of an execution.\<close>

definition crashAnalysis :: "persist_race \<Rightarrow> persist_race" where
  "crashAnalysis pr = (if length (pr_pendingclwbs pr) > 0 then pr\<lparr>pr_pendingclwbs := []\<rparr> else pr)"

definition persistExecutionAnalysis :: "(aid \<Rightarrow> model_action) \<Rightarrow> eid \<Rightarrow> aid option list \<Rightarrow> persist_race \<Rightarrow> persist_race" where
  "persistExecutionAnalysis acts e last_actions pr =
     fold (\<lambda>action pr. case action of None \<Rightarrow> pr | Some a \<Rightarrow> persistUntilAction acts e a pr) last_actions pr"

fun free_actions :: "(aid \<Rightarrow> model_action) \<Rightarrow> eid \<Rightarrow> aid list \<Rightarrow> persist_race \<Rightarrow> persist_race" where
  "free_actions acts e [] pr = pr"
| "free_actions acts e (a # as) pr = free_actions acts e as
     (if is_cache_op (acts a) \<or> is_write (acts a)
      then pr\<lparr>pr_cachelineMetaSet := (pr_cachelineMetaSet pr)((e, getCacheID (act_location (acts a))) := None),
              pr_flushmap := (pr_flushmap pr)(a := None)\<rparr>
      else pr)"

definition freeExecution :: "(aid \<Rightarrow> model_action) \<Rightarrow> eid \<Rightarrow> aid list \<Rightarrow> persist_race \<Rightarrow> persist_race" where
  "freeExecution acts e trace pr =
     (let pr1 = free_actions acts e trace pr in pr1\<lparr>pr_beginRangeCV := (pr_beginRangeCV pr1)(e := None)\<rparr>)"

end
