(* ===== verification/Persist_Claims.thy ===== *)
theory Persist_Claims
  imports Persist_Race Cache_Lines
begin

text \<open>
  What the analysis knows about each byte, and which races it reports.
\<close>

section \<open>The last write to each byte\<close>

definition meta_ok :: "persist_race \<Rightarrow> bool" where
  "meta_ok pr \<longleftrightarrow> (\<forall>k m. pr_cachelineMetaSet pr k = Some m \<longrightarrow> length (lm_lastWrites m) = 64)"

definition last_write_at :: "persist_race \<Rightarrow> eid \<Rightarrow> addr \<Rightarrow> aid option" where
  "last_write_at pr e x = (case pr_cachelineMetaSet pr (e, getCacheID x) of
     None \<Rightarrow> None | Some m \<Rightarrow> lm_lastWrites m ! WRITEINDEX x)"

definition last_flush_at :: "persist_race \<Rightarrow> eid \<Rightarrow> addr \<Rightarrow> modelclock" where
  "last_flush_at pr e x = (case pr_cachelineMetaSet pr (e, getCacheID x) of
     None \<Rightarrow> 0 | Some m \<Rightarrow> lm_lastFlush m)"

lemma WRITEINDEX_less: "WRITEINDEX x < 64"
  by (simp add: WRITEINDEX_def unat_index)

lemma same_byte: "getCacheID x = getCacheID y \<and> WRITEINDEX x = WRITEINDEX y \<longleftrightarrow> x = y"
proof -
  have "x = y" if "getCacheID x = getCacheID y" "WRITEINDEX x = WRITEINDEX y"
  proof -
    have "unat x div 64 = unat y div 64" "unat x mod 64 = unat y mod 64"
      using that unfolding getCacheID_eq WRITEINDEX_def unat_index by simp_all
    then have "unat x = unat y" by (metis div_mult_mod_eq)
    then show ?thesis by (simp add: word_unat_eq_iff)
  qed
  then show ?thesis by auto
qed

text \<open>Looking up a line that is not there yet changes nothing that is known.\<close>

lemma getOrCreate_spec:
  assumes "meta_ok pr" "getOrCreateCacheLineMeta e c pr = (m, pr1)"
  shows "meta_ok pr1" "pr_cachelineMetaSet pr1 (e, c) = Some m" "length (lm_lastWrites m) = 64"
    "last_write_at pr1 = last_write_at pr" "last_flush_at pr1 = last_flush_at pr"
    "pr_beginRangeCV pr1 = pr_beginRangeCV pr" "pr_flushmap pr1 = pr_flushmap pr"
    "pr_errorSet pr1 = pr_errorSet pr" "pr_num_total_bugs pr1 = pr_num_total_bugs pr"
    "pr_warningSet pr1 = pr_warningSet pr" "pr_num_total_warnings pr1 = pr_num_total_warnings pr"
    "pr_messages pr1 = pr_messages pr"
  using assms WRITEINDEX_less
  by (auto simp: getOrCreateCacheLineMeta_def meta_ok_def CacheLineMetaData_def last_write_at_def last_flush_at_def fun_eq_iff
      split: option.splits if_splits)

lemma put_write:
  fixes a :: aid
  assumes "meta_ok pr" "pr_cachelineMetaSet pr (e, getCacheID x) = Some m"
  defines "pr' \<equiv> put_meta e (getCacheID x) (m\<lparr>lm_lastWrites := (lm_lastWrites m)[WRITEINDEX x := Some a]\<rparr>) pr"
  shows "meta_ok pr'" "last_write_at pr' e' y = (if e' = e \<and> y = x then Some a else last_write_at pr e' y)"
    "last_flush_at pr' = last_flush_at pr"
proof -
  have len: "length (lm_lastWrites m) = 64" using assms(1,2) by (simp add: meta_ok_def)
  show "meta_ok pr'" using assms(1) len by (auto simp: meta_ok_def pr'_def put_meta_def)
  show "last_write_at pr' e' y = (if e' = e \<and> y = x then Some a else last_write_at pr e' y)"
  proof (cases "e' = e \<and> getCacheID y = getCacheID x")
    case True
    then show ?thesis using assms(2) len WRITEINDEX_less [of x] same_byte [of x y]
      by (auto simp: last_write_at_def pr'_def put_meta_def nth_list_update)
  next
    case False
    then have "e' = e \<longrightarrow> y \<noteq> x" by auto
    with False show ?thesis by (auto simp: last_write_at_def pr'_def put_meta_def)
  qed
  show "last_flush_at pr' = last_flush_at pr"
    using assms(2) by (auto simp: last_flush_at_def pr'_def put_meta_def fun_eq_iff)
qed

lemma note_writes_ok:
  assumes "meta_ok pr" "\<forall>i < length as. getCacheID (as ! i) = home \<longrightarrow> (\<forall>j \<le> i. getCacheID (as ! j) = home)"
    "as \<noteq> [] \<Longrightarrow> getCacheID (hd as) = home \<Longrightarrow> line = home"
  shows "meta_ok (note_writes e a home as line pr) \<and>
    (\<forall>e' y. last_write_at (note_writes e a home as line pr) e' y =
       (if e' = e \<and> y \<in> set as then Some a else last_write_at pr e' y)) \<and>
    last_flush_at (note_writes e a home as line pr) = last_flush_at pr"
  using assms
proof (induction as arbitrary: line pr)
  case (Cons x xs)
  let ?line = "if getCacheID x \<noteq> home then getCacheID x else line"
  have line: "?line = getCacheID x" using Cons.prems(3) by auto
  obtain m pr1 where g: "getOrCreateCacheLineMeta e (getCacheID x) pr = (m, pr1)" by fastforce
  note g' = getOrCreate_spec [OF Cons.prems(1) g]
  let ?m = "m\<lparr>lm_lastWrites := (lm_lastWrites m)[WRITEINDEX x := Some a]\<rparr>"
  note p = put_write [OF g'(1,2), of a]
  have later: "\<forall>i < length xs. getCacheID (xs ! i) = home \<longrightarrow> (\<forall>j \<le> i. getCacheID (xs ! j) = home)"
    using Cons.prems(2) by (metis Suc_le_mono Suc_less_eq length_Cons nth_Cons_Suc)
  have first: "getCacheID x = home" if "xs \<noteq> []" "getCacheID (hd xs) = home"
    using Cons.prems(2) [rule_format, of 1 0] that by (cases xs) auto
  have step: "note_writes e a home (x # xs) line pr = note_writes e a home xs (getCacheID x) (put_meta e (getCacheID x) ?m pr1)"
    using g by (simp only: note_writes.simps Let_def line prod.case)
  from Cons.IH [OF p(1) later first] show ?case unfolding step p(2,3) g'(4,5) by auto
qed simp

lemma range_lines:
  assumes "unat (address :: addr) + n < 2 ^ 64" "i < n" "getCacheID (address + of_nat i) = getCacheID address" "j \<le> i"
  shows "getCacheID (address + of_nat j) = getCacheID address"
proof -
  have at: "unat (address + of_nat k) = unat address + k" if "k < n" for k
  proof -
    have "unat (of_nat k :: addr) = k" using that assms(1) by (simp add: unsigned_of_nat take_bit_nat_eq_self)
    moreover have "unat address + unat (of_nat k :: addr) < 2 ^ LENGTH(64)" using calculation that assms(1) by simp
    ultimately show ?thesis unfolding unat_add_lem by simp
  qed
  have "(unat address + i) div 64 = unat address div 64" using assms(2,3) by (simp add: getCacheID_eq at)
  moreover have "unat address div 64 \<le> (unat address + j) div 64" "(unat address + j) div 64 \<le> (unat address + i) div 64"
    using assms(4) by (simp_all add: div_le_mono)
  ultimately show ?thesis using assms(2,4) by (simp add: getCacheID_eq at)
qed

lemma write_range_set:
  assumes "unat address + n < 2 ^ 64"
  shows "set (write_range address n) = {x. unat (x - address) < n}"
proof (cases n)
  case 0
  then show ?thesis by (simp add: write_range_def)
next
  case (Suc k)
  have n: "unat (of_nat n :: addr) = n" using assms by (simp add: unsigned_of_nat take_bit_nat_eq_self)
  then have "unat (address + of_nat n) = unat address + n" using assms unat_add_lem [of address "of_nat n"] by simp
  then have "address < address + of_nat n" using Suc by (simp add: word_less_nat_alt)
  moreover have "x \<in> (\<lambda>i. address + of_nat i) ` {0..<n}" if "unat (x - address) < n" for x
    using that by (intro image_eqI [of _ _ "unat (x - address)"]) simp_all
  moreover have "unat (of_nat i :: addr) = i" if "i < n" for i
    using that assms by (simp add: unsigned_of_nat take_bit_nat_eq_self)
  ultimately show ?thesis by (auto simp: write_range_def)
qed

text \<open>
  C15: When a store leaves a store buffer, the analysis records it as the last write to each of
  its bytes, also where it reaches into the next cache line, and to no other byte; the table
  of lines stays well formed and the flush points of all lines are kept.
\<close>
theorem last_writes_tracked:
  assumes "meta_ok pr" "is_write (acts a)" "unat (act_location (acts a)) + act_size (acts a) < 2 ^ 64"
  shows "meta_ok (evictStoreBufferAnalysis acts e a pr) \<and>
    last_write_at (evictStoreBufferAnalysis acts e a pr) e' x =
      (if e' = e \<and> unat (x - act_location (acts a)) < act_size (acts a) then Some a else last_write_at pr e' x) \<and>
    last_flush_at (evictStoreBufferAnalysis acts e a pr) = last_flush_at pr"
proof -
  let ?l = "act_location (acts a)" and ?n = "act_size (acts a)"
  obtain m pr1 where g: "getOrCreateCacheLineMeta e (getCacheID ?l) pr = (m, pr1)" by fastforce
  note g' = getOrCreate_spec [OF assms(1) g]
  have "\<forall>i < length (write_range ?l ?n). getCacheID (write_range ?l ?n ! i) = getCacheID ?l \<longrightarrow>
      (\<forall>j \<le> i. getCacheID (write_range ?l ?n ! j) = getCacheID ?l)"
    using range_lines [OF assms(3)] by (auto simp: write_range_def)
  from note_writes_ok [OF g'(1) this, of "getCacheID ?l" e a] show ?thesis
    using assms(2) g write_range_set [OF assms(3)] g'(4,5) by (auto simp: evictStoreBufferAnalysis_def Let_def)
qed

definition demo_store :: "addr \<Rightarrow> action_type \<Rightarrow> modelclock \<Rightarrow> model_action" where
  "demo_store loc ty clk = \<lparr>act_location = loc, act_position = Some ''a.c:1'', act_lastwrite = None, act_time = 0,
     act_cv = Some (cv_new None (Some (1, clk))), act_value = 7, act_read_value = VALUE_NONE, act_type = ty,
     act_order = memory_order_relaxed, act_tid = 1, act_seq = clk, act_size = 8, act_thread_operand = None\<rparr>"

lemma PersistRace_ok: "meta_ok PersistRace"
  by (simp add: meta_ok_def PersistRace_def)

theorem last_writes_tracked_witness:
  "last_write_at (evictStoreBufferAnalysis (\<lambda>_. demo_store 0x103c NONATOMIC_WRITE 5) 0 3 PersistRace) 0 0x1041 = Some 3"
proof -
  let ?acts = "\<lambda>_ :: aid. demo_store 0x103c NONATOMIC_WRITE 5"
  have "is_write (?acts 3)" "unat (act_location (?acts 3)) + act_size (?acts 3) < 2 ^ 64"
    by (simp_all add: demo_store_def is_write_def)
  from last_writes_tracked [OF PersistRace_ok this, where e = 0 and e' = 0 and x = "0x1041"] show ?thesis by (simp add: demo_store_def)
qed

section \<open>Reported races\<close>

text \<open>What the verdict on a slot depends on.\<close>

definition same_view :: "persist_race \<Rightarrow> persist_race \<Rightarrow> bool" where
  "same_view pr pr' \<longleftrightarrow> pr_beginRangeCV pr' = pr_beginRangeCV pr \<and> pr_flushmap pr' = pr_flushmap pr \<and>
     last_flush_at pr' = last_flush_at pr"

text \<open>
  A slot races when it holds a non-atomic write of an earlier execution, the write is newer than
  the last flush known of its line, and no flush of the write is known to precede the states
  from which the execution may have crashed, or, for a warning, at all.
\<close>

definition unflushed :: "(aid \<Rightarrow> model_action) \<Rightarrow> eid \<Rightarrow> model_action \<Rightarrow> persist_race \<Rightarrow> nat \<Rightarrow> write_slot \<Rightarrow> bool" where
  "unflushed acts cur rd pr i slot = (case slot of None \<Rightarrow> False | Some (e, w) \<Rightarrow>
     e \<noteq> cur \<and> \<not> is_atomic_write (acts w) \<and> last_flush_at pr e (act_location rd + of_nat i) < act_seq (acts w))"

definition known_flushes :: "persist_race \<Rightarrow> aid \<Rightarrow> aid set" where
  "known_flushes pr w = (case pr_flushmap pr w of None \<Rightarrow> {} | Some v \<Rightarrow> {fl. Some fl \<in> set v})"

definition surely_flushed :: "(aid \<Rightarrow> model_action) \<Rightarrow> persist_race \<Rightarrow> eid \<Rightarrow> aid \<Rightarrow> bool" where
  "surely_flushed acts pr e w = (case pr_beginRangeCV pr e of None \<Rightarrow> False | Some cv \<Rightarrow>
     (\<exists>fl \<in> known_flushes pr w. act_tid (acts fl) < num_threads cv \<and> act_seq (acts fl) \<le> cv_getClock cv (act_tid (acts fl))))"

definition bug_slot :: "(aid \<Rightarrow> model_action) \<Rightarrow> eid \<Rightarrow> model_action \<Rightarrow> persist_race \<Rightarrow> nat \<Rightarrow> write_slot \<Rightarrow> bool" where
  "bug_slot acts cur rd pr i slot \<longleftrightarrow> unflushed acts cur rd pr i slot \<and>
     (case slot of None \<Rightarrow> False | Some (e, w) \<Rightarrow> \<not> surely_flushed acts pr e w)"

definition warning_slot :: "(aid \<Rightarrow> model_action) \<Rightarrow> eid \<Rightarrow> model_action \<Rightarrow> persist_race \<Rightarrow> nat \<Rightarrow> write_slot \<Rightarrow> bool" where
  "warning_slot acts cur rd pr i slot \<longleftrightarrow> unflushed acts cur rd pr i slot \<and>
     (case slot of None \<Rightarrow> False | Some (e, w) \<Rightarrow> known_flushes pr w = {})"

lemma flushExists_known:
  "flushExistsBeforeCV acts w None pr \<longleftrightarrow> known_flushes pr w \<noteq> {}"
  "flushExistsBeforeCV acts w (Some cv) pr \<longleftrightarrow>
     (\<exists>fl \<in> known_flushes pr w. act_tid (acts fl) < num_threads cv \<and> act_seq (acts fl) \<le> cv_getClock cv (act_tid (acts fl)))"
  by (force simp: flushExistsBeforeCV_def known_flushes_def list_ex_iff cv_synchronized_since_def cv_getClock_def
      split: option.splits if_splits)+

lemma slots_view:
  "same_view pr pr' \<Longrightarrow> bug_slot acts cur rd pr' = bug_slot acts cur rd pr"
  "same_view pr pr' \<Longrightarrow> warning_slot acts cur rd pr' = warning_slot acts cur rd pr"
  by (auto simp: same_view_def bug_slot_def warning_slot_def unflushed_def surely_flushed_def known_flushes_def fun_eq_iff
      split: option.splits)

lemma same_view_trans: "same_view pr pr1 \<Longrightarrow> same_view pr1 pr2 \<Longrightarrow> same_view pr pr2"
  by (simp add: same_view_def)

text \<open>
  Each position of the source is reported once: of a list of keyed reports those come out whose
  key is neither known already nor that of a report before them.
\<close>

definition first_reports :: "string set \<Rightarrow> (string \<times> race_report) list \<Rightarrow> (string \<times> race_report) list" where
  "first_reports seen rs = map ((!) rs)
     (filter (\<lambda>j. fst (rs ! j) \<notin> seen \<and> fst (rs ! j) \<notin> fst ` set (take j rs)) [0..<length rs])"

lemma first_reports_Nil [simp]: "first_reports seen [] = []"
  by (simp add: first_reports_def)

lemma first_reports_Cons:
  "first_reports seen (r # rs) = (if fst r \<in> seen then [] else [r]) @ first_reports (insert (fst r) seen) rs"
proof -
  have "[0..<length (r # rs)] = 0 # map Suc [0..<length rs]"
    by (simp add: upt_conv_Cons map_Suc_upt del: upt_Suc)
  then show ?thesis by (simp add: first_reports_def filter_map o_def conj_ac del: upt_Suc)
qed

lemma first_reports_append:
  "first_reports seen (rs @ rs') = first_reports seen rs @ first_reports (seen \<union> fst ` set rs) rs'"
  by (induction rs arbitrary: seen) (simp_all add: first_reports_Cons insert_commute)

lemma first_reports_keys: "seen \<union> fst ` set (first_reports seen rs) = seen \<union> fst ` set rs"
proof (induction rs arbitrary: seen)
  case (Cons r rs)
  from Cons.IH [of "insert (fst r) seen"] show ?case
    by (cases "fst r \<in> seen") (simp_all add: first_reports_Cons insert_absorb)
qed simp

text \<open>The report of a slot, and those of the slots that a load may read, in the order of the analysis.\<close>

definition slot_report :: "(addr \<Rightarrow> string) \<Rightarrow> (aid \<Rightarrow> model_action) \<Rightarrow> bool \<Rightarrow> model_action \<Rightarrow> write_slot \<Rightarrow> string \<times> race_report" where
  "slot_report fmt acts error rd slot = (let (e, w) = the slot; pos = the (act_position (acts w)) in
     (computeErrorKey fmt (acts w) pos, \<lparr>rr_error = error, rr_seq = act_seq (acts w), rr_execution = e,
        rr_address = act_location (acts w), rr_location = pos,
        rr_read_address = act_location rd, rr_read_location = the (act_position rd)\<rparr>))"

definition vec_reports :: "(addr \<Rightarrow> string) \<Rightarrow> (aid \<Rightarrow> model_action) \<Rightarrow> bool \<Rightarrow> (nat \<Rightarrow> write_slot \<Rightarrow> bool) \<Rightarrow> model_action \<Rightarrow>
    nat list \<Rightarrow> write_vec \<Rightarrow> (string \<times> race_report) list" where
  "vec_reports fmt acts error racing rd is v =
     map (\<lambda>i. slot_report fmt acts error rd (v ! i)) (filter (\<lambda>i. racing i (v ! i)) is)"

definition racing_bytes :: "(addr \<Rightarrow> string) \<Rightarrow> (aid \<Rightarrow> model_action) \<Rightarrow> bool \<Rightarrow> (nat \<Rightarrow> write_slot \<Rightarrow> bool) \<Rightarrow> model_action \<Rightarrow>
    write_vec list \<Rightarrow> (string \<times> race_report) list" where
  "racing_bytes fmt acts error racing rd rf_set = concat (map (vec_reports fmt acts error racing rd [0..<act_size rd]) rf_set)"

text \<open>What a call adds to the reports when these bytes race.\<close>

definition reports_added :: "persist_race \<Rightarrow> persist_race \<Rightarrow> (string \<times> race_report) list \<Rightarrow> (string \<times> race_report) list \<Rightarrow> bool" where
  "reports_added pr pr' bugs warns \<longleftrightarrow>
     pr_num_total_bugs pr' = pr_num_total_bugs pr + length bugs \<and>
     pr_errorSet pr' = pr_errorSet pr @ map fst (first_reports (set (pr_errorSet pr)) bugs) \<and>
     filter rr_error (pr_messages pr') = filter rr_error (pr_messages pr) @ map snd (first_reports (set (pr_errorSet pr)) bugs) \<and>
     pr_num_total_warnings pr' = pr_num_total_warnings pr + length warns \<and>
     pr_warningSet pr' = pr_warningSet pr @ map fst (first_reports (set (pr_warningSet pr)) warns) \<and>
     filter (\<lambda>r. \<not> rr_error r) (pr_messages pr') = filter (\<lambda>r. \<not> rr_error r) (pr_messages pr) @
       map snd (first_reports (set (pr_warningSet pr)) warns)"

lemma reports_added_trans:
  assumes "reports_added pr pr1 b1 w1" "reports_added pr1 pr2 b2 w2"
  shows "reports_added pr pr2 (b1 @ b2) (w1 @ w2)"
proof -
  have "set (pr_errorSet pr1) = set (pr_errorSet pr) \<union> fst ` set b1"
    "set (pr_warningSet pr1) = set (pr_warningSet pr) \<union> fst ` set w1"
    using assms(1) first_reports_keys [of "set (pr_errorSet pr)" b1] first_reports_keys [of "set (pr_warningSet pr)" w1]
    by (simp_all add: reports_added_def)
  with assms show ?thesis by (simp add: reports_added_def first_reports_append)
qed

lemma reports_added_refl [simp]: "reports_added pr pr [] []"
  by (simp add: reports_added_def)

text \<open>What a report leaves as it is.\<close>

definition same_tables :: "persist_race \<Rightarrow> persist_race \<Rightarrow> bool" where
  "same_tables pr pr' \<longleftrightarrow> pr_cachelineMetaSet pr' = pr_cachelineMetaSet pr \<and>
     pr_beginRangeCV pr' = pr_beginRangeCV pr \<and> pr_flushmap pr' = pr_flushmap pr"

lemma report_spec:
  assumes "act_position (acts w) \<noteq> None" "act_position rd \<noteq> None"
  shows "\<exists>pr'. ERROR fmt acts e w rd pr = Some pr' \<and> same_tables pr pr' \<and>
      reports_added pr pr' [slot_report fmt acts True rd (Some (e, w))] []"
    "\<exists>pr'. WARNING fmt acts e w rd pr = Some pr' \<and> same_tables pr pr' \<and>
      reports_added pr pr' [] [slot_report fmt acts False rd (Some (e, w))]"
  using assms
  by (auto simp: ERROR_def WARNING_def Let_def same_tables_def reports_added_def first_reports_Cons slot_report_def add_warning_def)

lemma check_slot_ok:
  assumes "meta_ok pr" "slot = Some (e, w)" "act_position (acts w) \<noteq> None" "act_position rd \<noteq> None"
  shows "\<exists>pr'. check_slot fmt acts cur rd i slot pr = Some pr' \<and> meta_ok pr' \<and> same_view pr pr' \<and>
    reports_added pr pr' (if bug_slot acts cur rd pr i slot then [slot_report fmt acts True rd slot] else [])
      (if warning_slot acts cur rd pr i slot then [slot_report fmt acts False rd slot] else [])"
proof (cases "cur \<noteq> e \<and> \<not> is_atomic_write (acts w)")
  case False
  then show ?thesis using assms(1,2)
    by (auto simp: check_slot_def same_view_def bug_slot_def warning_slot_def unflushed_def)
next
  case True
  let ?x = "act_location rd + of_nat i"
  obtain m pr1 where g: "getOrCreateCacheLineMeta e (getCacheID ?x) pr = (m, pr1)" by fastforce
  note g' = getOrCreate_spec [OF assms(1) g]
  have lf: "lm_lastFlush m = last_flush_at pr e ?x"
    using g'(2) g'(5) [symmetric] by (simp add: last_flush_at_def)
  have flushes: "known_flushes pr1 w = known_flushes pr w" using g'(7) by (simp add: known_flushes_def)
  let ?known = "case pr_beginRangeCV pr1 e of None \<Rightarrow> False | Some cv \<Rightarrow> flushExistsBeforeCV acts w (Some cv) pr1"
  have bug: "bug_slot acts cur rd pr i slot \<longleftrightarrow> \<not> ?known \<and> lm_lastFlush m < act_seq (acts w)"
    using True assms(2) lf g'(6)
    by (auto simp: bug_slot_def unflushed_def surely_flushed_def flushExists_known flushes split: option.splits)
  have warn: "warning_slot acts cur rd pr i slot \<longleftrightarrow> known_flushes pr w = {} \<and> lm_lastFlush m < act_seq (acts w)"
    using True assms(2) lf by (auto simp: warning_slot_def unflushed_def)
  let ?bug = "bug_slot acts cur rd pr i slot" and ?warn = "warning_slot acts cur rd pr i slot"
  obtain pr2 where pr2: "(if ?bug then ERROR fmt acts e w rd pr1 else Some pr1) = Some pr2" "same_tables pr1 pr2"
    "reports_added pr1 pr2 (if ?bug then [slot_report fmt acts True rd slot] else []) []"
    using report_spec(1) [of acts w rd fmt e pr1] assms(2,3,4) by (cases ?bug) (auto simp: same_tables_def)
  obtain pr3 where pr3: "(if ?warn then WARNING fmt acts e w rd pr2 else Some pr2) = Some pr3" "same_tables pr2 pr3"
    "reports_added pr2 pr3 [] (if ?warn then [slot_report fmt acts False rd slot] else [])"
    using report_spec(2) [of acts w rd fmt e pr2] assms(2,3,4) by (cases ?warn) (auto simp: same_tables_def)
  have "flushExistsBeforeCV acts w None pr2 \<longleftrightarrow> known_flushes pr w \<noteq> {}"
    using pr2(2) flushes by (simp add: flushExists_known same_tables_def known_flushes_def)
  then have "check_slot fmt acts cur rd i slot pr = Some pr3"
    using pr2(1) pr3(1) True g unfolding bug warn by (simp add: check_slot_def assms(2) Let_def)
  moreover have "meta_ok pr3" "same_view pr pr3" using g' pr2(2) pr3(2)
    by (simp_all add: meta_ok_def same_tables_def same_view_def last_flush_at_def fun_eq_iff)
  moreover have "reports_added pr pr1 [] []" using g' by (simp add: reports_added_def)
  ultimately show ?thesis using reports_added_trans [OF reports_added_trans [OF _ pr2(3)] pr3(3), of pr "[]" "[]"] by auto
qed

definition readable :: "(aid \<Rightarrow> model_action) \<Rightarrow> model_action \<Rightarrow> write_vec \<Rightarrow> bool" where
  "readable acts rd v \<longleftrightarrow> act_size rd \<le> length v \<and>
     (\<forall>i < act_size rd. \<exists>e w. v ! i = Some (e, w) \<and> act_position (acts w) \<noteq> None)"

lemma check_slots_ok:
  assumes "meta_ok pr" "\<forall>i \<in> set is. i < length v \<and> (\<exists>e w. v ! i = Some (e, w) \<and> act_position (acts w) \<noteq> None)" "act_position rd \<noteq> None"
  shows "\<exists>pr'. check_slots fmt acts cur rd is v pr = Some pr' \<and> meta_ok pr' \<and> same_view pr pr' \<and>
    reports_added pr pr' (vec_reports fmt acts True (bug_slot acts cur rd pr) rd is v)
      (vec_reports fmt acts False (warning_slot acts cur rd pr) rd is v)"
  using assms(1,2)
proof (induction "is" arbitrary: pr)
  case Nil
  then show ?case by (simp add: same_view_def vec_reports_def)
next
  case (Cons i js)
  then obtain e w where s: "i < length v" "v ! i = Some (e, w)" "act_position (acts w) \<noteq> None" by auto
  from check_slot_ok [where acts = acts, OF Cons.prems(1) s(2,3) assms(3), of fmt cur i] obtain pr1 where
    pr1: "check_slot fmt acts cur rd i (v ! i) pr = Some pr1" "meta_ok pr1" "same_view pr pr1"
    "reports_added pr pr1 (if bug_slot acts cur rd pr i (v ! i) then [slot_report fmt acts True rd (v ! i)] else [])
      (if warning_slot acts cur rd pr i (v ! i) then [slot_report fmt acts False rd (v ! i)] else [])" by blast
  from Cons.IH [OF pr1(2)] Cons.prems(2) obtain pr2 where
    pr2: "check_slots fmt acts cur rd js v pr1 = Some pr2" "meta_ok pr2" "same_view pr1 pr2"
    "reports_added pr1 pr2 (vec_reports fmt acts True (bug_slot acts cur rd pr) rd js v)
      (vec_reports fmt acts False (warning_slot acts cur rd pr) rd js v)"
    using slots_view [OF pr1(3)] by auto
  have "check_slots fmt acts cur rd (i # js) v pr = Some pr2" using s(1) pr1(1) pr2(1) by simp
  moreover have "vec_reports fmt acts f P rd (i # js) v =
      (if P i (v ! i) then [slot_report fmt acts f rd (v ! i)] else []) @ vec_reports fmt acts f P rd js v" for f P
    by (simp add: vec_reports_def)
  ultimately show ?case
    using pr2(2) same_view_trans [OF pr1(3) pr2(3)] reports_added_trans [OF pr1(4) pr2(4)] by metis
qed

lemma may_read_ok:
  assumes "meta_ok pr" "\<forall>v \<in> set rf_set. readable acts rd v" "act_position rd \<noteq> None"
  shows "\<exists>pr'. mayReadFromAnalysis fmt acts cur rd rf_set pr = Some pr' \<and> meta_ok pr' \<and> same_view pr pr' \<and>
    reports_added pr pr' (racing_bytes fmt acts True (bug_slot acts cur rd pr) rd rf_set)
      (racing_bytes fmt acts False (warning_slot acts cur rd pr) rd rf_set)"
  using assms(1,2)
proof (induction rf_set arbitrary: pr)
  case Nil
  then show ?case by (simp add: same_view_def racing_bytes_def)
next
  case (Cons v vs)
  have "\<forall>i \<in> set [0..<act_size rd]. i < length v \<and> (\<exists>e w. v ! i = Some (e, w) \<and> act_position (acts w) \<noteq> None)"
    using Cons.prems(2) by (auto simp: readable_def)
  from check_slots_ok [OF Cons.prems(1) this assms(3), of fmt cur] obtain pr1 where
    pr1: "check_slots fmt acts cur rd [0..<act_size rd] v pr = Some pr1" "meta_ok pr1" "same_view pr pr1"
    "reports_added pr pr1 (vec_reports fmt acts True (bug_slot acts cur rd pr) rd [0..<act_size rd] v)
      (vec_reports fmt acts False (warning_slot acts cur rd pr) rd [0..<act_size rd] v)" by blast
  from Cons.IH [OF pr1(2)] Cons.prems(2) obtain pr2 where
    pr2: "mayReadFromAnalysis fmt acts cur rd vs pr1 = Some pr2" "meta_ok pr2" "same_view pr1 pr2"
    "reports_added pr1 pr2 (racing_bytes fmt acts True (bug_slot acts cur rd pr) rd vs)
      (racing_bytes fmt acts False (warning_slot acts cur rd pr) rd vs)"
    unfolding slots_view [OF pr1(3)] by auto
  have "mayReadFromAnalysis fmt acts cur rd (v # vs) pr = Some pr2" using pr1(1) pr2(1) by simp
  then show ?case
    using pr2(2) same_view_trans [OF pr1(3) pr2(3)] reports_added_trans [OF pr1(4) pr2(4)] by (simp add: racing_bytes_def)
qed

text \<open>
  C9: Given the writes that a load may read from, the analysis returns.  A byte races when its write
  is a non-atomic one of an execution before a crash, newer than the last flush known of its line,
  without a known flush that precedes the states at which that execution may have crashed; it is
  suspect when no flush of its write is known at all.  Each racing byte is counted as a bug, and
  the error messages are those of the racing bytes whose source position has no error yet, one
  for each position, in the order of the writes and with the values of the write and of the load;
  the same holds of the suspect bytes and the warnings.  Nothing that these verdicts depend on changes.
\<close>
theorem persistency_races_reported:
  fixes fmt :: "addr \<Rightarrow> string" and cur :: eid
  assumes "meta_ok pr" "\<forall>v \<in> set rf_set. readable acts rd v" "act_position rd \<noteq> None"
  defines "bugs \<equiv> racing_bytes fmt acts True (bug_slot acts cur rd pr) rd rf_set"
    and "warns \<equiv> racing_bytes fmt acts False (warning_slot acts cur rd pr) rd rf_set"
  shows "\<exists>pr'. mayReadFromAnalysis fmt acts cur rd rf_set pr = Some pr' \<and> meta_ok pr' \<and> same_view pr pr' \<and>
    pr_num_total_bugs pr' = pr_num_total_bugs pr + length bugs \<and>
    pr_errorSet pr' = pr_errorSet pr @ map fst (first_reports (set (pr_errorSet pr)) bugs) \<and>
    filter rr_error (pr_messages pr') = filter rr_error (pr_messages pr) @ map snd (first_reports (set (pr_errorSet pr)) bugs) \<and>
    pr_num_total_warnings pr' = pr_num_total_warnings pr + length warns \<and>
    pr_warningSet pr' = pr_warningSet pr @ map fst (first_reports (set (pr_warningSet pr)) warns) \<and>
    filter (\<lambda>r. \<not> rr_error r) (pr_messages pr') = filter (\<lambda>r. \<not> rr_error r) (pr_messages pr) @
      map snd (first_reports (set (pr_warningSet pr)) warns)"
  using may_read_ok [OF assms(1-3), of fmt cur] unfolding reports_added_def bugs_def warns_def .

text \<open>Two stores before the crash, at two positions, and a load of two bytes: four racing bytes and two messages.\<close>

definition demo_stores :: "aid \<Rightarrow> model_action" where
  "demo_stores a = (let s = demo_store 0x1000 NONATOMIC_WRITE (if a = 3 then 5 else 6)
     in if a = 3 then s else s\<lparr>act_position := Some ''memset''\<rparr>)"

definition demo_load :: model_action where
  "demo_load = (demo_store 0x1000 NONATOMIC_READ 0)\<lparr>act_size := 2\<rparr>"

theorem persistency_races_reported_witness:
  "\<exists>pr'. mayReadFromAnalysis (\<lambda>_. ''0x1000'') demo_stores 1 demo_load
      [[Some (0, 3), Some (0, 3)], [Some (0, 4), Some (0, 4)]] PersistRace = Some pr' \<and>
    pr_num_total_bugs pr' = 4 \<and> pr_errorSet pr' = [''a.c:1'', ''memset0x1000''] \<and>
    map (\<lambda>r. (rr_seq r, rr_location r)) (filter rr_error (pr_messages pr')) = [(5, ''a.c:1''), (6, ''memset'')] \<and>
    pr_num_total_warnings pr' = 4"
proof -
  let ?rf = "[[Some (0 :: eid, 3 :: aid), Some (0, 3)], [Some (0, 4), Some (0, 4)]]" and ?fmt = "\<lambda>_ :: addr. ''0x1000''"
  have "\<forall>v \<in> set ?rf. readable demo_stores demo_load v" "act_position demo_load \<noteq> None"
    by (auto simp: readable_def demo_store_def demo_stores_def demo_load_def less_2_cases_iff)
  note reported = persistency_races_reported [OF PersistRace_ok this, of ?fmt 1]
  have slots: "bug_slot demo_stores 1 demo_load PersistRace i (Some (0, a))"
    "warning_slot demo_stores 1 demo_load PersistRace i (Some (0, a))" for i a
    by (simp_all add: bug_slot_def warning_slot_def unflushed_def last_flush_at_def PersistRace_def demo_store_def demo_stores_def
        is_atomic_write_def surely_flushed_def known_flushes_def)
  have size: "[0..<act_size demo_load] = [0, 1]" by (simp add: demo_load_def upt_conv_Cons)
  let ?report = "\<lambda>f a. slot_report ?fmt demo_stores f demo_load (Some (0, a))"
  have races: "racing_bytes ?fmt demo_stores True (bug_slot demo_stores 1 demo_load PersistRace) demo_load ?rf =
      [?report True 3, ?report True 3, ?report True 4, ?report True 4]"
    "racing_bytes ?fmt demo_stores False (warning_slot demo_stores 1 demo_load PersistRace) demo_load ?rf =
      [?report False 3, ?report False 3, ?report False 4, ?report False 4]"
    by (simp_all add: racing_bytes_def vec_reports_def size slots slots [unfolded One_nat_def])
  have keys: "fst (?report f 3) = ''a.c:1''" "fst (?report f 4) = ''memset0x1000''" for f
    by (simp_all add: slot_report_def computeErrorKey_def demo_store_def demo_stores_def Let_def)
  have "rr_seq (snd (?report f 3)) = 5" "rr_location (snd (?report f 3)) = ''a.c:1''"
    "rr_seq (snd (?report f 4)) = 6" "rr_location (snd (?report f 4)) = ''memset''" for f
    by (simp_all add: slot_report_def demo_store_def demo_stores_def Let_def)
  with reported show ?thesis unfolding races by (auto simp: PersistRace_def first_reports_Cons keys)
qed

section \<open>The range in which an execution may have crashed\<close>

text \<open>
  The first action that is known to be persistent enters the clock vector of its execution with
  its own sequence number only; what happened before it in other threads is not taken over,
  though it is when there is a clock vector already.
\<close>

theorem begin_range_misses_clocks:
  assumes "act_cv (acts a) = Some cv" "cv_wf cv" "t \<noteq> act_tid (acts a)"
  shows "pr_beginRangeCV pr e = None \<Longrightarrow>
      map_option (\<lambda>b. cv_getClock b t) (pr_beginRangeCV (persistUntilAction acts e a pr) e) = Some 0"
    "pr_beginRangeCV pr e = Some b \<Longrightarrow> cv_wf b \<Longrightarrow>
      map_option (\<lambda>b. cv_getClock b t) (pr_beginRangeCV (persistUntilAction acts e a pr) e) = Some (max (cv_getClock b t) (cv_getClock cv t))"
proof -
  have "cv_getClock (cv_new None (Some (act_tid (acts a), act_seq (acts a)))) t = 0"
    using assms(3) by (simp add: cv_new_def cv_getClock_def Let_def nth_list_update del: replicate_Suc)
  then show "pr_beginRangeCV pr e = None \<Longrightarrow>
      map_option (\<lambda>b. cv_getClock b t) (pr_beginRangeCV (persistUntilAction acts e a pr) e) = Some 0"
    by (simp add: persistUntilAction_def)
  show "pr_beginRangeCV pr e = Some b \<Longrightarrow> cv_wf b \<Longrightarrow>
      map_option (\<lambda>b. cv_getClock b t) (pr_beginRangeCV (persistUntilAction acts e a pr) e) = Some (max (cv_getClock b t) (cv_getClock cv t))"
    using assms by (simp add: persistUntilAction_def cv_merge_get)
qed

end
