(* ===== verification/Content_Keys.thy ===== *)
theory Content_Keys
  imports Hash_Map
begin

text \<open>
  Tables whose keys are pointers compared by what they point to, as the tables of file names,
  cache lines and write vectors are (\<^verbatim>\<open>Collection/hashfunction.cc\<close>,
  \<^verbatim>\<open>Collection/classlist.h\<close>).  Every operation on such a table does on the contents what
  the same operation with plain equality does, so that all that is known of the table of
  contents holds of the table of pointers.
\<close>

section \<open>The table of contents\<close>

definition canon_entries :: "('k \<Rightarrow> 'c) \<Rightarrow> ('k \<times> 'v) list \<Rightarrow> ('c \<times> 'v) list" where
  "canon_entries canon tbl = map (\<lambda>(k, v). (canon k, v)) tbl"

definition canon_table :: "('k \<Rightarrow> 'c) \<Rightarrow> ('k, 'v) hashtable \<Rightarrow> ('c, 'v) hashtable" where
  "canon_table canon t = \<lparr>ht_table = canon_entries canon (ht_table t),
     ht_zero = map_option (\<lambda>(k, v). (canon k, v)) (ht_zero t), ht_capacity = ht_capacity t, ht_size = ht_size t,
     ht_capacitymask = ht_capacitymask t, ht_threshold = ht_threshold t, ht_loadfactor = ht_loadfactor t\<rparr>"

lemma canon_table_fields [simp]:
  "ht_table (canon_table canon t) = canon_entries canon (ht_table t)"
  "ht_zero (canon_table canon t) = map_option (\<lambda>(k, v). (canon k, v)) (ht_zero t)"
  "ht_capacity (canon_table canon t) = ht_capacity t" "ht_size (canon_table canon t) = ht_size t"
  "ht_capacitymask (canon_table canon t) = ht_capacitymask t" "ht_threshold (canon_table canon t) = ht_threshold t"
  "ht_loadfactor (canon_table canon t) = ht_loadfactor t"
  by (simp_all add: canon_table_def)

lemma canon_entries_simps [simp]:
  "length (canon_entries canon tbl) = length tbl"
  "i < length tbl \<Longrightarrow> canon_entries canon tbl ! i = (canon (fst (tbl ! i)), snd (tbl ! i))"
  "(canon_entries canon tbl)[j := (canon k, v)] = canon_entries canon (tbl[j := (k, v)])"
  "canon_entries canon [] = []"
  "canon_entries canon ((k, v) # tbl) = (canon k, v) # canon_entries canon tbl"
  by (simp_all add: canon_entries_def case_prod_beta map_update)

text \<open>The mask leads into the table, and a slot without a key is empty.\<close>

definition mask_fits :: "('k \<times> 'v) list \<Rightarrow> u32 \<Rightarrow> bool" where
  "mask_fits tbl msk \<longleftrightarrow> (\<forall>i. unat (i AND msk) < length tbl)"

definition no_stale_value :: "('k::zero \<times> 'v::zero) list \<Rightarrow> bool" where
  "no_stale_value tbl \<longleftrightarrow> (\<forall>p < length tbl. fst (tbl ! p) = 0 \<longrightarrow> snd (tbl ! p) = 0)"

lemma mask_fits_update [simp]: "mask_fits (tbl[i := e]) msk \<longleftrightarrow> mask_fits tbl msk"
  by (simp add: mask_fits_def)

lemma no_stale_value_update: "no_stale_value tbl \<Longrightarrow> (fst e = 0 \<Longrightarrow> snd e = 0) \<Longrightarrow> no_stale_value (tbl[i := e])"
  by (cases "i < length tbl") (auto simp: no_stale_value_def nth_list_update)

lemma mask_fits_pow: "length tbl = 2 ^ b \<Longrightarrow> b < 32 \<Longrightarrow> mask_fits tbl (mask b)"
proof -
  assume b: "length tbl = 2 ^ b" "b < 32"
  have "unat (i AND mask b) < 2 ^ b" for i :: u32
    by (simp add: unsigned_take_bit_eq take_bit_int_less_exp flip: take_bit_eq_mask) 
  with b show ?thesis by (simp add: mask_fits_def)
qed

lemma find_move_in_table:
  assumes run: "find_move hash tbl msk i j = Some (Some p)"
  shows "\<exists>w. p = w AND msk"
proof -
  let ?P = "\<lambda>(h :: 'a::zero \<Rightarrow> u32) (T :: ('a \<times> 'b::zero) list) m i j r. \<forall>p. r = Some p \<longrightarrow> (\<exists>w. p = w AND m)"
  have "?P hash tbl msk i j (Some p)"
  proof (rule find_move.raw_induct [where P = ?P, OF _ run], intro allI impI)
    fix f :: "('a \<Rightarrow> u32) \<Rightarrow> ('a \<times> 'b) list \<Rightarrow> u32 \<Rightarrow> u32 \<Rightarrow> u32 \<Rightarrow> u32 option option"
      and hs T m i j r p
    assume "\<And>h T m i j r. f h T m i j = Some r \<Longrightarrow> ?P h T m i j r"
      and "(let j' = (j + 1) AND m; replace = T ! unat j' in
      if fst replace = 0 \<and> snd replace = 0 then Some None
      else (let h = hs (fst replace) AND m in
        if i \<le> j' \<and> i < h \<and> h \<le> j' then f hs T m i j'
        else if i > j' \<and> (i < h \<or> h \<le> j') then f hs T m i j'
        else Some (Some j'))) = Some r" "r = Some p"
    then show "\<exists>w. p = w AND m"
      by (auto simp: Let_def split: if_splits)
  qed
  then show ?thesis by simp
qed

lemma find_key_in_table:
  assumes run: "find_key equals key tbl msk i = Some (Some p)"
  shows "\<exists>w. p = w AND msk"
proof -
  let ?P = "\<lambda>(eq :: 'a::zero \<Rightarrow> 'a \<Rightarrow> bool) k (T :: ('a \<times> 'b::zero) list) m i r. \<forall>p. r = Some p \<longrightarrow> (\<exists>w. p = w AND m)"
  have "?P equals key tbl msk i (Some p)"
  proof (rule find_key.raw_induct [where P = ?P, OF _ run], intro allI impI)
    fix f :: "('a \<Rightarrow> 'a \<Rightarrow> bool) \<Rightarrow> 'a \<Rightarrow> ('a \<times> 'b) list \<Rightarrow> u32 \<Rightarrow> u32 \<Rightarrow> u32 option option"
      and eq k T m i r p
    assume "\<And>eq k T m i r. f eq k T m i = Some r \<Longrightarrow> ?P eq k T m i r"
      and "(if fst (T ! unat (i AND m)) = 0 \<and> snd (T ! unat (i AND m)) = 0 then Some None
      else if fst (T ! unat (i AND m)) \<noteq> 0 \<and> eq (fst (T ! unat (i AND m))) k then Some (Some (i AND m))
      else f eq k T m ((i AND m) + 1)) = Some r" "r = Some p"
    then show "\<exists>w. p = w AND m"
      by (auto split: if_splits)
  qed
  then show ?thesis by simp
qed

section \<open>Pointers with contents\<close>

locale content_keys =
  fixes canon :: "'k::zero \<Rightarrow> 'c::zero" and hash :: "'k \<Rightarrow> u32" and equals :: "'k \<Rightarrow> 'k \<Rightarrow> bool"
    and content_hash :: "'c \<Rightarrow> u32"
  assumes canon_null: "canon k = 0 \<longleftrightarrow> k = 0"
    and hash_canon: "k \<noteq> 0 \<Longrightarrow> hash k = content_hash (canon k)"
    and equals_canon: "k \<noteq> 0 \<Longrightarrow> k' \<noteq> 0 \<Longrightarrow> equals k k' \<longleftrightarrow> canon k = canon k'"
begin

lemma canon_zero [simp]: "canon 0 = 0"
  by (simp add: canon_null)

lemma find_empty_canon:
  fixes tbl :: "('k \<times> 'v) list"
  assumes run: "find_empty (canon_entries canon tbl) msk i = Some r" and fits: "mask_fits tbl msk"
  shows "find_empty tbl msk i = Some r"
proof -
  let ?P = "\<lambda>T m i r. T = canon_entries canon tbl \<longrightarrow> m = msk \<longrightarrow> find_empty tbl msk i = Some r"
  have "?P (canon_entries canon tbl) msk i r"
  proof (rule find_empty.raw_induct [where P = ?P, OF _ run], intro impI)
    fix f :: "('c \<times> 'v) list \<Rightarrow> u32 \<Rightarrow> u32 \<Rightarrow> u32 option" and T m i r
    assume "\<And>T m i r. f T m i = Some r \<Longrightarrow> ?P T m i r"
      and "(if fst (T ! unat (i AND m)) = 0 then Some (i AND m) else f T m ((i AND m) + 1)) = Some r"
      and "T = canon_entries canon tbl" "m = msk"
    moreover from fits have "unat (i AND msk) < length tbl" by (simp add: mask_fits_def)
    ultimately show "find_empty tbl msk i = Some r"
      by (subst find_empty.simps) (auto simp: canon_null split: if_splits)
  qed
  then show ?thesis by simp
qed

lemma find_slot_canon:
  fixes tbl :: "('k \<times> 'v::zero) list"
  assumes run: "find_slot default_equals (canon key) (canon_entries canon tbl) msk oi i first = Some r"
    and key: "key \<noteq> 0" and fits: "mask_fits tbl msk" "no_stale_value tbl" "unat i < length tbl"
  shows "find_slot equals key tbl msk oi i first = Some r"
proof -
  let ?P = "\<lambda>(eq :: 'c \<Rightarrow> 'c \<Rightarrow> bool) k T m oi i first r. eq = default_equals \<longrightarrow> k = canon key \<longrightarrow> T = canon_entries canon tbl \<longrightarrow> m = msk \<longrightarrow>
     unat i < length tbl \<longrightarrow> find_slot equals key tbl msk oi i first = Some r"
  have "?P default_equals (canon key) (canon_entries canon tbl) msk oi i first r"
  proof (rule find_slot.raw_induct [where P = ?P, OF _ run], intro impI)
    fix f :: "('c \<Rightarrow> 'c \<Rightarrow> bool) \<Rightarrow> 'c \<Rightarrow> ('c \<times> 'v::zero) list \<Rightarrow> u32 \<Rightarrow> u32 \<Rightarrow> u32 \<Rightarrow> u32 option \<Rightarrow> put_result option"
      and eq k T m oi i first r
    assume IH: "\<And>eq k T m oi i first r. f eq k T m oi i first = Some r \<Longrightarrow> ?P eq k T m oi i first r"
      and body: "(if fst (T ! unat i) = 0 \<and> snd (T ! unat i) = 0
      then Some (Place (case first of None \<Rightarrow> i | Some f \<Rightarrow> f))
      else if eq (fst (T ! unat i)) k then Some (Overwrite i)
      else if (i + 1) AND m = oi
      then Some (case (if fst (T ! unat i) = 0 \<and> first = None then Some i else first) of
          None \<Rightarrow> Full | Some f \<Rightarrow> Place f)
      else f eq k T m oi ((i + 1) AND m)
             (if fst (T ! unat i) = 0 \<and> first = None then Some i else first)) = Some r"
      and T: "eq = default_equals" "k = canon key" "T = canon_entries canon tbl" "m = msk" "unat i < length tbl"
    from fits(1) have i: "unat ((i + 1) AND msk) < length tbl" by (simp add: mask_fits_def)
    show "find_slot equals key tbl msk oi i first = Some r"
    proof (cases "fst (tbl ! unat i) = 0")
      case True
      with fits(2) T body show ?thesis
        by (subst find_slot.simps) (simp add: no_stale_value_def)
    next
      case False
      with key have "equals (fst (tbl ! unat i)) key \<longleftrightarrow> canon (fst (tbl ! unat i)) = canon key"
        by (simp add: equals_canon)
      with False T body i IH [of default_equals "canon key" T msk oi "(i + 1) AND msk" first r] show ?thesis
        by (subst find_slot.simps) (auto simp: canon_null default_equals_def split: if_splits)
    qed
  qed
  with fits(3) show ?thesis by simp
qed

lemma get_from_canon:
  fixes tbl :: "('k \<times> 'v::zero) list"
  assumes run: "get_from default_equals (canon key) (canon_entries canon tbl) msk oi i = Some r"
    and key: "key \<noteq> 0" and fits: "mask_fits tbl msk" "unat i < length tbl"
  shows "get_from equals key tbl msk oi i = Some r"
proof -
  let ?P = "\<lambda>(eq :: 'c \<Rightarrow> 'c \<Rightarrow> bool) k T m oi i r. eq = default_equals \<longrightarrow> k = canon key \<longrightarrow> T = canon_entries canon tbl \<longrightarrow> m = msk \<longrightarrow>
     unat i < length tbl \<longrightarrow> get_from equals key tbl msk oi i = Some r"
  have "?P default_equals (canon key) (canon_entries canon tbl) msk oi i r"
  proof (rule get_from.raw_induct [where P = ?P, OF _ run], intro impI)
    fix f :: "('c \<Rightarrow> 'c \<Rightarrow> bool) \<Rightarrow> 'c \<Rightarrow> ('c \<times> 'v::zero) list \<Rightarrow> u32 \<Rightarrow> u32 \<Rightarrow> u32 \<Rightarrow> 'v option"
      and eq k T m oi i r
    assume IH: "\<And>eq k T m oi i r. f eq k T m oi i = Some r \<Longrightarrow> ?P eq k T m oi i r"
      and body: "(if fst (T ! unat i) = 0 \<and> snd (T ! unat i) = 0 then Some 0
      else if fst (T ! unat i) \<noteq> 0 \<and> eq (fst (T ! unat i)) k then Some (snd (T ! unat i))
      else if (i + 1) AND m = oi then Some 0
      else f eq k T m oi ((i + 1) AND m)) = Some r"
      and T: "eq = default_equals" "k = canon key" "T = canon_entries canon tbl" "m = msk" "unat i < length tbl"
    from fits(1) have i: "unat ((i + 1) AND msk) < length tbl" by (simp add: mask_fits_def)
    from key have "fst (tbl ! unat i) \<noteq> 0 \<Longrightarrow> equals (fst (tbl ! unat i)) key \<longleftrightarrow> canon (fst (tbl ! unat i)) = canon key"
      by (simp add: equals_canon)
    with T body i IH [of default_equals "canon key" T msk oi "(i + 1) AND msk" r] show "get_from equals key tbl msk oi i = Some r"
      by (subst get_from.simps) (auto simp: canon_null default_equals_def split: if_splits)
  qed
  with fits(2) show ?thesis by simp
qed

lemma find_key_canon:
  fixes tbl :: "('k \<times> 'v::zero) list"
  assumes run: "find_key default_equals (canon key) (canon_entries canon tbl) msk i = Some r"
    and key: "key \<noteq> 0" and fits: "mask_fits tbl msk"
  shows "find_key equals key tbl msk i = Some r"
proof -
  let ?P = "\<lambda>(eq :: 'c \<Rightarrow> 'c \<Rightarrow> bool) k T m i r. eq = default_equals \<longrightarrow> k = canon key \<longrightarrow> T = canon_entries canon tbl \<longrightarrow> m = msk \<longrightarrow>
     find_key equals key tbl msk i = Some r"
  have "?P default_equals (canon key) (canon_entries canon tbl) msk i r"
  proof (rule find_key.raw_induct [where P = ?P, OF _ run], intro impI)
    fix f :: "('c \<Rightarrow> 'c \<Rightarrow> bool) \<Rightarrow> 'c \<Rightarrow> ('c \<times> 'v::zero) list \<Rightarrow> u32 \<Rightarrow> u32 \<Rightarrow> u32 option option"
      and eq k T m i r
    assume IH: "\<And>eq k T m i r. f eq k T m i = Some r \<Longrightarrow> ?P eq k T m i r"
      and body: "(if fst (T ! unat (i AND m)) = 0 \<and> snd (T ! unat (i AND m)) = 0 then Some None
      else if fst (T ! unat (i AND m)) \<noteq> 0 \<and> eq (fst (T ! unat (i AND m))) k then Some (Some (i AND m))
      else f eq k T m ((i AND m) + 1)) = Some r"
      and T: "eq = default_equals" "k = canon key" "T = canon_entries canon tbl" "m = msk"
    from fits have i: "unat (i AND msk) < length tbl" by (simp add: mask_fits_def)
    from key have "fst (tbl ! unat (i AND msk)) \<noteq> 0 \<Longrightarrow>
        equals (fst (tbl ! unat (i AND msk))) key \<longleftrightarrow> canon (fst (tbl ! unat (i AND msk))) = canon key"
      by (simp add: equals_canon)
    with T body i IH [of default_equals "canon key" T msk "(i AND msk) + 1" r] show "find_key equals key tbl msk i = Some r"
      by (subst find_key.simps) (auto simp: canon_null default_equals_def split: if_splits)
  qed
  then show ?thesis by simp
qed

lemma rehash_canon:
  "rehash content_hash msk (canon_entries canon bins) (canon_entries canon tbl) = Some T \<Longrightarrow> mask_fits tbl msk \<Longrightarrow>
    \<exists>tbl'. rehash hash msk bins tbl = Some tbl' \<and> T = canon_entries canon tbl'"
proof (induction bins arbitrary: tbl)
  case (Cons e bins)
  obtain k v where e: "e = (k, v)" by (cases e)
  show ?case
  proof (cases "k = 0")
    case True
    with Cons e show ?thesis by (simp add: canon_null)
  next
    case False
    with Cons.prems e obtain i where
      "find_empty (canon_entries canon tbl) msk (content_hash (canon k)) = Some i"
      "rehash content_hash msk (canon_entries canon bins) (canon_entries canon (tbl[unat i := (k, v)])) = Some T"
      by (auto simp: canon_null split: bind_splits)
    moreover from this(1) Cons.prems(2) have "find_empty tbl msk (content_hash (canon k)) = Some i"
      by (rule find_empty_canon)
    ultimately show ?thesis using Cons.IH [of "tbl[unat i := (k, v)]"] Cons.prems(2) False e by (simp add: hash_canon)
  qed
qed simp

lemma find_move_canon:
  fixes tbl :: "('k \<times> 'v::zero) list"
  assumes run: "find_move content_hash (canon_entries canon tbl) msk i j = Some r"
    and fits: "mask_fits tbl msk" "no_stale_value tbl"
  shows "find_move hash tbl msk i j = Some r"
proof -
  let ?P = "\<lambda>(h :: 'c \<Rightarrow> u32) T m i j r. h = content_hash \<longrightarrow> T = canon_entries canon tbl \<longrightarrow> m = msk \<longrightarrow>
     find_move hash tbl msk i j = Some r"
  have "?P content_hash (canon_entries canon tbl) msk i j r"
  proof (rule find_move.raw_induct [where P = ?P, OF _ run], intro impI)
    fix f :: "('c \<Rightarrow> u32) \<Rightarrow> ('c \<times> 'v) list \<Rightarrow> u32 \<Rightarrow> u32 \<Rightarrow> u32 \<Rightarrow> u32 option option"
      and hs T m i j r
    assume IH: "\<And>h T m i j r. f h T m i j = Some r \<Longrightarrow> ?P h T m i j r"
      and body: "(let j' = (j + 1) AND m; replace = T ! unat j' in
      if fst replace = 0 \<and> snd replace = 0 then Some None
      else (let h = hs (fst replace) AND m in
        if i \<le> j' \<and> i < h \<and> h \<le> j' then f hs T m i j'
        else if i > j' \<and> (i < h \<or> h \<le> j') then f hs T m i j'
        else Some (Some j'))) = Some r"
      and T: "hs = content_hash" "T = canon_entries canon tbl" "m = msk"
    from fits(1) have j: "unat ((j + 1) AND msk) < length tbl" by (simp add: mask_fits_def)
    with fits(2) have "fst (tbl ! unat ((j + 1) AND msk)) = 0 \<Longrightarrow> snd (tbl ! unat ((j + 1) AND msk)) = 0"
      by (simp add: no_stale_value_def)
    with T body j IH [of content_hash T msk i "(j + 1) AND msk" r] show "find_move hash tbl msk i j = Some r"
      by (subst find_move.simps) (auto simp: canon_null hash_canon Let_def split: if_splits)
  qed
  then show ?thesis by simp
qed

lemma close_gap_canon:
  fixes tbl :: "('k \<times> 'v::zero) list"
  assumes run: "close_gap content_hash msk (canon_entries canon tbl) i = Some T'"
    and fits: "mask_fits tbl msk" "no_stale_value tbl"
  shows "\<exists>tbl'. close_gap hash msk tbl i = Some tbl' \<and> T' = canon_entries canon tbl'"
proof -
  let ?P = "\<lambda>(h :: 'c \<Rightarrow> u32) m T i T'. \<forall>tbl. h = content_hash \<longrightarrow> T = canon_entries canon tbl \<longrightarrow> m = msk \<longrightarrow>
     mask_fits tbl msk \<longrightarrow> no_stale_value tbl \<longrightarrow> (\<exists>tbl'. close_gap hash msk tbl i = Some tbl' \<and> T' = canon_entries canon tbl')"
  have "?P content_hash msk (canon_entries canon tbl) i T'"
  proof (rule close_gap.raw_induct [where P = ?P, OF _ run], intro allI impI)
    fix f :: "('c \<Rightarrow> u32) \<Rightarrow> u32 \<Rightarrow> ('c \<times> 'v) list \<Rightarrow> u32 \<Rightarrow> ('c \<times> 'v) list option"
      and h m T i T' and tbl :: "('k \<times> 'v) list"
    assume IH: "\<And>h m T i T'. f h m T i = Some T' \<Longrightarrow> ?P h m T i T'"
      and body: "(let tbl' = T[unat i := (0, 0)] in
      Option.bind (find_move h tbl' m i i)
       (\<lambda>r. case r of None \<Rightarrow> Some tbl' | Some j \<Rightarrow> f h m (tbl'[unat i := tbl' ! unat j]) j)) = Some T'"
      and T: "h = content_hash" "T = canon_entries canon tbl" "m = msk" and ok: "mask_fits tbl msk" "no_stale_value tbl"
    let ?tbl = "tbl[unat i := (0, 0)]"
    have cleared: "T[unat i := (0, 0)] = canon_entries canon ?tbl"
      using canon_entries_simps(3) [of canon tbl "unat i" 0 0] T(2) by simp
    have ok': "mask_fits ?tbl msk" "no_stale_value ?tbl"
      using ok by (simp_all add: no_stale_value_update)
    from body T(1,3) obtain r where r: "find_move content_hash (canon_entries canon ?tbl) msk i i = Some r"
      "(case r of None \<Rightarrow> Some (canon_entries canon ?tbl)
         | Some j \<Rightarrow> f content_hash msk ((canon_entries canon ?tbl)[unat i := canon_entries canon ?tbl ! unat j]) j) = Some T'"
      unfolding Let_def cleared by (auto split: bind_splits)
    note move = find_move_canon [OF r(1) ok']
    show "\<exists>tbl'. close_gap hash msk tbl i = Some tbl' \<and> T' = canon_entries canon tbl'"
    proof (cases r)
      case None
      with move r(2) show ?thesis by (subst close_gap.simps) (simp add: Let_def)
    next
      case (Some j)
      have "unat j < length ?tbl"
        using find_move_in_table [OF move [unfolded Some]] ok' (1) by (auto simp: mask_fits_def)
      let ?tbl2 = "?tbl[unat i := ?tbl ! unat j]"
      from \<open>unat j < length ?tbl\<close> have "(canon_entries canon ?tbl)[unat i := canon_entries canon ?tbl ! unat j] = canon_entries canon ?tbl2"
        using canon_entries_simps(3) [of canon ?tbl "unat i" "fst (?tbl ! unat j)" "snd (?tbl ! unat j)"]
        by (simp del: canon_entries_simps(3))
      moreover have "mask_fits ?tbl2 msk" using ok' by simp
      moreover have "no_stale_value ?tbl2"
        by (rule no_stale_value_update [OF ok'(2)])
           (use ok'(2) \<open>unat j < length ?tbl\<close> in \<open>simp add: no_stale_value_def\<close>)
      ultimately show ?thesis
        using Some move r(2) IH [of content_hash msk "canon_entries canon ?tbl2" j T']
        by (subst close_gap.simps) (simp add: Let_def)
    qed
  qed
  with fits show ?thesis by simp
qed

text \<open>The operations on a table whose contents are well formed.\<close>

abbreviation table_ok :: "('k, 'v::zero) hashtable \<Rightarrow> bool" where
  "table_ok t \<equiv> ht_ok content_hash (canon_table canon t)"

abbreviation contents :: "('k, 'v::zero) hashtable \<Rightarrow> 'c \<Rightarrow> 'v option" where
  "contents t \<equiv> ht_map (canon_table canon t)"

lemma table_fits:
  assumes "table_ok t"
  shows "mask_fits (ht_table t) (ht_capacitymask t)" "no_stale_value (ht_table t)"
    "unat (i AND ht_capacitymask t) < length (ht_table t)"
proof -
  from assms obtain b where b: "b < 32" "length (ht_table t) = 2 ^ b" "clean (canon_entries canon (ht_table t))"
    "ht_capacitymask t = mask b" by (rule ht_okE) simp
  then show m: "mask_fits (ht_table t) (ht_capacitymask t)" by (simp add: mask_fits_pow)
  then show "unat (i AND ht_capacitymask t) < length (ht_table t)" by (simp add: mask_fits_def)
  from b(3) show "no_stale_value (ht_table t)" by (auto simp: clean_def no_stale_value_def canon_null)
qed

lemma get_canon:
  assumes "table_ok t"
  shows "ht_get hash equals key t = Some (case contents t (canon key) of None \<Rightarrow> 0 | Some v \<Rightarrow> v)"
proof (cases "key = 0")
  case True
  with get_ok [OF assms, of "canon key"] show ?thesis
    by (simp add: ht_get_def canon_null split: option.splits prod.splits)
next
  case False
  with get_ok [OF assms, of "canon key"]
  have "get_from default_equals (canon key) (canon_entries canon (ht_table t)) (ht_capacitymask t)
      (content_hash (canon key) AND ht_capacitymask t) (content_hash (canon key) AND ht_capacitymask t)
    = Some (case contents t (canon key) of None \<Rightarrow> 0 | Some v \<Rightarrow> v)"
    by (simp add: ht_get_def canon_null Let_def)
  from get_from_canon [OF this False table_fits(1,3) [OF assms]] False show ?thesis
    by (simp add: ht_get_def hash_canon)
qed

lemma find_key_table:
  assumes "table_ok t" "key \<noteq> 0"
    and "find_key default_equals (canon key) (canon_entries canon (ht_table t)) (ht_capacitymask t) (content_hash (canon key)) = Some r"
  shows "find_key equals key (ht_table t) (ht_capacitymask t) (hash key) = Some r"
  using find_key_canon [OF assms(3,2) table_fits(1) [OF assms(1)]] assms(2) by (simp add: hash_canon)

lemma contains_canon:
  assumes "table_ok t"
  shows "contains hash equals key t = Some (contents t (canon key) \<noteq> None)"
proof (cases "key = 0")
  case True
  with contains_ok [OF assms, of "canon key"] show ?thesis by (simp add: contains_def canon_null)
next
  case False
  with contains_ok [OF assms, of "canon key"] find_key_table [OF assms False] show ?thesis
    by (auto simp: contains_def canon_null)
qed

lemma resize_canon:
  assumes "resize content_hash n (canon_table canon t) = Some T'" "mask_fits (replicate (unat n) (0 :: 'k, 0 :: 'v::zero)) (n - 1)"
  shows "\<exists>t' :: ('k, 'v) hashtable. resize hash n t = Some t' \<and> T' = canon_table canon t'"
proof -
  have new: "replicate (unat n) (0, 0) = canon_entries canon (replicate (unat n) (0, 0))"
    by (simp add: canon_entries_def)
  from assms(1) obtain tbl where
    "rehash content_hash (n - 1) (canon_entries canon (ht_table t)) (replicate (unat n) (0, 0)) = Some tbl"
    "T' = (canon_table canon t)\<lparr>ht_table := tbl, ht_capacity := n, ht_capacitymask := n - 1,
             ht_threshold := threshold_of n (ht_loadfactor t)\<rparr>"
    by (auto simp: resize_def split: bind_splits)
  with rehash_canon [OF _ assms(2), folded new] show ?thesis
    unfolding new by (fastforce simp: resize_def canon_table_def)
qed

lemma put_simulates:
  fixes t :: "('k, 'v::zero) hashtable"
  assumes ok: "table_ok t" and small: "ht_capacity t < 2 ^ 31"
    and run: "put content_hash default_equals (canon key) val (canon_table canon t) = Some T'"
  shows "\<exists>t'. put hash equals key val t = Some t' \<and> T' = canon_table canon t'"
proof (cases "key = 0")
  case True
  with run show ?thesis by (auto simp: put_def canon_table_def)
next
  case False
  then have c: "canon key \<noteq> 0" by (simp add: canon_null)
  define grows where "grows \<longleftrightarrow> ht_size t > ht_threshold t"
  obtain t1 where t1: "table_ok t1" "(if grows then resize hash (push_bit 1 (ht_capacity t)) t else Some t) = Some t1"
    "(if grows then resize content_hash (push_bit 1 (ht_capacity t)) (canon_table canon t) else Some (canon_table canon t))
      = Some (canon_table canon t1)"
  proof (cases grows)
    case True
    from resize_ok [OF ok] small obtain T1 where T1: "resize content_hash (push_bit 1 (ht_capacity t)) (canon_table canon t) = Some T1"
      "ht_ok content_hash T1" by auto
    moreover have "mask_fits (replicate (unat (push_bit 1 (ht_capacity t))) (0 :: 'k, 0 :: 'v)) (push_bit 1 (ht_capacity t) - 1)"
    proof -
      from ok obtain b where b: "b < 32" "ht_capacity t = 2 ^ b" by (rule ht_okE) simp
      with small have "Suc b < 32" by (cases "b = 31") (simp_all add: less_Suc_eq)
      with b show ?thesis
        by (simp only: word_shift One_nat_def) (rule mask_fits_pow, simp_all only: length_replicate pow_word)
    qed
    ultimately obtain t1 where "resize hash (push_bit 1 (ht_capacity t)) t = Some t1" "T1 = canon_table canon t1"
      using resize_canon by blast
    with True T1 show thesis by (intro that [of t1]) simp_all
  qed (use ok in \<open>auto intro: that\<close>)
  let ?oi = "hash key AND ht_capacitymask t1"
  have "Option.bind (if grows then resize content_hash (push_bit 1 (ht_capacity t)) (canon_table canon t)
        else Some (canon_table canon t)) (\<lambda>u. let oindex = content_hash (canon key) AND ht_capacitymask u in
      Option.bind (find_slot default_equals (canon key) (ht_table u) (ht_capacitymask u) oindex oindex None)
       (\<lambda>r. case r of
           Overwrite i \<Rightarrow> Some (u\<lparr>ht_table := (ht_table u)[unat i := (fst (ht_table u ! unat i), val)]\<rparr>)
         | Place i \<Rightarrow> Some (u\<lparr>ht_table := (ht_table u)[unat i := (canon key, val)], ht_size := ht_size u + 1\<rparr>)
         | Full \<Rightarrow> None)) = Some T'"
    using run by (simp only: put_def if_not_P [OF c] grows_def canon_table_fields)
  then obtain r where
    r: "find_slot default_equals (canon key) (canon_entries canon (ht_table t1)) (ht_capacitymask t1) ?oi ?oi None = Some r"
      "(case r of
           Overwrite i \<Rightarrow> Some ((canon_table canon t1)\<lparr>ht_table := (canon_entries canon (ht_table t1))[unat i :=
             (fst (canon_entries canon (ht_table t1) ! unat i), val)]\<rparr>)
         | Place i \<Rightarrow> Some ((canon_table canon t1)\<lparr>ht_table := (canon_entries canon (ht_table t1))[unat i := (canon key, val)],
             ht_size := ht_size t1 + 1\<rparr>)
         | Full \<Rightarrow> None) = Some T'"
    unfolding t1(3) using False by (auto simp: hash_canon Let_def simp del: canon_entries_simps split: bind_splits)
  from find_slot_canon [OF r(1) False table_fits(1,2,3) [OF t1(1)]]
  have slot: "find_slot equals key (ht_table t1) (ht_capacitymask t1) ?oi ?oi None = Some r" .
  show ?thesis
  proof (cases r)
    case (Overwrite i)
    have "(canon_entries canon (ht_table t1))[unat i := (fst (canon_entries canon (ht_table t1) ! unat i), val)]
        = canon_entries canon ((ht_table t1)[unat i := (fst (ht_table t1 ! unat i), val)])"
      by (cases "unat i < length (ht_table t1)") (simp_all add: list_update_beyond)
    with Overwrite r(2) slot t1(2) False show ?thesis by (simp add: put_def grows_def canon_table_def)
  next
    case (Place i)
    with r(2) slot t1(2) False show ?thesis by (simp add: put_def grows_def canon_table_def)
  next
    case Full
    with r(2) show ?thesis by simp
  qed
qed

lemma put_canon:
  assumes "table_ok t" "ht_capacity t < 2 ^ 31"
  shows "\<exists>t'. put hash equals key val t = Some t' \<and> table_ok t' \<and> contents t' = (contents t)(canon key \<mapsto> val)"
proof -
  from put_ok [OF assms(1)] assms(2) obtain T' where
    "put content_hash default_equals (canon key) val (canon_table canon t) = Some T'" "ht_ok content_hash T'"
    "ht_map T' = (contents t)(canon key \<mapsto> val)" by fastforce
  with put_simulates [OF assms] show ?thesis by fastforce
qed

lemma remove_canon:
  assumes "table_ok t"
  shows "\<exists>t'. ht_remove hash equals key t = Some (case contents t (canon key) of None \<Rightarrow> 0 | Some v \<Rightarrow> v, t') \<and>
    table_ok t' \<and> contents t' = (contents t)(canon key := None)"
proof -
  let ?v = "case contents t (canon key) of None \<Rightarrow> 0 | Some v \<Rightarrow> v"
  from remove_ok [OF assms, of "canon key"] obtain T' where
    T': "ht_remove content_hash default_equals (canon key) (canon_table canon t) = Some (?v, T')" "ht_ok content_hash T'"
    "ht_map T' = (contents t)(canon key := None)" by blast
  have "\<exists>t'. ht_remove hash equals key t = Some (?v, t') \<and> T' = canon_table canon t'"
  proof (cases "key = 0")
    case True
    with T'(1) show ?thesis
      by (auto simp: ht_remove_def canon_table_def split: option.splits)
  next
    case False
    then have c: "canon key \<noteq> 0" by (simp add: canon_null)
    from T'(1) c obtain r where
      r: "find_key default_equals (canon key) (canon_entries canon (ht_table t)) (ht_capacitymask t) (content_hash (canon key)) = Some r"
        "(case r of None \<Rightarrow> Some (0, canon_table canon t)
         | Some i \<Rightarrow> do {
             tbl \<leftarrow> close_gap content_hash (ht_capacitymask t) (canon_entries canon (ht_table t)) i;
             Some (snd (canon_entries canon (ht_table t) ! unat i), (canon_table canon t)\<lparr>ht_table := tbl, ht_size := ht_size t - 1\<rparr>)
           }) = Some (?v, T')"
      by (auto simp: ht_remove_def split: bind_splits)
    note key = find_key_table [OF assms False r(1)]
    show ?thesis
    proof (cases r)
      case None
      with r(2) have "Some (0, canon_table canon t) = Some (?v, T')" by (simp only: option.case)
      then have "(0, canon_table canon t) = (?v, T')" by (rule option.inject [THEN iffD1])
      then have "?v = 0" "T' = canon_table canon t" by (metis prod.inject)+
      with None key False show ?thesis by (simp add: ht_remove_def)
    next
      case (Some i)
      have "unat i < length (ht_table t)"
        using find_key_in_table [OF key [unfolded Some]] table_fits(1) [OF assms] by (auto simp: mask_fits_def)
      with Some r(2) key False close_gap_canon [OF _ table_fits(1,2) [OF assms], of i] show ?thesis
        by (fastforce simp: ht_remove_def canon_table_def split: bind_splits)
    qed
  qed
  with T'(2,3) show ?thesis by auto
qed

end

end
