(* ===== verification/Hash_Functions.thy ===== *)
theory Hash_Functions
  imports Content_Keys
begin

text \<open>
  \<^verbatim>\<open>Collection/hashfunction.cc\<close>, \<^verbatim>\<open>Plugins/analysis.cc\<close>, \<^verbatim>\<open>Plugins/persistrace.cc\<close>: the hash
  functions and equality tests of the tables whose keys are compared by what they point to.
  Each pair is shown to be a test of equal contents with a hash that depends on the contents
  only.  A C string is the list of its bytes from a pointer on; the byte after the list is
  the terminator.  The loops count characters in 32 bits, which is enough below 4 GiB.
\<close>

section \<open>Contents of a pointer\<close>

datatype 'a content = Null | Content 'a

instantiation content :: (type) zero
begin

definition zero_content :: "'a content" where "0 = Null"

instance ..

end

definition pointee :: "(addr \<Rightarrow> 'a) \<Rightarrow> addr \<Rightarrow> 'a content" where
  "pointee at_p p = (if p = 0 then Null else Content (at_p p))"

definition hash_content :: "('a \<Rightarrow> u32) \<Rightarrow> 'a content \<Rightarrow> u32" where
  "hash_content h c = (case c of Null \<Rightarrow> 0 | Content x \<Rightarrow> h x)"

lemma pointee_keys:
  assumes "\<And>x y. eq x y \<longleftrightarrow> view x = view y" "\<And>x. h x = vh (view x)"
  shows "content_keys (pointee (\<lambda>p. view (at_p p))) (\<lambda>p. h (at_p p)) (\<lambda>p q. eq (at_p p) (at_p q)) (hash_content vh)"
  by unfold_locales (auto simp: pointee_def hash_content_def zero_content_def assms)

section \<open>Integers and cache lines\<close>

definition int64_hash :: "u64 \<Rightarrow> u32" where
  "int64_hash key =
     (let key1 = NOT key + push_bit 18 key;
          key2 = key1 XOR drop_bit 31 key1;
          key3 = key2 * 21;
          key4 = key3 XOR drop_bit 11 key3;
          key5 = key4 + push_bit 6 key4;
          key6 = key5 XOR drop_bit 22 key5
      in ucast key6)"

text \<open>A cache line is given by its id.\<close>

definition cacheLineHashFunction :: "addr \<Rightarrow> u32" where
  "cacheLineHashFunction line = ucast (line XOR drop_bit 3 line XOR drop_bit 6 line)"

definition cacheLineEquals :: "addr \<Rightarrow> addr \<Rightarrow> bool" where
  "cacheLineEquals c1 c2 \<longleftrightarrow> c1 = c2"

section \<open>Vectors of writes\<close>

text \<open>The vector holds pairs of pointers, to an execution and to an action.\<close>

fun write_vec_hash :: "(addr \<times> addr) list \<Rightarrow> u32 \<Rightarrow> u32" where
  "write_vec_hash [] hash = hash"
| "write_vec_hash ((p1, p2) # vec) hash =
     (let h = hash XOR ucast (drop_bit 3 p1 XOR drop_bit 3 p2)
      in write_vec_hash vec (drop_bit 3 h XOR push_bit 10 h))"

definition WriteVecHashFunction :: "(addr \<times> addr) list \<Rightarrow> u32" where
  "WriteVecHashFunction vec = write_vec_hash vec (of_nat (length vec))"

fun pairs_equal :: "(addr \<times> addr) list \<Rightarrow> (addr \<times> addr) list \<Rightarrow> bool" where
  "pairs_equal ((p1, p2) # vec1) ((q1, q2) # vec2) =
     (if p1 \<noteq> q1 \<or> p2 \<noteq> q2 then False else pairs_equal vec1 vec2)"
| "pairs_equal _ _ = True"

definition WriteVecEquals :: "(addr \<times> addr) list \<Rightarrow> (addr \<times> addr) list \<Rightarrow> bool" where
  "WriteVecEquals vec1 vec2 = (if length vec1 \<noteq> length vec2 then False else pairs_equal vec1 vec2)"

lemma pairs_equal_iff: "length vec1 = length vec2 \<Longrightarrow> pairs_equal vec1 vec2 \<longleftrightarrow> vec1 = vec2"
  by (induction vec1 vec2 rule: pairs_equal.induct) auto

lemma WriteVecEquals_iff: "WriteVecEquals vec1 vec2 \<longleftrightarrow> vec1 = vec2"
  using pairs_equal_iff [of vec1 vec2] by (auto simp: WriteVecEquals_def)

section \<open>Strings\<close>

definition text_of :: "u8 list \<Rightarrow> u8 list" where
  "text_of f = takeWhile (\<lambda>c. c \<noteq> 0) f"

text \<open>\<^verbatim>\<open>char\<close> is signed, so a character is extended with its sign.\<close>

fun filename_hash :: "u8 list \<Rightarrow> u32 \<Rightarrow> u32 \<Rightarrow> u32" where
  "filename_hash [] index hash = hash"
| "filename_hash (c # f) index hash =
     (if c = 0 then hash
      else (let h = hash XOR (scast c XOR push_bit 8 index)
            in filename_hash f (index + 1) (drop_bit 3 h XOR push_bit 10 h)))"

definition filenameHashFunction :: "u8 list \<Rightarrow> u32" where
  "filenameHashFunction f = filename_hash f 0 1"

definition char_at :: "u8 list \<Rightarrow> u8" where
  "char_at f = (case f of [] \<Rightarrow> 0 | c # _ \<Rightarrow> c)"

fun filenameEquals :: "u8 list \<Rightarrow> u8 list \<Rightarrow> bool" where
  "filenameEquals (c1 # f1) (c2 # f2) =
     (if c1 \<noteq> 0 \<and> c2 \<noteq> 0 then (if c1 \<noteq> c2 then False else filenameEquals f1 f2) else c1 = c2)"
| "filenameEquals f1 f2 = (char_at f1 = char_at f2)"

lemma filenameEquals_iff: "filenameEquals f1 f2 \<longleftrightarrow> text_of f1 = text_of f2"
  by (induction f1 f2 rule: filenameEquals.induct) (auto simp: text_of_def char_at_def split: list.split)

lemma filename_hash_text: "filename_hash f index hash = filename_hash (text_of f) index hash"
  by (induction f index hash rule: filename_hash.induct) (auto simp: text_of_def)

fun position_hash :: "u8 list \<Rightarrow> u32 \<Rightarrow> u32" where
  "position_hash [] hash = hash"
| "position_hash (c # position) hash =
     (if c = 0 then hash else position_hash position (push_bit 2 hash XOR scast c))"

definition hashErrorPosition :: "u8 list content \<Rightarrow> u32" where
  "hashErrorPosition position = (case position of Null \<Rightarrow> 0 | Content f \<Rightarrow> position_hash f 0)"

text \<open>\<^verbatim>\<open>strcmp\<close> compares the texts; a null pointer equals nothing, not even itself.\<close>

definition equalErrorPosition :: "u8 list content \<Rightarrow> u8 list content \<Rightarrow> bool" where
  "equalErrorPosition p1 p2 = (case (p1, p2) of (Content f1, Content f2) \<Rightarrow> text_of f1 = text_of f2 | _ \<Rightarrow> False)"

lemma position_hash_text: "position_hash f hash = position_hash (text_of f) hash"
  by (induction f hash rule: position_hash.induct) (auto simp: text_of_def)

section \<open>Lines of an execution\<close>

text \<open>A key names an execution, by its address, and a cache line.\<close>

definition hashCacheLineKey :: "addr \<times> addr \<Rightarrow> u32" where
  "hashCacheLineKey clm = int64_hash (fst clm XOR drop_bit 6 (snd clm))"

definition equalCacheLineKey :: "(addr \<times> addr) content \<Rightarrow> (addr \<times> addr) content \<Rightarrow> bool" where
  "equalCacheLineKey clm1 clm2 =
     (case (clm1, clm2) of
        (Content (e1, c1), Content (e2, c2)) \<Rightarrow> e1 = e2 \<and> c1 = c2
      | (Null, Null) \<Rightarrow> True
      | _ \<Rightarrow> False)"

section \<open>The tables\<close>

text \<open>What a pointer points to is a parameter: it is part of the memory the program runs in.\<close>

interpretation cache_lines: content_keys "pointee line_at" "\<lambda>p. cacheLineHashFunction (line_at p)"
    "\<lambda>p q. cacheLineEquals (line_at p) (line_at q)" "hash_content cacheLineHashFunction"
  for line_at
  by (rule pointee_keys [where view = "\<lambda>x. x"]) (simp_all add: cacheLineEquals_def)

interpretation write_vecs: content_keys "pointee vec_at" "\<lambda>p. WriteVecHashFunction (vec_at p)"
    "\<lambda>p q. WriteVecEquals (vec_at p) (vec_at q)" "hash_content WriteVecHashFunction"
  for vec_at
  by (rule pointee_keys [where view = "\<lambda>x. x"]) (simp_all add: WriteVecEquals_iff)

interpretation file_names: content_keys "pointee (\<lambda>p. text_of (name_at p))" "\<lambda>p. filenameHashFunction (name_at p)"
    "\<lambda>p q. filenameEquals (name_at p) (name_at q)" "hash_content filenameHashFunction"
  for name_at
  by (rule pointee_keys) (simp_all add: filenameEquals_iff filenameHashFunction_def filename_hash_text [symmetric])

interpretation error_positions: content_keys "pointee (\<lambda>p. text_of (name_at p))"
    "\<lambda>p. hashErrorPosition (pointee name_at p)" "\<lambda>p q. equalErrorPosition (pointee name_at p) (pointee name_at q)"
    "hash_content (\<lambda>f. position_hash f 0)"
  for name_at
  by unfold_locales
    (auto simp: pointee_def hash_content_def zero_content_def hashErrorPosition_def equalErrorPosition_def
      position_hash_text [symmetric])

interpretation line_keys: content_keys "pointee key_at" "\<lambda>p. hashCacheLineKey (key_at p)"
    "\<lambda>p q. equalCacheLineKey (pointee key_at p) (pointee key_at q)" "hash_content hashCacheLineKey"
  for key_at
  by unfold_locales
    (auto simp: pointee_def hash_content_def zero_content_def equalCacheLineKey_def split: prod.split)

section \<open>The table of file names\<close>

abbreviation file_hash :: "(addr \<Rightarrow> u8 list) \<Rightarrow> addr \<Rightarrow> u32" where
  "file_hash name_at \<equiv> \<lambda>p. filenameHashFunction (name_at p)"

abbreviation file_equals :: "(addr \<Rightarrow> u8 list) \<Rightarrow> addr \<Rightarrow> addr \<Rightarrow> bool" where
  "file_equals name_at \<equiv> \<lambda>p q. filenameEquals (name_at p) (name_at q)"

definition file_map_ok :: "(addr \<Rightarrow> u8 list) \<Rightarrow> (addr, u64) hashtable \<Rightarrow> bool" where
  "file_map_ok name_at t \<longleftrightarrow>
     ht_ok (hash_content filenameHashFunction) (canon_table (pointee (\<lambda>p. text_of (name_at p))) t)"

text \<open>
  C35: The table of mapped files is a map from the texts of the names to numbers: a number
  stored under one pointer to a name is found under every pointer to the same text, and all
  other names keep theirs.
\<close>
theorem file_map_by_text:
  assumes "file_map_ok name_at t" "ht_capacity t < 2 ^ 31" "p \<noteq> 0"
  shows "\<exists>t'. put (file_hash name_at) (file_equals name_at) p n t = Some t' \<and> file_map_ok name_at t' \<and>
    (\<forall>q. q \<noteq> 0 \<longrightarrow> ht_get (file_hash name_at) (file_equals name_at) q t' =
      (if text_of (name_at q) = text_of (name_at p) then Some n
       else ht_get (file_hash name_at) (file_equals name_at) q t))"
proof -
  have ok: "file_names.table_ok name_at t" using assms(1) by (simp add: file_map_ok_def)
  from file_names.put_canon [OF ok assms(2), of p n] obtain t' where
    t': "put (file_hash name_at) (file_equals name_at) p n t = Some t'" "file_names.table_ok name_at t'"
      "file_names.contents name_at t' = (file_names.contents name_at t)(pointee (\<lambda>p. text_of (name_at p)) p \<mapsto> n)"
    by blast
  have "ht_get (file_hash name_at) (file_equals name_at) q t' =
      (if text_of (name_at q) = text_of (name_at p) then Some n
       else ht_get (file_hash name_at) (file_equals name_at) q t)" if "q \<noteq> 0" for q
    using file_names.get_canon [OF t'(2), of q] file_names.get_canon [OF ok, of q] assms(3) that
    by (simp add: t'(3) pointee_def)
  with t' show ?thesis by (auto simp: file_map_ok_def)
qed

lemma new_file_map_ok: "file_map_ok name_at (HashTable 4 (1/2))"
proof -
  have "canon_table c (HashTable 4 (1/2) :: (addr, u64) hashtable) = HashTable ((2::u32) ^ 2) (1/2)" if "c 0 = 0" for c :: "addr \<Rightarrow> u8 list content"
    using that by (simp add: canon_table_def HashTable_def canon_entries_def)
  moreover have "ht_ok h (HashTable ((2::u32) ^ 2) (1/2) :: (u8 list content, u64) hashtable)" for h :: "u8 list content \<Rightarrow> u32"
    by (rule HashTable_ok) simp_all
  ultimately show ?thesis by (simp add: file_map_ok_def pointee_def zero_content_def)
qed

theorem file_map_by_text_witness:
  "\<exists>name_at t'. name_at 16 \<noteq> name_at 32 \<and>
     put (file_hash name_at) (file_equals name_at) 16 7 (HashTable 4 (1/2)) = Some t' \<and>
     ht_get (file_hash name_at) (file_equals name_at) 32 t' = Some (7 :: u64)"
proof -
  define name_at :: "addr \<Rightarrow> u8 list" where "name_at = (\<lambda>p. if p = 16 then [97, 0, 98] else [97])"
  have "ht_capacity (HashTable 4 (1/2) :: (addr, u64) hashtable) < 2 ^ 31" "(16 :: addr) \<noteq> 0" by (simp_all add: HashTable_def)
  from file_map_by_text [OF new_file_map_ok this, of name_at 7] obtain t' where
    t': "put (file_hash name_at) (file_equals name_at) 16 7 (HashTable 4 (1/2) :: (addr, u64) hashtable) = Some t'"
      "\<forall>q. q \<noteq> 0 \<longrightarrow> ht_get (file_hash name_at) (file_equals name_at) q t' =
      (if text_of (name_at q) = text_of (name_at 16) then Some 7
       else ht_get (file_hash name_at) (file_equals name_at) q (HashTable 4 (1/2)))" by blast
  from t'(2) [rule_format, of 32] have "ht_get (file_hash name_at) (file_equals name_at) 32 t' = Some 7"
    by (simp add: name_at_def text_of_def)
  moreover have "name_at 16 \<noteq> name_at 32" by (simp add: name_at_def)
  ultimately show ?thesis using t'(1) by blast
qed

end
