(* ===== verification/Snapshots.thy ===== *)
theory Snapshots
  imports Checker
begin

text \<open>
  \<^verbatim>\<open>Memory/snapshot.cc\<close>: snapshots by forking.  Taking one leaves the process behind,
  waiting for the child that goes on in its place; rolling back ends processes until the one
  that took the snapshot is reached, which forks a new child.  What the processes share stays
  as it is; everything else is as it was when the snapshot was taken.  The theory ends with
  what the driver of the checker relies on: every execution starts from the same memory.
\<close>

section \<open>Processes\<close>

text \<open>
  The private memory of a process, with the context it continues in, and its copy of
  \<^verbatim>\<open>snapshotid\<close>.  Of the waiting processes the nearest ancestor comes first.
\<close>

type_synonym snapshot_id = u32

record 'p process =
  pr_snapshotid :: snapshot_id
  pr_mem :: 'p

record ('p, 'm) processes =
  ps_running :: "'p process option"
  ps_waiting :: "'p process list"
  ps_shared :: 'm
  ps_mIDToRollback :: snapshot_id
  ps_currSnapShotID :: snapshot_id

definition createSharedMemory :: "'p \<Rightarrow> 'm \<Rightarrow> ('p, 'm) processes" where
  "createSharedMemory p m = \<lparr>ps_running = Some \<lparr>pr_snapshotid = 0, pr_mem = p\<rparr>, ps_waiting = [],
     ps_shared = m, ps_mIDToRollback = - 1, ps_currSnapShotID = 0\<rparr>"

text \<open>A turn of the loop of \<^verbatim>\<open>fork_loop\<close> in process \<open>q\<close>: it forks and waits for the child.\<close>

definition fork_turn :: "'p process \<Rightarrow> 'p process list \<Rightarrow> ('p, 'm) processes \<Rightarrow> ('p, 'm) processes" where
  "fork_turn q qs s = s\<lparr>ps_currSnapShotID := pr_snapshotid q + 1, ps_running := Some q, ps_waiting := q # qs\<rparr>"

definition fork_loop :: "bool \<Rightarrow> ('p, 'm) processes \<Rightarrow> ('p, 'm) processes option" where
  "fork_loop nofork s = do {
     p \<leftarrow> ps_running s;
     let q = p\<lparr>pr_snapshotid := ps_currSnapShotID s\<rparr>;
     Some (if nofork then s\<lparr>ps_running := Some q\<rparr> else fork_turn q (ps_waiting s) s)
   }"

text \<open>Where a child goes on: behind the switch of contexts in \<^verbatim>\<open>fork_take_snapshot\<close>.\<close>

definition after_switch :: "('p, 'm) processes \<Rightarrow> ('p, 'm) processes" where
  "after_switch s = s\<lparr>ps_mIDToRollback := - 1\<rparr>"

definition take_snapshot :: "bool \<Rightarrow> ('p, 'm) processes \<Rightarrow> (snapshot_id \<times> ('p, 'm) processes) option" where
  "take_snapshot nofork s = do {
     s1 \<leftarrow> fork_loop nofork s;
     p \<leftarrow> ps_running s1;
     Some (pr_snapshotid p, after_switch s1)
   }"

text \<open>The running process has ended: \<^verbatim>\<open>waitpid\<close> returns in its parent, which ends, too, or forks again.\<close>

fun waitpid_returns :: "'p process list \<Rightarrow> ('p, 'm) processes \<Rightarrow> ('p, 'm) processes" where
  "waitpid_returns [] s = s\<lparr>ps_running := None, ps_waiting := []\<rparr>"
| "waitpid_returns (q # qs) s =
     (if ps_mIDToRollback s \<noteq> pr_snapshotid q then waitpid_returns qs s
      else after_switch (fork_turn q qs s))"

definition fork_exit :: "('p, 'm) processes \<Rightarrow> ('p, 'm) processes" where
  "fork_exit s = waitpid_returns (ps_waiting s) s"

definition snapshot_roll_back :: "snapshot_id \<Rightarrow> ('p, 'm) processes \<Rightarrow> ('p, 'm) processes" where
  "snapshot_roll_back theID s = fork_exit (s\<lparr>ps_mIDToRollback := theID\<rparr>)"

text \<open>What the running process does between these calls, on its own and on the shared memory.\<close>

definition work :: "('p \<times> 'm \<Rightarrow> 'p \<times> 'm) \<Rightarrow> ('p, 'm) processes \<Rightarrow> ('p, 'm) processes" where
  "work f s = (case ps_running s of
       None \<Rightarrow> s
     | Some p \<Rightarrow> let (x, m) = f (pr_mem p, ps_shared s) in s\<lparr>ps_running := Some (p\<lparr>pr_mem := x\<rparr>), ps_shared := m\<rparr>)"

datatype ('p, 'm) command = Work "'p \<times> 'm \<Rightarrow> 'p \<times> 'm" | Take | Roll_Back snapshot_id | Exit_Process

fun exec_command :: "('p, 'm) command \<Rightarrow> ('p, 'm) processes \<Rightarrow> ('p, 'm) processes" where
  "exec_command (Work f) s = work f s"
| "exec_command Take s = (case take_snapshot False s of None \<Rightarrow> s | Some (_, s1) \<Rightarrow> s1)"
| "exec_command (Roll_Back i) s = (if ps_running s = None then s else snapshot_roll_back i s)"
| "exec_command Exit_Process s = (if ps_running s = None then s else fork_exit s)"

section \<open>What a snapshot is\<close>

text \<open>The saved memories, oldest first, numbered from 0; the memory of the program, if it still runs.\<close>

record ('p, 'm) saves =
  sv_saved :: "'p list"
  sv_private :: "'p option"
  sv_shared :: 'm

fun exec_abstract :: "('p, 'm) command \<Rightarrow> ('p, 'm) saves \<Rightarrow> ('p, 'm) saves" where
  "exec_abstract (Work f) a = (case sv_private a of
       None \<Rightarrow> a
     | Some x \<Rightarrow> a\<lparr>sv_private := Some (fst (f (x, sv_shared a))), sv_shared := snd (f (x, sv_shared a))\<rparr>)"
| "exec_abstract Take a = (case sv_private a of None \<Rightarrow> a | Some x \<Rightarrow> a\<lparr>sv_saved := sv_saved a @ [x]\<rparr>)"
| "exec_abstract (Roll_Back i) a =
     (if sv_private a = None then a
      else if unat i < length (sv_saved a)
      then a\<lparr>sv_saved := take (unat i + 1) (sv_saved a), sv_private := Some (sv_saved a ! unat i)\<rparr>
      else a\<lparr>sv_saved := [], sv_private := None\<rparr>)"
| "exec_abstract Exit_Process a = (if sv_private a = None then a else a\<lparr>sv_saved := [], sv_private := None\<rparr>)"

definition abs_processes :: "('p, 'm) processes \<Rightarrow> ('p, 'm) saves" where
  "abs_processes s = \<lparr>sv_saved = rev (map pr_mem (ps_waiting s)),
     sv_private = map_option pr_mem (ps_running s), sv_shared = ps_shared s\<rparr>"

text \<open>The invariant: the waiting processes are numbered by their depth.\<close>

fun numbered :: "'p process list \<Rightarrow> bool" where
  "numbered [] \<longleftrightarrow> True"
| "numbered (q # qs) \<longleftrightarrow> pr_snapshotid q = of_nat (length qs) \<and> numbered qs"

definition processes_ok :: "('p, 'm) processes \<Rightarrow> bool" where
  "processes_ok s \<longleftrightarrow> numbered (ps_waiting s) \<and> length (ps_waiting s) < 2 ^ 32 - 1 \<and>
     (case ps_running s of
        None \<Rightarrow> ps_waiting s = []
      | Some p \<Rightarrow> ps_currSnapShotID s = of_nat (length (ps_waiting s)) \<and> ps_mIDToRollback s = - 1)"

section \<open>Rolling back\<close>

lemma numbered_drop: "numbered ws \<Longrightarrow> numbered (drop n ws)"
proof (induction ws arbitrary: n)
  case (Cons q qs)
  then show ?case by (cases n) auto
qed simp

lemma unat_depth: "n < 2 ^ 32 - 1 \<Longrightarrow> unat (of_nat n :: u32) = n"
  by (simp add: unat_of_nat)

text \<open>The ancestors below the wanted snapshot end; the one that took it forks a new child.\<close>

lemma waitpid_returns_found:
  assumes "numbered ws" "length ws < 2 ^ 32 - 1" "unat (ps_mIDToRollback s) < length ws"
  shows "waitpid_returns ws s = (let qs = drop (length ws - 1 - unat (ps_mIDToRollback s)) ws
    in after_switch (fork_turn (hd qs) (tl qs) s))"
  using assms
proof (induction ws)
  case (Cons q qs)
  let ?i = "unat (ps_mIDToRollback s)"
  from Cons.prems have q: "unat (pr_snapshotid q) = length qs" by (simp add: unat_depth)
  show ?case
  proof (cases "?i = length qs")
    case True
    with q have "ps_mIDToRollback s = pr_snapshotid q" by (simp add: word_unat_eq_iff)
    with True show ?thesis by simp
  next
    case False
    with q have "ps_mIDToRollback s \<noteq> pr_snapshotid q" by auto
    moreover from False Cons.prems obtain k where "length qs - ?i = Suc k"
      by (cases "length qs - ?i") auto
    moreover from this have "length qs - 1 - ?i = k" by simp
    ultimately show ?thesis using Cons False by simp
  qed
qed simp

lemma waitpid_returns_none:
  assumes "numbered ws" "length ws < 2 ^ 32 - 1" "length ws \<le> unat (ps_mIDToRollback s)"
  shows "waitpid_returns ws s = s\<lparr>ps_running := None, ps_waiting := []\<rparr>"
  using assms
proof (induction ws)
  case (Cons q qs)
  from Cons.prems have "unat (pr_snapshotid q) = length qs" by (simp add: unat_depth)
  with Cons.prems have "ps_mIDToRollback s \<noteq> pr_snapshotid q" by auto
  with Cons show ?case by simp
qed simp

lemma unat_minus_one_u32: "unat (- 1 :: u32) = 2 ^ 32 - 1"
  by (simp add: unsigned_minus_1_eq_mask mask_eq_exp_minus_1)

lemma fork_exit_ends:
  "processes_ok s \<Longrightarrow> ps_running s = Some p \<Longrightarrow> fork_exit s = s\<lparr>ps_running := None, ps_waiting := []\<rparr>"
  unfolding fork_exit_def
  by (rule waitpid_returns_none) (simp_all add: processes_ok_def unat_minus_one_u32)

lemma roll_back_ends:
  "processes_ok s \<Longrightarrow> length (ps_waiting s) \<le> unat i \<Longrightarrow>
    snapshot_roll_back i s = s\<lparr>ps_mIDToRollback := i, ps_running := None, ps_waiting := []\<rparr>"
  unfolding snapshot_roll_back_def fork_exit_def
  by (subst waitpid_returns_none) (simp_all add: processes_ok_def)

lemma numbered_nth: "numbered ws \<Longrightarrow> n < length ws \<Longrightarrow> pr_snapshotid (ws ! n) = of_nat (length ws - 1 - n)"
proof (induction ws arbitrary: n)
  case (Cons q qs)
  then show ?case by (cases n) auto
qed simp

lemma roll_back_found:
  assumes "processes_ok s" "unat i < length (ps_waiting s)"
  defines "n \<equiv> length (ps_waiting s) - 1 - unat i"
  shows "snapshot_roll_back i s = s\<lparr>ps_currSnapShotID := i + 1, ps_running := Some (ps_waiting s ! n),
    ps_waiting := drop n (ps_waiting s), ps_mIDToRollback := - 1\<rparr>"
proof -
  have n: "n < length (ps_waiting s)" using assms(2) by (simp add: n_def)
  then have "drop n (ps_waiting s) = ps_waiting s ! n # drop (Suc n) (ps_waiting s)"
    by (rule Cons_nth_drop_Suc [symmetric])
  moreover have "pr_snapshotid (ps_waiting s ! n) = i"
    using numbered_nth [OF _ n] assms(1,2) by (simp add: processes_ok_def n_def)
  moreover have "length (ps_waiting s) - Suc (unat i) = n" by (simp add: n_def)
  ultimately show ?thesis
    using assms(1,2) unfolding snapshot_roll_back_def fork_exit_def
    by (subst waitpid_returns_found)
       (simp_all add: processes_ok_def Let_def after_switch_def fork_turn_def)
qed

lemma roll_back_ok:
  assumes "processes_ok s" shows "processes_ok (snapshot_roll_back i s)"
proof (cases "unat i < length (ps_waiting s)")
  case True
  then have "unat i + 1 = length (drop (length (ps_waiting s) - 1 - unat i) (ps_waiting s))" by simp
  moreover have "i + 1 = of_nat (unat i + 1)" by simp
  moreover have "numbered (drop (length (ps_waiting s) - 1 - unat i) (ps_waiting s))"
    using assms by (intro numbered_drop) (simp add: processes_ok_def)
  ultimately show ?thesis
    using assms True unfolding processes_ok_def roll_back_found [OF assms True]
    by simp
next
  case False
  with assms show ?thesis by (simp add: roll_back_ends processes_ok_def)
qed

lemma abs_roll_back:
  assumes "processes_ok s" "ps_running s = Some p"
  shows "abs_processes (snapshot_roll_back i s) = exec_abstract (Roll_Back i) (abs_processes s)"
proof (cases "unat i < length (ps_waiting s)")
  case True
  with assms show ?thesis
    by (simp add: roll_back_found abs_processes_def rev_nth drop_map take_rev rev_map [symmetric]
        Suc_diff_Suc diff_diff_left)
next
  case False
  with assms show ?thesis by (simp add: roll_back_ends abs_processes_def)
qed

section \<open>Taking a snapshot\<close>

lemma take_snapshot_result:
  assumes "processes_ok s" "ps_running s = Some p"
  shows "take_snapshot False s = Some (of_nat (length (ps_waiting s)),
    (let q = p\<lparr>pr_snapshotid := of_nat (length (ps_waiting s))\<rparr> in
     s\<lparr>ps_currSnapShotID := of_nat (length (ps_waiting s)) + 1, ps_running := Some q,
       ps_waiting := q # ps_waiting s, ps_mIDToRollback := - 1\<rparr>))"
  using assms by (simp add: take_snapshot_def fork_loop_def fork_turn_def after_switch_def processes_ok_def Let_def)

lemma exec_command_refines:
  assumes "processes_ok s" "length (ps_waiting s) + 1 < 2 ^ 32 - 1"
  shows "abs_processes (exec_command c s) = exec_abstract c (abs_processes s) \<and> processes_ok (exec_command c s) \<and>
    length (ps_waiting (exec_command c s)) \<le> length (ps_waiting s) + 1"
proof (cases "ps_running s")
  case None
  with assms show ?thesis
    by (cases c) (simp_all add: abs_processes_def work_def take_snapshot_def fork_loop_def)
next
  case (Some p)
  show ?thesis
  proof (cases c)
    case (Work f)
    with assms Some show ?thesis
      by (simp add: abs_processes_def work_def processes_ok_def split: prod.split)
  next
    case Take
    with assms Some show ?thesis
      by (simp add: take_snapshot_result Let_def abs_processes_def processes_ok_def)
  next
    case (Roll_Back i)
    have "length (ps_waiting (snapshot_roll_back i s)) \<le> length (ps_waiting s)"
      using assms by (cases "unat i < length (ps_waiting s)") (simp_all add: roll_back_found roll_back_ends)
    with assms Some Roll_Back show ?thesis
      by (simp add: abs_roll_back roll_back_ok del: exec_abstract.simps)
  next
    case Exit_Process
    with assms Some show ?thesis
      by (simp add: fork_exit_ends abs_processes_def processes_ok_def)
  qed
qed

lemma exec_commands_refine:
  "processes_ok s \<Longrightarrow> length (ps_waiting s) + length cs < 2 ^ 32 - 1 \<Longrightarrow>
    abs_processes (fold exec_command cs s) = fold exec_abstract cs (abs_processes s) \<and>
    processes_ok (fold exec_command cs s)"
proof (induction cs arbitrary: s)
  case (Cons c cs)
  from Cons.prems exec_command_refines [of s c]
  have "abs_processes (exec_command c s) = exec_abstract c (abs_processes s)" "processes_ok (exec_command c s)"
    "length (ps_waiting (exec_command c s)) + length cs < 2 ^ 32 - 1"
    by auto
  with Cons.IH [of "exec_command c s"] show ?case by simp
qed simp

lemma createSharedMemory_ok: "processes_ok (createSharedMemory p m)"
  by (simp add: createSharedMemory_def processes_ok_def)

section \<open>What a client relies on\<close>

text \<open>
  A snapshot lasts until the program rolls back to an older one; rolling back to it restores
  the private memory and keeps the shared one.
\<close>

locale snapshots =
  fixes ok :: "'s \<Rightarrow> bool"
    and own :: "'s \<Rightarrow> 'p option"
    and shared :: "'s \<Rightarrow> 'm"
    and saved :: "'s \<Rightarrow> snapshot_id \<Rightarrow> 'p option"
    and act_on :: "('p \<times> 'm \<Rightarrow> 'p \<times> 'm) \<Rightarrow> 's \<Rightarrow> 's"
    and roll :: "snapshot_id \<Rightarrow> 's \<Rightarrow> 's"
  assumes act_ok: "ok s \<Longrightarrow> ok (act_on f s)"
    and act_private: "own s = Some x \<Longrightarrow> own (act_on f s) = Some (fst (f (x, shared s)))"
    and act_shared: "own s = Some x \<Longrightarrow> shared (act_on f s) = snd (f (x, shared s))"
    and act_saved: "saved (act_on f s) = saved s"
    and roll_ok: "ok s \<Longrightarrow> ok (roll i s)"
    and roll_private: "ok s \<Longrightarrow> own s \<noteq> None \<Longrightarrow> saved s i = Some x \<Longrightarrow> own (roll i s) = Some x"
    and roll_shared: "ok s \<Longrightarrow> own s \<noteq> None \<Longrightarrow> saved s i = Some x \<Longrightarrow> shared (roll i s) = shared s"
    and roll_saved: "ok s \<Longrightarrow> own s \<noteq> None \<Longrightarrow> saved s i = Some x \<Longrightarrow> saved (roll i s) i = Some x"
begin

text \<open>One restart_round: the program runs and is then rolled back.\<close>

definition restart_round :: "snapshot_id \<Rightarrow> ('p \<times> 'm \<Rightarrow> 'p \<times> 'm) \<Rightarrow> 's \<Rightarrow> 's" where
  "restart_round i f s = roll i (act_on f s)"

lemma rounds_restart:
  assumes "ok s" "own s = Some x" "saved s i = Some x"
  shows "own (fold (restart_round i) fs s) = Some x \<and>
    shared (fold (restart_round i) fs s) = fold (\<lambda>f m. snd (f (x, m))) fs (shared s)"
  using assms
proof (induction fs arbitrary: s)
  case (Cons f fs)
  let ?s = "act_on f s"
  have 1: "ok ?s" "own ?s \<noteq> None" "saved ?s i = Some x"
    using Cons.prems act_private [of s x f] by (simp_all add: act_ok act_saved)
  have "ok (restart_round i f s)" "own (restart_round i f s) = Some x" "saved (restart_round i f s) i = Some x"
    "shared (restart_round i f s) = snd (f (x, shared s))"
    using 1 Cons.prems(2) roll_ok roll_private [OF 1] roll_saved [OF 1] roll_shared [OF 1] act_shared
    by (simp_all add: restart_round_def)
  with Cons.IH show ?case by simp
qed simp

end

text \<open>The saved memory of a snapshot of the processes.\<close>

definition saved_memory :: "('p, 'm) processes \<Rightarrow> snapshot_id \<Rightarrow> 'p option" where
  "saved_memory s i = (let xs = sv_saved (abs_processes s) in if unat i < length xs then Some (xs ! unat i) else None)"

lemma work_ok: "processes_ok s \<Longrightarrow> processes_ok (work f s)"
  by (cases "ps_running s") (simp_all add: work_def processes_ok_def split: prod.split)

interpretation forks: snapshots processes_ok "\<lambda>s. map_option pr_mem (ps_running s)" ps_shared saved_memory work snapshot_roll_back
proof
  fix s :: "('p, 'm) processes" and i and x and f :: "'p \<times> 'm \<Rightarrow> 'p \<times> 'm"
  show "processes_ok s \<Longrightarrow> processes_ok (work f s)" by (rule work_ok)
  show "processes_ok s \<Longrightarrow> processes_ok (snapshot_roll_back i s)" by (rule roll_back_ok)
  show "map_option pr_mem (ps_running s) = Some x \<Longrightarrow>
      map_option pr_mem (ps_running (work f s)) = Some (fst (f (x, ps_shared s)))"
    by (auto simp: work_def split: prod.split)
  show "map_option pr_mem (ps_running s) = Some x \<Longrightarrow> ps_shared (work f s) = snd (f (x, ps_shared s))"
    by (auto simp: work_def split: prod.split)
  show "saved_memory (work f s) = saved_memory s"
    by (rule ext) (simp add: saved_memory_def abs_processes_def work_def split: option.split prod.split)
  assume s: "processes_ok s" "map_option pr_mem (ps_running s) \<noteq> None" "saved_memory s i = Some x"
  from s(2) obtain p where p: "ps_running s = Some p" by auto
  from s(3) have i: "unat i < length (sv_saved (abs_processes s))" "sv_saved (abs_processes s) ! unat i = x"
    by (simp_all add: saved_memory_def Let_def split: if_splits)
  have a: "abs_processes (snapshot_roll_back i s)
      = (abs_processes s)\<lparr>sv_saved := take (unat i + 1) (sv_saved (abs_processes s)), sv_private := Some x\<rparr>"
    unfolding abs_roll_back [OF s(1) p] using i p by (simp add: abs_processes_def)
  from arg_cong [OF a, of sv_private] show "map_option pr_mem (ps_running (snapshot_roll_back i s)) = Some x"
    by (simp add: abs_processes_def)
  from arg_cong [OF a, of sv_shared] show "ps_shared (snapshot_roll_back i s) = ps_shared s"
    by (simp add: abs_processes_def)
  show "saved_memory (snapshot_roll_back i s) i = Some x"
    unfolding saved_memory_def a using i by simp
qed

lemma take_saves:
  assumes "processes_ok s" "ps_running s = Some p" "length (ps_waiting s) + 1 < 2 ^ 32 - 1"
  shows "\<exists>i s1. take_snapshot False s = Some (i, s1) \<and> processes_ok s1 \<and>
    map_option pr_mem (ps_running s1) = Some (pr_mem p) \<and> ps_shared s1 = ps_shared s \<and>
    saved_memory s1 i = Some (pr_mem p)"
proof -
  let ?n = "length (ps_waiting s)"
  have n: "unat (of_nat ?n :: u32) = ?n" using assms(3) by (simp add: unat_depth)
  from exec_command_refines [OF assms(1,3), of Take] take_snapshot_result [OF assms(1,2)]
  have "processes_ok (let q = p\<lparr>pr_snapshotid := of_nat ?n\<rparr> in
     s\<lparr>ps_currSnapShotID := of_nat ?n + 1, ps_running := Some q,
       ps_waiting := q # ps_waiting s, ps_mIDToRollback := - 1\<rparr>)" by (simp add: Let_def)
  with take_snapshot_result [OF assms(1,2)] n show ?thesis
    by (simp add: Let_def saved_memory_def abs_processes_def nth_append)
qed

end
