(* ===== verification/Snapshot_Claims.thy ===== *)
theory Snapshot_Claims
  imports Snapshots
begin

text \<open>
  What \<^verbatim>\<open>take_snapshot\<close> and \<^verbatim>\<open>snapshot_roll_back\<close> promise, and why the driver may treat a
  roll-back as an assignment of the saved fields.
\<close>

text \<open>
  C31: The tree of forked processes implements a stack of saved memories: taking a snapshot
  pushes the memory of the program, rolling back to snapshot \<open>i\<close> drops the later ones and
  restores that memory without changing what is shared, and rolling back to a snapshot that
  does not exist ends every process.
\<close>
theorem snapshots_refine:
  assumes "processes_ok s" "length (ps_waiting s) + length cs < 2 ^ 32 - 1"
  shows "abs_processes (fold exec_command cs s) = fold exec_abstract cs (abs_processes s) \<and>
    processes_ok (fold exec_command cs s)"
  using assms by (rule exec_commands_refine)

theorem snapshots_refine_witness:
  "abs_processes (fold exec_command [Take, Work (\<lambda>(x, m). (x + 1, m + 1)), Take, Work (\<lambda>(x, m). (x + 5, m + 1)),
     Roll_Back 0, Work (\<lambda>(x, m). (x, m + 1))] (createSharedMemory (7 :: nat) (0 :: nat)))
   = \<lparr>sv_saved = [7], sv_private = Some 7, sv_shared = 3\<rparr>"
proof -
  let ?cs = "[Take, Work (\<lambda>(x, m). (x + 1, m + 1)), Take, Work (\<lambda>(x, m). (x + 5, m + 1)),
     Roll_Back 0, Work (\<lambda>(x, m). (x, m + 1))] :: (nat, nat) command list"
  have "length (ps_waiting (createSharedMemory (7 :: nat) (0 :: nat))) + length ?cs < 2 ^ 32 - 1"
    by (simp add: createSharedMemory_def)
  from snapshots_refine [OF createSharedMemory_ok this] show ?thesis
    by (simp add: abs_processes_def createSharedMemory_def)
qed

text \<open>
  The driver's memory, split as the processes split it: what a roll-back restores, and the
  rest, which is on the shared heap.
\<close>

definition private_part :: "thread_obj \<Rightarrow> checker \<Rightarrow> snapshot" where
  "private_part init_thread s = \<lparr>sn_sched = ck_sched s, sn_mutexes = ck_mutexes s, sn_mem = ck_mem s,
     sn_alt_region = snd (ck_pmem s), sn_init_thread = init_thread, sn_random_pos = ck_random_pos s\<rparr>"

text \<open>A run of the program and the checker up to the next roll-back, on the split memory.\<close>

definition split_run :: "(checker \<Rightarrow> checker) \<Rightarrow> snapshot \<times> checker \<Rightarrow> snapshot \<times> checker" where
  "split_run prog = (\<lambda>(sn, s). let s1 = prog (reset_to_initial_state sn s) in (private_part (sn_init_thread sn) s1, s1))"

text \<open>
  The driver restarts every execution by \<^verbatim>\<open>reset_to_initial_state\<close>: when its runs are
  forked processes that each end with a roll-back to the snapshot of \<^verbatim>\<open>startChecker\<close>, each
  of them starts from the fields saved by the first one and from the shared fields that the
  last one left.
\<close>
theorem roll_back_resets:
  assumes "processes_ok t" "ps_running t = Some p" "length (ps_waiting t) + 1 < 2 ^ 32 - 1"
  shows "\<exists>i t1. take_snapshot False t = Some (i, t1) \<and>
    (let t2 = fold (\<lambda>prog u. snapshot_roll_back i (work (split_run prog) u)) progs t1 in
     map_option pr_mem (ps_running t2) = Some (pr_mem p) \<and>
     ps_shared t2 = fold (\<lambda>prog s. prog (reset_to_initial_state (pr_mem p) s)) progs (ps_shared t))"
proof -
  from take_saves [OF assms] obtain i t1 where
    t: "take_snapshot False t = Some (i, t1)" "processes_ok t1"
      "map_option pr_mem (ps_running t1) = Some (pr_mem p)" "ps_shared t1 = ps_shared t"
      "saved_memory t1 i = Some (pr_mem p)" by blast
  have "forks.restart_round i \<circ> split_run = (\<lambda>prog u. snapshot_roll_back i (work (split_run prog) u))"
    by (intro ext) (simp add: forks.restart_round_def)
  moreover have "(\<lambda>f m. snd (f (pr_mem p, m))) \<circ> split_run = (\<lambda>prog s. prog (reset_to_initial_state (pr_mem p) s))"
    by (intro ext) (simp add: split_run_def Let_def)
  ultimately show ?thesis
    using forks.rounds_restart [OF t(2,3,5), of "map split_run progs"] t(1,4) by (simp add: fold_map Let_def)
qed

theorem roll_back_resets_witness:
  "\<forall>(sn :: snapshot) s. \<exists>i t1. take_snapshot False (createSharedMemory sn s) = Some (i, t1) \<and>
    ck_execution_number (ps_shared (fold (\<lambda>prog u. snapshot_roll_back i (work (split_run prog) u))
      (replicate 2 (\<lambda>s. s\<lparr>ck_execution_number := ck_execution_number s + 1\<rparr>)) t1)) = ck_execution_number s + 2"
proof (intro allI)
  fix sn :: snapshot and s :: checker
  let ?progs = "replicate 2 (\<lambda>s :: checker. s\<lparr>ck_execution_number := ck_execution_number s + 1\<rparr>)"
  have "ps_running (createSharedMemory sn s) = Some \<lparr>pr_snapshotid = 0, pr_mem = sn\<rparr>"
    "length (ps_waiting (createSharedMemory sn s)) + 1 < 2 ^ 32 - 1"
    by (simp_all add: createSharedMemory_def)
  from roll_back_resets [OF createSharedMemory_ok this, of ?progs]
  show "\<exists>i t1. take_snapshot False (createSharedMemory sn s) = Some (i, t1) \<and>
    ck_execution_number (ps_shared (fold (\<lambda>prog u. snapshot_roll_back i (work (split_run prog) u)) ?progs t1))
      = ck_execution_number s + 2"
    by (auto simp: Let_def numeral_2_eq_2 reset_to_initial_state_def createSharedMemory_def)
qed

end
