(* ===== verification/Vectors.thy ===== *)
theory Vectors
  imports Prelude
begin

text \<open>
  \<^verbatim>\<open>Collection/stl-model.h\<close>: the growing arrays \<^verbatim>\<open>ModelVector\<close> and \<^verbatim>\<open>SnapVector\<close>, which are
  the same code on two heaps.  A slot is \<open>None\<close> until it is written; an access outside of
  the allocated array, or a read of a slot never written, gives no result.
\<close>

section \<open>The array\<close>

record 'a vector =
  vc_size :: u32
  vc_capacity :: u32
  vc_array :: "'a option list"

definition get_slot :: "u32 \<Rightarrow> 'a option list \<Rightarrow> 'a option option" where
  "get_slot index arr = (if unat index < length arr then Some (arr ! unat index) else None)"

definition put_slot :: "u32 \<Rightarrow> 'a option \<Rightarrow> 'a option list \<Rightarrow> 'a option list option" where
  "put_slot index x arr = (if unat index < length arr then Some (arr[unat index := x]) else None)"

text \<open>\<^verbatim>\<open>realloc\<close> keeps what fits and leaves the rest unwritten.\<close>

definition realloc_array :: "nat \<Rightarrow> 'a option list \<Rightarrow> 'a option list" where
  "realloc_array n arr = take n arr @ replicate (n - length arr) None"

section \<open>Operations\<close>

definition ModelVector :: "u32 \<Rightarrow> 'a vector" where
  "ModelVector cap = \<lparr>vc_size = 0, vc_capacity = cap, vc_array = replicate (unat cap) None\<rparr>"

definition ModelVector_of :: "u32 \<Rightarrow> 'a list \<Rightarrow> 'a vector option" where
  "ModelVector_of cap xs =
     (if unat cap \<le> length xs
      then Some \<lparr>vc_size = cap, vc_capacity = cap, vc_array = map Some (take (unat cap) xs)\<rparr> else None)"

definition vec_pop_back :: "'a vector \<Rightarrow> 'a vector" where
  "vec_pop_back v = v\<lparr>vc_size := vc_size v - 1\<rparr>"

definition vec_at :: "u32 \<Rightarrow> 'a vector \<Rightarrow> 'a option" where
  "vec_at index v = Option.bind (get_slot index (vc_array v)) (\<lambda>x. x)"

definition vec_back :: "'a vector \<Rightarrow> 'a option" where
  "vec_back v = vec_at (vc_size v - 1) v"

definition vec_empty :: "'a vector \<Rightarrow> bool" where
  "vec_empty v \<longleftrightarrow> vc_size v = 0"

definition vec_clear :: "'a vector \<Rightarrow> 'a vector" where
  "vec_clear v = v\<lparr>vc_size := 0\<rparr>"

definition zero_slots :: "nat \<Rightarrow> nat \<Rightarrow> 'a::zero option list \<Rightarrow> 'a option list option" where
  "zero_slots lo hi arr =
     (if hi \<le> length arr then Some (take lo arr @ replicate (hi - lo) (Some 0) @ drop hi arr) else None)"

definition vec_resize :: "u32 \<Rightarrow> 'a::zero vector \<Rightarrow> 'a vector option" where
  "vec_resize psize v =
     (if psize \<le> vc_size v then Some (v\<lparr>vc_size := psize\<rparr>)
      else do {
        let v1 = (if psize > vc_capacity v
          then v\<lparr>vc_array := realloc_array (unat (push_bit 1 psize)) (vc_array v), vc_capacity := push_bit 1 psize\<rparr>
          else v);
        arr \<leftarrow> zero_slots (unat (vc_size v1)) (unat psize) (vc_array v1);
        Some (v1\<lparr>vc_array := arr, vc_size := psize\<rparr>)
      })"

definition vec_push_back :: "'a \<Rightarrow> 'a vector \<Rightarrow> 'a vector option" where
  "vec_push_back item v = do {
     let newcap = push_bit 1 (vc_capacity v);
     let v1 = (if vc_size v \<ge> vc_capacity v
       then v\<lparr>vc_array := realloc_array (unat newcap) (vc_array v), vc_capacity := newcap\<rparr> else v);
     arr \<leftarrow> put_slot (vc_size v1) (Some item) (vc_array v1);
     Some (v1\<lparr>vc_array := arr, vc_size := vc_size v1 + 1\<rparr>)
   }"

definition vec_set :: "u32 \<Rightarrow> 'a \<Rightarrow> 'a vector \<Rightarrow> 'a vector option" where
  "vec_set index item v = do {
     arr \<leftarrow> put_slot index (Some item) (vc_array v);
     Some (v\<lparr>vc_array := arr\<rparr>)
   }"

definition vec_setExpand :: "u32 \<Rightarrow> 'a::zero \<Rightarrow> 'a vector \<Rightarrow> 'a vector option" where
  "vec_setExpand index item v = do {
     v1 \<leftarrow> (if index \<ge> vc_size v then vec_resize (index + 1) v else Some v);
     vec_set index item v1
   }"

text \<open>The loops of \<^verbatim>\<open>insertAt\<close> and \<^verbatim>\<open>removeAt\<close>.\<close>

partial_function (option) shift_up :: "u32 \<Rightarrow> u32 \<Rightarrow> 'a option list \<Rightarrow> 'a option list option" where
  "shift_up i index arr =
     (if i > index
      then Option.bind (get_slot (i - 1) arr) (\<lambda>x. Option.bind (put_slot i x arr) (shift_up (i - 1) index))
      else Some arr)"

declare shift_up.simps [code]

partial_function (option) shift_down :: "u32 \<Rightarrow> u32 \<Rightarrow> 'a option list \<Rightarrow> 'a option list option" where
  "shift_down i size' arr =
     (if i + 1 < size'
      then Option.bind (get_slot (i + 1) arr) (\<lambda>x. Option.bind (put_slot i x arr) (shift_down (i + 1) size'))
      else Some arr)"

declare shift_down.simps [code]

definition vec_insertAt :: "u32 \<Rightarrow> 'a::zero \<Rightarrow> 'a vector \<Rightarrow> 'a vector option" where
  "vec_insertAt index item v = do {
     v1 \<leftarrow> vec_resize (vc_size v + 1) v;
     arr \<leftarrow> shift_up (vc_size v1 - 1) index (vc_array v1);
     arr1 \<leftarrow> put_slot index (Some item) arr;
     Some (v1\<lparr>vc_array := arr1\<rparr>)
   }"

definition vec_removeAt :: "u32 \<Rightarrow> 'a::zero vector \<Rightarrow> 'a vector option" where
  "vec_removeAt index v = do {
     arr \<leftarrow> shift_down index (vc_size v) (vc_array v);
     vec_resize (vc_size v - 1) (v\<lparr>vc_array := arr\<rparr>)
   }"

text \<open>\<^verbatim>\<open>SnapVector::remove\<close>: the first occurrence.\<close>

partial_function (option) index_of :: "'a \<Rightarrow> u32 \<Rightarrow> 'a vector \<Rightarrow> u32 option option" where
  "index_of item i v =
     (if i < vc_size v
      then Option.bind (vec_at i v) (\<lambda>x. if x = item then Some (Some i) else index_of item (i + 1) v)
      else Some None)"

declare index_of.simps [code]

definition vec_remove :: "'a::zero \<Rightarrow> 'a vector \<Rightarrow> 'a vector option" where
  "vec_remove item v = do {
     r \<leftarrow> index_of item 0 v;
     (case r of None \<Rightarrow> Some v | Some i \<Rightarrow> vec_removeAt i v)
   }"

section \<open>The sequence a vector stands for\<close>

definition vec_ok :: "'a vector \<Rightarrow> bool" where
  "vec_ok v \<longleftrightarrow> length (vc_array v) = unat (vc_capacity v) \<and> vc_size v \<le> vc_capacity v \<and>
     0 < vc_capacity v \<and> None \<notin> set (take (unat (vc_size v)) (vc_array v))"

definition vec_list :: "'a vector \<Rightarrow> 'a list" where
  "vec_list v = map the (take (unat (vc_size v)) (vc_array v))"

lemma vec_holds:
  assumes "vc_array v = map Some xs @ rest" "unat (vc_size v) = length xs"
    "length (vc_array v) = unat (vc_capacity v)" "0 < vc_capacity v"
  shows "vec_ok v \<and> vec_list v = xs"
  using assms by (auto simp: vec_ok_def vec_list_def word_le_nat_alt comp_def)

text \<open>The array of a well-formed vector is its sequence, then slots that do not matter.\<close>

lemma vec_okE:
  assumes "vec_ok v"
  obtains rest where "vc_array v = map Some (vec_list v) @ rest" "length (vec_list v) = unat (vc_size v)"
    "length (vec_list v) + length rest = unat (vc_capacity v)" "0 < vc_capacity v"
proof -
  let ?n = "unat (vc_size v)"
  from assms have n: "?n \<le> length (vc_array v)" by (simp add: vec_ok_def word_le_nat_alt)
  have "map Some (vec_list v) = take ?n (vc_array v)"
    using assms unfolding vec_list_def vec_ok_def map_map
    by (intro map_idI) (metis comp_apply option.collapse)
  moreover have "length (vec_list v) = ?n" using n by (simp add: vec_list_def)
  ultimately show thesis using assms n that [of "drop ?n (vc_array v)"] by (simp add: vec_ok_def)
qed

lemma u32_bound: "unat (n :: u32) < 2 ^ 32"
proof -
  have "unat n < 2 ^ LENGTH(32)" by (rule unsigned_less)
  then show ?thesis by simp
qed

lemma double_u32: "(n :: u32) < 2 ^ 31 \<Longrightarrow> unat (push_bit 1 n) = 2 * unat n"
  by (simp add: push_bit_eq_mult unat_word_ariths word_less_nat_alt)

lemma succ_u32: "unat (n :: u32) + 1 < 2 ^ 32 \<Longrightarrow> unat (n + 1) = unat n + 1"
  by (simp add: unat_word_ariths)

lemma vec_at_ok:
  assumes "vec_ok v" "index < vc_size v"
  shows "vec_at index v = Some (vec_list v ! unat index)"
proof -
  from vec_okE [OF assms(1)] obtain rest where "vc_array v = map Some (vec_list v) @ rest"
    "length (vec_list v) = unat (vc_size v)" .
  with assms(2) show ?thesis by (simp add: vec_at_def get_slot_def nth_append word_less_nat_alt)
qed

lemma vec_push_back_ok:
  assumes ok: "vec_ok v" and small: "length (vec_list v) < 2 ^ 31"
  shows "\<exists>v'. vec_push_back item v = Some v' \<and> vec_ok v' \<and> vec_list v' = vec_list v @ [item]"
proof -
  from vec_okE [OF ok] obtain rest where v: "vc_array v = map Some (vec_list v) @ rest"
    "length (vec_list v) = unat (vc_size v)" "length (vec_list v) + length rest = unat (vc_capacity v)" "0 < vc_capacity v" .
  from small v(2) have size1: "unat (vc_size v + 1) = unat (vc_size v) + 1" by (intro succ_u32) simp
  obtain cap' rest' where grown: "(if vc_size v \<ge> vc_capacity v
       then v\<lparr>vc_array := realloc_array (unat (push_bit 1 (vc_capacity v))) (vc_array v), vc_capacity := push_bit 1 (vc_capacity v)\<rparr> else v)
       = v\<lparr>vc_array := map Some (vec_list v) @ rest', vc_capacity := cap'\<rparr>"
    "length (vec_list v) + length rest' = unat cap'" "rest' \<noteq> []"
  proof (cases "vc_size v \<ge> vc_capacity v")
    case True
    with v(2,3) have "length rest = 0" unfolding word_le_nat_alt by linarith
    with v have rest: "rest = []" "unat (vc_size v) = unat (vc_capacity v)" by simp_all
    let ?n = "unat (vc_capacity v)"
    have n: "unat (push_bit 1 (vc_capacity v)) = 2 * ?n" using small v(2) rest(2) by (intro double_u32) (simp add: word_less_nat_alt)
    have "0 < ?n" using v(4) by (simp add: word_less_nat_alt)
    with True v rest n show thesis
      by (intro that [of "push_bit 1 (vc_capacity v)" "replicate ?n None"]) (simp_all add: realloc_array_def mult_2)
  next
    case False
    with v show thesis by (intro that [of "vc_capacity v" rest]) (auto simp: word_le_nat_alt)
  qed
  from grown(3) obtain r rs where r: "rest' = r # rs" by (cases rest') auto
  let ?v' = "v\<lparr>vc_array := map Some (vec_list v @ [item]) @ rs, vc_capacity := cap', vc_size := vc_size v + 1\<rparr>"
  have "vec_push_back item v = Some ?v'"
    unfolding vec_push_back_def Let_def grown(1)
    using v(2) r by (simp add: put_slot_def list_update_append)
  moreover have "vec_ok ?v' \<and> vec_list ?v' = vec_list v @ [item]"
    by (rule vec_holds [of _ _ rs]) (use grown(2) r size1 v(2) in \<open>auto simp: word_less_nat_alt\<close>)
  ultimately show ?thesis by blast
qed

lemma vec_shrink_ok:
  assumes ok: "vec_ok v" and n: "n \<le> vc_size v"
  shows "vec_ok (v\<lparr>vc_size := n\<rparr>)" "vec_list (v\<lparr>vc_size := n\<rparr>) = take (unat n) (vec_list v)"
proof -
  from n have "take (unat n) (take (unat (vc_size v)) (vc_array v)) = take (unat n) (vc_array v)"
    by (simp add: word_le_nat_alt min_def)
  moreover from this have "set (take (unat n) (vc_array v)) \<subseteq> set (take (unat (vc_size v)) (vc_array v))"
    by (metis set_take_subset)
  ultimately show "vec_ok (v\<lparr>vc_size := n\<rparr>)" "vec_list (v\<lparr>vc_size := n\<rparr>) = take (unat n) (vec_list v)"
    using ok n by (auto simp: vec_ok_def vec_list_def take_map)
qed

lemma vec_resize_ok:
  assumes ok: "vec_ok v" and small: "psize < 2 ^ 31"
  shows "\<exists>v'. vec_resize psize v = Some v' \<and> vec_ok v' \<and> vc_size v' = psize \<and>
    vec_list v' = (if psize \<le> vc_size v then take (unat psize) (vec_list v) else grow 0 (unat psize) (vec_list v))"
proof (cases "psize \<le> vc_size v")
  case True
  with vec_shrink_ok [OF ok True] show ?thesis by (simp add: vec_resize_def)
next
  case False
  from vec_okE [OF ok] obtain rest where v: "vc_array v = map Some (vec_list v) @ rest"
    "length (vec_list v) = unat (vc_size v)" "length (vec_list v) + length rest = unat (vc_capacity v)" "0 < vc_capacity v" .
  let ?n = "unat psize"
  from False have less: "unat (vc_size v) < ?n" by (simp add: word_le_nat_alt)
  obtain cap' rest' where grown: "(if psize > vc_capacity v
          then v\<lparr>vc_array := realloc_array (unat (push_bit 1 psize)) (vc_array v), vc_capacity := push_bit 1 psize\<rparr>
          else v) = v\<lparr>vc_array := map Some (vec_list v) @ rest', vc_capacity := cap'\<rparr>"
    "length (vec_list v) + length rest' = unat cap'" "?n \<le> unat cap'"
  proof (cases "psize > vc_capacity v")
    case True
    then have "unat (vc_capacity v) < ?n" by (simp add: word_less_nat_alt)
    with True v double_u32 [OF small] show thesis
      by (intro that [of "push_bit 1 psize" "rest @ replicate (2 * ?n - unat (vc_capacity v)) None"])
         (simp_all add: realloc_array_def)
  next
    case False
    with v show thesis by (intro that [of "vc_capacity v" rest]) (auto simp: word_less_nat_alt)
  qed
  let ?xs = "grow 0 ?n (vec_list v)" and ?rest = "drop (?n - length (vec_list v)) rest'"
  let ?v' = "v\<lparr>vc_array := map Some ?xs @ ?rest, vc_capacity := cap', vc_size := psize\<rparr>"
  have "vec_resize psize v = Some ?v'"
    unfolding vec_resize_def Let_def grown(1) if_not_P [OF False]
    using v(2) grown(2,3) less by (simp add: zero_slots_def grow_def)
  moreover have "vec_ok ?v' \<and> vec_list ?v' = ?xs"
    by (rule vec_holds [of _ _ ?rest]) (use grown(2,3) v(2) less in \<open>auto simp: word_less_nat_alt\<close>)
  ultimately show ?thesis using False by simp
qed

lemma vec_set_ok:
  assumes ok: "vec_ok v" and i: "index < vc_size v"
  shows "\<exists>v'. vec_set index item v = Some v' \<and> vec_ok v' \<and> vc_size v' = vc_size v \<and>
    vec_list v' = (vec_list v)[unat index := item]"
proof -
  from vec_okE [OF ok] obtain rest where v: "vc_array v = map Some (vec_list v) @ rest"
    "length (vec_list v) = unat (vc_size v)" "length (vec_list v) + length rest = unat (vc_capacity v)" "0 < vc_capacity v" .
  let ?v' = "v\<lparr>vc_array := map Some ((vec_list v)[unat index := item]) @ rest\<rparr>"
  have "vec_set index item v = Some ?v'"
    using v i by (simp add: vec_set_def put_slot_def list_update_append map_update word_less_nat_alt)
  moreover have "vec_ok ?v' \<and> vec_list ?v' = (vec_list v)[unat index := item]"
    by (rule vec_holds [of _ _ rest]) (use v in simp_all)
  ultimately show ?thesis by simp
qed

lemma vec_setExpand_ok:
  assumes ok: "vec_ok v" and i: "index < 2 ^ 31 - 1"
  shows "\<exists>v'. vec_setExpand index item v = Some v' \<and> vec_ok v' \<and>
    vec_list v' = (grow 0 (unat index + 1) (vec_list v))[unat index := item]"
proof -
  from vec_okE [OF ok] have len: "length (vec_list v) = unat (vc_size v)" .
  from i have n: "unat (index + 1) = unat index + 1" by (intro succ_u32) (simp add: word_less_nat_alt)
  obtain v1 where v1: "(if index \<ge> vc_size v then vec_resize (index + 1) v else Some v) = Some v1" "vec_ok v1"
    "index < vc_size v1" "vec_list v1 = grow 0 (unat index + 1) (vec_list v)"
  proof (cases "index \<ge> vc_size v")
    case True
    with n have "\<not> index + 1 \<le> vc_size v" by (simp add: word_le_nat_alt)
    moreover have "index + 1 < 2 ^ 31" using i n by (simp add: word_less_nat_alt)
    ultimately obtain v1 where "vec_resize (index + 1) v = Some v1" "vec_ok v1" "vc_size v1 = index + 1"
      "vec_list v1 = grow 0 (unat (index + 1)) (vec_list v)"
      using vec_resize_ok [OF ok, of "index + 1"] by auto
    with True n show thesis by (intro that [of v1]) (simp_all add: word_less_nat_alt)
  next
    case False
    then have "unat index < unat (vc_size v)" by (simp add: word_le_nat_alt)
    with False ok len show thesis by (intro that [of v]) (simp_all add: word_less_nat_alt)
  qed
  with vec_set_ok [OF v1(2,3), of item] show ?thesis by (auto simp: vec_setExpand_def)
qed

section \<open>Inserting and removing\<close>

lemma shift_up_ok:
  assumes "unat i < length arr" "length arr \<le> 2 ^ 32"
  shows "shift_up i index arr = Some (map (\<lambda>j. if unat index < j \<and> j \<le> unat i then arr ! (j - 1) else arr ! j) [0..<length arr])"
  using assms
proof (induction "unat i - unat index" arbitrary: i arr)
  case 0
  then have "\<not> i > index" by (simp add: word_less_nat_alt)
  moreover from this have "map (\<lambda>j. if unat index < j \<and> j \<le> unat i then arr ! (j - 1) else arr ! j) [0..<length arr] = arr"
    by (intro nth_equalityI) (auto simp: word_less_nat_alt)
  ultimately show ?case by (subst shift_up.simps) simp
next
  case (Suc d)
  then have less: "unat index < unat i" by simp
  then have i: "i > index" "unat (i - 1) = unat i - 1"
    by (simp add: word_less_nat_alt) (use less in \<open>intro unat_minus_one, auto\<close>)
  let ?arr = "arr[unat i := arr ! (unat i - 1)]"
  have "shift_up i index arr = shift_up (i - 1) index ?arr"
  proof -
    have "unat i - 1 < length arr" using Suc.prems by simp
    with i Suc.prems show ?thesis by (subst shift_up.simps) (simp add: get_slot_def put_slot_def)
  qed
  also have "\<dots> = Some (map (\<lambda>j. if unat index < j \<and> j \<le> unat (i - 1) then ?arr ! (j - 1) else ?arr ! j) [0..<length ?arr])"
    using Suc i by (intro Suc.hyps) simp_all
  also have "\<dots> = Some (map (\<lambda>j. if unat index < j \<and> j \<le> unat i then arr ! (j - 1) else arr ! j) [0..<length arr])"
    using i Suc.prems Suc.hyps(2) by (auto simp: nth_list_update)
  finally show ?case .
qed

lemma shift_down_ok:
  assumes "unat n \<le> length arr" "length arr \<le> 2 ^ 32" "unat i < unat n"
  shows "shift_down i n arr = Some (map (\<lambda>j. if unat i \<le> j \<and> j + 1 < unat n then arr ! (j + 1) else arr ! j) [0..<length arr])"
  using assms
proof (induction "unat n - unat i" arbitrary: i arr)
  case 0
  then show ?case by simp
next
  case (Suc d)
  have "unat n < 2 ^ 32" by (rule u32_bound)
  with Suc.prems have i1: "unat (i + 1) = unat i + 1" by (intro succ_u32) simp
  show ?case
  proof (cases "i + 1 < n")
    case False
    with i1 have "map (\<lambda>j. if unat i \<le> j \<and> j + 1 < unat n then arr ! (j + 1) else arr ! j) [0..<length arr] = arr"
      by (intro nth_equalityI) (auto simp: word_less_nat_alt)
    with False show ?thesis by (subst shift_down.simps) simp
  next
    case True
    then have n: "unat i + 1 < unat n" by (simp add: word_less_nat_alt i1)
    let ?arr = "arr[unat i := arr ! (unat i + 1)]"
    have "shift_down i n arr = shift_down (i + 1) n ?arr"
      using True Suc.prems n i1 by (subst shift_down.simps) (simp add: get_slot_def put_slot_def)
    also have "\<dots> = Some (map (\<lambda>j. if unat (i + 1) \<le> j \<and> j + 1 < unat n then ?arr ! (j + 1) else ?arr ! j) [0..<length ?arr])"
      using Suc i1 n by (intro Suc.hyps) simp_all
    also have "\<dots> = Some (map (\<lambda>j. if unat i \<le> j \<and> j + 1 < unat n then arr ! (j + 1) else arr ! j) [0..<length arr])"
      using i1 n Suc.prems by (auto simp: nth_list_update)
    finally show ?thesis .
  qed
qed

lemma shifted_up_list:
  assumes "k \<le> length xs" and A: "A = map Some (xs @ [z]) @ rest"
  shows "(map (\<lambda>j. if k < j \<and> j \<le> length xs then A ! (j - 1) else A ! j) [0..<length A])[k := Some item]
    = map Some (take k xs @ item # drop k xs) @ rest" (is "?l = ?r")
proof (rule nth_equalityI)
  show "length ?l = length ?r" using assms by simp
  fix j assume "j < length ?l"
  then have j: "j < length A" by simp
  consider "j < k" | "j = k" | "k < j" "j \<le> length xs" | "length xs < j" by linarith
  then show "?l ! j = ?r ! j"
  proof cases
    case 3
    then obtain m where m: "j = Suc m" by (cases j) auto
    with 3 have "m < length xs" "m - k < length xs - k" by simp_all
    with m 3 j assms show ?thesis by (simp add: nth_append del: upt_Suc)
  next
    case 4
    then obtain m where m: "j = Suc m" by (cases j) auto
    with 4 have "\<not> m < length xs" "\<not> m - k < length xs - k" using assms(1) by simp_all
    with m 4 j assms show ?thesis by (simp add: nth_append del: upt_Suc)
  qed (use j assms in \<open>simp_all add: nth_append del: upt_Suc\<close>)
qed

lemma shifted_down_list:
  assumes "k < length xs" and A: "A = map Some xs @ rest"
  shows "take (length xs - 1) (map (\<lambda>j. if k \<le> j \<and> j + 1 < length xs then A ! (j + 1) else A ! j) [0..<length A])
    = map Some (take k xs @ drop (k + 1) xs)" (is "?l = ?r")
proof (rule nth_equalityI)
  show "length ?l = length ?r" using assms by simp
  fix j assume "j < length ?l"
  with assms have j: "j < length xs - 1" by simp
  then have "Suc j < length xs" "j < length A" using A by simp_all
  with assms j show "?l ! j = ?r ! j" by (cases "j < k") (simp_all add: nth_append del: upt_Suc)
qed

lemma vec_insertAt_ok:
  assumes ok: "vec_ok v" and small: "vc_size v < 2 ^ 31 - 1" and i: "index \<le> vc_size v"
  shows "\<exists>v'. vec_insertAt index item v = Some v' \<and> vec_ok v' \<and>
    vec_list v' = take (unat index) (vec_list v) @ item # drop (unat index) (vec_list v)"
proof -
  from vec_okE [OF ok] have len: "length (vec_list v) = unat (vc_size v)" .
  let ?n = "unat (vc_size v)" and ?k = "unat index" and ?xs = "vec_list v"
  from small have n: "unat (vc_size v + 1) = ?n + 1" by (intro succ_u32) (simp add: word_less_nat_alt)
  then have grows: "\<not> vc_size v + 1 \<le> vc_size v" by (simp add: word_le_nat_alt)
  have "vc_size v + 1 < 2 ^ 31" using small n by (simp add: word_less_nat_alt)
  from vec_resize_ok [OF ok this] grows n obtain v1 where
    v1: "vec_resize (vc_size v + 1) v = Some v1" "vec_ok v1" "vc_size v1 = vc_size v + 1" "vec_list v1 = ?xs @ [0]"
    using len by (auto simp: grow_def)
  from vec_okE [OF v1(2)] obtain rest where r: "vc_array v1 = map Some (?xs @ [0]) @ rest"
    "length (vec_list v1) + length rest = unat (vc_capacity v1)" "0 < vc_capacity v1" unfolding v1(4) by blast
  let ?ys = "take ?k ?xs @ item # drop ?k ?xs"
  have cap: "unat (vc_capacity v1) \<le> 2 ^ 32" using u32_bound [of "vc_capacity v1"] by simp
  have k: "?k \<le> ?n" using i by (simp add: word_le_nat_alt)
  let ?arr = "map (\<lambda>j. if ?k < j \<and> j \<le> ?n then vc_array v1 ! (j - 1) else vc_array v1 ! j) [0..<length (vc_array v1)]"
  have "shift_up (vc_size v1 - 1) index (vc_array v1) = Some ?arr"
  proof -
    have "unat (vc_size v) < length (vc_array v1)" "length (vc_array v1) \<le> 2 ^ 32"
      using r v1(4) len cap by simp_all
    from shift_up_ok [OF this, of index] v1(3) show ?thesis by simp
  qed
  moreover have "?arr[?k := Some item] = map Some ?ys @ rest"
    using shifted_up_list [OF _ r(1), of ?k item] k len by simp
  ultimately have "vec_insertAt index item v = Some (v1\<lparr>vc_array := map Some ?ys @ rest\<rparr>)"
    using v1(1) len k r by (simp add: vec_insertAt_def put_slot_def)
  moreover have "vec_ok (v1\<lparr>vc_array := map Some ?ys @ rest\<rparr>) \<and> vec_list (v1\<lparr>vc_array := map Some ?ys @ rest\<rparr>) = ?ys"
    by (rule vec_holds [of _ _ rest]) (use r v1(3,4) n len k in simp_all)
  ultimately show ?thesis by simp
qed

lemma vec_removeAt_ok:
  assumes ok: "vec_ok v" and i: "index < vc_size v"
  shows "\<exists>v'. vec_removeAt index v = Some v' \<and> vec_ok v' \<and>
    vec_list v' = take (unat index) (vec_list v) @ drop (unat index + 1) (vec_list v)"
proof -
  from vec_okE [OF ok] obtain rest where v: "vc_array v = map Some (vec_list v) @ rest"
    "length (vec_list v) = unat (vc_size v)" "length (vec_list v) + length rest = unat (vc_capacity v)" "0 < vc_capacity v" .
  let ?n = "unat (vc_size v)" and ?k = "unat index" and ?xs = "vec_list v"
  have k: "?k < ?n" using i by (simp add: word_less_nat_alt)
  have cap: "unat (vc_capacity v) \<le> 2 ^ 32" using u32_bound [of "vc_capacity v"] by simp
  let ?arr = "map (\<lambda>j. if ?k \<le> j \<and> j + 1 < ?n then vc_array v ! (j + 1) else vc_array v ! j) [0..<length (vc_array v)]"
  have shifted: "shift_down index (vc_size v) (vc_array v) = Some ?arr"
    by (rule shift_down_ok) (use v k cap in simp_all)
  have n1: "unat (vc_size v - 1) = ?n - 1" using k by (intro unat_minus_one) auto
  then have le: "vc_size v - 1 \<le> vc_size v" by (simp add: word_le_nat_alt)
  let ?ys = "take ?k ?xs @ drop (?k + 1) ?xs"
  have "take (?n - 1) ?arr = map Some ?ys"
    using shifted_down_list [OF _ v(1), of ?k] k v(2) by simp
  moreover have "vec_removeAt index v = Some \<lparr>vc_size = vc_size v - 1, vc_capacity = vc_capacity v, vc_array = ?arr\<rparr>"
    using shifted le by (simp add: vec_removeAt_def vec_resize_def)
  moreover have "vec_ok \<lparr>vc_size = vc_size v - 1, vc_capacity = vc_capacity v, vc_array = ?arr\<rparr> \<and>
      vec_list \<lparr>vc_size = vc_size v - 1, vc_capacity = vc_capacity v, vc_array = ?arr\<rparr> = ?ys"
  proof (rule vec_holds [of _ _ "drop (?n - 1) ?arr"])
    show "vc_array \<lparr>vc_size = vc_size v - 1, vc_capacity = vc_capacity v, vc_array = ?arr\<rparr> = map Some ?ys @ drop (?n - 1) ?arr"
      unfolding vector.simps calculation(1) [symmetric] by (rule append_take_drop_id [symmetric])
  qed (use v k n1 in simp_all)
  ultimately show ?thesis by simp
qed

lemma index_of_ok:
  assumes ok: "vec_ok v"
  shows "i \<le> vc_size v \<Longrightarrow> item \<notin> set (take (unat i) (vec_list v)) \<Longrightarrow>
    index_of item i v = Some (if item \<in> set (vec_list v) then Some (of_nat (length (takeWhile (\<lambda>x. x \<noteq> item) (vec_list v)))) else None)"
proof (induction "unat (vc_size v) - unat i" arbitrary: i)
  case 0
  from vec_okE [OF ok] have len: "length (vec_list v) = unat (vc_size v)" .
  from 0 have "unat (vc_size v) = unat i" by (simp add: word_le_nat_alt)
  with 0 len show ?case by (subst index_of.simps) (simp add: word_less_nat_alt)
next
  case (Suc d)
  from vec_okE [OF ok] have len: "length (vec_list v) = unat (vc_size v)" .
  let ?x = "vec_list v ! unat i"
  from Suc(2) have lt: "unat i < unat (vc_size v)" by simp
  then have i: "i < vc_size v" by (simp add: word_less_nat_alt)
  have i1: "unat (i + 1) = unat i + 1" using lt u32_bound [of "vc_size v"] by (intro succ_u32) simp
  have split_list: "vec_list v = take (unat i) (vec_list v) @ ?x # drop (Suc (unat i)) (vec_list v)"
    using lt len by (simp add: id_take_nth_drop)
  have step: "index_of item i v = (if ?x = item then Some (Some i) else index_of item (i + 1) v)"
    using i vec_at_ok [OF ok i] by (subst index_of.simps) simp
  show ?case
  proof (cases "?x = item")
    case True
    have "takeWhile (\<lambda>x. x \<noteq> item) (vec_list v) = take (unat i) (vec_list v)"
      using Suc.prems(2) True by (subst split_list) (auto simp: takeWhile_append takeWhile_eq_all_conv)
    moreover have "item \<in> set (vec_list v)" using True lt len by auto
    ultimately show ?thesis using step True lt len by (simp add: min_def)
  next
    case False
    have "item \<notin> set (take (unat (i + 1)) (vec_list v))"
      using Suc.prems(2) False lt len by (simp add: i1 take_Suc_conv_app_nth)
    moreover have "i + 1 \<le> vc_size v" using lt i1 by (simp add: word_le_nat_alt)
    ultimately show ?thesis using Suc.hyps(1) [of "i + 1"] Suc.hyps(2) i1 step False by simp
  qed
qed

lemma remove1_at: "x \<in> set xs \<Longrightarrow> n = length (takeWhile (\<lambda>y. y \<noteq> x) xs) \<Longrightarrow> remove1 x xs = take n xs @ drop (n + 1) xs"
  by (induction xs arbitrary: n) auto

lemma length_takeWhile_less': "x \<in> set xs \<Longrightarrow> length (takeWhile (\<lambda>y. y \<noteq> x) xs) < length xs"
  by (induction xs) auto

lemma vec_remove_ok:
  assumes ok: "vec_ok v"
  shows "\<exists>v'. vec_remove item v = Some v' \<and> vec_ok v' \<and> vec_list v' = remove1 item (vec_list v)"
proof (cases "item \<in> set (vec_list v)")
  case True
  from vec_okE [OF ok] have len: "length (vec_list v) = unat (vc_size v)" .
  let ?n = "length (takeWhile (\<lambda>x. x \<noteq> item) (vec_list v))"
  have n: "?n < unat (vc_size v)" using length_takeWhile_less' [OF True] len by simp
  then have un: "unat (of_nat ?n :: u32) = ?n" using u32_bound [of "vc_size v"] by (simp add: unat_of_nat)
  with n have "of_nat ?n < vc_size v" by (simp add: word_less_nat_alt)
  from vec_removeAt_ok [OF ok this] obtain v' where "vec_removeAt (of_nat ?n) v = Some v'" "vec_ok v'"
    "vec_list v' = take ?n (vec_list v) @ drop (?n + 1) (vec_list v)" unfolding un by blast
  with index_of_ok [OF ok, of 0 item] True remove1_at [OF True refl] show ?thesis by (simp add: vec_remove_def)
next
  case False
  with index_of_ok [OF ok, of 0 item] ok show ?thesis by (simp add: vec_remove_def remove1_idem)
qed

lemma ModelVector_ok: "0 < cap \<Longrightarrow> vec_ok (ModelVector cap :: 'a vector) \<and> vec_list (ModelVector cap :: 'a vector) = []"
  by (rule vec_holds [of _ _ "replicate (unat cap) None :: 'a option list"]) (simp_all add: ModelVector_def)

lemma vec_pop_back_ok:
  assumes "vec_ok v" "vec_list v \<noteq> []"
  shows "vec_ok (vec_pop_back v)" "vec_list (vec_pop_back v) = butlast (vec_list v)" "vec_back v = Some (last (vec_list v))"
proof -
  from vec_okE [OF assms(1)] have len: "length (vec_list v) = unat (vc_size v)" .
  with assms(2) have pos: "0 < unat (vc_size v)" by (metis length_greater_0_conv)
  then have n1: "unat (vc_size v - 1) = unat (vc_size v) - 1" by (intro unat_minus_one) auto
  have le: "vc_size v - 1 \<le> vc_size v" and lt: "vc_size v - 1 < vc_size v"
    using n1 pos by (simp_all add: word_le_nat_alt word_less_nat_alt)
  show "vec_ok (vec_pop_back v)" "vec_list (vec_pop_back v) = butlast (vec_list v)"
    using vec_shrink_ok [OF assms(1) le] n1 len by (simp_all add: vec_pop_back_def butlast_conv_take)
  show "vec_back v = Some (last (vec_list v))"
    using vec_at_ok [OF assms(1) lt] n1 len assms(2) by (simp add: vec_back_def last_conv_nth)
qed

section \<open>The contract\<close>

text \<open>A client that only appends, reads and takes back the last element sees a list.\<close>

locale sequence_contract =
  fixes ok :: "'s \<Rightarrow> bool" and items :: "'s \<Rightarrow> 'a list" and limit :: nat
    and push :: "'a \<Rightarrow> 's \<Rightarrow> 's option" and pop :: "'s \<Rightarrow> 's" and top :: "'s \<Rightarrow> 'a option"
  assumes push_law: "ok s \<Longrightarrow> length (items s) < limit \<Longrightarrow> \<exists>s'. push x s = Some s' \<and> ok s' \<and> items s' = items s @ [x]"
    and pop_law: "ok s \<Longrightarrow> items s \<noteq> [] \<Longrightarrow> ok (pop s) \<and> items (pop s) = butlast (items s)"
    and top_law: "ok s \<Longrightarrow> items s \<noteq> [] \<Longrightarrow> top s = Some (last (items s))"
begin

primrec push_all :: "'a list \<Rightarrow> 's \<Rightarrow> 's option" where
  "push_all [] s = Some s"
| "push_all (x # xs) s = Option.bind (push x s) (push_all xs)"

lemma push_all_appends:
  "ok s \<Longrightarrow> length (items s) + length xs \<le> limit \<Longrightarrow> \<exists>s'. push_all xs s = Some s' \<and> ok s' \<and> items s' = items s @ xs"
proof (induction xs arbitrary: s)
  case (Cons x xs)
  from push_law [of s x] Cons.prems obtain s1 where "push x s = Some s1" "ok s1" "items s1 = items s @ [x]" by auto
  with Cons.IH [of s1] Cons.prems(2) show ?case by simp
qed simp

lemma pop_push:
  assumes "ok s" "length (items s) < limit" "push x s = Some s'"
  shows "ok (pop s') \<and> items (pop s') = items s \<and> top s' = Some x"
  using push_law [OF assms(1,2), of x] pop_law [of s'] top_law [of s'] assms(3) by auto

end

interpretation vectors: sequence_contract vec_ok vec_list "2 ^ 31" vec_push_back vec_pop_back vec_back
  by unfold_locales (simp_all add: vec_push_back_ok vec_pop_back_ok)

section \<open>What vectors promise\<close>

text \<open>Calls of a vector, and what they do to a sequence, as long as it stays below the limit.\<close>

datatype 'a vector_call = Push_Back 'a | Insert_At u32 'a | Remove_At u32 | Remove 'a | Set_Expand u32 'a

fun call_vector :: "'a::zero vector_call \<Rightarrow> 'a vector \<Rightarrow> 'a vector option" where
  "call_vector (Push_Back x) v = vec_push_back x v"
| "call_vector (Insert_At i x) v = vec_insertAt i x v"
| "call_vector (Remove_At i) v = vec_removeAt i v"
| "call_vector (Remove x) v = vec_remove x v"
| "call_vector (Set_Expand i x) v = vec_setExpand i x v"

primrec call_vectors :: "'a::zero vector_call list \<Rightarrow> 'a vector \<Rightarrow> 'a vector option" where
  "call_vectors [] v = Some v"
| "call_vectors (c # cs) v = Option.bind (call_vector c v) (call_vectors cs)"

definition VECTOR_LIMIT :: nat where "VECTOR_LIMIT = 2 ^ 31 - 1"

fun call_sequence :: "'a::zero vector_call \<Rightarrow> 'a list \<Rightarrow> 'a list option" where
  "call_sequence (Push_Back x) xs = (if length xs < VECTOR_LIMIT then Some (xs @ [x]) else None)"
| "call_sequence (Insert_At i x) xs =
     (if unat i \<le> length xs \<and> length xs < VECTOR_LIMIT then Some (take (unat i) xs @ x # drop (unat i) xs) else None)"
| "call_sequence (Remove_At i) xs =
     (if unat i < length xs then Some (take (unat i) xs @ drop (unat i + 1) xs) else None)"
| "call_sequence (Remove x) xs = Some (remove1 x xs)"
| "call_sequence (Set_Expand i x) xs =
     (if unat i < VECTOR_LIMIT then Some ((grow 0 (unat i + 1) xs)[unat i := x]) else None)"

primrec call_sequences :: "'a::zero vector_call list \<Rightarrow> 'a list \<Rightarrow> 'a list option" where
  "call_sequences [] xs = Some xs"
| "call_sequences (c # cs) xs = Option.bind (call_sequence c xs) (call_sequences cs)"

lemma call_vector_refines:
  assumes ok: "vec_ok v" and ys: "call_sequence c (vec_list v) = Some ys"
  shows "\<exists>v'. call_vector c v = Some v' \<and> vec_ok v' \<and> vec_list v' = ys"
proof -
  from vec_okE [OF ok] have len: "length (vec_list v) = unat (vc_size v)" .
  show ?thesis
  proof (cases c)
    case (Push_Back x)
    with ys vec_push_back_ok [OF ok, of x] show ?thesis by (auto simp: VECTOR_LIMIT_def split: if_splits)
  next
    case (Insert_At i x)
    with ys have "unat i \<le> unat (vc_size v)" "unat (vc_size v) < 2 ^ 31 - 1"
      by (auto simp: VECTOR_LIMIT_def len split: if_splits)
    then have "i \<le> vc_size v" "vc_size v < 2 ^ 31 - 1" by (simp_all add: word_le_nat_alt word_less_nat_alt)
    with Insert_At ys vec_insertAt_ok [OF ok, of i x] show ?thesis by (auto split: if_splits)
  next
    case (Remove_At i)
    with ys have "i < vc_size v" by (auto simp: word_less_nat_alt len split: if_splits)
    with Remove_At ys vec_removeAt_ok [OF ok, of i] show ?thesis by (auto split: if_splits)
  next
    case (Remove x)
    with ys vec_remove_ok [OF ok, of x] show ?thesis by simp
  next
    case (Set_Expand i x)
    with ys have "i < 2 ^ 31 - 1" by (auto simp: VECTOR_LIMIT_def word_less_nat_alt split: if_splits)
    with Set_Expand ys vec_setExpand_ok [OF ok, of i x] show ?thesis by (auto split: if_splits)
  qed
qed

text \<open>
  C34: A vector is a growing sequence.  Appending, inserting at a position, removing a position
  or the first occurrence of a value, and setting a position beyond the end, with zeros in
  between, do on the array, reallocated where needed, what they do on the list of its elements.
\<close>
theorem vectors_refine:
  assumes "vec_ok v" "call_sequences cs (vec_list v) = Some ys"
  shows "\<exists>v'. call_vectors cs v = Some v' \<and> vec_ok v' \<and> vec_list v' = ys"
  using assms
proof (induction cs arbitrary: v)
  case (Cons c cs)
  from Cons.prems(2) obtain zs where zs: "call_sequence c (vec_list v) = Some zs" "call_sequences cs zs = Some ys"
    by (auto split: bind_splits)
  from call_vector_refines [OF Cons.prems(1) zs(1)] obtain v1 where
    "call_vector c v = Some v1" "vec_ok v1" "vec_list v1 = zs" by blast
  with Cons.IH [of v1] zs(2) show ?case by simp
qed simp

theorem vectors_refine_witness:
  "\<exists>v'. call_vectors [Push_Back 5, Push_Back 7, Insert_At 1 6, Set_Expand 4 9, Remove_At 0, Remove 0] (ModelVector 1) = Some v' \<and>
     vec_list v' = [6, 7, 9 :: nat]"
proof -
  have v: "vec_ok (ModelVector 1 :: nat vector)" "vec_list (ModelVector 1 :: nat vector) = []"
    using ModelVector_ok [of 1, where 'a = nat] by simp_all
  have "call_sequences [Push_Back 5, Push_Back 7, Insert_At 1 6, Set_Expand 4 9, Remove_At 0, Remove 0]
      (vec_list (ModelVector 1 :: nat vector)) = Some [6, 7, 9]"
  proof -
    have "replicate 2 (0 :: nat) = [0, 0]" by (simp add: numeral_2_eq_2)
    then show ?thesis by (simp add: v(2) VECTOR_LIMIT_def grow_def)
  qed
  from vectors_refine [OF v(1) this] show ?thesis by blast
qed

end
