(* ===== verification/Thread_API.thy ===== *)
theory Thread_API
  imports API_Calls
begin

text \<open>
  The threading functions a program calls (\<^verbatim>\<open>Scheduler/pthread.cc\<close>, \<^verbatim>\<open>mutex.cc\<close>,
  \<^verbatim>\<open>conditionvariable.cc\<close>, \<^verbatim>\<open>sleeps.cc\<close> and the start of a thread in \<^verbatim>\<open>threads.cc\<close>).
  Each hands actions to the checker on behalf of the model's own mutex or condition variable,
  which is made when the program first uses its one.  What other threads do to the shared
  objects while a thread waits for the checker is a parameter.
\<close>

section \<open>State\<close>

text \<open>
  The objects of the checker that these functions use: the maps from the program's mutexes
  and condition variables to those of the model, the model's objects themselves, a mutex with
  its state or a condition variable at each address, the number of objects made so far, the
  results of threads, and what \<^verbatim>\<open>get_pthread\<close> finds.
\<close>

datatype sync_object = Mutex_Object mutex_state | Cond_Object

record shared_objects =
  so_mutex_map :: "addr \<rightharpoonup> addr"
  so_cond_map :: "addr \<rightharpoonup> addr"
  so_objects :: "addr \<rightharpoonup> sync_object"
  so_made :: nat
  so_returns :: "tid \<Rightarrow> u64"
  so_pthreads :: "u64 \<Rightarrow> tid option"

text \<open>
  The calling thread.  \<open>pt_object_at n\<close> is the address of the \<open>n\<close>-th object, null when there
  is no memory for it, \<open>pt_thread_at\<close>
  that of the object of a thread, \<open>pt_time\<close> gives the successive results of
  \<^verbatim>\<open>clock_gettime\<close> in seconds and nanoseconds, and \<open>pt_clock\<close> the thread's own clock.
\<close>

record pthreads =
  pt_client :: client
  pt_objects :: shared_objects
  pt_others :: "client_event list \<Rightarrow> shared_objects \<Rightarrow> shared_objects"
  pt_object_at :: "nat \<Rightarrow> addr"
  pt_thread_at :: "tid \<Rightarrow> addr"
  pt_clock :: "client_event list \<Rightarrow> modelclock option"
  pt_time :: "nat \<Rightarrow> u64 \<times> u64"
  pt_time_pos :: nat

definition upd_objects :: "(shared_objects \<Rightarrow> shared_objects) \<Rightarrow> pthreads \<Rightarrow> pthreads" where
  "upd_objects f p = p\<lparr>pt_objects := f (pt_objects p)\<rparr>"

definition thread_current :: "pthreads \<Rightarrow> tid" where
  "thread_current p = cl_tid (pt_client p)"

definition switch_to_model :: "model_action \<Rightarrow> pthreads \<Rightarrow> u64 \<times> pthreads" where
  "switch_to_model a p = (let (r, c) = hand_over a (pt_client p)
     in (r, p\<lparr>pt_client := c, pt_objects := pt_others p (cl_log c) (pt_objects p)\<rparr>))"

text \<open>An action of the calling thread at an address, which must not be null.\<close>

definition switch_at :: "action_type \<Rightarrow> addr \<Rightarrow> u64 \<Rightarrow> pthreads \<Rightarrow> (u64 \<times> pthreads) option" where
  "switch_at ty loc v p = do {
     a \<leftarrow> action_at ty memory_order_seq_cst loc v (thread_current p) 0;
     Some (switch_to_model a p)
   }"

section \<open>Model mutexes and condition variables\<close>

definition mutex_init :: "bool \<Rightarrow> pthreads \<Rightarrow> mutex_state" where
  "mutex_init recursive p = \<lparr>ms_locked = None, ms_alloc_tid = thread_current p,
     ms_alloc_clock = (case pt_clock p (cl_log (pt_client p)) of None \<Rightarrow> 0 | Some n \<Rightarrow> n),
     ms_recursive = recursive, ms_lock_count = 0\<rparr>"

text \<open>The allocator of the objects asserts that it found memory.\<close>

definition new_object :: "sync_object \<Rightarrow> pthreads \<Rightarrow> (addr \<times> pthreads) option" where
  "new_object obj p =
     (let m = pt_object_at p (so_made (pt_objects p))
      in if m = 0 then None
         else Some (m, upd_objects (\<lambda>o'. o'\<lparr>so_made := so_made o' + 1, so_objects := (so_objects o')(m \<mapsto> obj)\<rparr>) p))"

definition mutex_lock :: "addr \<Rightarrow> pthreads \<Rightarrow> pthreads option" where
  "mutex_lock m p = map_option snd (switch_at ATOMIC_LOCK m VALUE_NONE p)"

definition mutex_try_lock :: "addr \<Rightarrow> pthreads \<Rightarrow> (bool \<times> pthreads) option" where
  "mutex_try_lock m p = map_option (\<lambda>(r, p1). (r \<noteq> 0, p1)) (switch_at ATOMIC_TRYLOCK m VALUE_NONE p)"

definition mutex_unlock :: "addr \<Rightarrow> pthreads \<Rightarrow> pthreads option" where
  "mutex_unlock m p = map_option snd (switch_at ATOMIC_UNLOCK m VALUE_NONE p)"

definition notify_one :: "addr \<Rightarrow> pthreads \<Rightarrow> pthreads option" where
  "notify_one v p = map_option snd (switch_at ATOMIC_NOTIFY_ONE v VALUE_NONE p)"

definition notify_all :: "addr \<Rightarrow> pthreads \<Rightarrow> pthreads option" where
  "notify_all v p = map_option snd (switch_at ATOMIC_NOTIFY_ALL v VALUE_NONE p)"

definition cv_wait :: "addr \<Rightarrow> addr \<Rightarrow> pthreads \<Rightarrow> pthreads option" where
  "cv_wait v lock p = do {
     (_, p1) \<leftarrow> switch_at ATOMIC_WAIT v lock p;
     mutex_lock lock p1
   }"

section \<open>Mutexes of the program\<close>

text \<open>A missing entry of a map reads as \<^verbatim>\<open>NULL\<close>.\<close>

definition get_mutex_object :: "addr \<Rightarrow> pthreads \<Rightarrow> addr" where
  "get_mutex_object p_mutex p = (case so_mutex_map (pt_objects p) p_mutex of None \<Rightarrow> 0 | Some m \<Rightarrow> m)"

definition get_cond_object :: "addr \<Rightarrow> pthreads \<Rightarrow> addr" where
  "get_cond_object p_cond p = (case so_cond_map (pt_objects p) p_cond of None \<Rightarrow> 0 | Some v \<Rightarrow> v)"

text \<open>The attribute, if there is one, says whether the mutex is recursive.\<close>

definition pthread_mutex_init :: "addr \<Rightarrow> bool option \<Rightarrow> pthreads \<Rightarrow> pthreads option" where
  "pthread_mutex_init p_mutex attr p = do {
     let recursive = (case attr of None \<Rightarrow> False | Some r \<Rightarrow> r);
     (m, p1) \<leftarrow> new_object (Mutex_Object (mutex_init recursive p)) p;
     Some (upd_objects (\<lambda>o'. o'\<lparr>so_mutex_map := (so_mutex_map o')(p_mutex \<mapsto> m)\<rparr>) p1)
   }"

definition ensure_mutex :: "addr \<Rightarrow> pthreads \<Rightarrow> pthreads option" where
  "ensure_mutex p_mutex p =
     (if so_mutex_map (pt_objects p) p_mutex = None then pthread_mutex_init p_mutex None p else Some p)"

definition pthread_mutex_lock :: "addr \<Rightarrow> pthreads \<Rightarrow> (nat \<times> pthreads) option" where
  "pthread_mutex_lock p_mutex p = do {
     p1 \<leftarrow> ensure_mutex p_mutex p;
     let m = get_mutex_object p_mutex p1;
     if m \<noteq> 0 then map_option (Pair 0) (mutex_lock m p1) else Some (1, p1)
   }"

definition EBUSY :: nat where "EBUSY = 16"

definition pthread_mutex_trylock :: "addr \<Rightarrow> pthreads \<Rightarrow> (nat \<times> pthreads) option" where
  "pthread_mutex_trylock p_mutex p = do {
     (r, p1) \<leftarrow> mutex_try_lock (get_mutex_object p_mutex p) p;
     Some (if r then 0 else EBUSY, p1)
   }"

definition pthread_mutex_unlock :: "addr \<Rightarrow> pthreads \<Rightarrow> (nat \<times> pthreads) option" where
  "pthread_mutex_unlock p_mutex p =
     (let m = get_mutex_object p_mutex p
      in if m \<noteq> 0 then map_option (Pair 0) (mutex_unlock m p) else Some (1, p))"

definition pthread_mutex_timedlock :: "addr \<Rightarrow> pthreads \<Rightarrow> (nat \<times> pthreads) option" where
  "pthread_mutex_timedlock p_mutex p = do {
     p1 \<leftarrow> ensure_mutex p_mutex p;
     let m = get_mutex_object p_mutex p1;
     if m \<noteq> 0 then map_option (Pair 0) (mutex_lock m p1) else Some (1, p1)
   }"

section \<open>Condition variables of the program\<close>

definition pthread_cond_init :: "addr \<Rightarrow> pthreads \<Rightarrow> pthreads option" where
  "pthread_cond_init p_cond p = do {
     (v, p1) \<leftarrow> new_object Cond_Object p;
     Some (upd_objects (\<lambda>o'. o'\<lparr>so_cond_map := (so_cond_map o')(p_cond \<mapsto> v)\<rparr>) p1)
   }"

definition ensure_cond :: "addr \<Rightarrow> pthreads \<Rightarrow> pthreads option" where
  "ensure_cond p_cond p = (if so_cond_map (pt_objects p) p_cond = None then pthread_cond_init p_cond p else Some p)"

definition pthread_cond_wait :: "addr \<Rightarrow> addr \<Rightarrow> pthreads \<Rightarrow> pthreads option" where
  "pthread_cond_wait p_cond p_mutex p = do {
     p1 \<leftarrow> ensure_cond p_cond p;
     p2 \<leftarrow> ensure_mutex p_mutex p1;
     cv_wait (get_cond_object p_cond p2) (get_mutex_object p_mutex p2) p2
   }"

definition pthread_cond_timedwait :: "addr \<Rightarrow> addr \<Rightarrow> pthreads \<Rightarrow> pthreads option" where
  "pthread_cond_timedwait p_cond p_mutex p = do {
     p1 \<leftarrow> ensure_cond p_cond p;
     p2 \<leftarrow> ensure_mutex p_mutex p1;
     let v = get_cond_object p_cond p2;
     let m = get_mutex_object p_mutex p2;
     (_, p3) \<leftarrow> switch_at ATOMIC_TIMEDWAIT v m p2;
     mutex_lock m p3
   }"

definition pthread_cond_signal :: "addr \<Rightarrow> pthreads \<Rightarrow> pthreads option" where
  "pthread_cond_signal p_cond p = do { p1 \<leftarrow> ensure_cond p_cond p; notify_one (get_cond_object p_cond p1) p1 }"

definition pthread_cond_broadcast :: "addr \<Rightarrow> pthreads \<Rightarrow> pthreads option" where
  "pthread_cond_broadcast p_cond p = do { p1 \<leftarrow> ensure_cond p_cond p; notify_all (get_cond_object p_cond p1) p1 }"

definition pthread_cond_destroy :: "addr \<Rightarrow> pthreads \<Rightarrow> pthreads" where
  "pthread_cond_destroy p_cond p =
     (if so_cond_map (pt_objects p) p_cond \<noteq> None
      then upd_objects (\<lambda>o'. o'\<lparr>so_objects := (so_objects o')(get_cond_object p_cond p := None),
        so_cond_map := (so_cond_map o')(p_cond := None)\<rparr>) p else p)"

section \<open>Threads\<close>

text \<open>\<open>params\<close> is the address of the pair of start routine and argument on the stack.\<close>

definition pthread_create :: "addr \<Rightarrow> u64 \<Rightarrow> pthreads \<Rightarrow> pthreads option" where
  "pthread_create t params p = map_option snd (switch_at PTHREAD_CREATE t params p)"

text \<open>The result is handed back when the caller asks for it.\<close>

definition pthread_join :: "u64 \<Rightarrow> bool \<Rightarrow> pthreads \<Rightarrow> (u64 option \<times> pthreads) option" where
  "pthread_join t wants_value p = do {
     th \<leftarrow> so_pthreads (pt_objects p) t;
     (_, p1) \<leftarrow> switch_at PTHREAD_JOIN (pt_thread_at p th) (of_nat th) p;
     Some (if wants_value then Some (so_returns (pt_objects p1) th) else None, p1)
   }"

definition sched_yield :: "pthreads \<Rightarrow> pthreads option" where
  "sched_yield p = map_option snd (switch_at THREAD_YIELD (pt_thread_at p (thread_current p)) VALUE_NONE p)"

definition set_pthread_return :: "tid \<Rightarrow> u64 \<Rightarrow> pthreads \<Rightarrow> pthreads" where
  "set_pthread_return t v p = upd_objects (\<lambda>o'. o'\<lparr>so_returns := (so_returns o')(t := v)\<rparr>) p"

text \<open>The thread does not come back from this call.\<close>

definition pthread_exit :: "u64 \<Rightarrow> pthreads \<Rightarrow> pthreads option" where
  "pthread_exit value_ptr p =
     (let th = thread_current p; p1 = set_pthread_return th value_ptr p
      in map_option snd (switch_at THREADONLY_FINISH (pt_thread_at p1 th) VALUE_NONE p1))"

definition pthread_self :: "pthreads \<Rightarrow> u64" where
  "pthread_self p = of_nat (thread_current p)"

definition pthread_setname_np :: "u64 \<Rightarrow> pthreads \<Rightarrow> nat" where
  "pthread_setname_np t p = (if so_pthreads (pt_objects p) t \<noteq> None then 0 else 1)"

definition initMainThread :: "pthreads \<Rightarrow> pthreads option" where
  "initMainThread p = map_option snd (switch_at THREAD_START (pt_thread_at p (thread_current p)) VALUE_NONE p)"

definition modelexit :: "pthreads \<Rightarrow> pthreads option" where
  "modelexit p = map_option snd (switch_at THREAD_FINISHALL (pt_thread_at p (thread_current p)) VALUE_NONE p)"

text \<open>
  The routine of the program runs on the state of its thread and, when it is a pthread
  routine, leaves a result.  The start and the end of the thread are handed over by
  \<^verbatim>\<open>setup_context\<close>, before the routine, and by \<^verbatim>\<open>tlsdestructor\<close>, in the last of the rounds
  in which the C library calls the destructor of the key.
\<close>

definition thread_startup :: "(pthreads \<Rightarrow> (u64 option \<times> pthreads) option) option \<Rightarrow> pthreads \<Rightarrow> pthreads option" where
  "thread_startup routine p =
     (case routine of
        None \<Rightarrow> Some p
      | Some f \<Rightarrow> do {
          (r, p1) \<leftarrow> f p;
          Some (case r of None \<Rightarrow> p1 | Some v \<Rightarrow> set_pthread_return (thread_current p) v p1)
        })"

definition setup_context :: "pthreads \<Rightarrow> pthreads option" where
  "setup_context p = map_option snd (switch_at THREAD_START (pt_thread_at p (thread_current p)) VALUE_NONE p)"

text \<open>The new value of the key, or the finished thread.\<close>

definition tlsdestructor :: "u64 \<Rightarrow> pthreads \<Rightarrow> (u64 option \<times> pthreads) option" where
  "tlsdestructor count p =
     (if count > 1 then Some (Some (count - 1), p)
      else map_option (\<lambda>(_, p1). (None, p1)) (switch_at THREAD_FINISH (pt_thread_at p (thread_current p)) VALUE_NONE p))"

text \<open>\<^verbatim>\<open>helper_thread\<close> sets the key, which is what its result is here, and runs the routine.\<close>

definition helper_thread :: "(pthreads \<Rightarrow> (u64 option \<times> pthreads) option) option \<Rightarrow> pthreads \<Rightarrow> (u64 \<times> pthreads) option" where
  "helper_thread routine p = map_option (Pair 4) (thread_startup routine p)"

text \<open>The library calls the destructor while the key is set, at most \<open>n\<close> times.\<close>

primrec run_destructors :: "nat \<Rightarrow> u64 option \<Rightarrow> pthreads \<Rightarrow> pthreads option" where
  "run_destructors 0 key p = Some p"
| "run_destructors (Suc n) key p =
     (case key of None \<Rightarrow> Some p | Some count \<Rightarrow> Option.bind (tlsdestructor count p) (\<lambda>(key1, p1). run_destructors n key1 p1))"

definition PTHREAD_DESTRUCTOR_ITERATIONS :: nat where "PTHREAD_DESTRUCTOR_ITERATIONS = 4"

definition thread_life :: "(pthreads \<Rightarrow> (u64 option \<times> pthreads) option) option \<Rightarrow> pthreads \<Rightarrow> pthreads option" where
  "thread_life routine p = do {
     p1 \<leftarrow> setup_context p;
     (key, p2) \<leftarrow> helper_thread routine p1;
     run_destructors PTHREAD_DESTRUCTOR_ITERATIONS (Some key) p2
   }"

section \<open>Sleeping\<close>

definition clock_gettime :: "pthreads \<Rightarrow> (u64 \<times> u64) \<times> pthreads" where
  "clock_gettime p = (pt_time p (pt_time_pos p), p\<lparr>pt_time_pos := pt_time_pos p + 1\<rparr>)"

definition nanoseconds :: "u64 \<times> u64 \<Rightarrow> u64" where
  "nanoseconds ts = fst ts * 1000000000 + snd ts"

text \<open>Without a checker, \<open>exists\<close> is false; \<open>wants_rmtp\<close> says that the caller passed a place for the elapsed time.\<close>

definition nanosleep :: "bool \<Rightarrow> u64 \<times> u64 \<Rightarrow> bool \<Rightarrow> pthreads \<Rightarrow> (u64 \<times> u64) option \<times> pthreads" where
  "nanosleep exists rqtp wants_rmtp p =
     (if exists then
        (let (currtime, p1) = clock_gettime p;
             lcurrtime = nanoseconds currtime;
             (_, p2) = switch_to_model (action_sleep THREAD_SLEEP memory_order_seq_cst (nanoseconds rqtp) lcurrtime (thread_current p1)) p1
         in if wants_rmtp then
              (let (endtime, p3) = clock_gettime p2;
                   elapsed = nanoseconds endtime - lcurrtime;
                   sec = elapsed div 1000000000
               in (Some (sec, elapsed - sec * 1000000000), p3))
            else (None, p2))
      else (None, p))"

text \<open>Seconds fit into \<^verbatim>\<open>time_t\<close>, so that the loop of \<^verbatim>\<open>sleep\<close> is done once.\<close>

definition sleep :: "bool \<Rightarrow> u32 \<Rightarrow> pthreads \<Rightarrow> pthreads" where
  "sleep exists seconds p = snd (nanosleep exists (ucast seconds, 0) True p)"

definition usleep :: "bool \<Rightarrow> u32 \<Rightarrow> pthreads \<Rightarrow> pthreads" where
  "usleep exists useconds p = snd (nanosleep exists (ucast (useconds div 1000000), ucast (useconds mod 1000000) * 1000) False p)"

end
