(* ===== verification/Thread_Claims.thy ===== *)
theory Thread_Claims
  imports Thread_API
begin

text \<open>
  What the threading functions keep true of the model's mutexes and condition variables, and
  which actions they hand to the checker.
\<close>

section \<open>Well-formed objects\<close>

text \<open>
  Every entry of the map of mutexes is a mutex of the model, every entry of the map of condition
  variables a condition variable; the objects are at addresses given out before, no object is
  entered twice, and the allocator never gives the same address twice.
\<close>

definition allocator_ok :: "(nat \<Rightarrow> addr) \<Rightarrow> bool" where
  "allocator_ok at \<longleftrightarrow> (\<forall>m n. at m = at n \<longrightarrow> at m \<noteq> 0 \<longrightarrow> m = n)"

definition made :: "(nat \<Rightarrow> addr) \<Rightarrow> shared_objects \<Rightarrow> addr set" where
  "made at o' = at ` {..<so_made o'} - {0}"

definition mutex_objects :: "shared_objects \<Rightarrow> addr set" where
  "mutex_objects o' = {m. \<exists>ms. so_objects o' m = Some (Mutex_Object ms)}"

definition cond_objects :: "shared_objects \<Rightarrow> addr set" where
  "cond_objects o' = {v. so_objects o' v = Some Cond_Object}"

definition objects_ok :: "(nat \<Rightarrow> addr) \<Rightarrow> shared_objects \<Rightarrow> bool" where
  "objects_ok at o' \<longleftrightarrow> ran (so_mutex_map o') \<subseteq> mutex_objects o' \<and> ran (so_cond_map o') \<subseteq> cond_objects o' \<and>
     dom (so_objects o') \<subseteq> made at o' \<and>
     inj_on (so_mutex_map o') (dom (so_mutex_map o')) \<and> inj_on (so_cond_map o') (dom (so_cond_map o'))"

lemma kinds_made: "objects_ok at o' \<Longrightarrow> mutex_objects o' \<subseteq> made at o'" "objects_ok at o' \<Longrightarrow> cond_objects o' \<subseteq> made at o'"
  by (auto simp: objects_ok_def mutex_objects_def cond_objects_def)

lemma object_kinds_apart: "mutex_objects o' \<inter> cond_objects o' = {}"
  by (auto simp: mutex_objects_def cond_objects_def)

text \<open>
  Other threads may make objects, too, but keep those there are: none initialises a mutex or
  a condition variable that is in use again, or destroys it.
\<close>

definition others_steady :: "pthreads \<Rightarrow> bool" where
  "others_steady p \<longleftrightarrow> (\<forall>log o'. objects_ok (pt_object_at p) o' \<longrightarrow>
     objects_ok (pt_object_at p) (pt_others p log o') \<and>
     so_mutex_map o' \<subseteq>\<^sub>m so_mutex_map (pt_others p log o') \<and> so_cond_map o' \<subseteq>\<^sub>m so_cond_map (pt_others p log o'))"

definition pthreads_ok :: "pthreads \<Rightarrow> bool" where
  "pthreads_ok p \<longleftrightarrow> allocator_ok (pt_object_at p) \<and> objects_ok (pt_object_at p) (pt_objects p) \<and> others_steady p"

text \<open>How a state may follow another: the entries of the maps stay.\<close>

definition keeps_objects :: "pthreads \<Rightarrow> pthreads \<Rightarrow> bool" where
  "keeps_objects p p' \<longleftrightarrow> pthreads_ok p' \<and> so_mutex_map (pt_objects p) \<subseteq>\<^sub>m so_mutex_map (pt_objects p') \<and>
     so_cond_map (pt_objects p) \<subseteq>\<^sub>m so_cond_map (pt_objects p') \<and>
     cl_tid (pt_client p') = cl_tid (pt_client p) \<and> pt_thread_at p' = pt_thread_at p"

lemma keeps_objects_refl: "pthreads_ok p \<Longrightarrow> keeps_objects p p"
  by (simp add: keeps_objects_def)

lemma keeps_objects_trans [trans]: "keeps_objects p q \<Longrightarrow> keeps_objects q r \<Longrightarrow> keeps_objects p r"
  by (auto simp: keeps_objects_def intro: map_le_trans)

lemma keeps_okD: "keeps_objects p p' \<Longrightarrow> pthreads_ok p'"
  by (simp add: keeps_objects_def)

section \<open>Handing over\<close>

text \<open>The actions handed over so far.\<close>

definition handed :: "pthreads \<Rightarrow> client_event list" where
  "handed p = cl_log (pt_client p)"

lemma switch_to_model_keeps:
  assumes "pthreads_ok p" "switch_to_model a p = (r, p')"
  shows "keeps_objects p p'" "handed p' = handed p @ [Switch a]"
  using assms by (auto simp: switch_to_model_def keeps_objects_def pthreads_ok_def others_steady_def handed_def
      hand_over_def log_events_def Let_def)

lemma switch_at_result:
  assumes "pthreads_ok p" "loc \<noteq> 0"
  obtains r p' a where "switch_at ty loc v p = Some (r, p')" "keeps_objects p p'"
    "action_at ty memory_order_seq_cst loc v (thread_current p) 0 = Some a" "handed p' = handed p @ [Switch a]"
proof -
  obtain a where a: "action_at ty memory_order_seq_cst loc v (thread_current p) 0 = Some a"
    using assms(2) by (simp add: action_at_def)
  obtain r p' where s: "switch_to_model a p = (r, p')" by (cases "switch_to_model a p")
  from switch_to_model_keeps [OF assms(1) s] a s show thesis by (intro that) (simp_all add: switch_at_def)
qed

section \<open>Making objects on first use\<close>

lemma fresh_object: "allocator_ok at \<Longrightarrow> at (so_made o') \<notin> made at o'"
  by (force simp: made_def allocator_ok_def)

lemma made_grows: "so_made o2 = so_made o1 + 1 \<Longrightarrow> at (so_made o1) \<noteq> 0 \<Longrightarrow> made at o2 = insert (at (so_made o1)) (made at o1)"
  by (auto simp: made_def less_Suc_eq)

lemma inj_on_fresh:
  assumes "inj_on m (dom m)" "v \<notin> ran m"
  shows "inj_on (m(k \<mapsto> v)) (dom (m(k \<mapsto> v)))"
proof (rule inj_onI)
  fix x y assume "x \<in> dom (m(k \<mapsto> v))" "y \<in> dom (m(k \<mapsto> v))" "(m(k \<mapsto> v)) x = (m(k \<mapsto> v)) y"
  with assms show "x = y" by (auto simp: ran_def dest: inj_onD split: if_split_asm)
qed

text \<open>A map to objects that are made when they are first asked for.\<close>

locale lazy_objects =
  fixes ok :: "'s \<Rightarrow> bool" and entries :: "'s \<Rightarrow> 'k \<rightharpoonup> 'v" and make :: "'k \<Rightarrow> 's \<Rightarrow> 's option"
    and keeps :: "'s \<Rightarrow> 's \<Rightarrow> bool"
  assumes make_law: "ok s \<Longrightarrow> entries s k = None \<Longrightarrow> make k s = Some s' \<Longrightarrow>
      keeps s s' \<and> (\<exists>v. entries s' = (entries s)(k \<mapsto> v))"
    and keeps_refl: "ok s \<Longrightarrow> keeps s s"
    and keeps_entries: "keeps s s' \<Longrightarrow> entries s \<subseteq>\<^sub>m entries s'"
begin

definition ensured :: "'k \<Rightarrow> 's \<Rightarrow> 's option" where
  "ensured k s = (if entries s k = None then make k s else Some s)"

lemma ensured_keeps: "ok s \<Longrightarrow> ensured k s = Some s' \<Longrightarrow> keeps s s'"
  using make_law keeps_refl by (auto simp: ensured_def split: if_splits)

lemma ensured_present: "ok s \<Longrightarrow> ensured k s = Some s' \<Longrightarrow> entries s' k \<noteq> None"
  using make_law [of s k s'] by (auto simp: ensured_def split: if_splits)

lemma ensured_again:
  "ok s \<Longrightarrow> ensured k s = Some s1 \<Longrightarrow> keeps s1 s2 \<Longrightarrow> ensured k s2 = Some s2"
  using ensured_present [of s k s1] keeps_entries [of s1 s2] by (auto simp: ensured_def map_le_def dom_def)

end

text \<open>Entering a new object in one of the maps; \<open>p'\<close> differs from \<open>p\<close> in nothing else that matters.\<close>

definition differs_in_objects :: "pthreads \<Rightarrow> pthreads \<Rightarrow> bool" where
  "differs_in_objects p p' \<longleftrightarrow> pt_object_at p' = pt_object_at p \<and> pt_others p' = pt_others p \<and>
     cl_tid (pt_client p') = cl_tid (pt_client p) \<and> pt_thread_at p' = pt_thread_at p \<and> handed p' = handed p \<and>
     so_made (pt_objects p') = so_made (pt_objects p) + 1 \<and> pt_object_at p (so_made (pt_objects p)) \<noteq> 0"

lemma enter_object:
  assumes ok: "pthreads_ok p" and same: "differs_in_objects p p'"
    and new: "v = pt_object_at p (so_made (pt_objects p))" "so_objects (pt_objects p') = (so_objects (pt_objects p))(v \<mapsto> obj)"
      "obj \<noteq> Cond_Object \<and> so_mutex_map (pt_objects p') = (so_mutex_map (pt_objects p))(k \<mapsto> v) \<and>
         so_cond_map (pt_objects p') = so_cond_map (pt_objects p) \<or>
       obj = Cond_Object \<and> so_cond_map (pt_objects p') = (so_cond_map (pt_objects p))(k \<mapsto> v) \<and>
         so_mutex_map (pt_objects p') = so_mutex_map (pt_objects p)"
  shows "pthreads_ok p'"
proof -
  let ?at = "pt_object_at p" and ?m = "so_mutex_map (pt_objects p)" and ?c = "so_cond_map (pt_objects p)"
  from ok have o: "allocator_ok ?at" "objects_ok ?at (pt_objects p)" by (simp_all add: pthreads_ok_def)
  from fresh_object [OF o(1)] new(1) have fresh: "v \<notin> made ?at (pt_objects p)" by simp
  with kinds_made [OF o(2)] o(2) have v: "v \<notin> ran ?m" "v \<notin> ran ?c" by (auto simp: objects_ok_def)
  have inj: "inj_on ?m (dom ?m)" "inj_on ?c (dom ?c)" using o(2) by (simp_all add: objects_ok_def)
  have grown: "ran (?m(k \<mapsto> v)) \<subseteq> insert v (ran ?m)" "ran (?c(k \<mapsto> v)) \<subseteq> insert v (ran ?c)"
    by (auto simp: ran_def split: if_split_asm)
  have "made ?at (pt_objects p') = insert v (made ?at (pt_objects p))"
    using same new(1) by (simp add: made_grows differs_in_objects_def)
  moreover have "v \<notin> mutex_objects (pt_objects p)" "v \<notin> cond_objects (pt_objects p)" using fresh kinds_made [OF o(2)] by auto
  then have "mutex_objects (pt_objects p') = (if obj = Cond_Object then mutex_objects (pt_objects p) else insert v (mutex_objects (pt_objects p)))"
    "cond_objects (pt_objects p') = (if obj = Cond_Object then insert v (cond_objects (pt_objects p)) else cond_objects (pt_objects p))"
    using new(2) by (cases obj; auto simp: mutex_objects_def cond_objects_def)+
  ultimately have "objects_ok ?at (pt_objects p')"
    using o(2) new(2,3) grown v inj_on_fresh [OF inj(1) v(1), of k] inj_on_fresh [OF inj(2) v(2), of k]
    unfolding objects_ok_def by (elim disjE conjE) (simp_all, blast+)
  with ok same show ?thesis by (simp add: pthreads_ok_def others_steady_def differs_in_objects_def)
qed

lemma mutex_init_result:
  assumes "pthread_mutex_init k attr p = Some p'"
  shows "differs_in_objects p p'"
    "so_mutex_map (pt_objects p') = (so_mutex_map (pt_objects p))(k \<mapsto> pt_object_at p (so_made (pt_objects p)))"
    "so_cond_map (pt_objects p') = so_cond_map (pt_objects p)"
    "\<exists>ms. so_objects (pt_objects p') = (so_objects (pt_objects p))(pt_object_at p (so_made (pt_objects p)) \<mapsto> Mutex_Object ms)"
  using assms by (auto simp: pthread_mutex_init_def new_object_def upd_objects_def differs_in_objects_def handed_def
      Let_def split: if_split_asm)

lemma cond_init_result:
  assumes "pthread_cond_init k p = Some p'"
  shows "differs_in_objects p p'"
    "so_cond_map (pt_objects p') = (so_cond_map (pt_objects p))(k \<mapsto> pt_object_at p (so_made (pt_objects p)))"
    "so_mutex_map (pt_objects p') = so_mutex_map (pt_objects p)"
    "so_objects (pt_objects p') = (so_objects (pt_objects p))(pt_object_at p (so_made (pt_objects p)) \<mapsto> Cond_Object)"
  using assms by (auto simp: pthread_cond_init_def new_object_def upd_objects_def differs_in_objects_def handed_def
      Let_def split: if_split_asm)

lemma mutex_init_ok:
  assumes "pthreads_ok p" "pthread_mutex_init k attr p = Some p'"
  shows "pthreads_ok p'"
proof -
  note r = mutex_init_result [OF assms(2)]
  from r(4) obtain ms where "so_objects (pt_objects p') = (so_objects (pt_objects p))(pt_object_at p (so_made (pt_objects p)) \<mapsto> Mutex_Object ms)" ..
  then show ?thesis by (rule enter_object [OF assms(1) r(1) refl]) (use r(2,3) in simp)
qed

lemma cond_init_ok:
  assumes "pthreads_ok p" "pthread_cond_init k p = Some p'"
  shows "pthreads_ok p'"
proof -
  note r = cond_init_result [OF assms(2)]
  show ?thesis by (rule enter_object [OF assms(1) r(1) refl r(4)]) (use r(2,3) in simp)
qed

interpretation mutexes: lazy_objects pthreads_ok "\<lambda>p. so_mutex_map (pt_objects p)" "\<lambda>k. pthread_mutex_init k None" keeps_objects
proof
  fix p p' k assume a: "pthreads_ok p" "so_mutex_map (pt_objects p) k = None" "pthread_mutex_init k None p = Some p'"
  with mutex_init_result [OF a(3)] mutex_init_ok [OF a(1,3)]
  show "keeps_objects p p' \<and> (\<exists>v. so_mutex_map (pt_objects p') = (so_mutex_map (pt_objects p))(k \<mapsto> v))"
    by (auto simp: keeps_objects_def differs_in_objects_def map_le_def)
qed (auto simp: keeps_objects_def)

interpretation conds: lazy_objects pthreads_ok "\<lambda>p. so_cond_map (pt_objects p)" pthread_cond_init keeps_objects
proof
  fix p p' k assume a: "pthreads_ok p" "so_cond_map (pt_objects p) k = None" "pthread_cond_init k p = Some p'"
  with cond_init_result [OF a(3)] cond_init_ok [OF a(1,3)]
  show "keeps_objects p p' \<and> (\<exists>v. so_cond_map (pt_objects p') = (so_cond_map (pt_objects p))(k \<mapsto> v))"
    by (auto simp: keeps_objects_def differs_in_objects_def map_le_def)
qed (auto simp: keeps_objects_def)

lemma ensure_mutex_eq: "ensure_mutex = mutexes.ensured"
  by (intro ext) (simp add: ensure_mutex_def mutexes.ensured_def)

lemma ensure_cond_eq: "ensure_cond = conds.ensured"
  by (intro ext) (simp add: ensure_cond_def conds.ensured_def)

text \<open>The object of an entry is not null.\<close>

lemma entry_not_null:
  assumes "pthreads_ok p"
  shows "so_mutex_map (pt_objects p) k = Some m \<Longrightarrow> m \<noteq> 0" "so_cond_map (pt_objects p) k = Some v \<Longrightarrow> v \<noteq> 0"
proof -
  have o: "objects_ok (pt_object_at p) (pt_objects p)" using assms by (simp add: pthreads_ok_def)
  have null: "0 \<notin> made (pt_object_at p) (pt_objects p)" by (simp add: made_def)
  show "so_mutex_map (pt_objects p) k = Some m \<Longrightarrow> m \<noteq> 0" "so_cond_map (pt_objects p) k = Some v \<Longrightarrow> v \<noteq> 0"
    using o kinds_made [OF o] null unfolding objects_ok_def by (blast dest: ranI)+
qed

lemma ensured_mutex:
  assumes "pthreads_ok p" "ensure_mutex k p = Some p'"
  obtains m where "keeps_objects p p'" "so_mutex_map (pt_objects p') k = Some m" "get_mutex_object k p' = m" "m \<noteq> 0"
    "handed p' = handed p"
proof -
  note e = assms(2) [unfolded ensure_mutex_eq]
  note keeps = mutexes.ensured_keeps [OF assms(1) e]
  from mutexes.ensured_present [OF assms(1) e] obtain m where m: "so_mutex_map (pt_objects p') k = Some m" by auto
  have "handed p' = handed p"
    using assms(2) mutex_init_result(1) [of k None p p'] by (auto simp: ensure_mutex_def differs_in_objects_def split: if_splits)
  with m keeps entry_not_null(1) [OF keeps_okD [OF keeps] m] show thesis
    by (intro that) (simp_all add: get_mutex_object_def)
qed

lemma ensured_cond:
  assumes "pthreads_ok p" "ensure_cond k p = Some p'"
  obtains v where "keeps_objects p p'" "so_cond_map (pt_objects p') k = Some v" "get_cond_object k p' = v" "v \<noteq> 0"
    "handed p' = handed p"
proof -
  note e = assms(2) [unfolded ensure_cond_eq]
  note keeps = conds.ensured_keeps [OF assms(1) e]
  from conds.ensured_present [OF assms(1) e] obtain v where v: "so_cond_map (pt_objects p') k = Some v" by auto
  have "handed p' = handed p"
    using assms(2) cond_init_result(1) [of k p p'] by (auto simp: ensure_cond_def differs_in_objects_def split: if_splits)
  with v keeps entry_not_null(2) [OF keeps_okD [OF keeps] v] show thesis
    by (intro that) (simp_all add: get_cond_object_def)
qed

text \<open>There is memory for the next \<open>n\<close> objects.\<close>

definition room_for :: "nat \<Rightarrow> pthreads \<Rightarrow> bool" where
  "room_for n p \<longleftrightarrow> (\<forall>i < n. pt_object_at p (so_made (pt_objects p) + i) \<noteq> 0)"

lemma ensure_mutex_room:
  assumes "room_for (Suc n) p"
  obtains p' where "ensure_mutex k p = Some p'" "room_for n p'"
proof (cases "so_mutex_map (pt_objects p) k")
  case None
  from assms have "pt_object_at p (so_made (pt_objects p)) \<noteq> 0" unfolding room_for_def by (metis add_0_right zero_less_Suc)
  with None obtain p' where p': "ensure_mutex k p = Some p'" "pthread_mutex_init k None p = Some p'"
    by (simp add: ensure_mutex_def pthread_mutex_init_def new_object_def Let_def)
  with mutex_init_result(1) [OF p'(2)] assms show thesis
    by (intro that) (auto simp: room_for_def differs_in_objects_def)
next
  case (Some m)
  with assms show thesis by (intro that [of p]) (auto simp: ensure_mutex_def room_for_def)
qed

lemma ensure_cond_room:
  assumes "room_for (Suc n) p"
  obtains p' where "ensure_cond k p = Some p'" "room_for n p'"
proof (cases "so_cond_map (pt_objects p) k")
  case None
  from assms have "pt_object_at p (so_made (pt_objects p)) \<noteq> 0" unfolding room_for_def by (metis add_0_right zero_less_Suc)
  with None obtain p' where p': "ensure_cond k p = Some p'" "pthread_cond_init k p = Some p'"
    by (simp add: ensure_cond_def pthread_cond_init_def new_object_def Let_def)
  with cond_init_result(1) [OF p'(2)] assms show thesis
    by (intro that) (auto simp: room_for_def differs_in_objects_def)
next
  case (Some v)
  with assms show thesis by (intro that [of p]) (auto simp: ensure_cond_def room_for_def)
qed

lemma keeps_entry:
  "keeps_objects p p' \<Longrightarrow> so_mutex_map (pt_objects p) k = Some m \<Longrightarrow> so_mutex_map (pt_objects p') k = Some m"
  "keeps_objects p p' \<Longrightarrow> so_cond_map (pt_objects p) k = Some v \<Longrightarrow> so_cond_map (pt_objects p') k = Some v"
  by (auto simp: keeps_objects_def map_le_def dom_def)

section \<open>What is handed over\<close>

definition handed_action :: "action_type \<Rightarrow> addr \<Rightarrow> u64 \<Rightarrow> tid \<Rightarrow> client_event \<Rightarrow> bool" where
  "handed_action ty loc v t ev \<longleftrightarrow> (\<exists>a. ev = Switch a \<and> action_at ty memory_order_seq_cst loc v t 0 = Some a)"

lemma mutex_lock_result:
  assumes "pthreads_ok p" "m \<noteq> 0"
  obtains p' ev where "mutex_lock m p = Some p'" "keeps_objects p p'" "handed p' = handed p @ [ev]"
    "handed_action ATOMIC_LOCK m VALUE_NONE (thread_current p) ev"
proof -
  from switch_at_result [OF assms, of ATOMIC_LOCK VALUE_NONE] obtain r p' a where
    "switch_at ATOMIC_LOCK m VALUE_NONE p = Some (r, p')" "keeps_objects p p'"
    "action_at ATOMIC_LOCK memory_order_seq_cst m VALUE_NONE (thread_current p) 0 = Some a" "handed p' = handed p @ [Switch a]" .
  then show thesis by (intro that [of p' "Switch a"]) (simp_all add: mutex_lock_def handed_action_def)
qed

lemma thread_kept: "keeps_objects p p' \<Longrightarrow> thread_current p' = thread_current p"
  by (simp add: keeps_objects_def thread_current_def)

text \<open>
  C32: Waiting on a condition variable hands over exactly two actions, the wait on the model's
  condition variable, which names the model's mutex, and the lock of that mutex; both objects
  are made when they are first used and stay the ones entered for the program's addresses.
\<close>
theorem cond_wait_relocks:
  assumes "pthreads_ok p" "room_for 2 p"
  shows "\<exists>p' v m ev1 ev2. pthread_cond_wait p_cond p_mutex p = Some p' \<and> keeps_objects p p' \<and>
    so_cond_map (pt_objects p') p_cond = Some v \<and> so_mutex_map (pt_objects p') p_mutex = Some m \<and>
    handed p' = handed p @ [ev1, ev2] \<and> handed_action ATOMIC_WAIT v m (thread_current p) ev1 \<and>
    handed_action ATOMIC_LOCK m VALUE_NONE (thread_current p) ev2"
proof -
  from ensure_cond_room [OF assms(2) [unfolded numeral_2_eq_2], of p_cond] obtain p0 where
    p0: "ensure_cond p_cond p = Some p0" "room_for (Suc 0) p0" .
  from ensured_cond [OF assms(1) p0(1)] obtain v where
    c: "keeps_objects p p0" "so_cond_map (pt_objects p0) p_cond = Some v" "v \<noteq> 0" "handed p0 = handed p" .
  from ensure_mutex_room [OF p0(2), of p_mutex] obtain p1 where p1: "ensure_mutex p_mutex p0 = Some p1" .
  from ensured_mutex [OF keeps_okD [OF c(1)] p1] obtain m where
    m: "keeps_objects p0 p1" "so_mutex_map (pt_objects p1) p_mutex = Some m"
      "get_mutex_object p_mutex p1 = m" "m \<noteq> 0" "handed p1 = handed p0" .
  have k1: "keeps_objects p p1" by (rule keeps_objects_trans [OF c(1) m(1)])
  have v1: "get_cond_object p_cond p1 = v" using keeps_entry(2) [OF m(1) c(2)] by (simp add: get_cond_object_def)
  from switch_at_result [OF keeps_okD [OF k1] c(3), of ATOMIC_WAIT m] obtain r p2 a where
    w: "switch_at ATOMIC_WAIT v m p1 = Some (r, p2)" "keeps_objects p1 p2"
      "action_at ATOMIC_WAIT memory_order_seq_cst v m (thread_current p1) 0 = Some a" "handed p2 = handed p1 @ [Switch a]" .
  from mutex_lock_result [OF keeps_okD [OF w(2)] m(4)] obtain p3 ev2 where
    l: "mutex_lock m p2 = Some p3" "keeps_objects p2 p3" "handed p3 = handed p2 @ [ev2]"
      "handed_action ATOMIC_LOCK m VALUE_NONE (thread_current p2) ev2" .
  have k12: "keeps_objects p1 p3" by (rule keeps_objects_trans [OF w(2) l(2)])
  show ?thesis
  proof (intro exI conjI)
    show "pthread_cond_wait p_cond p_mutex p = Some p3"
      using p0(1) p1 w(1) l(1) m(3) v1 by (simp add: pthread_cond_wait_def cv_wait_def)
    show "keeps_objects p p3" by (rule keeps_objects_trans [OF k1 k12])
    show "so_cond_map (pt_objects p3) p_cond = Some v" by (rule keeps_entry(2) [OF keeps_objects_trans [OF m(1) k12] c(2)])
    show "so_mutex_map (pt_objects p3) p_mutex = Some m" by (rule keeps_entry(1) [OF k12 m(2)])
    show "handed p3 = handed p @ [Switch a, ev2]" using l(3) w(4) m(5) c(4) by simp
    show "handed_action ATOMIC_WAIT v m (thread_current p) (Switch a)"
      using w(3) thread_kept [OF k1] by (simp add: handed_action_def)
    show "handed_action ATOMIC_LOCK m VALUE_NONE (thread_current p) ev2"
      using l(4) thread_kept [OF k1] thread_kept [OF w(2)] by simp
  qed
qed

text \<open>A thread whose objects are made at addresses 16, 32, ..., 4096 and whose partners do nothing.\<close>

definition demo_pthreads :: pthreads where
  "demo_pthreads = \<lparr>pt_client = \<lparr>cl_tid = 1, cl_mem = (\<lambda>_. 0), cl_log = [], cl_answer = (\<lambda>_. 1)\<rparr>,
     pt_objects = \<lparr>so_mutex_map = Map.empty, so_cond_map = Map.empty, so_objects = Map.empty,
       so_made = 0, so_returns = (\<lambda>_. 0), so_pthreads = (\<lambda>_. None)\<rparr>,
     pt_others = (\<lambda>_ o'. o'), pt_object_at = (\<lambda>n. if n < 256 then of_nat (16 * n + 16) else 0), pt_thread_at = (\<lambda>t. 8),
     pt_clock = (\<lambda>_. None), pt_time = (\<lambda>_. (0, 0)), pt_time_pos = 0\<rparr>"

lemma demo_object_at: "n < 256 \<Longrightarrow> unat (of_nat (16 * n + 16) :: addr) = 16 * n + 16"
  by (simp only: unat_of_nat) simp

lemma demo_pthreads_ok: "pthreads_ok demo_pthreads" "room_for 2 demo_pthreads"
proof -
  have nz: "(of_nat (16 * n + 16) :: addr) \<noteq> 0" if "n < 256" for n
    using demo_object_at [OF that] by (metis add_is_0 unat_0 zero_neq_numeral)
  have "allocator_ok (pt_object_at demo_pthreads)"
  proof (unfold allocator_ok_def, intro allI impI)
    fix m n assume e: "pt_object_at demo_pthreads m = pt_object_at demo_pthreads n" "pt_object_at demo_pthreads m \<noteq> 0"
    then have "m < 256" "n < 256" by (auto simp: demo_pthreads_def split: if_split_asm)
    with arg_cong [OF e(1), of unat] demo_object_at [of m] demo_object_at [of n] show "m = n"
      by (simp add: demo_pthreads_def del: of_nat_add of_nat_mult)
  qed
  then show "pthreads_ok demo_pthreads"
    by (simp add: pthreads_ok_def objects_ok_def others_steady_def demo_pthreads_def)
  show "room_for 2 demo_pthreads"
    using nz by (simp add: room_for_def demo_pthreads_def)
qed

theorem cond_wait_relocks_witness:
  "\<exists>p'. pthread_cond_wait 100 200 demo_pthreads = Some p' \<and> length (handed p') = 2 \<and>
     so_cond_map (pt_objects p') 100 \<noteq> None \<and> so_mutex_map (pt_objects p') 200 \<noteq> None"
proof -
  have "handed demo_pthreads = []" by (simp add: handed_def demo_pthreads_def)
  with cond_wait_relocks [OF demo_pthreads_ok, of 100 200] show ?thesis by auto
qed

section \<open>Every call\<close>

datatype thread_call =
    Create addr u64 | Join u64 bool | Yield | Exit_Thread u64
  | Mutex_Init addr "bool option" | Lock addr | Try_Lock addr | Unlock addr | Timed_Lock addr
  | Cond_Init addr | Cond_Wait addr addr | Cond_Timed_Wait addr addr | Signal addr | Broadcast addr | Cond_Destroy addr

fun do_call :: "thread_call \<Rightarrow> pthreads \<Rightarrow> pthreads option" where
  "do_call (Create t params) p = pthread_create t params p"
| "do_call (Join t b) p = map_option snd (pthread_join t b p)"
| "do_call Yield p = sched_yield p"
| "do_call (Exit_Thread v) p = pthread_exit v p"
| "do_call (Mutex_Init m attr) p = pthread_mutex_init m attr p"
| "do_call (Lock m) p = map_option snd (pthread_mutex_lock m p)"
| "do_call (Try_Lock m) p = map_option snd (pthread_mutex_trylock m p)"
| "do_call (Unlock m) p = map_option snd (pthread_mutex_unlock m p)"
| "do_call (Timed_Lock m) p = map_option snd (pthread_mutex_timedlock m p)"
| "do_call (Cond_Init c) p = pthread_cond_init c p"
| "do_call (Cond_Wait c m) p = pthread_cond_wait c m p"
| "do_call (Cond_Timed_Wait c m) p = pthread_cond_timedwait c m p"
| "do_call (Signal c) p = pthread_cond_signal c p"
| "do_call (Broadcast c) p = pthread_cond_broadcast c p"
| "do_call (Cond_Destroy c) p = Some (pthread_cond_destroy c p)"

lemma switch_at_ok: "pthreads_ok p \<Longrightarrow> switch_at ty loc v p = Some (r, p') \<Longrightarrow> pthreads_ok p'"
  by (auto simp: switch_at_def switch_to_model_def keeps_objects_def pthreads_ok_def others_steady_def
      hand_over_def log_events_def Let_def split: bind_splits)

lemma switch_twice_ok:
  "pthreads_ok p \<Longrightarrow> switch_at ty loc v p = Some (r, p1) \<Longrightarrow> switch_at ty' loc' v' p1 = Some (r', p') \<Longrightarrow> pthreads_ok p'"
  by (blast intro: switch_at_ok)

lemma ensured_ok:
  "pthreads_ok p \<Longrightarrow> ensure_mutex m p = Some p' \<Longrightarrow> pthreads_ok p'"
  "pthreads_ok p \<Longrightarrow> ensure_cond c p = Some p' \<Longrightarrow> pthreads_ok p'"
  unfolding ensure_mutex_eq ensure_cond_eq
  by (blast intro: keeps_okD mutexes.ensured_keeps conds.ensured_keeps)+

lemma ensured_twice_ok:
  "pthreads_ok p \<Longrightarrow> ensure_cond c p = Some p1 \<Longrightarrow> ensure_mutex m p1 = Some p' \<Longrightarrow> pthreads_ok p'"
  by (blast intro: ensured_ok)

lemma set_return_ok: "pthreads_ok p \<Longrightarrow> pthreads_ok (set_pthread_return t v p)"
  by (simp add: set_pthread_return_def upd_objects_def pthreads_ok_def others_steady_def objects_ok_def made_def
      mutex_objects_def cond_objects_def)

text \<open>The object of a destroyed condition variable is no other entry.\<close>

lemma cond_destroy_ok:
  assumes "pthreads_ok p"
  shows "pthreads_ok (pthread_cond_destroy c p)"
proof (cases "so_cond_map (pt_objects p) c")
  case None
  with assms show ?thesis by (simp add: pthread_cond_destroy_def)
next
  case (Some v)
  let ?o = "pt_objects p" and ?p' = "pthread_cond_destroy c p"
  let ?c = "so_cond_map ?o"
  have o: "objects_ok (pt_object_at p) ?o" using assms by (simp add: pthreads_ok_def)
  have p': "?p' = upd_objects (\<lambda>o'. o'\<lparr>so_objects := (so_objects o')(v := None), so_cond_map := (so_cond_map o')(c := None)\<rparr>) p"
    using Some by (simp add: pthread_cond_destroy_def get_cond_object_def)
  have v: "v \<in> cond_objects ?o" using o Some by (auto simp: objects_ok_def ran_def)
  have kinds: "mutex_objects (pt_objects ?p') = mutex_objects ?o" "cond_objects (pt_objects ?p') = cond_objects ?o - {v}"
    using v by (auto simp: p' upd_objects_def mutex_objects_def cond_objects_def)
  have "inj_on ?c (dom ?c)" using o by (simp add: objects_ok_def)
  then have "inj_on (?c(c := None)) (dom (?c(c := None)))" "ran (?c(c := None)) \<subseteq> ran ?c - {v}"
    using Some by (auto simp: inj_on_def dom_def ran_def split: if_split_asm)
  moreover have "made (pt_object_at p) (pt_objects ?p') = made (pt_object_at p) ?o" by (simp add: p' upd_objects_def made_def)
  ultimately have "objects_ok (pt_object_at p) (pt_objects ?p')"
    using o unfolding objects_ok_def kinds by (auto simp: p' upd_objects_def dom_def)
  with assms show ?thesis by (simp add: p' upd_objects_def pthreads_ok_def others_steady_def)
qed

text \<open>The calls that end with one action, and those that make their objects first.\<close>

lemma act_ok:
  assumes "pthreads_ok p"
  shows "mutex_lock m p = Some p' \<Longrightarrow> pthreads_ok p'" "mutex_unlock m p = Some p' \<Longrightarrow> pthreads_ok p'"
    "mutex_try_lock m p = Some (b, p') \<Longrightarrow> pthreads_ok p'" "notify_one v p = Some p' \<Longrightarrow> pthreads_ok p'"
    "notify_all v p = Some p' \<Longrightarrow> pthreads_ok p'"
  using switch_at_ok [OF assms]
  by (auto simp: mutex_lock_def mutex_unlock_def mutex_try_lock_def notify_one_def notify_all_def)

lemma lock_call_ok:
  assumes "pthreads_ok p"
  shows "pthread_mutex_lock m p = Some (r, p') \<Longrightarrow> pthreads_ok p'"
    and "pthread_mutex_timedlock m p = Some (r, p') \<Longrightarrow> pthreads_ok p'"
    and "pthread_mutex_unlock m p = Some (r, p') \<Longrightarrow> pthreads_ok p'"
    and "pthread_mutex_trylock m p = Some (r, p') \<Longrightarrow> pthreads_ok p'"
proof -
  have locked: "pthreads_ok p'" if "ensure_mutex m p = Some p1" "p' = p1 \<or> mutex_lock n p1 = Some p'" for p1 n
    using that ensured_ok(1) [OF assms that(1)] act_ok(1) by blast
  show "pthread_mutex_lock m p = Some (r, p') \<Longrightarrow> pthreads_ok p'"
    by (rule locked [of "the (ensure_mutex m p)" "get_mutex_object m (the (ensure_mutex m p))"]) (auto simp: pthread_mutex_lock_def Let_def bind_eq_Some_conv split: if_split_asm)
  show "pthread_mutex_timedlock m p = Some (r, p') \<Longrightarrow> pthreads_ok p'"
    by (rule locked [of "the (ensure_mutex m p)" "get_mutex_object m (the (ensure_mutex m p))"]) (auto simp: pthread_mutex_timedlock_def Let_def bind_eq_Some_conv split: if_split_asm)
  have "p' = p \<or> mutex_unlock (get_mutex_object m p) p = Some p'" if "pthread_mutex_unlock m p = Some (r, p')"
    using that by (auto simp: pthread_mutex_unlock_def Let_def split: if_split_asm)
  then show "pthread_mutex_unlock m p = Some (r, p') \<Longrightarrow> pthreads_ok p'" using assms act_ok(2) by blast
  have "\<exists>b. mutex_try_lock (get_mutex_object m p) p = Some (b, p')" if "pthread_mutex_trylock m p = Some (r, p')"
    using that by (auto simp: pthread_mutex_trylock_def bind_eq_Some_conv)
  then show "pthread_mutex_trylock m p = Some (r, p') \<Longrightarrow> pthreads_ok p'" using assms act_ok(3) by blast
qed

lemma cond_call_ok:
  assumes "pthreads_ok p"
  shows "pthread_cond_signal c p = Some p' \<Longrightarrow> pthreads_ok p'" "pthread_cond_broadcast c p = Some p' \<Longrightarrow> pthreads_ok p'"
    and "pthread_cond_wait c m p = Some p' \<Longrightarrow> pthreads_ok p'" "pthread_cond_timedwait c m p = Some p' \<Longrightarrow> pthreads_ok p'"
proof -
  have "\<exists>p1 v. ensure_cond c p = Some p1 \<and> notify_one v p1 = Some p'" if "pthread_cond_signal c p = Some p'"
    using that by (auto simp: pthread_cond_signal_def bind_eq_Some_conv)
  then show "pthread_cond_signal c p = Some p' \<Longrightarrow> pthreads_ok p'" using assms ensured_ok(2) act_ok(4) by blast
  have "\<exists>p1 v. ensure_cond c p = Some p1 \<and> notify_all v p1 = Some p'" if "pthread_cond_broadcast c p = Some p'"
    using that by (auto simp: pthread_cond_broadcast_def bind_eq_Some_conv)
  then show "pthread_cond_broadcast c p = Some p' \<Longrightarrow> pthreads_ok p'" using assms ensured_ok(2) act_ok(5) by blast
  have waited: "pthreads_ok p'" if "ensure_cond c p = Some p1" "ensure_mutex m p1 = Some p2"
    "switch_at ty v n p2 = Some (r, p3)" "mutex_lock n p3 = Some p'" for p1 p2 p3 ty v n r
    by (rule act_ok(1) [OF switch_at_ok [OF ensured_twice_ok [OF assms that(1,2)] that(3)] that(4)])
  have "\<exists>p1 p2 p3 v n r. ensure_cond c p = Some p1 \<and> ensure_mutex m p1 = Some p2 \<and>
      switch_at ATOMIC_WAIT v n p2 = Some (r, p3) \<and> mutex_lock n p3 = Some p'" if "pthread_cond_wait c m p = Some p'"
    using that by (simp add: pthread_cond_wait_def cv_wait_def bind_eq_Some_conv) blast
  then show "pthread_cond_wait c m p = Some p' \<Longrightarrow> pthreads_ok p'" using waited by blast
  have "\<exists>p1 p2 p3 v n r. ensure_cond c p = Some p1 \<and> ensure_mutex m p1 = Some p2 \<and>
      switch_at ATOMIC_TIMEDWAIT v n p2 = Some (r, p3) \<and> mutex_lock n p3 = Some p'" if "pthread_cond_timedwait c m p = Some p'"
    using that by (simp add: pthread_cond_timedwait_def Let_def bind_eq_Some_conv) blast
  then show "pthread_cond_timedwait c m p = Some p' \<Longrightarrow> pthreads_ok p'" using waited by blast
qed

text \<open>
  C33: Whatever calls a thread makes, the two maps stay well typed: a mutex of the program is
  mapped to an object that was made as a mutex of the model, a condition variable to one that
  was made as a condition variable and is not destroyed yet, and no object is entered twice.
\<close>
theorem thread_calls_keep_types:
  assumes "pthreads_ok p" "do_call c p = Some p'"
  shows "pthreads_ok p'"
proof (cases c)
  case (Create t params)
  with assms switch_at_ok [OF assms(1)] show ?thesis by (auto simp: pthread_create_def)
next
  case (Join t b)
  with assms switch_at_ok [OF assms(1)] show ?thesis by (auto simp: pthread_join_def bind_eq_Some_conv)
next
  case Yield
  with assms switch_at_ok [OF assms(1)] show ?thesis by (auto simp: sched_yield_def)
next
  case (Exit_Thread v)
  with assms switch_at_ok [OF set_return_ok [OF assms(1)]] show ?thesis by (auto simp: pthread_exit_def Let_def)
qed (use assms lock_call_ok [OF assms(1)] cond_call_ok [OF assms(1)] mutex_init_ok [OF assms(1)] cond_init_ok [OF assms(1)]
    cond_destroy_ok [OF assms(1)] in auto)

theorem thread_calls_keep_types_witness:
  "\<exists>p'. do_call (Lock 200) demo_pthreads = Some p' \<and> pthreads_ok p'"
proof -
  have "do_call (Lock 200) demo_pthreads \<noteq> None"
    by (simp add: pthread_mutex_lock_def ensure_mutex_def pthread_mutex_init_def new_object_def upd_objects_def
        mutex_lock_def switch_at_def action_at_def get_mutex_object_def demo_pthreads_def)
  then obtain p' where p': "do_call (Lock 200) demo_pthreads = Some p'" by blast
  from thread_calls_keep_types [OF demo_pthreads_ok(1) p'] p' show ?thesis by blast
qed

section \<open>An untracked mutex\<close>

text \<open>
  C37: A mutex that was initialised statically is known to the checker only after its first
  lock.  To try to lock it first fails on the null object, where to lock it makes the object
  and returns 0.
\<close>
theorem trylock_needs_lock:
  assumes "pthreads_ok p" "room_for 1 p" "so_mutex_map (pt_objects p) p_mutex = None"
  shows "pthread_mutex_trylock p_mutex p = None \<and> (\<exists>p'. pthread_mutex_lock p_mutex p = Some (0, p'))"
proof -
  have "pthread_mutex_trylock p_mutex p = None"
    using assms(3) by (simp add: pthread_mutex_trylock_def mutex_try_lock_def switch_at_def get_mutex_object_def action_at_def)
  moreover from ensure_mutex_room [OF assms(2) [unfolded One_nat_def], of p_mutex] obtain p1 where
    p1: "ensure_mutex p_mutex p = Some p1" .
  from ensured_mutex [OF assms(1) p1] obtain m where "keeps_objects p p1" "get_mutex_object p_mutex p1 = m" "m \<noteq> 0" .
  with mutex_lock_result [OF keeps_okD, of p p1 m] p1 have "\<exists>p'. pthread_mutex_lock p_mutex p = Some (0, p')"
    by (auto simp: pthread_mutex_lock_def)
  ultimately show ?thesis by blast
qed

theorem trylock_needs_lock_witness:
  "pthread_mutex_trylock 200 demo_pthreads = None \<and> (\<exists>p'. pthread_mutex_lock 200 demo_pthreads = Some (0, p'))"
proof (rule trylock_needs_lock [OF demo_pthreads_ok(1)])
  show "room_for 1 demo_pthreads" using demo_pthreads_ok(2) by (auto simp: room_for_def dest: spec [of _ 0])
qed (simp add: demo_pthreads_def)

section \<open>The life of a thread\<close>

text \<open>The key of 4 makes the last of the four rounds of destructors the one that ends the thread.\<close>

lemma last_round_finishes:
  "run_destructors PTHREAD_DESTRUCTOR_ITERATIONS (Some 4) p =
    map_option snd (switch_at THREAD_FINISH (pt_thread_at p (thread_current p)) VALUE_NONE p)"
proof -
  have n: "PTHREAD_DESTRUCTOR_ITERATIONS = Suc (Suc (Suc (Suc 0)))" by (simp add: PTHREAD_DESTRUCTOR_ITERATIONS_def)
  show ?thesis unfolding n
    by (simp add: tlsdestructor_def)
       (cases "switch_at THREAD_FINISH (pt_thread_at p (thread_current p)) VALUE_NONE p", auto)
qed

definition with_result :: "u64 option \<Rightarrow> pthreads \<Rightarrow> shared_objects" where
  "with_result r p = (case r of None \<Rightarrow> pt_objects p
     | Some v \<Rightarrow> (pt_objects p)\<lparr>so_returns := (so_returns (pt_objects p))(thread_current p := v)\<rparr>)"

lemma handed_switch_at:
  assumes "switch_at ty loc v p = Some (r, p')"
  obtains e where "handed p' = handed p @ [e]" "handed_action ty loc v (thread_current p) e"
    "pt_objects p' = pt_others p (handed p') (pt_objects p)"
  using assms by (auto simp: switch_at_def switch_to_model_def handed_action_def handed_def hand_over_def log_events_def
      Let_def bind_eq_Some_conv)

text \<open>
  C36: A thread of the program hands over its start before the first action of its routine and
  its end after the last one, once each; the result of the routine is stored before the end is
  handed over, so that a thread that joins it finds the result.
\<close>
theorem thread_life_brackets:
  assumes "setup_context p = Some p1" "routine p1 = Some (r, p2)"
    "thread_current p2 = thread_current p" "pt_thread_at p2 (thread_current p2) \<noteq> 0"
  shows "\<exists>p3 start finish. thread_life (Some routine) p = Some p3 \<and>
    handed p1 = handed p @ [start] \<and>
    handed_action THREAD_START (pt_thread_at p (thread_current p)) VALUE_NONE (thread_current p) start \<and>
    handed p3 = handed p2 @ [finish] \<and>
    handed_action THREAD_FINISH (pt_thread_at p2 (thread_current p2)) VALUE_NONE (thread_current p2) finish \<and>
    pt_objects p3 = pt_others p2 (handed p3) (with_result r p2)"
proof -
  from assms(1) obtain r0 where s: "switch_at THREAD_START (pt_thread_at p (thread_current p)) VALUE_NONE p = Some (r0, p1)"
    by (auto simp: setup_context_def)
  have t1: "thread_current p1 = thread_current p"
    using s by (auto simp: switch_at_def switch_to_model_def hand_over_def log_events_def thread_current_def Let_def
        bind_eq_Some_conv)
  define q where "q = (case r of None \<Rightarrow> p2 | Some v \<Rightarrow> set_pthread_return (thread_current p) v p2)"
  have q: "thread_current q = thread_current p2" "pt_thread_at q = pt_thread_at p2" "pt_others q = pt_others p2"
    "handed q = handed p2" "pt_objects q = with_result r p2"
    by (simp_all add: q_def with_result_def set_pthread_return_def upd_objects_def thread_current_def handed_def assms(3)
        [unfolded thread_current_def] split: option.split)
  have "switch_at THREAD_FINISH (pt_thread_at q (thread_current q)) VALUE_NONE q \<noteq> None"
    using assms(4) q by (simp add: switch_at_def action_at_def)
  then obtain r1 p3 where f: "switch_at THREAD_FINISH (pt_thread_at q (thread_current q)) VALUE_NONE q = Some (r1, p3)"
    by auto
  have "helper_thread (Some routine) p1 = Some (4, q)"
    using assms(2) t1 by (simp add: helper_thread_def thread_startup_def q_def split: option.split)
  with assms(1) f have "thread_life (Some routine) p = Some p3"
    by (simp add: thread_life_def last_round_finishes)
  with handed_switch_at [OF s] handed_switch_at [OF f] q show ?thesis by metis
qed

theorem thread_life_brackets_witness:
  "\<exists>p3 start finish. thread_life (Some (\<lambda>p. Some (Some 5, p))) demo_pthreads = Some p3 \<and> handed p3 = [start, finish] \<and>
    so_returns (pt_objects p3) 1 = 5"
proof -
  obtain p1 where p1: "setup_context demo_pthreads = Some p1" "thread_current p1 = thread_current demo_pthreads"
    "pt_thread_at p1 = (\<lambda>t. 8)" "pt_others p1 = (\<lambda>_ o'. o')" "thread_current p1 = 1"
    by (auto simp: setup_context_def switch_at_def switch_to_model_def hand_over_def log_events_def thread_current_def
        action_at_def Let_def demo_pthreads_def)
  have "pt_thread_at p1 (thread_current p1) \<noteq> 0" using p1(3) by simp
  from thread_life_brackets [of _ _ "\<lambda>p. Some (Some 5, p)", OF p1(1) refl p1(2) this] p1(4,5)
  show ?thesis by (auto simp: with_result_def handed_def demo_pthreads_def)
qed

end
