(* ===== verification/File_Map.thy ===== *)
theory File_Map
  imports Pmem_Memory Hash_Functions Snapshots
begin

text \<open>
  Persistent files and the blocks of the persistent heap: \<^verbatim>\<open>pmem_map_file\<close> and its companions in
  \<^verbatim>\<open>Memory/libpmem.cc\<close>, the numbered regions behind them in \<^verbatim>\<open>Model/model.cc\<close>, the allocation
  functions of \<^verbatim>\<open>Memory/vmem.cc\<close>, which are compiled with \<^verbatim>\<open>ENABLE_VMEM\<close>, and the early
  allocator of \<^verbatim>\<open>Memory/mymemory.cc\<close>.  The heaps themselves are a parameter.
\<close>

section \<open>State\<close>

text \<open>The operations of a heap; those that touch the contents of blocks take and give the memory.\<close>

record 'h heap_ops =
  ho_malloc :: "u64 \<Rightarrow> 'h \<Rightarrow> addr \<times> 'h"
  ho_calloc :: "u64 \<Rightarrow> u64 \<Rightarrow> 'h \<Rightarrow> (addr \<Rightarrow> u8) \<Rightarrow> addr \<times> 'h \<times> (addr \<Rightarrow> u8)"
  ho_realloc :: "addr \<Rightarrow> u64 \<Rightarrow> 'h \<Rightarrow> (addr \<Rightarrow> u8) \<Rightarrow> addr \<times> 'h \<times> (addr \<Rightarrow> u8)"
  ho_memalign :: "u64 \<Rightarrow> u64 \<Rightarrow> 'h \<Rightarrow> addr \<times> 'h"
  ho_free :: "addr \<Rightarrow> 'h \<Rightarrow> 'h"

text \<open>
  What does not change: the regions, the operations of an \<^verbatim>\<open>mspace\<close> and those of the C
  library, how an \<^verbatim>\<open>mspace\<close> is made over a piece of memory, the functions of the library that
  the linker found, and the byte that new blocks are filled with.
\<close>

record 'h pmem_env =
  pe_regions :: regions
  pe_space_ops :: "'h heap_ops"
  pe_libc_ops :: "'h heap_ops"
  pe_create :: "addr \<Rightarrow> u64 \<Rightarrow> 'h"
  pe_memmove :: "(addr \<Rightarrow> addr \<Rightarrow> u64 \<Rightarrow> client \<Rightarrow> (addr \<times> client) option) option"
  pe_memset :: "(addr \<Rightarrow> u32 \<Rightarrow> u64 \<Rightarrow> client \<Rightarrow> (addr \<times> client) option) option"
  pe_fillbyte :: u32

text \<open>
  The state.  \<open>fs_table\<close> is \<^verbatim>\<open>fileIDMap\<close>, a table from pointers to names to numbers, which hashes
  and compares the names where they lie in memory.  \<open>fs_persisted\<close> notes after how many events
  \<^verbatim>\<open>makeExecutionPersistent\<close> was called, \<open>fs_created\<close> the dummy files.
\<close>

type_synonym file_table = "(addr, u64) hashtable"

record 'h files =
  fs_client :: client
  fs_regions :: "addr list"
  fs_table :: "file_table option"
  fs_space :: "'h option"
  fs_libc :: 'h
  fs_persisted :: "nat list"
  fs_created :: "u8 list list"

abbreviation memory_of :: "'h files \<Rightarrow> addr \<Rightarrow> u8" where
  "memory_of f \<equiv> cl_mem (fs_client f)"

definition with_memory :: "(addr \<Rightarrow> u8) \<Rightarrow> 'h files \<Rightarrow> 'h files" where
  "with_memory m f = f\<lparr>fs_client := (fs_client f)\<lparr>cl_mem := m\<rparr>\<rparr>"

section \<open>Regions\<close>

text \<open>The numbers are of 32 bits.\<close>

definition getRegionFromID :: "u32 \<Rightarrow> 'h files \<Rightarrow> addr" where
  "getRegionFromID ID f = (if unat ID \<ge> length (fs_regions f) then 0 else fs_regions f ! unat ID)"

definition next_region_ID :: "'h files \<Rightarrow> u32" where
  "next_region_ID f = of_nat (length (fs_regions f)) + 1"

definition set_region :: "u32 \<Rightarrow> addr \<Rightarrow> 'h files \<Rightarrow> 'h files" where
  "set_region ID ptr f = f\<lparr>fs_regions := (grow 0 (unat ID + 1) (fs_regions f))[unat ID := ptr],
     fs_persisted := fs_persisted f @ [length (cl_log (fs_client f))]\<rparr>"

section \<open>The persistent heap\<close>

definition pmem_init :: "'h pmem_env \<Rightarrow> 'h files \<Rightarrow> 'h files" where
  "pmem_init e f = f\<lparr>fs_space := Some (pe_create e (persistentMemoryRegion (pe_regions e)) PERSISTENT_MEMORY_DEFAULT),
     fs_table := Some (case fs_table f of None \<Rightarrow> HashTable 1024 (1/2) | Some t \<Rightarrow> ht_reset t)\<rparr>"

definition ensure_space :: "'h pmem_env \<Rightarrow> 'h files \<Rightarrow> 'h files" where
  "ensure_space e f = (if fs_space f = None then pmem_init e f else f)"

text \<open>An allocation that is asserted to succeed.\<close>

definition pmdk_malloc :: "'h pmem_env \<Rightarrow> u64 \<Rightarrow> 'h files \<Rightarrow> (addr \<times> 'h files) option" where
  "pmdk_malloc e n f = do {
     let f1 = ensure_space e f;
     h \<leftarrow> fs_space f1;
     let (a, h1) = ho_malloc (pe_space_ops e) n h;
     if a = 0 then None else Some (a, f1\<lparr>fs_space := Some h1\<rparr>)
   }"

definition pmdk_pagealigned_calloc :: "'h pmem_env \<Rightarrow> u64 \<Rightarrow> 'h files \<Rightarrow> (addr \<times> 'h files) option" where
  "pmdk_pagealigned_calloc e n f = do {
     let f1 = ensure_space e f;
     h \<leftarrow> fs_space f1;
     let newSize = n + 4095;
     let (a, h1, m) = ho_calloc (pe_space_ops e) 1 newSize h (memory_of f1);
     let a1 = (a + 4095) AND NOT 4095;
     if a1 = 0 then None else Some (a1, with_memory m (f1\<lparr>fs_space := Some h1\<rparr>))
   }"

section \<open>Files\<close>

text \<open>The text at an address; none at the null pointer, which cannot be read, and none if it has no end.\<close>

definition text_at :: "(addr \<Rightarrow> u8) \<Rightarrow> addr \<Rightarrow> u8 list option" where
  "text_at m p = (if p = 0 then None
     else map_option (\<lambda>n. map (\<lambda>i. m (p + of_nat i)) [0..<unat n]) (string_end m p 0))"

definition name_at :: "(addr \<Rightarrow> u8) \<Rightarrow> addr \<Rightarrow> u8 list" where
  "name_at m p = (case text_at m p of None \<Rightarrow> [] | Some t \<Rightarrow> t)"

text \<open>
  \<^verbatim>\<open>fileIDMap->get\<close>: the names are read from the memory as it is now.  Hashing a name ends
  if the name does; then so does every other text, since memory has a byte that is zero.
\<close>

definition file_ID :: "addr \<Rightarrow> 'h files \<Rightarrow> u64 option" where
  "file_ID path f = do {
     t \<leftarrow> fs_table f;
     _ \<leftarrow> (if path = 0 then Some [] else text_at (memory_of f) path);
     ht_get (file_hash (name_at (memory_of f))) (file_equals (name_at (memory_of f))) path t
   }"

text \<open>The name is copied into the persistent heap, and the copy is entered with its number.\<close>

definition copy_name :: "'h pmem_env \<Rightarrow> addr \<Rightarrow> 'h files \<Rightarrow> (addr \<times> 'h files) option" where
  "copy_name e path f = do {
     n \<leftarrow> (if path = 0 then None else string_end (memory_of f) path 0);
     (pathCopy, f1) \<leftarrow> pmdk_malloc e (n + 1) f;
     (_, c) \<leftarrow> c_memmove (pe_regions e) False (pe_memmove e) pathCopy path (n + 1) (fs_client f1);
     Some (pathCopy, f1\<lparr>fs_client := c\<rparr>)
   }"

definition enter_name :: "'h pmem_env \<Rightarrow> addr \<Rightarrow> u32 \<Rightarrow> 'h files \<Rightarrow> 'h files option" where
  "enter_name e path i f = do {
     (pathCopy, f1) \<leftarrow> copy_name e path f;
     _ \<leftarrow> text_at (memory_of f1) pathCopy;
     t \<leftarrow> fs_table f1;
     t1 \<leftarrow> put (file_hash (name_at (memory_of f1))) (file_equals (name_at (memory_of f1))) pathCopy (ucast i) t;
     Some (f1\<lparr>fs_table := Some t1\<rparr>)
   }"

definition pmem_register_file :: "'h pmem_env \<Rightarrow> addr \<Rightarrow> addr \<Rightarrow> 'h files \<Rightarrow> (int \<times> 'h files) option" where
  "pmem_register_file e path addr f = do {
     i \<leftarrow> file_ID path f;
     if i \<noteq> 0 then Some (- 1, f)
     else do {
       let i1 = next_region_ID f;
       f1 \<leftarrow> enter_name e path i1 f;
       let f2 = set_region i1 addr f1;
       t \<leftarrow> text_at (memory_of f2) path;
       Some (0, f2\<lparr>fs_created := fs_created f2 @ [t]\<rparr>)
     }
   }"

definition pmem_file_exists :: "addr \<Rightarrow> 'h files \<Rightarrow> bool option" where
  "pmem_file_exists path f = map_option (\<lambda>i. i \<noteq> 0) (file_ID path f)"

text \<open>The second component tells whether \<^verbatim>\<open>*is_pmemp\<close> is set, if the caller passed a place for it.\<close>

definition pmem_map_file :: "'h pmem_env \<Rightarrow> addr \<Rightarrow> u64 \<Rightarrow> 'h files \<Rightarrow> (addr \<times> bool \<times> 'h files) option" where
  "pmem_map_file e path len f = do {
     i \<leftarrow> file_ID path f;
     if i \<noteq> 0 then Some (getRegionFromID (ucast i) f, False, f)
     else do {
       let i1 = next_region_ID f;
       f1 \<leftarrow> enter_name e path i1 f;
       (a, f2) \<leftarrow> pmdk_malloc e len f1;
       (_, c) \<leftarrow> realmemset (pe_memset e) a 0 len (fs_client f2);
       Some (a, True, set_region i1 a (f2\<lparr>fs_client := c\<rparr>))
     }
   }"

definition in_persistent_region :: "'h pmem_env \<Rightarrow> addr \<Rightarrow> bool" where
  "in_persistent_region e ptr \<longleftrightarrow> ptr \<ge> persistentMemoryRegion (pe_regions e) \<and>
     ptr < persistentMemoryRegion (pe_regions e) + PERSISTENT_MEMORY_DEFAULT"

definition pmem_unmap :: "'h pmem_env \<Rightarrow> addr \<Rightarrow> u64 \<Rightarrow> 'h files \<Rightarrow> int \<times> 'h files" where
  "pmem_unmap e ptr len f = (case fs_space f of
       None \<Rightarrow> (- 1, f)
     | Some h \<Rightarrow>
         if in_persistent_region e ptr then (0, f\<lparr>fs_space := Some (ho_free (pe_space_ops e) ptr h)\<rparr>) else (- 1, f))"

text \<open>A new series of executions: \<^verbatim>\<open>startChecker\<close> starts with an empty persistent memory.\<close>

definition restart_files :: "'h pmem_env \<Rightarrow> 'h files \<Rightarrow> 'h files" where
  "restart_files e f = (pmem_init e f)\<lparr>fs_regions := []\<rparr>"

section \<open>Crashes\<close>

text \<open>
  A crash is a roll-back to the snapshot taken at the start (\<open>Snapshots\<close>): the files live in
  what the processes share, the persistent memory with its heap, the table and the regions, and
  what belongs to a process is its other memory, its events and the heap of the C library.
  \<^verbatim>\<open>mallocSpace\<close> is a variable of the process, too, but it is set before the first snapshot.
\<close>

record 'h own_part =
  op_tid :: tid
  op_mem :: "addr \<Rightarrow> u8"
  op_log :: "client_event list"
  op_libc :: 'h

record 'h shared_part =
  sp_mem :: "addr \<Rightarrow> u8"
  sp_answer :: "client_event list \<Rightarrow> u64"
  sp_regions :: "addr list"
  sp_table :: "file_table option"
  sp_space :: "'h option"
  sp_persisted :: "nat list"
  sp_created :: "u8 list list"

definition own_of :: "'h files \<Rightarrow> 'h own_part" where
  "own_of f = \<lparr>op_tid = cl_tid (fs_client f), op_mem = memory_of f, op_log = cl_log (fs_client f), op_libc = fs_libc f\<rparr>"

definition shared_of :: "'h files \<Rightarrow> 'h shared_part" where
  "shared_of f = \<lparr>sp_mem = memory_of f, sp_answer = cl_answer (fs_client f), sp_regions = fs_regions f, sp_table = fs_table f,
     sp_space = fs_space f, sp_persisted = fs_persisted f, sp_created = fs_created f\<rparr>"

definition join_parts :: "'h pmem_env \<Rightarrow> 'h own_part \<times> 'h shared_part \<Rightarrow> 'h files" where
  "join_parts e = (\<lambda>(x, m). \<lparr>fs_client = \<lparr>cl_tid = op_tid x,
       cl_mem = (\<lambda>a. if in_persistent_region e a then sp_mem m a else op_mem x a), cl_log = op_log x, cl_answer = sp_answer m\<rparr>,
     fs_regions = sp_regions m, fs_table = sp_table m, fs_space = sp_space m, fs_libc = op_libc x,
     fs_persisted = sp_persisted m, fs_created = sp_created m\<rparr>)"

definition crash_files :: "'h pmem_env \<Rightarrow> 'h own_part \<Rightarrow> 'h files \<Rightarrow> 'h files" where
  "crash_files e saved f = join_parts e (saved, shared_of f)"

lemma join_own_shared: "join_parts e (own_of f, shared_of f) = f"
  by (rule files.equality) (simp_all add: join_parts_def own_of_def shared_of_def cong: if_cong)

lemma crash_is_roll_back:
  assumes "processes_ok t" "map_option pr_mem (ps_running t) = Some (own_of f)" "ps_shared t = shared_of f"
    "saved_memory t i = Some saved"
  shows "map_option (\<lambda>p. join_parts e (pr_mem p, ps_shared (snapshot_roll_back i t))) (ps_running (snapshot_roll_back i t)) =
    Some (crash_files e saved f)"
proof -
  have run: "map_option pr_mem (ps_running t) \<noteq> None" unfolding assms(2) by simp
  from forks.roll_private [OF assms(1) run assms(4)] obtain p where
    p: "ps_running (snapshot_roll_back i t) = Some p" "pr_mem p = saved" by auto
  with forks.roll_shared [OF assms(1) run assms(4)] assms(3) show ?thesis by (simp add: crash_files_def)
qed

section \<open>Deep flushes\<close>

text \<open>The results are what the functions return, 1 for \<^verbatim>\<open>true\<close>.\<close>

definition pmem_deep_flush :: "addr \<Rightarrow> u64 \<Rightarrow> client \<Rightarrow> client option" where
  "pmem_deep_flush address len c = pmem_flush address len c"

definition pmem_deep_drain :: "addr \<Rightarrow> u64 \<Rightarrow> client \<Rightarrow> int \<times> client" where
  "pmem_deep_drain address len c = (1, pmem_drain c)"

definition pmem_deep_persist :: "addr \<Rightarrow> u64 \<Rightarrow> client \<Rightarrow> (int \<times> client) option" where
  "pmem_deep_persist address len c = map_option (pmem_deep_drain address len) (pmem_deep_flush address len c)"

definition pmem_flush_deep :: "addr \<Rightarrow> u64 \<Rightarrow> client \<Rightarrow> client option" where
  "pmem_flush_deep address len c = pmem_flush address len c"

lemma deep_persist_is_persist: "pmem_deep_persist address len c = map_option (Pair 1) (pmem_persist address len c)"
  by (cases "pmem_flush address len c")
    (simp_all add: pmem_deep_persist_def pmem_deep_flush_def pmem_deep_drain_def pmem_persist_def)

section \<open>Allocation on the persistent heap\<close>

definition fill_block :: "'h pmem_env \<Rightarrow> addr \<Rightarrow> u32 \<Rightarrow> u64 \<Rightarrow> 'h files \<Rightarrow> 'h files option" where
  "fill_block e a byte n f = map_option (\<lambda>(_, c). f\<lparr>fs_client := c\<rparr>) (realmemset (pe_memset e) a byte n (fs_client f))"

definition vm_malloc :: "'h pmem_env \<Rightarrow> u64 \<Rightarrow> 'h files \<Rightarrow> (addr \<times> 'h files) option" where
  "vm_malloc e n f = (case fs_space f of
       Some h \<Rightarrow> (let (tmp, h1) = ho_malloc (pe_space_ops e) n h
         in if tmp = 0 then None
            else map_option (Pair tmp) (fill_block e tmp (pe_fillbyte e) n (f\<lparr>fs_space := Some h1\<rparr>)))
     | None \<Rightarrow> (let (tmp, l) = ho_malloc (pe_libc_ops e) n (fs_libc f) in Some (tmp, f\<lparr>fs_libc := l\<rparr>)))"

definition vm_calloc :: "'h pmem_env \<Rightarrow> u64 \<Rightarrow> u64 \<Rightarrow> 'h files \<Rightarrow> (addr \<times> 'h files) option" where
  "vm_calloc e count n f = (case fs_space f of
       Some h \<Rightarrow> (let (tmp, h1) = ho_malloc (pe_space_ops e) (count * n) h
         in if tmp = 0 then None
            else map_option (Pair tmp) (fill_block e tmp 0 (count * n) (f\<lparr>fs_space := Some h1\<rparr>)))
     | None \<Rightarrow> (let (tmp, l, m) = ho_calloc (pe_libc_ops e) count n (fs_libc f) (memory_of f)
         in Some (tmp, with_memory m (f\<lparr>fs_libc := l\<rparr>))))"

definition vm_realloc :: "'h pmem_env \<Rightarrow> addr \<Rightarrow> u64 \<Rightarrow> 'h files \<Rightarrow> (addr \<times> 'h files) option" where
  "vm_realloc e ptr n f = (case fs_space f of
       Some h \<Rightarrow> (let (tmp, h1, m) = ho_realloc (pe_space_ops e) ptr n h (memory_of f)
         in if tmp = 0 then None else Some (tmp, with_memory m (f\<lparr>fs_space := Some h1\<rparr>)))
     | None \<Rightarrow> (let (tmp, l, m) = ho_realloc (pe_libc_ops e) ptr n (fs_libc f) (memory_of f)
         in Some (tmp, with_memory m (f\<lparr>fs_libc := l\<rparr>))))"

definition vm_memalign :: "'h pmem_env \<Rightarrow> u64 \<Rightarrow> u64 \<Rightarrow> 'h files \<Rightarrow> (addr \<times> 'h files) option" where
  "vm_memalign e align n f = (case fs_space f of
       Some h \<Rightarrow> (let (tmp, h1) = ho_memalign (pe_space_ops e) align n h
         in if tmp = 0 then None
            else map_option (Pair tmp) (fill_block e tmp (pe_fillbyte e) n (f\<lparr>fs_space := Some h1\<rparr>)))
     | None \<Rightarrow> (let (tmp, l) = ho_memalign (pe_libc_ops e) align n (fs_libc f) in Some (tmp, f\<lparr>fs_libc := l\<rparr>)))"

text \<open>The block is filled before it is known to exist; its address is stored at \<open>place\<close>.\<close>

definition vm_posix_memalign :: "'h pmem_env \<Rightarrow> addr \<Rightarrow> u64 \<Rightarrow> u64 \<Rightarrow> 'h files \<Rightarrow> 'h files option" where
  "vm_posix_memalign e place align n f = do {
     (tmp, f1) \<leftarrow> (case fs_space f of
         Some h \<Rightarrow> (let (tmp, h1) = ho_memalign (pe_space_ops e) align n h
           in map_option (Pair tmp) (fill_block e tmp (pe_fillbyte e) n (f\<lparr>fs_space := Some h1\<rparr>)))
       | None \<Rightarrow> (let (tmp, l) = ho_memalign (pe_libc_ops e) align n (fs_libc f) in Some (tmp, f\<lparr>fs_libc := l\<rparr>)));
     if tmp = 0 then None else Some (with_memory (write_bytes place 8 tmp (memory_of f1)) f1)
   }"

definition vm_free :: "'h pmem_env \<Rightarrow> addr \<Rightarrow> 'h files \<Rightarrow> 'h files" where
  "vm_free e ptr f = (case fs_space f of
       Some h \<Rightarrow>
         if in_persistent_region e ptr then f\<lparr>fs_space := Some (ho_free (pe_space_ops e) ptr h)\<rparr>
         else f\<lparr>fs_libc := ho_free (pe_libc_ops e) ptr (fs_libc f)\<rparr>
     | None \<Rightarrow> f\<lparr>fs_libc := ho_free (pe_libc_ops e) ptr (fs_libc f)\<rparr>)"

section \<open>The early allocator\<close>

definition BOOTSTRAPBYTES :: u64 where "BOOTSTRAPBYTES = 131072"

text \<open>The offset of the block in \<^verbatim>\<open>bootstrapmemory\<close> and the next free one; the program ends when there is no room.\<close>

definition HandleEarlyAllocationRequest :: "u64 \<Rightarrow> u64 \<Rightarrow> (u64 \<times> u64) option" where
  "HandleEarlyAllocationRequest sz off =
     (let sz1 = (sz + 7) AND NOT 7
      in if sz1 > BOOTSTRAPBYTES - off then None else Some (off, off + sz1))"

end
