(* ===== verification/File_Claims.thy ===== *)
theory File_Claims
  imports File_Map Pmem_Claims
begin

text \<open>
  What the calls on persistent files promise: a file keeps its block through all later calls,
  crashes included, as long as the copy of its name in the persistent heap stays as it is, even
  when the block has been given back meanwhile; and what the allocation functions promise about
  the blocks they return.
\<close>

section \<open>The table of names\<close>

text \<open>The pointers that are keys, and what the table says of the names they point to in memory.\<close>

definition table_keys :: "file_table \<Rightarrow> addr set" where
  "table_keys t = fst ` (set (ht_table t) \<union> set_option (ht_zero t)) - {0}"

definition name_key :: "(addr \<Rightarrow> u8) \<Rightarrow> addr \<Rightarrow> u8 list content" where
  "name_key m = pointee (\<lambda>p. text_of (name_at m p))"

definition entries_of :: "(addr \<Rightarrow> u8) \<Rightarrow> file_table \<Rightarrow> u8 list content \<rightharpoonup> u64" where
  "entries_of m t = ht_map (canon_table (name_key m) t)"

lemma canon_table_cong:
  assumes "\<And>p. p \<in> table_keys t \<Longrightarrow> c p = c' p" "c 0 = c' 0"
  shows "canon_table c t = canon_table c' t"
proof -
  have "c p = c' p" if "p \<in> fst ` (set (ht_table t) \<union> set_option (ht_zero t))" for p
    using assms that by (cases "p = 0") (auto simp: table_keys_def)
  then show ?thesis by (auto simp: canon_table_def canon_entries_def case_prod_beta intro!: map_cong option.map_cong0)
qed

lemma name_key_at: "text_at m p = Some n \<Longrightarrow> name_key m p = Content (text_of n)"
  by (auto simp: name_key_def pointee_def name_at_def text_at_def split: if_split_asm)

lemma same_names:
  assumes "\<forall>p \<in> table_keys t. text_at m' p = text_at m p"
  shows "entries_of m' t = entries_of m t" "file_map_ok (name_at m') t \<longleftrightarrow> file_map_ok (name_at m) t"
proof -
  have "canon_table (name_key m') t = canon_table (name_key m) t"
    by (rule canon_table_cong) (use assms in \<open>simp_all add: name_key_def pointee_def name_at_def\<close>)
  then show "entries_of m' t = entries_of m t" "file_map_ok (name_at m') t \<longleftrightarrow> file_map_ok (name_at m) t"
    by (simp_all add: entries_of_def file_map_ok_def name_key_def)
qed

lemma get_entry:
  assumes "file_map_ok (name_at m) t"
  shows "ht_get (file_hash (name_at m)) (file_equals (name_at m)) p t =
    Some (case entries_of m t (name_key m p) of None \<Rightarrow> 0 | Some i \<Rightarrow> i)"
  using file_names.get_canon [OF assms [unfolded file_map_ok_def], of p] by (simp add: entries_of_def name_key_def)

lemma put_entry:
  assumes "file_map_ok (name_at m) t" "ht_capacity t < 2 ^ 31"
  obtains t' where "put (file_hash (name_at m)) (file_equals (name_at m)) p i t = Some t'" "file_map_ok (name_at m) t'"
    "entries_of m t' = (entries_of m t)(name_key m p \<mapsto> i)"
  using file_names.put_canon [OF assms(1) [unfolded file_map_ok_def] assms(2), of p i]
  by (auto simp: entries_of_def name_key_def file_map_ok_def)

text \<open>An empty table is one for every memory.\<close>

lemma ht_reset_ok:
  assumes "ht_ok hash t"
  shows "ht_ok hash (ht_reset t)" "ht_map (ht_reset t) = Map.empty"
proof -
  from assms obtain b where b: "2 \<le> b" "b < 32" "ht_capacity t = 2 ^ b" "ht_capacitymask t = mask b"
    "0 \<le> ht_loadfactor t" "2 * ht_loadfactor t \<le> 1" "ht_threshold t = threshold_of (2 ^ b) (ht_loadfactor t)"
    by (rule ht_okE)
  then show "ht_ok hash (ht_reset t)"
    unfolding ht_ok_def by (intro exI [of _ b]) (simp add: ht_reset_def pow_word new_table_inv)
  show "ht_map (ht_reset t) = Map.empty" by (rule ext) (simp add: ht_map_def ht_reset_def)
qed

lemma reset_table:
  assumes "file_map_ok (name_at m) t"
  shows "file_map_ok (name_at m) (ht_reset t)" "entries_of m (ht_reset t) = Map.empty" "table_keys (ht_reset t) = {}"
proof -
  have c: "canon_table (name_key m) (ht_reset t) = ht_reset (canon_table (name_key m) t)"
    by (simp add: canon_table_def ht_reset_def canon_entries_def name_key_def pointee_def zero_content_def)
  show "file_map_ok (name_at m) (ht_reset t)" "entries_of m (ht_reset t) = Map.empty"
    using ht_reset_ok [of _ "canon_table (name_key m) t"] assms c by (simp_all add: file_map_ok_def entries_of_def name_key_def)
  show "table_keys (ht_reset t) = {}" by (auto simp: table_keys_def ht_reset_def)
qed

lemma new_table:
  "file_map_ok (name_at m) (HashTable 1024 (1/2))" "entries_of m (HashTable 1024 (1/2)) = Map.empty"
  "table_keys (HashTable 1024 (1/2)) = {}" "ht_capacity (HashTable 1024 (1/2) :: file_table) < 2 ^ 31"
proof -
  have c: "canon_table (name_key m) (HashTable 1024 (1/2)) = HashTable ((2::u32) ^ 10) (1/2)"
    by (simp add: canon_table_def HashTable_def canon_entries_def name_key_def pointee_def zero_content_def)
  show "file_map_ok (name_at m) (HashTable 1024 (1/2))" "entries_of m (HashTable 1024 (1/2)) = Map.empty"
    using HashTable_ok [of 10 "1/2"] by (simp_all only: file_map_ok_def entries_of_def c flip: name_key_def) simp_all
  show "table_keys (HashTable 1024 (1/2)) = {}" "ht_capacity (HashTable 1024 (1/2) :: file_table) < 2 ^ 31"
    by (auto simp: table_keys_def HashTable_def)
qed

section \<open>The files\<close>

definition entries :: "'h files \<Rightarrow> u8 list content \<rightharpoonup> u64" where
  "entries f = (case fs_table f of None \<Rightarrow> Map.empty | Some t \<Rightarrow> entries_of (memory_of f) t)"

definition table_ok :: "'h files \<Rightarrow> bool" where
  "table_ok f \<longleftrightarrow> (\<forall>t. fs_table f = Some t \<longrightarrow> file_map_ok (name_at (memory_of f)) t)"

text \<open>Every name has a number of its own, for which there is a region; without a heap there are no names.\<close>

definition files_typed :: "'h files \<Rightarrow> bool" where
  "files_typed f \<longleftrightarrow> table_ok f \<and> (fs_table f = None \<longrightarrow> fs_space f = None) \<and>
     (fs_space f = None \<longrightarrow> entries f = Map.empty) \<and>
     (\<forall>k i. entries f k = Some i \<longrightarrow> 0 < i \<and> unat i < 2 ^ 32 \<and> unat i < length (fs_regions f)) \<and>
     inj_on (entries f) (dom (entries f))"

text \<open>The numbers of 32 bits and the capacity of the table are not used up.\<close>

definition has_room :: "'h files \<Rightarrow> bool" where
  "has_room f \<longleftrightarrow> length (fs_regions f) + 2 < 2 ^ 32 \<and> (\<forall>t. fs_table f = Some t \<longrightarrow> ht_capacity t < 2 ^ 31)"

definition files_ok :: "'h files \<Rightarrow> bool" where
  "files_ok f \<longleftrightarrow> files_typed f \<and> has_room f"

definition block_of :: "'h files \<Rightarrow> u8 list content \<rightharpoonup> addr" where
  "block_of f k = map_option (\<lambda>i. getRegionFromID (ucast i) f) (entries f k)"

definition keeps_files :: "'h files \<Rightarrow> 'h files \<Rightarrow> bool" where
  "keeps_files f f' \<longleftrightarrow> files_typed f' \<and> block_of f \<subseteq>\<^sub>m block_of f'"

text \<open>The copies of the names in memory are as before.\<close>

definition names_intact :: "'h files \<Rightarrow> 'h files \<Rightarrow> bool" where
  "names_intact f f' \<longleftrightarrow> (\<forall>t. fs_table f = Some t \<longrightarrow>
     (\<forall>p \<in> table_keys t. text_at (memory_of f') p = text_at (memory_of f) p))"

text \<open>A call that touches neither table nor regions.\<close>

definition same_table :: "'h files \<Rightarrow> 'h files \<Rightarrow> bool" where
  "same_table f f' \<longleftrightarrow> fs_table f' = fs_table f \<and> fs_regions f' = fs_regions f \<and> (fs_space f' = None \<longleftrightarrow> fs_space f = None)"

lemma intact_entries:
  assumes "names_intact f f'" "fs_table f' = fs_table f"
  shows "entries f' = entries f" "table_ok f' = table_ok f"
proof -
  have "entries f' = entries f \<and> table_ok f' = table_ok f"
  proof (cases "fs_table f")
    case (Some t)
    with assms same_names [of t "memory_of f'" "memory_of f"] show ?thesis
      by (auto simp: names_intact_def entries_def table_ok_def)
  qed (use assms in \<open>simp add: entries_def table_ok_def\<close>)
  then show "entries f' = entries f" "table_ok f' = table_ok f" by simp_all
qed

lemma same_table_keeps:
  assumes "files_typed f" "same_table f f'" "names_intact f f'"
  shows "keeps_files f f'"
  using assms(1,2) intact_entries [OF assms(3)]
  by (auto simp: same_table_def keeps_files_def files_typed_def block_of_def getRegionFromID_def map_le_def)

lemma keeps_files_refl: "files_typed f \<Longrightarrow> keeps_files f f"
  by (simp add: keeps_files_def)

lemma keeps_files_trans: "keeps_files f g \<Longrightarrow> keeps_files g h \<Longrightarrow> keeps_files f h"
  by (auto simp: keeps_files_def intro: map_le_trans)

text \<open>Making the heap, when there is none, empties a table that was empty.\<close>

lemma ensured_files:
  assumes "files_typed f"
  shows "fs_space (ensure_space e f) \<noteq> None" "fs_table (ensure_space e f) \<noteq> None" "memory_of (ensure_space e f) = memory_of f"
    "fs_client (ensure_space e f) = fs_client f" "fs_regions (ensure_space e f) = fs_regions f"
    "entries (ensure_space e f) = entries f" "table_ok (ensure_space e f)" "has_room f \<Longrightarrow> has_room (ensure_space e f)"
    "names_intact f g \<Longrightarrow> names_intact (ensure_space e f) g"
proof -
  let ?f = "ensure_space e f"
  have "fs_space ?f \<noteq> None \<and> fs_table ?f \<noteq> None \<and> fs_client ?f = fs_client f \<and> fs_regions ?f = fs_regions f \<and>
    entries ?f = entries f \<and> table_ok ?f \<and> (has_room f \<longrightarrow> has_room ?f) \<and> (names_intact f g \<longrightarrow> names_intact ?f g)"
  proof (cases "fs_space f")
    case None
    with assms have f: "table_ok f" "entries f = Map.empty" by (simp_all add: files_typed_def)
    show ?thesis
    proof (cases "fs_table f")
      case None
      with \<open>fs_space f = None\<close> f new_table show ?thesis
        by (simp add: ensure_space_def pmem_init_def entries_def table_ok_def has_room_def names_intact_def)
    next
      case (Some t)
      with f(1) have "file_map_ok (name_at (memory_of f)) t" by (simp add: table_ok_def)
      from reset_table [OF this] Some \<open>fs_space f = None\<close> f show ?thesis
        by (simp add: ensure_space_def pmem_init_def entries_def table_ok_def has_room_def names_intact_def)
          (simp add: ht_reset_def)
    qed
  next
    case (Some h)
    with assms show ?thesis by (auto simp: ensure_space_def files_typed_def)
  qed
  then show "fs_space ?f \<noteq> None" "fs_table ?f \<noteq> None" "memory_of ?f = memory_of f" "fs_client ?f = fs_client f"
    "fs_regions ?f = fs_regions f" "entries ?f = entries f" "table_ok ?f" "has_room f \<Longrightarrow> has_room ?f"
    "names_intact f g \<Longrightarrow> names_intact ?f g" by simp_all
qed

lemma pmdk_mallocE:
  assumes "pmdk_malloc e n f = Some (a, f')"
  obtains h h1 where "fs_space (ensure_space e f) = Some h" "ho_malloc (pe_space_ops e) n h = (a, h1)" "a \<noteq> 0"
    "f' = (ensure_space e f)\<lparr>fs_space := Some h1\<rparr>"
proof -
  from assms obtain h where h: "fs_space (ensure_space e f) = Some h" by (auto simp: pmdk_malloc_def Let_def bind_eq_Some_conv)
  with assms that show thesis
    by (cases "ho_malloc (pe_space_ops e) n h") (auto simp: pmdk_malloc_def Let_def split: if_split_asm)
qed

lemma pmdk_malloc_frame:
  "pmdk_malloc e n f = Some (a, f') \<Longrightarrow> fs_space f \<noteq> None \<Longrightarrow>
    fs_table f' = fs_table f \<and> fs_regions f' = fs_regions f \<and> fs_space f' \<noteq> None \<and> fs_client f' = fs_client f"
  by (erule pmdk_mallocE) (auto simp: ensure_space_def)

text \<open>A registry: entries are added and stay.\<close>

locale registry =
  fixes ok :: "'s \<Rightarrow> bool" and entries :: "'s \<Rightarrow> 'k \<rightharpoonup> 'v" and call :: "'c \<Rightarrow> 's \<Rightarrow> 's option" and fair :: "'c \<Rightarrow> 's \<Rightarrow> bool"
  assumes call_ok: "ok s \<Longrightarrow> fair c s \<Longrightarrow> call c s = Some s' \<Longrightarrow> ok s'"
    and call_keeps: "ok s \<Longrightarrow> fair c s \<Longrightarrow> call c s = Some s' \<Longrightarrow> entries s \<subseteq>\<^sub>m entries s'"
begin

primrec calls :: "'c list \<Rightarrow> 's \<Rightarrow> 's option" where
  "calls [] s = Some s"
| "calls (c # cs) s = Option.bind (call c s) (calls cs)"

primrec all_fair :: "'c list \<Rightarrow> 's \<Rightarrow> bool" where
  "all_fair [] s \<longleftrightarrow> True"
| "all_fair (c # cs) s \<longleftrightarrow> fair c s \<and> (case call c s of None \<Rightarrow> True | Some s1 \<Rightarrow> all_fair cs s1)"

lemma calls_keep: "ok s \<Longrightarrow> all_fair cs s \<Longrightarrow> calls cs s = Some s' \<Longrightarrow> ok s' \<and> entries s \<subseteq>\<^sub>m entries s'"
proof (induction cs arbitrary: s)
  case (Cons c cs)
  from Cons.prems(3) obtain s1 where s1: "call c s = Some s1" "calls cs s1 = Some s'" by (auto simp: bind_eq_Some_conv)
  with Cons.prems have "fair c s" "all_fair cs s1" by simp_all
  with Cons.IH [OF call_ok _ s1(2)] Cons.prems(1) s1(1) call_keeps [OF Cons.prems(1) _ s1(1)] map_le_trans show ?case by blast
qed simp

end

section \<open>Entering a name\<close>

text \<open>
  What the client and the heap promise when a new name is copied: the copy reads as the name
  that was passed, and the copies of the other names stay as they are.
\<close>

definition copied_well :: "'h pmem_env \<Rightarrow> addr \<Rightarrow> 'h files \<Rightarrow> bool" where
  "copied_well e path f \<longleftrightarrow> (file_ID path f = Some 0 \<longrightarrow> (case copy_name e path f of
       None \<Rightarrow> True
     | Some (pathCopy, f1) \<Rightarrow> text_at (memory_of f1) pathCopy = text_at (memory_of f) path \<and> names_intact f f1))"

text \<open>\<^verbatim>\<open>pmem_map_file\<close> also sets its block to zero, which leaves the copies alone, too.\<close>

definition mapped_well :: "'h pmem_env \<Rightarrow> addr \<Rightarrow> u64 \<Rightarrow> 'h files \<Rightarrow> bool" where
  "mapped_well e path len f \<longleftrightarrow> copied_well e path f \<and>
     (file_ID path f = Some 0 \<longrightarrow> (case enter_name e path (next_region_ID f) f of
         None \<Rightarrow> True
       | Some f1 \<Rightarrow> (case pmem_map_file e path len f of None \<Rightarrow> True | Some (_, _, f2) \<Rightarrow> names_intact f1 f2)))"

lemma copy_nameE:
  assumes "copy_name e path f = Some (p, f1)"
  obtains n f0 x c where "path \<noteq> 0" "string_end (memory_of f) path 0 = Some n" "pmdk_malloc e (n + 1) f = Some (p, f0)"
    "c_memmove (pe_regions e) False (pe_memmove e) p path (n + 1) (fs_client f0) = Some (x, c)" "f1 = f0\<lparr>fs_client := c\<rparr>"
  using assms that by (auto simp: copy_name_def bind_eq_Some_conv split: if_split_asm)

lemma enter_nameE:
  assumes "enter_name e path i f = Some g"
  obtains p f1 t t1 where "copy_name e path f = Some (p, f1)" "fs_table f1 = Some t"
    "put (file_hash (name_at (memory_of f1))) (file_equals (name_at (memory_of f1))) p (ucast i) t = Some t1"
    "g = f1\<lparr>fs_table := Some t1\<rparr>"
  using assms that by (auto simp: enter_name_def bind_eq_Some_conv)

lemma enter_name_text:
  assumes "enter_name e path i f = Some g"
  obtains name where "text_at (memory_of f) path = Some name"
proof -
  from assms obtain p f1 where "copy_name e path f = Some (p, f1)" by (rule enter_nameE)
  then obtain n where "path \<noteq> 0" "string_end (memory_of f) path 0 = Some n" by (rule copy_nameE)
  then show thesis using that by (simp add: text_at_def)
qed

lemma enter_name_result:
  assumes "files_typed f" "has_room f" "file_ID path f = Some 0" "copied_well e path f"
    "text_at (memory_of f) path = Some name" "enter_name e path i f = Some g"
  shows "entries g = (entries f)(Content (text_of name) \<mapsto> ucast i)" "table_ok g" "fs_regions g = fs_regions f"
    "fs_space g \<noteq> None" "fs_table g \<noteq> None"
proof -
  from assms(6) obtain p f1 t t1 where r: "copy_name e path f = Some (p, f1)" "fs_table f1 = Some t"
    "put (file_hash (name_at (memory_of f1))) (file_equals (name_at (memory_of f1))) p (ucast i) t = Some t1"
    "g = f1\<lparr>fs_table := Some t1\<rparr>" by (rule enter_nameE)
  let ?f0 = "ensure_space e f"
  from r(1) obtain n f0 c where "pmdk_malloc e (n + 1) f = Some (p, f0)" "f1 = f0\<lparr>fs_client := c\<rparr>" by (rule copy_nameE)
  then have f1: "fs_table f1 = fs_table ?f0" "fs_regions f1 = fs_regions f" "fs_space f1 \<noteq> None"
    using ensured_files(5) [OF assms(1)] by (auto elim!: pmdk_mallocE)
  have copy: "text_at (memory_of f1) p = Some name" "names_intact f f1" using assms(3-5) r(1) by (simp_all add: copied_well_def)
  note intact = intact_entries [OF ensured_files(9) [OF assms(1) copy(2)] f1(1)]
  have t: "file_map_ok (name_at (memory_of f1)) t" using intact(2) ensured_files(7) [OF assms(1)] r(2) by (simp add: table_ok_def)
  have cap: "ht_capacity t < 2 ^ 31" using ensured_files(8) [OF assms(1,2)] r(2) f1(1) by (simp add: has_room_def)
  from put_entry [OF t cap, of p "ucast i"] r(3)
  have t1: "file_map_ok (name_at (memory_of f1)) t1"
    "entries_of (memory_of f1) t1 = (entries_of (memory_of f1) t)(name_key (memory_of f1) p \<mapsto> ucast i)" by auto
  have "entries_of (memory_of f1) t = entries f" using intact(1) ensured_files(6) [OF assms(1)] r(2) by (simp add: entries_def)
  with t1 name_key_at [OF copy(1)] r(4) f1 show "entries g = (entries f)(Content (text_of name) \<mapsto> ucast i)" "table_ok g"
    "fs_regions g = fs_regions f" "fs_space g \<noteq> None" "fs_table g \<noteq> None" by (simp_all add: entries_def table_ok_def)
qed

section \<open>Regions\<close>

lemma small_numbers:
  "unat (i :: u64) < 2 ^ 32 \<Longrightarrow> unat (ucast i :: u32) = unat i" "unat (ucast (j :: u32) :: u64) = unat j"
  "ucast (ucast j :: u64) = j"
proof -
  show "unat (i :: u64) < 2 ^ 32 \<Longrightarrow> unat (ucast i :: u32) = unat i"
    by (simp add: unsigned_ucast_eq take_bit_nat_eq_self)
  show "unat (ucast j :: u64) = unat j" by (rule offset_of)
  show "ucast (ucast j :: u64) = j" by (rule bit_word_eqI) (auto simp: bit_simps)
qed

lemma set_region_fields [simp]:
  "fs_table (set_region ID a f) = fs_table f" "fs_client (set_region ID a f) = fs_client f"
  "fs_space (set_region ID a f) = fs_space f" "fs_regions (set_region ID a f) = (grow 0 (unat ID + 1) (fs_regions f))[unat ID := a]"
  by (simp_all add: set_region_def)

lemma set_region_entries [simp]: "entries (set_region ID a f) = entries f" "table_ok (set_region ID a f) = table_ok f"
  by (simp_all add: entries_def table_ok_def cong: option.case_cong)

lemma set_region_region:
  "unat j < length (fs_regions f) \<Longrightarrow> j \<noteq> ID \<Longrightarrow> getRegionFromID j (set_region ID a f) = getRegionFromID j f"
  "getRegionFromID ID (set_region ID a f) = a"
  by (auto simp: getRegionFromID_def grow_nth nth_list_update word_unat_eq_iff)

lemma next_number: "has_room f \<Longrightarrow> unat (next_region_ID f) = length (fs_regions f) + 1"
  by (simp add: has_room_def next_region_ID_def unat_word_ariths unsigned_of_nat take_bit_nat_eq_self)

lemma grown:
  assumes "files_typed f" "has_room f" "entries f k = None" "table_ok g"
    "entries g = (entries f)(k \<mapsto> ucast (next_region_ID f))" "fs_regions g = fs_regions f" "fs_space g \<noteq> None" "fs_table g \<noteq> None"
  shows "keeps_files f (set_region (next_region_ID f) a g)" "block_of (set_region (next_region_ID f) a g) k = Some a"
proof -
  let ?i = "next_region_ID f" and ?g = "set_region (next_region_ID f) a g"
  note i = next_number [OF assms(2)]
  have old: "0 < j \<and> unat j < 2 ^ 32 \<and> unat j < length (fs_regions f)" if "entries f k' = Some j" for k' j
    using assms(1) that by (simp add: files_typed_def)
  have new: "j \<noteq> ucast ?i" "ucast j \<noteq> ?i" "unat (ucast j :: u32) = unat j" if "entries f k' = Some j" for k' j
    using old [OF that] i small_numbers(1) [of j] by (auto simp: small_numbers(2))
  have "entries f k' \<noteq> Some (ucast ?i)" for k' using new(1) by blast
  then have "inj_on (entries ?g) (dom (entries ?g))"
    using assms(1) unfolding files_typed_def by (auto simp: assms(5) inj_on_def dom_def split: if_split_asm)
  moreover have "0 < j \<and> unat j < 2 ^ 32 \<and> unat j < length (fs_regions ?g)" if "entries ?g k' = Some j" for k' j
  proof (cases "k' = k")
    case True
    with that have "unat j = unat ?i" by (simp add: assms(5) small_numbers(2) [symmetric])
    with i unat_small [of ?i] show ?thesis by (simp add: word_less_nat_alt)
  next
    case False
    with that old [of k' j] show ?thesis by (simp add: assms(5,6) i)
  qed
  ultimately have "files_typed ?g" using assms(4,7,8) by (auto simp: files_typed_def)
  moreover have "block_of ?g k' = block_of f k'" if "entries f k' \<noteq> None" for k'
  proof -
    from that obtain j where j: "entries f k' = Some j" by auto
    with assms(3) have "k' \<noteq> k" by auto
    with set_region_region(1) [of "ucast j" g ?i a] old [OF j] new [OF j] j show ?thesis
      by (simp add: block_of_def assms(5,6) getRegionFromID_def)
  qed
  then have "block_of f \<subseteq>\<^sub>m block_of ?g" by (auto simp: map_le_def block_of_def)
  ultimately show "keeps_files f ?g" by (simp add: keeps_files_def)
  show "block_of ?g k = Some a" using set_region_region(2) [of ?i a g] by (simp add: block_of_def assms(5) small_numbers(3))
qed

text \<open>A region that is not that of a file may be set.\<close>

lemma set_region_keeps:
  assumes "files_typed f" "ucast ID \<notin> ran (entries f)"
  shows "keeps_files f (set_region ID a f)"
proof -
  have old: "0 < j \<and> unat j < 2 ^ 32 \<and> unat j < length (fs_regions f)" if "entries f k = Some j" for k j
    using assms(1) that by (simp add: files_typed_def)
  have "length (fs_regions f) \<le> length (fs_regions (set_region ID a f))" by simp
  with assms(1) have "files_typed (set_region ID a f)" by (fastforce simp: files_typed_def)
  moreover have "block_of (set_region ID a f) k = block_of f k" for k
  proof (cases "entries f k")
    case (Some j)
    with assms(2) have "j \<noteq> ucast ID" by (auto simp: ran_def)
    moreover have "ucast (ucast j :: u32) = j"
      using old [OF Some] small_numbers(1) [of j] small_numbers(2) [of "ucast j"] by (simp add: word_unat_eq_iff)
    ultimately have "ucast j \<noteq> ID" by auto
    with set_region_region(1) [of "ucast j" f ID a] old [OF Some] Some show ?thesis by (simp add: block_of_def small_numbers(1))
  qed (simp add: block_of_def)
  ultimately show ?thesis by (simp add: keeps_files_def map_le_def)
qed

section \<open>Mapping and registering\<close>

lemma file_ID_table: "file_ID path f = Some i \<Longrightarrow> fs_table f \<noteq> None"
  by (cases "fs_table f") (simp_all add: file_ID_def)

lemma file_ID_eq:
  assumes "files_typed f" "fs_table f \<noteq> None" "text_at (memory_of f) path = Some name"
  shows "file_ID path f = Some (case entries f (Content (text_of name)) of None \<Rightarrow> 0 | Some i \<Rightarrow> i)"
  using assms get_entry [of "memory_of f" _ path] name_key_at [OF assms(3)]
  by (auto simp: file_ID_def files_typed_def table_ok_def entries_def)

lemma file_ID_new:
  assumes "files_typed f" "file_ID path f = Some 0" "text_at (memory_of f) path = Some name"
  shows "entries f (Content (text_of name)) = None"
proof -
  have "fs_table f \<noteq> None" using assms(2) by (rule file_ID_table)
  from file_ID_eq [OF assms(1) this assms(3)] assms(2)
  have "(case entries f (Content (text_of name)) of None \<Rightarrow> 0 | Some i \<Rightarrow> i) = 0" by simp
  moreover have "i \<noteq> 0" if "entries f (Content (text_of name)) = Some i" for i
    using assms(1) that by (auto simp: files_typed_def)
  ultimately show ?thesis by (cases "entries f (Content (text_of name))") simp_all
qed

lemma map_fileE:
  assumes "pmem_map_file e path len f = Some (a, b, f')"
  obtains i where "file_ID path f = Some i" "i \<noteq> 0" "a = getRegionFromID (ucast i) f" "\<not> b" "f' = f"
  | f1 f2 x c where "file_ID path f = Some 0" "enter_name e path (next_region_ID f) f = Some f1" "pmdk_malloc e len f1 = Some (a, f2)"
      "realmemset (pe_memset e) a 0 len (fs_client f2) = Some (x, c)" "b" "f' = set_region (next_region_ID f) a (f2\<lparr>fs_client := c\<rparr>)"
proof -
  from assms obtain i where i: "file_ID path f = Some i" by (auto simp: pmem_map_file_def bind_eq_Some_conv)
  show thesis
  proof (cases "i = 0")
    case True
    with assms i obtain f1 f2 x c where "enter_name e path (next_region_ID f) f = Some f1" "pmdk_malloc e len f1 = Some (a, f2)"
      "realmemset (pe_memset e) a 0 len (fs_client f2) = Some (x, c)" "b" "f' = set_region (next_region_ID f) a (f2\<lparr>fs_client := c\<rparr>)"
      by (auto simp: pmem_map_file_def bind_eq_Some_conv Let_def)
    with i True show thesis by (intro that(2)) simp_all
  next
    case False
    with assms i have "getRegionFromID (ucast i) f = a" "\<not> b" "f' = f" by (auto simp: pmem_map_file_def)
    with i False show thesis by (intro that(1) [of i]) simp_all
  qed
qed

text \<open>After a call of \<^verbatim>\<open>pmem_map_file\<close> the block it returned is that of the name.\<close>

lemma map_file_result:
  assumes "files_ok f" "mapped_well e path len f" "text_at (memory_of f) path = Some name"
    "pmem_map_file e path len f = Some (a, b, f')"
  shows "keeps_files f f'" "block_of f' (Content (text_of name)) = Some a"
proof -
  have f: "files_typed f" "has_room f" using assms(1) by (simp_all add: files_ok_def)
  have "keeps_files f f' \<and> block_of f' (Content (text_of name)) = Some a"
    using assms(4)
  proof (cases rule: map_fileE)
    case (1 i)
    then have "fs_table f \<noteq> None" using file_ID_table by blast
    from file_ID_eq [OF f(1) this assms(3)] 1 f(1) show ?thesis
      by (auto simp: block_of_def keeps_files_refl split: option.splits)
  next
    case (2 f1 f2 x c)
    have well: "copied_well e path f" "names_intact f1 f'" using assms(2,4) 2(1,2) by (simp_all add: mapped_well_def)
    note f1 = enter_name_result [OF f 2(1) well(1) assms(3) 2(2)]
    let ?g = "f2\<lparr>fs_client := c\<rparr>"
    from pmdk_malloc_frame [OF 2(3) f1(4)] have g: "fs_table ?g = fs_table f1" "fs_regions ?g = fs_regions f" "fs_space ?g \<noteq> None"
      by (simp_all add: f1(3))
    from well(2) have "names_intact f1 ?g" by (simp add: names_intact_def 2(6))
    note same = intact_entries [OF this g(1)]
    show ?thesis
      unfolding 2(6) using grown [OF f file_ID_new [OF f(1) 2(1) assms(3)], of ?g a] same f1 g by simp
  qed
  then show "keeps_files f f'" "block_of f' (Content (text_of name)) = Some a" by simp_all
qed

text \<open>A file that is known already is not mapped again.\<close>

lemma known_file:
  assumes "files_typed f" "block_of f (Content (text_of name)) = Some a" "text_at (memory_of f) path = Some name"
  shows "pmem_map_file e path len f = Some (a, False, f)"
proof -
  from assms(2) obtain i where i: "entries f (Content (text_of name)) = Some i" "getRegionFromID (ucast i) f = a"
    by (auto simp: block_of_def)
  then have "fs_table f \<noteq> None" "i \<noteq> 0" using assms(1) by (auto simp: entries_def files_typed_def)
  with file_ID_eq [OF assms(1) _ assms(3)] i show ?thesis by (simp add: pmem_map_file_def)
qed

lemma register_file_keeps:
  assumes "files_ok f" "copied_well e path f" "pmem_register_file e path addr f = Some (r, f')"
  shows "keeps_files f f'"
proof -
  have f: "files_typed f" "has_room f" using assms(1) by (simp_all add: files_ok_def)
  from assms(3) obtain i where i: "file_ID path f = Some i" by (auto simp: pmem_register_file_def bind_eq_Some_conv)
  show ?thesis
  proof (cases "i = 0")
    case True
    with i assms(3) obtain f1 ts where e: "enter_name e path (next_region_ID f) f = Some f1"
      "f' = (set_region (next_region_ID f) addr f1)\<lparr>fs_created := ts\<rparr>"
      by (auto simp: pmem_register_file_def bind_eq_Some_conv Let_def)
    from e(1) obtain name where name: "text_at (memory_of f) path = Some name" by (rule enter_name_text)
    note zero = i [unfolded True]
    note f1 = enter_name_result [OF f zero assms(2) name e(1)]
    let ?g = "set_region (next_region_ID f) addr f1"
    have "keeps_files f ?g" by (rule grown(1) [OF f file_ID_new [OF f(1) zero name]]) (use f1 in simp_all)
    moreover from this have "keeps_files ?g f'"
      by (intro same_table_keeps) (simp_all add: keeps_files_def same_table_def names_intact_def e(2))
    ultimately show ?thesis by (rule keeps_files_trans)
  next
    case False
    with i assms(3) f(1) show ?thesis by (auto simp: pmem_register_file_def keeps_files_refl)
  qed
qed

section \<open>Copies of names\<close>

text \<open>
  The copy is one when the loads of the client see its last stores, and the new block lies
  apart from the name and from the copies of other names.
\<close>

lemma string_end_same:
  assumes "string_end m p k = Some n" "\<forall>j. j - k \<le> n - k \<longrightarrow> m' (p' + j) = m (p + j)"
  shows "string_end m' p' k = Some n"
proof -
  let ?P = "\<lambda>m p k n. m (p + n) = 0 \<and>
    ((\<forall>j. j - k \<le> n - k \<longrightarrow> m' (p' + j) = m (p + j)) \<longrightarrow> string_end m' p' k = Some n)"
  have "?P m p k n"
  proof (rule string_end.raw_induct [where P = ?P, OF _ assms(1)])
    fix string_end' :: "(addr \<Rightarrow> u8) \<Rightarrow> addr \<Rightarrow> u64 \<Rightarrow> u64 option" and m p k n
    assume ih: "\<And>m p k n. string_end' m p k = Some n \<Longrightarrow> ?P m p k n"
      and step: "(if m (p + k) \<noteq> 0 then string_end' m p (k + 1) else Some k) = Some n"
    show "?P m p k n"
    proof (cases "m (p + k) = 0")
      case True
      with step have "n = k" by simp
      with True show ?thesis by (subst string_end.simps) simp
    next
      case False
      with step have s: "string_end' m p (k + 1) = Some n" by simp
      with ih have zero: "m (p + n) = 0" by blast
      with False have nk: "n \<noteq> k" by auto
      then have pos: "0 < unat (n - k)" by (simp add: unat_gt_0)
      have "string_end m' p' k = Some n" if same: "\<forall>j. j - k \<le> n - k \<longrightarrow> m' (p' + j) = m (p + j)"
      proof -
        have "j - k \<le> n - k" if "j - (k + 1) \<le> n - (k + 1)" for j
        proof -
          have "unat (n - (k + 1)) = unat (n - k) - 1" using unat_minus_one [of "n - k"] nk by (simp add: algebra_simps)
          moreover have "unat (j - k) \<le> unat (j - (k + 1)) + 1"
            using unat_minus_one [of "j - k"] by (cases "j = k") (simp_all add: algebra_simps)
          ultimately show ?thesis using that pos by (simp add: word_le_nat_alt)
        qed
        with ih [OF s] same have "string_end m' p' (k + 1) = Some n" by blast
        moreover have "m' (p' + k) \<noteq> 0" using same False by simp
        ultimately show ?thesis by (subst string_end.simps) simp
      qed
      with zero show ?thesis by blast
    qed
  qed
  with assms(2) show ?thesis by blast
qed

lemma text_at_same:
  assumes "string_end m p 0 = Some n" "\<forall>j \<le> n. m' (p' + j) = m (p + j)" "p \<noteq> 0" "p' \<noteq> 0"
  shows "text_at m' p' = text_at m p"
proof -
  have "string_end m' p' 0 = Some n" by (rule string_end_same [OF assms(1)]) (use assms(2) in simp)
  moreover have "of_nat i \<le> n" if "i < unat n" for i
    using that unat_small [of n] by (simp add: word_le_nat_alt unat_of_nat take_bit_nat_eq_self)
  ultimately show ?thesis using assms by (simp add: text_at_def)
qed

lemma copied_text:
  assumes "string_end m src 0 = Some n" "0 < n + 1" "src \<noteq> 0" "dst \<noteq> 0"
  shows "text_at (copied dst src (unat (n + 1)) m B) dst = text_at m src"
proof -
  have n1: "unat (n + 1) = unat n + 1" using assms(2) unat_minus_one [of "n + 1"] by (auto simp: unat_gt_0 [symmetric] word_less_nat_alt)
  have "\<forall>j \<le> n. copied dst src (unat (n + 1)) m B (dst + j) = m (src + j)"
    using n1 by (simp add: copied_def word_le_nat_alt)
  then show ?thesis using assms by (intro text_at_same)
qed

text \<open>The names in the table lie apart from a block.\<close>

definition names_apart :: "'h files \<Rightarrow> addr \<Rightarrow> u64 \<Rightarrow> bool" where
  "names_apart f a len \<longleftrightarrow> (\<forall>t. fs_table f = Some t \<longrightarrow> (\<forall>p \<in> table_keys t. \<exists>n. string_end (memory_of f) p 0 = Some n \<and>
     (\<forall>j \<le> n. len \<le> p + j - a)))"

lemma names_apart_intact:
  assumes "names_apart f a len" "\<And>x. len \<le> x - a \<Longrightarrow> memory_of f' x = memory_of f x"
  shows "names_intact f f'"
proof -
  have "text_at (memory_of f') p = text_at (memory_of f) p" if t: "fs_table f = Some t" "p \<in> table_keys t" for t p
  proof -
    from assms(1) t obtain n where n: "string_end (memory_of f) p 0 = Some n" "\<forall>j \<le> n. len \<le> p + j - a"
      by (auto simp: names_apart_def)
    moreover have "p \<noteq> 0" using t(2) by (simp add: table_keys_def)
    ultimately show ?thesis using assms(2) by (intro text_at_same) auto
  qed
  then show ?thesis by (simp add: names_intact_def)
qed

definition sees_stores :: "(addr \<Rightarrow> u8) \<Rightarrow> client \<Rightarrow> bool" where
  "sees_stores m0 c \<longleftrightarrow> sequential m0 c \<and> contents m0 (cl_log c) = cl_mem c"

lemma copy_name_ok:
  assumes "string_end (memory_of f) path 0 = Some n" "pmdk_malloc e (n + 1) f = Some (a, f0)" "is_pmem (pe_regions e) a"
    "sees_stores m0 (fs_client f)" "fits (n + 1)" "0 < n + 1"
    "not_null path (n + 1)" "not_null a (n + 1)" "apart a path (n + 1)"
  shows "\<exists>c. copy_name e path f = Some (a, f0\<lparr>fs_client := c\<rparr>) \<and> sees_stores m0 c \<and>
    cl_mem c = copied a path (unat (n + 1)) (memory_of f) (memory_of f)"
proof -
  have "fs_client f0 = fs_client f" using assms(2) by (rule pmdk_mallocE) (simp add: ensure_space_def pmem_init_def)
  with assms(4) have c: "sequential m0 (fs_client f0)" "contents m0 (cl_log (fs_client f0)) = memory_of f" "memory_of f0 = memory_of f"
    by (simp_all add: sees_stores_def)
  from atomic.copy_loop_ok [OF assms(5,7,8,9) c(1), where pos = "''memmove''" and i = 0 and M = "memory_of f" and B = "memory_of f"] c(2,3) start_copied
  obtain c1 where c1: "copy_loop (\<lambda>w a. pmc_atomic_load w a 0 ''memmove'') (\<lambda>w a v. pmc_atomic_store w a v 0 ''memmove'') a path (n + 1) 0 (fs_client f0) = Some c1"
    "goes_on (fs_client f0) c1" "contents m0 (cl_log c1) = copied a path (unat (n + 1)) (memory_of f) (memory_of f)"
    "cl_mem c1 = copied a path (unat (n + 1)) (memory_of f) (memory_of f)" by auto
  have "c_memmove (pe_regions e) False (pe_memmove e) a path (n + 1) (fs_client f0) = Some (a, c1)"
    using assms(3) c1(1) by (simp add: c_memmove_def pmem_memmove_def flush_and_drain_def PMEM_F_MEM_NOFLUSH_def PMEM_F_MEM_NODRAIN_def)
  moreover have "path \<noteq> 0" using assms(6,7) by (auto simp: not_null_def)
  ultimately show ?thesis using assms(1,2) c1(2-4) goes_on_sequential [OF c1(2)] c(1)
    by (auto simp: copy_name_def sees_stores_def)
qed

lemma name_copied_well:
  assumes "string_end (memory_of f) path 0 = Some n" "pmdk_malloc e (n + 1) f = Some (a, f0)" "is_pmem (pe_regions e) a"
    "sees_stores m0 (fs_client f)" "fits (n + 1)" "0 < n + 1"
    "not_null path (n + 1)" "not_null a (n + 1)" "apart a path (n + 1)" "names_apart f a (n + 1)"
  shows "copied_well e path f"
proof -
  from copy_name_ok [OF assms(1-9)] obtain c where c: "copy_name e path f = Some (a, f0\<lparr>fs_client := c\<rparr>)"
    "cl_mem c = copied a path (unat (n + 1)) (memory_of f) (memory_of f)" by blast
  have "path \<noteq> 0" "a \<noteq> 0" using assms(6-8) by (auto simp: not_null_def)
  with copied_text [OF assms(1,6)] c(2) have "text_at (cl_mem c) a = text_at (memory_of f) path" by simp
  moreover have "names_intact f (f0\<lparr>fs_client := c\<rparr>)"
    by (rule names_apart_intact [OF assms(10)]) (simp add: c(2) copied_def word_le_nat_alt not_less)
  ultimately show ?thesis using c(1) by (simp add: copied_well_def)
qed

text \<open>Setting a block to zero that lies apart from the names leaves them as they are.\<close>

lemma name_mapped_well:
  assumes "copied_well e path f"
    "\<And>f1 a f2 c x. enter_name e path (next_region_ID f) f = Some f1 \<Longrightarrow> pmdk_malloc e len f1 = Some (a, f2) \<Longrightarrow>
      realmemset (pe_memset e) a 0 len (fs_client f2) = Some (x, c) \<Longrightarrow>
      names_apart f1 a len \<and> (\<forall>y. len \<le> y - a \<longrightarrow> cl_mem c y = memory_of f1 y)"
  shows "mapped_well e path len f"
proof -
  have "names_intact f1 f2" if z: "file_ID path f = Some 0" and f1: "enter_name e path (next_region_ID f) f = Some f1"
    and f2: "pmem_map_file e path len f = Some (a, b, f2)" for f1 a b f2
    using f2
  proof (cases rule: map_fileE)
    case (2 g1 g2 x c)
    with f1 assms(2) [of f1 a g2 x c] have "names_apart f1 a len" "\<forall>y. len \<le> y - a \<longrightarrow> cl_mem c y = memory_of f1 y" by simp_all
    then show ?thesis unfolding 2(6) by (intro names_apart_intact [of f1 a len]) auto
  qed (use z in simp)
  with assms(1) show ?thesis by (auto simp: mapped_well_def split: option.split prod.split)
qed

section \<open>Crashes\<close>

text \<open>The copies of the names lie in the persistent region.\<close>

definition names_inside :: "'h pmem_env \<Rightarrow> 'h files \<Rightarrow> bool" where
  "names_inside e f \<longleftrightarrow> (\<forall>t. fs_table f = Some t \<longrightarrow> (\<forall>p \<in> table_keys t. \<exists>n. string_end (memory_of f) p 0 = Some n \<and>
     (\<forall>j \<le> n. in_persistent_region e (p + j))))"

lemma crash_keeps:
  assumes "files_typed f" "names_inside e f"
  shows "keeps_files f (crash_files e x f)"
proof (rule same_table_keeps [OF assms(1)])
  let ?f = "crash_files e x f"
  have m: "memory_of ?f y = memory_of f y" if "in_persistent_region e y" for y
    using that by (simp add: crash_files_def join_parts_def shared_of_def)
  show "same_table f ?f" by (simp add: same_table_def crash_files_def join_parts_def shared_of_def)
  have "text_at (memory_of ?f) p = text_at (memory_of f) p" if t: "fs_table f = Some t" "p \<in> table_keys t" for t p
  proof -
    from assms(2) t obtain n where "string_end (memory_of f) p 0 = Some n" "\<forall>j \<le> n. in_persistent_region e (p + j)"
      by (auto simp: names_inside_def)
    moreover have "p \<noteq> 0" using t(2) by (simp add: table_keys_def)
    ultimately show ?thesis using m by (intro text_at_same) auto
  qed
  then show "names_intact f ?f" by (simp add: names_intact_def)
qed

section \<open>Every call\<close>

text \<open>
  \<open>Set_Region\<close> is \<^verbatim>\<open>setRegionFromID\<close> called by the program, \<open>Crash\<close> the roll-back to a snapshot
  that saved the given part, and \<open>Go_On\<close> anything else that the program does until its next call.
\<close>

datatype 'h file_call =
    Map_File addr u64 | Register_File addr addr | Unmap addr u64 | Aligned_Calloc u64
  | Malloc u64 | Calloc u64 u64 | Realloc addr u64 | Memalign u64 u64 | Posix_Memalign addr u64 u64 | Free addr
  | Set_Region u32 addr | Crash "'h own_part" | Go_On client

fun file_step :: "'h pmem_env \<Rightarrow> 'h file_call \<Rightarrow> 'h files \<Rightarrow> 'h files option" where
  "file_step e (Map_File path len) f = map_option (\<lambda>(_, _, f1). f1) (pmem_map_file e path len f)"
| "file_step e (Register_File path a) f = map_option snd (pmem_register_file e path a f)"
| "file_step e (Unmap ptr len) f = Some (snd (pmem_unmap e ptr len f))"
| "file_step e (Aligned_Calloc n) f = map_option snd (pmdk_pagealigned_calloc e n f)"
| "file_step e (Malloc n) f = map_option snd (vm_malloc e n f)"
| "file_step e (Calloc count n) f = map_option snd (vm_calloc e count n f)"
| "file_step e (Realloc ptr n) f = map_option snd (vm_realloc e ptr n f)"
| "file_step e (Memalign align n) f = map_option snd (vm_memalign e align n f)"
| "file_step e (Posix_Memalign place align n) f = vm_posix_memalign e place align n f"
| "file_step e (Free ptr) f = Some (vm_free e ptr f)"
| "file_step e (Set_Region ID ptr) f = Some (set_region ID ptr f)"
| "file_step e (Crash saved) f = Some (crash_files e saved f)"
| "file_step e (Go_On c) f = Some (f\<lparr>fs_client := c\<rparr>)"

text \<open>
  What a call may rely on: a new name is copied well and there is room for it, a region of a
  file is not set to something else, and nothing overwrites the copies of the names.
\<close>

fun call_fair :: "'h pmem_env \<Rightarrow> 'h file_call \<Rightarrow> 'h files \<Rightarrow> bool" where
  "call_fair e (Map_File path len) f = (has_room f \<and> mapped_well e path len f)"
| "call_fair e (Register_File path a) f = (has_room f \<and> copied_well e path f)"
| "call_fair e (Set_Region ID ptr) f = (ucast ID \<notin> ran (entries f))"
| "call_fair e (Crash saved) f = names_inside e f"
| "call_fair e c f = (case file_step e c f of None \<Rightarrow> True | Some f' \<Rightarrow> names_intact f f')"

lemma vm_same:
  "vm_malloc e n f = Some (a, f') \<Longrightarrow> same_table f f'"
  "vm_calloc e count n f = Some (a, f') \<Longrightarrow> same_table f f'"
  "vm_realloc e ptr n f = Some (a, f') \<Longrightarrow> same_table f f'"
  "vm_memalign e align n f = Some (a, f') \<Longrightarrow> same_table f f'"
  "vm_posix_memalign e place align n f = Some f' \<Longrightarrow> same_table f f'"
  "same_table f (vm_free e ptr f)"
  "same_table f (snd (pmem_unmap e ptr n f))"
  "same_table f (f\<lparr>fs_client := c\<rparr>)"
  by (auto simp: vm_malloc_def vm_calloc_def vm_realloc_def vm_memalign_def vm_posix_memalign_def vm_free_def pmem_unmap_def
      with_memory_def same_table_def fill_block_def bind_eq_Some_conv split: option.splits prod.splits if_split_asm)

lemma pagealignedE:
  assumes "pmdk_pagealigned_calloc e n f = Some (r, f')"
  obtains h a h1 m where "fs_space (ensure_space e f) = Some h"
    "ho_calloc (pe_space_ops e) 1 (n + 4095) h (memory_of (ensure_space e f)) = (a, h1, m)"
    "r = (a + 4095) AND NOT 4095" "r \<noteq> 0" "f' = with_memory m ((ensure_space e f)\<lparr>fs_space := Some h1\<rparr>)"
proof -
  from assms obtain h where h: "fs_space (ensure_space e f) = Some h" by (auto simp: pmdk_pagealigned_calloc_def Let_def bind_eq_Some_conv)
  with assms that show thesis
    by (cases "ho_calloc (pe_space_ops e) 1 (n + 4095) h (memory_of (ensure_space e f))")
      (auto simp: pmdk_pagealigned_calloc_def Let_def split: if_split_asm)
qed

lemma aligned_keeps:
  assumes "files_typed f" "pmdk_pagealigned_calloc e n f = Some (a, f')" "names_intact f f'"
  shows "keeps_files f f'"
proof -
  let ?f = "ensure_space e f"
  note en = ensured_files [OF assms(1), where e = e]
  have typed: "files_typed ?f" using en(1,2,7) assms(1) unfolding files_typed_def en(5,6) by blast
  have "getRegionFromID i ?f = getRegionFromID i f" for i by (simp add: getRegionFromID_def en(5))
  then have block: "block_of ?f = block_of f" by (intro ext) (simp add: block_of_def en(6))
  have "same_table ?f f'" using assms(2) by (rule pagealignedE) (simp add: same_table_def with_memory_def)
  from same_table_keeps [OF typed this ensured_files(9) [OF assms(1,3)]] block show ?thesis by (simp add: keeps_files_def)
qed

lemma file_step_keeps:
  assumes "files_typed f" "call_fair e c f" "file_step e c f = Some f'"
  shows "keeps_files f f'"
proof (cases c)
  case (Map_File path len)
  with assms obtain a b where m: "files_ok f" "mapped_well e path len f" "pmem_map_file e path len f = Some (a, b, f')"
    by (auto simp: files_ok_def)
  show ?thesis
  proof (cases "text_at (memory_of f) path")
    case (Some name)
    from map_file_result(1) [OF m(1,2) this m(3)] show ?thesis .
  next
    case None
    have "f' = f" using m(3)
    proof (cases rule: map_fileE)
      case (2 f1 f2 x c)
      from 2(2) None show ?thesis by (rule_tac enter_name_text) auto
    qed simp
    with assms(1) show ?thesis by (simp add: keeps_files_refl)
  qed
next
  case (Register_File path a)
  with assms register_file_keeps [of f e path a] show ?thesis by (auto simp: files_ok_def)
next
  case (Aligned_Calloc n)
  with assms aligned_keeps [OF assms(1)] show ?thesis by (auto split: option.splits)
next
  case (Set_Region ID ptr)
  with assms set_region_keeps show ?thesis by auto
next
  case (Crash saved)
  with assms crash_keeps show ?thesis by auto
qed (use assms vm_same in \<open>auto intro!: same_table_keeps split: option.splits\<close>)

interpretation file_table: registry files_typed block_of "file_step e" "call_fair e" for e
  by unfold_locales (auto dest: file_step_keeps simp: keeps_files_def)

abbreviation file_steps :: "'h pmem_env \<Rightarrow> 'h file_call list \<Rightarrow> 'h files \<Rightarrow> 'h files option" where
  "file_steps e \<equiv> file_table.calls e"

abbreviation all_fair_calls :: "'h pmem_env \<Rightarrow> 'h file_call list \<Rightarrow> 'h files \<Rightarrow> bool" where
  "all_fair_calls e \<equiv> file_table.all_fair e"


section \<open>An example\<close>

text \<open>
  Blocks of 64 KiB one after the other from the start of the region on, a memory of zeros, so
  that every path is the empty name.
\<close>

definition demo_heap :: "nat heap_ops" where
  "demo_heap = \<lparr>ho_malloc = (\<lambda>n h. (of_nat (4096 + 65536 * h), h + 1)), ho_calloc = (\<lambda>c n h m. (of_nat (4100 + 65536 * h), h + 1, m)),
     ho_realloc = (\<lambda>a n h m. (a, h, m)), ho_memalign = (\<lambda>al n h. (of_nat (4096 + 65536 * h), h + 1)), ho_free = (\<lambda>a h. h)\<rparr>"

definition demo_env :: "nat pmem_env" where
  "demo_env = \<lparr>pe_regions = pm_regions, pe_space_ops = demo_heap, pe_libc_ops = demo_heap, pe_create = (\<lambda>_ _. 0),
     pe_memmove = None, pe_memset = None, pe_fillbyte = 0\<rparr>"

definition demo_files :: "nat files" where
  "demo_files = \<lparr>fs_client = memory_client (\<lambda>_. 0), fs_regions = [], fs_table = Some (HashTable 1024 (1/2)), fs_space = None,
     fs_libc = 0, fs_persisted = [], fs_created = []\<rparr>"

lemma fill_zeros: "fill_bytes d 0 k (\<lambda>_. 0) = (\<lambda>_. 0)"
  by (induction k arbitrary: d) (simp_all add: fun_upd_idem)

lemma empty_name: "string_end (\<lambda>_. 0) p 0 = Some 0" "p \<noteq> 0 \<Longrightarrow> text_at (\<lambda>_. 0) p = Some []"
proof -
  show "string_end (\<lambda>_. 0) p 0 = Some 0" by (subst string_end.simps) simp
  then show "p \<noteq> 0 \<Longrightarrow> text_at (\<lambda>_. 0) p = Some []" by (simp add: text_at_def)
qed

lemma demo_files_memory: "memory_of demo_files = (\<lambda>_. 0)"
  by (simp add: demo_files_def memory_client_def)

lemma demo_ok: "files_ok demo_files" "file_ID 16 demo_files = Some 0"
proof -
  have e: "entries demo_files = Map.empty" by (simp add: entries_def demo_files_def new_table)
  have typed: "files_typed demo_files"
    using e new_table by (simp add: files_typed_def table_ok_def) (simp add: demo_files_def)
  moreover have "has_room demo_files" using new_table(4) by (simp add: has_room_def demo_files_def)
  ultimately show "files_ok demo_files" by (simp add: files_ok_def)
  have "fs_table demo_files \<noteq> None" by (simp add: demo_files_def)
  moreover have "text_at (memory_of demo_files) 16 = Some []" unfolding demo_files_memory by (simp add: empty_name)
  ultimately show "file_ID 16 demo_files = Some 0" using file_ID_eq [OF typed] e by fastforce
qed

text \<open>The keys of a table after an insertion.\<close>

lemma rehash_entries: "rehash hash msk bins tbl = Some tbl' \<Longrightarrow> set tbl' \<subseteq> set tbl \<union> set bins"
proof (induction hash msk bins tbl rule: rehash.induct)
  case (2 hash msk key val bins tbl)
  show ?case
  proof (cases "key = 0")
    case False
    with 2(3) obtain i where i: "find_empty tbl msk (hash key) = Some i"
      "rehash hash msk bins (tbl[unat i := (key, val)]) = Some tbl'" by (auto simp: bind_eq_Some_conv)
    from 2(2) [OF False i] set_update_subset_insert [of tbl "unat i" "(key, val)"] show ?thesis by auto
  qed (use 2 in auto)
qed simp

lemma put_keys:
  assumes "put hash equals p i t = Some t'" "p \<noteq> 0"
  shows "table_keys t' \<subseteq> insert p (table_keys t)"
proof -
  from assms obtain t1 r where t1: "(if ht_size t > ht_threshold t then resize hash (push_bit 1 (ht_capacity t)) t else Some t) = Some t1"
    "(case r of Overwrite j \<Rightarrow> Some (t1\<lparr>ht_table := (ht_table t1)[unat j := (fst (ht_table t1 ! unat j), i)]\<rparr>)
      | Place j \<Rightarrow> Some (t1\<lparr>ht_table := (ht_table t1)[unat j := (p, i)], ht_size := ht_size t1 + 1\<rparr>)
      | Full \<Rightarrow> None) = Some t'"
    by (auto simp: put_def Let_def bind_eq_Some_conv)
  have zero: "ht_zero t1 = ht_zero t" "fst ` set (ht_table t1) \<subseteq> insert 0 (fst ` set (ht_table t))"
    using t1(1) by (auto simp: resize_def bind_eq_Some_conv dest!: rehash_entries split: if_split_asm)
  have upd: "fst ` set (xs[k := (q, i)]) \<subseteq> insert q (fst ` set xs)" for xs :: "(addr \<times> u64) list" and k q
    using set_update_subset_insert [of xs k "(q, i)"] by auto
  have keep: "fst ` set (xs[k := (fst (xs ! k), i)]) \<subseteq> fst ` set xs" for xs :: "(addr \<times> u64) list" and k
    using upd [of xs k "fst (xs ! k)"] by (cases "k < length xs") (auto simp: list_update_beyond)
  have "fst ` set (ht_table t') \<subseteq> insert p (fst ` set (ht_table t1)) \<and> ht_zero t' = ht_zero t1"
  proof (cases r)
    case (Overwrite j)
    with t1(2) have t': "t' = t1\<lparr>ht_table := (ht_table t1)[unat j := (fst (ht_table t1 ! unat j), i)]\<rparr>" by simp
    from keep [of "ht_table t1" "unat j"] show ?thesis unfolding t' by (simp add: subset_insertI2)
  next
    case (Place j)
    with t1(2) have t': "t' = t1\<lparr>ht_table := (ht_table t1)[unat j := (p, i)], ht_size := ht_size t1 + 1\<rparr>" by simp
    from upd [of "ht_table t1" "unat j" p] show ?thesis unfolding t' by simp
  qed (use t1(2) in simp)
  with zero have "fst ` set (ht_table t') \<subseteq> insert p (insert 0 (fst ` set (ht_table t)))" "ht_zero t' = ht_zero t"
    by (meson insert_mono subset_trans, simp)
  then show ?thesis by (simp add: table_keys_def image_Un) blast
qed

lemma demo_enter:
  "copied_well demo_env 16 demo_files"
  "\<exists>g. enter_name demo_env 16 1 demo_files = Some g \<and> memory_of g = (\<lambda>_. 0) \<and> fs_space g = Some 1 \<and> fs_regions g = [] \<and>
     (\<forall>t. fs_table g = Some t \<longrightarrow> table_keys t \<subseteq> {4096})"
proof -
  have h: "pmdk_malloc demo_env (0 + 1) demo_files = Some (4096, (ensure_space demo_env demo_files)\<lparr>fs_space := Some 1\<rparr>)"
    by (simp add: pmdk_malloc_def ensure_space_def pmem_init_def demo_files_def demo_env_def demo_heap_def)
  have s: "string_end (memory_of demo_files) 16 0 = Some 0" unfolding demo_files_memory by (rule empty_name(1))
  have r: "is_pmem (pe_regions demo_env) 4096" "sees_stores (\<lambda>_. 0) (fs_client demo_files)" "fits (0 + 1)" "(0 :: u64) < 0 + 1"
    "not_null 16 (0 + 1)" "not_null 4096 (0 + 1)" "apart 4096 16 (0 + 1)" "names_apart demo_files 4096 (0 + 1)"
    by (simp_all add: demo_env_def demo_files_def is_pmem_def pm_regions_def PERSISTENT_MEMORY_DEFAULT_def sees_stores_def
        memory_client contents_Nil fits_def apart_def not_nullI names_apart_def new_table)
  show well: "copied_well demo_env 16 demo_files" by (rule name_copied_well [OF s h r])
  have zeros: "copied 4096 16 k (\<lambda>_. 0) (\<lambda>_. 0) = (\<lambda>_. 0)" for k by (simp add: copied_def)
  let ?f1 = "\<lambda>c. (ensure_space demo_env demo_files)\<lparr>fs_space := Some 1, fs_client := c\<rparr>"
  from copy_name_ok [OF s h r(1-7)] obtain c where c: "copy_name demo_env 16 demo_files = Some (4096, ?f1 c)" "cl_mem c = (\<lambda>_. 0)"
    unfolding demo_files_memory zeros by blast
  define t :: file_table where "t = ht_reset (HashTable 1024 (1/2))"
  have t: "fs_table (?f1 c) = Some t" by (simp add: t_def ensure_space_def pmem_init_def demo_files_def)
  have "file_map_ok (name_at (cl_mem c)) t" "table_keys t = {}" "ht_capacity t < 2 ^ 31"
    using reset_table [OF new_table(1)] new_table(4) by (simp_all add: t_def) (simp_all add: ht_reset_def)
  note t' = this
  from put_entry [OF t'(1,3), of 4096 "ucast (1 :: u32)"] obtain t1 where
    t1: "put (file_hash (name_at (cl_mem c))) (file_equals (name_at (cl_mem c))) 4096 (ucast (1 :: u32)) t = Some t1" .
  have "text_at (cl_mem c) 4096 = Some []" unfolding c(2) by (rule empty_name) simp
  with c(1) t t1 have "enter_name demo_env 16 1 demo_files = Some ((?f1 c)\<lparr>fs_table := Some t1\<rparr>)"
    by (simp add: enter_name_def)
  moreover have "table_keys t1 \<subseteq> {4096}" using put_keys [OF t1] t'(2) by simp
  moreover have "fs_regions (ensure_space demo_env demo_files) = []" by (simp add: ensure_space_def pmem_init_def demo_files_def)
  ultimately show "\<exists>g. enter_name demo_env 16 1 demo_files = Some g \<and> memory_of g = (\<lambda>_. 0) \<and> fs_space g = Some 1 \<and> fs_regions g = [] \<and>
     (\<forall>t. fs_table g = Some t \<longrightarrow> table_keys t \<subseteq> {4096})" using c(2) by simp
qed

lemma demo_map:
  "mapped_well demo_env 16 8 demo_files"
  "\<exists>f1. pmem_map_file demo_env 16 8 demo_files = Some (69632, True, f1) \<and> memory_of f1 = (\<lambda>_. 0) \<and> fs_space f1 = Some 2 \<and>
     length (fs_regions f1) = 2 \<and> (\<forall>t. fs_table f1 = Some t \<longrightarrow> table_keys t \<subseteq> {4096})"
proof -
  from demo_enter(2) obtain g where g: "enter_name demo_env 16 1 demo_files = Some g" "memory_of g = (\<lambda>_. 0)" "fs_space g = Some 1"
    "fs_regions g = []" "\<forall>t. fs_table g = Some t \<longrightarrow> table_keys t \<subseteq> {4096}" by blast
  have i: "next_region_ID demo_files = 1" by (simp add: next_region_ID_def demo_files_def)
  have m: "pmdk_malloc demo_env 8 g = Some (69632, g\<lparr>fs_space := Some 2\<rparr>)"
    using g(3) by (simp add: pmdk_malloc_def ensure_space_def demo_env_def demo_heap_def)
  let ?f1 = "set_region 1 69632 (g\<lparr>fs_space := Some 2, fs_client := (fs_client g)\<lparr>cl_mem := (\<lambda>_. 0)\<rparr>\<rparr>)"
  have run: "pmem_map_file demo_env 16 8 demo_files = Some (69632, True, ?f1)"
    using demo_ok(2) g(1,2) m by (simp add: pmem_map_file_def i realmemset_def demo_env_def fill_zeros)
  then show "\<exists>f1. pmem_map_file demo_env 16 8 demo_files = Some (69632, True, f1) \<and> memory_of f1 = (\<lambda>_. 0) \<and> fs_space f1 = Some 2 \<and>
     length (fs_regions f1) = 2 \<and> (\<forall>t. fs_table f1 = Some t \<longrightarrow> table_keys t \<subseteq> {4096})" using g(4,5) by simp
  have "names_intact g ?f1" by (simp add: names_intact_def g(2))
  then show "mapped_well demo_env 16 8 demo_files" using demo_enter(1) g(1) run by (simp add: mapped_well_def i)
qed

text \<open>
  C38: A mapped file keeps its block: whatever files are mapped, registered and unmapped later,
  whatever is allocated and freed, whatever other regions are set, and however often the program
  crashes, which restores everything but the persistent memory, the table and the regions,
  mapping a path with the same text returns the same address, allocates nothing and leaves
  \<^verbatim>\<open>*is_pmemp\<close> alone.  The table reads the names in memory, so this needs that nobody overwrites
  the copies of the names, and that there are numbers left for new files.
\<close>
theorem mapped_file_stays:
  assumes "files_ok f" "text_at (memory_of f) path = Some name"
    "mapped_well e path len f" "pmem_map_file e path len f = Some (a, b, f1)"
    "all_fair_calls e cs f1" "file_steps e cs f1 = Some f2" "text_at (memory_of f2) path' = Some name"
  shows "pmem_map_file e path' len' f2 = Some (a, False, f2)"
proof -
  from map_file_result [OF assms(1,3,2,4)] have f1: "files_typed f1" "block_of f1 (Content (text_of name)) = Some a"
    by (simp_all add: keeps_files_def)
  from file_table.calls_keep [OF f1(1) assms(5,6)] f1(2) have f2: "files_typed f2" "block_of f2 (Content (text_of name)) = Some a"
    by (auto simp: map_le_def dom_def)
  then show ?thesis using known_file [OF f2 assms(7)] by simp
qed

theorem mapped_file_stays_witness:
  "\<exists>f1 f2. pmem_map_file demo_env 16 8 demo_files = Some (69632, True, f1) \<and>
    file_steps demo_env [Unmap 69632 8, Malloc 4, Set_Region 7 64, Crash (own_of demo_files), Go_On (memory_client (\<lambda>_. 0))] f1 = Some f2 \<and>
    pmem_map_file demo_env 32 100 f2 = Some (69632, False, f2)"
proof -
  let ?cs = "[Unmap 69632 8, Malloc 4, Set_Region 7 64, Crash (own_of demo_files), Go_On (memory_client (\<lambda>_. 0))]"
  from demo_map(2) obtain f1 where f1: "pmem_map_file demo_env 16 8 demo_files = Some (69632, True, f1)"
    "memory_of f1 = (\<lambda>_. 0)" "fs_space f1 = Some 2" "length (fs_regions f1) = 2"
    "\<forall>t. fs_table f1 = Some t \<longrightarrow> table_keys t \<subseteq> {4096}" by blast
  have name: "text_at (memory_of demo_files) 16 = Some []" unfolding demo_files_memory by (simp add: empty_name)
  from map_file_result(1) [OF demo_ok(1) demo_map(1) name f1(1)] have typed: "files_typed f1" by (simp add: keeps_files_def)
  define u where "u = f1\<lparr>fs_space := Some 2\<rparr>"
  define v where "v = u\<lparr>fs_space := Some 3, fs_client := (fs_client u)\<lparr>cl_mem := (\<lambda>_. 0)\<rparr>\<rparr>"
  define w where "w = set_region 7 64 v"
  define x where "x = crash_files demo_env (own_of demo_files) w"
  have zero: "memory_of u = (\<lambda>_. 0)" "memory_of v = (\<lambda>_. 0)" "memory_of w = (\<lambda>_. 0)" "memory_of x = (\<lambda>_. 0)"
    using f1(2) demo_files_memory by (simp_all add: u_def v_def w_def x_def crash_files_def join_parts_def shared_of_def own_of_def
        cong: if_cong)
  have unmap: "file_step demo_env (Unmap 69632 8) f1 = Some u"
    using f1(3) by (simp add: pmem_unmap_def in_persistent_region_def demo_env_def demo_heap_def pm_regions_def
        PERSISTENT_MEMORY_DEFAULT_def u_def)
  have malloc: "file_step demo_env (Malloc 4) u = Some v"
    using f1(2) by (simp add: vm_malloc_def fill_block_def demo_env_def demo_heap_def realmemset_def fill_zeros u_def v_def)
  have "names_intact f1 v" "fs_table v = fs_table f1" using f1(2) zero(2) by (simp_all add: names_intact_def u_def v_def)
  from intact_entries(1) [OF this] typed f1(4) have free: "ucast (7 :: u32) \<notin> ran (entries v)"
    by (fastforce simp: files_typed_def ran_def)
  have key: "p = 4096" if "fs_table w = Some t" "p \<in> table_keys t" for t p
    using f1(5) that by (auto simp: w_def v_def u_def)
  have "in_persistent_region demo_env 4096"
    by (simp add: in_persistent_region_def demo_env_def pm_regions_def PERSISTENT_MEMORY_DEFAULT_def)
  then have inside: "names_inside demo_env w"
    unfolding names_inside_def zero(3) using key empty_name(1) by auto
  have steps: "file_steps demo_env ?cs f1 = Some (x\<lparr>fs_client := memory_client (\<lambda>_. 0)\<rparr>)"
    using unmap malloc by (simp add: w_def x_def del: file_step.simps(3,5))
  moreover have "all_fair_calls demo_env ?cs f1"
    using unmap malloc free inside zero f1(2) by (simp add: names_intact_def w_def [symmetric] x_def [symmetric] memory_client del: file_step.simps(3,5))
  moreover have "text_at (memory_of (x\<lparr>fs_client := memory_client (\<lambda>_. 0)\<rparr>)) 32 = Some []" by (simp add: memory_client empty_name)
  ultimately show ?thesis
    using mapped_file_stays [OF demo_ok(1) name demo_map(1) f1(1)] f1(1) by blast
qed

text \<open>
  C39: Unmapping a file gives its block back to the heap but leaves its name in the table, so
  that mapping it again returns the block that was freed.
\<close>
theorem remap_returns_freed_block:
  assumes "files_ok f" "text_at (memory_of f) path = Some name"
    "mapped_well e path len f" "pmem_map_file e path len f = Some (a, b, f1)" "in_persistent_region e a"
    "fs_space f1 = Some h" "text_at (memory_of f1) path = Some name"
  shows "\<exists>f2. pmem_unmap e a len f1 = (0, f2) \<and> fs_space f2 = Some (ho_free (pe_space_ops e) a h) \<and>
    pmem_map_file e path len' f2 = Some (a, False, f2)"
proof -
  let ?f2 = "f1\<lparr>fs_space := Some (ho_free (pe_space_ops e) a h)\<rparr>"
  have unmap: "pmem_unmap e a len f1 = (0, ?f2)" using assms(5,6) by (simp add: pmem_unmap_def)
  from map_file_result [OF assms(1,3,2,4)] have f1: "files_typed f1" "block_of f1 (Content (text_of name)) = Some a"
    by (simp_all add: keeps_files_def)
  have "same_table f1 ?f2" "names_intact f1 ?f2" using assms(6) by (simp_all add: same_table_def names_intact_def)
  from same_table_keeps [OF f1(1) this] f1(2) have "files_typed ?f2" "block_of ?f2 (Content (text_of name)) = Some a"
    by (auto simp: keeps_files_def map_le_def dom_def)
  from known_file [OF this, of path e len'] assms(7) unmap show ?thesis by simp
qed

theorem remap_returns_freed_block_witness:
  "\<exists>f1 f2. pmem_map_file demo_env 16 8 demo_files = Some (69632, True, f1) \<and> pmem_unmap demo_env 69632 8 f1 = (0, f2) \<and>
    pmem_map_file demo_env 16 8 f2 = Some (69632, False, f2)"
proof -
  from demo_map(2) obtain f1 where f1: "pmem_map_file demo_env 16 8 demo_files = Some (69632, True, f1)"
    "memory_of f1 = (\<lambda>_. 0)" "fs_space f1 = Some 2" by blast
  have "in_persistent_region demo_env 69632"
    by (simp add: in_persistent_region_def demo_env_def pm_regions_def PERSISTENT_MEMORY_DEFAULT_def)
  moreover have "text_at (memory_of demo_files) 16 = Some []" "text_at (memory_of f1) 16 = Some []"
    unfolding demo_files_memory f1(2) by (simp_all add: empty_name)
  ultimately show ?thesis
    using remap_returns_freed_block [OF demo_ok(1) _ demo_map(1) f1(1) _ f1(3)] f1(1) by blast
qed

section \<open>Blocks\<close>

lemma unat_page: "unat (x AND NOT 4095 :: addr) = unat x div 4096 * 4096"
  using unat_and_not_mask [of x 12] by (simp add: mask_eq_exp_minus_1)

text \<open>
  C40: The block of \<^verbatim>\<open>pmdk_pagealigned_calloc\<close> begins at a page and lies, with all the bytes
  asked for, inside of the block that the heap returned.
\<close>
theorem pagealigned_block_inside:
  assumes "pmdk_pagealigned_calloc e n f = Some (r, f1)" "unat n + 4095 < 2 ^ 64"
    "fs_space (ensure_space e f) = Some h" "ho_calloc (pe_space_ops e) 1 (n + 4095) h (memory_of (ensure_space e f)) = (a, h1, m)"
    "unat a + unat (n + 4095) \<le> 2 ^ 64"
  shows "unat r mod 4096 = 0 \<and> r \<noteq> 0 \<and> unat a \<le> unat r \<and> unat r + unat n \<le> unat a + unat (n + 4095)"
proof -
  from assms(1,3,4) have r: "r = (a + 4095) AND NOT 4095" "r \<noteq> 0" by (auto elim: pagealignedE)
  have n: "unat (n + 4095) = unat n + 4095" using assms(2) by (simp add: unat_word_ariths)
  have page: "unat r = unat (a + 4095) div 4096 * 4096" unfolding r(1) by (rule unat_page)
  have "unat a + 4095 < 2 ^ 64"
  proof (rule ccontr)
    assume "\<not> unat a + 4095 < 2 ^ 64"
    with assms(5) n have "unat a + 4095 = 2 ^ 64" by simp
    then have "unat (a + 4095) = 0" by (simp add: unat_word_ariths)
    with page have "unat r = 0" by simp
    with r(2) show False by (simp add: unat_eq_0)
  qed
  then have "unat (a + 4095) = unat a + 4095" by (simp add: unat_word_ariths)
  with page n r(2) show ?thesis by simp
qed

theorem pagealigned_block_inside_witness:
  "\<exists>f1. pmdk_pagealigned_calloc demo_env 100 demo_files = Some (8192, f1) \<and> (8192 :: nat) + 100 \<le> 4100 + 4195"
proof -
  have h: "fs_space (ensure_space demo_env demo_files) = Some 0"
    by (simp add: ensure_space_def pmem_init_def demo_env_def demo_files_def)
  have c: "ho_calloc (pe_space_ops demo_env) 1 (100 + 4095) 0 (memory_of (ensure_space demo_env demo_files))
      = (4100, 1, memory_of (ensure_space demo_env demo_files))"
    by (simp add: demo_env_def demo_heap_def)
  obtain f1 where f1: "pmdk_pagealigned_calloc demo_env 100 demo_files = Some (8192, f1)"
    using h c by (simp add: pmdk_pagealigned_calloc_def Let_def)
  have "unat (100 :: u64) + 4095 < 2 ^ 64" "unat (4100 :: addr) + unat (100 + 4095 :: u64) \<le> 2 ^ 64" by simp_all
  from pagealigned_block_inside [OF f1 this(1) h c this(2)] f1 show ?thesis by simp
qed

section \<open>The early allocator\<close>

primrec early_requests :: "u64 list \<Rightarrow> u64 \<Rightarrow> (u64 list \<times> u64) option" where
  "early_requests [] off = Some ([], off)"
| "early_requests (sz # szs) off = do {
     (p, off1) \<leftarrow> HandleEarlyAllocationRequest sz off;
     (ps, off2) \<leftarrow> early_requests szs off1;
     Some (p # ps, off2)
   }"

lemma unat_mask8: "unat (x AND NOT 7 :: u64) = unat x div 8 * 8"
  using unat_and_not_mask [of x 3] by (simp add: mask_eq_exp_minus_1)

lemma early_request:
  assumes "HandleEarlyAllocationRequest sz off = Some (p, off')" "unat sz + 7 < 2 ^ 64" "off \<le> BOOTSTRAPBYTES" "unat off mod 8 = 0"
  shows "p = off" "unat off + unat sz \<le> unat off'" "off' \<le> BOOTSTRAPBYTES" "unat off' mod 8 = 0"
proof -
  let ?sz = "(sz + 7) AND NOT 7"
  from assms(1) have r: "p = off" "off' = off + ?sz" "?sz \<le> BOOTSTRAPBYTES - off"
    by (auto simp: HandleEarlyAllocationRequest_def Let_def split: if_split_asm)
  have "unat ?sz = (unat sz + 7) div 8 * 8" unfolding unat_mask8 using assms(2) by (simp add: unat_word_ariths)
  moreover have "unat (BOOTSTRAPBYTES - off) = 131072 - unat off" "unat off \<le> 131072"
    using assms(3) by (simp_all add: BOOTSTRAPBYTES_def unat_sub word_le_nat_alt)
  moreover from this r(3) have "unat ?sz \<le> 131072 - unat off" by (simp only: word_le_nat_alt)
  ultimately have "unat off' = unat off + (unat sz + 7) div 8 * 8" "unat off' \<le> 131072"
    using r(2) by (simp_all add: unat_word_ariths)
  with assms(4) r(1) show "p = off" "unat off + unat sz \<le> unat off'" "off' \<le> BOOTSTRAPBYTES" "unat off' mod 8 = 0"
    by (simp_all add: BOOTSTRAPBYTES_def word_le_nat_alt mod_simps)
qed

text \<open>
  The blocks handed out before the C library is ready are aligned to eight bytes, lie
  inside of the reserved array and do not overlap; the requests are below \<open>2 ^ 64 - 7\<close> bytes.
\<close>
theorem early_blocks:
  assumes "early_requests szs off = Some (ps, off')" "\<forall>sz \<in> set szs. unat sz + 7 < 2 ^ 64"
    "off \<le> BOOTSTRAPBYTES" "unat off mod 8 = 0"
  shows "off' \<le> BOOTSTRAPBYTES \<and> unat off \<le> unat off' \<and>
    list_all2 (\<lambda>p sz. unat p mod 8 = 0 \<and> unat off \<le> unat p \<and> unat p + unat sz \<le> unat off') ps szs \<and>
    sorted_wrt (\<lambda>(p, sz) (q, _). unat p + unat sz \<le> unat q) (zip ps szs)"
  using assms
proof (induction szs arbitrary: off ps)
  case (Cons sz szs)
  from Cons.prems(1) obtain p off1 qs where r: "HandleEarlyAllocationRequest sz off = Some (p, off1)"
    "early_requests szs off1 = Some (qs, off')" "ps = p # qs" by (auto simp: bind_eq_Some_conv)
  from early_request [OF r(1)] Cons.prems have p: "p = off" "unat off + unat sz \<le> unat off1" "off1 \<le> BOOTSTRAPBYTES"
    "unat off1 mod 8 = 0" by simp_all
  from Cons.IH [OF r(2) _ p(3,4)] Cons.prems(2) have ih: "off' \<le> BOOTSTRAPBYTES" "unat off1 \<le> unat off'"
    "list_all2 (\<lambda>p sz. unat p mod 8 = 0 \<and> unat off1 \<le> unat p \<and> unat p + unat sz \<le> unat off') qs szs"
    "sorted_wrt (\<lambda>(p, sz) (q, _). unat p + unat sz \<le> unat q) (zip qs szs)" by simp_all
  have "list_all2 (\<lambda>p sz. unat p mod 8 = 0 \<and> unat off \<le> unat p \<and> unat p + unat sz \<le> unat off') qs szs"
    using ih(3) by (rule list_all2_mono) (use p(2) in auto)
  moreover have "\<forall>(q, _) \<in> set (zip qs szs). unat p + unat sz \<le> unat q"
    using ih(3) p(1,2) by (auto simp: list_all2_iff)
  ultimately show ?case using ih p r(3) Cons.prems(4) by auto
qed simp

theorem early_blocks_witness:
  "early_requests [5, 100] 0 = Some ([0, 8], 112) \<and> (112 :: u64) \<le> BOOTSTRAPBYTES"
proof -
  have "early_requests [5, 100] 0 = Some ([0, 8], 112)"
    by (simp add: HandleEarlyAllocationRequest_def BOOTSTRAPBYTES_def)
  with early_blocks [OF this] show ?thesis by (simp add: BOOTSTRAPBYTES_def)
qed

end
