(* ===== verification/Start_Up.thy ===== *)
theory Start_Up
  imports Machine
begin

text \<open>
  \<^verbatim>\<open>main.cc\<close> and \<^verbatim>\<open>Plugins/plugins.cc\<close>: the parameters of the checker, which it reads from an
  environment variable, and the analyses that they switch on.  \<^verbatim>\<open>getopt_long\<close> of the C library,
  which turns arguments into options, and \<^verbatim>\<open>atoi\<close> are parameters.
\<close>

section \<open>Parameters\<close>

text \<open>
  The parameters of the machine, those that only the start of the checker uses, the byte that
  new memory is filled with, and the analyses.
\<close>

record run_params = model_params +
  rp_nofork :: bool
  rp_verbose :: int
  rp_pmdebug :: u32
  rp_printSpace :: bool
  rp_dumpStack :: bool
  rp_file :: "u8 list option"
  rp_randomSeed :: int
  rp_FILLBYTE :: int
  rp_registered :: "string list"
  rp_installed :: "string list"

text \<open>The defaults; \<open>dbg\<close> says whether the checker was compiled for debugging.\<close>

definition param_defaults :: "bool \<Rightarrow> run_params \<Rightarrow> run_params" where
  "param_defaults dbg ps = ps\<lparr>p_firstCrash := 0, rp_verbose := (if dbg then 1 else 0), rp_nofork := False,
     p_evictmax := 10, p_storebufferthreshold := 15, rp_pmdebug := 0, rp_printSpace := False,
     rp_dumpStack := False, p_numcrashes := 1, rp_file := None, p_enableCrash := True,
     p_enablePersistrace := False, p_randomExecution := - 1, rp_randomSeed := 423121\<rparr>"

fun enable_loop :: "string \<Rightarrow> string list \<Rightarrow> string list \<Rightarrow> string list" where
  "enable_loop name [] installed = installed"
| "enable_loop name (a # as') installed = enable_loop name as' (if a = name then installed @ [a] else installed)"

definition enableAnalysis :: "string \<Rightarrow> run_params \<Rightarrow> run_params" where
  "enableAnalysis name ps = ps\<lparr>rp_installed := enable_loop name (rp_registered ps) (rp_installed ps)\<rparr>"

definition registerAnalyses :: "run_params \<Rightarrow> run_params" where
  "registerAnalyses ps = ps\<lparr>rp_registered := [''PM-Verfier'', ''PersistRace''], rp_installed := []\<rparr>"

section \<open>Splitting the variable\<close>

text \<open>The bytes of a C string, without its terminator.\<close>

abbreviation space :: u8 where "space \<equiv> 32"

fun count_args :: "u8 list \<Rightarrow> nat \<Rightarrow> nat" where
  "count_args [] argc = argc"
| "count_args (c # cs) argc = (if c = 0 then argc else count_args cs (if c = space then argc + 1 else argc))"

text \<open>From position \<open>i\<close> on: the copy with spaces overwritten, and where the arguments after them begin.\<close>

fun split_loop :: "nat \<Rightarrow> u8 list \<Rightarrow> u8 list \<times> nat list" where
  "split_loop i [] = ([], [])"
| "split_loop i (c # cs) =
     (if c = 0 then (c # cs, [])
      else (let (cs1, offs) = split_loop (i + 1) cs
            in if c = space then (0 # cs1, (i + 1) # offs) else (c # cs1, offs)))"

text \<open>The number of arguments, the copy, and the offsets of the arguments in it; the first argument is null.\<close>

definition split_options :: "u8 list \<Rightarrow> nat \<times> u8 list \<times> nat option list" where
  "split_options options =
     (let argc = count_args options 1 + 1; (optcpy, offs) = split_loop 0 options
      in (argc, optcpy, None # Some 0 # map Some offs))"

section \<open>Options\<close>

datatype parsed = Parsed run_params | Usage run_params

text \<open>
  One option with its argument; \<open>Usage\<close> ends the program after the help text.  A missing
  argument where one is read is a use of the null pointer.
\<close>

definition number_or :: "(u8 list \<Rightarrow> int) \<Rightarrow> int \<Rightarrow> u8 list option \<Rightarrow> int" where
  "number_or atoi d arg = (case arg of None \<Rightarrow> d | Some t \<Rightarrow> atoi t)"

definition apply_option :: "(u8 list \<Rightarrow> int) \<Rightarrow> bool \<Rightarrow> char \<Rightarrow> u8 list option \<Rightarrow> run_params \<Rightarrow> parsed option" where
  "apply_option atoi dbg opt arg ps =
     (if opt = CHR ''h'' then Some (Usage (param_defaults dbg ps))
      else if opt = CHR ''s'' then Some (Parsed (ps\<lparr>rp_printSpace := True\<rparr>))
      else if opt = CHR ''n'' then Some (Parsed (ps\<lparr>rp_nofork := True\<rparr>))
      else if opt = CHR ''e'' then Some (Parsed (ps\<lparr>p_enableCrash := False\<rparr>))
      else if opt = CHR ''t'' then Some (Parsed (ps\<lparr>rp_dumpStack := True\<rparr>))
      else if opt = CHR ''v'' then Some (Parsed (ps\<lparr>rp_verbose := number_or atoi 1 arg\<rparr>))
      else if opt = CHR ''p'' then Some (Parsed (ps\<lparr>rp_pmdebug := of_int (number_or atoi 1 arg)\<rparr>))
      else if opt = CHR ''x'' then Some (Parsed (ps\<lparr>p_randomExecution := number_or atoi 30 arg\<rparr>))
      else if opt = CHR ''a'' then Some (Parsed (ps\<lparr>rp_randomSeed := number_or atoi 423121 arg\<rparr>))
      else if opt = CHR ''y'' then Some (Parsed (enableAnalysis ''PersistRace'' (ps\<lparr>p_enablePersistrace := True\<rparr>)))
      else if opt = CHR ''f'' then map_option (\<lambda>t. Parsed (ps\<lparr>rp_FILLBYTE := atoi t\<rparr>)) arg
      else if opt = CHR ''r'' then map_option (\<lambda>t. Parsed (ps\<lparr>p_firstCrash := of_int (atoi t)\<rparr>)) arg
      else if opt = CHR ''c'' then map_option (\<lambda>t. Parsed (ps\<lparr>p_numcrashes := unat (of_int (atoi t) :: u32)\<rparr>)) arg
      else if opt = CHR ''d'' then map_option (\<lambda>t. Parsed (ps\<lparr>rp_file := Some t\<rparr>)) arg
      else Some (Usage (param_defaults dbg ps)))"

text \<open>The options in the order in which \<^verbatim>\<open>getopt_long\<close> delivers them.\<close>

fun option_loop :: "(u8 list \<Rightarrow> int) \<Rightarrow> bool \<Rightarrow> (char \<times> u8 list option) list \<Rightarrow> run_params \<Rightarrow> parsed option" where
  "option_loop atoi dbg [] ps = Some (Parsed ps)"
| "option_loop atoi dbg ((opt, arg) # opts) ps =
     (case apply_option atoi dbg opt arg ps of
        None \<Rightarrow> None
      | Some (Usage ps1) \<Rightarrow> Some (Usage ps1)
      | Some (Parsed ps1) \<Rightarrow> option_loop atoi dbg opts ps1)"

definition argument_at :: "u8 list \<Rightarrow> nat \<Rightarrow> u8 list" where
  "argument_at optcpy k = takeWhile (\<lambda>c. c \<noteq> 0) (drop k optcpy)"

definition parse_options :: "(u8 list option list \<Rightarrow> (char \<times> u8 list option) list) \<Rightarrow> (u8 list \<Rightarrow> int) \<Rightarrow> bool \<Rightarrow>
    u8 list option \<Rightarrow> run_params \<Rightarrow> parsed option" where
  "parse_options getopt_long atoi dbg env ps = (case env of
       None \<Rightarrow> Some (Parsed ps)
     | Some options \<Rightarrow>
         let (argc, optcpy, argv) = split_options options
         in option_loop atoi dbg (getopt_long (map (map_option (argument_at optcpy)) (take argc argv))) ps)"

section \<open>What the splitting does\<close>

fun join_args :: "u8 list list \<Rightarrow> u8 list" where
  "join_args [] = []"
| "join_args [x] = x"
| "join_args (x # xs) = x @ space # join_args xs"

lemma count_args_split: "count_args cs n = n + length (snd (split_loop i cs))"
proof (induction cs arbitrary: i n)
  case (Cons c cs)
  show ?case using Cons.IH [of "n + 1" "i + 1"] Cons.IH [of n "i + 1"] by (simp add: split_beta)
qed simp

lemma split_loop_offsets:
  "split_loop (i + j) cs = (fst (split_loop i cs), map (\<lambda>k. k + j) (snd (split_loop i cs)))"
proof (induction cs arbitrary: i)
  case (Cons c cs)
  show ?case using Cons.IH [of "i + 1"] by (simp add: split_beta)
qed simp

lemma join_args_Cons: "xs \<noteq> [] \<Longrightarrow> join_args (x # xs) = x @ space # join_args xs"
  by (cases xs) simp_all

lemma split_texts:
  assumes "0 \<notin> set cs"
  shows "join_args (map (argument_at (fst (split_loop 0 cs))) (0 # snd (split_loop 0 cs))) = cs \<and>
    (\<forall>a \<in> set (map (argument_at (fst (split_loop 0 cs))) (0 # snd (split_loop 0 cs))). space \<notin> set a)"
  using assms
proof (induction cs)
  case Nil
  then show ?case by (simp add: argument_at_def)
next
  case (Cons c cs)
  obtain cs1 offs where s: "split_loop 0 cs = (cs1, offs)" by (cases "split_loop 0 cs")
  with split_loop_offsets [of 0 1 cs] have s1: "split_loop (Suc 0) cs = (cs1, map Suc offs)" by simp
  have later: "map (argument_at (x # cs1)) (map Suc ks) = map (argument_at cs1) ks" for x ks
    by (simp add: argument_at_def)
  from Cons s have ih: "join_args (map (argument_at cs1) (0 # offs)) = cs"
    "\<forall>a \<in> set (map (argument_at cs1) (0 # offs)). space \<notin> set a" by simp_all
  show ?case
  proof (cases "c = space")
    case True
    with Cons.prems have "split_loop 0 (c # cs) = (0 # cs1, 1 # map Suc offs)" by (simp add: s1)
    moreover have "argument_at (0 # cs1) 0 = []" by (simp add: argument_at_def)
    moreover have "map (argument_at (0 # cs1)) (1 # map Suc offs) = map (argument_at cs1) (0 # offs)"
      using later [of 0 "0 # offs"] by simp
    ultimately have "map (argument_at (fst (split_loop 0 (c # cs)))) (0 # snd (split_loop 0 (c # cs)))
        = [] # map (argument_at cs1) (0 # offs)" by simp
    then show ?thesis using ih True by (simp only: join_args_Cons list.map list.set) (auto simp: join_args_Cons)
  next
    case False
    with Cons.prems have "split_loop 0 (c # cs) = (c # cs1, map Suc offs)" by (simp add: s1)
    moreover have "argument_at (c # cs1) 0 = c # argument_at cs1 0" using Cons.prems by (simp add: argument_at_def)
    moreover note later [of c offs]
    ultimately have "map (argument_at (fst (split_loop 0 (c # cs)))) (0 # snd (split_loop 0 (c # cs)))
        = (c # argument_at cs1 0) # map (argument_at cs1) offs" by simp
    then show ?thesis using ih False by (cases offs) (simp_all only: list.map, auto simp: join_args_Cons)
  qed
qed

text \<open>
  The environment variable is split at every space, and nowhere else: there are as many
  arguments as were counted, none contains a space, and joined by spaces they are the text of
  the variable again.
\<close>
theorem split_options_roundtrip:
  assumes "0 \<notin> set options" "split_options options = (argc, optcpy, argv)"
  shows "length argv = argc \<and> hd argv = None \<and>
    (let texts = map (\<lambda>k. argument_at optcpy (the k)) (tl argv)
     in join_args texts = options \<and> (\<forall>a \<in> set texts. space \<notin> set a))"
proof -
  obtain offs where s: "split_loop 0 options = (optcpy, offs)" "argc = count_args options 1 + 1" "argv = None # Some 0 # map Some offs"
    using assms(2) by (auto simp: split_options_def split: prod.splits)
  with split_texts [OF assms(1)] count_args_split [of options 1 0] show ?thesis by (simp add: comp_def)
qed

theorem split_options_roundtrip_witness:
  "\<exists>argc optcpy argv. split_options [45, 110, 32, 32, 45, 118] = (argc, optcpy, argv) \<and> length argv = 4 \<and>
    map (\<lambda>k. argument_at optcpy (the k)) (tl argv) = [[45, 110], [], [45, 118]]"
proof -
  have s: "split_options [45, 110, 32, 32, 45, 118] = (4, [45, 110, 0, 0, 45, 118], [None, Some 0, Some 3, Some 4])"
    by (simp add: split_options_def)
  have "0 \<notin> set [45, 110, 32, 32, 45, 118 :: u8]" by simp
  from split_options_roundtrip [OF this s] s show ?thesis by (simp add: argument_at_def)
qed

end
