(* ===== verification/Spec2Isabelle.thy ===== *)
theory Spec2Isabelle
  imports Race_Detector Persistency Read_Narrowing Thread_Table Checker_Stacks Collections Action_Trace Pmem_Claims Persist_Claims Hash_Functions Snapshot_Claims Vectors Thread_Claims File_Claims Start_Up
begin

text \<open>
  Jaaru, a model checker for programs that keep data in persistent memory.

  The program under test is instrumented: every load, store, flush and fence, and every call
  of a threading function, hands an action to the checker (\<^verbatim>\<open>API/\<close>, \<^verbatim>\<open>Scheduler/pthread.cc\<close>).
  The checker keeps one pending action per thread, picks a thread (\<^verbatim>\<open>Scheduler/\<close>) and performs
  its action (\<^verbatim>\<open>Model/execution.cc\<close>): a store goes into the store buffer of its thread and from
  there to the list of writes of its cache line, a flush into the flush buffer and from there to
  the write-back window of its line, a load finds the stores it may read.  At certain points
  the checker lets the program crash and starts it again; a load of the new execution may then
  read what any point of the window of a line may have left in memory.  Which crash, which store
  and which thread is a decision on a stack (\<^verbatim>\<open>Model/nodestack.cc\<close>), and the driver
  (\<^verbatim>\<open>Model/model.cc\<close>) explores all of them by snapshots and replay (\<^verbatim>\<open>Memory/snapshot.cc\<close>).
  Beside this run a data race detector (\<^verbatim>\<open>Model/datarace.cc\<close>) and an analysis of persistency
  races (\<^verbatim>\<open>Plugins/\<close>).

  \<^bold>\<open>Conventions.\<close>  The state is a record that is passed along; a step gives an option, \<open>None\<close>
  being a failed \<^verbatim>\<open>ASSERT\<close>, a use of a null or dangling pointer, an access outside of an
  array, or a loop that does not end.  Pointers are numbers (object numbers inside of the
  checker, 64-bit addresses in the program), machine integers have the width of the source
  where they can wrap around; sequence numbers and thread identities are natural numbers.
  Definitions have the names of the functions they model.

  \<^bold>\<open>Basis.\<close>  \<open>Prelude\<close> has the machine types, the fact collections and the lemmas on lists
  and words that the components share; \<open>Cache_Lines\<close> reads addresses as numbers;
  \<open>Demo_Machine\<close> has the small machines on which the properties are evaluated.

  \<^bold>\<open>Clocks, actions, decisions.\<close>
  \<^item> \<open>Clock_Vector\<close>: \<^verbatim>\<open>Model/clockvector.cc\<close>.  Merging gives least upper bounds.
  \<^item> \<open>Actions\<close>: \<^verbatim>\<open>Model/action.cc\<close> with the two unions of \<^verbatim>\<open>ModelAction\<close> kept as unions.
  \<^item> \<open>Node_Stack\<close>, \<open>Crash_Exploration\<close>: \<^verbatim>\<open>Model/nodestack.cc\<close> and what the driver does to the
    stacks.  Repeated runs visit every outcome of a finite tree of decisions once, also when
    executions crash and each has a stack of its own.

  \<^bold>\<open>Race detector.\<close>  \<open>Race_Shadow\<close> (compact and expanded records), \<open>Race_Check\<close> (the checks),
  \<open>Race_Lemmas\<close>, \<open>Race_Detector\<close>: \<^verbatim>\<open>Model/datarace.cc\<close>.  Every check implements a
  specification on access histories; the word checks are checks of each byte.

  \<^bold>\<open>Buffers and loads.\<close>
  \<^item> \<open>Machine\<close>: the state of \<^verbatim>\<open>ModelChecker\<close>, \<^verbatim>\<open>ModelExecution\<close>, \<^verbatim>\<open>Thread\<close>, \<^verbatim>\<open>ThreadMemory\<close>,
    \<^verbatim>\<open>CacheLine\<close> and \<^verbatim>\<open>Scheduler\<close>.
  \<^item> \<open>Store_Buffer\<close>, \<open>Store_Lemmas\<close>, \<open>Persistency\<close>: \<^verbatim>\<open>Model/threadmemory.cc\<close> and the eviction
    half of \<^verbatim>\<open>Model/execution.cc\<close>: the drain order, what a drained flush makes persistent.
  \<^item> \<open>Reads\<close>, \<open>Read_Lemmas\<close>, \<open>Read_Candidates\<close>, \<open>Read_Narrowing\<close>: the reading half.  The
    candidates of a load are exactly the states left by the admissible write-back points, and
    choosing one leaves it as the only candidate of its byte.

  \<^bold>\<open>Scheduling and steps.\<close>
  \<^item> \<open>Scheduling\<close>, \<open>Waiting\<close>: \<^verbatim>\<open>Scheduler/schedule.cc\<close>, \<^verbatim>\<open>fuzzer.cc\<close>, \<^verbatim>\<open>Thread::is_waiting_on\<close>:
    progress, deadlocks, and exactly when the loop over waiting threads ends.
  \<^item> \<open>Steps\<close> with \<open>Step_Frame\<close> (what a step leaves alone), \<open>Mutex_Steps\<close>, \<open>Sync_Steps\<close>,
    \<open>Thread_Table\<close>: \<^verbatim>\<open>take_step\<close> and all it calls.  Mutex operations refine a map from
    mutexes to owners.
  \<^item> \<open>Checker\<close>, \<open>Checker_Stacks\<close>: \<^verbatim>\<open>Model/model.cc\<close>; a crash and the end of an execution do to
    the stacks what \<open>Crash_Exploration\<close> says.
  \<^item> \<open>Snapshots\<close>, \<open>Snapshot_Claims\<close>: \<^verbatim>\<open>Memory/snapshot.cc\<close>.  The tree of forked processes is a
    stack of saved memories, and a roll-back is the assignment of saved fields that
    \<open>Checker\<close> takes it to be.

  \<^bold>\<open>Containers.\<close>
  \<^item> \<open>Linked_List\<close>, \<open>Vectors\<close>: \<^verbatim>\<open>Collection/stl-model.h\<close>; \<open>Hash_Table\<close>, \<open>Hash_Lemmas\<close>, \<open>Hash_Probe\<close>,
    \<open>Hash_Ops\<close>, \<open>Hash_Map\<close>, \<open>Hash_Set\<close>, \<open>Collections\<close>: \<^verbatim>\<open>Collection/hashtable.h\<close> and
    \<^verbatim>\<open>hashset.h\<close>; \<open>Content_Keys\<close>, \<open>Hash_Functions\<close>: tables whose keys are compared by what they
    point to.  The operations refine those on sequences, maps and sets.
  \<^item> \<open>Action_List\<close>, \<open>Action_Trie\<close>, \<open>Action_Insert\<close>, \<open>Action_Remove\<close>, \<open>Action_Trace\<close>:
    \<^verbatim>\<open>Collection/actionlist.cc\<close> is a stable sort by clock.

  \<^bold>\<open>What the program calls.\<close>  Here the checker and the other threads are the parameter: they
  answer as a function of all that the thread has handed over.
  \<^item> \<open>API_Calls\<close>: \<^verbatim>\<open>API/atomicapi.cc\<close>, \<^verbatim>\<open>pmcheckapi.cc\<close>.
  \<^item> \<open>Pmem_Ops\<close>, \<open>Pmem_Bytes\<close>, \<open>Pmem_Memory\<close>, \<open>Pmem_Claims\<close>: \<^verbatim>\<open>Memory/libpmem.cc\<close> and
    \<^verbatim>\<open>persistentmemory.cc\<close>: copies and fills are right byte by byte when the checker answers
    as a memory does, and flush exactly the lines of the destination.
  \<^item> \<open>File_Map\<close>, \<open>File_Claims\<close>: mapped files, regions and allocation (\<^verbatim>\<open>Memory/libpmem.cc\<close>,
    \<^verbatim>\<open>vmem.cc\<close>, \<^verbatim>\<open>mymemory.cc\<close>).  The table of files is the one of \<open>Hash_Table\<close>: its keys are
    pointers to copies of the names, which it hashes and compares as they are in memory at each
    call.  A crash is a roll-back of \<open>Snapshots\<close> that brings back the process and keeps what is
    shared (\<open>crash_is_roll_back\<close>).  A file keeps its block across later calls and crashes.
  \<^item> \<open>Thread_API\<close>, \<open>Thread_Claims\<close>: \<^verbatim>\<open>Scheduler/pthread.cc\<close>, \<^verbatim>\<open>mutex.cc\<close>,
    \<^verbatim>\<open>conditionvariable.cc\<close>, \<^verbatim>\<open>sleeps.cc\<close>, \<^verbatim>\<open>threads.cc\<close>: which actions the calls hand over, and the maps
    from the objects of the program to the mutexes and condition variables of the checker, each
    an object of its kind.
  \<^item> \<open>Persist_Race\<close>, \<open>Persist_Claims\<close>: \<^verbatim>\<open>Plugins/persistrace.cc\<close>, \<^verbatim>\<open>analysis.cc\<close>: the racing
    bytes are those for which no flush is known; every one is counted, and every position of the
    source is reported once.  A message is kept as the values that are printed.

  \<^bold>\<open>Start-up.\<close>  \<open>Start_Up\<close>: the parameters, the splitting of the environment variable that sets
  them and the effect of each option (\<^verbatim>\<open>main.cc\<close>), and which analyses run (\<^verbatim>\<open>Plugins/plugins.cc\<close>).

  \<^bold>\<open>Interfaces.\<close>  Locales state what a client relies on: maps and sets of the containers,
  sequences, the stack of snapshots, lazily made objects, the registry of files, byte accesses,
  the updates that an observation of the checker survives.  Each is interpreted on the
  definitions of the component that provides it.

  \<^bold>\<open>Loops and bounds.\<close>  Loops that need not end (probing a full table, following waiting
  threads, copying with a 32-bit offset, looking for the end of a string) are partial
  functions into an option; the theorems say when they give a result.  Copies and fills are
  shown to end for \<open>fits n\<close>, lengths up to 2^32 - 8, and not to end from 2^32 on.  Tables and
  vectors grow up to 2^31 slots, where the doubled capacity still fits into 32 bits; snapshots
  nest less than 2^32 - 1 deep, so that no identity is the reserved -1.

  \<^bold>\<open>Assumptions.\<close>  Allocators do not fail silently and never give out a live block twice
  (\<open>allocator_ok\<close>); other threads keep initialised mutexes and condition variables
  (\<open>others_steady\<close>); the copy of a file's name reads as the name, and neither making it nor
  setting the new block to zero changes the other names (\<open>copied_well\<close>, \<open>mapped_well\<close>, shown
  for a checker that answers as a memory does and blocks apart from the names); the program
  does not overwrite the copies of the names and does not set the region of a file
  (\<open>call_fair\<close>); region numbers fit into 32 bits and the table can grow (\<open>has_room\<close>).  Each is a hypothesis of the theorems that use it.

  \<^bold>\<open>Not modelled.\<close>  \<^verbatim>\<open>Memory/malloc.c\<close> and \<^verbatim>\<open>Utils/printf.c\<close> are third-party code; heaps are
  parameters.  Left out as effects on the process or output only: reserving memory by
  \<^verbatim>\<open>mmap\<close>, \<^verbatim>\<open>ucontext\<close> switching, stacks and thread-local storage, signal handlers, the look-up of library
  functions by the dynamic linker, \<^verbatim>\<open>getopt_long\<close>, redirection of output, statistics with
  \<^verbatim>\<open>computeCombinations\<close>, and all printing.  \<^verbatim>\<open>SnapList\<close> and \<^verbatim>\<open>SnapVector\<close> repeat \<^verbatim>\<open>ModelList\<close> and
  \<^verbatim>\<open>ModelVector\<close> on another heap; freeing memory of the checker itself has no counterpart, except
  where a later access would notice.
\<close>

end
